(* ===== verification/Prelude.thy ===== *)
theory Prelude
  imports Main "HOL-Library.Word" "HOL-Library.Monad_Syntax"
begin

unbundle bit_operations_syntax

text \<open>
  What every component shares: bytes, raw buffers and little-endian fields, C strings, the
  search loop that the B+ tree uses in four places, and the collections of simp rules that
  carry the component proofs.

  A C buffer (a page, a serialised record) is a function from offsets to bytes.  Its declared
  size is not part of the type: an access at or past the size is an access outside the C object,
  so "stays inside the page" is a theorem about the offsets at which a function's result differs
  from its argument (\<open>agree_outside\<close> below), not something the type gives away.
\<close>

named_theorems buf_simps \<open>reading back what was written to a buffer\<close>
named_theorems layout_defs \<open>offsets and accessors of on-disk structures\<close>

section \<open>Bytes and buffers\<close>

type_synonym byte = "8 word"
type_synonym buf = "nat \<Rightarrow> byte"

abbreviation PAGE_SIZE :: nat where "PAGE_SIZE \<equiv> 4096"

abbreviation UINT32_MAX :: nat where "UINT32_MAX \<equiv> 4294967295"

abbreviation INVALID_PAGE_NUM :: nat where "INVALID_PAGE_NUM \<equiv> UINT32_MAX"

text \<open>\<open>malloc\<close> followed by \<open>memset(p, 0, n)\<close>: a zeroed object.\<close>

definition zero_buf :: buf where
  "zero_buf = (\<lambda>_. 0)"

text \<open>\<open>memcpy(b + off, bs, length bs)\<close> and reading \<open>n\<close> bytes from \<open>b + off\<close>.\<close>

definition put_bytes :: "buf \<Rightarrow> nat \<Rightarrow> byte list \<Rightarrow> buf" where
  "put_bytes b off bs = (\<lambda>i. if off \<le> i \<and> i < off + length bs then bs ! (i - off) else b i)"

definition get_bytes :: "buf \<Rightarrow> nat \<Rightarrow> nat \<Rightarrow> byte list" where
  "get_bytes b off n = map (\<lambda>i. b (off + i)) [0..<n]"

text \<open>\<open>memcpy(dst, src, n)\<close> of whole buffers and \<open>memset(b + off, 0, n)\<close>.\<close>

definition copy_buf :: "nat \<Rightarrow> buf \<Rightarrow> buf \<Rightarrow> buf" where
  "copy_buf n dst src = (\<lambda>i. if i < n then src i else dst i)"

definition clear_bytes :: "buf \<Rightarrow> nat \<Rightarrow> nat \<Rightarrow> buf" where
  "clear_bytes b off n = (\<lambda>i. if off \<le> i \<and> i < off + n then 0 else b i)"

definition agree_outside :: "nat \<Rightarrow> nat \<Rightarrow> buf \<Rightarrow> buf \<Rightarrow> bool" where
  "agree_outside lo hi b b' \<longleftrightarrow> (\<forall>i. \<not> (lo \<le> i \<and> i < hi) \<longrightarrow> b' i = b i)"

lemma agree_outsideI: "(\<And>i. \<not> (lo \<le> i \<and> i < hi) \<Longrightarrow> b' i = b i) \<Longrightarrow> agree_outside lo hi b b'"
  by (simp add: agree_outside_def)

lemma agree_outsideD: "agree_outside lo hi b b' \<Longrightarrow> \<not> (lo \<le> i \<and> i < hi) \<Longrightarrow> b' i = b i"
  by (simp add: agree_outside_def)

lemma agree_outside_refl [simp]: "agree_outside lo hi b b"
  by (simp add: agree_outside_def)

lemma agree_outside_trans:
  "agree_outside lo hi b b' \<Longrightarrow> agree_outside lo hi b' b'' \<Longrightarrow> agree_outside lo hi b b''"
  by (simp add: agree_outside_def)

lemma agree_outside_mono:
  "agree_outside lo hi b b' \<Longrightarrow> lo' \<le> lo \<Longrightarrow> hi \<le> hi' \<Longrightarrow> agree_outside lo' hi' b b'"
  by (auto simp: agree_outside_def)

lemma length_get_bytes [simp]: "length (get_bytes b off n) = n"
  by (simp add: get_bytes_def)

lemma get_bytes_0 [simp]: "get_bytes b off 0 = []"
  by (simp add: get_bytes_def)

lemma get_bytes_Suc: "get_bytes b off (Suc n) = b off # get_bytes b (Suc off) n"
proof -
  have "map (\<lambda>i. b (off + i)) [0..<Suc n] = b off # map (\<lambda>i. b (off + Suc i)) [0..<n]"
    by (simp add: map_upt_Suc del: upt_Suc)
  then show ?thesis by (simp add: get_bytes_def del: upt_Suc)
qed

lemma nth_get_bytes [simp]: "i < n \<Longrightarrow> get_bytes b off n ! i = b (off + i)"
  by (simp add: get_bytes_def)

lemma get_bytes_append:
  "get_bytes b off (m + n) = get_bytes b off m @ get_bytes b (off + m) n"
  by (rule nth_equalityI) (auto simp: nth_append add.assoc)

lemma put_bytes_Nil [simp]: "put_bytes b off [] = b"
  by (auto simp: put_bytes_def fun_eq_iff)

lemma put_bytes_append:
  "put_bytes b off (xs @ ys) = put_bytes (put_bytes b off xs) (off + length xs) ys"
  by (auto simp: put_bytes_def nth_append fun_eq_iff)

lemma put_bytes_outside: "\<not> (off \<le> i \<and> i < off + length bs) \<Longrightarrow> put_bytes b off bs i = b i"
  by (auto simp: put_bytes_def)

lemma put_bytes_inside: "off \<le> i \<Longrightarrow> i < off + length bs \<Longrightarrow> put_bytes b off bs i = bs ! (i - off)"
  by (auto simp: put_bytes_def)

lemma agree_outside_put [intro]:
  "lo \<le> off \<Longrightarrow> off + length bs \<le> hi \<Longrightarrow> agree_outside lo hi b (put_bytes b off bs)"
  by (auto simp: agree_outside_def put_bytes_def)

lemma get_put_same [simp, buf_simps]:
  "n = length bs \<Longrightarrow> get_bytes (put_bytes b off bs) off n = bs"
  by (auto simp: put_bytes_def intro: nth_equalityI)

lemma get_put_disjoint [buf_simps]:
  "off + length bs \<le> o' \<or> o' + n \<le> off \<Longrightarrow> get_bytes (put_bytes b off bs) o' n = get_bytes b o' n"
  by (rule nth_equalityI) (auto simp: put_bytes_def)

lemma get_bytes_cong:
  "(\<And>i. i < n \<Longrightarrow> b (off + i) = b' (off' + i)) \<Longrightarrow> get_bytes b off n = get_bytes b' off' n"
  by (auto simp: get_bytes_def)

lemma get_bytes_agree:
  "agree_outside lo hi b b' \<Longrightarrow> off + n \<le> lo \<or> hi \<le> off \<Longrightarrow> get_bytes b' off n = get_bytes b off n"
  by (rule get_bytes_cong) (auto simp: agree_outside_def)

lemma get_put_sub [buf_simps]:
  assumes "off \<le> o'" "o' + n \<le> off + length bs"
  shows "get_bytes (put_bytes b off bs) o' n = take n (drop (o' - off) bs)"
  using assms by (intro nth_equalityI) (auto simp: put_bytes_def min_def)

lemma put_get_bytes_eq: "put_bytes b off (get_bytes b off n) = b"
  by (auto simp: put_bytes_def fun_eq_iff)

section \<open>Little-endian fields\<close>

text \<open>
  The code reads and writes integers through typed pointers and \<open>memcpy\<close>; on the little-endian
  targets it is built for, an \<open>n\<close>-byte unsigned integer at \<open>off\<close> is the sum of its bytes with
  weights 1, 256, \<dots>.  \<open>wr\<close> stores the value modulo \<open>2^(8n)\<close>, as a C assignment to an
  unsigned field does.
\<close>

fun le_val :: "byte list \<Rightarrow> nat" where
  "le_val [] = 0"
| "le_val (x # xs) = unat x + 256 * le_val xs"

fun le_bytes :: "nat \<Rightarrow> nat \<Rightarrow> byte list" where
  "le_bytes 0 v = []"
| "le_bytes (Suc n) v = of_nat (v mod 256) # le_bytes n (v div 256)"

definition rd :: "nat \<Rightarrow> buf \<Rightarrow> nat \<Rightarrow> nat" where
  "rd n b off = le_val (get_bytes b off n)"

definition wr :: "nat \<Rightarrow> buf \<Rightarrow> nat \<Rightarrow> nat \<Rightarrow> buf" where
  "wr n b off v = put_bytes b off (le_bytes n v)"

lemma length_le_bytes [simp]: "length (le_bytes n v) = n"
  by (induction n arbitrary: v) auto

lemma unat_of_nat_byte [simp]: "unat (of_nat (v mod 256) :: byte) = v mod 256"
  by (simp add: unat_of_nat)

lemma le_val_le_bytes [simp]: "le_val (le_bytes n v) = v mod 256 ^ n"
  by (induction n arbitrary: v) (auto simp: mod_mult2_eq)

lemma byte_bound: "unat (x :: byte) < 256"
  using unsigned_less [of x, where ?'a = nat] by simp

lemma le_val_bound: "le_val xs < 256 ^ length xs"
proof (induction xs)
  case (Cons x xs)
  have "unat x < 256" by (rule byte_bound)
  moreover have "256 * le_val xs + 256 \<le> 256 * 256 ^ length xs"
    using Cons by simp
  ultimately show ?case by simp
qed simp

lemma le_bytes_le_val: "le_bytes (length xs) (le_val xs) = xs"
proof (induction xs)
  case (Cons x xs)
  have "unat x < 256" by (rule byte_bound)
  then have "(unat x + 256 * le_val xs) mod 256 = unat x"
    and "(unat x + 256 * le_val xs) div 256 = le_val xs"
    by auto
  with Cons show ?case by simp
qed simp

lemma le_val_inj: "length xs = length ys \<Longrightarrow> le_val xs = le_val ys \<Longrightarrow> xs = ys"
  by (metis le_bytes_le_val)

lemma rd_bound: "rd n b off < 256 ^ n"
  using le_val_bound [of "get_bytes b off n"] by (simp add: rd_def)

lemma rd_wr_same [simp, buf_simps]: "rd n (wr n b off v) off = v mod 256 ^ n"
  by (simp add: rd_def wr_def)

lemma rd_wr_disjoint [buf_simps]:
  "off + m \<le> o' \<or> o' + n \<le> off \<Longrightarrow> rd n (wr m b off v) o' = rd n b o'"
  by (simp add: rd_def wr_def get_put_disjoint)

lemma rd_put_disjoint [buf_simps]:
  "off + length bs \<le> o' \<or> o' + n \<le> off \<Longrightarrow> rd n (put_bytes b off bs) o' = rd n b o'"
  by (simp add: rd_def get_put_disjoint)

lemma get_wr_disjoint [buf_simps]:
  "off + m \<le> o' \<or> o' + n \<le> off \<Longrightarrow> get_bytes (wr m b off v) o' n = get_bytes b o' n"
  by (simp add: wr_def get_put_disjoint)

lemma agree_outside_wr [intro]:
  "lo \<le> off \<Longrightarrow> off + n \<le> hi \<Longrightarrow> agree_outside lo hi b (wr n b off v)"
  by (simp add: wr_def agree_outside_put)

lemma rd_agree:
  "agree_outside lo hi b b' \<Longrightarrow> off + n \<le> lo \<or> hi \<le> off \<Longrightarrow> rd n b' off = rd n b off"
  by (simp add: rd_def get_bytes_agree)

lemma rd_cong:
  "(\<And>i. i < n \<Longrightarrow> b (off + i) = b' (off' + i)) \<Longrightarrow> rd n b off = rd n b' off'"
  using get_bytes_cong [of n b off b' off'] by (simp add: rd_def)

lemma rd_zero_buf [simp]: "rd n zero_buf off = 0"
proof -
  have "le_val (map (\<lambda>_. 0) xs) = 0" for xs :: "nat list"
    by (induction xs) auto
  then show ?thesis by (simp add: rd_def get_bytes_def zero_buf_def)
qed

lemma rd_bounds [simp]:
  "rd 2 b off < 65536" "rd 4 b off < 4294967296" "rd (Suc 0) b off < 256"
  "rd 8 b off < 18446744073709551616"
  using rd_bound [of 2 b off] rd_bound [of 4 b off] rd_bound [of 1 b off] rd_bound [of 8 b off]
  by auto

lemma unat_mod_word [simp]:
  "unat (x :: 8 word) mod 256 = unat x"
  "unat (y :: 16 word) mod 65536 = unat y"
  "unat (z :: 32 word) mod 4294967296 = unat z"
  "unat (w :: 64 word) mod 18446744073709551616 = unat w"
  using unsigned_less [of x, where ?'a = nat] unsigned_less [of y, where ?'a = nat]
    unsigned_less [of z, where ?'a = nat] unsigned_less [of w, where ?'a = nat]
  by simp_all

section \<open>C strings\<close>

text \<open>
  A \<open>char*\<close> is the list of its bytes without the terminator; \<open>strlen\<close> stops at the first NUL,
  \<open>strcmp\<close> compares as unsigned chars and only its sign is used.  \<open>isspace\<close>, \<open>isalnum\<close>,
  \<open>isdigit\<close> and \<open>tolower\<close> are those of the C locale.
\<close>

type_synonym cstr = "byte list"

definition c_str :: "byte list \<Rightarrow> cstr" where
  "c_str bs = takeWhile (\<lambda>c. c \<noteq> 0) bs"

definition str_bytes :: "string \<Rightarrow> cstr" where
  "str_bytes s = map (\<lambda>c. of_nat (of_char c)) s"

fun strcmp :: "cstr \<Rightarrow> cstr \<Rightarrow> int" where
  "strcmp [] [] = 0"
| "strcmp [] (y # ys) = -1"
| "strcmp (x # xs) [] = 1"
| "strcmp (x # xs) (y # ys) = (if x < y then -1 else if y < x then 1 else strcmp xs ys)"

definition is_space :: "byte \<Rightarrow> bool" where
  "is_space c \<longleftrightarrow> c = 32 \<or> (9 \<le> c \<and> c \<le> 13)"

definition to_lower :: "byte \<Rightarrow> byte" where
  "to_lower c = (if 65 \<le> c \<and> c \<le> 90 then c + 32 else c)"

definition strcasecmp :: "cstr \<Rightarrow> cstr \<Rightarrow> int" where
  "strcasecmp s t = strcmp (map to_lower s) (map to_lower t)"

definition strncmp :: "cstr \<Rightarrow> cstr \<Rightarrow> nat \<Rightarrow> int" where
  "strncmp s t n = strcmp (take n s) (take n t)"

lemma strcmp_refl [simp]: "strcmp s s = 0"
  by (induction s) auto

lemma strcmp_eq_0 [simp]: "strcmp s t = 0 \<longleftrightarrow> s = t"
  by (induction s t rule: strcmp.induct) auto

lemma strcmp_swap: "strcmp t s = - strcmp s t"
  by (induction s t rule: strcmp.induct) auto

lemma strcmp_trans_le: "strcmp s t \<le> 0 \<Longrightarrow> strcmp t u \<le> 0 \<Longrightarrow> strcmp s u \<le> 0"
proof (induction s t arbitrary: u rule: strcmp.induct)
  case (1)
  then show ?case by simp
next
  case (2 y ys)
  then show ?case by (cases u) auto
next
  case (3 x xs)
  then show ?case by simp
next
  case (4 x xs y ys)
  show ?case
  proof (cases u)
    case Nil
    with 4 show ?thesis by simp
  next
    case (Cons z zs)
    with 4 show ?thesis by (auto split: if_splits)
  qed
qed

section \<open>Comparators\<close>

text \<open>
  Every search and sort of the engine goes through an \<open>int\<close>-valued comparison function.  What
  they need of it is that it is a total preorder on the keys it is given; \<open>comparator\<close> states
  that contract over a carrier \<open>ok\<close> (for floats, the values that are not NaN).
\<close>

locale comparator =
  fixes cmp :: "'a \<Rightarrow> 'a \<Rightarrow> int" and ok :: "'a \<Rightarrow> bool"
  assumes cmp_swap: "ok x \<Longrightarrow> ok y \<Longrightarrow> sgn (cmp y x) = - sgn (cmp x y)"
    and cmp_trans: "ok x \<Longrightarrow> ok y \<Longrightarrow> ok z \<Longrightarrow> cmp x y \<le> 0 \<Longrightarrow> cmp y z \<le> 0 \<Longrightarrow> cmp x z \<le> 0"
begin

lemma cmp_refl: "ok x \<Longrightarrow> cmp x x = 0"
  using cmp_swap [of x x] by (metis neg_equal_zero sgn_0_0)

lemma cmp_gt_iff: "ok x \<Longrightarrow> ok y \<Longrightarrow> cmp x y > 0 \<longleftrightarrow> cmp y x < 0"
  using cmp_swap [of x y] by (metis neg_less_0_iff_less sgn_greater sgn_less)

lemma cmp_ge_iff: "ok x \<Longrightarrow> ok y \<Longrightarrow> cmp x y \<ge> 0 \<longleftrightarrow> cmp y x \<le> 0"
  using cmp_gt_iff [of y x] by linarith

lemma cmp_less_trans: "ok x \<Longrightarrow> ok y \<Longrightarrow> ok z \<Longrightarrow> cmp x y \<le> 0 \<Longrightarrow> cmp y z < 0 \<Longrightarrow> cmp x z < 0"
  by (metis cmp_ge_iff cmp_trans linorder_not_le)

text \<open>A list in comparator order splits at any key: everything below it comes first.\<close>

lemma sorted_below_prefix:
  assumes "sorted_wrt (\<lambda>x y. cmp x y \<le> 0) xs" "\<forall>x \<in> set xs. ok x" "ok k"
    and "j < length xs" "i \<le> j" "cmp (xs ! j) k < 0"
  shows "cmp (xs ! i) k < 0"
proof (cases "i = j")
  case False
  with assms have "cmp (xs ! i) (xs ! j) \<le> 0"
    by (simp add: sorted_wrt_iff_nth_less)
  with assms show ?thesis
    by (meson cmp_less_trans le_less_trans nth_mem)
qed (use assms in simp)

text \<open>A new key goes between the keys below it and the others.\<close>

lemma sorted_insert_split:
  assumes "sorted_wrt (\<lambda>x y. cmp x y \<le> 0) xs" "\<forall>x \<in> set xs. ok x" "ok k"
    and "\<forall>x \<in> set (take n xs). cmp x k < 0" "\<forall>x \<in> set (drop n xs). \<not> cmp x k < 0"
  shows "sorted_wrt (\<lambda>x y. cmp x y \<le> 0) (take n xs @ k # drop n xs)"
proof -
  have "sorted_wrt (\<lambda>x y. cmp x y \<le> 0) (take n xs @ drop n xs)" using assms(1) by simp
  moreover have "cmp k x \<le> 0" if "x \<in> set (drop n xs)" for x
    using that assms(2,3,5) cmp_ge_iff [of x k] in_set_dropD [OF that] by auto
  ultimately show ?thesis using assms(4) unfolding sorted_wrt_append by (auto simp: less_imp_le)
qed

end

text \<open>The sign of a comparison: \<open>(a > b) - (a < b)\<close>.\<close>

definition cmp3 :: "bool \<Rightarrow> bool \<Rightarrow> int" where
  "cmp3 gt lt = (if gt then 1 else 0) - (if lt then 1 else 0)"

lemma cmp3_linear [simp]:
  fixes a b :: "'a :: linorder"
  shows "cmp3 (a > b) (a < b) < 0 \<longleftrightarrow> a < b"
    and "cmp3 (a > b) (a < b) \<le> 0 \<longleftrightarrow> a \<le> b"
    and "cmp3 (a > b) (a < b) > 0 \<longleftrightarrow> b < a"
    and "cmp3 (a > b) (a < b) = 0 \<longleftrightarrow> a = b"
  by (auto simp: cmp3_def)

lemma comparator_linorder:
  fixes f :: "'a \<Rightarrow> 'b :: linorder"
  shows "comparator (\<lambda>x y. cmp3 (f x > f y) (f x < f y)) (\<lambda>_. True)"
  by unfold_locales (auto simp: cmp3_def split: if_splits)

interpretation strcmp_order: comparator strcmp "\<lambda>_. True"
proof unfold_locales
  show "sgn (strcmp y x) = - sgn (strcmp x y)" for x y
    by (subst strcmp_swap) simp
qed (rule strcmp_trans_le)

section \<open>The search loop\<close>

text \<open>
  \<open>while (lo < hi) { mid = (lo + hi) / 2; if (below mid) lo = mid + 1; else hi = mid; }\<close>
\<close>

function lower_bound :: "(nat \<Rightarrow> bool) \<Rightarrow> nat \<Rightarrow> nat \<Rightarrow> nat" where
  "lower_bound below lo hi =
     (if lo < hi
      then (let mid = (lo + hi) div 2
            in if below mid then lower_bound below (mid + 1) hi else lower_bound below lo mid)
      else lo)"
  by pat_completeness auto
termination
  by (relation "measure (\<lambda>(_, lo, hi). hi - lo)") auto

declare lower_bound.simps [simp del]

lemma lower_bound_range: "lo \<le> hi \<Longrightarrow> lo \<le> lower_bound p lo hi \<and> lower_bound p lo hi \<le> hi"
proof (induction p lo hi rule: lower_bound.induct)
  case (1 p lo hi)
  show ?case
  proof (cases "lo < hi")
    case True
    let ?m = "(lo + hi) div 2"
    have "lo \<le> ?m" "?m < hi" using True by auto
    with True "1.IH" [OF True refl] show ?thesis
      by (subst (1 2) lower_bound.simps) (auto simp: Let_def)
  next
    case False
    with "1.prems" show ?thesis by (subst (1 2) lower_bound.simps) simp
  qed
qed

text \<open>On a downward closed predicate the loop finds its boundary.\<close>

lemma lower_bound_spec:
  assumes "lo \<le> hi" "\<And>i j. i \<le> j \<Longrightarrow> j < hi \<Longrightarrow> p j \<Longrightarrow> p i"
  shows "(\<forall>i. lo \<le> i \<longrightarrow> i < lower_bound p lo hi \<longrightarrow> p i) \<and>
         (\<forall>i. lower_bound p lo hi \<le> i \<longrightarrow> i < hi \<longrightarrow> \<not> p i)"
  using assms
proof (induction p lo hi rule: lower_bound.induct)
  case (1 p lo hi)
  show ?case
  proof (cases "lo < hi")
    case True
    let ?m = "(lo + hi) div 2"
    have m: "lo \<le> ?m" "?m < hi" using True by auto
    show ?thesis
    proof (cases "p ?m")
      case p: True
      have eq: "lower_bound p lo hi = lower_bound p (?m + 1) hi"
        using True p by (simp add: lower_bound.simps [of p lo hi] Let_def)
      have "p i" if "i \<le> ?m" for i
        using "1.prems"(2) [OF that m(2) p] .
      then show ?thesis
        using "1.IH"(1) [OF True refl p] m "1.prems" unfolding eq
        by (metis Suc_eq_plus1 Suc_leI not_less_eq_eq)
    next
      case np: False
      have eq: "lower_bound p lo hi = lower_bound p lo ?m"
        using True np by (simp add: lower_bound.simps [of p lo hi] Let_def)
      have "\<not> p i" if "?m \<le> i" "i < hi" for i
        using "1.prems"(2) [OF that] np by blast
      moreover have "\<And>i j. i \<le> j \<Longrightarrow> j < ?m \<Longrightarrow> p j \<Longrightarrow> p i"
        using "1.prems"(2) m by (meson less_trans)
      ultimately show ?thesis
        using "1.IH"(2) [OF True refl np m(1)] unfolding eq
        by (metis not_le_imp_less)
    qed
  next
    case False
    then show ?thesis by (subst (1 2) lower_bound.simps) simp
  qed
qed

section \<open>Options as the outcome of a C function\<close>

text \<open>
  A function that may terminate the process (\<open>exit(1)\<close>, a NULL dereference) returns
  \<open>None\<close> there; \<open>do\<close> blocks over \<open>option\<close> thread the rest.
\<close>

lemma bind_eq_Some [simp]: "(m \<bind> f = Some y) \<longleftrightarrow> (\<exists>x. m = Some x \<and> f x = Some y)"
  by (cases m) auto

fun fold_opt :: "('a \<Rightarrow> 's \<Rightarrow> 's option) \<Rightarrow> 'a list \<Rightarrow> 's \<Rightarrow> 's option" where
  "fold_opt f [] s = Some s"
| "fold_opt f (x # xs) s = f x s \<bind> fold_opt f xs"

lemma fold_opt_append: "fold_opt f (xs @ ys) s = fold_opt f xs s \<bind> fold_opt f ys"
proof (induction xs arbitrary: s)
  case (Cons x xs)
  then show ?case by (cases "f x s") auto
qed simp

end
