(* ===== verification/Floats.thy ===== *)
theory Floats
  imports Prelude
begin

text \<open>
  \<open>float\<close> and \<open>double\<close> as their IEEE-754 bit patterns (binary32, binary64), which is what the
  engine copies to and from disk with \<open>memcpy\<close>.  Comparison, conversion and arithmetic are
  those of the C implementation on such a target: exact result, rounded to nearest, ties to even.
  A finite pattern stands for \<open>\<plusminus> m * 2^q\<close>; \<open>fp_round\<close> packs \<open>m * 2^q\<close> back into a format with
  \<open>p\<close> bits of precision and least exponent \<open>emin\<close>.
\<close>

type_synonym f64 = "64 word"
type_synonym f32 = "32 word"

fun ilog2 :: "nat \<Rightarrow> nat" where
  "ilog2 n = (if n < 2 then 0 else Suc (ilog2 (n div 2)))"

declare ilog2.simps [simp del]

section \<open>Fields of a pattern\<close>

definition f64_neg :: "f64 \<Rightarrow> bool" where "f64_neg x \<longleftrightarrow> 2 ^ 63 \<le> unat x"
definition f64_mag :: "f64 \<Rightarrow> nat" where "f64_mag x = unat x mod 2 ^ 63"
definition f32_neg :: "f32 \<Rightarrow> bool" where "f32_neg x \<longleftrightarrow> 2 ^ 31 \<le> unat x"
definition f32_mag :: "f32 \<Rightarrow> nat" where "f32_mag x = unat x mod 2 ^ 31"

abbreviation f64_inf_bits :: nat where "f64_inf_bits \<equiv> 9218868437227405312"
abbreviation f32_inf_bits :: nat where "f32_inf_bits \<equiv> 2139095040"

definition f64_nan :: "f64 \<Rightarrow> bool" where "f64_nan x \<longleftrightarrow> f64_mag x > f64_inf_bits"
definition f32_nan :: "f32 \<Rightarrow> bool" where "f32_nan x \<longleftrightarrow> f32_mag x > f32_inf_bits"

section \<open>Comparison\<close>

definition f64_ord :: "f64 \<Rightarrow> int" where
  "f64_ord x = (if f64_neg x then - int (f64_mag x) else int (f64_mag x))"
definition f32_ord :: "f32 \<Rightarrow> int" where
  "f32_ord x = (if f32_neg x then - int (f32_mag x) else int (f32_mag x))"

definition f64_lt :: "f64 \<Rightarrow> f64 \<Rightarrow> bool" where
  "f64_lt a b \<longleftrightarrow> \<not> f64_nan a \<and> \<not> f64_nan b \<and> f64_ord a < f64_ord b"
definition f32_lt :: "f32 \<Rightarrow> f32 \<Rightarrow> bool" where
  "f32_lt a b \<longleftrightarrow> \<not> f32_nan a \<and> \<not> f32_nan b \<and> f32_ord a < f32_ord b"
definition f64_eq :: "f64 \<Rightarrow> f64 \<Rightarrow> bool" where
  "f64_eq a b \<longleftrightarrow> \<not> f64_nan a \<and> \<not> f64_nan b \<and> f64_ord a = f64_ord b"
definition f32_eq :: "f32 \<Rightarrow> f32 \<Rightarrow> bool" where
  "f32_eq a b \<longleftrightarrow> \<not> f32_nan a \<and> \<not> f32_nan b \<and> f32_ord a = f32_ord b"

text \<open>\<open>(a > b) - (a < b)\<close> on doubles and floats.\<close>

definition f64_cmp :: "f64 \<Rightarrow> f64 \<Rightarrow> int" where "f64_cmp a b = cmp3 (f64_lt b a) (f64_lt a b)"
definition f32_cmp :: "f32 \<Rightarrow> f32 \<Rightarrow> int" where "f32_cmp a b = cmp3 (f32_lt b a) (f32_lt a b)"

interpretation f64_order: comparator f64_cmp "\<lambda>x. \<not> f64_nan x"
  by unfold_locales (auto simp: f64_cmp_def f64_lt_def cmp3_def split: if_splits)

interpretation f32_order: comparator f32_cmp "\<lambda>x. \<not> f32_nan x"
  by unfold_locales (auto simp: f32_cmp_def f32_lt_def cmp3_def split: if_splits)

text \<open>Two NaNs, and a NaN and a number, compare as "equal" in this idiom.\<close>

lemma f64_cmp_nan: "f64_nan a \<or> f64_nan b \<Longrightarrow> f64_cmp a b = 0"
  by (auto simp: f64_cmp_def f64_lt_def cmp3_def)

section \<open>Rounding and conversion\<close>

definition fp_round :: "nat \<Rightarrow> int \<Rightarrow> nat \<Rightarrow> nat \<Rightarrow> int \<Rightarrow> nat" where
  "fp_round p emin infb m q =
     (if m = 0 then 0
      else let u = max (int (ilog2 m) + q - (int p - 1)) emin;
               n = (if u \<le> q then m * 2 ^ nat (q - u)
                    else let d = nat (u - q); n0 = m div 2 ^ d; r = m mod 2 ^ d
                         in if 2 * r > 2 ^ d \<or> (2 * r = 2 ^ d \<and> odd n0) then n0 + 1 else n0)
           in min infb (nat (u - emin) * 2 ^ (p - 1) + n))"

abbreviation round64 :: "nat \<Rightarrow> int \<Rightarrow> nat" where "round64 \<equiv> fp_round 53 (-1074) f64_inf_bits"
abbreviation round32 :: "nat \<Rightarrow> int \<Rightarrow> nat" where "round32 \<equiv> fp_round 24 (-149) f32_inf_bits"

definition f64_make :: "bool \<Rightarrow> nat \<Rightarrow> f64" where
  "f64_make neg mag = of_nat ((if neg then 2 ^ 63 else 0) + mag)"
definition f32_make :: "bool \<Rightarrow> nat \<Rightarrow> f32" where
  "f32_make neg mag = of_nat ((if neg then 2 ^ 31 else 0) + mag)"

text \<open>Significand and exponent of a finite magnitude.\<close>

definition f64_unpack :: "nat \<Rightarrow> nat \<times> int" where
  "f64_unpack mag = (let e = mag div 2 ^ 52; f = mag mod 2 ^ 52
                     in if e = 0 then (f, -1074) else (2 ^ 52 + f, int e - 1075))"
definition f32_unpack :: "nat \<Rightarrow> nat \<times> int" where
  "f32_unpack mag = (let e = mag div 2 ^ 23; f = mag mod 2 ^ 23
                     in if e = 0 then (f, -149) else (2 ^ 23 + f, int e - 150))"

text \<open>\<open>(double)x\<close> for a float and \<open>(float)x\<close> for a double; a NaN is made quiet.\<close>

definition f64_of_f32 :: "f32 \<Rightarrow> f64" where
  "f64_of_f32 x =
     (let g = f32_mag x
      in if g > f32_inf_bits
           then f64_make (f32_neg x) (f64_inf_bits + 2 ^ 51 + (g mod 2 ^ 22) * 2 ^ 29)
         else if g = f32_inf_bits then f64_make (f32_neg x) f64_inf_bits
         else (case f32_unpack g of (m, q) \<Rightarrow> f64_make (f32_neg x) (round64 m q)))"

definition f32_of_f64 :: "f64 \<Rightarrow> f32" where
  "f32_of_f64 x =
     (let g = f64_mag x
      in if g > f64_inf_bits
           then f32_make (f64_neg x) (f32_inf_bits + 2 ^ 22 + (g mod 2 ^ 51) div 2 ^ 29)
         else if g = f64_inf_bits then f32_make (f64_neg x) f32_inf_bits
         else (case f64_unpack g of (m, q) \<Rightarrow> f32_make (f64_neg x) (round32 m q)))"

text \<open>\<open>(double)v\<close> and \<open>(float)v\<close> for an integer, \<open>(int32_t)x\<close> for a double.  The last is undefined in C
  outside the range of the type; the conversion instruction of the target then gives
  \<open>INT32_MIN\<close>.\<close>

definition f64_of_int :: "int \<Rightarrow> f64" where
  "f64_of_int v = f64_make (v < 0) (round64 (nat \<bar>v\<bar>) 0)"
definition f32_of_int :: "int \<Rightarrow> f32" where
  "f32_of_int v = f32_make (v < 0) (round32 (nat \<bar>v\<bar>) 0)"

definition i32_of_f64 :: "f64 \<Rightarrow> 32 word" where
  "i32_of_f64 x =
     (if f64_mag x \<ge> f64_inf_bits then 0x80000000
      else case f64_unpack (f64_mag x) of (m, q) \<Rightarrow>
        (let t = (if 0 \<le> q then m * 2 ^ nat q else m div 2 ^ nat (- q));
             v = (if f64_neg x then - int t else int t)
         in if - 2147483648 \<le> v \<and> v < 2147483648 then word_of_int v else 0x80000000))"

definition f64_is_zero :: "f64 \<Rightarrow> bool" where "f64_is_zero x \<longleftrightarrow> f64_mag x = 0"

lemma f64_is_zero_iff: "f64_is_zero x \<longleftrightarrow> f64_eq x 0"
proof -
  have "f64_mag 0 = 0" "\<not> f64_neg 0" "\<not> f64_nan 0"
    by (simp_all add: f64_mag_def f64_neg_def f64_nan_def)
  then show ?thesis
    by (auto simp: f64_is_zero_def f64_eq_def f64_nan_def f64_ord_def)
qed

section \<open>Arithmetic\<close>

definition f64_qnan :: f64 where "f64_qnan = f64_make False (f64_inf_bits + 2 ^ 51)"

definition f64_quiet :: "f64 \<Rightarrow> f64" where "f64_quiet x = x OR 0x0008000000000000"

definition f64_negate :: "f64 \<Rightarrow> f64" where "f64_negate x = x XOR 0x8000000000000000"

definition f64_add :: "f64 \<Rightarrow> f64 \<Rightarrow> f64" where
  "f64_add a b =
     (if f64_nan a then f64_quiet a else if f64_nan b then f64_quiet b
      else if f64_mag a = f64_inf_bits \<and> f64_mag b = f64_inf_bits
        then (if f64_neg a = f64_neg b then a else f64_qnan)
      else if f64_mag a = f64_inf_bits then a
      else if f64_mag b = f64_inf_bits then b
      else case (f64_unpack (f64_mag a), f64_unpack (f64_mag b)) of
        ((m1, q1), (m2, q2)) \<Rightarrow>
          (let q = min q1 q2;
               v1 = (if f64_neg a then -1 else 1) * int (m1 * 2 ^ nat (q1 - q));
               v2 = (if f64_neg b then -1 else 1) * int (m2 * 2 ^ nat (q2 - q));
               v = v1 + v2
           in if v = 0 then f64_make (f64_neg a \<and> f64_neg b) 0
              else f64_make (v < 0) (round64 (nat \<bar>v\<bar>) q)))"

definition f64_sub :: "f64 \<Rightarrow> f64 \<Rightarrow> f64" where
  "f64_sub a b = (if f64_nan b then f64_add a b else f64_add a (f64_negate b))"

definition f64_mul :: "f64 \<Rightarrow> f64 \<Rightarrow> f64" where
  "f64_mul a b =
     (let s = (f64_neg a \<noteq> f64_neg b)
      in if f64_nan a then f64_quiet a else if f64_nan b then f64_quiet b
         else if f64_mag a = f64_inf_bits \<or> f64_mag b = f64_inf_bits
           then (if f64_mag a = 0 \<or> f64_mag b = 0 then f64_qnan else f64_make s f64_inf_bits)
         else case (f64_unpack (f64_mag a), f64_unpack (f64_mag b)) of
           ((m1, q1), (m2, q2)) \<Rightarrow> f64_make s (round64 (m1 * m2) (q1 + q2)))"

text \<open>Division: 2^120 scales the dividend so that the quotient has more than 53 bits; the last bit
  of the significand handed to the rounding records whether the division was exact.\<close>

definition f64_div :: "f64 \<Rightarrow> f64 \<Rightarrow> f64" where
  "f64_div a b =
     (let s = (f64_neg a \<noteq> f64_neg b)
      in if f64_nan a then f64_quiet a else if f64_nan b then f64_quiet b
         else if f64_mag a = f64_inf_bits
           then (if f64_mag b = f64_inf_bits then f64_qnan else f64_make s f64_inf_bits)
         else if f64_mag b = f64_inf_bits then f64_make s 0
         else if f64_mag b = 0 then (if f64_mag a = 0 then f64_qnan else f64_make s f64_inf_bits)
         else case (f64_unpack (f64_mag a), f64_unpack (f64_mag b)) of
           ((m1, q1), (m2, q2)) \<Rightarrow>
             (let n = m1 * 2 ^ 120
              in f64_make s (round64 (2 * (n div m2) + (if n mod m2 = 0 then 0 else 1))
                                     (q1 - q2 - 121))))"

end
