(* ===== verification/Values.thy ===== *)
theory Values
  imports Floats
begin

text \<open>
  Column types, row values and their lifecycle (\<open>include/catalog.h\<close>, \<open>src/catalog.c\<close>), and the
  comparison functions of the B+ tree (\<open>src/btree.c\<close>): on values, and on the raw 32-byte keys that
  internal nodes store.  The lemmas show that each comparison is a total preorder and that raw keys
  never contradict the order of the values they were made from.
\<close>

section \<open>Types\<close>

datatype ColumnType =
    COL_INT | COL_TEXT | COL_FLOAT | COL_DOUBLE | COL_BOOL | COL_VARCHAR | COL_BLOB
  | COL_DATETIME | COL_DATE | COL_TIME | COL_TIMESTAMP | COL_NUMERIC | COL_DECIMAL | COL_VECTOR

datatype CollationType = COLL_NOT_SET | COLL_BINARY | COLL_NOCASE | COLL_RTRIM

text \<open>
  \<open>text_val\<close> is NULL only in a \<open>Value\<close> zeroed by \<open>memset\<close>; otherwise it points to the constant
  empty string or to a heap buffer, given by the bytes before the terminator that
  \<open>value_set_text_len\<close> wrote.
\<close>

datatype text_ptr = TNull | TEmpty | THeap "byte list"

record Value =
  int_val :: "32 word"
  float_val :: f32
  double_val :: f64
  bool_val :: bool
  is_null :: bool
  text_val :: text_ptr
  text_len :: "32 word"
  text_cap :: "32 word"

record Column =
  col_name :: cstr
  col_type :: ColumnType
  col_size :: nat
  has_index :: bool
  index_root_page :: nat
  is_not_null :: bool
  is_unique :: bool
  has_default :: bool
  default_val :: cstr
  has_check :: bool
  check_op :: nat
  check_val :: cstr
  has_fk :: bool
  fk_target_table :: cstr
  fk_target_col :: cstr
  fk_on_delete_cascade :: bool
  fk_on_update_cascade :: bool
  is_autoincrement :: bool
  collation :: CollationType
  idx_is_partial :: bool
  idx_where_col :: cstr
  idx_where_op :: nat
  idx_where_val :: cstr
  idx_is_expr :: bool
  idx_expr_func :: cstr

record TableDef =
  tbl_name :: cstr
  root_page_num :: nat
  columns :: "Column list"
  pk_cols :: "cstr list"
  row_size :: nat
  col_offsets :: "nat list"
  is_virtual :: bool
  vtab_module :: cstr
  vtab_args :: cstr
  default_ttl :: nat
  with_history :: bool

text \<open>The array \<open>columns\<close> is used up to \<open>num_cols\<close>, the list holds exactly those entries.\<close>

abbreviation num_cols :: "TableDef \<Rightarrow> nat" where "num_cols def \<equiv> length (columns def)"

text \<open>A plain column of a type and a plain table of columns, for concrete evaluations.\<close>

definition plain_column :: "ColumnType \<Rightarrow> Column" where
  "plain_column ty = \<lparr>col_name = [], col_type = ty, col_size = 4096, has_index = False,
     index_root_page = 0, is_not_null = False, is_unique = False, has_default = False,
     default_val = [], has_check = False, check_op = 0, check_val = [], has_fk = False,
     fk_target_table = [], fk_target_col = [], fk_on_delete_cascade = False,
     fk_on_update_cascade = False, is_autoincrement = False, collation = COLL_NOT_SET,
     idx_is_partial = False, idx_where_col = [], idx_where_op = 0, idx_where_val = [],
     idx_is_expr = False, idx_expr_func = []\<rparr>"

definition plain_table :: "ColumnType list \<Rightarrow> TableDef" where
  "plain_table tys = \<lparr>tbl_name = [], root_page_num = 0, columns = map plain_column tys,
     pk_cols = [], row_size = 0, col_offsets = [], is_virtual = False, vtab_module = [],
     vtab_args = [], default_ttl = 0, with_history = False\<rparr>"

lemma plain_table_columns [simp]:
  "columns (plain_table tys) = map plain_column tys" "col_type (plain_column ty) = ty"
  by (simp_all add: plain_table_def plain_column_def)

section \<open>Value lifecycle\<close>

definition value_init :: Value where
  "value_init = \<lparr>int_val = 0, float_val = 0, double_val = 0, bool_val = False, is_null = False,
     text_val = TEmpty, text_len = 0, text_cap = 0\<rparr>"

definition value_free :: "Value \<Rightarrow> Value" where
  "value_free v = v\<lparr>text_val := TEmpty, text_len := 0, text_cap := 0\<rparr>"

definition value_free_row :: "Value list \<Rightarrow> nat \<Rightarrow> Value list" where
  "value_free_row vs count = map value_free (take count vs) @ drop count vs"

fun is_heap :: "text_ptr \<Rightarrow> bool" where
  "is_heap (THeap _) = True"
| "is_heap _ = False"

fun text_bytes :: "text_ptr \<Rightarrow> byte list" where
  "text_bytes (THeap bs) = bs"
| "text_bytes _ = []"

definition value_set_text_len :: "Value \<Rightarrow> byte list option \<Rightarrow> 32 word \<Rightarrow> Value" where
  "value_set_text_len v str len =
     (case str of
        None \<Rightarrow> (value_free v)\<lparr>is_null := True\<rparr>
      | Some s \<Rightarrow>
          (let v1 = (if text_cap v < len + 1 \<or> \<not> is_heap (text_val v)
                     then v\<lparr>text_cap := len + 1\<rparr> else v)
           in v1\<lparr>text_val := THeap (take (unat len) s), text_len := len, is_null := False\<rparr>))"

definition value_set_text :: "Value \<Rightarrow> byte list option \<Rightarrow> Value" where
  "value_set_text v str =
     (case str of
        None \<Rightarrow> (value_free v)\<lparr>is_null := True\<rparr>
      | Some s \<Rightarrow> value_set_text_len v (Some s) (of_nat (length (c_str s))))"

definition value_copy :: "Value \<Rightarrow> Value \<Rightarrow> Value" where
  "value_copy dst src =
     (let d = src\<lparr>text_val := TEmpty, text_cap := 0, text_len := 0\<rparr>
      in if is_heap (text_val src) \<and> \<not> is_null src
         then value_set_text_len d (Some (text_bytes (text_val src))) (text_len src)
         else d)"

definition value_move :: "Value \<Rightarrow> Value \<Rightarrow> Value \<times> Value" where
  "value_move dst src = (src, value_init)"

text \<open>What the code keeps of a value: a heap text has exactly \<open>text_len\<close> bytes.\<close>

definition value_wf :: "Value \<Rightarrow> bool" where
  "value_wf v \<longleftrightarrow> (case text_val v of
      THeap bs \<Rightarrow> length bs = unat (text_len v) | _ \<Rightarrow> text_len v = 0)"

lemma value_wf_init [simp]: "value_wf value_init"
  by (simp add: value_wf_def value_init_def)

lemma value_wf_free [simp]: "value_wf (value_free v)"
  by (simp add: value_wf_def value_free_def)

lemma value_wf_set_text_len:
  "unat len \<le> length s \<Longrightarrow> value_wf (value_set_text_len v (Some s) len)"
  by (simp add: value_wf_def value_set_text_len_def Let_def)

lemma value_wf_set_text_null [simp]: "value_wf (value_set_text_len v None len)"
  by (simp add: value_wf_def value_set_text_len_def value_free_def)

lemma value_wf_copy: "value_wf src \<Longrightarrow> value_wf (value_copy dst src)"
  by (auto simp: value_copy_def Let_def value_wf_def value_set_text_len_def split: text_ptr.splits)

text \<open>A copy is deep: it has every field of its source, in a buffer of its own with room for the
  terminator; the text of a NULL value is not copied.\<close>

lemma value_copy_fields:
  assumes "value_wf src" "\<not> is_null src"
  shows "text_bytes (text_val (value_copy dst src)) = text_bytes (text_val src)"
    and "text_len (value_copy dst src) = text_len src"
    and "int_val (value_copy dst src) = int_val src"
    and "double_val (value_copy dst src) = double_val src"
    and "\<not> is_null (value_copy dst src)"
  using assms
  by (auto simp: value_copy_def Let_def value_set_text_len_def value_wf_def split: text_ptr.splits)

lemma value_copy_null:
  "is_null src \<Longrightarrow> value_copy dst src = src\<lparr>text_val := TEmpty, text_cap := 0, text_len := 0\<rparr>"
  by (simp add: value_copy_def Let_def)

section \<open>Collated string comparison\<close>

fun rtrim_len :: "cstr \<Rightarrow> nat \<Rightarrow> nat" where
  "rtrim_len s 0 = 0"
| "rtrim_len s (Suc n) = (if is_space (s ! n) then rtrim_len s n else Suc n)"

definition compare_strings_collated :: "cstr \<Rightarrow> cstr \<Rightarrow> CollationType \<Rightarrow> int" where
  "compare_strings_collated s1 s2 coll =
     (if coll = COLL_NOCASE then strcasecmp s1 s2
      else if coll = COLL_RTRIM
        then (let len1 = rtrim_len s1 (length s1); len2 = rtrim_len s2 (length s2);
                  min_len = (if len1 < len2 then len1 else len2);
                  res = strncmp s1 s2 min_len
              in if res \<noteq> 0 then res else cmp3 (len1 > len2) (len1 < len2))
      else strcmp s1 s2)"

definition rtrim :: "cstr \<Rightarrow> cstr" where
  "rtrim s = rev (dropWhile is_space (rev s))"

definition collate :: "CollationType \<Rightarrow> cstr \<Rightarrow> cstr" where
  "collate coll s = (case coll of COLL_NOCASE \<Rightarrow> map to_lower s | COLL_RTRIM \<Rightarrow> rtrim s | _ \<Rightarrow> s)"

lemma rtrim_len_le: "rtrim_len s n \<le> n"
  by (induction n) auto

lemma take_rtrim_len: "n \<le> length s \<Longrightarrow> take (rtrim_len s n) s = rtrim (take n s)"
proof (induction n)
  case (Suc n)
  then have "take (Suc n) s = take n s @ [s ! n]"
    by (simp add: take_Suc_conv_app_nth)
  with Suc show ?case by (simp add: rtrim_def)
qed (simp add: rtrim_def)

lemma strcmp_prefix_then_length:
  "(let r = strcmp (take (min (length s) (length t)) s) (take (min (length s) (length t)) t)
    in if r \<noteq> 0 then r else cmp3 (length s > length t) (length s < length t)) = strcmp s t"
  by (induction s t rule: strcmp.induct) (auto simp: cmp3_def Let_def)

text \<open>Each collation compares normal forms: the contract of the function.\<close>

lemma compare_strings_collated_eq:
  "compare_strings_collated s1 s2 coll = strcmp (collate coll s1) (collate coll s2)"
proof (cases "coll = COLL_RTRIM")
  case True
  define n1 n2 where "n1 = rtrim_len s1 (length s1)" and "n2 = rtrim_len s2 (length s2)"
  have eqs: "take n1 s1 = rtrim s1" "take n2 s2 = rtrim s2"
    unfolding n1_def n2_def by (simp_all add: take_rtrim_len)
  have lens: "length (rtrim s1) = n1" "length (rtrim s2) = n2"
    unfolding eqs [symmetric] n1_def n2_def by (simp_all add: min_absorb2 rtrim_len_le)
  have "(if n1 < n2 then n1 else n2) = min n1 n2" by simp
  moreover have "take (min n1 n2) s1 = take (min n1 n2) (rtrim s1)"
    and "take (min n1 n2) s2 = take (min n1 n2) (rtrim s2)"
    unfolding eqs [symmetric] by simp_all
  moreover note strcmp_prefix_then_length [of "rtrim s1" "rtrim s2", unfolded lens]
  ultimately show ?thesis
    using True
    by (simp only: compare_strings_collated_def collate_def strncmp_def Let_def
        n1_def [symmetric] n2_def [symmetric] CollationType.simps if_False if_True simp_thms)
qed (cases coll; simp add: compare_strings_collated_def collate_def strcasecmp_def)

interpretation collated_order: comparator "\<lambda>s t. compare_strings_collated s t coll" "\<lambda>_. True"
proof unfold_locales
  show "sgn (compare_strings_collated y x coll) = - sgn (compare_strings_collated x y coll)" for x y
    unfolding compare_strings_collated_eq by (rule strcmp_order.cmp_swap) simp_all
  show "compare_strings_collated x z coll \<le> 0"
    if "compare_strings_collated x y coll \<le> 0" "compare_strings_collated y z coll \<le> 0" for x y z
    using that unfolding compare_strings_collated_eq by (rule strcmp_trans_le)
qed

section \<open>Comparing values\<close>

fun is_text_type :: "ColumnType \<Rightarrow> bool" where
  "is_text_type COL_INT = False"
| "is_text_type COL_FLOAT = False"
| "is_text_type COL_DOUBLE = False"
| "is_text_type COL_NUMERIC = False"
| "is_text_type COL_DECIMAL = False"
| "is_text_type COL_BOOL = False"
| "is_text_type _ = True"

fun is_double_type :: "ColumnType \<Rightarrow> bool" where
  "is_double_type COL_DOUBLE = True"
| "is_double_type COL_NUMERIC = True"
| "is_double_type COL_DECIMAL = True"
| "is_double_type _ = False"

definition val_text :: "Value \<Rightarrow> cstr" where
  "val_text v = c_str (text_bytes (text_val v))"

text \<open>The float and double a comparison takes from a value: \<open>double_val\<close> unless it is zero.\<close>

definition float_key :: "Value \<Rightarrow> f32" where
  "float_key v = (if \<not> f64_is_zero (double_val v) then f32_of_f64 (double_val v) else float_val v)"
definition double_key :: "Value \<Rightarrow> f64" where
  "double_key v = (if \<not> f64_is_zero (double_val v) then double_val v else f64_of_f32 (float_val v))"

definition i32_cmp :: "32 word \<Rightarrow> 32 word \<Rightarrow> int" where
  "i32_cmp a b = cmp3 (sint a > sint b) (sint a < sint b)"

definition bool_cmp :: "bool \<Rightarrow> bool \<Rightarrow> int" where
  "bool_cmp a b = cmp3 (a \<and> \<not> b) (\<not> a \<and> b)"

definition compare_values :: "ColumnType \<Rightarrow> Value \<Rightarrow> Value \<Rightarrow> int" where
  "compare_values ty v1 v2 =
     (if is_null v1 \<and> is_null v2 then 0
      else if is_null v1 then -1
      else if is_null v2 then 1
      else case ty of
        COL_INT \<Rightarrow> i32_cmp (int_val v1) (int_val v2)
      | COL_FLOAT \<Rightarrow> f32_cmp (float_key v1) (float_key v2)
      | COL_DOUBLE \<Rightarrow> f64_cmp (double_key v1) (double_key v2)
      | COL_NUMERIC \<Rightarrow> f64_cmp (double_key v1) (double_key v2)
      | COL_DECIMAL \<Rightarrow> f64_cmp (double_key v1) (double_key v2)
      | COL_BOOL \<Rightarrow> bool_cmp (bool_val v1) (bool_val v2)
      | _ \<Rightarrow> strcmp (val_text v1) (val_text v2))"

text \<open>Values that have a place in the order of their column: everything but NaN.\<close>

definition value_ordered :: "ColumnType \<Rightarrow> Value \<Rightarrow> bool" where
  "value_ordered ty v \<longleftrightarrow> is_null v \<or>
     (case ty of COL_FLOAT \<Rightarrow> \<not> f32_nan (float_key v)
      | COL_DOUBLE \<Rightarrow> \<not> f64_nan (double_key v)
      | COL_NUMERIC \<Rightarrow> \<not> f64_nan (double_key v)
      | COL_DECIMAL \<Rightarrow> \<not> f64_nan (double_key v)
      | _ \<Rightarrow> True)"

interpretation i32_order: comparator i32_cmp "\<lambda>_. True"
  unfolding i32_cmp_def by (rule comparator_linorder)

interpretation bool_order: comparator bool_cmp "\<lambda>_. True"
  by unfold_locales (auto simp: bool_cmp_def cmp3_def split: if_splits)

lemma compare_values_le_null:
  "compare_values ty x y \<le> 0 \<Longrightarrow> is_null y \<Longrightarrow> is_null x"
  "is_null x \<Longrightarrow> compare_values ty x y \<le> 0"
  by (auto simp: compare_values_def split: if_splits)

lemma compare_values_swap:
  assumes "value_ordered ty x" "value_ordered ty y"
  shows "sgn (compare_values ty y x) = - sgn (compare_values ty x y)"
proof (cases "is_null x \<or> is_null y")
  case True
  then show ?thesis by (auto simp: compare_values_def)
next
  case False
  with assms show ?thesis
    by (cases ty; simp add: compare_values_def value_ordered_def)
      (rule i32_order.cmp_swap f32_order.cmp_swap f64_order.cmp_swap bool_order.cmp_swap
        strcmp_order.cmp_swap; simp)+
qed

lemma compare_values_trans:
  assumes "value_ordered ty x" "value_ordered ty y" "value_ordered ty z"
    and le: "compare_values ty x y \<le> 0" "compare_values ty y z \<le> 0"
  shows "compare_values ty x z \<le> 0"
proof (cases "is_null x")
  case True
  then show ?thesis by (rule compare_values_le_null)
next
  case False
  then have "\<not> is_null y" "\<not> is_null z"
    using le compare_values_le_null(1) by blast+
  with False assms show ?thesis
    by (cases ty; simp add: compare_values_def value_ordered_def)
      (erule (1) i32_order.cmp_trans [rotated 3] f32_order.cmp_trans [rotated 3]
         f64_order.cmp_trans [rotated 3] bool_order.cmp_trans [rotated 3] strcmp_trans_le;
        simp)+
qed

interpretation value_order: comparator "compare_values ty" "value_ordered ty"
  by unfold_locales (auto intro: compare_values_swap compare_values_trans)

section \<open>Raw keys\<close>

abbreviation (input) INTERNAL_NODE_KEY_SIZE :: nat where "INTERNAL_NODE_KEY_SIZE \<equiv> 32"

definition key_pad :: "byte list \<Rightarrow> byte list" where
  "key_pad bs = bs @ replicate (INTERNAL_NODE_KEY_SIZE - length bs) 0"

definition serialize_col0_key :: "TableDef \<Rightarrow> Value \<Rightarrow> byte list" where
  "serialize_col0_key def v =
     key_pad (case col_type (columns def ! 0) of
        COL_INT \<Rightarrow> le_bytes 4 (unat (int_val v))
      | COL_FLOAT \<Rightarrow> le_bytes 4 (unat (float_val v))
      | COL_DOUBLE \<Rightarrow> le_bytes 8 (unat (double_val v))
      | COL_NUMERIC \<Rightarrow> le_bytes 8 (unat (double_val v))
      | COL_DECIMAL \<Rightarrow> le_bytes 8 (unat (double_val v))
      | COL_BOOL \<Rightarrow> [if bool_val v then 1 else 0]
      | COL_VARCHAR \<Rightarrow>
          (let len = length (val_text v) mod 65536;
               len' = (if len > INTERNAL_NODE_KEY_SIZE - 2 then INTERNAL_NODE_KEY_SIZE - 2 else len)
           in le_bytes 2 len' @ take len' (val_text v))
      | _ \<Rightarrow> take (INTERNAL_NODE_KEY_SIZE - 1) (val_text v))"

definition compare_keys :: "ColumnType \<Rightarrow> byte list \<Rightarrow> byte list \<Rightarrow> int" where
  "compare_keys ty k1 k2 =
     (case ty of
        COL_INT \<Rightarrow> i32_cmp (of_nat (le_val (take 4 k1))) (of_nat (le_val (take 4 k2)))
      | COL_FLOAT \<Rightarrow> f32_cmp (of_nat (le_val (take 4 k1))) (of_nat (le_val (take 4 k2)))
      | COL_DOUBLE \<Rightarrow> f64_cmp (of_nat (le_val (take 8 k1))) (of_nat (le_val (take 8 k2)))
      | COL_NUMERIC \<Rightarrow> f64_cmp (of_nat (le_val (take 8 k1))) (of_nat (le_val (take 8 k2)))
      | COL_DECIMAL \<Rightarrow> f64_cmp (of_nat (le_val (take 8 k1))) (of_nat (le_val (take 8 k2)))
      | COL_BOOL \<Rightarrow> bool_cmp (k1 ! 0 \<noteq> 0) (k2 ! 0 \<noteq> 0)
      | COL_VARCHAR \<Rightarrow>
          (let len1 = le_val (take 2 k1); len2 = le_val (take 2 k2);
               n = (if len1 < len2 then len1 else len2);
               res = strcmp (take n (drop 2 k1)) (take n (drop 2 k2))
           in if res \<noteq> 0 then res else cmp3 (len1 > len2) (len1 < len2))
      | _ \<Rightarrow> strcmp (c_str k1) (c_str k2))"

text \<open>The text a raw key stands for, and the keys that occur in a tree.\<close>

definition key_text :: "ColumnType \<Rightarrow> byte list \<Rightarrow> cstr" where
  "key_text ty k = (if ty = COL_VARCHAR then take (le_val (take 2 k)) (drop 2 k) else c_str k)"

definition key_ok :: "ColumnType \<Rightarrow> byte list \<Rightarrow> bool" where
  "key_ok ty k \<longleftrightarrow> length k = INTERNAL_NODE_KEY_SIZE \<and>
     (ty = COL_VARCHAR \<longrightarrow> le_val (take 2 k) \<le> INTERNAL_NODE_KEY_SIZE - 2) \<and>
     (ty = COL_FLOAT \<longrightarrow> \<not> f32_nan (of_nat (le_val (take 4 k)))) \<and>
     (is_double_type ty \<longrightarrow> \<not> f64_nan (of_nat (le_val (take 8 k))))"

lemma compare_keys_text:
  assumes "is_text_type ty" "key_ok ty k1" "key_ok ty k2"
  shows "compare_keys ty k1 k2 = strcmp (key_text ty k1) (key_text ty k2)"
proof (cases "ty = COL_VARCHAR")
  case True
  define n1 n2 where "n1 = le_val (take 2 k1)" and "n2 = le_val (take 2 k2)"
  define t1 t2 where "t1 = take n1 (drop 2 k1)" and "t2 = take n2 (drop 2 k2)"
  have len: "length t1 = n1" "length t2 = n2"
    using assms True by (simp_all add: key_ok_def t1_def t2_def n1_def n2_def)
  have "(if n1 < n2 then n1 else n2) = min n1 n2" by simp
  moreover have "take (min n1 n2) (drop 2 k1) = take (min n1 n2) t1"
    and "take (min n1 n2) (drop 2 k2) = take (min n1 n2) t2"
    by (simp_all add: t1_def t2_def)
  moreover note strcmp_prefix_then_length [of t1 t2, unfolded len]
  ultimately show ?thesis
    using True
    by (simp only: compare_keys_def key_text_def Let_def n1_def [symmetric] n2_def [symmetric]
        t1_def [symmetric] t2_def [symmetric] ColumnType.case if_True simp_thms)
qed (use assms(1) in \<open>cases ty; simp add: compare_keys_def key_text_def\<close>)

lemma compare_keys_swap:
  assumes "key_ok ty x" "key_ok ty y"
  shows "sgn (compare_keys ty y x) = - sgn (compare_keys ty x y)"
proof (cases "is_text_type ty")
  case True
  with assms show ?thesis
    by (simp only: compare_keys_text) (rule strcmp_order.cmp_swap; simp)
next
  case False
  with assms show ?thesis
    by (cases ty; simp add: compare_keys_def key_ok_def)
      (rule i32_order.cmp_swap f32_order.cmp_swap f64_order.cmp_swap bool_order.cmp_swap; simp)+
qed

lemma compare_keys_trans:
  assumes "key_ok ty x" "key_ok ty y" "key_ok ty z"
    and "compare_keys ty x y \<le> 0" "compare_keys ty y z \<le> 0"
  shows "compare_keys ty x z \<le> 0"
proof (cases "is_text_type ty")
  case True
  with assms show ?thesis
    by (simp only: compare_keys_text) (erule (1) strcmp_trans_le)
next
  case False
  with assms show ?thesis
    by (cases ty; simp add: compare_keys_def key_ok_def)
      (erule (1) i32_order.cmp_trans [rotated 3] f32_order.cmp_trans [rotated 3]
         f64_order.cmp_trans [rotated 3] bool_order.cmp_trans [rotated 3]; simp)+
qed

interpretation key_order: comparator "compare_keys ty" "key_ok ty"
  by unfold_locales (auto intro: compare_keys_swap compare_keys_trans)

text \<open>
  Values whose raw key carries what the comparison of values looks at: \<open>serialize_col0_key\<close> takes
  \<open>float_val\<close> (\<open>double_val\<close>) unconditionally, and stores the length of a VARCHAR in 16 bits.
\<close>

definition key_consistent :: "ColumnType \<Rightarrow> Value \<Rightarrow> bool" where
  "key_consistent ty v \<longleftrightarrow> \<not> is_null v \<and> value_ordered ty v \<and>
     (ty = COL_FLOAT \<longrightarrow> float_key v = float_val v) \<and>
     (is_double_type ty \<longrightarrow> double_key v = double_val v) \<and>
     (ty = COL_VARCHAR \<longrightarrow> length (val_text v) < 65536)"

lemma c_str_no_nul: "0 \<notin> set (c_str bs)"
  by (induction bs) (auto simp: c_str_def)

lemma c_str_key_pad: "0 \<notin> set s \<Longrightarrow> length s < 32 \<Longrightarrow> c_str (key_pad s) = s"
  unfolding c_str_def key_pad_def by (subst takeWhile_append2) auto

lemma strcmp_take_le: "strcmp s t \<le> 0 \<Longrightarrow> strcmp (take n s) (take n t) \<le> 0"
proof (induction s t arbitrary: n rule: strcmp.induct)
  case (4 x xs y ys)
  then show ?case by (cases n) (auto split: if_splits)
qed (simp_all add: take_Cons' )

lemma length_key_pad [simp]: "length bs \<le> 32 \<Longrightarrow> length (key_pad bs) = 32"
  by (simp add: key_pad_def)

lemma take_key_pad: "length bs = n \<Longrightarrow> take n (key_pad bs) = bs"
  by (simp add: key_pad_def)

lemma nth_key_pad [simp]: "i < length bs \<Longrightarrow> key_pad bs ! i = bs ! i"
  by (simp add: key_pad_def nth_append)

lemmas serialize_key_cases = serialize_col0_key_def key_ok_def Let_def take_key_pad

lemma serialize_col0_key_ok:
  "key_consistent (col_type (columns def ! 0)) v \<Longrightarrow>
     key_ok (col_type (columns def ! 0)) (serialize_col0_key def v)"
  by (cases "col_type (columns def ! 0)")
    (auto simp: serialize_key_cases key_consistent_def value_ordered_def key_pad_def)

lemma serialize_col0_key_text:
  assumes "col_type (columns def ! 0) = ty" "is_text_type ty" "key_consistent ty v"
  shows "key_text ty (serialize_col0_key def v) =
           take (if ty = COL_VARCHAR then 30 else 31) (val_text v)"
proof (cases "ty = COL_VARCHAR")
  case True
  define t where "t = take 30 (val_text v)"
  have "serialize_col0_key def v = le_bytes 2 (length t) @ t @ replicate (30 - length t) 0"
    using assms True
    by (auto simp: serialize_col0_key_def key_consistent_def key_pad_def Let_def t_def)
  moreover have "length t mod 65536 = length t"
    by (simp add: t_def)
  ultimately show ?thesis
    using True by (simp add: key_text_def) (simp add: t_def)
next
  case False
  have "0 \<notin> set (take 31 (val_text v))"
    using c_str_no_nul in_set_takeD unfolding val_text_def by fast
  then have "c_str (key_pad (take 31 (val_text v))) = take 31 (val_text v)"
    by (intro c_str_key_pad) auto
  with False assms(1,2) show ?thesis
    by (cases ty) (auto simp: serialize_col0_key_def key_text_def)
qed

text \<open>Raw keys are coarser than values, never contrary to them.\<close>

lemma compare_keys_refines:
  assumes ty: "col_type (columns def ! 0) = ty"
    and "key_consistent ty a" "key_consistent ty b" "compare_values ty a b \<le> 0"
  shows "compare_keys ty (serialize_col0_key def a) (serialize_col0_key def b) \<le> 0"
proof (cases "is_text_type ty")
  case True
  have "strcmp (val_text a) (val_text b) \<le> 0"
    using assms True by (cases ty) (auto simp: compare_values_def key_consistent_def)
  then show ?thesis
    using assms True serialize_col0_key_ok [of def a] serialize_col0_key_ok [of def b]
    by (simp add: compare_keys_text serialize_col0_key_text [OF ty] strcmp_take_le)
next
  case False
  with assms show ?thesis
    by (cases ty)
      (auto simp: compare_keys_def serialize_col0_key_def take_key_pad compare_values_def
        key_consistent_def)
qed

end
