(* ===== verification/Record_Format.thy ===== *)
theory Record_Format
  imports Values
begin

text \<open>
  The packed record format (\<open>src/catalog.c\<close>: \<open>put_varint\<close>, \<open>get_varint\<close>,
  \<open>serialize_row_with_mvcc\<close>, \<open>deserialize_row_with_mvcc\<close>; \<open>src/btree.c\<close>:
  \<open>btree_get_varint\<close>, \<open>extract_col0_from_packed_record\<close>).  A record is
  \<open>[header size] [serial types] [optional TTL / XMIN / XMAX markers] [body]\<close>.  The main result is
  the round trip: what \<open>deserialize_row_with_mvcc\<close> reads back is each value in the normal form of
  its column, and the three MVCC stamps.
\<close>

section \<open>Variable-length integers\<close>

function put_varint :: "64 word \<Rightarrow> byte list" where
  "put_varint v =
     (if v \<ge> 0x80 then (ucast (v AND 0x7f) OR 0x80) # put_varint (drop_bit 7 v)
      else [ucast (v AND 0x7f)])"
  by pat_completeness auto
termination
proof (relation "measure unat")
  fix v :: "64 word"
  assume "v \<ge> 0x80"
  then have "unat v \<ge> 128" by (simp add: word_le_nat_alt)
  then show "(drop_bit 7 v, v) \<in> measure unat"
    by (simp add: drop_bit_eq_div unat_div)
qed simp

declare put_varint.simps [simp del]

text \<open>The loop of \<open>get_varint\<close> (\<open>src/catalog.c\<close>) after \<open>i\<close> bytes have been read.\<close>

function get_varint_loop :: "buf \<Rightarrow> nat \<Rightarrow> nat \<Rightarrow> 64 word \<Rightarrow> 64 word \<times> nat" where
  "get_varint_loop p off i result =
     (if i < 10
      then (let b = p (off + i);
                result' = result OR push_bit (7 * i) (ucast (b AND 0x7f))
            in if b AND 0x80 = 0 then (result', i + 1) else get_varint_loop p off (i + 1) result')
      else (result, i))"
  by pat_completeness auto
termination
  by (relation "measure (\<lambda>(_, _, i, _). 10 - i)") auto

declare get_varint_loop.simps [simp del]

definition get_varint :: "buf \<Rightarrow> nat \<Rightarrow> 64 word \<times> nat" where
  "get_varint p off = get_varint_loop p off 0 0"

text \<open>\<open>btree.c\<close> has its own copy of the decoder.\<close>

definition btree_get_varint :: "buf \<Rightarrow> nat \<Rightarrow> 64 word \<times> nat" where
  "btree_get_varint p off = get_varint_loop p off 0 0"

section \<open>Prefix codecs\<close>

text \<open>
  The contract the record format needs of its parts: an encoder whose output the decoder recovers,
  together with its length, wherever the bytes stand in memory.  The lemma says that a sequence of
  codewords is decoded one after the other.
\<close>

locale codec =
  fixes enc :: "'a \<Rightarrow> byte list" and dec :: "buf \<Rightarrow> nat \<Rightarrow> 'a \<times> nat" and valid :: "'a \<Rightarrow> bool"
  assumes dec_enc: "valid v \<Longrightarrow> get_bytes p off (length (enc v)) = enc v \<Longrightarrow>
                      dec p off = (v, length (enc v))"
begin

lemma dec_at:
  assumes "valid v" "get_bytes p base (length bs) = bs" "bs = xs @ enc v @ ys"
    and "off = base + length xs"
  shows "dec p off = (v, length (enc v))"
proof (rule dec_enc)
  have "get_bytes p base (length xs + (length (enc v) + length ys)) = xs @ enc v @ ys"
    using assms by simp
  then have "get_bytes p (base + length xs) (length (enc v)) = enc v"
    by (simp add: get_bytes_append)
  then show "get_bytes p off (length (enc v)) = enc v"
    using assms by simp
qed fact

end

lemma low7_64: "(v :: 64 word) AND 0x7f = take_bit 7 v"
proof -
  have "(0x7f :: 64 word) = mask 7" by (simp add: mask_eq_exp_minus_1)
  then show ?thesis by (simp add: take_bit_eq_mask)
qed

lemma low7_8: "(b :: byte) AND 0x7f = take_bit 7 b"
proof -
  have "(0x7f :: byte) = mask 7" by (simp add: mask_eq_exp_minus_1)
  then show ?thesis by (simp add: take_bit_eq_mask)
qed

lemma top_bit_8: "(b :: byte) AND 0x80 = 0 \<longleftrightarrow> \<not> bit b 7"
proof -
  have "(0x80 :: byte) = push_bit 7 1" by simp
  then show ?thesis
    by (simp add: and_exp_eq_0_iff_not_bit [symmetric] push_bit_eq_mult)
qed

lemma varint_byte:
  fixes v :: "64 word"
  defines "b \<equiv> ucast (v AND 0x7f) :: byte"
  shows "b AND 0x80 = 0" "(b OR 0x80) AND 0x80 \<noteq> 0"
    "ucast (b AND 0x7f) = v AND 0x7f" "ucast ((b OR 0x80) AND 0x7f) = v AND 0x7f"
proof -
  have b: "bit b n \<longleftrightarrow> n < 7 \<and> bit v n" for n
    by (auto simp: b_def low7_64 bit_simps)
  have b80: "bit (0x80 :: byte) n \<longleftrightarrow> n = 7" for n
  proof -
    have "(0x80 :: byte) = push_bit 7 1" by simp
    then show ?thesis by (simp only: bit_push_bit_iff bit_1_iff) auto
  qed
  show "b AND 0x80 = 0" by (simp add: top_bit_8 b)
  show "(b OR 0x80) AND 0x80 \<noteq> 0" by (simp add: top_bit_8 bit_or_iff b80)
  show "ucast (b AND 0x7f) = v AND 0x7f"
    by (rule bit_word_eqI) (auto simp: low7_8 low7_64 bit_simps b)
  show "ucast ((b OR 0x80) AND 0x7f) = v AND 0x7f"
    by (rule bit_word_eqI) (auto simp: low7_8 low7_64 bit_simps b b80)
qed

lemma push_low7:
  "push_bit m (v AND 0x7f) OR push_bit (m + 7) (drop_bit 7 v) = push_bit m (v :: 64 word)"
proof (rule bit_word_eqI)
  fix n
  assume n: "n < LENGTH(64)"
  show "bit (push_bit m (v AND 0x7f) OR push_bit (m + 7) (drop_bit 7 v)) n \<longleftrightarrow> bit (push_bit m v) n"
  proof (cases "m + 7 \<le> n")
    case True
    then have "7 + (n - (m + 7)) = n - m" by simp
    with True n show ?thesis
      by (auto simp: low7_64 bit_or_iff bit_push_bit_iff bit_take_bit_iff bit_drop_bit_eq add.commute)
  next
    case False
    with n show ?thesis
      by (auto simp: low7_64 bit_or_iff bit_push_bit_iff bit_take_bit_iff)
  qed
qed

lemma length_put_varint:
  "unat v < 128 ^ k \<Longrightarrow> 0 < k \<Longrightarrow> length (put_varint v) \<le> k"
proof (induction v arbitrary: k rule: put_varint.induct)
  case (1 v)
  show ?case
  proof (cases "v \<ge> 0x80")
    case True
    then have "unat v \<ge> 128" by (simp add: word_le_nat_alt)
    with 1 obtain j where k: "k = Suc j" "0 < j"
      by (cases k; cases "k - 1") auto
    have "unat (drop_bit 7 v) = unat v div 128"
      by (simp add: drop_bit_eq_div unat_div)
    also have "\<dots> < 128 ^ j" using 1 k by (simp add: less_mult_imp_div_less mult.commute)
    finally show ?thesis
      using True 1 k by (subst put_varint.simps) simp
  qed (use 1 in \<open>subst put_varint.simps, simp\<close>)
qed

lemma length_put_varint_le: "length (put_varint v) \<le> 10"
  using length_put_varint [of v 10] unsigned_less [of v, where ?'a = nat] by simp

lemma put_varint_nonempty [simp]: "put_varint v \<noteq> []"
  by (subst put_varint.simps) simp

lemma length_put_varint_pos [simp]: "0 < length (put_varint v)"
  by simp

lemma get_varint_loop_put:
  assumes "get_bytes p (off + i) (length (put_varint v)) = put_varint v"
    and "i + length (put_varint v) \<le> 10"
  shows "get_varint_loop p off i acc = (acc OR push_bit (7 * i) v, i + length (put_varint v))"
  using assms
proof (induction v arbitrary: i acc rule: put_varint.induct)
  case (1 v)
  define b :: byte where "b = ucast (v AND 0x7f)"
  show ?case
  proof (cases "v \<ge> 0x80")
    case True
    then have pv: "put_varint v = (b OR 0x80) # put_varint (drop_bit 7 v)"
      by (subst put_varint.simps) (simp add: b_def)
    with "1.prems" have p: "p (off + i) = b OR 0x80"
      and rest: "get_bytes p (off + Suc i) (length (put_varint (drop_bit 7 v))) = put_varint (drop_bit 7 v)"
      and i: "i < 10" "Suc i + length (put_varint (drop_bit 7 v)) \<le> 10"
      by (auto simp: get_bytes_Suc)
    have "get_varint_loop p off i acc =
        get_varint_loop p off (Suc i) (acc OR push_bit (7 * i) (v AND 0x7f))"
      using i(1) varint_byte [of v] by (subst get_varint_loop.simps) (simp add: p Let_def b_def)
    also have "\<dots> = ((acc OR push_bit (7 * i) (v AND 0x7f)) OR push_bit (7 * Suc i) (drop_bit 7 v),
                   Suc i + length (put_varint (drop_bit 7 v)))"
      by (rule "1.IH" [OF True rest i(2)])
    finally show ?thesis
      using push_low7 [of "7 * i" v] by (simp add: pv or.assoc add.commute)
  next
    case False
    then have pv: "put_varint v = [b]"
      by (subst put_varint.simps) (simp add: b_def)
    with "1.prems" have p: "p (off + i) = b" and i: "i < 10"
      by (auto simp: get_bytes_Suc)
    have "unat v < 128" using False by (simp add: word_le_nat_alt)
    then have "unat (v AND 0x7f) = unat v"
      by (simp add: low7_64 take_bit_eq_mod unat_mod)
    then have "v AND 0x7f = v" by (rule unsigned_word_eqI)
    then show ?thesis
      using i varint_byte [of v] by (subst get_varint_loop.simps) (simp add: p pv Let_def b_def)
  qed
qed

interpretation varint: codec put_varint get_varint "\<lambda>_. True"
  by unfold_locales (simp add: get_varint_def get_varint_loop_put length_put_varint_le)

interpretation btree_varint: codec put_varint btree_get_varint "\<lambda>_. True"
  by unfold_locales (simp add: btree_get_varint_def get_varint_loop_put length_put_varint_le)

interpretation u64_field: codec "\<lambda>v :: 64 word. le_bytes 8 (unat v)"
    "\<lambda>p off. (of_nat (rd 8 p off), 8)" "\<lambda>_. True"
  by unfold_locales (simp add: rd_def)

section \<open>Writing a row\<close>

abbreviation SERIAL_TYPE_TTL :: "64 word" where "SERIAL_TYPE_TTL \<equiv> 10"
abbreviation SERIAL_TYPE_XMIN :: "64 word" where "SERIAL_TYPE_XMIN \<equiv> 14"
abbreviation SERIAL_TYPE_XMAX :: "64 word" where "SERIAL_TYPE_XMAX \<equiv> 15"

text \<open>The length of a text value: \<open>text_len\<close>, or \<open>strlen\<close> where that is 0.\<close>

definition serial_text_len :: "Value \<Rightarrow> nat" where
  "serial_text_len v =
     (if text_len v > 0 then unat (text_len v) else length (c_str (text_bytes (text_val v))) mod 2 ^ 32)"

text \<open>One column: its serial type and its bytes in the body.\<close>

definition serialize_col :: "Column \<Rightarrow> Value \<Rightarrow> 64 word \<times> byte list" where
  "serialize_col col v =
     (if is_null v then (0, [])
      else case col_type col of
        COL_INT \<Rightarrow>
          (let val = sint (int_val v)
           in if val = 0 then (8, [])
              else if val = 1 then (9, [])
              else if -128 \<le> val \<and> val \<le> 127 then (1, le_bytes 1 (unat (int_val v)))
              else if -32768 \<le> val \<and> val \<le> 32767 then (2, le_bytes 2 (unat (int_val v)))
              else (4, le_bytes 4 (unat (int_val v))))
      | COL_BOOL \<Rightarrow> (if bool_val v then 9 else 8, [])
      | COL_FLOAT \<Rightarrow>
          (7, le_bytes 8 (unat (if \<not> f64_is_zero (double_val v) then double_val v
                                else f64_of_f32 (float_val v))))
      | COL_DOUBLE \<Rightarrow> (7, le_bytes 8 (unat (double_val v)))
      | COL_NUMERIC \<Rightarrow> (7, le_bytes 8 (unat (double_val v)))
      | COL_DECIMAL \<Rightarrow> (7, le_bytes 8 (unat (double_val v)))
      | _ \<Rightarrow>
          (let len = serial_text_len v
           in (if col_type col = COL_BLOB then 12 + 2 * of_nat len else 13 + 2 * of_nat len,
               take len (text_bytes (text_val v)))))"

text \<open>\<open>hdr_buf\<close> has \<open>PAGE_SIZE\<close> bytes; an entry that might not fit is dropped.\<close>

definition hdr_add :: "byte list \<Rightarrow> 64 word \<Rightarrow> byte list" where
  "hdr_add hdr st = (if length hdr + 16 \<le> PAGE_SIZE then hdr @ put_varint st else hdr)"

fun serialize_cols :: "Column list \<Rightarrow> Value list \<Rightarrow> byte list \<times> byte list \<Rightarrow> byte list \<times> byte list" where
  "serialize_cols (c # cs) (v # vs) (hdr, body) =
     (case serialize_col c v of (st, bs) \<Rightarrow> serialize_cols cs vs (hdr_add hdr st, body @ bs))"
| "serialize_cols _ _ hb = hb"

definition serialize_stamps ::
    "64 word \<Rightarrow> 64 word \<Rightarrow> 64 word \<Rightarrow> byte list \<times> byte list \<Rightarrow> byte list \<times> byte list" where
  "serialize_stamps expire_at xmin xmax hb =
     (let (hdr, body) = hb;
          (hdr, body) = (if expire_at > 0
             then (hdr_add hdr SERIAL_TYPE_TTL, body @ le_bytes 8 (unat expire_at)) else (hdr, body))
      in if xmin > 0 \<or> xmax > 0
         then (hdr_add (hdr_add hdr SERIAL_TYPE_XMIN) SERIAL_TYPE_XMAX,
               body @ le_bytes 8 (unat xmin) @ le_bytes 8 (unat xmax))
         else (hdr, body))"

text \<open>\<open>while (1)\<close> until the header size counts its own varint; \<open>None\<close> would be no exit.\<close>

partial_function (option) header_size_loop :: "nat \<Rightarrow> nat \<Rightarrow> nat option" where
  "header_size_loop hdr_len hdr_total =
     (let vlen = length (put_varint (of_nat hdr_total))
      in if vlen + hdr_len = hdr_total then Some hdr_total else header_size_loop hdr_len (vlen + hdr_len))"

definition serialize_row_with_mvcc ::
    "TableDef \<Rightarrow> Value list \<Rightarrow> 64 word \<Rightarrow> 64 word \<Rightarrow> 64 word \<Rightarrow> byte list option" where
  "serialize_row_with_mvcc def vs expire_at xmin xmax =
     (case serialize_stamps expire_at xmin xmax (serialize_cols (columns def) vs ([], [])) of
        (hdr, body) \<Rightarrow>
          header_size_loop (length hdr) (length hdr + 1) \<bind>
          (\<lambda>hdr_total. Some (put_varint (of_nat hdr_total) @ hdr @ body)))"

definition serialize_row_with_ttl :: "TableDef \<Rightarrow> Value list \<Rightarrow> 64 word \<Rightarrow> byte list option" where
  "serialize_row_with_ttl def vs expire_at = serialize_row_with_mvcc def vs expire_at 0 0"

definition serialize_row :: "TableDef \<Rightarrow> Value list \<Rightarrow> byte list option" where
  "serialize_row def vs = serialize_row_with_mvcc def vs 0 0 0"

section \<open>Reading a row\<close>

text \<open>A stored integer read into a column of type \<open>ty\<close>, a stored constant 0 or 1, a stored double.\<close>

definition load_int :: "ColumnType \<Rightarrow> 32 word \<Rightarrow> Value \<Rightarrow> Value" where
  "load_int ty w v =
     (if is_double_type ty then v\<lparr>double_val := f64_of_int (sint w)\<rparr>
      else if ty = COL_FLOAT then v\<lparr>float_val := f32_of_int (sint w)\<rparr>
      else v\<lparr>int_val := w\<rparr>)"

definition load_const :: "ColumnType \<Rightarrow> bool \<Rightarrow> Value \<Rightarrow> Value" where
  "load_const ty one v =
     (if ty = COL_BOOL then v\<lparr>bool_val := one\<rparr>
      else if is_double_type ty then v\<lparr>double_val := f64_of_int (if one then 1 else 0)\<rparr>
      else if ty = COL_FLOAT then v\<lparr>float_val := f32_of_int (if one then 1 else 0)\<rparr>
      else v\<lparr>int_val := (if one then 1 else 0)\<rparr>)"

definition load_double :: "ColumnType \<Rightarrow> f64 \<Rightarrow> Value \<Rightarrow> Value" where
  "load_double ty d v =
     (if ty = COL_FLOAT then v\<lparr>float_val := f32_of_f64 d, double_val := d\<rparr>
      else if is_double_type ty then v\<lparr>double_val := d\<rparr>
      else v\<lparr>int_val := i32_of_f64 d\<rparr>)"

definition deserialize_col :: "Column \<Rightarrow> 64 word \<Rightarrow> buf \<Rightarrow> nat \<Rightarrow> Value \<times> nat" where
  "deserialize_col col st p cur_body =
     (let ty = col_type col
      in if st = 0 then (value_init\<lparr>is_null := True\<rparr>, cur_body)
         else if st = 1 then (load_int ty (scast (p cur_body)) value_init, cur_body + 1)
         else if st = 2
           then (load_int ty (scast (of_nat (rd 2 p cur_body) :: 16 word)) value_init, cur_body + 2)
         else if st = 4 then (load_int ty (of_nat (rd 4 p cur_body)) value_init, cur_body + 4)
         else if st = 7 then (load_double ty (of_nat (rd 8 p cur_body)) value_init, cur_body + 8)
         else if st = 8 then (load_const ty False value_init, cur_body)
         else if st = 9 then (load_const ty True value_init, cur_body)
         else if st \<ge> 12
           then (let len = (if even (unat st) then (unat st - 12) div 2 else (unat st - 13) div 2) mod 2 ^ 32
                 in (value_set_text_len value_init (Some (get_bytes p cur_body len)) (of_nat len),
                     cur_body + len))
         else (value_init, cur_body))"

fun deserialize_cols :: "Column list \<Rightarrow> buf \<Rightarrow> nat \<Rightarrow> nat \<Rightarrow> Value list \<times> nat \<times> nat" where
  "deserialize_cols [] p cur_hdr cur_body = ([], cur_hdr, cur_body)"
| "deserialize_cols (c # cs) p cur_hdr cur_body =
     (case get_varint p cur_hdr of (st, n) \<Rightarrow>
      case deserialize_col c st p cur_body of (v, cur_body') \<Rightarrow>
      case deserialize_cols cs p (cur_hdr + n) cur_body' of (vs, h, b) \<Rightarrow> (v # vs, h, b))"

lemma get_varint_loop_advances: "i < 10 \<Longrightarrow> i < snd (get_varint_loop p off i acc)"
proof (induction p off i acc rule: get_varint_loop.induct)
  case (1 p off i acc)
  then show ?case
    by (subst get_varint_loop.simps)
      (cases "i + 1 < 10"; force simp: Let_def get_varint_loop.simps [of p off "Suc i"])
qed

lemma get_varint_advances: "0 < snd (get_varint p off)"
  by (simp add: get_varint_def get_varint_loop_advances)

lemma get_varint_pos: "(t, n) = get_varint p off \<Longrightarrow> 0 < n"
  using get_varint_advances [of p off] by (metis snd_conv)

text \<open>The MVCC stamps that follow the columns in the header.\<close>

function deserialize_stamps ::
    "buf \<Rightarrow> nat \<Rightarrow> nat \<Rightarrow> nat \<Rightarrow> 64 word \<times> 64 word \<times> 64 word \<Rightarrow> (64 word \<times> 64 word \<times> 64 word) \<times> nat" where
  "deserialize_stamps p body_offset cur_hdr cur_body (e, xmin, xmax) =
     (if cur_hdr < body_offset
      then (case get_varint p cur_hdr of (t, n) \<Rightarrow>
              if t = SERIAL_TYPE_TTL
                then deserialize_stamps p body_offset (cur_hdr + n) (cur_body + 8)
                       (of_nat (rd 8 p cur_body), xmin, xmax)
              else if t = SERIAL_TYPE_XMIN
                then deserialize_stamps p body_offset (cur_hdr + n) (cur_body + 8)
                       (e, of_nat (rd 8 p cur_body), xmax)
              else if t = SERIAL_TYPE_XMAX
                then deserialize_stamps p body_offset (cur_hdr + n) (cur_body + 8)
                       (e, xmin, of_nat (rd 8 p cur_body))
              else ((e, xmin, xmax), cur_body))
      else ((e, xmin, xmax), cur_body))"
  by pat_completeness auto
termination
  by (relation "measure (\<lambda>(_, body_offset, cur_hdr, _). body_offset - cur_hdr)")
    (auto intro!: diff_less_mono2 dest!: get_varint_pos)

declare deserialize_stamps.simps [simp del]

definition deserialize_row_with_mvcc ::
    "TableDef \<Rightarrow> buf \<Rightarrow> Value list \<times> (64 word \<times> 64 word \<times> 64 word) \<times> nat" where
  "deserialize_row_with_mvcc def p =
     (case get_varint p 0 of (total_hdr_size, n) \<Rightarrow>
        (let body_offset = unat total_hdr_size mod 2 ^ 32
         in case deserialize_cols (columns def) p n body_offset of (vs, cur_hdr, cur_body) \<Rightarrow>
            case deserialize_stamps p body_offset cur_hdr cur_body (0, 0, 0) of (stamps, end_body) \<Rightarrow>
              (vs, stamps, end_body)))"

definition deserialize_row_with_ttl :: "TableDef \<Rightarrow> buf \<Rightarrow> Value list \<times> 64 word \<times> nat" where
  "deserialize_row_with_ttl def p =
     (case deserialize_row_with_mvcc def p of (vs, (e, _, _), n) \<Rightarrow> (vs, e, n))"

definition deserialize_row :: "TableDef \<Rightarrow> buf \<Rightarrow> Value list \<times> nat" where
  "deserialize_row def p = (case deserialize_row_with_mvcc def p of (vs, _, n) \<Rightarrow> (vs, n))"

text \<open>\<open>extract_col0_from_packed_record\<close> (\<open>src/btree.c\<close>): column 0 without the rest of the row.\<close>

abbreviation (input) BTREE_MAX_LOCAL_PAYLOAD :: nat where "BTREE_MAX_LOCAL_PAYLOAD \<equiv> 1024"
abbreviation (input) OVERFLOW_STUB_HEADER :: nat where "OVERFLOW_STUB_HEADER \<equiv> 8"

definition cell_is_overflow_stub :: "nat \<Rightarrow> bool" where
  "cell_is_overflow_stub slot_size \<longleftrightarrow> slot_size \<ge> BTREE_MAX_LOCAL_PAYLOAD"

definition extract_col0_from_packed_record :: "TableDef \<Rightarrow> buf \<Rightarrow> nat \<Rightarrow> nat \<Rightarrow> Value" where
  "extract_col0_from_packed_record def page off cell_size =
     (let in_off = (if cell_is_overflow_stub cell_size then off + OVERFLOW_STUB_HEADER else off);
          (total_hdr_size, p) = btree_get_varint page in_off;
          (st, _) = btree_get_varint page (in_off + p);
          body = in_off + unat total_hdr_size mod 2 ^ 32;
          ty = col_type (columns def ! 0);
          v = value_init
      in if st = 1 then v\<lparr>int_val := scast (page body)\<rparr>
         else if st = 2 then v\<lparr>int_val := scast (of_nat (rd 2 page body) :: 16 word)\<rparr>
         else if st = 4 then v\<lparr>int_val := of_nat (rd 4 page body)\<rparr>
         else if st = 7 then load_double ty (of_nat (rd 8 page body)) v
         else if st = 8 then
           (if ty = COL_FLOAT then v\<lparr>float_val := f32_of_int 0, double_val := f64_of_int 0\<rparr>
            else load_const ty False v)
         else if st = 9 then
           (if ty = COL_FLOAT then v\<lparr>float_val := f32_of_int 1, double_val := f64_of_int 1\<rparr>
            else load_const ty True v)
         else if st \<ge> 12
           then (let len = (if even (unat st) then (unat st - 12) div 2 else (unat st - 13) div 2) mod 2 ^ 32
                 in value_set_text_len v (Some (get_bytes page body len)) (of_nat len))
         else v)"

end
