(* ===== verification/Record_Roundtrip.thy ===== *)
theory Record_Roundtrip
  imports Record_Format
begin

text \<open>
  The round trip of the packed record format: for any table of at most 16 columns and well-formed
  values, the loop that sizes the header ends, and reading the record back gives each value in the
  normal form of its column, the three MVCC stamps, and the number of bytes written.
\<close>

abbreviation (input) MAX_COLUMNS :: nat where "MAX_COLUMNS \<equiv> 16"

section \<open>The header size\<close>

lemma length_put_varint_1: "unat v < 128 \<Longrightarrow> length (put_varint v) = 1"
  using length_put_varint [of v 1] length_put_varint_pos [of v] by (simp add: Suc_leI le_antisym)

lemma length_put_varint_2:
  assumes "128 \<le> unat v" "unat v < 16384"
  shows "length (put_varint v) = 2"
proof -
  have "v \<ge> 0x80" using assms by (simp add: word_le_nat_alt)
  moreover have "unat (drop_bit 7 v) < 128"
    using assms by (simp add: drop_bit_eq_div unat_div)
  ultimately show ?thesis
    by (subst put_varint.simps) (simp add: length_put_varint_1)
qed

lemma unat_of_nat_64 [simp]: "n < 2 ^ 64 \<Longrightarrow> unat (of_nat n :: 64 word) = n"
  by (simp add: unat_of_nat)

lemma unat_of_nat_32 [simp]: "n < 2 ^ 32 \<Longrightarrow> unat (of_nat n :: 32 word) = n"
  by (simp add: unat_of_nat)

lemma header_size_loop_ends:
  assumes "n \<le> 8192"
  shows "header_size_loop n (n + 1) = Some (n + (if n < 127 then 1 else 2))"
proof (cases "n < 127")
  case True
  then have "length (put_varint (of_nat (n + 1))) = 1"
    by (intro length_put_varint_1) (simp add: unat_of_nat del: of_nat_Suc of_nat_add)
  with True show ?thesis by (subst header_size_loop.simps) simp
next
  case False
  with assms have "length (put_varint (of_nat (n + 1))) = 2" "length (put_varint (of_nat (n + 2))) = 2"
    by (auto intro!: length_put_varint_2 simp: unat_of_nat simp del: of_nat_Suc of_nat_add)
  with False show ?thesis
    by (subst header_size_loop.simps, subst header_size_loop.simps) (simp add: Let_def)
qed

lemma header_size_loop_fixpoint:
  assumes "n \<le> 8192" "header_size_loop n (n + 1) = Some t"
  shows "length (put_varint (of_nat t)) + n = t" "t \<le> n + 2"
proof -
  have t: "t = n + (if n < 127 then 1 else 2)"
    using assms header_size_loop_ends by force
  show "t \<le> n + 2" using t by simp
  show "length (put_varint (of_nat t)) + n = t"
  proof (cases "n < 127")
    case True
    then show ?thesis
      using t length_put_varint_1 [of "of_nat t"] by (simp add: unat_of_nat del: of_nat_Suc of_nat_add)
  next
    case False
    then show ?thesis
      using t assms(1) length_put_varint_2 [of "of_nat t"]
      by (simp add: unat_of_nat del: of_nat_Suc of_nat_add)
  qed
qed

section \<open>One column\<close>

text \<open>The normal form a value has after a round trip through its column.\<close>

definition canon :: "Column \<Rightarrow> Value \<Rightarrow> Value" where
  "canon col v =
     (if is_null v then value_init\<lparr>is_null := True\<rparr>
      else case col_type col of
        COL_INT \<Rightarrow> value_init\<lparr>int_val := int_val v\<rparr>
      | COL_BOOL \<Rightarrow> value_init\<lparr>bool_val := bool_val v\<rparr>
      | COL_FLOAT \<Rightarrow> value_init\<lparr>float_val := f32_of_f64 (double_key v), double_val := double_key v\<rparr>
      | COL_DOUBLE \<Rightarrow> value_init\<lparr>double_val := double_val v\<rparr>
      | COL_NUMERIC \<Rightarrow> value_init\<lparr>double_val := double_val v\<rparr>
      | COL_DECIMAL \<Rightarrow> value_init\<lparr>double_val := double_val v\<rparr>
      | _ \<Rightarrow> value_set_text_len value_init (Some (text_bytes (text_val v))) (text_len v))"

abbreviation col_hdr :: "Column \<Rightarrow> Value \<Rightarrow> byte list" where
  "col_hdr c v \<equiv> put_varint (fst (serialize_col c v))"
abbreviation col_body :: "Column \<Rightarrow> Value \<Rightarrow> byte list" where
  "col_body c v \<equiv> snd (serialize_col c v)"


lemma ucast_mod: "of_nat (unat (w :: 32 word) mod 256) = (ucast w :: 8 word)"
    "of_nat (unat (w :: 32 word) mod 65536) = (ucast w :: 16 word)"
  by (rule unsigned_word_eqI [where 'a = nat];
      simp add: unat_of_nat unsigned_ucast_eq take_bit_eq_mod)+

lemma sint_ucast:
    "sint (ucast (w :: 32 word) :: 8 word) = signed_take_bit 7 (sint w)"
    "sint (ucast (w :: 32 word) :: 16 word) = signed_take_bit 15 (sint w)"
  by (transfer, simp add: signed_take_bit_take_bit min_def)+

lemma sint_scast: "sint (scast (x :: 8 word) :: 32 word) = sint x"
    "sint (scast (y :: 16 word) :: 32 word) = sint y"
  by (transfer, simp add: min_def)+

lemma sint_eqI: "sint x = sint y \<Longrightarrow> x = y"
  by (rule signed_word_eqI)

lemma scast_narrow8 [simp]:
  "-128 \<le> sint w \<Longrightarrow> sint w \<le> 127 \<Longrightarrow> scast (of_nat (unat (w :: 32 word) mod 256) :: 8 word) = w"
  by (rule sint_eqI) (simp only: ucast_mod sint_scast sint_ucast, simp add: signed_take_bit_int_eq_self)

lemma scast_narrow16 [simp]:
  "-32768 \<le> sint w \<Longrightarrow> sint w \<le> 32767 \<Longrightarrow> scast (of_nat (unat (w :: 32 word) mod 65536) :: 16 word) = w"
  by (rule sint_eqI) (simp only: ucast_mod sint_scast sint_ucast, simp add: signed_take_bit_int_eq_self)


lemma unat_serial:
  "n < 2 ^ 32 \<Longrightarrow> unat (12 + 2 * of_nat n :: 64 word) = 12 + 2 * n"
  "n < 2 ^ 32 \<Longrightarrow> unat (13 + 2 * of_nat n :: 64 word) = 13 + 2 * n"
proof -
  assume "n < 2 ^ 32"
  then have "unat (of_nat (12 + 2 * n) :: 64 word) = 12 + 2 * n"
    and "unat (of_nat (13 + 2 * n) :: 64 word) = 13 + 2 * n"
    by (simp_all only: unat_of_nat, simp_all)
  then show "unat (12 + 2 * of_nat n :: 64 word) = 12 + 2 * n"
    "unat (13 + 2 * of_nat n :: 64 word) = 13 + 2 * n"
    by simp_all
qed

lemma serial_text_len_wf: "value_wf v \<Longrightarrow> serial_text_len v = length (text_bytes (text_val v))"
  by (auto simp: serial_text_len_def value_wf_def c_str_def word_gt_0 split: text_ptr.splits)

lemma serial_text_len_bound: "value_wf v \<Longrightarrow> length (text_bytes (text_val v)) < 2 ^ 32"
  using unsigned_less [of "text_len v", where ?'a = nat]
  by (auto simp: value_wf_def split: text_ptr.splits)

lemma text_len_wf: "value_wf v \<Longrightarrow> of_nat (length (text_bytes (text_val v))) = text_len v"
  by (auto simp: value_wf_def split: text_ptr.splits)


lemma deserialize_col_text:
  assumes "12 \<le> unat st"
  shows "deserialize_col c st p off =
    (let len = (if even (unat st) then (unat st - 12) div 2 else (unat st - 13) div 2) mod 2 ^ 32
     in (value_set_text_len value_init (Some (get_bytes p off len)) (of_nat len), off + len))"
proof -
  have "st \<noteq> 0" "st \<noteq> 1" "st \<noteq> 2" "st \<noteq> 4" "st \<noteq> 7" "st \<noteq> 8" "st \<noteq> 9" "st \<ge> 12"
    using assms by (auto simp: word_le_nat_alt)
  then show ?thesis by (simp add: deserialize_col_def)
qed

lemma deserialize_serialize_text:
  assumes "value_wf v" "\<not> is_null v" "is_text_type (col_type c)"
    and bytes: "get_bytes p off (length (col_body c v)) = col_body c v"
  shows "deserialize_col c (fst (serialize_col c v)) p off = (canon c v, off + length (col_body c v))"
proof -
  define len where "len = length (text_bytes (text_val v))"
  have len: "len < 2 ^ 32" "serial_text_len v = len" "of_nat len = text_len v" "unat (text_len v) = len"
    using assms(1) serial_text_len_bound serial_text_len_wf text_len_wf
    unfolding len_def by (auto simp: value_wf_def split: text_ptr.splits)
  have ser: "serialize_col c v = (if col_type c = COL_BLOB then 12 + 2 * of_nat len else 13 + 2 * of_nat len,
      text_bytes (text_val v))"
    using assms(2,3) len by (cases "col_type c") (auto simp: serialize_col_def len_def)
  have "canon c v = value_set_text_len value_init (Some (text_bytes (text_val v))) (text_len v)"
    using assms(2,3) by (cases "col_type c") (auto simp: canon_def)
  with bytes len show ?thesis
    by (simp add: ser deserialize_col_text unat_serial Let_def len_def [symmetric])
qed

lemma deserialize_serialize_col:
  assumes "value_wf v" and bytes: "get_bytes p off (length (col_body c v)) = col_body c v"
  shows "deserialize_col c (fst (serialize_col c v)) p off = (canon c v, off + length (col_body c v))"
proof (cases "is_null v \<or> is_text_type (col_type c)")
  case True
  with assms show ?thesis
    using deserialize_serialize_text [of v c p off]
    by (cases "is_null v") (auto simp: serialize_col_def canon_def deserialize_col_def)
next
  case False
  have fields: "get_bytes p off 1 = le_bytes 1 x \<Longrightarrow> p off = of_nat (x mod 256)"
    "get_bytes p off 2 = le_bytes 2 x \<Longrightarrow> rd 2 p off = x mod 65536"
    "get_bytes p off 4 = le_bytes 4 x \<Longrightarrow> rd 4 p off = x mod 4294967296"
    "get_bytes p off 8 = le_bytes 8 x \<Longrightarrow> rd 8 p off = x mod 18446744073709551616" for x
    by (simp_all add: rd_def) (simp add: get_bytes_Suc)
  have zero: "x = 0" if "sint x = 0" for x :: "32 word" using that by (intro sint_eqI) simp
  have one: "x = 1" if "sint x = 1" for x :: "32 word" using that by (intro sint_eqI) simp
  show ?thesis
    using False bytes
    by (cases "col_type c")
      (auto simp: serialize_col_def canon_def deserialize_col_def load_int_def load_const_def
        load_double_def Let_def fields double_key_def value_init_def dest!: zero one split: if_splits)
qed


section \<open>The whole row\<close>

definition row_hdr :: "Column list \<Rightarrow> Value list \<Rightarrow> byte list" where
  "row_hdr cs vs = concat (map2 col_hdr cs vs)"
definition row_body :: "Column list \<Rightarrow> Value list \<Rightarrow> byte list" where
  "row_body cs vs = concat (map2 col_body cs vs)"

lemma row_simps [simp]:
  "row_hdr [] vs = []" "row_body [] vs = []"
  "row_hdr (c # cs) (v # vs) = col_hdr c v @ row_hdr cs vs"
  "row_body (c # cs) (v # vs) = col_body c v @ row_body cs vs"
  by (simp_all add: row_hdr_def row_body_def)

lemma length_row_hdr: "length cs = length vs \<Longrightarrow> length (row_hdr cs vs) \<le> 10 * length cs"
proof (induction cs vs rule: list_induct2)
  case (Cons c cs v vs)
  then show ?case using length_put_varint_le [of "fst (serialize_col c v)"] by simp
qed simp

text \<open>With room for the entries in the header buffer, none of them is dropped.\<close>

lemma serialize_cols_room:
  assumes "length cs = length vs" "length hdr + 10 * length cs + 16 \<le> PAGE_SIZE"
  shows "serialize_cols cs vs (hdr, body) = (hdr @ row_hdr cs vs, body @ row_body cs vs)"
  using assms
proof (induction cs vs arbitrary: hdr body rule: list_induct2)
  case (Cons c cs v vs)
  have "length (col_hdr c v) \<le> 10" by (rule length_put_varint_le)
  then have "length (hdr @ col_hdr c v) + 10 * length cs + 16 \<le> PAGE_SIZE"
    using Cons.prems by simp
  from Cons.IH [OF this] Cons.prems show ?case by (simp add: hdr_add_def split_beta)
qed simp

lemma get_bytes_split:
  assumes "get_bytes p off (length xs + length ys) = xs @ ys"
  shows "get_bytes p off (length xs) = xs" "get_bytes p (off + length xs) (length ys) = ys"
  using assms by (simp_all add: get_bytes_append)

lemma deserialize_cols_row:
  assumes "length cs = length vs" "\<forall>v \<in> set vs. value_wf v"
    and "get_bytes p h (length (row_hdr cs vs)) = row_hdr cs vs"
    and "get_bytes p b (length (row_body cs vs)) = row_body cs vs"
  shows "deserialize_cols cs p h b =
    (map2 canon cs vs, h + length (row_hdr cs vs), b + length (row_body cs vs))"
  using assms
proof (induction cs vs arbitrary: h b rule: list_induct2)
  case (Cons c cs v vs)
  note hdr = get_bytes_split [of p h "col_hdr c v" "row_hdr cs vs"]
  note bod = get_bytes_split [of p b "col_body c v" "row_body cs vs"]
  have "get_varint p h = (fst (serialize_col c v), length (col_hdr c v))"
    using Cons.prems hdr by (intro varint.dec_enc) simp_all
  moreover have "deserialize_col c (fst (serialize_col c v)) p b = (canon c v, b + length (col_body c v))"
    using Cons.prems bod by (intro deserialize_serialize_col) simp_all
  ultimately show ?case
    using Cons hdr bod by (simp add: add.assoc)
qed simp


text \<open>The stamps: their markers in the header and their bytes after the columns.\<close>

definition stamp_hdr :: "64 word \<Rightarrow> 64 word \<Rightarrow> 64 word \<Rightarrow> byte list" where
  "stamp_hdr expire_at xmin xmax =
     (if expire_at > 0 then [10] else []) @ (if xmin > 0 \<or> xmax > 0 then [14, 15] else [])"
definition stamp_body :: "64 word \<Rightarrow> 64 word \<Rightarrow> 64 word \<Rightarrow> byte list" where
  "stamp_body expire_at xmin xmax =
     (if expire_at > 0 then le_bytes 8 (unat expire_at) else []) @
     (if xmin > 0 \<or> xmax > 0 then le_bytes 8 (unat xmin) @ le_bytes 8 (unat xmax) else [])"

lemma put_varint_stamp [simp]:
  "put_varint SERIAL_TYPE_TTL = [10]" "put_varint SERIAL_TYPE_XMIN = [14]" "put_varint SERIAL_TYPE_XMAX = [15]"
  by (subst put_varint.simps; simp)+

lemma serialize_stamps_room:
  "length hdr + 18 \<le> PAGE_SIZE \<Longrightarrow> serialize_stamps e xmin xmax (hdr, body) =
     (hdr @ stamp_hdr e xmin xmax, body @ stamp_body e xmin xmax)"
  by (simp add: serialize_stamps_def stamp_hdr_def stamp_body_def hdr_add_def Let_def)

lemma get_varint_stamp:
  "p off = 10 \<Longrightarrow> get_varint p off = (SERIAL_TYPE_TTL, 1)"
  "p off = 14 \<Longrightarrow> get_varint p off = (SERIAL_TYPE_XMIN, 1)"
  "p off = 15 \<Longrightarrow> get_varint p off = (SERIAL_TYPE_XMAX, 1)"
  using varint.dec_enc [where v = SERIAL_TYPE_TTL and p = p and off = off] varint.dec_enc [where v = SERIAL_TYPE_XMIN and p = p and off = off]
    varint.dec_enc [where v = SERIAL_TYPE_XMAX and p = p and off = off]
  by (simp_all add: get_bytes_Suc)

lemma rd8_of_bytes: "get_bytes p off 8 = le_bytes 8 (unat (w :: 64 word)) \<Longrightarrow> of_nat (rd 8 p off) = w"
  by (simp add: rd_def)

lemma deserialize_stamps_ttl:
  "p h = 10 \<Longrightarrow> get_bytes p b 8 = le_bytes 8 (unat e) \<Longrightarrow> h < body_offset \<Longrightarrow>
     deserialize_stamps p body_offset h b (e', xmin, xmax) =
     deserialize_stamps p body_offset (Suc h) (b + 8) (e, xmin, xmax)"
  by (subst deserialize_stamps.simps) (simp add: get_varint_stamp rd8_of_bytes)

lemma deserialize_stamps_mvcc:
  assumes "get_bytes p h 2 = [14, 15]"
    and "get_bytes p b 16 = le_bytes 8 (unat xmin) @ le_bytes 8 (unat xmax)"
  shows "deserialize_stamps p (h + 2) h b (e, 0, 0) = ((e, xmin, xmax), b + 16)"
proof -
  have "p h = 14" "p (Suc h) = 15"
    using assms(1) by (auto simp: get_bytes_Suc numeral_2_eq_2)
  moreover have "get_bytes p b 8 = le_bytes 8 (unat xmin)" "get_bytes p (b + 8) 8 = le_bytes 8 (unat xmax)"
    using get_bytes_split [of p b "le_bytes 8 (unat xmin)" "le_bytes 8 (unat xmax)"] assms(2) by simp_all
  ultimately show ?thesis
    by (simp add: deserialize_stamps.simps [of p "h + 2"] get_varint_stamp rd8_of_bytes
        deserialize_stamps.simps [of p "Suc (Suc h)"])
qed

lemma deserialize_stamps_none:
  "deserialize_stamps p h h b s = (s, b)"
  by (cases s) (simp add: deserialize_stamps.simps)

lemma deserialize_stamps_row:
  assumes "get_bytes p h (length (stamp_hdr e xmin xmax)) = stamp_hdr e xmin xmax"
    and "get_bytes p b (length (stamp_body e xmin xmax)) = stamp_body e xmin xmax"
    and "body_offset = h + length (stamp_hdr e xmin xmax)"
  shows "deserialize_stamps p body_offset h b (0, 0, 0) =
    ((e, xmin, xmax), b + length (stamp_body e xmin xmax))"
proof -
  have no: "\<not> 0 < w \<Longrightarrow> w = 0" for w :: "64 word" by (simp add: word_gt_0)
  show ?thesis
  proof (cases "e > 0"; cases "xmin > 0 \<or> xmax > 0")
    assume c: "e > 0" "xmin > 0 \<or> xmax > 0"
    then have "p h = 10" "get_bytes p (Suc h) 2 = [14, 15]"
      "get_bytes p b 8 = le_bytes 8 (unat e)"
      "get_bytes p (b + 8) 16 = le_bytes 8 (unat xmin) @ le_bytes 8 (unat xmax)"
      using assms(1,2) get_bytes_append [of p b 8 16]
      by (auto simp: stamp_hdr_def stamp_body_def get_bytes_Suc numeral_2_eq_2)
    then show ?thesis
      using c assms(3) deserialize_stamps_mvcc [of p "Suc h" "b + 8" xmin xmax e]
      by (simp add: deserialize_stamps_ttl stamp_hdr_def stamp_body_def)
  next
    assume c: "e > 0" "\<not> (xmin > 0 \<or> xmax > 0)"
    then have "p h = 10" "get_bytes p b 8 = le_bytes 8 (unat e)"
      using assms(1,2) by (auto simp: stamp_hdr_def stamp_body_def get_bytes_Suc)
    then show ?thesis
      using c assms(3) no
      by (simp add: deserialize_stamps_ttl deserialize_stamps_none stamp_hdr_def stamp_body_def)
  next
    assume c: "\<not> e > 0" "xmin > 0 \<or> xmax > 0"
    then show ?thesis
      using assms no deserialize_stamps_mvcc [of p h b xmin xmax 0]
      by (simp add: stamp_hdr_def stamp_body_def numeral_2_eq_2)
  next
    assume "\<not> e > 0" "\<not> (xmin > 0 \<or> xmax > 0)"
    then show ?thesis
      using assms(3) no by (simp add: deserialize_stamps_none stamp_hdr_def stamp_body_def)
  qed
qed


definition row_hdr_all :: "TableDef \<Rightarrow> Value list \<Rightarrow> 64 word \<Rightarrow> 64 word \<Rightarrow> 64 word \<Rightarrow> byte list" where
  "row_hdr_all def vs e xmin xmax = row_hdr (columns def) vs @ stamp_hdr e xmin xmax"
definition row_body_all :: "TableDef \<Rightarrow> Value list \<Rightarrow> 64 word \<Rightarrow> 64 word \<Rightarrow> 64 word \<Rightarrow> byte list" where
  "row_body_all def vs e xmin xmax = row_body (columns def) vs @ stamp_body e xmin xmax"

lemma length_stamp_hdr: "length (stamp_hdr e xmin xmax) \<le> 3"
  by (simp add: stamp_hdr_def)

lemma length_row_hdr_all:
  "num_cols def = length vs \<Longrightarrow> num_cols def \<le> MAX_COLUMNS \<Longrightarrow> length (row_hdr_all def vs e xmin xmax) \<le> 163"
  using length_row_hdr [of "columns def" vs] length_stamp_hdr [of e xmin xmax]
  by (simp add: row_hdr_all_def)

text \<open>What the serializer writes: the header size (one or two bytes), the header, the body.\<close>

lemma serialize_row_shape:
  assumes "num_cols def = length vs" "num_cols def \<le> MAX_COLUMNS"
  obtains t where
    "serialize_row_with_mvcc def vs e xmin xmax =
       Some (put_varint (of_nat t) @ row_hdr_all def vs e xmin xmax @ row_body_all def vs e xmin xmax)"
    "length (put_varint (of_nat t)) + length (row_hdr_all def vs e xmin xmax) = t" "t \<le> 165"
proof -
  let ?h = "row_hdr_all def vs e xmin xmax"
  have h: "length ?h \<le> 163" using assms by (rule length_row_hdr_all)
  have "length (row_hdr (columns def) vs) \<le> 160"
    using length_row_hdr [of "columns def" vs] assms by simp
  then have parts: "serialize_stamps e xmin xmax (serialize_cols (columns def) vs ([], [])) =
      (?h, row_body_all def vs e xmin xmax)"
    using assms by (simp add: serialize_cols_room serialize_stamps_room row_hdr_all_def row_body_all_def)
  define t where "t = length ?h + (if length ?h < 127 then 1 else 2)"
  have loop: "header_size_loop (length ?h) (length ?h + 1) = Some t"
    using header_size_loop_ends [of "length ?h"] h by (simp add: t_def)
  then have "length (put_varint (of_nat t)) + length ?h = t" "t \<le> 165"
    using header_size_loop_fixpoint [of "length ?h" t] h by simp_all
  moreover have "serialize_row_with_mvcc def vs e xmin xmax =
       Some (put_varint (of_nat t) @ ?h @ row_body_all def vs e xmin xmax)"
    unfolding serialize_row_with_mvcc_def parts using loop by simp
  ultimately show ?thesis by (rule that [rotated])
qed

lemma get_varint_header_size:
  assumes "get_bytes p off (length (put_varint (of_nat t))) = put_varint (of_nat t)" "t \<le> 165"
  shows "get_varint p off = (of_nat t, length (put_varint (of_nat t)))" "unat (of_nat t :: 64 word) = t"
  using assms by (simp_all add: varint.dec_enc unat_of_nat)

lemma deserialize_serialized:
  assumes "num_cols def = length vs" "num_cols def \<le> MAX_COLUMNS" "\<forall>v \<in> set vs. value_wf v"
  shows "\<exists>rec. serialize_row_with_mvcc def vs expire_at xmin xmax = Some rec \<and>
    (\<forall>p. get_bytes p 0 (length rec) = rec \<longrightarrow>
       deserialize_row_with_mvcc def p =
         (map2 canon (columns def) vs, (expire_at, xmin, xmax), length rec))"
proof -
  let ?h = "row_hdr_all def vs expire_at xmin xmax" and ?b = "row_body_all def vs expire_at xmin xmax"
  obtain t where ser: "serialize_row_with_mvcc def vs expire_at xmin xmax = Some (put_varint (of_nat t) @ ?h @ ?b)"
    and t: "length (put_varint (of_nat t)) + length ?h = t" "t \<le> 165"
    using serialize_row_shape [OF assms(1,2)] by metis
  define n where "n = length (put_varint (of_nat t))"
  have "deserialize_row_with_mvcc def p = (map2 canon (columns def) vs, (expire_at, xmin, xmax), t + length ?b)"
    if p: "get_bytes p 0 (n + (length ?h + length ?b)) = put_varint (of_nat t) @ ?h @ ?b" for p
  proof -
    have hdr: "get_bytes p 0 n = put_varint (of_nat t)" "get_bytes p n (length ?h) = ?h"
      and body: "get_bytes p t (length ?b) = ?b"
      using p t by (simp_all add: get_bytes_append n_def)
    note size = get_varint_header_size [of p 0 t, folded n_def, OF hdr(1) t(2)]
    have cols: "deserialize_cols (columns def) p n t = (map2 canon (columns def) vs,
        n + length (row_hdr (columns def) vs), t + length (row_body (columns def) vs))"
      using hdr(2) body assms
      by (intro deserialize_cols_row) (auto simp: row_hdr_all_def row_body_all_def get_bytes_append)
    have stamps: "deserialize_stamps p t (n + length (row_hdr (columns def) vs))
        (t + length (row_body (columns def) vs)) (0, 0, 0) = ((expire_at, xmin, xmax), t + length ?b)"
      using hdr(2) body t
      by (subst deserialize_stamps_row)
        (auto simp: row_hdr_all_def row_body_all_def get_bytes_append n_def)
    show ?thesis
      using t by (simp add: deserialize_row_with_mvcc_def size cols stamps Let_def)
  qed
  with ser t show ?thesis by (auto simp: n_def add.assoc [symmetric])
qed



lemma extract_col0_is_column:
  assumes "btree_get_varint page off = (sz, n)" "btree_get_varint page (off + n) = (fst (serialize_col c v), m)"
    and "value_wf v" "\<not> is_null v" "columns def = c # cs" "cell_size < BTREE_MAX_LOCAL_PAYLOAD"
  shows "extract_col0_from_packed_record def page off cell_size =
    fst (deserialize_col c (fst (serialize_col c v)) page (off + unat sz mod 2 ^ 32))"
proof (cases "is_text_type (col_type c)")
  case True
  then have "12 \<le> unat (fst (serialize_col c v))"
    using assms(3,4) serial_text_len_bound [OF assms(3)]
    by (cases "col_type c") (auto simp: serialize_col_def unat_serial serial_text_len_wf)
  then have "fst (serialize_col c v) \<notin> {1, 2, 4, 7, 8, 9}" "fst (serialize_col c v) \<ge> 12"
    and d: "12 \<le> unat (fst (serialize_col c v))"
    by (auto simp: word_le_nat_alt)
  then show ?thesis
    using assms by (simp add: extract_col0_from_packed_record_def cell_is_overflow_stub_def
        deserialize_col_text [OF d] Let_def)
next
  case False
  define st where "st = fst (serialize_col c v)"
  have st: "col_type c = COL_INT \<and> st \<in> {1, 2, 4, 8, 9} \<or> col_type c = COL_BOOL \<and> st \<in> {8, 9} \<or>
      col_type c \<in> {COL_FLOAT, COL_DOUBLE, COL_NUMERIC, COL_DECIMAL} \<and> st = 7"
    using False assms(4) unfolding st_def serialize_col_def by (cases "col_type c") (simp_all add: Let_def)
  have hd: "columns def ! 0 = c" "\<not> cell_is_overflow_stub cell_size"
    using assms(5,6) by (simp_all add: cell_is_overflow_stub_def)
  note d = extract_col0_from_packed_record_def deserialize_col_def load_int_def load_const_def load_double_def Let_def
  from st show ?thesis
    unfolding d assms(1) hd if_not_P [OF hd(2)] prod.case assms(2) fst_conv st_def [symmetric]
    by (elim disjE conjE insertE emptyE) (simp_all add: hd)
qed

lemma extract_col0_stored:
  assumes "num_cols def = length vs" "num_cols def \<le> MAX_COLUMNS" "\<forall>v \<in> set vs. value_wf v"
    and "vs = v # vs'" "\<not> is_null v"
    and "serialize_row_with_mvcc def vs expire_at xmin xmax = Some rec"
    and "get_bytes page off (length rec) = rec" "length rec < BTREE_MAX_LOCAL_PAYLOAD"
  shows "extract_col0_from_packed_record def page off (length rec) = canon (columns def ! 0) v"
proof -
  let ?h = "row_hdr_all def vs expire_at xmin xmax" and ?b = "row_body_all def vs expire_at xmin xmax"
  obtain c cs where cs: "columns def = c # cs" using assms(1,4) by (cases "columns def") auto
  obtain t where rec: "rec = put_varint (of_nat t) @ ?h @ ?b"
    and t: "length (put_varint (of_nat t)) + length ?h = t" "t \<le> 165"
    using serialize_row_shape [OF assms(1,2)] assms(6) by (metis option.inject)
  define n where "n = length (put_varint (of_nat t))"
  obtain hr br where hb: "?h = col_hdr c v @ hr" "?b = col_body c v @ br"
    by (simp add: row_hdr_all_def row_body_all_def cs assms(4))
  have m: "get_bytes page off (n + (length ?h + length ?b)) = put_varint (of_nat t) @ ?h @ ?b"
    using assms(7) by (simp add: rec n_def)
  have hdr: "get_bytes page off n = put_varint (of_nat t)"
      "get_bytes page (off + n) (length (col_hdr c v)) = col_hdr c v"
    and body: "get_bytes page (off + t) (length (col_body c v)) = col_body c v"
    using m t by (simp_all add: get_bytes_append n_def hb add.assoc)
  have "v \<in> set vs" using assms(4) by simp
  then have wf: "value_wf v" using assms(3) by blast
  have size: "btree_get_varint page off = (of_nat t, n)" "unat (of_nat t :: 64 word) = t"
    and st: "btree_get_varint page (off + n) = (fst (serialize_col c v), length (col_hdr c v))"
    using hdr t by (simp_all add: btree_varint.dec_enc n_def unat_of_nat)
  have "extract_col0_from_packed_record def page off (length rec) =
      fst (deserialize_col c (fst (serialize_col c v)) page (off + unat (of_nat t :: 64 word) mod 2 ^ 32))"
    using size(1) st wf assms(5) cs assms(8) by (rule extract_col0_is_column)
  then show ?thesis
    using t deserialize_serialize_col [OF wf body] by (simp add: size(2) cs)
qed

text \<open>
  The B+ tree reads column 0 straight out of a leaf cell: on a stored row whose first value is
  not NULL, the shortcut gives exactly what deserialising the whole row gives for that column.
\<close>

theorem extract_col0_agrees:
  assumes "num_cols def = length vs" "num_cols def \<le> MAX_COLUMNS" "\<forall>v \<in> set vs. value_wf v"
    and "vs = v # vs'" "\<not> is_null v"
    and "serialize_row_with_mvcc def vs expire_at xmin xmax = Some rec"
    and "get_bytes page off (length rec) = rec" "length rec < BTREE_MAX_LOCAL_PAYLOAD"
  shows "extract_col0_from_packed_record def page off (length rec) = canon (columns def ! 0) v"
  using assms by (rule extract_col0_stored)

definition sample_col0_page :: buf where
  "sample_col0_page = put_bytes zero_buf 4000 [2, 1, 7]"

theorem extract_col0_agrees_witness:
  "extract_col0_from_packed_record (plain_table [COL_INT]) sample_col0_page 4000 3 =
     canon (plain_column COL_INT) (value_init\<lparr>int_val := 7\<rparr>)"
proof -
  have v: "put_varint 1 = [1]" "put_varint 2 = [2]"
    by (subst put_varint.simps; simp add: word_le_nat_alt)+
  have "serialize_row_with_mvcc (plain_table [COL_INT]) [value_init\<lparr>int_val := 7\<rparr>] 0 0 0 = Some [2, 1, 7]"
    using header_size_loop_ends [of 1]
    by (simp add: serialize_row_with_mvcc_def serialize_col_def hdr_add_def serialize_stamps_def
        value_init_def v)
  then show ?thesis
    using extract_col0_agrees [of "plain_table [COL_INT]" "[value_init\<lparr>int_val := 7\<rparr>]"
        "value_init\<lparr>int_val := 7\<rparr>" "[]" 0 0 0 "[2, 1, 7]" sample_col0_page 4000]
    by (simp add: sample_col0_page_def value_wf_def value_init_def numeral_3_eq_3)
qed

end
