(* ===== verification/Locks.thy ===== *)
theory Locks
  imports Prelude
begin

text \<open>
  Inter-process locking of the pager (\<open>src/pager.c\<close>, \<open>lock_file_byte\<close> to \<open>pager_unlock\<close>): POSIX
  record locks on three bytes far past the data, and the five lock states a pager climbs through.
  The record locks are those of \<open>fcntl\<close>: they belong to a process, a process never conflicts with
  itself, a read lock conflicts with a write lock of another process and a write lock with any lock
  of another process.  The step relation at the end interleaves single \<open>fcntl\<close> calls of any number
  of processes.
\<close>

section \<open>Record locks\<close>

datatype LockByte = PENDING_BYTE | RESERVED_BYTE | SHARED_BYTE

datatype Flock = F_UNLCK | F_RDLCK | F_WRLCK

type_synonym held = "LockByte \<Rightarrow> Flock"

text \<open>\<open>fcntl(fd, F_SETLK, \<dots>)\<close> on one byte, given what the other processes hold on it; \<open>None\<close> is -1.\<close>

fun conflicts :: "Flock \<Rightarrow> Flock \<Rightarrow> bool" where
  "conflicts F_UNLCK other = False"
| "conflicts F_RDLCK other = (other = F_WRLCK)"
| "conflicts F_WRLCK other = (other \<noteq> F_UNLCK)"

definition lock_file_byte :: "held \<Rightarrow> held \<Rightarrow> LockByte \<Rightarrow> Flock \<Rightarrow> held option" where
  "lock_file_byte others own b ty = (if conflicts ty (others b) then None else Some (own(b := ty)))"

text \<open>\<open>fcntl(fd, F_GETLK, \<dots>)\<close> for a lock of type \<open>ty\<close>: is there one in the way?\<close>

definition is_byte_locked :: "held \<Rightarrow> LockByte \<Rightarrow> Flock \<Rightarrow> bool" where
  "is_byte_locked others b ty = conflicts ty (others b)"

section \<open>Lock states\<close>

datatype PagerLockState = NO_LOCK | SHARED_LOCK | RESERVED_LOCK | PENDING_LOCK | EXCLUSIVE_LOCK

fun lock_rank :: "PagerLockState \<Rightarrow> nat" where
  "lock_rank NO_LOCK = 0"
| "lock_rank SHARED_LOCK = 1"
| "lock_rank RESERVED_LOCK = 2"
| "lock_rank PENDING_LOCK = 3"
| "lock_rank EXCLUSIVE_LOCK = 4"

lemma lock_rank_inj: "lock_rank x = lock_rank y \<Longrightarrow> x = y"
  by (cases x; cases y) simp_all

instantiation PagerLockState :: linorder
begin

definition less_eq_PagerLockState :: "PagerLockState \<Rightarrow> PagerLockState \<Rightarrow> bool" where
  "less_eq_PagerLockState x y \<longleftrightarrow> lock_rank x \<le> lock_rank y"

definition less_PagerLockState :: "PagerLockState \<Rightarrow> PagerLockState \<Rightarrow> bool" where
  "less_PagerLockState x y \<longleftrightarrow> lock_rank x < lock_rank y"

instance
  by standard (auto simp: less_eq_PagerLockState_def less_PagerLockState_def intro: lock_rank_inj)

end

lemmas lock_order = less_eq_PagerLockState_def less_PagerLockState_def

record lock_proc =
  held :: held
  lock_state :: PagerLockState

text \<open>
  \<open>pager_lock\<close> of a file-backed pager while the other processes hold \<open>others\<close>: the stages are tried
  in order, and a failing stage keeps what the earlier ones acquired.
\<close>

definition lock_shared :: "held \<Rightarrow> PagerLockState \<Rightarrow> lock_proc \<Rightarrow> bool \<times> lock_proc" where
  "lock_shared others want p =
     (if lock_state p = NO_LOCK \<and> want \<ge> SHARED_LOCK
      then if is_byte_locked others PENDING_BYTE F_WRLCK then (False, p)
           else (case lock_file_byte others (held p) SHARED_BYTE F_RDLCK of
                   None \<Rightarrow> (False, p)
                 | Some h \<Rightarrow> (True, p\<lparr>held := h, lock_state := SHARED_LOCK\<rparr>))
      else (True, p))"

definition lock_stage ::
    "PagerLockState \<Rightarrow> LockByte \<Rightarrow> PagerLockState \<Rightarrow> held \<Rightarrow> PagerLockState \<Rightarrow> lock_proc \<Rightarrow> bool \<times> lock_proc" where
  "lock_stage from_st b to_st others want p =
     (if lock_state p = from_st \<and> want \<ge> to_st
      then (case lock_file_byte others (held p) b F_WRLCK of
              None \<Rightarrow> (False, p)
            | Some h \<Rightarrow> (True, p\<lparr>held := h, lock_state := to_st\<rparr>))
      else (True, p))"

definition lock_attempt :: "held \<Rightarrow> PagerLockState \<Rightarrow> lock_proc \<Rightarrow> bool \<times> lock_proc" where
  "lock_attempt others want p =
     (if lock_state p \<ge> want then (True, p)
      else case lock_shared others want p of (ok, p) \<Rightarrow> if \<not> ok then (False, p)
      else case lock_stage SHARED_LOCK RESERVED_BYTE RESERVED_LOCK others want p of (ok, p) \<Rightarrow>
           if \<not> ok then (False, p)
      else case lock_stage RESERVED_LOCK PENDING_BYTE PENDING_LOCK others want p of (ok, p) \<Rightarrow>
           if \<not> ok then (False, p)
      else lock_stage PENDING_LOCK SHARED_BYTE EXCLUSIVE_LOCK others want p)"

definition unlock_proc :: "lock_proc \<Rightarrow> lock_proc" where
  "unlock_proc p =
     (if lock_state p = NO_LOCK then p
      else p\<lparr>held := (held p)(SHARED_BYTE := F_UNLCK, RESERVED_BYTE := F_UNLCK, PENDING_BYTE := F_UNLCK),
             lock_state := NO_LOCK\<rparr>)"

text \<open>What each state means in terms of the bytes held.\<close>

fun state_held :: "PagerLockState \<Rightarrow> held" where
  "state_held NO_LOCK = (\<lambda>_. F_UNLCK)"
| "state_held SHARED_LOCK = (\<lambda>_. F_UNLCK)(SHARED_BYTE := F_RDLCK)"
| "state_held RESERVED_LOCK = (\<lambda>_. F_UNLCK)(SHARED_BYTE := F_RDLCK, RESERVED_BYTE := F_WRLCK)"
| "state_held PENDING_LOCK = (\<lambda>_. F_WRLCK)(SHARED_BYTE := F_RDLCK)"
| "state_held EXCLUSIVE_LOCK = (\<lambda>_. F_WRLCK)"

definition lock_ok :: "lock_proc \<Rightarrow> bool" where
  "lock_ok p \<longleftrightarrow> held p = state_held (lock_state p)"

lemma all_lock_bytes: "(\<forall>b. P b) \<longleftrightarrow> P PENDING_BYTE \<and> P RESERVED_BYTE \<and> P SHARED_BYTE"
  by (metis LockByte.exhaust)

lemmas held_simps = fun_eq_iff all_lock_bytes

lemmas lock_defs = lock_attempt_def lock_shared_def lock_stage_def lock_file_byte_def is_byte_locked_def

lemma lock_shared_ok: "lock_ok p \<Longrightarrow> lock_ok (snd (lock_shared others want p))"
  by (auto simp: lock_ok_def lock_shared_def lock_file_byte_def)

lemma lock_stage_ok:
  assumes "lock_ok p" "state_held to_st = (state_held from_st)(b := F_WRLCK)"
  shows "lock_ok (snd (lock_stage from_st b to_st others want p))"
  using assms by (auto simp: lock_ok_def lock_stage_def lock_file_byte_def)

lemma stage_bytes:
  "state_held RESERVED_LOCK = (state_held SHARED_LOCK)(RESERVED_BYTE := F_WRLCK)"
  "state_held PENDING_LOCK = (state_held RESERVED_LOCK)(PENDING_BYTE := F_WRLCK)"
  "state_held EXCLUSIVE_LOCK = (state_held PENDING_LOCK)(SHARED_BYTE := F_WRLCK)"
  by (simp_all add: held_simps)

lemma lock_attempt_ok: "lock_ok p \<Longrightarrow> lock_ok (snd (lock_attempt others want p))"
  unfolding lock_attempt_def
  by (auto split: prod.splits if_splits)
    (metis lock_shared_ok lock_stage_ok stage_bytes snd_conv)+

lemma unlock_proc_ok [simp]: "lock_ok p \<Longrightarrow> lock_ok (unlock_proc p)"
  by (auto simp: lock_ok_def unlock_proc_def held_simps)

lemma unlock_proc_state [simp]: "lock_state (unlock_proc p) = NO_LOCK"
  by (simp add: unlock_proc_def)

text \<open>A successful attempt reaches the level asked for; no attempt ever gives up what was held.\<close>

lemma lock_attempt_success: "fst (lock_attempt others want p) \<Longrightarrow> want \<le> lock_state (snd (lock_attempt others want p))"
  by (cases "lock_state p"; cases want)
    (auto simp: lock_defs lock_order split: if_splits option.splits)

lemma lock_attempt_mono: "lock_state p \<le> lock_state (snd (lock_attempt others want p))"
  by (cases "lock_state p"; cases want)
    (auto simp: lock_defs lock_order split: if_splits option.splits)

lemma lock_attempt_limit:
  "lock_state (snd (lock_attempt others want p)) \<le> max want (lock_state p)"
  by (cases "lock_state p"; cases want)
    (auto simp: lock_defs lock_order max_def split: if_splits option.splits)

text \<open>With nobody else around every attempt succeeds.\<close>

lemma lock_attempt_alone:
  "fst (lock_attempt (\<lambda>_. F_UNLCK) want p)"
  by (cases "lock_state p"; cases want) (auto simp: lock_defs lock_order)


section \<open>Processes sharing one database file\<close>

fun stronger :: "Flock \<Rightarrow> Flock \<Rightarrow> Flock" where
  "stronger F_WRLCK _ = F_WRLCK"
| "stronger _ F_WRLCK = F_WRLCK"
| "stronger F_RDLCK _ = F_RDLCK"
| "stronger F_UNLCK x = x"

definition others_of :: "lock_proc list \<Rightarrow> nat \<Rightarrow> held" where
  "others_of s i b = foldr stronger (map (\<lambda>j. held (s ! j) b) (filter (\<lambda>j. j \<noteq> i) [0..<length s])) F_UNLCK"

definition fresh_proc :: lock_proc where
  "fresh_proc = \<lparr>held = (\<lambda>_. F_UNLCK), lock_state = NO_LOCK\<rparr>"

text \<open>
  One \<open>fcntl\<close> call at a time: the stages of \<open>pager_lock\<close>, the release, the end of a process (the
  kernel drops its locks) and the arrival of a new one.  A stage that fails changes nothing.
\<close>

inductive lock_step :: "lock_proc list \<Rightarrow> lock_proc list \<Rightarrow> bool" where
  shared: "i < length s \<Longrightarrow> lock_shared (others_of s i) want (s ! i) = (True, p) \<Longrightarrow> lock_step s (s[i := p])"
| reserved: "i < length s \<Longrightarrow>
    lock_stage SHARED_LOCK RESERVED_BYTE RESERVED_LOCK (others_of s i) want (s ! i) = (True, p) \<Longrightarrow>
    lock_step s (s[i := p])"
| pending: "i < length s \<Longrightarrow>
    lock_stage RESERVED_LOCK PENDING_BYTE PENDING_LOCK (others_of s i) want (s ! i) = (True, p) \<Longrightarrow>
    lock_step s (s[i := p])"
| exclusive: "i < length s \<Longrightarrow>
    lock_stage PENDING_LOCK SHARED_BYTE EXCLUSIVE_LOCK (others_of s i) want (s ! i) = (True, p) \<Longrightarrow>
    lock_step s (s[i := p])"
| release: "i < length s \<Longrightarrow> lock_step s (s[i := unlock_proc (s ! i)])"
| dies: "i < length s \<Longrightarrow> lock_step s (s[i := fresh_proc])"
| joins: "lock_step s (s @ [fresh_proc])"

inductive lock_reachable :: "lock_proc list \<Rightarrow> bool" where
  start: "lock_reachable []"
| step: "lock_reachable s \<Longrightarrow> lock_step s s' \<Longrightarrow> lock_reachable s'"

text \<open>No two processes hold conflicting locks on a byte.\<close>

definition lock_inv :: "lock_proc list \<Rightarrow> bool" where
  "lock_inv s \<longleftrightarrow> (\<forall>p \<in> set s. lock_ok p) \<and>
     (\<forall>i < length s. \<forall>j < length s. i \<noteq> j \<longrightarrow>
        (\<forall>b. held (s ! i) b = F_WRLCK \<longrightarrow> held (s ! j) b = F_UNLCK))"

lemma foldr_stronger_wr: "foldr stronger xs F_UNLCK = F_WRLCK \<longleftrightarrow> F_WRLCK \<in> set xs"
proof (induction xs)
  case (Cons x xs)
  then show ?case by (cases x; cases "foldr stronger xs F_UNLCK") auto
qed simp

lemma foldr_stronger_un: "foldr stronger xs F_UNLCK = F_UNLCK \<longleftrightarrow> set xs \<subseteq> {F_UNLCK}"
proof (induction xs)
  case (Cons x xs)
  then show ?case by (cases x; cases "foldr stronger xs F_UNLCK") auto
qed simp

lemma others_unlocked: "others_of s i b = F_UNLCK \<Longrightarrow> j < length s \<Longrightarrow> j \<noteq> i \<Longrightarrow> held (s ! j) b = F_UNLCK"
  by (auto simp: others_of_def foldr_stronger_un)

lemma others_not_wr: "others_of s i b \<noteq> F_WRLCK \<Longrightarrow> j < length s \<Longrightarrow> j \<noteq> i \<Longrightarrow> held (s ! j) b \<noteq> F_WRLCK"
  by (force simp: others_of_def foldr_stronger_wr)

lemma others_of_update [simp]: "others_of (s[i := p]) i = others_of s i"
  by (auto simp: others_of_def fun_eq_iff intro!: arg_cong [where f = "\<lambda>xs. foldr stronger xs F_UNLCK"])

text \<open>Giving a byte a lock that the others do not oppose, or dropping locks, keeps the invariant.\<close>

lemma lock_inv_grant:
  assumes inv: "lock_inv s" and i: "i < length s" and ok: "lock_ok p"
    and h: "\<And>b. held p b = held (s ! i) b \<or> held p b = F_UNLCK \<or> \<not> conflicts (held p b) (others_of s i b)"
  shows "lock_inv (s[i := p])"
proof -
  have excl: "held (s ! k) b = F_WRLCK \<Longrightarrow> k < length s \<Longrightarrow> l < length s \<Longrightarrow> k \<noteq> l \<Longrightarrow>
      held (s ! l) b = F_UNLCK" for k l b
    using inv by (simp add: lock_inv_def)
  have wr: "held (s ! j) b = F_UNLCK" if "held p b = F_WRLCK" "j < length s" "j \<noteq> i" for j b
    using h [of b] others_unlocked [of s i b j] excl [of i b j] i that by (elim disjE) simp_all
  have rd: "held p b = F_UNLCK" if "held (s ! j) b = F_WRLCK" "j < length s" "j \<noteq> i" for j b
  proof (cases "held p b = held (s ! i) b")
    case True
    then show ?thesis using excl [of j b i] i that by simp
  next
    case False
    then show ?thesis
      using h [of b] others_not_wr [of s i b j] others_unlocked [of s i b j] that
      by (cases "held p b") auto
  qed
  have "held (s[i := p] ! k) b = F_WRLCK \<Longrightarrow> held (s[i := p] ! l) b = F_UNLCK"
    if "k < length s" "l < length s" "k \<noteq> l" for k l b
    using that wr [of b l] rd [of k b] excl [of k b l] by (cases "k = i"; cases "l = i") simp_all
  moreover have "\<forall>q \<in> set (s[i := p]). lock_ok q"
    using inv ok set_update_subset_insert [of s i p] by (auto simp: lock_inv_def)
  ultimately show ?thesis by (simp add: lock_inv_def)
qed

lemma lock_stage_grant:
  assumes "lock_stage a b c others want p = (True, p')"
  shows "held p' x = held p x \<or> \<not> conflicts (held p' x) (others x)"
  using assms by (auto simp: lock_stage_def lock_file_byte_def split: if_splits option.splits)

lemma lock_shared_grant:
  assumes "lock_shared others want p = (True, p')"
  shows "held p' x = held p x \<or> \<not> conflicts (held p' x) (others x)"
  using assms by (auto simp: lock_shared_def lock_file_byte_def split: if_splits option.splits)

lemma fresh_proc_ok [simp]: "lock_ok fresh_proc"
  by (simp add: lock_ok_def fresh_proc_def)

lemma lock_inv_stage:
  assumes "lock_inv s" "i < length s" "lock_stage a b c (others_of s i) want (s ! i) = (True, p)"
    and "state_held c = (state_held a)(b := F_WRLCK)"
  shows "lock_inv (s[i := p])"
proof (rule lock_inv_grant [OF assms(1,2)])
  have "lock_ok (s ! i)" using assms(1,2) by (simp add: lock_inv_def)
  from lock_stage_ok [OF this assms(4)] assms(3) show "lock_ok p" by (metis snd_conv)
  show "held p x = held (s ! i) x \<or> held p x = F_UNLCK \<or> \<not> conflicts (held p x) (others_of s i x)" for x
    using lock_stage_grant [OF assms(3), of x] by blast
qed

lemma lock_inv_drop:
  assumes "lock_inv s" "i < length s" "lock_ok p" "\<And>b. held p b = held (s ! i) b \<or> held p b = F_UNLCK"
  shows "lock_inv (s[i := p])"
  by (rule lock_inv_grant [OF assms(1,2,3)]) (use assms(4) in blast)

lemma lock_inv_step:
  assumes "lock_step s s'" "lock_inv s"
  shows "lock_inv s'"
  using assms
proof (cases rule: lock_step.cases)
  case (shared i want p)
  show ?thesis unfolding shared(1)
  proof (rule lock_inv_grant [OF assms(2) shared(2)])
    have "lock_ok (s ! i)" using assms(2) shared(2) by (simp add: lock_inv_def)
    from lock_shared_ok [OF this] shared(3) show "lock_ok p" by (metis snd_conv)
    show "held p x = held (s ! i) x \<or> held p x = F_UNLCK \<or> \<not> conflicts (held p x) (others_of s i x)" for x
      using lock_shared_grant [OF shared(3), of x] by blast
  qed
next
  case (release i)
  have "lock_ok (s ! i)" using assms(2) release(2) by (simp add: lock_inv_def)
  then have "lock_ok (unlock_proc (s ! i))" by simp
  then show ?thesis unfolding release(1)
    by (rule lock_inv_drop [OF assms(2) release(2)]) (simp add: unlock_proc_def)
next
  case (dies i)
  show ?thesis unfolding dies(1)
    by (rule lock_inv_drop [OF assms(2) dies(2)]) (simp, simp add: fresh_proc_def)
next
  case joins
  have new: "held (s' ! k) b = (if k < length s then held (s ! k) b else F_UNLCK)"
    if "k < length s'" for k b
    using that by (auto simp: joins nth_append fresh_proc_def)
  have "\<forall>p \<in> set s'. lock_ok p"
    using assms(2) by (simp add: joins lock_inv_def)
  moreover have "held (s' ! l) b = F_UNLCK"
    if "k < length s'" "l < length s'" "k \<noteq> l" "held (s' ! k) b = F_WRLCK" for k l b
    using that assms(2) unfolding lock_inv_def by (simp add: new split: if_splits)
  ultimately show ?thesis unfolding lock_inv_def by blast
next
  case (reserved i want p)
  show ?thesis unfolding reserved(1)
    by (rule lock_inv_stage [OF assms(2) reserved(2,3) stage_bytes(1)])
next
  case (pending i want p)
  show ?thesis unfolding pending(1)
    by (rule lock_inv_stage [OF assms(2) pending(2,3) stage_bytes(2)])
next
  case (exclusive i want p)
  show ?thesis unfolding exclusive(1)
    by (rule lock_inv_stage [OF assms(2) exclusive(2,3) stage_bytes(3)])
qed

lemma lock_inv_reachable: "lock_reachable s \<Longrightarrow> lock_inv s"
  by (induction rule: lock_reachable.induct) (simp add: lock_inv_def, rule lock_inv_step)

text \<open>A whole call of \<open>pager_lock\<close>, failing or not, is a sequence of such steps.\<close>

lemma lock_reachable_update:
  assumes "lock_reachable (s[i := p])" "i < length s"
    and "q = p \<or> lock_step (s[i := p]) (s[i := p, i := q])"
  shows "lock_reachable (s[i := q])"
  using assms lock_reachable.step [of "s[i := p]" "s[i := q]"] by auto

lemma lock_attempt_reachable:
  assumes "lock_reachable s" "i < length s"
  shows "lock_reachable (s[i := snd (lock_attempt (others_of s i) want (s ! i))])"
proof -
  let ?o = "others_of s i"
  have id: "lock_reachable (s[i := s ! i])" using assms(1) by simp
  have sh: "lock_reachable (s[i := q]) \<Longrightarrow> lock_reachable (s[i := snd (lock_shared ?o want q)])" for q
    using lock_step.shared [of i "s[i := q]" want] assms(2)
    by (elim lock_reachable_update)
      (auto simp: lock_shared_def split: option.splits if_splits)
  have st: "lock_reachable (s[i := q]) \<Longrightarrow> (a, b, c) \<in> {(SHARED_LOCK, RESERVED_BYTE, RESERVED_LOCK),
      (RESERVED_LOCK, PENDING_BYTE, PENDING_LOCK), (PENDING_LOCK, SHARED_BYTE, EXCLUSIVE_LOCK)} \<Longrightarrow>
      lock_reachable (s[i := snd (lock_stage a b c ?o want q)])" for q a b c
    using lock_step.reserved [of i "s[i := q]" want] lock_step.pending [of i "s[i := q]" want]
      lock_step.exclusive [of i "s[i := q]" want] assms(2)
    by (elim lock_reachable_update)
      (auto simp: lock_stage_def split: option.splits if_splits)
  show ?thesis
    using id sh [of "s ! i"] st unfolding lock_attempt_def
    by (simp split: prod.split) (metis snd_conv insertCI)
qed


definition two_procs :: "lock_proc list" where
  "two_procs = [\<lparr>held = (\<lambda>_. F_WRLCK), lock_state = EXCLUSIVE_LOCK\<rparr>, fresh_proc]"

lemma two_procs_reachable: "lock_reachable two_procs"
proof -
  have "lock_reachable [fresh_proc, fresh_proc]"
    using lock_reachable.start lock_step.joins lock_reachable.step by (metis append_Cons append_Nil)
  moreover have "(\<lambda>_. F_UNLCK)(SHARED_BYTE := F_RDLCK, RESERVED_BYTE := F_WRLCK,
      PENDING_BYTE := F_WRLCK, SHARED_BYTE := F_WRLCK) = (\<lambda>_. F_WRLCK)"
    by (simp add: held_simps)
  ultimately show ?thesis
    using lock_attempt_reachable [of "[fresh_proc, fresh_proc]" 0 EXCLUSIVE_LOCK]
    by (simp add: two_procs_def fresh_proc_def lock_defs lock_order others_of_def)
qed


end
