(* ===== verification/Files.thy ===== *)
theory Files
  imports Prelude
begin

text \<open>
  Files as the pager uses them: a byte sequence read and written at offsets, 4096-byte pages in it,
  and page buffers in memory.  Transfers are complete, short only at the end of a file; a write past
  the end leaves zeros in the gap.
\<close>

section \<open>Files\<close>

record os_file =
  fdata :: buf
  flen :: nat

text \<open>Bytes past the end read as zero once the file grows over them.\<close>

definition file_ok :: "os_file \<Rightarrow> bool" where
  "file_ok f \<longleftrightarrow> (\<forall>i \<ge> flen f. fdata f i = 0)"

definition empty_file :: os_file where
  "empty_file = \<lparr>fdata = zero_buf, flen = 0\<rparr>"

definition fread :: "os_file \<Rightarrow> nat \<Rightarrow> nat \<Rightarrow> byte list" where
  "fread f off n = get_bytes (fdata f) off (min n (flen f - off))"

definition fwrite :: "os_file \<Rightarrow> nat \<Rightarrow> byte list \<Rightarrow> os_file" where
  "fwrite f off bs = \<lparr>fdata = put_bytes (fdata f) off bs, flen = max (flen f) (off + length bs)\<rparr>"

definition ftruncate :: "os_file \<Rightarrow> nat \<Rightarrow> os_file" where
  "ftruncate f n = \<lparr>fdata = (\<lambda>i. if i < n then fdata f i else 0), flen = n\<rparr>"

text \<open>A page buffer filled from \<open>bs\<close> after \<open>memset(page, 0, PAGE_SIZE)\<close>, and the bytes of a page.\<close>

definition page_of :: "byte list \<Rightarrow> buf" where
  "page_of bs = put_bytes zero_buf 0 bs"

abbreviation page_bytes :: "buf \<Rightarrow> byte list" where
  "page_bytes b \<equiv> get_bytes b 0 PAGE_SIZE"

definition page_ok :: "buf \<Rightarrow> bool" where
  "page_ok b \<longleftrightarrow> (\<forall>i \<ge> PAGE_SIZE. b i = 0)"

lemma page_of_bytes [simp]: "page_ok b \<Longrightarrow> page_of (page_bytes b) = b"
  by (auto simp: page_of_def page_ok_def put_bytes_def zero_buf_def fun_eq_iff)

lemma page_ok_page_of [simp]: "length bs \<le> PAGE_SIZE \<Longrightarrow> page_ok (page_of bs)"
  by (auto simp: page_ok_def page_of_def put_bytes_def zero_buf_def)

lemma page_ok_zero [simp]: "page_ok zero_buf"
  by (simp add: page_ok_def zero_buf_def)

lemma page_of_Nil [simp]: "page_of [] = zero_buf"
  by (simp add: page_of_def)

lemma length_fread [simp]: "length (fread f off n) = min n (flen f - off)"
  by (simp add: fread_def)

lemma file_ok_fwrite: "file_ok f \<Longrightarrow> file_ok (fwrite f off bs)"
  by (auto simp: file_ok_def fwrite_def put_bytes_def)

lemma file_ok_ftruncate: "file_ok (ftruncate f n)"
  by (simp add: file_ok_def ftruncate_def)

lemma fread_fwrite_same: "fread (fwrite f off bs) off (length bs) = bs"
proof -
  have "min (length bs) (max (flen f) (off + length bs) - off) = length bs" by simp
  then show ?thesis by (simp add: fread_def fwrite_def)
qed

text \<open>The page \<open>n\<close> of a file, zero past its end: what a reader of the file sees.\<close>

definition file_page :: "os_file \<Rightarrow> nat \<Rightarrow> buf" where
  "file_page f n = page_of (fread f (n * PAGE_SIZE) PAGE_SIZE)"

definition write_page :: "os_file \<Rightarrow> nat \<Rightarrow> buf \<Rightarrow> os_file" where
  "write_page f n b = fwrite f (n * PAGE_SIZE) (page_bytes b)"

lemma file_page_ok [simp]: "page_ok (file_page f n)"
  by (simp add: file_page_def)

lemma file_page_byte:
  "file_ok f \<Longrightarrow> file_page f n i = (if i < PAGE_SIZE then fdata f (n * PAGE_SIZE + i) else 0)"
  by (auto simp: file_page_def page_of_def put_bytes_def fread_def zero_buf_def file_ok_def)

lemma page_range: "i < PAGE_SIZE \<Longrightarrow> n * PAGE_SIZE \<le> m * PAGE_SIZE + i \<and> m * PAGE_SIZE + i < n * PAGE_SIZE + PAGE_SIZE \<longleftrightarrow> m = n"
  by auto

lemma file_ok_write_page [simp]: "file_ok f \<Longrightarrow> file_ok (write_page f n b)"
  by (simp add: write_page_def file_ok_fwrite)

lemma file_page_write [simp]:
  assumes "file_ok f" "page_ok b"
  shows "file_page (write_page f n b) m = (if m = n then b else file_page f m)"
proof
  fix i
  have "fdata (write_page f n b) (m * PAGE_SIZE + i) = (if m = n then b i else fdata f (m * PAGE_SIZE + i))"
    if "i < PAGE_SIZE"
    using page_range [OF that, of n m] that by (auto simp: write_page_def fwrite_def put_bytes_def)
  then show "file_page (write_page f n b) m i = (if m = n then b else file_page f m) i"
    using assms by (auto simp: file_page_byte page_ok_def)
qed

end
