(* ===== verification/Crc.thy ===== *)
theory Crc
  imports Prelude
begin

text \<open>
  The checksum of WAL frames (\<open>calculate_crc32\<close>, \<open>src/pager.c\<close>): the reflected CRC-32 with polynomial
  0xEDB88320.  One round is injective on the 32-bit state because the polynomial has its top bit
  set, so a frame in which exactly one byte was altered never passes the check.
\<close>

definition crc_round :: "32 word \<Rightarrow> 32 word" where
  "crc_round crc = (if crc AND 1 \<noteq> 0 then drop_bit 1 crc XOR 0xEDB88320 else drop_bit 1 crc)"

definition crc_byte :: "32 word \<Rightarrow> byte \<Rightarrow> 32 word" where
  "crc_byte crc b = (crc_round ^^ 8) (crc XOR ucast b)"

definition calculate_crc32 :: "byte list \<Rightarrow> 32 word" where
  "calculate_crc32 data = NOT (foldl crc_byte 0xFFFFFFFF data)"

lemma xor_cancel: "a XOR b = a XOR c \<longleftrightarrow> b = (c :: 32 word)" "b XOR a = c XOR a \<longleftrightarrow> b = c"
  by (metis bit.xor_left_self xor.commute)+

lemma crc_round_odd: "crc_round x = (if odd x then drop_bit 1 x XOR 0xEDB88320 else drop_bit 1 x)"
  by (simp add: crc_round_def and_one_eq odd_iff_mod_2_eq_one)

lemma crc_round_top: "bit (crc_round x) 31 \<longleftrightarrow> odd x"
proof -
  have "\<not> bit x 32" using bit_imp_le_length [of x 32] by auto
  then have "\<not> bit (drop_bit 1 x) 31" by (simp add: bit_drop_bit_eq)
  moreover have "bit (0xEDB88320 :: 32 word) 31" by simp
  ultimately show ?thesis
    by (simp add: crc_round_odd bit_xor_iff)
qed

lemma crc_round_inj: "crc_round x = crc_round y \<Longrightarrow> x = y"
proof -
  assume eq: "crc_round x = crc_round y"
  then have par: "odd x \<longleftrightarrow> odd y" using crc_round_top by metis
  have "drop_bit 1 x = drop_bit 1 y"
    using eq par by (cases "odd x") (simp_all add: crc_round_odd xor_cancel)
  then have "bit x (Suc n) = bit y (Suc n)" for n
    by (metis bit_drop_bit_eq comp_apply plus_1_eq_Suc)
  moreover have "bit x 0 = bit y 0" using par by (simp add: bit_0)
  ultimately show ?thesis
    by (intro bit_word_eqI) (metis not0_implies_Suc)
qed

lemma crc_rounds_inj: "(crc_round ^^ n) x = (crc_round ^^ n) y \<Longrightarrow> x = y"
  by (induction n) (auto dest: crc_round_inj)

lemma ucast_byte_inj: "(ucast b :: 32 word) = ucast b' \<longleftrightarrow> b = (b' :: byte)"
proof -
  have "unat (ucast x :: 32 word) = unat x" for x :: byte
    using byte_bound [of x] by (simp add: unsigned_ucast_eq take_bit_nat_eq_self)
  then show ?thesis by (metis unsigned_word_eqI)
qed

lemma crc_byte_inj: "crc_byte c b = crc_byte c b' \<longleftrightarrow> b = b'" "crc_byte c b = crc_byte c' b \<longleftrightarrow> c = c'"
  using crc_rounds_inj [of 8] by (auto simp: crc_byte_def xor_cancel ucast_byte_inj dest!: crc_rounds_inj)

lemma crc_fold_inj: "foldl crc_byte c xs = foldl crc_byte c' xs \<longleftrightarrow> c = c'"
  by (induction xs arbitrary: c c') (auto simp: crc_byte_inj)

text \<open>
  Two frames that differ in exactly one byte have different checksums: a single corrupted byte
  in the page of a WAL frame is always detected.
\<close>

theorem crc_detects_byte:
  assumes "b \<noteq> b'"
  shows "calculate_crc32 (xs @ b # ys) \<noteq> calculate_crc32 (xs @ b' # ys)"
  using assms by (simp add: calculate_crc32_def crc_fold_inj crc_byte_inj)

theorem crc_detects_byte_witness:
  "calculate_crc32 ([1, 2] @ 3 # [4]) \<noteq> calculate_crc32 ([1, 2] @ 7 # [4])"
  by (rule crc_detects_byte) simp

end
