(* ===== verification/Pager.thy ===== *)
theory Pager
  imports Locks Files Crc
begin

text \<open>
  The pager (\<open>src/pager.c\<close>, \<open>include/pager.h\<close>): its state, the page cache, the shadow pages of the
  running transaction, the rollback journal, the append side of the write-ahead log, the snapshot
  registry and the freelist.

  \<open>os\<close> is the part of the world a pager sees: the database file behind its descriptor, the journal
  and the WAL under their names, the record locks of other processes at each instant, the clock that
  \<open>usleep\<close> advances, the wall time, and whether another pager of the same process gives up the lock
  node within the time it is waited for.  A function that can end the process (\<open>exit(1)\<close>, a NULL
  dereference) or never return gives an \<open>option\<close>; messages on stdout and stderr are left out.
\<close>

section \<open>State\<close>

text \<open>
  \<open>replaced_db\<close>: another file now has the database's name.  \<open>stdin_written\<close>, \<open>stdin_open\<close>: file
  descriptor 0, which an in-memory pager uses by accident because its descriptors are zeroed.
\<close>

record os =
  db :: os_file
  journal :: "os_file option"
  wal :: "os_file option"
  replaced_db :: "os_file option"
  busy :: "nat \<Rightarrow> held"
  tick :: nat
  wall_time :: "nat \<Rightarrow> 64 word"
  node_yields :: bool
  self_tid :: nat
  stdin_open :: bool
  stdin_written :: "byte list"

text \<open>A descriptor: -1, the zero left by \<open>memset\<close>, or an open file at a position.\<close>

datatype fd = FdNone | FdStdin | FdFile nat

text \<open>\<open>lock_node->active_writer\<close> as this pager sees it, with the other writer's \<open>is_explicit_tx\<close>.\<close>

datatype writer = NoWriter | ThisPager | OtherPager bool

record savepoint =
  sp_name :: cstr
  sp_journal_offset :: nat
  sp_num_pages :: nat

record snapshot =
  snapshot_xid :: "64 word"
  snapshot_active :: bool

text \<open>
  Arrays indexed by page number are functions.  \<open>page_is_journaled\<close> and \<open>is_dirty\<close> are \<open>None\<close>
  while the pointer is NULL; \<open>shadow_pages\<close>, \<open>is_shadowed\<close> are NULL exactly while
  \<open>shadow_capacity\<close> is 0.  \<open>file_descriptor\<close> is -1 exactly for an in-memory pager.
\<close>

record Pager =
  os :: os
  lock :: lock_proc
  is_memory :: bool
  file_length :: nat
  num_pages :: nat
  max_pages :: nat
  pages :: "nat \<Rightarrow> buf option"
  in_transaction :: bool
  is_explicit_tx :: bool
  journal_fd :: fd
  page_is_journaled :: "(nat \<Rightarrow> bool) option"
  is_dirty :: "(nat \<Rightarrow> bool) option"
  num_pages_at_tx_start :: nat
  use_wal :: bool
  wal_fd :: fd
  wal_frame_size :: nat
  wal_lsn :: "64 word"
  current_commit_ts :: "64 word"
  current_commit_lsn :: "64 word"
  savepoints :: "savepoint list"
  reserved_catalog_pages :: nat
  auto_vacuum :: bool
  freelist_head :: nat
  shadow_pages :: "nat \<Rightarrow> buf option"
  is_shadowed :: "nat \<Rightarrow> bool"
  shadow_capacity :: nat
  writer_tid :: nat
  lock_node :: "writer option"
  lock_error :: bool
  tx_snapshot_xid :: "64 word"
  active_snapshots :: "snapshot list"
  retired_pages :: "(buf option \<times> 64 word) list"
  disk_reads :: nat
  cache_hits :: nat

abbreviation (input) WAL_MAGIC :: nat where "WAL_MAGIC \<equiv> 1464611328"
abbreviation (input) WAL_FRAME_SIZE_V1 :: nat where "WAL_FRAME_SIZE_V1 \<equiv> 4104"
abbreviation (input) WAL_FRAME_SIZE_V2 :: nat where "WAL_FRAME_SIZE_V2 \<equiv> 4120"
abbreviation (input) TRACK_SLACK :: nat where "TRACK_SLACK \<equiv> 1024"

definition set_os :: "Pager \<Rightarrow> (os \<Rightarrow> os) \<Rightarrow> Pager" where
  "set_os pg f = pg\<lparr>os := f (os pg)\<rparr>"

text \<open>The current content of a page buffer: the shadow where there is one, else the cache.\<close>

definition shadowed :: "Pager \<Rightarrow> nat \<Rightarrow> bool" where
  "shadowed pg n \<longleftrightarrow> n < shadow_capacity pg \<and> is_shadowed pg n"

definition is_writer :: "Pager \<Rightarrow> bool" where
  "is_writer pg \<longleftrightarrow> in_transaction pg \<and> writer_tid pg = self_tid (os pg)"

text \<open>What \<open>get_page\<close> hands out: a pointer to a cached or to a shadow page.\<close>

datatype bufref = RCache nat | RShadow nat

fun deref :: "Pager \<Rightarrow> bufref \<Rightarrow> buf option" where
  "deref pg (RCache n) = pages pg n"
| "deref pg (RShadow n) = shadow_pages pg n"

fun store :: "Pager \<Rightarrow> bufref \<Rightarrow> buf \<Rightarrow> Pager" where
  "store pg (RCache n) b = pg\<lparr>pages := (pages pg)(n := Some b)\<rparr>"
| "store pg (RShadow n) b = pg\<lparr>shadow_pages := (shadow_pages pg)(n := Some b)\<rparr>"

section \<open>The lock of a pager\<close>

definition pager_lock :: "Pager \<Rightarrow> PagerLockState \<Rightarrow> bool \<times> Pager" where
  "pager_lock pg want =
     (if is_memory pg then (True, pg)
      else case lock_attempt (busy (os pg) (tick (os pg))) want (lock pg) of
             (ok, p) \<Rightarrow> (ok, pg\<lparr>lock := p\<rparr>))"

definition pager_unlock :: "Pager \<Rightarrow> Pager" where
  "pager_unlock pg = pg\<lparr>lock := unlock_proc (lock pg)\<rparr>"

definition usleep :: "Pager \<Rightarrow> Pager" where
  "usleep pg = set_os pg (\<lambda>w. w\<lparr>tick := tick w + 1\<rparr>)"

text \<open>\<open>int retries = n; while (!pager_lock(\<dots>)) { usleep(10000); if (--retries <= 0) \<dots> }\<close>\<close>

fun lock_retry :: "nat \<Rightarrow> PagerLockState \<Rightarrow> Pager \<Rightarrow> bool \<times> Pager" where
  "lock_retry 0 want pg = (False, pg)"
| "lock_retry (Suc n) want pg =
     (case pager_lock pg want of (ok, pg) \<Rightarrow>
        if ok then (True, pg) else lock_retry n want (usleep pg))"

section \<open>Snapshots\<close>

definition pager_register_snapshot :: "Pager \<Rightarrow> 64 word \<times> Pager" where
  "pager_register_snapshot pg =
     (let snap = (if in_transaction pg \<and> tx_snapshot_xid pg > 0 then tx_snapshot_xid pg else wal_lsn pg);
          free = length (takeWhile snapshot_active (active_snapshots pg))
      in (snap, if free < length (active_snapshots pg)
                then pg\<lparr>active_snapshots := (active_snapshots pg)[free := \<lparr>snapshot_xid = snap, snapshot_active = True\<rparr>]\<rparr>
                else pg))"

definition pager_get_min_active_snapshot_xid :: "Pager \<Rightarrow> 64 word" where
  "pager_get_min_active_snapshot_xid pg =
     fst (fold (\<lambda>s (min_xid, found).
             if snapshot_active s \<and> (\<not> found \<or> snapshot_xid s < min_xid) then (snapshot_xid s, True)
             else (min_xid, found))
           (active_snapshots pg) (wal_lsn pg, False))"

definition pager_reclaim_retired_pages :: "Pager \<Rightarrow> Pager" where
  "pager_reclaim_retired_pages pg =
     (let min_active = pager_get_min_active_snapshot_xid pg
      in pg\<lparr>retired_pages := filter (\<lambda>(_, lsn). \<not> lsn < min_active) (retired_pages pg)\<rparr>)"

definition pager_unregister_snapshot :: "Pager \<Rightarrow> 64 word \<Rightarrow> Pager" where
  "pager_unregister_snapshot pg xid =
     (let i = length (takeWhile (\<lambda>s. \<not> (snapshot_active s \<and> snapshot_xid s = xid)) (active_snapshots pg));
          pg' = (if i < length (active_snapshots pg)
                 then pg\<lparr>active_snapshots :=
                   (active_snapshots pg)[i := (active_snapshots pg ! i)\<lparr>snapshot_active := False\<rparr>]\<rparr>
                 else pg)
      in pager_reclaim_retired_pages pg')"


section \<open>Refresh\<close>

definition wal_file :: "Pager \<Rightarrow> os_file" where
  "wal_file pg = (case wal (os pg) of Some w \<Rightarrow> w | None \<Rightarrow> empty_file)"

text \<open>The newest LSN in the WAL as \<open>pager_refresh_if_modified\<close> reads it: from the last frame, the
  header taken as 4 bytes for either frame size.\<close>

definition last_frame_lsn :: "os_file \<Rightarrow> nat \<Rightarrow> nat" where
  "last_frame_lsn w frame_size =
     (let num_frames = (if flen w \<ge> 4 then (flen w - 4) div frame_size else 0)
      in if num_frames > 0 then rd 8 (fdata w) (4 + (num_frames - 1) * frame_size + 16) else 0)"

definition refresh_fd :: "Pager \<Rightarrow> bool \<times> Pager" where
  "refresh_fd pg =
     (case replaced_db (os pg) of
        None \<Rightarrow> (False, pg)
      | Some f \<Rightarrow> (True, set_os pg (\<lambda>w. w\<lparr>db := f, replaced_db := None\<rparr>)\<lparr>lock := (lock pg)\<lparr>held := (\<lambda>_. F_UNLCK)\<rparr>\<rparr>))"

definition refresh_wal :: "Pager \<Rightarrow> nat \<times> Pager" where
  "refresh_wal pg =
     (case wal (os pg) of
        Some w \<Rightarrow>
          (if flen w > 0
           then (let pg = pg\<lparr>use_wal := True, wal_fd := (if wal_fd pg = FdNone then FdFile 0 else wal_fd pg)\<rparr>;
                     fs = (if wal_frame_size pg \<noteq> 0 then wal_frame_size pg else WAL_FRAME_SIZE_V2)
                 in (last_frame_lsn w fs, pg))
           else (0, pg))
      | None \<Rightarrow> (0, pg))"

definition pager_refresh_if_modified :: "Pager \<Rightarrow> Pager" where
  "pager_refresh_if_modified pg =
     (if in_transaction pg \<or> is_memory pg then pg
      else case refresh_fd pg of (inode_changed, pg) \<Rightarrow>
        (let cur_len = flen (db (os pg));
             disk_lsn = (if cur_len \<ge> PAGE_SIZE then rd 8 (fdata (db (os pg))) 4084 else 0);
             (wal_max_lsn, pg) = refresh_wal pg;
             effective_lsn = (if wal_max_lsn > disk_lsn then wal_max_lsn else disk_lsn);
             modified = (inode_changed \<or> effective_lsn > unat (wal_lsn pg) \<or> cur_len mod 2 ^ 32 \<noteq> file_length pg)
         in if modified
            then pg\<lparr>pages := (\<lambda>i. if i < max_pages pg then None else pages pg i),
                    file_length := cur_len mod 2 ^ 32, num_pages := cur_len mod 2 ^ 32 div PAGE_SIZE,
                    wal_lsn := (if effective_lsn > unat (wal_lsn pg) then of_nat effective_lsn else wal_lsn pg)\<rparr>
            else pg))"

section \<open>Reading pages\<close>

definition eff_frame_size :: "Pager \<Rightarrow> nat" where
  "eff_frame_size pg = (if wal_frame_size pg \<noteq> 0 then wal_frame_size pg else WAL_FRAME_SIZE_V1)"

definition wal_header :: "nat \<Rightarrow> nat" where
  "wal_header frame_size = (if frame_size = WAL_FRAME_SIZE_V2 then 4 else 0)"

definition frame_payload :: "nat \<Rightarrow> nat" where
  "frame_payload frame_size = (if frame_size = WAL_FRAME_SIZE_V2 then 24 else 8)"

definition wal_num_frames :: "os_file \<Rightarrow> nat \<Rightarrow> nat" where
  "wal_num_frames w frame_size =
     (if flen w \<ge> wal_header frame_size then (flen w - wal_header frame_size) div frame_size else 0)"

text \<open>Frame \<open>f\<close>: its page number, stored checksum and page (the frames counted are complete).\<close>

definition frame_pnum :: "os_file \<Rightarrow> nat \<Rightarrow> nat \<Rightarrow> nat" where
  "frame_pnum w fs f = rd 4 (fdata w) (wal_header fs + f * fs)"
definition frame_crc :: "os_file \<Rightarrow> nat \<Rightarrow> nat \<Rightarrow> nat" where
  "frame_crc w fs f = rd 4 (fdata w) (wal_header fs + f * fs + 4)"
definition frame_data :: "os_file \<Rightarrow> nat \<Rightarrow> nat \<Rightarrow> byte list" where
  "frame_data w fs f = get_bytes (fdata w) (wal_header fs + f * fs + frame_payload fs) PAGE_SIZE"

definition frame_valid :: "os_file \<Rightarrow> nat \<Rightarrow> nat \<Rightarrow> bool" where
  "frame_valid w fs f \<longleftrightarrow> unat (calculate_crc32 (frame_data w fs f)) = frame_crc w fs f"

text \<open>The backward scan of \<open>get_page\<close>; a frame that fails its checksum has been read into the page.\<close>

fun wal_scan :: "os_file \<Rightarrow> nat \<Rightarrow> nat \<Rightarrow> nat \<Rightarrow> buf \<Rightarrow> bool \<times> buf" where
  "wal_scan w fs page_num 0 page = (False, page)"
| "wal_scan w fs page_num (Suc f) page =
     (if frame_pnum w fs f = page_num
      then (let page = page_of (frame_data w fs f)
            in if frame_valid w fs f then (True, page) else wal_scan w fs page_num f page)
      else wal_scan w fs page_num f page)"

definition load_page :: "Pager \<Rightarrow> nat \<Rightarrow> buf" where
  "load_page pg page_num =
     (let (read_from_wal, page) =
            (case (use_wal pg, wal_fd pg) of
               (True, FdFile _) \<Rightarrow>
                 (let w = wal_file pg; fs = eff_frame_size pg
                  in wal_scan w fs page_num (wal_num_frames w fs) zero_buf)
             | _ \<Rightarrow> (False, zero_buf))
      in if \<not> read_from_wal \<and> page_num < file_length pg div PAGE_SIZE
         then if is_memory pg then zero_buf
              else put_bytes page 0 (fread (db (os pg)) (page_num * PAGE_SIZE mod 2 ^ 32) PAGE_SIZE)
         else page)"

text \<open>\<open>while (page_num >= max_pages) max_pages *= 2\<close>: from \<open>2^31\<close> on the counter wraps to 0 and the
  loop never ends.\<close>

function grow_max_pages :: "nat \<Rightarrow> nat \<Rightarrow> nat option" where
  "grow_max_pages n m =
     (if n < m then Some m else if m = 0 \<or> 2 * m \<ge> 2 ^ 32 then None else grow_max_pages n (2 * m))"
  by pat_completeness auto
termination
  by (relation "measure (\<lambda>(n, m). 2 ^ 32 - m)") auto

declare grow_max_pages.simps [simp del]

definition clear_tail :: "nat \<Rightarrow> nat \<Rightarrow> (nat \<Rightarrow> bool) \<Rightarrow> nat \<Rightarrow> bool" where
  "clear_tail lo hi d = (\<lambda>i. if lo \<le> i \<and> i < hi then False else d i)"

definition resize_pages :: "Pager \<Rightarrow> nat \<Rightarrow> Pager option" where
  "resize_pages pg page_num =
     (if page_num < max_pages pg then Some pg
      else grow_max_pages page_num (max_pages pg) \<bind> (\<lambda>new_max.
        (let old_max = max_pages pg;
             clear = clear_tail (old_max + TRACK_SLACK) (new_max + TRACK_SLACK)
         in Some (pg\<lparr>max_pages := new_max,
              pages := (\<lambda>i. if old_max \<le> i \<and> i < new_max then None else pages pg i),
              page_is_journaled := (if in_transaction pg then map_option clear (page_is_journaled pg)
                                    else page_is_journaled pg),
              is_dirty := map_option clear (is_dirty pg)\<rparr>))))"

definition get_page :: "Pager \<Rightarrow> nat \<Rightarrow> (bufref option \<times> Pager) option" where
  "get_page pg page_num =
     (case (if is_memory pg then (True, pg)
            else case lock_retry 50 SHARED_LOCK pg of (got_lock, pg) \<Rightarrow> (got_lock, pg\<lparr>lock_error := \<not> got_lock\<rparr>)) of
        (got_lock, pg) \<Rightarrow>
          if \<not> got_lock then Some (None, pg)
          else resize_pages (pager_refresh_if_modified pg) page_num \<bind> (\<lambda>pg.
            (let pg = (case pages pg page_num of
                         None \<Rightarrow> pg\<lparr>disk_reads := disk_reads pg + 1,
                           pages := (pages pg)(page_num := Some (load_page pg page_num)),
                           num_pages := (if page_num \<ge> num_pages pg then page_num + 1 else num_pages pg)\<rparr>
                       | Some _ \<Rightarrow> pg\<lparr>cache_hits := cache_hits pg + 1\<rparr>)
             in Some (Some (if is_writer pg \<and> shadowed pg page_num then RShadow page_num else RCache page_num), pg))))"

text \<open>Callers that use the page at once: a NULL result is a crash.\<close>

definition read_page :: "Pager \<Rightarrow> nat \<Rightarrow> (buf \<times> Pager) option" where
  "read_page pg n =
     get_page pg n \<bind> (\<lambda>(r, pg). r \<bind> (\<lambda>r. deref pg r \<bind> (\<lambda>b. Some (b, pg))))"

definition update_page :: "Pager \<Rightarrow> nat \<Rightarrow> (buf \<Rightarrow> buf) \<Rightarrow> Pager option" where
  "update_page pg n f =
     get_page pg n \<bind> (\<lambda>(r, pg). r \<bind> (\<lambda>r. deref pg r \<bind> (\<lambda>b. Some (store pg r (f b)))))"


section \<open>Flushing a page\<close>

definition page_buf :: "Pager \<Rightarrow> nat \<Rightarrow> buf option" where
  "page_buf pg n = (if shadowed pg n then shadow_pages pg n else if n < max_pages pg then pages pg n else None)"

definition wal_frame :: "nat \<Rightarrow> nat \<Rightarrow> 64 word \<Rightarrow> 64 word \<Rightarrow> byte list \<Rightarrow> byte list" where
  "wal_frame fs page_num ts lsn data =
     le_bytes 4 page_num @ le_bytes 4 (unat (calculate_crc32 data)) @
     (if fs = WAL_FRAME_SIZE_V2 then le_bytes 8 (unat ts) @ le_bytes 8 (unat lsn) else []) @ data"

text \<open>Opening the WAL for appending: the magic number at the start of an empty file.\<close>

definition open_wal :: "Pager \<Rightarrow> Pager" where
  "open_wal pg =
     (if wal_fd pg = FdNone
      then set_os pg (\<lambda>w. w\<lparr>wal := Some (case wal w of Some f \<Rightarrow> f | None \<Rightarrow> empty_file)\<rparr>)\<lparr>wal_fd := FdFile 0\<rparr>
      else pg)"

definition wal_magic_ok :: "os_file \<Rightarrow> bool" where
  "wal_magic_ok w \<longleftrightarrow> length (fread w 0 4) = 4 \<and> rd 4 (fdata w) 0 = WAL_MAGIC"

definition wal_append :: "Pager \<Rightarrow> byte list \<Rightarrow> Pager" where
  "wal_append pg bs = set_os pg (\<lambda>w. w\<lparr>wal := map_option (\<lambda>f. fwrite f (flen f) bs) (wal w)\<rparr>)"

definition prepare_wal :: "Pager \<Rightarrow> Pager" where
  "prepare_wal pg =
     (let w = wal_file pg
      in if flen w = 0 then (wal_append pg (le_bytes 4 WAL_MAGIC))\<lparr>wal_frame_size := WAL_FRAME_SIZE_V2\<rparr>
         else if wal_frame_size pg = 0
              then pg\<lparr>wal_frame_size := (if wal_magic_ok w then WAL_FRAME_SIZE_V2 else WAL_FRAME_SIZE_V1)\<rparr>
         else pg)"

definition flush_wal :: "Pager \<Rightarrow> nat \<Rightarrow> buf \<Rightarrow> Pager" where
  "flush_wal pg page_num b =
     (let pg = prepare_wal pg
      in if wal_frame_size pg = WAL_FRAME_SIZE_V2
         then (let ts = (if current_commit_ts pg \<noteq> 0 then current_commit_ts pg else wall_time (os pg) (tick (os pg)));
                   (lsn, pg) = (if current_commit_lsn pg \<noteq> 0 then (current_commit_lsn pg, pg)
                                else (wal_lsn pg + 1, pg\<lparr>wal_lsn := wal_lsn pg + 1\<rparr>))
               in wal_append pg (wal_frame WAL_FRAME_SIZE_V2 page_num ts lsn (page_bytes b)))
         else wal_append pg (wal_frame WAL_FRAME_SIZE_V1 page_num 0 0 (page_bytes b)))"

definition flush_db :: "Pager \<Rightarrow> nat \<Rightarrow> buf \<Rightarrow> Pager" where
  "flush_db pg page_num b =
     (let end_off = (page_num + 1) * PAGE_SIZE mod 2 ^ 32
      in (set_os pg (\<lambda>w. w\<lparr>db := write_page (db w) page_num b\<rparr>))\<lparr>
           file_length := (if end_off > file_length pg then end_off else file_length pg),
           is_dirty := map_option (\<lambda>d. if page_num < max_pages pg + TRACK_SLACK then d(page_num := False) else d)
                         (is_dirty pg)\<rparr>)"

definition pager_flush :: "Pager \<Rightarrow> nat \<Rightarrow> Pager" where
  "pager_flush pg page_num =
     (if is_memory pg then pg
      else case page_buf pg page_num of
        None \<Rightarrow> pg
      | Some b \<Rightarrow> if use_wal pg then flush_wal (open_wal pg) page_num b else flush_db pg page_num b)"

section \<open>Write intents\<close>

text \<open>The lock node shared with the other pagers of the process.\<close>

definition acquire_node :: "Pager \<Rightarrow> bool \<times> Pager" where
  "acquire_node pg =
     (case lock_node pg of
        None \<Rightarrow> (True, pg)
      | Some (OtherPager explicit) \<Rightarrow>
          (if explicit \<or> \<not> node_yields (os pg) then (False, pg\<lparr>lock_error := True\<rparr>)
           else (True, pg\<lparr>lock_node := Some ThisPager\<rparr>))
      | Some _ \<Rightarrow> (True, pg\<lparr>lock_node := Some ThisPager\<rparr>))"

definition release_node :: "Pager \<Rightarrow> Pager" where
  "release_node pg = (if lock_node pg = Some ThisPager then pg\<lparr>lock_node := Some NoWriter\<rparr> else pg)"

definition flush_cached :: "Pager \<Rightarrow> Pager" where
  "flush_cached pg = fold (\<lambda>i pg. if pages pg i \<noteq> None then pager_flush pg i else pg) [0..<max_pages pg] pg"

definition reserve_lock :: "Pager \<Rightarrow> bool \<times> Pager" where
  "reserve_lock pg =
     (if \<not> is_memory pg \<and> lock_state (lock pg) < RESERVED_LOCK
      then case lock_retry 50 RESERVED_LOCK pg of (ok, pg) \<Rightarrow>
             if \<not> ok then (False, release_node (pg\<lparr>lock_error := True\<rparr>))
             else (let pg = pg\<lparr>lock_error := False\<rparr>;
                       pg = (if use_wal pg then pg else flush_cached pg)
                   in (True, pg\<lparr>num_pages_at_tx_start := num_pages pg,
                                file_length := flen (db (os pg)) mod 2 ^ 32\<rparr>))
      else (True, pg))"

definition open_journal :: "Pager \<Rightarrow> Pager" where
  "open_journal pg =
     (if journal_fd pg = FdNone \<and> \<not> is_memory pg
      then (set_os pg (\<lambda>w. w\<lparr>journal := Some empty_file\<rparr>))\<lparr>journal_fd := FdFile 0\<rparr>
      else pg)"

definition pager_ensure_write_lock :: "Pager \<Rightarrow> bool \<times> Pager" where
  "pager_ensure_write_lock pg =
     (case acquire_node pg of (ok, pg) \<Rightarrow>
        if \<not> ok then (False, pg)
        else case reserve_lock pg of (ok, pg) \<Rightarrow>
        if \<not> ok then (False, pg)
        else (let pg = open_journal pg
              in (True, pg\<lparr>page_is_journaled := (case page_is_journaled pg of None \<Rightarrow> Some (\<lambda>_. False) | Some j \<Rightarrow> Some j),
                           writer_tid := self_tid (os pg)\<rparr>)))"

definition pager_begin_transaction :: "Pager \<Rightarrow> bool \<times> Pager" where
  "pager_begin_transaction pg =
     (if in_transaction pg then (True, pg)
      else if (\<exists>e \<in> {True, False}. lock_node pg = Some (OtherPager e)) then (False, pg\<lparr>lock_error := True\<rparr>)
      else if \<not> is_memory pg \<and> is_byte_locked (busy (os pg) (tick (os pg))) RESERVED_BYTE F_WRLCK
        then (False, pg\<lparr>lock_error := True\<rparr>)
      else (let pg = pager_refresh_if_modified pg;
                pg = pg\<lparr>in_transaction := True, writer_tid := 0, num_pages_at_tx_start := num_pages pg\<rparr>;
                pg = (if is_memory pg then pg else pg\<lparr>file_length := flen (db (os pg)) mod 2 ^ 32\<rparr>);
                (xid, pg) = pager_register_snapshot pg
            in (True, pg\<lparr>tx_snapshot_xid := xid\<rparr>)))"

definition grow_shadow :: "Pager \<Rightarrow> nat \<Rightarrow> Pager" where
  "grow_shadow pg page_num =
     (if page_num \<ge> shadow_capacity pg
      then (let old_cap = shadow_capacity pg; new_cap = (page_num + 1024) mod 2 ^ 32
            in pg\<lparr>shadow_pages := (\<lambda>i. if old_cap \<le> i \<and> i < new_cap then None else shadow_pages pg i),
                  is_shadowed := clear_tail old_cap new_cap (is_shadowed pg),
                  shadow_capacity := new_cap\<rparr>)
      else pg)"

definition mark_dirty :: "Pager \<Rightarrow> nat \<Rightarrow> Pager" where
  "mark_dirty pg page_num =
     (let d = (case is_dirty pg of None \<Rightarrow> (\<lambda>_. False) | Some d \<Rightarrow> d)
      in pg\<lparr>is_dirty := Some (if page_num < max_pages pg + TRACK_SLACK then d(page_num := True) else d)\<rparr>)"

definition make_shadow :: "Pager \<Rightarrow> nat \<Rightarrow> Pager option" where
  "make_shadow pg page_num =
     (if is_shadowed pg page_num then Some pg
      else (let base = (if page_num < max_pages pg then pages pg page_num else None)
            in (case base of Some b \<Rightarrow> Some (Some b, pg)
                | None \<Rightarrow> get_page pg page_num \<bind>
                    (\<lambda>(_, pg). Some (if page_num < max_pages pg then pages pg page_num else None, pg)))
               \<bind> (\<lambda>(base, pg). Some (pg\<lparr>
                     shadow_pages := (shadow_pages pg)(page_num := Some (case base of Some b \<Rightarrow> b | None \<Rightarrow> zero_buf)),
                     is_shadowed := (is_shadowed pg)(page_num := True)\<rparr>))))"

definition pager_shadow_page_write :: "Pager \<Rightarrow> nat \<Rightarrow> Pager option" where
  "pager_shadow_page_write pg page_num =
     (if \<not> in_transaction pg then Some pg
      else case pager_ensure_write_lock pg of (ok, pg) \<Rightarrow>
        if \<not> ok \<or> writer_tid pg \<noteq> self_tid (os pg) then Some pg
        else make_shadow (grow_shadow (mark_dirty pg page_num) page_num) page_num)"

abbreviation (input) JOURNAL_ENTRY :: nat where "JOURNAL_ENTRY \<equiv> 4100"

definition journal_entry :: "nat \<Rightarrow> byte list \<Rightarrow> byte list" where
  "journal_entry page_num data = le_bytes 4 page_num @ data"

definition journal_write :: "Pager \<Rightarrow> byte list \<Rightarrow> Pager" where
  "journal_write pg bs =
     (case journal_fd pg of
        FdNone \<Rightarrow> pg
      | FdStdin \<Rightarrow> set_os pg (\<lambda>w. if stdin_open w then w\<lparr>stdin_written := stdin_written w @ bs\<rparr> else w)
      | FdFile pos \<Rightarrow>
          (set_os pg (\<lambda>w. w\<lparr>journal := map_option (\<lambda>f. fwrite f pos bs) (journal w)\<rparr>))
            \<lparr>journal_fd := FdFile (pos + length bs)\<rparr>)"

definition is_journaled :: "Pager \<Rightarrow> nat \<Rightarrow> bool" where
  "is_journaled pg n \<longleftrightarrow>
     (case page_is_journaled pg of None \<Rightarrow> False | Some j \<Rightarrow> n < max_pages pg + TRACK_SLACK \<and> j n)"

definition journal_image :: "Pager \<Rightarrow> nat \<Rightarrow> byte list" where
  "journal_image pg page_num =
     (case page_buf pg page_num of
        Some b \<Rightarrow> page_bytes b
      | None \<Rightarrow> (if page_num < file_length pg div PAGE_SIZE
                 \<and> length (fread (db (os pg)) (page_num * PAGE_SIZE) PAGE_SIZE) = PAGE_SIZE
               then fread (db (os pg)) (page_num * PAGE_SIZE) PAGE_SIZE else replicate PAGE_SIZE 0))"

definition pager_journal_page :: "Pager \<Rightarrow> nat \<Rightarrow> Pager option" where
  "pager_journal_page pg page_num =
     pager_shadow_page_write pg page_num \<bind> (\<lambda>pg.
       if \<not> in_transaction pg \<or> journal_fd pg = FdNone then Some pg
       else if savepoints pg = [] \<and> is_journaled pg page_num then Some pg
       else (let pg = journal_write pg (journal_entry page_num (journal_image pg page_num))
             in Some (pg\<lparr>page_is_journaled := map_option
                  (\<lambda>j. if page_num < max_pages pg + TRACK_SLACK then j(page_num := True) else j) (page_is_journaled pg)\<rparr>)))"

text \<open>The idiom of every writer: \<open>pager_journal_page(p, n); page = get_page(p, n);\<close> change \<open>page\<close>.\<close>

definition modify_page :: "Pager \<Rightarrow> nat \<Rightarrow> (buf \<Rightarrow> buf) \<Rightarrow> Pager option" where
  "modify_page pg n f = pager_journal_page pg n \<bind> (\<lambda>pg. update_page pg n f)"

section \<open>Freelist\<close>

definition get_unused_page_num :: "Pager \<Rightarrow> (nat \<times> Pager) option" where
  "get_unused_page_num pg =
     (if freelist_head pg \<noteq> 0 \<and> freelist_head pg \<noteq> INVALID_PAGE_NUM \<and> freelist_head pg \<ge> reserved_catalog_pages pg
      then (let reused_page = freelist_head pg
            in get_page pg reused_page \<bind> (\<lambda>(r, pg). r \<bind> (\<lambda>r. deref pg r \<bind> (\<lambda>b.
               (let next_free = rd 4 b 0;
                    pg = store (pg\<lparr>freelist_head := next_free\<rparr>) r (clear_bytes b 0 PAGE_SIZE)
                in update_page pg 0 (\<lambda>b. wr 4 b 4092 next_free) \<bind> (\<lambda>pg. Some (reused_page, pg)))))))
      else if num_pages pg < reserved_catalog_pages pg then Some (reserved_catalog_pages pg, pg)
      else Some (num_pages pg, pg))"

definition pager_free_page :: "Pager \<Rightarrow> nat \<Rightarrow> Pager option" where
  "pager_free_page pg page_num =
     (if page_num < reserved_catalog_pages pg \<or> page_num = 0 \<or> page_num = INVALID_PAGE_NUM then Some pg
      else update_page pg page_num (\<lambda>b. wr 4 (clear_bytes b 0 PAGE_SIZE) 0 (freelist_head pg)) \<bind> (\<lambda>pg.
           update_page (pg\<lparr>freelist_head := page_num\<rparr>) 0 (\<lambda>b. wr 4 b 4092 page_num)))"

end
