(* ===== verification/Transactions.thy ===== *)
theory Transactions
  imports Pager
begin

text \<open>
  Transactions of the pager (\<open>src/pager.c\<close>): opening a database with recovery of a hot journal,
  commit, rollback, savepoints and closing.  The journal is a sequence of entries of 4100 bytes, a
  page number and the image of that page; recovery and rollback replay it forwards, rolling back to
  a savepoint replays its tail backwards.
\<close>

section \<open>Reading a journal\<close>

text \<open>\<open>while (read(jfd, &pnum, 4) == 4) if (read(jfd, page_buf, PAGE_SIZE) == PAGE_SIZE) \<dots>\<close>: a short
  page at the end is dropped.\<close>

function journal_entries :: "os_file \<Rightarrow> nat \<Rightarrow> (nat \<times> byte list) list" where
  "journal_entries f off =
     (if off + 4 \<le> flen f
      then (if off + JOURNAL_ENTRY \<le> flen f
            then (rd 4 (fdata f) off, get_bytes (fdata f) (off + 4) PAGE_SIZE)
                   # journal_entries f (off + JOURNAL_ENTRY)
            else [])
      else [])"
  by pat_completeness auto
termination
  by (relation "measure (\<lambda>(f, off). flen f - off)") auto

declare journal_entries.simps [simp del]

text \<open>\<open>pos -= entry_size\<close> from the end while \<open>pos > target\<close>; a negative position stops the loop.\<close>

function journal_entries_back :: "os_file \<Rightarrow> nat \<Rightarrow> nat \<Rightarrow> (nat \<times> byte list) list" where
  "journal_entries_back f pos target =
     (if pos > target
      then (if pos \<ge> JOURNAL_ENTRY
            then (let pos = pos - JOURNAL_ENTRY
                  in (rd 4 (fdata f) pos, get_bytes (fdata f) (pos + 4) PAGE_SIZE)
                       # journal_entries_back f pos target)
            else [])
      else [])"
  by pat_completeness auto
termination
  by (relation "measure (\<lambda>(f, pos, target). pos)") auto

declare journal_entries_back.simps [simp del]

definition replay :: "(nat \<times> byte list) list \<Rightarrow> os_file \<Rightarrow> os_file" where
  "replay es f = fold (\<lambda>(n, data) f. fwrite f (n * PAGE_SIZE) data) es f"

text \<open>The journal as \<open>open(journal_filename)\<close> finds it; an in-memory pager has no name for one.\<close>

definition journal_on_disk :: "Pager \<Rightarrow> os_file option" where
  "journal_on_disk pg = (if is_memory pg then None else journal (os pg))"

section \<open>Opening\<close>

text \<open>\<open>check_and_recover_journal\<close>: given the locks other processes hold.\<close>

definition check_and_recover_journal :: "os \<Rightarrow> os" where
  "check_and_recover_journal w =
     (case journal w of
        None \<Rightarrow> w
      | Some j \<Rightarrow>
          (if flen j > 0
             \<and> \<not> is_byte_locked (busy w (tick w)) RESERVED_BYTE F_WRLCK
             \<and> \<not> is_byte_locked (busy w (tick w)) PENDING_BYTE F_WRLCK
             \<and> lock_file_byte (busy w (tick w)) (\<lambda>_. F_UNLCK) RESERVED_BYTE F_WRLCK \<noteq> None
           then w\<lparr>db := replay (journal_entries j 0) (db w), journal := None\<rparr>
           else w))"

definition max_frame_lsn :: "os_file \<Rightarrow> nat" where
  "max_frame_lsn w =
     fold (\<lambda>f m. max m (rd 8 (fdata w) (4 + f * WAL_FRAME_SIZE_V2 + 16)))
       [0..<(if flen w \<ge> 4 then (flen w - 4) div WAL_FRAME_SIZE_V2 else 0)] 0"

definition fresh_pager :: "os \<Rightarrow> Pager" where
  "fresh_pager w = \<lparr>os = w, lock = fresh_proc, is_memory = False, file_length = 0, num_pages = 0,
     max_pages = 32, pages = (\<lambda>_. None), in_transaction = False, is_explicit_tx = False,
     journal_fd = FdNone, page_is_journaled = None, is_dirty = None, num_pages_at_tx_start = 0,
     use_wal = False, wal_fd = FdNone, wal_frame_size = WAL_FRAME_SIZE_V2, wal_lsn = 0,
     current_commit_ts = 0, current_commit_lsn = 0, savepoints = [], reserved_catalog_pages = 0,
     auto_vacuum = False, freelist_head = 0, shadow_pages = (\<lambda>_. None), is_shadowed = (\<lambda>_. False),
     shadow_capacity = 0, writer_tid = 0, lock_node = Some NoWriter, lock_error = False,
     tx_snapshot_xid = 0, active_snapshots = replicate 64 \<lparr>snapshot_xid = 0, snapshot_active = False\<rparr>,
     retired_pages = [], disk_reads = 0, cache_hits = 0\<rparr>"

text \<open>\<open>node\<close> is the state of the lock node of the file, if another pager of the process has it open.\<close>

definition pager_open :: "os \<Rightarrow> bool \<Rightarrow> writer \<Rightarrow> Pager option" where
  "pager_open w memory node =
     (if memory
      then Some ((fresh_pager w)\<lparr>is_memory := True, journal_fd := FdStdin, wal_fd := FdStdin, wal_frame_size := 0,
                   reserved_catalog_pages := 33, lock_node := None\<rparr>)
      else if flen (db w) mod PAGE_SIZE \<noteq> 0 then None
      else (let len = flen (db w);
                saved_lsn = (if len \<ge> PAGE_SIZE then rd 8 (fdata (db w)) 4084 else 0);
                pg = (fresh_pager w)\<lparr>wal_lsn := of_nat saved_lsn, lock_node := Some node\<rparr>;
                pg = (case wal w of
                        Some f \<Rightarrow>
                          (if flen f > 0
                           then (if wal_magic_ok f
                                 then pg\<lparr>use_wal := True, wal_fd := FdFile 0, wal_frame_size := WAL_FRAME_SIZE_V2,
                                         wal_lsn := (if max_frame_lsn f > unat (wal_lsn pg)
                                                     then of_nat (max_frame_lsn f) else wal_lsn pg)\<rparr>
                                 else pg\<lparr>use_wal := True, wal_fd := FdFile 0, wal_frame_size := WAL_FRAME_SIZE_V1\<rparr>)
                           else pg)
                      | None \<Rightarrow> pg)
            in Some (pg\<lparr>os := check_and_recover_journal w,
                       file_length := len mod 2 ^ 32, num_pages := len div PAGE_SIZE mod 2 ^ 32\<rparr>)))"

section \<open>Commit\<close>

definition has_writes :: "Pager \<Rightarrow> bool" where
  "has_writes pg \<longleftrightarrow>
     list_ex (is_shadowed pg) [0..<shadow_capacity pg]
     \<or> (case is_dirty pg of None \<Rightarrow> False | Some d \<Rightarrow> list_ex d [0..<max_pages pg + TRACK_SLACK])"

definition close_journal :: "Pager \<Rightarrow> Pager" where
  "close_journal pg =
     (if journal_fd pg = FdStdin then (set_os pg (\<lambda>w. w\<lparr>stdin_open := False\<rparr>))\<lparr>journal_fd := FdNone\<rparr>
      else pg\<lparr>journal_fd := FdNone\<rparr>)"

definition unlink_journal :: "Pager \<Rightarrow> Pager" where
  "unlink_journal pg = set_os pg (\<lambda>w. w\<lparr>journal := None\<rparr>)"

definition drop_tracking :: "Pager \<Rightarrow> Pager" where
  "drop_tracking pg = pg\<lparr>page_is_journaled := None, is_dirty := None\<rparr>"

definition end_snapshot :: "Pager \<Rightarrow> Pager" where
  "end_snapshot pg =
     (if tx_snapshot_xid pg > 0
      then (pager_unregister_snapshot pg (tx_snapshot_xid pg))\<lparr>tx_snapshot_xid := 0\<rparr> else pg)"

definition end_transaction :: "Pager \<Rightarrow> Pager" where
  "end_transaction pg =
     pager_unlock ((release_node (end_snapshot pg))\<lparr>is_explicit_tx := False, writer_tid := 0, in_transaction := False\<rparr>)"

definition page_dirty :: "Pager \<Rightarrow> nat \<Rightarrow> bool" where
  "page_dirty pg i \<longleftrightarrow> (case is_dirty pg of None \<Rightarrow> False | Some d \<Rightarrow> d i)"

definition flush_dirty :: "Pager \<Rightarrow> Pager" where
  "flush_dirty pg =
     fold (\<lambda>i pg. if i < max_pages pg \<and> pages pg i \<noteq> None \<and> (page_dirty pg i \<or> shadowed pg i)
                  then pager_flush pg i else pg) [0..<num_pages pg] pg"

text \<open>The pointer swap: each shadow becomes the cached page, the old one is retired.\<close>

definition swap_page :: "nat \<Rightarrow> Pager \<Rightarrow> Pager" where
  "swap_page i pg =
     (if is_shadowed pg i
      then pg\<lparr>retired_pages := (pages pg i, wal_lsn pg) # retired_pages pg,
              pages := (pages pg)(i := shadow_pages pg i),
              shadow_pages := (shadow_pages pg)(i := None),
              is_shadowed := (is_shadowed pg)(i := False)\<rparr>
      else pg)"

definition swap_shadows :: "Pager \<Rightarrow> Pager" where
  "swap_shadows pg = fold swap_page [0..<shadow_capacity pg] pg"

text \<open>The LSN of the commit goes into page 0, whose shadow or cached copy is written in place.\<close>

definition stamp_lsn :: "Pager \<Rightarrow> Pager option" where
  "stamp_lsn pg =
     get_page pg 0 \<bind> (\<lambda>(r, pg).
       case r of
         None \<Rightarrow> Some pg
       | Some r \<Rightarrow> deref pg r \<bind> (\<lambda>b. Some ((store pg r (wr 8 b 4084 (unat (wal_lsn pg))))\<lparr>
                      is_dirty := map_option (\<lambda>d. d(0 := True)) (is_dirty pg)\<rparr>)))"

definition pager_commit :: "Pager \<Rightarrow> Pager option" where
  "pager_commit pg =
     (if \<not> in_transaction pg then Some pg
      else if \<not> has_writes pg
      then Some (end_transaction (drop_tracking (if journal_fd pg = FdNone then pg
                                                 else unlink_journal (close_journal pg))))
      else case (if use_wal pg then (True, pg) else lock_retry 50 EXCLUSIVE_LOCK pg) of (ok, pg) \<Rightarrow>
        if \<not> ok then None
        else stamp_lsn (pg\<lparr>current_commit_ts := wall_time (os pg) (tick (os pg)),
                          current_commit_lsn := wal_lsn pg + 1, wal_lsn := wal_lsn pg + 1\<rparr>) \<bind> (\<lambda>pg.
          (let pg = (flush_dirty pg)\<lparr>current_commit_ts := 0, current_commit_lsn := 0\<rparr>;
               pg = pager_reclaim_retired_pages (swap_shadows pg);
               pg = unlink_journal (if journal_fd pg = FdNone then pg else close_journal pg)
           in Some (end_transaction (drop_tracking pg)))))"

section \<open>Rollback\<close>

definition discard_shadows :: "Pager \<Rightarrow> Pager" where
  "discard_shadows pg =
     pg\<lparr>shadow_pages := (\<lambda>i. if i < shadow_capacity pg \<and> is_shadowed pg i then None else shadow_pages pg i),
        is_shadowed := (\<lambda>i. if i < shadow_capacity pg then False else is_shadowed pg i)\<rparr>"

text \<open>One journal entry goes to the cached page, if there is one, and to the database file.\<close>

definition restore_cached :: "nat \<Rightarrow> byte list \<Rightarrow> Pager \<Rightarrow> Pager" where
  "restore_cached n data pg =
     (if n < max_pages pg \<and> pages pg n \<noteq> None
      then pg\<lparr>pages := (pages pg)(n := map_option (\<lambda>b. put_bytes b 0 data) (pages pg n))\<rparr> else pg)"

definition restore_db :: "nat \<Rightarrow> byte list \<Rightarrow> Pager \<Rightarrow> Pager" where
  "restore_db n data pg =
     (if is_memory pg then pg else set_os pg (\<lambda>w. w\<lparr>db := fwrite (db w) (n * PAGE_SIZE) data\<rparr>))"

definition restore_page :: "nat \<times> byte list \<Rightarrow> Pager \<Rightarrow> Pager" where
  "restore_page e pg = restore_db (fst e) (snd e) (restore_cached (fst e) (snd e) pg)"

text \<open>Pages from \<open>lo\<close> on leave the cache and the file is cut there.\<close>

definition truncate_pages :: "Pager \<Rightarrow> nat \<Rightarrow> Pager" where
  "truncate_pages pg lo =
     (let pg = pg\<lparr>pages := (\<lambda>p. if lo \<le> p \<and> p < num_pages pg \<and> p < max_pages pg then None else pages pg p),
                 num_pages := lo, file_length := lo * PAGE_SIZE mod 2 ^ 32\<rparr>
      in if is_memory pg then pg
         else set_os pg (\<lambda>w. w\<lparr>db := ftruncate (db w) (file_length pg)\<rparr>))"

definition pager_rollback :: "Pager \<Rightarrow> Pager option" where
  "pager_rollback pg =
     (if \<not> in_transaction pg then Some pg
      else case lock_retry 50 EXCLUSIVE_LOCK pg of (ok, pg) \<Rightarrow>
        if \<not> ok then None
        else (let pg = discard_shadows pg;
                  pg = (if journal_fd pg = FdNone then pg else close_journal pg);
                  pg = (case journal_on_disk pg of
                          None \<Rightarrow> pg
                        | Some j \<Rightarrow> unlink_journal (fold restore_page (journal_entries j 0) pg));
                  pg = drop_tracking pg;
                  pg = (if num_pages_at_tx_start pg > 0 \<and> num_pages pg > num_pages_at_tx_start pg
                        then truncate_pages pg (num_pages_at_tx_start pg) else pg)
              in Some ((end_transaction pg)\<lparr>savepoints := []\<rparr>)))"

section \<open>Savepoints\<close>

abbreviation (input) MAX_SAVEPOINTS :: nat where "MAX_SAVEPOINTS \<equiv> 16"

definition journal_len :: "Pager \<Rightarrow> nat" where
  "journal_len pg = (case journal (os pg) of Some j \<Rightarrow> flen j | None \<Rightarrow> 0)"

text \<open>\<open>lseek(journal_fd, 0, SEEK_END)\<close> also moves the descriptor.\<close>

definition seek_journal_end :: "Pager \<Rightarrow> nat \<times> Pager" where
  "seek_journal_end pg =
     (case journal_fd pg of
        FdFile pos \<Rightarrow> (journal_len pg, pg\<lparr>journal_fd := FdFile (journal_len pg)\<rparr>)
      | _ \<Rightarrow> (0, pg))"

definition pager_savepoint :: "Pager \<Rightarrow> cstr \<Rightarrow> Pager" where
  "pager_savepoint pg name =
     (let pg = (if in_transaction pg then pg else snd (pager_begin_transaction pg))
      in if length (savepoints pg) \<ge> MAX_SAVEPOINTS then pg
         else case seek_journal_end pg of (off, pg) \<Rightarrow>
           pg\<lparr>savepoints := savepoints pg @ [\<lparr>sp_name = take 63 name, sp_journal_offset = off,
                                              sp_num_pages = num_pages pg\<rparr>]\<rparr>)"

text \<open>The newest savepoint of that name.\<close>

fun find_savepoint :: "savepoint list \<Rightarrow> cstr \<Rightarrow> nat \<Rightarrow> nat option" where
  "find_savepoint sps name 0 = None"
| "find_savepoint sps name (Suc i) =
     (if sp_name (sps ! i) = name then Some i else find_savepoint sps name i)"

definition restore_shadow :: "nat \<Rightarrow> byte list \<Rightarrow> Pager \<Rightarrow> Pager" where
  "restore_shadow n data pg =
     (if n < shadow_capacity pg \<and> shadow_pages pg n \<noteq> None
      then pg\<lparr>shadow_pages := (shadow_pages pg)(n := map_option (\<lambda>b. put_bytes b 0 data) (shadow_pages pg n))\<rparr>
      else pg)"

definition undo_page :: "nat \<times> byte list \<Rightarrow> Pager \<Rightarrow> Pager" where
  "undo_page e pg = restore_db (fst e) (snd e) (restore_shadow (fst e) (snd e) (restore_cached (fst e) (snd e) pg))"

definition drop_new_shadows :: "Pager \<Rightarrow> nat \<Rightarrow> Pager" where
  "drop_new_shadows pg lo =
     (let gone = (\<lambda>p. lo \<le> p \<and> p < num_pages pg \<and> p < shadow_capacity pg \<and> shadow_pages pg p \<noteq> None)
      in pg\<lparr>shadow_pages := (\<lambda>p. if gone p then None else shadow_pages pg p),
            is_shadowed := (\<lambda>p. if gone p then False else is_shadowed pg p)\<rparr>)"

definition pager_rollback_to_savepoint :: "Pager \<Rightarrow> cstr \<Rightarrow> Pager" where
  "pager_rollback_to_savepoint pg name =
     (if \<not> in_transaction pg then pg
      else case find_savepoint (savepoints pg) name (length (savepoints pg)) of
        None \<Rightarrow> pg
      | Some idx \<Rightarrow>
          (let sp = savepoints pg ! idx;
               target_offset = sp_journal_offset sp;
               target_pages = sp_num_pages sp;
               pg = (case journal_on_disk pg of
                       None \<Rightarrow> pg
                     | Some j \<Rightarrow>
                         (if flen j > target_offset
                          then set_os (fold undo_page (journal_entries_back j (flen j) target_offset) pg)
                                 (\<lambda>w. w\<lparr>journal := Some (ftruncate j target_offset)\<rparr>)
                          else pg));
               pg = (if target_pages > 0 \<and> num_pages pg > target_pages
                     then truncate_pages (drop_new_shadows pg target_pages) target_pages
                     else pg\<lparr>num_pages := target_pages\<rparr>)
           in pg\<lparr>savepoints := take (idx + 1) (savepoints pg)\<rparr>))"

definition pager_release_savepoint :: "Pager \<Rightarrow> cstr \<Rightarrow> Pager" where
  "pager_release_savepoint pg name =
     (if \<not> in_transaction pg then pg
      else case find_savepoint (savepoints pg) name (length (savepoints pg)) of
        None \<Rightarrow> pg
      | Some idx \<Rightarrow> pg\<lparr>savepoints := take idx (savepoints pg)\<rparr>)"

end
