(* ===== verification/Wal.thy ===== *)
theory Wal
  imports Transactions
begin

text \<open>
  The write-ahead log (\<open>src/pager.c\<close>): switching the mode, the checkpoint that copies frames into the
  database file, online backup and point-in-time restore, closing a pager.  The lemmas relate the
  three readers of a WAL to its \<open>newest_frame\<close>: the backward scan of \<open>get_page\<close>, the forward copy of
  the checkpoint, and the page map that restore builds.
\<close>

section \<open>Mode, checkpoint\<close>

definition unlink_wal :: "Pager \<Rightarrow> Pager" where
  "unlink_wal pg = set_os pg (\<lambda>w. w\<lparr>wal := None\<rparr>)"

text \<open>The frames an open WAL has; descriptor 0 of an in-memory pager is no seekable file.\<close>

definition open_frames :: "Pager \<Rightarrow> nat" where
  "open_frames pg =
     (case wal_fd pg of FdFile _ \<Rightarrow> wal_num_frames (wal_file pg) (eff_frame_size pg) | _ \<Rightarrow> 0)"

definition apply_frame :: "os_file \<Rightarrow> nat \<Rightarrow> nat \<Rightarrow> Pager \<Rightarrow> Pager" where
  "apply_frame w fs f pg =
     (if frame_valid w fs f
      then (let n = frame_pnum w fs f; data = frame_data w fs f;
                end_off = (n + 1) * PAGE_SIZE mod 2 ^ 32;
                pg = restore_db n data pg
            in restore_cached n data (pg\<lparr>
                 file_length := (if end_off > file_length pg then end_off else file_length pg),
                 num_pages := (if n \<ge> num_pages pg then (n + 1) mod 2 ^ 32 else num_pages pg)\<rparr>))
      else pg)"

definition pager_checkpoint :: "Pager \<Rightarrow> Pager option" where
  "pager_checkpoint pg =
     (if \<not> use_wal pg \<or> wal_fd pg = FdNone then Some pg
      else case lock_retry 50 EXCLUSIVE_LOCK pg of (ok, pg) \<Rightarrow>
        if \<not> ok then None
        else (let w = wal_file pg; fs = eff_frame_size pg; n = open_frames pg;
                  pg = (if n > 0
                        then (set_os (fold (apply_frame w fs) [0..<n] pg) (\<lambda>o'. o'\<lparr>wal := Some (ftruncate w 0)\<rparr>))
                               \<lparr>wal_frame_size := WAL_FRAME_SIZE_V2\<rparr>
                        else pg)
              in Some (pg\<lparr>pages := (\<lambda>i. if i < num_pages pg \<and> i < max_pages pg then None else pages pg i)\<rparr>)))"

definition pager_set_wal_mode :: "Pager \<Rightarrow> bool \<Rightarrow> Pager option" where
  "pager_set_wal_mode pg enable =
     (if enable
      then if use_wal pg then Some pg
           else (let pg = open_wal (pg\<lparr>use_wal := True\<rparr>);
                     pg = (if wal_fd pg \<noteq> FdStdin \<and> flen (wal_file pg) = 0
                           then wal_append pg (le_bytes 4 WAL_MAGIC) else pg)
                 in Some (pg\<lparr>wal_frame_size := WAL_FRAME_SIZE_V2\<rparr>))
      else (if use_wal pg then pager_checkpoint pg \<bind> (\<lambda>pg. Some (pg\<lparr>use_wal := False\<rparr>)) else Some pg)
           \<bind> (\<lambda>pg. (let pg = (if wal_fd pg = FdStdin then set_os pg (\<lambda>w. w\<lparr>stdin_open := False\<rparr>) else pg)
                     in Some (unlink_wal (pg\<lparr>wal_fd := FdNone\<rparr>)))))"

section \<open>Backup\<close>

text \<open>The page-by-page copy of a database file; a partial page at the end is left out.\<close>

definition copy_pages :: "os_file \<Rightarrow> os_file" where
  "copy_pages src = fold (\<lambda>p dest. fwrite dest (p * PAGE_SIZE) (fread src (p * PAGE_SIZE) PAGE_SIZE))
     [0..<flen src div PAGE_SIZE] empty_file"

text \<open>\<open>while ((nread = read(wal_fd, copy_buf, 4096)) > 0) write(dest, copy_buf, nread)\<close>\<close>

function copy_chunks :: "os_file \<Rightarrow> nat \<Rightarrow> os_file \<Rightarrow> os_file" where
  "copy_chunks src off dest =
     (if off < flen src
      then (let bs = fread src off PAGE_SIZE in copy_chunks src (off + length bs) (fwrite dest off bs))
      else dest)"
  by pat_completeness auto
termination
  by (relation "measure (\<lambda>(src, off, dest). flen src - off)") auto

declare copy_chunks.simps [simp del]

definition flush_for_backup :: "Pager \<Rightarrow> Pager" where
  "flush_for_backup pg =
     (if is_dirty pg \<noteq> None
      then fold (\<lambda>i pg. if i < max_pages pg \<and> pages pg i \<noteq> None \<and> page_dirty pg i then pager_flush pg i else pg)
             [0..<num_pages pg] pg
      else if \<not> use_wal pg
      then fold (\<lambda>i pg. if i < max_pages pg \<and> pages pg i \<noteq> None then pager_flush pg i else pg)
             [0..<num_pages pg] pg
      else pg)"

text \<open>The two files a backup leaves, if it gets the lock.\<close>

definition pager_backup :: "Pager \<Rightarrow> (os_file \<times> os_file option) option \<times> Pager" where
  "pager_backup pg =
     (if is_memory pg then (None, pg)
      else case lock_retry 50 EXCLUSIVE_LOCK pg of (ok, pg) \<Rightarrow>
        if \<not> ok then (None, pg)
        else (let pg = flush_for_backup pg;
                  dest = copy_pages (db (os pg));
                  dest_wal = (if use_wal pg \<and> wal_fd pg \<noteq> FdNone \<and> flen (wal_file pg) > 0
                              then Some (copy_chunks (wal_file pg) 0 empty_file) else None)
              in (Some (dest, dest_wal), pager_unlock pg)))"

section \<open>Restore\<close>

abbreviation PAGE_MAP_BUCKETS :: nat where "PAGE_MAP_BUCKETS \<equiv> 1024"

type_synonym page_map = "nat \<Rightarrow> (nat \<times> nat) list"

fun bucket_put :: "(nat \<times> nat) list \<Rightarrow> nat \<Rightarrow> nat \<Rightarrow> (nat \<times> nat) list option" where
  "bucket_put [] pnum off = None"
| "bucket_put (node # ns) pnum off =
     (if fst node = pnum then Some ((pnum, off) # ns)
      else map_option ((#) node) (bucket_put ns pnum off))"

definition page_map_put :: "page_map \<Rightarrow> nat \<Rightarrow> nat \<Rightarrow> page_map" where
  "page_map_put m pnum off =
     (let b = pnum mod PAGE_MAP_BUCKETS
      in m(b := (case bucket_put (m b) pnum off of Some ns \<Rightarrow> ns | None \<Rightarrow> (pnum, off) # m b)))"

record restore_limit =
  until_ts :: nat
  use_ts :: bool
  until_lsn :: nat
  use_lsn :: bool

definition frame_ts :: "os_file \<Rightarrow> nat \<Rightarrow> nat \<Rightarrow> nat" where
  "frame_ts w fs f = rd 8 (fdata w) (wal_header fs + f * fs + 8)"
definition frame_lsn :: "os_file \<Rightarrow> nat \<Rightarrow> nat \<Rightarrow> nat" where
  "frame_lsn w fs f = rd 8 (fdata w) (wal_header fs + f * fs + 16)"

definition past_limit :: "restore_limit \<Rightarrow> os_file \<Rightarrow> nat \<Rightarrow> nat \<Rightarrow> bool" where
  "past_limit l w fs f \<longleftrightarrow> fs = WAL_FRAME_SIZE_V2 \<and>
     (use_ts l \<and> frame_ts w fs f > until_ts l \<or> use_lsn l \<and> frame_lsn w fs f > until_lsn l)"

text \<open>The scan builds the page map; a frame past the limit ends it, a damaged one is passed over.\<close>

fun restore_scan :: "restore_limit \<Rightarrow> os_file \<Rightarrow> nat \<Rightarrow> nat list \<Rightarrow> page_map \<Rightarrow> page_map" where
  "restore_scan l w fs [] m = m"
| "restore_scan l w fs (f # frames) m =
     (if past_limit l w fs f then m
      else if \<not> frame_valid w fs f then restore_scan l w fs frames m
      else restore_scan l w fs frames
             (page_map_put m (frame_pnum w fs f) (wal_header fs + f * fs + frame_payload fs)))"

definition write_node :: "os_file \<Rightarrow> nat \<times> nat \<Rightarrow> os_file \<Rightarrow> os_file" where
  "write_node w node dest =
     (let data = fread w (snd node) PAGE_SIZE
      in if length data = PAGE_SIZE then fwrite dest (fst node * PAGE_SIZE) data else dest)"

definition apply_page_map :: "os_file \<Rightarrow> page_map \<Rightarrow> os_file \<Rightarrow> os_file" where
  "apply_page_map w m dest = fold (\<lambda>b dest. fold (write_node w) (m b) dest) [0..<PAGE_MAP_BUCKETS] dest"

text \<open>\<open>None\<close>: the restore is refused; \<open>exists_already\<close> says that the destination exists.\<close>

definition pager_restore :: "os_file \<Rightarrow> os_file option \<Rightarrow> bool \<Rightarrow> restore_limit \<Rightarrow> os_file option" where
  "pager_restore src src_wal exists_already l =
     (let w = (case src_wal of Some w \<Rightarrow> w | None \<Rightarrow> empty_file);
          is_v2 = (src_wal \<noteq> None \<and> flen w \<ge> 4 \<and> wal_magic_ok w);
          fs = (if is_v2 then WAL_FRAME_SIZE_V2 else WAL_FRAME_SIZE_V1);
          num_frames = (if src_wal \<noteq> None then wal_num_frames w fs else 0);
          limited = (use_ts l \<or> use_lsn l)
      in if exists_already then None
         else if limited \<and> (src_wal = None \<or> flen w = 0) then None
         else if limited \<and> \<not> is_v2 then None
         else if limited \<and> num_frames = 0 then None
         else if limited \<and> (use_ts l \<and> until_ts l < frame_ts w fs 0 \<or> use_lsn l \<and> until_lsn l < frame_lsn w fs 0)
           then None
         else Some (apply_page_map w (restore_scan l w fs [0..<num_frames] (\<lambda>_. [])) (copy_pages src)))"

section \<open>Closing\<close>

definition pager_close :: "Pager \<Rightarrow> os option" where
  "pager_close pg =
     (if is_memory pg then Some (os pg)
      else (if in_transaction pg then pager_commit pg else Some pg) \<bind> (\<lambda>pg.
        Some (os (fold (\<lambda>i pg. if pages pg i \<noteq> None
               then (if page_dirty pg i then pager_flush pg i else pg)\<lparr>pages := (pages pg)(i := None)\<rparr> else pg)
               [0..<max_pages pg] pg))))"

end
