(* ===== verification/Rollback.thy ===== *)
theory Rollback
  imports Transactions
begin

text \<open>
  What transactions guarantee in rollback-journal mode.  \<open>tx_inv T pg\<close> says that the database file
  still holds the pages \<open>T\<close> of the start of the transaction, that the cache agrees with it, and that
  the journal has the start image of every page the transaction has touched; page writes keep it,
  rollback and crash recovery use it, commit replaces \<open>T\<close> by what the transaction has written.
\<close>

section \<open>Replaying page images\<close>

lemma fwrite_image: "fwrite f (n * PAGE_SIZE) (page_bytes b) = write_page f n b"
  by (simp add: write_page_def)

definition images_of :: "(nat \<Rightarrow> buf) \<Rightarrow> (nat \<times> byte list) list \<Rightarrow> bool" where
  "images_of T es \<longleftrightarrow> (\<forall>e \<in> set es. snd e = page_bytes (T (fst e)))"

lemma replay_Nil [simp]: "replay [] f = f"
  by (simp add: replay_def)

lemma replay_Cons: "replay ((n, d) # es) f = replay es (fwrite f (n * PAGE_SIZE) d)"
  by (simp add: replay_def)

lemma replay_append: "replay (xs @ ys) f = replay ys (replay xs f)"
  by (simp add: replay_def)

lemma file_ok_replay: "file_ok f \<Longrightarrow> file_ok (replay es f)"
  by (induction es arbitrary: f) (auto simp: replay_Cons file_ok_fwrite)

text \<open>Images that all come from the same state: the pages named are restored, the others untouched.\<close>

lemma replay_images:
  assumes "images_of T es" "\<And>n. page_ok (T n)" "file_ok f"
  shows "file_page (replay es f) n = (if n \<in> fst ` set es then T n else file_page f n)"
  using assms
proof (induction es arbitrary: f)
  case (Cons e es)
  have e: "e = (fst e, page_bytes (T (fst e)))" and "images_of T es"
    using Cons.prems(1) by (auto simp: images_of_def prod_eq_iff)
  have "replay (e # es) f = replay es (write_page f (fst e) (T (fst e)))"
    by (subst e) (simp add: replay_Cons fwrite_image)
  with Cons.IH [OF \<open>images_of T es\<close> Cons.prems(2)] Cons.prems(2,3) show ?case
    by auto
qed simp

lemma bytes_of_page_of: "length d = PAGE_SIZE \<Longrightarrow> page_bytes (page_of d) = d"
  by (simp add: page_of_def)

lemma replay_keeps:
  assumes "file_ok f" "\<forall>e \<in> set es. length (snd e) = PAGE_SIZE" "n \<notin> fst ` set es"
  shows "file_page (replay es f) n = file_page f n"
  using assms
proof (induction es arbitrary: f)
  case (Cons e es)
  then have "fwrite f (fst e * PAGE_SIZE) (snd e) = write_page f (fst e) (page_of (snd e))"
    by (simp add: write_page_def bytes_of_page_of)
  with Cons show ?case by (cases e) (simp add: replay_Cons)
qed simp

text \<open>Without that, forward replay leaves in a page the \<^emph>\<open>last\<close> image the journal has of it.\<close>

lemma replay_last:
  assumes "file_ok f" "length d = PAGE_SIZE" "n \<notin> fst ` set es"
    and "\<forall>e \<in> set (xs @ es). length (snd e) = PAGE_SIZE"
  shows "file_page (replay (xs @ (n, d) # es) f) n = page_of d"
proof -
  have "fwrite g (n * PAGE_SIZE) d = write_page g n (page_of d)" for g
    using assms(2) by (simp add: write_page_def bytes_of_page_of)
  then show ?thesis
    using assms replay_keeps file_ok_replay [OF assms(1), of xs] by (simp add: replay_append replay_Cons)
qed

lemma journal_entries_length: "e \<in> set (journal_entries f off) \<Longrightarrow> length (snd e) = PAGE_SIZE"
  by (induction f off rule: journal_entries.induct) (subst (asm) (2) journal_entries.simps, auto split: if_splits)

section \<open>Appending to a journal\<close>

lemma journal_entries_end: "flen f \<le> off \<Longrightarrow> journal_entries f off = []"
  by (subst journal_entries.simps) simp

lemma journal_entries_chunk:
  "off + JOURNAL_ENTRY \<le> flen f \<Longrightarrow> journal_entries f off =
     (rd 4 (fdata f) off, get_bytes (fdata f) (off + 4) PAGE_SIZE) # journal_entries f (off + JOURNAL_ENTRY)"
  by (subst journal_entries.simps) simp

lemma journal_entries_append:
  assumes "flen f = off + k * JOURNAL_ENTRY" "length d = PAGE_SIZE" "n < 2 ^ 32"
  shows "journal_entries (fwrite f (flen f) (journal_entry n d)) off = journal_entries f off @ [(n, d)]"
  using assms(1)
proof (induction k arbitrary: off)
  case 0
  let ?g = "fwrite f (flen f) (journal_entry n d)"
  have len: "flen ?g = off + JOURNAL_ENTRY"
    using 0 assms(2) by (simp add: fwrite_def journal_entry_def)
  have "rd 4 (fdata ?g) off = n"
    using 0 assms(3) by (simp add: fwrite_def journal_entry_def put_bytes_append rd_def get_put_disjoint)
  moreover have "get_bytes (fdata ?g) (off + 4) PAGE_SIZE = d"
    using 0 assms(2) by (simp add: fwrite_def journal_entry_def put_bytes_append)
  ultimately show ?case
    using 0 len by (simp add: journal_entries_chunk journal_entries_end)
next
  case (Suc k)
  let ?g = "fwrite f (flen f) (journal_entry n d)"
  have len: "off + JOURNAL_ENTRY \<le> flen f" "off + JOURNAL_ENTRY \<le> flen ?g"
    using Suc.prems by (simp_all add: fwrite_def)
  have "rd 4 (fdata ?g) off = rd 4 (fdata f) off"
    "get_bytes (fdata ?g) (off + 4) PAGE_SIZE = get_bytes (fdata f) (off + 4) PAGE_SIZE"
    using len(1) by (simp_all add: fwrite_def rd_put_disjoint get_put_disjoint)
  moreover have "flen f = (off + JOURNAL_ENTRY) + k * JOURNAL_ENTRY"
    using Suc.prems by simp
  note Suc.IH [OF this]
  ultimately show ?case
    using journal_entries_chunk [OF len(1)] journal_entries_chunk [OF len(2)] by simp
qed


section \<open>Pages of a pager in rollback-journal mode\<close>

abbreviation (input) MAX_PAGES :: nat where "MAX_PAGES \<equiv> 1048575"

text \<open>
  A file-backed pager without WAL whose \<open>file_length\<close> is that of the file, a whole number of pages
  below 4 GB (\<open>page_num * PAGE_SIZE\<close> is computed in 32 bits).
\<close>

definition file_mode :: "Pager \<Rightarrow> bool" where
  "file_mode pg \<longleftrightarrow> \<not> is_memory pg \<and> \<not> use_wal pg \<and> file_ok (db (os pg)) \<and>
     file_length pg = flen (db (os pg)) \<and> flen (db (os pg)) < 2 ^ 32 \<and> PAGE_SIZE dvd flen (db (os pg))"

definition cache_ok :: "Pager \<Rightarrow> bool" where
  "cache_ok pg \<longleftrightarrow> 0 < max_pages pg \<and> max_pages pg < 2 ^ 32 \<and> (\<forall>n \<ge> max_pages pg. pages pg n = None) \<and>
     (\<forall>n b. pages pg n = Some b \<longrightarrow> page_ok b \<and> n < num_pages pg \<and> n < MAX_PAGES)"

lemma overlay_zero [simp]: "put_bytes zero_buf 0 bs = page_of bs"
  by (simp add: page_of_def)

lemma load_page_file:
  assumes "file_mode pg"
  shows "load_page pg n = file_page (db (os pg)) n"
proof (cases "n < file_length pg div PAGE_SIZE")
  case True
  then have "n * PAGE_SIZE < 2 ^ 32"
    using assms by (auto simp: file_mode_def)
  with True assms show ?thesis
    by (simp add: load_page_def file_mode_def file_page_def)
next
  case False
  then have "flen (db (os pg)) \<le> n * PAGE_SIZE"
    using assms by (auto simp: file_mode_def elim!: dvdE)
  with False assms show ?thesis
    by (simp add: load_page_def file_mode_def file_page_def fread_def)
qed

text \<open>The page everybody but the writer sees, and the page the owner of the pager sees.\<close>

definition base :: "Pager \<Rightarrow> nat \<Rightarrow> buf" where
  "base pg n = (case pages pg n of Some b \<Rightarrow> b | None \<Rightarrow> load_page pg n)"

definition view :: "Pager \<Rightarrow> nat \<Rightarrow> buf" where
  "view pg n = (if is_writer pg \<and> shadowed pg n then the (shadow_pages pg n) else base pg n)"

text \<open>Once a lock is held and a transaction runs, \<open>get_page\<close> only fills the cache.\<close>

definition settled :: "Pager \<Rightarrow> bool" where
  "settled pg \<longleftrightarrow> in_transaction pg \<and> SHARED_LOCK \<le> lock_state (lock pg)"

lemma lock_retry_held:
  "want \<le> lock_state (lock pg) \<Longrightarrow> 0 < n \<Longrightarrow> lock_retry n want pg = (True, pg)"
  by (cases n) (auto simp: pager_lock_def lock_attempt_def)

lemma grow_max_pages_ok:
  "n < 2 ^ 31 \<Longrightarrow> 0 < m \<Longrightarrow> m < 2 ^ 32 \<Longrightarrow>
     \<exists>m'. grow_max_pages n m = Some m' \<and> n < m' \<and> m \<le> m' \<and> m' < 2 ^ 32"
proof (induction n m rule: grow_max_pages.induct)
  case (1 n m)
  show ?case
  proof (cases "n < m")
    case False
    then have "\<exists>m'. grow_max_pages n (2 * m) = Some m' \<and> n < m' \<and> 2 * m \<le> m' \<and> m' < 2 ^ 32"
      using 1 by (intro "1.IH") auto
    with False 1(2,3) show ?thesis
      by (subst grow_max_pages.simps) force
  qed (use 1 in \<open>auto simp: grow_max_pages.simps\<close>)
qed

text \<open>What a cache fill leaves alone.\<close>

definition same_core :: "Pager \<Rightarrow> Pager \<Rightarrow> bool" where
  "same_core pg pg' \<longleftrightarrow> os pg' = os pg \<and> lock pg' = lock pg \<and> is_memory pg' = is_memory pg \<and>
     file_length pg' = file_length pg \<and> in_transaction pg' = in_transaction pg \<and>
     journal_fd pg' = journal_fd pg \<and> num_pages_at_tx_start pg' = num_pages_at_tx_start pg \<and>
     use_wal pg' = use_wal pg \<and> savepoints pg' = savepoints pg \<and>
     shadow_pages pg' = shadow_pages pg \<and> is_shadowed pg' = is_shadowed pg \<and>
     shadow_capacity pg' = shadow_capacity pg \<and> writer_tid pg' = writer_tid pg \<and>
     lock_node pg' = lock_node pg \<and> freelist_head pg' = freelist_head pg \<and>
     reserved_catalog_pages pg' = reserved_catalog_pages pg \<and> num_pages pg \<le> num_pages pg' \<and>
     max_pages pg \<le> max_pages pg' \<and>
     (page_is_journaled pg' = None \<longleftrightarrow> page_is_journaled pg = None) \<and>
     (\<forall>n. is_journaled pg' n = is_journaled pg n)"

lemma same_core_refl [simp]: "same_core pg pg"
  by (simp add: same_core_def)

lemma same_core_trans: "same_core a b \<Longrightarrow> same_core b c \<Longrightarrow> same_core a c"
  by (simp add: same_core_def)

lemma resize_pages_ok:
  assumes "n < 2 ^ 31" "cache_ok pg" "in_transaction pg"
  obtains pg' where "resize_pages pg n = Some pg'" "same_core pg pg'" "cache_ok pg'" "n < max_pages pg'"
    "pages pg' = pages pg" "num_pages pg' = num_pages pg"
proof (cases "n < max_pages pg")
  case True
  then show ?thesis using assms that [of pg] by (simp add: resize_pages_def)
next
  case False
  obtain m where m: "grow_max_pages n (max_pages pg) = Some m" "n < m" "max_pages pg \<le> m" "m < 2 ^ 32"
    using grow_max_pages_ok [OF assms(1), of "max_pages pg"] assms(2) by (auto simp: cache_ok_def)
  have keep: "(\<lambda>i. if max_pages pg \<le> i \<and> i < m then None else pages pg i) = pages pg"
    using assms(2) by (auto simp: cache_ok_def fun_eq_iff)
  show ?thesis
  proof (rule that)
    show "resize_pages pg n = Some (pg\<lparr>max_pages := m, pages := pages pg,
        page_is_journaled := map_option (clear_tail (max_pages pg + TRACK_SLACK) (m + TRACK_SLACK)) (page_is_journaled pg),
        is_dirty := map_option (clear_tail (max_pages pg + TRACK_SLACK) (m + TRACK_SLACK)) (is_dirty pg)\<rparr>)"
      using False m(1) assms(3) by (simp add: resize_pages_def Let_def keep)
  qed (use m assms(2) in \<open>auto simp: same_core_def cache_ok_def is_journaled_def clear_tail_def
         split: option.splits\<close>)
qed

lemma load_page_core: "same_core pg pg' \<Longrightarrow> file_mode pg \<Longrightarrow> load_page pg' = load_page pg"
  by (rule ext) (simp add: load_page_file same_core_def file_mode_def)

lemma file_mode_core: "same_core pg pg' \<Longrightarrow> file_mode pg \<Longrightarrow> file_mode pg'"
  by (simp add: same_core_def file_mode_def)

lemma get_page_settled:
  assumes "settled pg" "file_mode pg" "cache_ok pg" "n < MAX_PAGES"
    and sh: "shadowed pg n \<Longrightarrow> shadow_pages pg n \<noteq> None"
  obtains r pg' where "get_page pg n = Some (Some r, pg')" "deref pg' r = Some (view pg n)"
    "r = (if is_writer pg \<and> shadowed pg n then RShadow n else RCache n)"
    "same_core pg pg'" "cache_ok pg'" "base pg' = base pg"
    "pages pg' = (pages pg)(n := Some (base pg n))" "n < max_pages pg'"
proof -
  define p0 where "p0 = pg\<lparr>lock_error := False\<rparr>"
  have p0: "same_core pg p0" "cache_ok p0" "in_transaction p0" "pages p0 = pages pg" "num_pages p0 = num_pages pg"
    using assms(1,3)
    by (auto simp: p0_def same_core_def cache_ok_def settled_def is_journaled_def split: option.split)
  have nlt: "n < 2 ^ 31" using assms(4) by simp
  obtain p1 where p1: "resize_pages p0 n = Some p1" "same_core p0 p1" "cache_ok p1" "n < max_pages p1"
    "pages p1 = pages p0" "num_pages p1 = num_pages p0"
    by (rule resize_pages_ok [OF nlt p0(2,3)])
  have c1: "same_core pg p1" using p0(1) p1(2) by (rule same_core_trans)
  have ld: "load_page p1 = load_page pg" by (rule load_page_core [OF c1 assms(2)])
  define p2 where "p2 = (case pages p1 n of
       None \<Rightarrow> p1\<lparr>disk_reads := disk_reads p1 + 1, pages := (pages p1)(n := Some (load_page p1 n)),
                 num_pages := (if n \<ge> num_pages p1 then n + 1 else num_pages p1)\<rparr>
     | Some _ \<Rightarrow> p1\<lparr>cache_hits := cache_hits p1 + 1\<rparr>)"
  have c2: "same_core p1 p2"
    by (auto simp: p2_def same_core_def is_journaled_def split: option.split)
  then have core: "same_core pg p2" using c1 by (blast intro: same_core_trans)
  have pages2: "pages p2 = (pages pg)(n := Some (base pg n))"
    using p1(5) p0(4) ld by (auto simp: p2_def base_def fun_eq_iff split: option.splits)
  have ok2: "cache_ok p2"
    using p1(3,4) assms(4) load_page_file [OF assms(2), of n] ld
    by (auto simp: p2_def cache_ok_def split: option.splits) (meson less_SucI less_le_trans)
  have "lock_retry 50 SHARED_LOCK pg = (True, pg)"
    using assms(1) by (intro lock_retry_held) (simp_all add: settled_def)
  then have "get_page pg n = Some (Some (if is_writer p2 \<and> shadowed p2 n then RShadow n else RCache n), p2)"
    using assms(1,2) p1(1)
    by (simp add: get_page_def file_mode_def settled_def pager_refresh_if_modified_def p0_def p2_def Let_def)
  moreover have "is_writer p2 = is_writer pg" "shadowed p2 n = shadowed pg n" "shadow_pages p2 = shadow_pages pg"
    using core by (simp_all add: same_core_def is_writer_def shadowed_def)
  moreover have "base p2 = base pg"
    using pages2 load_page_core [OF core assms(2)] by (auto simp: base_def fun_eq_iff split: option.split)
  moreover have "n < max_pages p2" using c2 p1(4) by (simp add: same_core_def)
  ultimately show ?thesis
    using that [of "if is_writer pg \<and> shadowed pg n then RShadow n else RCache n" p2] core ok2 sh pages2
    by (auto simp: view_def)
qed


section \<open>The invariant of a writing transaction\<close>

definition journal_ok :: "(nat \<Rightarrow> buf) \<Rightarrow> Pager \<Rightarrow> bool" where
  "journal_ok T pg \<longleftrightarrow> page_is_journaled pg \<noteq> None \<and>
     (\<exists>j. journal (os pg) = Some j \<and> journal_fd pg = FdFile (flen j) \<and> JOURNAL_ENTRY dvd flen j \<and>
        images_of T (journal_entries j 0) \<and>
        (\<forall>n. is_journaled pg n \<longrightarrow> n \<in> fst ` set (journal_entries j 0)))"

definition shadows_ok :: "Pager \<Rightarrow> bool" where
  "shadows_ok pg \<longleftrightarrow> shadow_capacity pg < 2 ^ 30 \<and> (\<forall>n. shadowed pg n \<longrightarrow>
     (\<exists>b. shadow_pages pg n = Some b \<and> page_ok b) \<and> pages pg n \<noteq> None)"

definition tx_core :: "(nat \<Rightarrow> buf) \<Rightarrow> Pager \<Rightarrow> bool" where
  "tx_core T pg \<longleftrightarrow> in_transaction pg \<and> RESERVED_LOCK \<le> lock_state (lock pg) \<and> file_mode pg \<and> cache_ok pg \<and>
     (lock_node pg = None \<or> lock_node pg = Some ThisPager) \<and> writer_tid pg = self_tid (os pg) \<and>
     (\<forall>n. page_ok (T n)) \<and> (\<forall>n. file_page (db (os pg)) n = T n) \<and> base pg = T \<and>
     journal_ok T pg \<and> shadows_ok pg"

definition tx_inv :: "(nat \<Rightarrow> buf) \<Rightarrow> Pager \<Rightarrow> bool" where
  "tx_inv T pg \<longleftrightarrow> tx_core T pg \<and> savepoints pg = [] \<and> (\<forall>n. shadowed pg n \<longrightarrow> is_journaled pg n)"

lemma tx_core_settled: "tx_core T pg \<Longrightarrow> settled pg"
  by (auto simp: tx_core_def settled_def lock_order)

lemma tx_core_writer: "tx_core T pg \<Longrightarrow> is_writer pg"
  by (simp add: tx_core_def is_writer_def)

lemma tx_core_shadow: "tx_core T pg \<Longrightarrow> shadowed pg n \<Longrightarrow> shadow_pages pg n \<noteq> None"
  by (auto simp: tx_core_def shadows_ok_def)

lemma tx_view: "tx_core T pg \<Longrightarrow> view pg n = (if shadowed pg n then the (shadow_pages pg n) else T n)"
  by (simp add: view_def tx_core_writer) (simp add: tx_core_def)

lemma tx_view_ok: "tx_core T pg \<Longrightarrow> page_ok (view pg n)"
  by (auto simp: tx_view) (auto simp: tx_core_def shadows_ok_def)

lemma tx_core_pages: "tx_core T pg \<Longrightarrow> pages pg n = Some b \<Longrightarrow> b = T n"
  by (auto simp: tx_core_def base_def fun_eq_iff split: option.splits)

lemma ensure_write_lock_held:
  assumes "tx_core T pg"
  shows "pager_ensure_write_lock pg = (True, pg)"
proof -
  obtain j p where "page_is_journaled pg = Some j" "journal_fd pg = FdFile p"
    using assms by (auto simp: tx_core_def journal_ok_def)
  moreover have "acquire_node pg = (True, pg)"
    using assms by (auto simp: tx_core_def acquire_node_def split: option.split)
  moreover have "reserve_lock pg = (True, pg)"
    using assms by (auto simp: tx_core_def reserve_lock_def)
  ultimately show ?thesis
    using assms by (simp add: pager_ensure_write_lock_def open_journal_def tx_core_def)
qed

lemma tx_core_cong:
  assumes "tx_core T pg" "same_core pg pg'" "cache_ok pg'" "base pg' = base pg"
    and "\<And>n. pages pg n \<noteq> None \<Longrightarrow> pages pg' n \<noteq> None"
  shows "tx_core T pg'"
proof -
  have "file_mode pg'" using assms(1,2) file_mode_core by (auto simp: tx_core_def)
  with assms show ?thesis
    by (auto simp: tx_core_def same_core_def journal_ok_def shadows_ok_def shadowed_def)
qed

text \<open>Marking dirty and growing the shadow array change nothing that counts.\<close>

lemma load_page_cong:
  assumes "os p' = os pg" "use_wal p' = use_wal pg" "wal_fd p' = wal_fd pg"
    "wal_frame_size p' = wal_frame_size pg" "file_length p' = file_length pg" "is_memory p' = is_memory pg"
  shows "load_page p' = load_page pg"
  unfolding load_page_def wal_file_def eff_frame_size_def assms by (rule refl)

lemma base_cong:
  assumes "os p' = os pg" "use_wal p' = use_wal pg" "wal_fd p' = wal_fd pg"
    "wal_frame_size p' = wal_frame_size pg" "file_length p' = file_length pg" "is_memory p' = is_memory pg"
    "pages p' = pages pg"
  shows "base p' = base pg"
  unfolding base_def assms load_page_cong [OF assms(1-6)] by (rule refl)

lemma is_journaled_cong:
  "page_is_journaled p' = page_is_journaled pg \<Longrightarrow> max_pages p' = max_pages pg \<Longrightarrow>
     is_journaled p' n = is_journaled pg n"
  unfolding is_journaled_def by (rule arg_cong2 [where f = "\<lambda>a b. case a of None \<Rightarrow> False | Some j \<Rightarrow> n < b + TRACK_SLACK \<and> j n"])

text \<open>Changes of the shadow arrays and the dirty flags keep the invariant as long as every shadow
  stands for a cached page.\<close>

lemma tx_core_shadow_update:
  assumes "tx_core T pg"
    and "p = pg\<lparr>is_dirty := d, shadow_pages := sp, is_shadowed := isf, shadow_capacity := cap\<rparr>"
    and "\<And>n. n < cap \<Longrightarrow> isf n \<Longrightarrow> (\<exists>b. sp n = Some b \<and> page_ok b) \<and> pages pg n \<noteq> None"
    and "cap < 2 ^ 30"
  shows "tx_core T p"
proof -
  have "shadows_ok p" using assms(2,3,4) by (auto simp: shadows_ok_def shadowed_def)
  moreover have "is_journaled p n = is_journaled pg n" for n
    by (rule is_journaled_cong) (simp_all add: assms(2))
  moreover have "base p = base pg" by (rule base_cong) (simp_all add: assms(2))
  ultimately show ?thesis
    using assms(1) by (auto simp: tx_core_def file_mode_def cache_ok_def journal_ok_def assms(2))
qed

lemma mark_grow:
  assumes "tx_core T pg" "n < MAX_PAGES"
  defines "p \<equiv> grow_shadow (mark_dirty pg n) n"
  shows "tx_core T p" "view p = view pg" "\<And>m. shadowed p m = shadowed pg m"
    "\<And>m. is_journaled p m = is_journaled pg m" "n < shadow_capacity p" "pages p = pages pg"
    "max_pages p = max_pages pg" "num_pages_at_tx_start p = num_pages_at_tx_start pg" "num_pages p = num_pages pg"
    "savepoints p = savepoints pg" "os p = os pg"
proof -
  define d where "d = is_dirty (mark_dirty pg n)"
  define big where "big \<longleftrightarrow> shadow_capacity pg \<le> n"
  define cap where "cap = (if big then n + 1024 else shadow_capacity pg)"
  define sp where "sp = (\<lambda>i. if big \<and> shadow_capacity pg \<le> i \<and> i < cap then None else shadow_pages pg i)"
  define isf where "isf = (\<lambda>i. if big \<and> shadow_capacity pg \<le> i \<and> i < cap then False else is_shadowed pg i)"
  have p: "p = pg\<lparr>is_dirty := d, shadow_pages := sp, is_shadowed := isf, shadow_capacity := cap\<rparr>"
    using assms(2)
    by (auto simp: p_def grow_shadow_def mark_dirty_def d_def big_def cap_def sp_def isf_def clear_tail_def
        Let_def fun_eq_iff)
  show sh: "shadowed p m = shadowed pg m" for m
    by (auto simp: p shadowed_def isf_def cap_def big_def)
  show core: "tx_core T p"
  proof (rule tx_core_shadow_update [OF assms(1) p])
    fix m assume "m < cap" "isf m"
    then have "shadowed pg m" "sp m = shadow_pages pg m"
      by (auto simp: isf_def sp_def shadowed_def cap_def big_def split: if_splits)
    then show "(\<exists>b. sp m = Some b \<and> page_ok b) \<and> pages pg m \<noteq> None"
      using assms(1,2) by (auto simp: tx_core_def shadows_ok_def cap_def)
  next
    show "cap < 2 ^ 30"
      using assms(1,2) by (auto simp: tx_core_def shadows_ok_def cap_def)
  qed
  show "view p = view pg"
  proof
    fix m
    have "shadowed pg m \<Longrightarrow> shadow_pages p m = shadow_pages pg m"
      by (auto simp: p sp_def shadowed_def)
    then show "view p m = view pg m"
      by (simp add: tx_view [OF core] tx_view [OF assms(1)] sh)
  qed
  show "is_journaled p m = is_journaled pg m" for m by (rule is_journaled_cong) (simp_all add: p)
  show "n < shadow_capacity p" by (simp add: p cap_def big_def)
qed (simp_all add: p_def grow_shadow_def mark_dirty_def Let_def)


lemma cached_lt: "tx_core T pg \<Longrightarrow> pages pg n \<noteq> None \<Longrightarrow> n < max_pages pg"
  by (rule ccontr) (simp add: tx_core_def cache_ok_def)

text \<open>After \<open>pager_shadow_page_write\<close> the page has a shadow with the content it had.\<close>

definition shadow_step :: "(nat \<Rightarrow> buf) \<Rightarrow> Pager \<Rightarrow> nat \<Rightarrow> Pager \<Rightarrow> bool" where
  "shadow_step T pg n p \<longleftrightarrow> tx_core T p \<and> view p = view pg \<and>
     (\<forall>m. shadowed p m \<longleftrightarrow> shadowed pg m \<or> m = n) \<and> (\<forall>m. is_journaled p m = is_journaled pg m) \<and>
     num_pages_at_tx_start p = num_pages_at_tx_start pg \<and> n < max_pages p \<and> savepoints p = savepoints pg \<and>
     os p = os pg \<and>
     (\<forall>m. pages pg m \<noteq> None \<longrightarrow> pages p m \<noteq> None)"

lemma add_shadow:
  assumes "tx_core T pg" "n < shadow_capacity pg" "\<not> shadowed pg n" "pages pg n = Some b"
  defines "p \<equiv> pg\<lparr>shadow_pages := (shadow_pages pg)(n := Some b), is_shadowed := (is_shadowed pg)(n := True)\<rparr>"
  shows "shadow_step T pg n p"
proof -
  have b: "b = T n" "page_ok b"
    using tx_core_pages [OF assms(1,4)] assms(1) by (auto simp: tx_core_def)
  have p: "p = pg\<lparr>is_dirty := is_dirty pg, shadow_pages := (shadow_pages pg)(n := Some b),
      is_shadowed := (is_shadowed pg)(n := True), shadow_capacity := shadow_capacity pg\<rparr>"
    by (simp add: p_def)
  have core: "tx_core T p"
  proof (rule tx_core_shadow_update [OF assms(1) p])
    fix m assume "m < shadow_capacity pg" "((is_shadowed pg)(n := True)) m"
    then show "(\<exists>b'. ((shadow_pages pg)(n := Some b)) m = Some b' \<and> page_ok b') \<and> pages pg m \<noteq> None"
      using assms(1,4) b(2) by (cases "m = n") (auto simp: tx_core_def shadows_ok_def shadowed_def)
  next
    show "shadow_capacity pg < 2 ^ 30" using assms(1) by (simp add: tx_core_def shadows_ok_def)
  qed
  have sh: "shadowed p m \<longleftrightarrow> shadowed pg m \<or> m = n" for m
    using assms(2) by (auto simp: p_def shadowed_def)
  have "view p m = view pg m" for m
    using assms(3) b(1) by (simp add: tx_view [OF core] tx_view [OF assms(1)] sh) (simp add: p_def)
  moreover have "is_journaled p m = is_journaled pg m" for m
    by (rule is_journaled_cong) (simp_all add: p_def)
  moreover have "n < max_pages p"
    using cached_lt [OF assms(1)] assms(4) by (simp add: p_def)
  ultimately show ?thesis
    using core sh by (auto simp: shadow_step_def p_def)
qed

lemma is_shadowed_lt: "n < shadow_capacity pg \<Longrightarrow> is_shadowed pg n \<longleftrightarrow> shadowed pg n"
  by (simp add: shadowed_def)

lemma make_shadow_ok:
  assumes "tx_core T pg" "n < MAX_PAGES" "n < shadow_capacity pg"
  shows "\<exists>p. make_shadow pg n = Some p \<and> shadow_step T pg n p"
proof (cases "shadowed pg n")
  case True
  then have "n < max_pages pg"
    using cached_lt [OF assms(1)] assms(1) by (auto simp: tx_core_def shadows_ok_def)
  with True assms show ?thesis
    by (auto simp: make_shadow_def is_shadowed_lt shadow_step_def)
next
  case False
  show ?thesis
  proof (cases "n < max_pages pg \<and> pages pg n \<noteq> None")
    case True
    then obtain b where "pages pg n = Some b" by blast
    with True False assms add_shadow [OF assms(1,3) False this] show ?thesis
      by (auto simp: make_shadow_def is_shadowed_lt)
  next
    case miss: False
    obtain r q where q: "get_page pg n = Some (Some r, q)" "same_core pg q" "cache_ok q" "base q = base pg"
        "pages q = (pages pg)(n := Some (base pg n))" "n < max_pages q"
      using get_page_settled [of pg n] tx_core_settled [OF assms(1)] tx_core_shadow [OF assms(1)] assms(1,2)
      unfolding tx_core_def by metis
    have core: "tx_core T q"
      by (rule tx_core_cong [OF assms(1) q(2,3,4)]) (simp add: q(5))
    have same: "shadow_capacity q = shadow_capacity pg" "shadowed q = shadowed pg"
      "shadow_pages q = shadow_pages pg" "num_pages_at_tx_start q = num_pages_at_tx_start pg"
      "is_journaled q = is_journaled pg" "view q = view pg" "savepoints q = savepoints pg"
      "os q = os pg"
      using q(2) by (auto simp: same_core_def fun_eq_iff shadowed_def tx_view [OF core] tx_view [OF assms(1)])
    obtain p where "p = q\<lparr>shadow_pages := (shadow_pages q)(n := Some (base pg n)), is_shadowed := (is_shadowed q)(n := True)\<rparr>"
      "shadow_step T q n p"
      using add_shadow [OF core, of n "base pg n"] False assms(3) q(5) same by auto
    moreover have "make_shadow pg n = Some (q\<lparr>shadow_pages := (shadow_pages q)(n := Some (base pg n)),
        is_shadowed := (is_shadowed q)(n := True)\<rparr>)"
      using miss False assms(3) q by (auto simp: make_shadow_def is_shadowed_lt Let_def)
    ultimately show ?thesis
      using same q(5) by (auto simp: shadow_step_def)
  qed
qed

lemma shadow_page_write_ok:
  assumes "tx_core T pg" "n < MAX_PAGES"
  shows "\<exists>p. pager_shadow_page_write pg n = Some p \<and> shadow_step T pg n p"
proof -
  define q where "q = grow_shadow (mark_dirty pg n) n"
  note mg = mark_grow [OF assms(1,2), folded q_def]
  obtain p where p: "make_shadow q n = Some p" "shadow_step T q n p"
    using make_shadow_ok [OF mg(1) assms(2) mg(5)] by blast
  have "pager_shadow_page_write pg n = make_shadow q n"
    using assms(1) by (simp add: pager_shadow_page_write_def ensure_write_lock_held [OF assms(1)] q_def)
      (simp add: tx_core_def)
  with p mg show ?thesis by (auto simp: shadow_step_def)
qed


lemma tx_page_buf: "tx_core T pg \<Longrightarrow> shadowed pg n \<Longrightarrow> page_buf pg n = Some (view pg n)"
  by (auto simp: page_buf_def tx_view) (auto simp: tx_core_def shadows_ok_def)

lemma tx_core_journal:
  assumes "tx_core T pg" "journal (os pg) = Some j" "journal_fd pg = FdFile (flen j)" "n < max_pages pg"
    and "n < 2 ^ 32"
    and "p = pg\<lparr>os := (os pg)\<lparr>journal := Some (fwrite j (flen j) (journal_entry n (page_bytes (T n))))\<rparr>,
          journal_fd := FdFile (flen j + JOURNAL_ENTRY), page_is_journaled := map_option (\<lambda>f. f(n := True)) (page_is_journaled pg)\<rparr>"
  shows "tx_core T p" "\<And>m. is_journaled p m \<longleftrightarrow> is_journaled pg m \<or> m = n" "view p = view pg"
    "shadowed p = shadowed pg"
proof -
  let ?j = "fwrite j (flen j) (journal_entry n (page_bytes (T n)))"
  obtain f where f: "page_is_journaled pg = Some f"
    using assms(1) by (auto simp: tx_core_def journal_ok_def)
  obtain k where k: "flen j = 0 + k * JOURNAL_ENTRY" "images_of T (journal_entries j 0)"
      "\<forall>m. is_journaled pg m \<longrightarrow> m \<in> fst ` set (journal_entries j 0)"
    using assms(1,2) by (auto simp: tx_core_def journal_ok_def elim!: dvdE)
  have ents: "journal_entries ?j 0 = journal_entries j 0 @ [(n, page_bytes (T n))]"
    using journal_entries_append [OF k(1), of "page_bytes (T n)" n] assms(5) by simp
  show jd: "is_journaled p m \<longleftrightarrow> is_journaled pg m \<or> m = n" for m
    using assms(4) by (simp add: assms(6) is_journaled_def f)
  have fm: "file_mode pg" using assms(1) by (simp add: tx_core_def)
  then have fm': "file_mode p" by (simp add: assms(6) file_mode_def)
  have "pages p = pages pg" "db (os p) = db (os pg)" by (simp_all add: assms(6))
  then have "base p = base pg"
    by (intro ext) (simp only: base_def load_page_file [OF fm] load_page_file [OF fm'])
  moreover have "flen ?j = flen j + JOURNAL_ENTRY" by (simp add: fwrite_def journal_entry_def)
  then have "journal_ok T p"
    unfolding journal_ok_def jd using k ents f by (auto simp: assms(6) images_of_def)
  ultimately show core: "tx_core T p"
    using assms(1) fm' by (auto simp: tx_core_def assms(6) cache_ok_def shadows_ok_def shadowed_def)
  show "shadowed p = shadowed pg" by (simp add: assms(6) shadowed_def fun_eq_iff)
  then show "view p = view pg"
    by (simp add: fun_eq_iff tx_view [OF core] tx_view [OF assms(1)]) (simp add: assms(6))
qed


lemma shadow_stepD:
  assumes "shadow_step T pg n p"
  shows "tx_core T p" "view p = view pg" "\<And>m. shadowed p m \<longleftrightarrow> shadowed pg m \<or> m = n"
    "\<And>m. is_journaled p m = is_journaled pg m" "num_pages_at_tx_start p = num_pages_at_tx_start pg"
    "n < max_pages p" "\<And>m. pages pg m \<noteq> None \<Longrightarrow> pages p m \<noteq> None" "savepoints p = savepoints pg"
    "os p = os pg"
  using assms by (simp_all add: shadow_step_def)

text \<open>Journaling a page changes no content and leaves the page shadowed and journaled.\<close>

lemma journal_page_ok:
  assumes "tx_inv T pg" "n < MAX_PAGES"
  shows "\<exists>p. pager_journal_page pg n = Some p \<and> tx_inv T p \<and> view p = view pg \<and> shadowed p n \<and>
    num_pages_at_tx_start p = num_pages_at_tx_start pg"
proof -
  have core: "tx_core T pg" and sj: "\<And>m. shadowed pg m \<Longrightarrow> is_journaled pg m"
      and nosp: "savepoints pg = []"
    using assms(1) by (auto simp: tx_inv_def)
  obtain q where q: "pager_shadow_page_write pg n = Some q" "shadow_step T pg n q"
    using shadow_page_write_ok [OF core assms(2)] by blast
  note step = shadow_stepD [OF q(2)]
  obtain j where j: "journal (os q) = Some j" "journal_fd q = FdFile (flen j)"
    using step(1) by (auto simp: tx_core_def journal_ok_def)
  have tx: "in_transaction q" "savepoints q = []" using step(1,8) nosp by (simp_all add: tx_core_def)
  show ?thesis
  proof (cases "is_journaled q n")
    case True
    then have "pager_journal_page pg n = Some q"
      using q(1) tx j by (simp add: pager_journal_page_def)
    moreover have "tx_inv T q"
      using True step(1,3,4) tx sj by (auto simp: tx_inv_def)
    ultimately show ?thesis using step by auto
  next
    case False
    then have "\<not> shadowed pg n" using step(4) sj by auto
    then have "view q n = T n" by (simp add: step(2) tx_view [OF core])
    then have img: "journal_image q n = page_bytes (T n)"
      using tx_page_buf [OF step(1), of n] step(3) by (simp add: journal_image_def)
    define p where "p = q\<lparr>os := (os q)\<lparr>journal := Some (fwrite j (flen j) (journal_entry n (page_bytes (T n))))\<rparr>,
      journal_fd := FdFile (flen j + JOURNAL_ENTRY), page_is_journaled := map_option (\<lambda>f. f(n := True)) (page_is_journaled q)\<rparr>"
    have "n < 2 ^ 32" using assms(2) by simp
    note tj = tx_core_journal [OF step(1) j step(6) this p_def]
    have "pager_journal_page pg n = Some p"
      using q(1) tx j False img step(6)
      by (simp add: pager_journal_page_def journal_write_def set_os_def p_def journal_entry_def fwrite_def)
    moreover have "tx_inv T p"
      using tj(1,2,4) step(3,4) sj tx(2) by (auto simp: tx_inv_def) (simp add: p_def)
    moreover have "num_pages_at_tx_start p = num_pages_at_tx_start q" by (simp add: p_def)
    ultimately show ?thesis using tj step by auto
  qed
qed

text \<open>Storing through the pointer of a shadowed page.\<close>

lemma store_shadow_ok:
  assumes "tx_inv T pg" "shadowed pg n" "page_ok b"
  shows "tx_inv T (store pg (RShadow n) b)" "view (store pg (RShadow n) b) = (view pg)(n := b)"
proof -
  let ?p = "store pg (RShadow n) b"
  have core: "tx_core T pg" using assms(1) by (simp add: tx_inv_def)
  have p: "?p = pg\<lparr>is_dirty := is_dirty pg, shadow_pages := (shadow_pages pg)(n := Some b),
      is_shadowed := is_shadowed pg, shadow_capacity := shadow_capacity pg\<rparr>" by simp
  have core': "tx_core T ?p"
  proof (rule tx_core_shadow_update [OF core p])
    fix m assume "m < shadow_capacity pg" "is_shadowed pg m"
    then show "(\<exists>b'. ((shadow_pages pg)(n := Some b)) m = Some b' \<and> page_ok b') \<and> pages pg m \<noteq> None"
      using core assms(3) by (auto simp: tx_core_def shadows_ok_def shadowed_def)
  qed (use core in \<open>simp add: tx_core_def shadows_ok_def\<close>)
  have sh: "shadowed ?p m = shadowed pg m" for m by (simp add: shadowed_def)
  moreover have "is_journaled ?p m = is_journaled pg m" for m by (rule is_journaled_cong) simp_all
  ultimately show "tx_inv T ?p" using core' assms(1) by (simp add: tx_inv_def)
  show "view ?p = (view pg)(n := b)"
  proof
    show "view ?p m = ((view pg)(n := b)) m" for m
      using assms(2) tx_view [OF core', of m] tx_view [OF core, of m] sh [of m] by auto
  qed
qed

lemma tx_inv_core:
  assumes "tx_inv T pg" "same_core pg q" "tx_core T q"
  shows "tx_inv T q" "view q = view pg" "shadowed q = shadowed pg"
proof -
  have core: "tx_core T pg" using assms(1) by (simp add: tx_inv_def)
  show sh: "shadowed q = shadowed pg" using assms(2) by (simp add: same_core_def shadowed_def fun_eq_iff)
  then show "tx_inv T q" using assms by (simp add: tx_inv_def same_core_def)
  show "view q = view pg"
    using assms(2) by (simp add: fun_eq_iff tx_view [OF assms(3)] tx_view [OF core] sh same_core_def)
qed

lemma modify_page_ok:
  assumes "tx_inv T pg" "n < MAX_PAGES" and f: "\<And>b. page_ok b \<Longrightarrow> page_ok (f b)"
  shows "\<exists>p. modify_page pg n f = Some p \<and> tx_inv T p \<and> view p = (view pg)(n := f (view pg n)) \<and>
    num_pages_at_tx_start p = num_pages_at_tx_start pg"
proof -
  obtain q where q: "pager_journal_page pg n = Some q" "tx_inv T q" "view q = view pg" "shadowed q n"
      "num_pages_at_tx_start q = num_pages_at_tx_start pg"
    using journal_page_ok [OF assms(1,2)] by blast
  have core: "tx_core T q" using q(2) by (simp add: tx_inv_def)
  obtain r p where p: "get_page q n = Some (Some r, p)" "deref p r = Some (view q n)" "r = RShadow n"
      "same_core q p" "cache_ok p" "base p = base q" "pages p = (pages q)(n := Some (base q n))"
    using get_page_settled [of q n] tx_core_settled [OF core] tx_core_shadow [OF core] tx_core_writer [OF core]
      core assms(2) q(4) unfolding tx_core_def by metis
  have core': "tx_core T p" by (rule tx_core_cong [OF core p(4,5,6)]) (simp add: p(7))
  note inv = tx_inv_core [OF q(2) p(4) core']
  have "page_ok (f (view pg n))" using f tx_view_ok [OF core, of n] by (simp add: q(3))
  note st = store_shadow_ok [OF inv(1) _ this, of n]
  have "modify_page pg n f = Some (store p (RShadow n) (f (view pg n)))"
    using q(1,3) p(1-3) by (simp add: modify_page_def update_page_def)
  moreover have "num_pages_at_tx_start (store p (RShadow n) b) = num_pages_at_tx_start q" for b
    using p(4) by (simp add: same_core_def)
  ultimately show ?thesis using st inv q(3,4,5) by auto
qed


section \<open>Flushing\<close>

text \<open>A flush in rollback-journal mode changes only the file, its length and a dirty flag.\<close>

definition flushed :: "Pager \<Rightarrow> os_file \<Rightarrow> Pager \<Rightarrow> bool" where
  "flushed pg f p \<longleftrightarrow> (\<exists>l d. p = pg\<lparr>os := (os pg)\<lparr>db := f\<rparr>, file_length := l, is_dirty := d\<rparr>) \<and> file_mode p"

lemma flushed_refl: "file_mode pg \<Longrightarrow> flushed pg (db (os pg)) pg"
  unfolding flushed_def by (intro conjI exI [of _ "file_length pg"] exI [of _ "is_dirty pg"]) simp_all

lemma flushed_db: "flushed pg f p \<Longrightarrow> db (os p) = f"
  by (auto simp: flushed_def)

lemma flushed_page_buf: "flushed pg f q \<Longrightarrow> page_buf q i = page_buf pg i"
  by (elim flushed_def [THEN iffD1, elim_format] conjE exE) (simp add: page_buf_def shadowed_def)

lemma flushed_trans: "flushed a f b \<Longrightarrow> flushed b g c \<Longrightarrow> flushed a g c"
  unfolding flushed_def by (elim conjE exE) (intro conjI, simp, blast, assumption)

lemma flen_write_page: "flen (write_page f n b) = max (flen f) ((n + 1) * PAGE_SIZE)"
  by (simp add: write_page_def fwrite_def)

lemma pager_flush_file:
  assumes "file_mode pg" "n < MAX_PAGES" "page_buf pg n = Some b" "page_ok b"
  shows "flushed pg (write_page (db (os pg)) n b) (pager_flush pg n)"
proof -
  have "(n + 1) * PAGE_SIZE < 2 ^ 32" using assms(2) by simp
  moreover have "PAGE_SIZE dvd max (flen (db (os pg))) ((n + 1) * PAGE_SIZE)"
    using assms(1) by (simp add: file_mode_def max_def)
  moreover have "pager_flush pg n = flush_db pg n b"
    using assms by (simp add: pager_flush_def file_mode_def)
  ultimately show ?thesis
    using assms(1)
    by (simp add: flushed_def flush_db_def set_os_def file_mode_def flen_write_page Let_def max_def) blast
qed

text \<open>
  Flushing a list of pages: those that must be flushed are in the file, and flushing others does no
  harm because the file already has their content; nothing is said of the pages in \<open>X\<close>.
\<close>

lemma flush_fold:
  assumes "file_mode pg"
    and "\<And>i q f. i \<in> set is \<Longrightarrow> flushed pg f q \<Longrightarrow> P i \<Longrightarrow> cond q i"
    and "\<And>i q f. i \<in> set is \<Longrightarrow> flushed pg f q \<Longrightarrow> cond q i \<Longrightarrow> i < MAX_PAGES \<and>
       (\<exists>b. page_buf pg i = Some b \<and> page_ok b \<and> (P i \<or> b = file_page (db (os pg)) i \<or> i \<in> X))"
    and "distinct is"
  shows "\<exists>f. flushed pg f (fold (\<lambda>i q. if cond q i then pager_flush q i else q) is pg) \<and>
    (\<forall>m. m \<notin> X \<longrightarrow> file_page f m = (if m \<in> set is \<and> P m then the (page_buf pg m) else file_page (db (os pg)) m))"
  using assms(2-4)
proof (induction "is" rule: rev_induct)
  case Nil
  then show ?case using flushed_refl [OF assms(1)] by auto
next
  case (snoc i xs)
  obtain f where f: "flushed pg f (fold (\<lambda>i q. if cond q i then pager_flush q i else q) xs pg)"
      (is "flushed _ _ ?q")
    and pg: "\<And>m. m \<notin> X \<Longrightarrow>
      file_page f m = (if m \<in> set xs \<and> P m then the (page_buf pg m) else file_page (db (os pg)) m)"
    using snoc by (auto simp: distinct_append)
  have i: "i \<notin> set xs" using snoc.prems(3) by simp
  show ?case
  proof (cases "cond ?q i")
    case True
    then obtain b where b: "i < MAX_PAGES" "page_buf pg i = Some b" "page_ok b"
        "P i \<or> b = file_page (db (os pg)) i \<or> i \<in> X"
      using snoc.prems(2) [OF _ f] by auto
    have fm: "file_mode ?q" using f unfolding flushed_def by (rule conjunct2)
    have dbq: "db (os ?q) = f" using f by (rule flushed_db)
    have "page_buf ?q i = Some b"
      using f b(2) by (simp add: flushed_page_buf)
    from pager_flush_file [OF fm b(1) this b(3)] have
      "flushed pg (write_page f i b) (pager_flush ?q i)" unfolding dbq by (rule flushed_trans [OF f])
    moreover have "file_ok f" using fm dbq unfolding file_mode_def by metis
    moreover have "file_page (write_page f i b) m =
        (if m \<in> set (xs @ [i]) \<and> P m then the (page_buf pg m) else file_page (db (os pg)) m)" if "m \<notin> X" for m
      using \<open>file_ok f\<close> b pg [OF that] that i by (cases "m = i") auto
    ultimately show ?thesis
      using True by (intro exI [of _ "write_page f i b"]) simp
  next
    case False
    then have "\<not> P i" using snoc.prems(1) [OF _ f] by auto
    then have "file_page f m = (if m \<in> set (xs @ [i]) \<and> P m then the (page_buf pg m) else file_page (db (os pg)) m)"
      if "m \<notin> X" for m
      using pg [OF that] by auto
    then show ?thesis using False f by (intro exI [of _ f]) simp
  qed
qed

section \<open>The first write of a transaction\<close>

text \<open>A transaction that has begun and not written: nothing shadowed, journaled or reserved.\<close>

definition tx_begun :: "(nat \<Rightarrow> buf) \<Rightarrow> Pager \<Rightarrow> bool" where
  "tx_begun T pg \<longleftrightarrow> in_transaction pg \<and> lock_state (lock pg) < RESERVED_LOCK \<and> file_mode pg \<and> cache_ok pg \<and>
     lock_node pg \<notin> {Some (OtherPager True), Some (OtherPager False)} \<and> savepoints pg = [] \<and>
     (\<forall>n. page_ok (T n)) \<and> (\<forall>n. file_page (db (os pg)) n = T n) \<and> base pg = T \<and>
     journal_fd pg = FdNone \<and> page_is_journaled pg = None \<and>
     (\<forall>n. \<not> shadowed pg n) \<and> shadow_capacity pg < 2 ^ 30"

lemma lock_retry_fields:
  "lock_retry n want pg = (ok, q) \<Longrightarrow> \<exists>l t. q = pg\<lparr>lock := l, os := (os pg)\<lparr>tick := t\<rparr>\<rparr> \<and> (ok \<longrightarrow> is_memory pg \<or> want \<le> lock_state l)"
proof (induction n arbitrary: pg)
  case 0
  then show ?case
    by (intro exI [of _ "lock pg"] exI [of _ "tick (os pg)"]) simp
next
  case (Suc n)
  obtain ok1 p1 where p1: "pager_lock pg want = (ok1, p1)" by fastforce
  then obtain l where l: "p1 = pg\<lparr>lock := l\<rparr>" "ok1 \<longrightarrow> is_memory pg \<or> want \<le> lock_state l"
    using lock_attempt_success [of "busy (os pg) (tick (os pg))" want "lock pg"]
    by (auto simp: pager_lock_def split: if_splits prod.splits)
      (metis Pager.surjective Pager.update_convs(2))
  show ?case
  proof (cases ok1)
    case True
    with Suc.prems p1 l show ?thesis
      by (intro exI [of _ l] exI [of _ "tick (os pg)"]) auto
  next
    case False
    with Suc.prems p1 have "lock_retry n want (usleep p1) = (ok, q)" by simp
    from Suc.IH [OF this] l(1) show ?thesis by (auto simp: usleep_def set_os_def)
  qed
qed

lemma flush_cached_ok:
  assumes "file_mode pg" "cache_ok pg" "\<And>n. \<not> shadowed pg n"
    and "\<And>n b. pages pg n = Some b \<Longrightarrow> b = file_page (db (os pg)) n"
  shows "\<exists>f. flushed pg f (flush_cached pg) \<and> (\<forall>m. file_page f m = file_page (db (os pg)) m)"
proof -
  have buf: "page_buf pg i = pages pg i" if "i < max_pages pg" for i
    using assms(3) that by (simp add: page_buf_def)
  have "\<exists>f. flushed pg f (flush_cached pg) \<and> (\<forall>m. m \<notin> {} \<longrightarrow> file_page f m =
      (if m \<in> set [0..<max_pages pg] \<and> False then the (page_buf pg m) else file_page (db (os pg)) m))"
    unfolding flush_cached_def
  proof (rule flush_fold [OF assms(1)])
    fix i q f assume "i \<in> set [0..<max_pages pg]" "flushed pg f q" "pages q i \<noteq> None"
    moreover from this have "pages pg i \<noteq> None" by (auto simp: flushed_def)
    ultimately show "i < MAX_PAGES \<and>
        (\<exists>b. page_buf pg i = Some b \<and> page_ok b \<and> (False \<or> b = file_page (db (os pg)) i \<or> i \<in> {}))"
      using assms(2,4) by (auto simp: buf cache_ok_def)
  qed auto
  then show ?thesis by auto
qed

lemma file_mode_rest:
  assumes "file_mode pg" "file_length p = file_length pg" "use_wal p = use_wal pg" "is_memory p = is_memory pg"
    "db (os p) = db (os pg)"
  shows "file_mode p"
  using assms by (simp add: file_mode_def)

lemma base_file: "file_mode pg \<Longrightarrow> base pg n = (case pages pg n of Some b \<Rightarrow> b | None \<Rightarrow> file_page (db (os pg)) n)"
  by (simp add: base_def load_page_file split: option.split)

lemma acquire_node_free:
  assumes "lock_node pg \<notin> {Some (OtherPager True), Some (OtherPager False)}"
  shows "\<exists>ln. acquire_node pg = (True, pg\<lparr>lock_node := ln\<rparr>) \<and> (ln = None \<or> ln = Some ThisPager)"
proof (cases "lock_node pg")
  case None
  then have "acquire_node pg = (True, pg\<lparr>lock_node := None\<rparr>)" by (simp add: acquire_node_def)
  then show ?thesis by blast
next
  case (Some w)
  with assms have "acquire_node pg = (True, pg\<lparr>lock_node := Some ThisPager\<rparr>)"
    by (cases w; simp add: acquire_node_def)
  then show ?thesis by blast
qed

lemma first_write_lock:
  assumes "tx_begun T pg" "fst (pager_ensure_write_lock pg)"
  shows "\<exists>p. pager_ensure_write_lock pg = (True, p) \<and> tx_inv T p \<and> view p = T \<and>
    num_pages_at_tx_start p = num_pages pg"
proof -
  note b = assms(1) [unfolded tx_begun_def]
  obtain a ln where a: "acquire_node pg = (True, a)" "a = pg\<lparr>lock_node := ln\<rparr>" "ln = None \<or> ln = Some ThisPager"
    using acquire_node_free [of pg] b by blast
  obtain ok q where lr: "lock_retry 50 RESERVED_LOCK a = (ok, q)" by (rule prod.exhaust)
  have mem: "\<not> is_memory pg" using b by (simp add: file_mode_def)
  have need: "\<not> is_memory a \<and> lock_state (lock a) < RESERVED_LOCK" using b mem by (simp add: a(2))
  have "reserve_lock a = (False, release_node (q\<lparr>lock_error := True\<rparr>))" if "\<not> ok"
    unfolding reserve_lock_def lr using need that by simp
  then have ok
    using assms(2) by (cases ok) (simp_all add: pager_ensure_write_lock_def a(1))
  with lr have "lock_retry 50 RESERVED_LOCK a = (True, q)" by simp
  moreover from lock_retry_fields [OF this] obtain l t
    where q: "q = a\<lparr>lock := l, os := (os a)\<lparr>tick := t\<rparr>\<rparr>" "RESERVED_LOCK \<le> lock_state l"
    using b a(2) by (auto simp: file_mode_def)
  define r where "r = q\<lparr>lock_error := False\<rparr>"
  have r: "file_mode r" "cache_ok r" "\<And>n. \<not> shadowed r n" "pages r = pages pg" "db (os r) = db (os pg)"
    using b by (auto simp: r_def q(1) a(2) file_mode_def cache_ok_def shadowed_def)
  have "b' = file_page (db (os r)) n" if "pages r n = Some b'" for n b'
    using b that base_file [of pg n] by (simp add: r(4,5))
  then obtain f where f: "flushed r f (flush_cached r)" "\<And>m. file_page f m = file_page (db (os r)) m"
    using flush_cached_ok [OF r(1-3)] by blast
  then obtain fl d where fc: "flush_cached r = r\<lparr>os := (os r)\<lparr>db := f\<rparr>, file_length := fl, is_dirty := d\<rparr>"
    and fm: "file_mode (flush_cached r)"
    by (auto simp: flushed_def)
  define p where "p = pg\<lparr>lock_node := ln, lock := l, lock_error := False,
      os := (os pg)\<lparr>tick := t, db := f, journal := Some empty_file\<rparr>, file_length := fl, is_dirty := d,
      num_pages_at_tx_start := num_pages pg, journal_fd := FdFile 0, page_is_journaled := Some (\<lambda>_. False),
      writer_tid := self_tid (os pg)\<rparr>"
  have fl: "fl = flen f" "flen f < 2 ^ 32" using fm by (auto simp: fc file_mode_def)
  have ens: "pager_ensure_write_lock pg = (True, p)"
    using b calculation fl
    by (simp add: pager_ensure_write_lock_def a(1) reserve_lock_def r_def [symmetric] fc)
      (simp add: p_def r_def q(1) a(2) open_journal_def set_os_def file_mode_def)
  have fmp: "file_mode p"
    using fm unfolding fc by (rule file_mode_rest) (simp_all add: p_def r_def q(1) a(2))
  have disk: "file_page (db (os p)) m = T m" for m using b f(2) by (simp add: p_def r(5))
  have pgs: "pages p = pages pg" by (simp add: p_def)
  have dsk: "file_page (db (os p)) n = file_page (db (os pg)) n" for n using disk b by simp
  have "base p = base pg"
    unfolding fun_eq_iff base_file [OF fmp] base_file [OF b [THEN conjunct2, THEN conjunct2, THEN conjunct1]]
      pgs dsk by simp
  moreover have "journal_ok T p"
    by (auto simp: journal_ok_def p_def empty_file_def journal_entries_end images_of_def is_journaled_def)
  moreover have "\<not> shadowed p n" for n using b by (simp add: p_def shadowed_def)
  moreover have "cache_ok p" using b by (simp add: p_def cache_ok_def)
  ultimately have inv: "tx_inv T p" "tx_core T p"
    using b fmp disk q(2) a(3)
    by (auto simp: tx_inv_def tx_core_def shadows_ok_def) (auto simp: p_def)
  moreover have "view p = T"
    using tx_view [OF inv(2)] \<open>\<And>n. \<not> shadowed p n\<close> by (simp add: fun_eq_iff)
  moreover have "num_pages_at_tx_start p = num_pages pg" by (simp add: p_def)
  ultimately show ?thesis using ens by blast
qed


lemma modify_page_first:
  assumes "tx_begun T pg" "pager_ensure_write_lock pg = (True, p)" "tx_inv T p"
  shows "modify_page pg n f = modify_page p n f"
proof -
  have "pager_ensure_write_lock p = (True, p)"
    using assms(3) ensure_write_lock_held [of T p] by (simp add: tx_inv_def)
  moreover have "in_transaction pg" "in_transaction p"
    using assms(1,3) by (simp_all add: tx_begun_def tx_inv_def tx_core_def)
  ultimately have "pager_shadow_page_write pg n = pager_shadow_page_write p n"
    using assms(2) by (simp add: pager_shadow_page_write_def)
  then show ?thesis by (simp add: modify_page_def pager_journal_page_def)
qed

section \<open>Any sequence of page writes\<close>

fun run_writes :: "(nat \<times> (buf \<Rightarrow> buf)) list \<Rightarrow> Pager \<Rightarrow> Pager option" where
  "run_writes [] pg = Some pg"
| "run_writes ((n, f) # ws) pg = modify_page pg n f \<bind> run_writes ws"

fun apply_writes :: "(nat \<times> (buf \<Rightarrow> buf)) list \<Rightarrow> (nat \<Rightarrow> buf) \<Rightarrow> nat \<Rightarrow> buf" where
  "apply_writes [] v = v"
| "apply_writes ((n, f) # ws) v = apply_writes ws (v(n := f (v n)))"

definition writes_ok :: "(nat \<times> (buf \<Rightarrow> buf)) list \<Rightarrow> bool" where
  "writes_ok ws \<longleftrightarrow> (\<forall>(n, f) \<in> set ws. n < MAX_PAGES \<and> (\<forall>b. page_ok b \<longrightarrow> page_ok (f b)))"

lemma run_writes_inv:
  assumes "tx_inv T pg" "writes_ok ws"
  shows "\<exists>p. run_writes ws pg = Some p \<and> tx_inv T p \<and> view p = apply_writes ws (view pg) \<and>
    num_pages_at_tx_start p = num_pages_at_tx_start pg"
  using assms
proof (induction ws arbitrary: pg)
  case (Cons w ws)
  obtain n f where w: "w = (n, f)" by (cases w)
  have f: "n < MAX_PAGES" "\<And>b. page_ok b \<Longrightarrow> page_ok (f b)" "writes_ok ws"
    using Cons.prems(2) by (auto simp: writes_ok_def w)
  obtain q where q: "modify_page pg n f = Some q" "tx_inv T q" "view q = (view pg)(n := f (view pg n))"
      "num_pages_at_tx_start q = num_pages_at_tx_start pg"
    using modify_page_ok [of T pg n f] Cons.prems(1) f by blast
  show ?case using Cons.IH [OF q(2) f(3)] q(1,3,4) by (simp add: w fun_upd_def)
qed auto

lemma run_writes_begun:
  assumes "tx_begun T pg" "fst (pager_ensure_write_lock pg)" "writes_ok ws" "ws \<noteq> []"
  shows "\<exists>p. run_writes ws pg = Some p \<and> tx_inv T p \<and> view p = apply_writes ws T \<and>
    num_pages_at_tx_start p = num_pages pg"
proof -
  obtain q where q: "pager_ensure_write_lock pg = (True, q)" "tx_inv T q" "view q = T"
      "num_pages_at_tx_start q = num_pages pg"
    using first_write_lock [OF assms(1,2)] by blast
  obtain n f ws' where ws: "ws = (n, f) # ws'" using assms(4) by (cases ws) auto
  then have "run_writes ws pg = run_writes ws q"
    using modify_page_first [OF assms(1) q(1,2)] by simp
  then show ?thesis using run_writes_inv [OF q(2) assms(3)] q by simp
qed


section \<open>Rollback\<close>

lemma restore_cached_image:
  assumes "\<And>b. pages pg n = Some b \<Longrightarrow> b = T n"
  shows "restore_cached n (page_bytes (T n)) pg = pg"
proof (cases "n < max_pages pg \<and> pages pg n \<noteq> None")
  case True
  then obtain b where "pages pg n = Some b" by blast
  with assms have "(pages pg)(n := map_option (\<lambda>b. put_bytes b 0 (page_bytes (T n))) (pages pg n)) = pages pg"
    by (simp add: put_get_bytes_eq fun_upd_idem)
  with True show ?thesis by (simp add: restore_cached_def)
qed (auto simp: restore_cached_def)

lemma restore_fold:
  assumes "images_of T es" "\<And>n b. pages pg n = Some b \<Longrightarrow> b = T n" "\<not> is_memory pg"
  shows "fold restore_page es pg = pg\<lparr>os := (os pg)\<lparr>db := replay es (db (os pg))\<rparr>\<rparr>"
  using assms
proof (induction es arbitrary: pg)
  case (Cons e es)
  have e: "snd e = page_bytes (T (fst e))" "images_of T es"
    using Cons.prems(1) by (auto simp: images_of_def)
  have "restore_page e pg = pg\<lparr>os := (os pg)\<lparr>db := fwrite (db (os pg)) (fst e * PAGE_SIZE) (snd e)\<rparr>\<rparr>"
    using restore_cached_image [of pg "fst e" T] Cons.prems(2,3)
    by (simp add: restore_page_def e(1) restore_db_def set_os_def)
  then show ?case
    using Cons.IH [OF e(2), of "restore_page e pg"] Cons.prems(2,3) by (cases e) (simp add: replay_Cons)
qed simp

lemma file_page_truncate:
  assumes "file_ok f" "n * PAGE_SIZE + PAGE_SIZE \<le> len"
  shows "file_page (ftruncate f len) n = file_page f n"
  using assms by (auto simp: fun_eq_iff file_page_byte file_ok_ftruncate) (simp add: ftruncate_def)

lemma end_transaction_fields [simp]:
  "os (end_transaction pg) = os pg" "pages (end_transaction pg) = pages pg"
  "in_transaction (end_transaction pg) = False" "lock_state (lock (end_transaction pg)) = NO_LOCK"
  "shadow_capacity (end_transaction pg) = shadow_capacity pg" "is_shadowed (end_transaction pg) = is_shadowed pg"
  "num_pages (end_transaction pg) = num_pages pg" "journal_fd (end_transaction pg) = journal_fd pg"
  by (simp_all add: end_transaction_def pager_unlock_def release_node_def end_snapshot_def
      pager_unregister_snapshot_def pager_reclaim_retired_pages_def Let_def)

text \<open>What is left of a pager after rollback, once the journal has been replayed.\<close>

lemma rollback_ok:
  assumes "tx_inv T pg" "fst (lock_retry 50 EXCLUSIVE_LOCK pg)" "num_pages_at_tx_start pg < MAX_PAGES"
  shows "\<exists>p. pager_rollback pg = Some p \<and> \<not> in_transaction p \<and> lock_state (lock p) = NO_LOCK \<and>
    journal (os p) = None \<and> savepoints p = [] \<and> (\<forall>n. \<not> shadowed p n) \<and>
    (\<forall>n. n < num_pages_at_tx_start pg \<longrightarrow>
       file_page (db (os p)) n = T n \<and> (\<forall>b. pages p n = Some b \<longrightarrow> b = T n))"
proof -
  have core: "tx_core T pg" using assms(1) by (simp add: tx_inv_def)
  note c = core [unfolded tx_core_def]
  obtain q where "lock_retry 50 EXCLUSIVE_LOCK pg = (True, q)" using assms(2) by (metis prod.collapse)
  from lock_retry_fields [OF this] obtain l t where q: "q = pg\<lparr>lock := l, os := (os pg)\<lparr>tick := t\<rparr>\<rparr>" by blast
  note lr = \<open>lock_retry 50 EXCLUSIVE_LOCK pg = (True, q)\<close>
  obtain j where j: "journal (os pg) = Some j" "journal_fd pg = FdFile (flen j)" "images_of T (journal_entries j 0)"
    using c by (auto simp: journal_ok_def)
  have mem: "\<not> is_memory pg" "file_ok (db (os pg))" using c by (simp_all add: file_mode_def)
  define es where "es = journal_entries j 0"
  define d where "d = (discard_shadows q)\<lparr>journal_fd := FdNone\<rparr>"
  have dpages: "b = T n" if "pages d n = Some b" for n b
    using tx_core_pages [OF core] that by (simp add: d_def discard_shadows_def q)
  have fold: "fold restore_page es d = d\<lparr>os := (os d)\<lparr>db := replay es (db (os d))\<rparr>\<rparr>"
    by (rule restore_fold [of T]) (use dpages j(3) mem in \<open>simp_all add: es_def d_def discard_shadows_def q\<close>)
  define r where "r = drop_tracking (unlink_journal (fold restore_page es d))"
  define s where "s = (if num_pages_at_tx_start r > 0 \<and> num_pages r > num_pages_at_tx_start r
                       then truncate_pages r (num_pages_at_tx_start r) else r)"
  have roll: "pager_rollback pg = Some ((end_transaction s)\<lparr>savepoints := []\<rparr>)"
    using c mem(1) j(1,2) lr
    by (simp add: pager_rollback_def discard_shadows_def journal_on_disk_def q close_journal_def s_def r_def
        d_def es_def Let_def)
  have r: "r = d\<lparr>os := (os d)\<lparr>db := replay es (db (os d)), journal := None\<rparr>,
      page_is_journaled := None, is_dirty := None\<rparr>"
    by (simp add: r_def fold drop_tracking_def unlink_journal_def set_os_def)
  have dbr: "db (os r) = replay es (db (os pg))" "file_ok (db (os r))"
    using file_ok_replay [OF mem(2)]
    by (simp_all add: r d_def discard_shadows_def q)
  have disk: "file_page (db (os r)) n = T n" for n
    using replay_images [of T es "db (os pg)" n] j(3) c mem(2) by (simp add: dbr(1) es_def)
  have rf: "pages r = pages pg" "num_pages r = num_pages pg" "is_memory r = is_memory pg"
      "num_pages_at_tx_start r = num_pages_at_tx_start pg" "journal (os r) = None" "\<And>n. \<not> shadowed r n"
    by (simp_all add: r d_def discard_shadows_def q shadowed_def)
  have keep: "file_page (db (os s)) n = T n \<and> (\<forall>b. pages s n = Some b \<longrightarrow> b = T n)"
    if "n < num_pages_at_tx_start pg" for n
  proof -
    have "n * PAGE_SIZE + PAGE_SIZE \<le> num_pages_at_tx_start pg * PAGE_SIZE"
      "num_pages_at_tx_start pg * PAGE_SIZE < 2 ^ 32"
      using that assms(3) by simp_all
    then show ?thesis
      using that disk mem tx_core_pages [OF core, of n] file_page_truncate [OF dbr(2), of n]
      by (auto simp: s_def truncate_pages_def rf set_os_def Let_def)
  qed
  have "journal (os s) = None" "\<And>n. \<not> shadowed s n"
    using rf(5,6) by (simp_all add: s_def truncate_pages_def set_os_def Let_def shadowed_def)
  then show ?thesis
    using roll keep by (auto simp: shadowed_def)
qed


section \<open>Commit\<close>

lemma page_ok_wr: "page_ok b \<Longrightarrow> off + n \<le> PAGE_SIZE \<Longrightarrow> page_ok (wr n b off v)"
  by (auto simp: page_ok_def wr_def put_bytes_def)

lemma swap_fold:
  "pages (fold swap_page [0..<k] pg) i = (if i < k \<and> is_shadowed pg i then shadow_pages pg i else pages pg i)"
  "is_shadowed (fold swap_page [0..<k] pg) i \<longleftrightarrow> is_shadowed pg i \<and> \<not> i < k"
  "shadow_pages (fold swap_page [0..<k] pg) i = (if i < k \<and> is_shadowed pg i then None else shadow_pages pg i)"
  by (induction k arbitrary: i) (auto simp: swap_page_def less_Suc_eq)

lemma swap_fold_fields:
  "os (fold swap_page is pg) = os pg" "journal_fd (fold swap_page is pg) = journal_fd pg"
  "shadow_capacity (fold swap_page is pg) = shadow_capacity pg" "is_memory (fold swap_page is pg) = is_memory pg"
  by (induction "is" arbitrary: pg) (auto simp: swap_page_def)

lemma flush_dirty_ok:
  assumes "file_mode pg" "cache_ok pg" "shadows_ok pg" "\<And>n b. pages pg n = Some b \<Longrightarrow> n \<noteq> 0 \<Longrightarrow> b = file_page (db (os pg)) n"
  shows "\<exists>f. flushed pg f (flush_dirty pg) \<and> (\<forall>m. m \<noteq> 0 \<longrightarrow>
    file_page f m = (if shadowed pg m then the (shadow_pages pg m) else file_page (db (os pg)) m))"
proof -
  have cached: "pages pg i \<noteq> None \<Longrightarrow> i < max_pages pg \<and> i < MAX_PAGES \<and> i < num_pages pg" for i
    using assms(2) by (auto simp: cache_ok_def not_less [symmetric])
  have sh: "pages pg i \<noteq> None \<and> (\<exists>b. shadow_pages pg i = Some b \<and> page_ok b)" if "shadowed pg i" for i
    using assms(3) that by (simp add: shadows_ok_def)
  have buf: "\<exists>b. page_buf pg i = Some b \<and> page_ok b \<and> (shadowed pg i \<or> b = file_page (db (os pg)) i \<or> i \<in> {0})"
    if c: "pages pg i \<noteq> None" for i
  proof (cases "shadowed pg i")
    case True
    then show ?thesis using sh by (auto simp: page_buf_def)
  next
    case False
    obtain b where b: "pages pg i = Some b" using c by blast
    then have "page_ok b" using assms(2) by (simp add: cache_ok_def)
    with False b cached [OF c] assms(4) [OF b] show ?thesis by (auto simp: page_buf_def)
  qed
  have same: "max_pages q = max_pages pg" "pages q = pages pg" "shadowed q i = shadowed pg i"
    if "flushed pg f q" for f q i
    using that by (auto simp: flushed_def shadowed_def)
  have "\<exists>f. flushed pg f (flush_dirty pg) \<and> (\<forall>m. m \<notin> {0} \<longrightarrow> file_page f m =
      (if m \<in> set [0..<num_pages pg] \<and> shadowed pg m then the (page_buf pg m) else file_page (db (os pg)) m))"
    unfolding flush_dirty_def
  proof (rule flush_fold [OF assms(1)])
    fix i q f assume f: "flushed pg f q"
    show "i < max_pages q \<and> pages q i \<noteq> None \<and> (page_dirty q i \<or> shadowed q i)" if "shadowed pg i"
      using that sh cached by (simp add: same [OF f])
    show "i < MAX_PAGES \<and> (\<exists>b. page_buf pg i = Some b \<and> page_ok b \<and>
        (shadowed pg i \<or> b = file_page (db (os pg)) i \<or> i \<in> {0}))"
      if "i < max_pages q \<and> pages q i \<noteq> None \<and> (page_dirty q i \<or> shadowed q i)"
    proof -
      have "pages pg i \<noteq> None" using that by (simp add: same [OF f])
      then show ?thesis using cached [of i] buf [of i] by blast
    qed
  qed simp
  then obtain f where f1: "flushed pg f (flush_dirty pg)"
    and f2: "\<forall>m. m \<notin> {0} \<longrightarrow> file_page f m =
      (if m \<in> set [0..<num_pages pg] \<and> shadowed pg m then the (page_buf pg m) else file_page (db (os pg)) m)"
    by (elim exE conjE)
  have f: "file_page f m =
      (if m \<in> set [0..<num_pages pg] \<and> shadowed pg m then the (page_buf pg m) else file_page (db (os pg)) m)"
    if "m \<noteq> 0" for m using f2 that by simp
  have "file_page f m = (if shadowed pg m then the (shadow_pages pg m) else file_page (db (os pg)) m)" if "m \<noteq> 0" for m
  proof (cases "shadowed pg m")
    case True
    have "pages pg m \<noteq> None" using sh [OF True] by (rule conjunct1)
    then show ?thesis using f [OF that] cached [of m] True by (simp add: page_buf_def)
  next
    case False
    then show ?thesis using f [OF that] by simp
  qed
  with f1 show ?thesis by blast
qed


lemma stamp_lsn_ok:
  assumes "tx_inv T pg"
  shows "\<exists>p. stamp_lsn pg = Some p \<and> file_mode p \<and> cache_ok p \<and> shadows_ok p \<and>
    file_page (db (os p)) = T \<and> (\<forall>n b. pages p n = Some b \<longrightarrow> n \<noteq> 0 \<longrightarrow> b = T n) \<and>
    (\<forall>n. shadowed p n = shadowed pg n) \<and> (\<forall>n. n \<noteq> 0 \<longrightarrow> shadow_pages p n = shadow_pages pg n) \<and>
    shadow_capacity p = shadow_capacity pg \<and> is_memory p = is_memory pg"
proof -
  have core: "tx_core T pg" using assms by (simp add: tx_inv_def)
  obtain r q where q: "get_page pg 0 = Some (Some r, q)" "deref q r = Some (view pg 0)"
      "r = (if is_writer pg \<and> shadowed pg 0 then RShadow 0 else RCache 0)"
      "same_core pg q" "cache_ok q" "base q = base pg" "pages q = (pages pg)(0 := Some (base pg 0))"
    by (rule get_page_settled [of pg 0])
      (use tx_core_settled [OF core] tx_core_shadow [OF core] core in \<open>simp_all add: tx_core_def\<close>)
  have coreq: "tx_core T q" by (rule tx_core_cong [OF core q(4,5,6)]) (simp add: q(7))
  define b where "b = wr 8 (view pg 0) 4084 (unat (wal_lsn q))"
  have bok: "page_ok b" unfolding b_def by (rule page_ok_wr [OF tx_view_ok [OF core]]) simp
  define p where "p = (store q r b)\<lparr>is_dirty := map_option (\<lambda>d. d(0 := True)) (is_dirty q)\<rparr>"
  have st: "stamp_lsn pg = Some p"
    using q(1,2) by (simp add: stamp_lsn_def p_def b_def)
  have r: "r = RShadow 0 \<and> shadowed q 0 \<or> r = RCache 0"
    using q(3,4) by (auto simp: same_core_def shadowed_def)
  have same: "os p = os q" "\<And>n. shadowed p n = shadowed q n" "shadow_capacity p = shadow_capacity q"
      "is_memory p = is_memory q" "\<And>n. n \<noteq> 0 \<Longrightarrow> shadow_pages p n = shadow_pages q n"
      "\<And>n. n \<noteq> 0 \<Longrightarrow> pages p n = pages q n"
    using r by (auto simp: p_def shadowed_def)
  have sameq: "\<And>n. shadowed q n = shadowed pg n" "shadow_pages q = shadow_pages pg"
      "shadow_capacity q = shadow_capacity pg" "is_memory q = is_memory pg"
    using q(4) by (simp_all add: same_core_def shadowed_def)
  have "file_mode p"
    using r coreq by (auto simp: tx_core_def p_def intro: file_mode_rest)
  moreover have "cache_ok p"
  proof -
    have "\<exists>b'. pages q 0 = Some b'" using q(7) by simp
    then have "0 < num_pages q" using q(5) by (auto simp: cache_ok_def)
    with r q(5) bok show ?thesis by (auto simp: p_def cache_ok_def split: if_splits)
  qed
  moreover have "shadows_ok p"
    using r coreq bok by (auto simp: tx_core_def shadows_ok_def shadowed_def p_def)
  moreover have "file_page (db (os p)) = T"
    using coreq by (simp add: tx_core_def same fun_eq_iff)
  moreover have "\<forall>n b. pages p n = Some b \<longrightarrow> n \<noteq> 0 \<longrightarrow> b = T n"
    using same(6) tx_core_pages [OF coreq] by auto
  ultimately show ?thesis using st same sameq by auto
qed

lemma tx_inv_stamp:
  assumes "tx_inv T pg" "lock_state (lock pg) \<le> lock_state l"
  shows "tx_inv T (pg\<lparr>lock := l, os := (os pg)\<lparr>tick := t\<rparr>, current_commit_ts := a, current_commit_lsn := b, wal_lsn := c\<rparr>)"
    (is "tx_inv T ?p")
proof -
  have core: "tx_core T pg" using assms(1) by (simp add: tx_inv_def)
  have fm: "file_mode pg" using core by (simp add: tx_core_def)
  have fmp: "file_mode ?p" by (rule file_mode_rest [OF fm]) simp_all
  have pgs: "pages ?p = pages pg" and dsk: "db (os ?p) = db (os pg)" by simp_all
  have base: "base ?p = base pg"
    unfolding fun_eq_iff base_file [OF fmp] base_file [OF fm] pgs dsk by simp
  have jd: "is_journaled ?p n = is_journaled pg n" for n by (rule is_journaled_cong) simp_all
  have "RESERVED_LOCK \<le> lock_state (lock ?p)" using core assms(2) by (auto simp: tx_core_def)
  then have "tx_core T ?p"
    using core fmp base jd
    unfolding tx_core_def cache_ok_def journal_ok_def shadows_ok_def shadowed_def by simp
  then show ?thesis using assms(1) jd by (simp add: tx_inv_def shadowed_def)
qed

lemma exclusive_top: "EXCLUSIVE_LOCK \<le> s \<Longrightarrow> x \<le> s"
  by (cases s; cases x; simp add: lock_order)

lemma commit_ok:
  assumes "tx_inv T pg" "has_writes pg" "fst (lock_retry 50 EXCLUSIVE_LOCK pg)"
  shows "\<exists>p. pager_commit pg = Some p \<and> \<not> in_transaction p \<and> lock_state (lock p) = NO_LOCK \<and>
    journal (os p) = None \<and> (\<forall>n. \<not> shadowed p n) \<and>
    (\<forall>n. n \<noteq> 0 \<longrightarrow> file_page (db (os p)) n = view pg n \<and> (\<forall>b. pages p n = Some b \<longrightarrow> b = view pg n))"
proof -
  have c: "in_transaction pg" "\<not> use_wal pg" "\<not> is_memory pg" "tx_core T pg"
    using assms(1) by (simp_all add: tx_inv_def tx_core_def file_mode_def)
  obtain q where lr: "lock_retry 50 EXCLUSIVE_LOCK pg = (True, q)" using assms(2,3) by (metis prod.collapse)
  from lock_retry_fields [OF this] c(3) obtain l t
    where q: "q = pg\<lparr>lock := l, os := (os pg)\<lparr>tick := t\<rparr>\<rparr>" "EXCLUSIVE_LOCK \<le> lock_state l" by blast
  define a where "a = q\<lparr>current_commit_ts := wall_time (os q) (tick (os q)), current_commit_lsn := wal_lsn q + 1,
      wal_lsn := wal_lsn q + 1\<rparr>"
  have "lock_state (lock pg) \<le> lock_state l" using q(2) by (rule exclusive_top)
  then have inv: "tx_inv T a" using tx_inv_stamp [OF assms(1)] by (simp add: a_def q(1))
  have va: "view a = view pg"
  proof
    have "tx_core T a" "\<And>n. shadowed a n = shadowed pg n" "shadow_pages a = shadow_pages pg"
      using inv by (simp_all add: tx_inv_def) (simp_all add: a_def q(1) shadowed_def)
    then show "view a n = view pg n" for n by (simp add: tx_view [OF c(4)] tx_view [of T a])
  qed
  have fa: "shadow_capacity a = shadow_capacity pg" "is_shadowed a = is_shadowed pg" "shadow_pages a = shadow_pages pg"
    by (simp_all add: a_def q(1))
  obtain p where p: "stamp_lsn a = Some p" "file_mode p" "cache_ok p" "shadows_ok p" "file_page (db (os p)) = T"
      "\<And>n b. pages p n = Some b \<Longrightarrow> n \<noteq> 0 \<Longrightarrow> b = T n" "\<And>n. shadowed p n = shadowed a n"
      "\<And>n. n \<noteq> 0 \<Longrightarrow> shadow_pages p n = shadow_pages a n" "shadow_capacity p = shadow_capacity a"
    using stamp_lsn_ok [OF inv] by blast
  have vp: "view pg n = (if shadowed p n then the (shadow_pages p n) else T n)" if "n \<noteq> 0" for n
    using tx_view [OF c(4), of n] that p(7,8) fa by (simp add: shadowed_def)
  obtain f where f: "flushed p f (flush_dirty p)"
      "\<And>m. m \<noteq> 0 \<Longrightarrow> file_page f m = (if shadowed p m then the (shadow_pages p m) else T m)"
    using flush_dirty_ok [OF p(2-4)] p(5,6) by auto
  define s where "s = pager_reclaim_retired_pages (swap_shadows ((flush_dirty p)\<lparr>current_commit_ts := 0, current_commit_lsn := 0\<rparr>))"
  define e where "e = end_transaction (drop_tracking (unlink_journal (if journal_fd s = FdNone then s else close_journal s)))"
  have fd: "shadow_capacity (flush_dirty p) = shadow_capacity p" "is_shadowed (flush_dirty p) = is_shadowed p"
      "shadow_pages (flush_dirty p) = shadow_pages p" "pages (flush_dirty p) = pages p"
    using f(1) by (auto simp: flushed_def)
  have s: "db (os s) = f" "\<And>n. \<not> shadowed s n"
      "\<And>n. pages s n = (if shadowed p n then shadow_pages p n else pages p n)"
    using flushed_db [OF f(1)]
    by (simp_all add: s_def pager_reclaim_retired_pages_def swap_shadows_def Let_def swap_fold swap_fold_fields
        shadowed_def fd)
  have e: "db (os e) = f" "\<And>n. \<not> shadowed e n" "pages e = pages s" "journal (os e) = None"
    using s by (simp_all add: e_def drop_tracking_def unlink_journal_def close_journal_def set_os_def shadowed_def)
  have "pager_commit pg = Some e"
    using c assms(2) lr p(1) by (simp add: pager_commit_def e_def s_def a_def Let_def)
  moreover have "b = view pg n" if "n \<noteq> 0" "pages e n = Some b" for n b
    using that p(6) [OF _ that(1)] p(4) vp [OF that(1)] by (auto simp: e(3) s(3) shadows_ok_def split: if_splits)
  moreover have "file_page (db (os e)) n = view pg n" if "n \<noteq> 0" for n
    using f(2) [OF that] vp [OF that] by (simp add: e(1))
  moreover have "\<not> in_transaction e" "lock_state (lock e) = NO_LOCK" by (simp_all add: e_def)
  ultimately show ?thesis using e by blast
qed


section \<open>The locks of the others\<close>

text \<open>No operation changes what the model says the other processes do.\<close>

lemma busy_lock_retry: "busy (os (snd (lock_retry n want pg))) = busy (os pg)"
  using lock_retry_fields [of n want pg "fst (lock_retry n want pg)" "snd (lock_retry n want pg)"] by force

lemma busy_set_os: "(\<And>w. busy (f w) = busy w) \<Longrightarrow> busy (os (set_os pg f)) = busy (os pg)"
  by (simp add: set_os_def)

lemma busy_refresh: "busy (os (pager_refresh_if_modified pg)) = busy (os pg)"
proof (cases "in_transaction pg \<or> is_memory pg")
  case False
  obtain ic q where q: "refresh_fd pg = (ic, q)" by (rule prod.exhaust)
  obtain m z where z: "refresh_wal q = (m, z)" by (rule prod.exhaust)
  have "busy (os q) = busy (os pg)"
    using q by (auto simp: refresh_fd_def set_os_def split: option.splits)
  moreover have "os z = os q"
    using z by (auto simp: refresh_wal_def Let_def split: option.splits if_splits)
  ultimately show ?thesis
    unfolding pager_refresh_if_modified_def if_not_P [OF False] q by (simp add: z Let_def)
qed (simp add: pager_refresh_if_modified_def)

lemma busy_resize: "resize_pages pg n = Some p \<Longrightarrow> os p = os pg"
  by (auto simp: resize_pages_def Let_def split: if_splits)

lemma busy_get_page:
  assumes "get_page pg n = Some (r, p)"
  shows "busy (os p) = busy (os pg)"
proof -
  obtain ok q where q: "(if is_memory pg then (True, pg)
      else case lock_retry 50 SHARED_LOCK pg of (got_lock, pg) \<Rightarrow> (got_lock, pg\<lparr>lock_error := \<not> got_lock\<rparr>)) = (ok, q)"
    by (rule prod.exhaust)
  then have "busy (os q) = busy (os pg)"
    using busy_lock_retry [of 50 SHARED_LOCK pg] by (auto split: if_splits prod.splits)
  moreover have "busy (os p) = busy (os q)"
  proof (cases ok)
    case False
    with assms [unfolded get_page_def q] show ?thesis by simp
  next
    case True
    then obtain z where z: "resize_pages (pager_refresh_if_modified q) n = Some z"
      "os p = os (case pages z n of
          None \<Rightarrow> z\<lparr>disk_reads := disk_reads z + 1, pages := (pages z)(n := Some (load_page z n)),
                   num_pages := (if n \<ge> num_pages z then n + 1 else num_pages z)\<rparr>
        | Some _ \<Rightarrow> z\<lparr>cache_hits := cache_hits z + 1\<rparr>)"
      using assms [unfolded get_page_def q] by (auto simp: Let_def)
    then have "os p = os z" by (cases "pages z n") simp_all
    with busy_resize [OF z(1)] busy_refresh [of q] show ?thesis by simp
  qed
  ultimately show ?thesis by simp
qed

lemma busy_flush: "busy (os (pager_flush pg n)) = busy (os pg)"
  by (auto simp: pager_flush_def flush_wal_def flush_db_def open_wal_def prepare_wal_def wal_append_def
      set_os_def Let_def split: option.splits)

lemma busy_flush_cached: "busy (os (flush_cached pg)) = busy (os pg)"
proof -
  have "busy (os (fold (\<lambda>i pg. if pages pg i \<noteq> None then pager_flush pg i else pg) is pg)) = busy (os pg)" for "is"
    by (induction "is" arbitrary: pg) (auto simp: busy_flush)
  then show ?thesis by (simp add: flush_cached_def)
qed

lemma busy_ensure: "busy (os (snd (pager_ensure_write_lock pg))) = busy (os pg)"
proof -
  have a: "os (snd (acquire_node q)) = os q" for q
    by (auto simp: acquire_node_def split: option.split writer.split)
  have r: "busy (os (snd (reserve_lock q))) = busy (os q)" for q
  proof (cases "\<not> is_memory q \<and> lock_state (lock q) < RESERVED_LOCK")
    case True
    obtain ok z where z: "lock_retry 50 RESERVED_LOCK q = (ok, z)" by (rule prod.exhaust)
    then have "busy (os z) = busy (os q)" using busy_lock_retry [of 50 RESERVED_LOCK q] by simp
    then show ?thesis
      unfolding reserve_lock_def if_P [OF True] z
      by (simp add: release_node_def Let_def busy_flush_cached)
  qed (auto simp: reserve_lock_def)
  obtain ok1 q where q: "acquire_node pg = (ok1, q)" by (rule prod.exhaust)
  obtain ok2 z where z: "reserve_lock q = (ok2, z)" by (rule prod.exhaust)
  have "busy (os z) = busy (os pg)" "busy (os q) = busy (os pg)"
    using a [of pg] r [of q] q z by simp_all
  then show ?thesis
    by (simp add: pager_ensure_write_lock_def q z open_journal_def set_os_def Let_def)
qed

lemma busy_shadow_write:
  assumes "pager_shadow_page_write pg n = Some p"
  shows "busy (os p) = busy (os pg)"
proof -
  have ms: "busy (os q') = busy (os q)" if "make_shadow q n = Some q'" for q q'
  proof (cases "is_shadowed q n \<or> n < max_pages q \<and> pages q n \<noteq> None")
    case True
    with that show ?thesis by (auto simp: make_shadow_def split: if_splits)
  next
    case False
    then have "(if n < max_pages q then pages q n else None) = None" "\<not> is_shadowed q n" by auto
    with that obtain r z where "get_page q n = Some (r, z)" "os q' = os z"
      by (auto simp: make_shadow_def Let_def)
    then show ?thesis by (simp add: busy_get_page)
  qed
  have mg: "os (grow_shadow (mark_dirty q n) n) = os q" for q
    by (simp add: grow_shadow_def mark_dirty_def Let_def)
  obtain ok q where q: "pager_ensure_write_lock pg = (ok, q)" by (rule prod.exhaust)
  have "busy (os q) = busy (os pg)" using busy_ensure [of pg] q by simp
  then show ?thesis
    using assms ms [of "grow_shadow (mark_dirty q n) n" p] mg [of q]
    by (simp add: pager_shadow_page_write_def q split: if_splits)
qed

lemma busy_modify_page:
  assumes "modify_page pg n f = Some p"
  shows "busy (os p) = busy (os pg)"
proof -
  have jw: "busy (os (journal_write q bs)) = busy (os q)" for q bs
    by (auto simp: journal_write_def set_os_def split: fd.split)
  obtain q where q: "pager_journal_page pg n = Some q" "update_page q n f = Some p"
    using assms by (auto simp: modify_page_def)
  then have "busy (os q) = busy (os pg)"
    by (auto simp: pager_journal_page_def jw Let_def split: if_splits dest!: busy_shadow_write)
  moreover have "busy (os p) = busy (os q)"
  proof -
    have "os (store x r b) = os x" for x r b by (cases r) simp_all
    with q(2) show ?thesis by (auto simp: update_page_def dest!: busy_get_page)
  qed
  ultimately show ?thesis by simp
qed

lemma busy_run_writes: "run_writes ws pg = Some p \<Longrightarrow> busy (os p) = busy (os pg)"
  by (induction ws pg rule: run_writes.induct) (auto dest: busy_modify_page)

lemma lock_retry_alone: "busy (os pg) = (\<lambda>_ _. F_UNLCK) \<Longrightarrow> fst (lock_retry (Suc n) want pg)"
  using lock_attempt_alone [of want "lock pg"]
  by (auto simp: pager_lock_def split: prod.split)


section \<open>The guarantees\<close>

lemma read_page_tx:
  assumes "tx_inv T p" "n < MAX_PAGES"
  shows "\<exists>q. read_page p n = Some (view p n, q)"
proof -
  have core: "tx_core T p" using assms(1) by (simp add: tx_inv_def)
  obtain r q where "get_page p n = Some (Some r, q)" "deref q r = Some (view p n)"
    by (rule get_page_settled [of p n])
      (use tx_core_settled [OF core] tx_core_shadow [OF core] core assms(2) in \<open>simp_all add: tx_core_def\<close>)
  then show ?thesis by (simp add: read_page_def)
qed

text \<open>
  C4.  Isolation.  In rollback-journal mode, once the write lock is got, any sequence of page writes
  (journal the page, get it, change it) succeeds, the writing transaction reads its own writes, and
  the database file still has every page as it was when the transaction began.
\<close>

theorem transaction_isolated:
  assumes "tx_begun T pg" "fst (pager_ensure_write_lock pg)" "writes_ok ws" "ws \<noteq> []"
  shows "\<exists>p. run_writes ws pg = Some p \<and>
    (\<forall>n. n < MAX_PAGES \<longrightarrow> (\<exists>q. read_page p n = Some (apply_writes ws T n, q))) \<and>
    (\<forall>n. file_page (db (os p)) n = T n)"
proof -
  obtain p where p: "run_writes ws pg = Some p" "tx_inv T p" "view p = apply_writes ws T"
    using run_writes_begun [OF assms] by blast
  then have "\<forall>n. file_page (db (os p)) n = T n" by (simp add: tx_inv_def tx_core_def)
  moreover have "\<forall>n. n < MAX_PAGES \<longrightarrow> (\<exists>q. read_page p n = Some (apply_writes ws T n, q))"
    using read_page_tx [OF p(2)] by (simp add: p(3))
  ultimately show ?thesis using p(1) by blast
qed




subsection \<open>A concrete transaction\<close>

text \<open>A database of two zero pages, a transaction that has just begun, a write of page 1.\<close>

definition quiet_os :: os where
  "quiet_os = \<lparr>db = \<lparr>fdata = zero_buf, flen = 8192\<rparr>, journal = None, wal = None, replaced_db = None,
     busy = (\<lambda>_ _. F_UNLCK), tick = 0, wall_time = (\<lambda>_. 1000), node_yields = False, self_tid = 1,
     stdin_open = True, stdin_written = []\<rparr>"

definition begun_pager :: Pager where
  "begun_pager = (fresh_pager quiet_os)\<lparr>in_transaction := True, file_length := 8192, num_pages := 2,
     num_pages_at_tx_start := 2\<rparr>"

abbreviation set_byte_0 :: "buf \<Rightarrow> buf" where "set_byte_0 b \<equiv> b(0 := 7)"

lemma begun_pager_ok: "tx_begun (\<lambda>_. zero_buf) begun_pager"
proof -
  have fm: "file_mode begun_pager"
    by (simp add: file_mode_def begun_pager_def fresh_pager_def quiet_os_def file_ok_def zero_buf_def)
  have zero: "file_page (db (os begun_pager)) n = zero_buf" for n
    by (auto simp: begun_pager_def fresh_pager_def quiet_os_def file_page_byte file_ok_def zero_buf_def)
  have "base begun_pager n = zero_buf" for n
    using base_file [OF fm, of n] zero [of n] by (simp add: begun_pager_def fresh_pager_def)
  then show ?thesis
    using fm zero
    by (simp add: tx_begun_def fun_eq_iff)
      (simp add: begun_pager_def fresh_pager_def cache_ok_def fresh_proc_def lock_order shadowed_def)
qed

lemma begun_pager_lock: "fst (pager_ensure_write_lock begun_pager)"
proof -
  have "acquire_node begun_pager = (True, begun_pager\<lparr>lock_node := Some ThisPager\<rparr>)"
    by (simp add: acquire_node_def begun_pager_def fresh_pager_def)
  moreover have "fst (lock_retry 50 RESERVED_LOCK (begun_pager\<lparr>lock_node := Some ThisPager\<rparr>))"
    using lock_retry_alone [of _ 49] by (simp add: begun_pager_def fresh_pager_def quiet_os_def)
  ultimately show ?thesis
    by (auto simp: pager_ensure_write_lock_def reserve_lock_def Let_def split: prod.splits)
qed

lemma write_1_ok: "writes_ok [(1, set_byte_0)]"
  by (simp add: writes_ok_def page_ok_def)

lemma begun_pager_writes:
  obtains p where "run_writes [(1, set_byte_0)] begun_pager = Some p" "tx_inv (\<lambda>_. zero_buf) p"
    "fst (lock_retry 50 EXCLUSIVE_LOCK p)" "busy (os p) = (\<lambda>_ _. F_UNLCK)" "shadowed p 1"
proof -
  obtain p where p: "run_writes [(1, set_byte_0)] begun_pager = Some p" "tx_inv (\<lambda>_. zero_buf) p"
      "view p = apply_writes [(1, set_byte_0)] (\<lambda>_. zero_buf)"
    using run_writes_begun [OF begun_pager_ok begun_pager_lock write_1_ok] by auto
  have core: "tx_core (\<lambda>_. zero_buf) p" using p(2) by (simp add: tx_inv_def)
  have "view p 1 0 = 7" by (simp add: p(3))
  then have "shadowed p 1" using tx_view [OF core, of 1] by (auto simp: zero_buf_def split: if_splits)
  have "busy (os p) = (\<lambda>_ _. F_UNLCK)"
    using busy_run_writes [OF p(1)] by (simp add: begun_pager_def fresh_pager_def quiet_os_def)
  with p \<open>shadowed p 1\<close> lock_retry_alone [of p 49 EXCLUSIVE_LOCK] that show ?thesis by simp
qed

theorem transaction_isolated_witness:
  "\<exists>p q. run_writes [(1, set_byte_0)] begun_pager = Some p \<and>
    read_page p 1 = Some (zero_buf(0 := 7), q) \<and> file_page (db (os p)) 1 = zero_buf"
proof -
  obtain p where "run_writes [(1, set_byte_0)] begun_pager = Some p"
    and p: "\<forall>n. n < MAX_PAGES \<longrightarrow>
      (\<exists>q. read_page p n = Some (apply_writes [(1, set_byte_0)] (\<lambda>_. zero_buf) n, q))"
      "\<forall>n. file_page (db (os p)) n = zero_buf"
    using transaction_isolated [OF begun_pager_ok begun_pager_lock write_1_ok] by auto
  moreover obtain q where "read_page p 1 = Some (zero_buf(0 := 7), q)"
    using p(1) [rule_format, of 1] by auto
  ultimately show ?thesis by blast
qed





section \<open>Savepoints and the journal\<close>

text \<open>
  With a savepoint set, \<open>pager_journal_page\<close> journals a page again each time, with its content at
  that moment; the forward replay of recovery and of rollback then ends with that later image.
\<close>

lemma savepoint_state:
  assumes "tx_inv T pg"
  shows "\<exists>sp. pager_savepoint pg name = pg\<lparr>savepoints := [sp]\<rparr>"
    "tx_core T (pg\<lparr>savepoints := sps\<rparr>)" "view (pg\<lparr>savepoints := sps\<rparr>) = view pg"
proof -
  have core: "tx_core T pg" using assms by (simp add: tx_inv_def)
  obtain j where j: "journal (os pg) = Some j" "journal_fd pg = FdFile (flen j)"
    using core by (auto simp: tx_core_def journal_ok_def)
  have "pg\<lparr>journal_fd := FdFile (flen j), savepoints := sps\<rparr> = pg\<lparr>savepoints := sps\<rparr>" for sps
    using j(2) by (cases pg) simp
  then show "\<exists>sp. pager_savepoint pg name = pg\<lparr>savepoints := [sp]\<rparr>"
  proof -
    have "in_transaction pg" "savepoints pg = []" using assms core by (simp_all add: tx_inv_def tx_core_def)
    then show ?thesis
      using j by (auto simp: pager_savepoint_def seek_journal_end_def journal_len_def
          \<open>\<And>sps. pg\<lparr>journal_fd := FdFile (flen j), savepoints := sps\<rparr> = pg\<lparr>savepoints := sps\<rparr>\<close>)
  qed
  let ?p = "pg\<lparr>savepoints := sps\<rparr>"
  have "base ?p = base pg" by (rule base_cong) simp_all
  moreover have "is_journaled ?p n = is_journaled pg n" for n by (rule is_journaled_cong) simp_all
  ultimately show core': "tx_core T ?p"
    using core unfolding tx_core_def file_mode_def cache_ok_def journal_ok_def shadows_ok_def shadowed_def by simp
  have sh: "shadowed ?p n = shadowed pg n" for n by (simp add: shadowed_def)
  show "view ?p = view pg"
  proof
    show "view ?p n = view pg n" for n
      using tx_view [OF core', of n] tx_view [OF core, of n] sh [of n] by simp
  qed
qed

text \<open>The journal after writing a page again under a savepoint.\<close>

lemma rejournal:
  assumes "tx_core T pg" "savepoints pg \<noteq> []" "shadowed pg n" "n < MAX_PAGES"
    and "journal (os pg) = Some j"
  shows "\<exists>p j'. modify_page pg n f = Some p \<and> journal (os p) = Some j' \<and> journal_entries j' 0 = journal_entries j 0 @ [(n, page_bytes (view pg n))] \<and>
    db (os p) = db (os pg)"
proof -
  obtain q where q: "pager_shadow_page_write pg n = Some q" "shadow_step T pg n q"
    using shadow_page_write_ok [OF assms(1,4)] by blast
  note step = shadow_stepD [OF q(2)]
  have c: "file_mode q" "cache_ok q" "settled q" "in_transaction q"
    using step(1) tx_core_settled [OF step(1)] by (simp_all add: tx_core_def)
  have jfd: "journal_fd q = FdFile (flen j)" "JOURNAL_ENTRY dvd flen j"
    using step(1,9) assms(5) by (auto simp: tx_core_def journal_ok_def)
  have img: "journal_image q n = page_bytes (view pg n)"
    using tx_page_buf [OF step(1), of n] step(2,3) by (simp add: journal_image_def)
  define j' where "j' = fwrite j (flen j) (journal_entry n (page_bytes (view pg n)))"
  define r where "r = q\<lparr>os := (os q)\<lparr>journal := Some j'\<rparr>, journal_fd := FdFile (flen j + JOURNAL_ENTRY),
    page_is_journaled := map_option (\<lambda>f. f(n := True)) (page_is_journaled q)\<rparr>"
  have jp: "pager_journal_page pg n = Some r"
    using q(1) c(4) jfd(1) img step(6,8,9) assms(2,5)
    by (simp add: pager_journal_page_def journal_write_def set_os_def r_def j'_def journal_entry_def)
  have "settled r" "cache_ok r" using c by (simp_all add: r_def settled_def cache_ok_def)
  moreover have "file_mode r" by (rule file_mode_rest [OF c(1)]) (simp_all add: r_def)
  moreover have "shadow_pages r n \<noteq> None"
    using tx_core_shadow [OF step(1), of n] step(3) by (simp add: r_def)
  ultimately obtain x z where z: "get_page r n = Some (Some x, z)" "same_core r z" "deref z x = Some (view r n)"
    using get_page_settled [of r n] assms(4) by metis
  have "os (store z x b) = os z" for b by (cases x) simp_all
  then have "modify_page pg n f = Some (store z x (f (view r n)))" "os (store z x (f (view r n))) = os r"
    using z by (simp_all add: modify_page_def jp update_page_def same_core_def)
  moreover have "journal_entries j' 0 = journal_entries j 0 @ [(n, page_bytes (view pg n))]"
    using jfd(2) assms(4) journal_entries_append [of j 0 _ "page_bytes (view pg n)" n]
    by (auto simp: j'_def mult.commute elim!: dvdE)
  ultimately show ?thesis
    using step(9) by (intro exI [of _ "store z x (f (view r n))"] exI [of _ j']) (simp add: r_def)
qed

text \<open>
  A transaction writes a page, sets a savepoint and writes the page again; if it now dies, the
  recovery leaves in the page what it held \<^emph>\<open>at the savepoint\<close>, uncommitted, and not what it held
  when the transaction began.
\<close>

theorem savepoint_recovery:
  assumes "tx_begun T pg" "fst (pager_ensure_write_lock pg)" "writes_ok ws" "ws \<noteq> []"
    and "run_writes ws pg = Some p" "shadowed p n" "n < MAX_PAGES"
    and "modify_page (pager_savepoint p name) n f = Some q"
    and "\<forall>b. busy (os q) (tick (os q)) b = F_UNLCK"
  shows "file_page (db (check_and_recover_journal (os q))) n = apply_writes ws T n"
proof -
  have inv: "tx_inv T p" and vw: "view p = apply_writes ws T"
    using run_writes_begun [OF assms(1-4)] assms(5) by auto
  then have core: "tx_core T p" by (simp add: tx_inv_def)
  obtain sp where sp: "pager_savepoint p name = p\<lparr>savepoints := [sp]\<rparr>"
    using savepoint_state(1) [OF inv] by blast
  obtain j where j: "journal (os p) = Some j" "images_of T (journal_entries j 0)"
    using core by (auto simp: tx_core_def journal_ok_def)
  obtain j' where j': "journal (os q) = Some j'" "db (os q) = db (os p)"
      "journal_entries j' 0 = journal_entries j 0 @ [(n, page_bytes (view p n))]"
    using rejournal [OF savepoint_state(2) [OF inv, of "[sp]"], of n j f] assms(6-8) sp j(1)
    by (auto simp: savepoint_state(3) [OF inv] shadowed_def)
  have "flen j' > 0"
    using j'(3) by (cases "flen j' > 0") (simp_all add: journal_entries_end)
  then have "db (check_and_recover_journal (os q)) =
      replay (journal_entries j 0 @ [(n, page_bytes (view p n))]) (db (os p))"
    using assms(9) j' by (simp add: check_and_recover_journal_def is_byte_locked_def lock_file_byte_def)
  moreover have "file_ok (db (os p))" using core by (simp add: tx_core_def file_mode_def)
  ultimately show ?thesis
    using replay_last [of "db (os p)" "page_bytes (view p n)" n "[]" "journal_entries j 0"] j(2)
      tx_view_ok [OF core, of n]
    by (auto simp: images_of_def vw)
qed

theorem savepoint_recovery_witness:
  "\<exists>p q. run_writes [(1, set_byte_0)] begun_pager = Some p \<and>
    modify_page (pager_savepoint p [115]) 1 (\<lambda>b. b(0 := 9)) = Some q \<and>
    file_page (db (check_and_recover_journal (os q))) 1 = zero_buf(0 := 7)"
proof -
  obtain p where p: "run_writes [(1, set_byte_0)] begun_pager = Some p" "tx_inv (\<lambda>_. zero_buf) p"
      "busy (os p) = (\<lambda>_ _. F_UNLCK)" "shadowed p 1"
    by (rule begun_pager_writes)
  obtain sp where sp: "pager_savepoint p [115] = p\<lparr>savepoints := [sp]\<rparr>"
    using savepoint_state(1) [OF p(2)] by blast
  obtain j where "journal (os p) = Some j"
    using p(2) by (auto simp: tx_inv_def tx_core_def journal_ok_def)
  then obtain q where q: "modify_page (pager_savepoint p [115]) 1 (\<lambda>b. b(0 := 9)) = Some q"
    using rejournal [OF savepoint_state(2) [OF p(2), of "[sp]"], of 1] p(4) sp by (auto simp: shadowed_def)
  then have "busy (os q) = (\<lambda>_ _. F_UNLCK)"
    using busy_modify_page [OF q] p(3) by (simp add: sp)
  then show ?thesis
    using savepoint_recovery [OF begun_pager_ok begun_pager_lock write_1_ok _ p(1,4) _ q] p(1) q by auto
qed

end
