(* ===== verification/Wal_Readers.thy ===== *)
theory Wal_Readers
  imports Wal Rollback
begin

text \<open>
  The three readers of a write-ahead log agree: the backward scan of \<open>get_page\<close>, the checkpoint and
  restore all take for a page its newest frame with a correct checksum, and the database file where
  there is none; a flush in WAL mode appends the frame that becomes the newest one.
\<close>

section \<open>The newest frame of a page\<close>

fun newest_frame :: "os_file \<Rightarrow> nat \<Rightarrow> nat \<Rightarrow> nat \<Rightarrow> nat option" where
  "newest_frame w fs n 0 = None"
| "newest_frame w fs n (Suc f) =
     (if frame_pnum w fs f = n \<and> frame_valid w fs f then Some f else newest_frame w fs n f)"

definition frame_page :: "os_file \<Rightarrow> nat \<Rightarrow> nat \<Rightarrow> buf" where
  "frame_page w fs f = page_of (frame_data w fs f)"

text \<open>What a WAL of \<open>k\<close> frames over a database file makes of page \<open>n\<close>.\<close>

definition wal_page :: "os_file \<Rightarrow> nat \<Rightarrow> nat \<Rightarrow> os_file \<Rightarrow> nat \<Rightarrow> buf" where
  "wal_page w fs k f n = (case newest_frame w fs n k of Some i \<Rightarrow> frame_page w fs i | None \<Rightarrow> file_page f n)"

lemma newest_frame_Some:
  "newest_frame w fs n k = Some i \<Longrightarrow> i < k \<and> frame_pnum w fs i = n \<and> frame_valid w fs i"
  by (induction k) (auto split: if_splits)

lemma length_frame_data [simp]: "length (frame_data w fs f) = PAGE_SIZE"
  unfolding frame_data_def by (rule length_get_bytes)

lemma frame_page_ok [simp]: "page_ok (frame_page w fs f)"
  by (simp add: frame_page_def)

lemma page_bytes_of: "length bs = PAGE_SIZE \<Longrightarrow> page_bytes (page_of bs) = bs"
  unfolding page_of_def by (rule get_put_same) simp

lemma fwrite_page: "length bs = PAGE_SIZE \<Longrightarrow> fwrite f (n * PAGE_SIZE) bs = write_page f n (page_of bs)"
  by (simp add: write_page_def page_bytes_of)

text \<open>The backward scan, where no frame of the page is damaged.\<close>

lemma wal_scan_newest:
  assumes "\<forall>f < k. frame_pnum w fs f = n \<longrightarrow> frame_valid w fs f"
  shows "wal_scan w fs n k page =
    (case newest_frame w fs n k of Some f \<Rightarrow> (True, frame_page w fs f) | None \<Rightarrow> (False, page))"
  using assms by (induction k) (auto simp: frame_page_def Let_def)

lemma load_page_wal:
  assumes "use_wal pg" "wal_fd pg = FdFile p" "\<not> is_memory pg"
    and "file_ok (db (os pg))" "file_length pg = flen (db (os pg))" "flen (db (os pg)) < 2 ^ 32"
      "PAGE_SIZE dvd flen (db (os pg))"
    and "\<forall>f < open_frames pg. frame_pnum (wal_file pg) (eff_frame_size pg) f = n \<longrightarrow>
           frame_valid (wal_file pg) (eff_frame_size pg) f"
  shows "load_page pg n = wal_page (wal_file pg) (eff_frame_size pg) (open_frames pg) (db (os pg)) n"
proof -
  have scan: "wal_scan (wal_file pg) (eff_frame_size pg) n (open_frames pg) zero_buf =
      (case newest_frame (wal_file pg) (eff_frame_size pg) n (open_frames pg) of
         Some f \<Rightarrow> (True, frame_page (wal_file pg) (eff_frame_size pg) f) | None \<Rightarrow> (False, zero_buf))"
    by (rule wal_scan_newest) (rule assms(8))
  have frames: "open_frames pg = wal_num_frames (wal_file pg) (eff_frame_size pg)"
    by (simp add: open_frames_def assms(2))
  define q where "q = pg\<lparr>use_wal := False\<rparr>"
  have "load_page q n = file_page (db (os pg)) n"
    using load_page_file [of q n] assms(3-7) by (simp add: q_def file_mode_def)
  then have "(if n < file_length pg div PAGE_SIZE
        then put_bytes zero_buf 0 (fread (db (os pg)) (n * PAGE_SIZE mod 2 ^ 32) PAGE_SIZE) else zero_buf) =
      file_page (db (os pg)) n"
    using assms(3) by (auto simp: q_def load_page_def split: if_splits)
  then show ?thesis
    using assms(1-3) scan
    by (auto simp: load_page_def frames wal_page_def Let_def split: option.splits if_splits)
qed

section \<open>Checkpoint\<close>

lemma apply_frame_fields:
  "is_memory (apply_frame w fs f pg) = is_memory pg" "wal (os (apply_frame w fs f pg)) = wal (os pg)"
  by (simp_all add: apply_frame_def restore_db_def restore_cached_def set_os_def Let_def)

lemma apply_frame_db:
  "\<not> is_memory pg \<Longrightarrow> db (os (apply_frame w fs f pg)) =
     (if frame_valid w fs f then write_page (db (os pg)) (frame_pnum w fs f) (frame_page w fs f) else db (os pg))"
  by (simp add: apply_frame_def restore_db_def restore_cached_def set_os_def Let_def fwrite_page frame_page_def)

lemma apply_frames_db:
  assumes "\<not> is_memory pg" "file_ok (db (os pg))"
  shows "file_ok (db (os (fold (apply_frame w fs) [0..<k] pg)))"
    and "file_page (db (os (fold (apply_frame w fs) [0..<k] pg))) n = wal_page w fs k (db (os pg)) n"
proof -
  have mem: "is_memory (fold (apply_frame w fs) [0..<k] pg) = is_memory pg" for k
    by (induction k) (simp_all add: apply_frame_fields)
  have "file_ok (db (os (fold (apply_frame w fs) [0..<k] pg))) \<and>
      file_page (db (os (fold (apply_frame w fs) [0..<k] pg))) n = wal_page w fs k (db (os pg)) n" for k
    using assms by (induction k) (auto simp: apply_frame_db mem wal_page_def)
  then show "file_ok (db (os (fold (apply_frame w fs) [0..<k] pg)))"
    "file_page (db (os (fold (apply_frame w fs) [0..<k] pg))) n = wal_page w fs k (db (os pg)) n" by blast+
qed


lemma checkpoint_db:
  assumes "pager_checkpoint pg = Some q" "use_wal pg" "wal_fd pg = FdFile p" "\<not> is_memory pg" "file_ok (db (os pg))"
  shows "file_page (db (os q)) n =
      wal_page (wal_file pg) (eff_frame_size pg) (open_frames pg) (db (os pg)) n"
    and "0 < open_frames pg \<Longrightarrow> wal (os q) = Some (ftruncate (wal_file pg) 0)"
proof -
  obtain ok r where lr: "lock_retry 50 EXCLUSIVE_LOCK pg = (ok, r)" by (rule prod.exhaust)
  from lock_retry_fields [OF this] obtain l t where r: "r = pg\<lparr>lock := l, os := (os pg)\<lparr>tick := t\<rparr>\<rparr>" by blast
  have fd: "wal_fd pg \<noteq> FdNone" using assms(3) by simp
  have ok: ok
    using assms(1,2) fd lr by (cases ok) (simp_all add: pager_checkpoint_def)
  have same: "wal_file r = wal_file pg" "eff_frame_size r = eff_frame_size pg" "open_frames r = open_frames pg"
      "is_memory r = is_memory pg" "db (os r) = db (os pg)"
    by (simp_all add: r wal_file_def eff_frame_size_def open_frames_def split: fd.split)
  define c where "c = fold (apply_frame (wal_file pg) (eff_frame_size pg)) [0..<open_frames pg] r"
  have "db (os q) = (if open_frames pg > 0 then db (os c) else db (os pg))"
    "open_frames pg > 0 \<Longrightarrow> wal (os q) = Some (ftruncate (wal_file pg) 0)"
    using assms(1,2) fd lr ok same
    by (auto simp: pager_checkpoint_def c_def set_os_def Let_def)
  moreover have "file_page (db (os c)) n = wal_page (wal_file pg) (eff_frame_size pg) (open_frames pg) (db (os pg)) n"
    using apply_frames_db(2) [of r] assms(4,5) by (simp add: c_def same)
  ultimately show "file_page (db (os q)) n =
      wal_page (wal_file pg) (eff_frame_size pg) (open_frames pg) (db (os pg)) n"
    "0 < open_frames pg \<Longrightarrow> wal (os q) = Some (ftruncate (wal_file pg) 0)"
    by (auto simp: wal_page_def)
qed


section \<open>Restore\<close>

definition map_lookup :: "page_map \<Rightarrow> nat \<Rightarrow> nat option" where
  "map_lookup m n = map_of (m (n mod PAGE_MAP_BUCKETS)) n"

definition map_ok :: "page_map \<Rightarrow> bool" where
  "map_ok m \<longleftrightarrow> (\<forall>b. distinct (map fst (m b)) \<and> (\<forall>x \<in> set (m b). fst x mod PAGE_MAP_BUCKETS = b))"

lemma bucket_put_Some:
  "bucket_put ns p off = Some ns' \<Longrightarrow> map fst ns' = map fst ns \<and> map_of ns' = (map_of ns)(p \<mapsto> off)"
  by (induction ns arbitrary: ns') (auto split: if_splits)

lemma bucket_put_None: "bucket_put ns p off = None \<Longrightarrow> p \<notin> fst ` set ns"
  by (induction ns) (auto split: if_splits)

lemma map_lookup_put: "map_lookup (page_map_put m p off) n = (if n = p then Some off else map_lookup m n)"
  by (auto simp: map_lookup_def page_map_put_def Let_def dest: bucket_put_Some split: option.split)

lemma map_ok_put:
  assumes "map_ok m"
  shows "map_ok (page_map_put m p off)"
proof -
  let ?b = "p mod PAGE_MAP_BUCKETS"
  have "distinct (map fst ns) \<and> (\<forall>x \<in> set ns. fst x mod PAGE_MAP_BUCKETS = ?b)"
    if "ns = (case bucket_put (m ?b) p off of Some ns \<Rightarrow> ns | None \<Rightarrow> (p, off) # m ?b)" for ns
  proof (cases "bucket_put (m ?b) p off")
    case None
    with that assms bucket_put_None [OF None] show ?thesis by (auto simp: map_ok_def)
  next
    case (Some ns')
    then have "map fst ns = map fst (m ?b)" using that bucket_put_Some by simp
    moreover from this have "fst ` set ns = fst ` set (m ?b)" by (metis list.set_map)
    moreover have "\<forall>y \<in> fst ` set (m ?b). y mod PAGE_MAP_BUCKETS = ?b" using assms by (auto simp: map_ok_def)
    ultimately show ?thesis using assms by (metis imageI map_ok_def)
  qed
  then show ?thesis using assms by (auto simp: map_ok_def page_map_put_def Let_def)
qed

text \<open>How many frames the scan looks at: up to the first one past the limit.\<close>

definition limit_frames :: "restore_limit \<Rightarrow> os_file \<Rightarrow> nat \<Rightarrow> nat \<Rightarrow> nat" where
  "limit_frames l w fs k = length (takeWhile (\<lambda>f. \<not> past_limit l w fs f) [0..<k])"

definition payload_offset :: "nat \<Rightarrow> nat \<Rightarrow> nat" where
  "payload_offset fs f = wal_header fs + f * fs + frame_payload fs"

lemma restore_scan_takeWhile:
  "restore_scan l w fs frames m =
     fold (\<lambda>f m. if frame_valid w fs f then page_map_put m (frame_pnum w fs f) (payload_offset fs f) else m)
       (takeWhile (\<lambda>f. \<not> past_limit l w fs f) frames) m"
  by (induction frames arbitrary: m) (auto simp: payload_offset_def)

lemma takeWhile_upt: "takeWhile P [0..<k] = [0..<length (takeWhile P [0..<k])]"
proof -
  have "length (takeWhile P [0..<k]) \<le> k" using length_takeWhile_le [of P "[0..<k]"] by simp
  then have "take (length (takeWhile P [0..<k])) [0..<k] = [0..<length (takeWhile P [0..<k])]"
    by (simp only: take_upt add_0)
  with takeWhile_eq_take [of P "[0..<k]"] show ?thesis by (rule trans)
qed

lemma restore_map:
  defines "step \<equiv> \<lambda>w fs f m. if frame_valid w fs f then page_map_put m (frame_pnum w fs f) (payload_offset fs f) else m"
  shows "map_ok (fold (step w fs) [0..<k] (\<lambda>_. []))"
    "map_lookup (fold (step w fs) [0..<k] (\<lambda>_. [])) n = map_option (payload_offset fs) (newest_frame w fs n k)"
proof -
  have empty: "map_ok (\<lambda>_. [])" by (simp add: map_ok_def)
  then show "map_ok (fold (step w fs) [0..<k] (\<lambda>_. []))"
    by (induction k) (simp_all add: step_def map_ok_put)
  have "map_lookup (\<lambda>_. []) n = None" by (simp add: map_lookup_def)
  then show "map_lookup (fold (step w fs) [0..<k] (\<lambda>_. [])) n = map_option (payload_offset fs) (newest_frame w fs n k)"
    by (induction k) (simp_all add: step_def map_lookup_put)
qed

text \<open>Writing the page map over the copy of the database file.\<close>

lemma write_nodes:
  assumes "file_ok dest" "distinct (map fst ns)" "\<forall>x \<in> set ns. snd x + PAGE_SIZE \<le> flen w"
  shows "file_ok (fold (write_node w) ns dest) \<and> file_page (fold (write_node w) ns dest) n =
    (case map_of ns n of Some off \<Rightarrow> page_of (fread w off PAGE_SIZE) | None \<Rightarrow> file_page dest n)"
  using assms
proof (induction ns arbitrary: dest)
  case (Cons x ns)
  have len: "length (fread w (snd x) PAGE_SIZE) = PAGE_SIZE" using Cons.prems(3) by auto
  have w: "write_node w x dest = write_page dest (fst x) (page_of (fread w (snd x) PAGE_SIZE))"
    by (simp only: write_node_def Let_def len fwrite_page [OF len] if_True refl)
  have ok: "page_ok (page_of (fread w (snd x) PAGE_SIZE))" by (rule page_ok_page_of) (simp only: len)
  have "file_ok (write_node w x dest)" using Cons.prems(1) by (simp only: w file_ok_write_page)
  from Cons.IH [OF this] Cons.prems have IH: "file_ok (fold (write_node w) ns (write_node w x dest)) \<and>
      file_page (fold (write_node w) ns (write_node w x dest)) n =
        (case map_of ns n of Some off \<Rightarrow> page_of (fread w off PAGE_SIZE) | None \<Rightarrow> file_page (write_node w x dest) n)"
    by simp
  have "fst x \<notin> fst ` set ns" using Cons.prems(2) by simp
  then have "map_of ns (fst x) = None" by (simp add: map_of_eq_None_iff)
  with IH Cons.prems(1) ok show ?case
    by (cases "n = fst x") (auto simp: w split: option.split)
qed simp

lemma apply_page_map_page:
  assumes "file_ok dest" "map_ok m" "\<forall>b. \<forall>x \<in> set (m b). snd x + PAGE_SIZE \<le> flen w"
  shows "file_page (apply_page_map w m dest) n =
    (case map_lookup m n of Some off \<Rightarrow> page_of (fread w off PAGE_SIZE) | None \<Rightarrow> file_page dest n)"
proof -
  have "file_ok (fold (\<lambda>b dest. fold (write_node w) (m b) dest) [0..<k] dest) \<and>
      file_page (fold (\<lambda>b dest. fold (write_node w) (m b) dest) [0..<k] dest) n =
        (if n mod PAGE_MAP_BUCKETS < k
         then (case map_lookup m n of Some off \<Rightarrow> page_of (fread w off PAGE_SIZE) | None \<Rightarrow> file_page dest n)
         else file_page dest n)" for k
  proof (induction k)
    case (Suc k)
    let ?d = "fold (\<lambda>b dest. fold (write_node w) (m b) dest) [0..<k] dest"
    have ns: "file_ok (fold (write_node w) (m k) ?d) \<and> file_page (fold (write_node w) (m k) ?d) n =
        (case map_of (m k) n of Some off \<Rightarrow> page_of (fread w off PAGE_SIZE) | None \<Rightarrow> file_page ?d n)"
      using Suc assms(2,3) by (intro write_nodes) (simp_all add: map_ok_def)
    have "map_of (m k) n = None" if "n mod PAGE_MAP_BUCKETS \<noteq> k"
      using assms(2) that by (force simp: map_ok_def map_of_eq_None_iff)
    with ns Suc show ?case
      by (cases "n mod PAGE_MAP_BUCKETS = k") (auto simp: map_lookup_def split: option.split)
  qed (use assms(1) in simp)
  then show ?thesis by (simp add: apply_page_map_def)
qed


lemma copy_pages_page:
  shows "file_ok (copy_pages src)"
    and "file_page (copy_pages src) n = (if n < flen src div PAGE_SIZE then file_page src n else zero_buf)"
proof -
  have empty: "file_ok empty_file" "file_page empty_file n = zero_buf"
    by (simp_all add: file_ok_def empty_file_def zero_buf_def file_page_def fread_def)
  let ?c = "\<lambda>k. fold (\<lambda>p dest. fwrite dest (p * PAGE_SIZE) (fread src (p * PAGE_SIZE) PAGE_SIZE)) [0..<k] empty_file"
  have step: "fwrite d (k * PAGE_SIZE) (fread src (k * PAGE_SIZE) PAGE_SIZE) = write_page d k (file_page src k)"
    if "k < flen src div PAGE_SIZE" for k d
  proof -
    have "(k + 1) * PAGE_SIZE \<le> flen src div PAGE_SIZE * PAGE_SIZE" using that by (intro mult_le_mono1) simp
    also have "\<dots> \<le> flen src" by simp
    finally have "length (fread src (k * PAGE_SIZE) PAGE_SIZE) = PAGE_SIZE" by simp
    then show ?thesis by (simp only: fwrite_page file_page_def)
  qed
  have "k \<le> flen src div PAGE_SIZE \<Longrightarrow> file_ok (?c k) \<and>
      file_page (?c k) n = (if n < k then file_page src n else zero_buf)" for k
    using empty by (induction k) (auto simp: step less_Suc_eq)
  then show "file_ok (copy_pages src)"
    "file_page (copy_pages src) n = (if n < flen src div PAGE_SIZE then file_page src n else zero_buf)"
    by (simp_all add: copy_pages_def)
qed

lemma frame_inside:
  assumes "f < wal_num_frames w fs" "fs = WAL_FRAME_SIZE_V1 \<or> fs = WAL_FRAME_SIZE_V2"
  shows "payload_offset fs f + PAGE_SIZE \<le> flen w"
proof -
  have "(f + 1) * fs \<le> (flen w - wal_header fs) div fs * fs"
    using assms(1) by (intro mult_le_mono1) (simp add: wal_num_frames_def split: if_splits)
  also have "\<dots> \<le> flen w - wal_header fs" by simp
  finally have "f * fs + fs + wal_header fs \<le> flen w"
    using assms(1) by (auto simp: wal_num_frames_def split: if_splits)
  then show ?thesis using assms(2) by (auto simp: payload_offset_def frame_payload_def wal_header_def)
qed

lemma fread_inside: "off + n \<le> flen w \<Longrightarrow> fread w off n = get_bytes (fdata w) off n"
  by (auto simp: fread_def min_def)

lemma map_ok_offsets:
  assumes "\<And>n off. map_lookup m n = Some off \<Longrightarrow> P off" "map_ok m" "x \<in> set (m b)"
  shows "P (snd x)"
proof -
  have "map_lookup m (fst x) = Some (snd x)"
  proof -
    have "fst x mod PAGE_MAP_BUCKETS = b" "distinct (map fst (m b))" using assms(2,3) by (auto simp: map_ok_def)
    moreover have "map_of (m b) (fst x) = Some (snd x)"
      by (rule map_of_is_SomeI) (use assms(3) \<open>distinct (map fst (m b))\<close> in simp_all)
    ultimately show ?thesis by (simp add: map_lookup_def)
  qed
  then show ?thesis by (rule assms(1))
qed

text \<open>
  C27.  Point-in-time restore.  From a backup with a log, each page of the restored database is the
  newest undamaged frame of that page among the frames before the first one past the limit, and the
  page of the backed-up database file where there is no such frame.
\<close>

theorem restore_point_in_time:
  assumes "pager_restore src (Some w) exists_already l = Some r" "wal_magic_ok w" "flen w \<ge> 4"
  shows "file_page r n =
    (case newest_frame w WAL_FRAME_SIZE_V2 n
            (limit_frames l w WAL_FRAME_SIZE_V2 (wal_num_frames w WAL_FRAME_SIZE_V2)) of
       Some f \<Rightarrow> frame_page w WAL_FRAME_SIZE_V2 f
     | None \<Rightarrow> if n < flen src div PAGE_SIZE then file_page src n else zero_buf)"
proof -
  let ?fs = "WAL_FRAME_SIZE_V2"
  define k where "k = limit_frames l w ?fs (wal_num_frames w ?fs)"
  have kle: "k \<le> wal_num_frames w ?fs"
    using length_takeWhile_le [of "\<lambda>f. \<not> past_limit l w ?fs f" "[0..<wal_num_frames w ?fs]"]
    by (simp add: k_def limit_frames_def)
  define m where "m = fold (\<lambda>f m. if frame_valid w ?fs f then page_map_put m (frame_pnum w ?fs f) (payload_offset ?fs f)
      else m) [0..<k] (\<lambda>_. [])"
  have scan: "restore_scan l w ?fs [0..<wal_num_frames w ?fs] (\<lambda>_. []) = m"
    unfolding restore_scan_takeWhile m_def k_def limit_frames_def
    by (subst takeWhile_upt) (rule refl)
  have r: "r = apply_page_map w m (copy_pages src)"
    using assms by (simp add: pager_restore_def scan Let_def split: if_splits)
  have mok: "map_ok m" and look: "\<And>n. map_lookup m n = map_option (payload_offset ?fs) (newest_frame w ?fs n k)"
    unfolding m_def by (rule restore_map)+
  have inside: "payload_offset ?fs f + PAGE_SIZE \<le> flen w" if "newest_frame w ?fs n' k = Some f" for n' f
    using newest_frame_Some [OF that] kle by (intro frame_inside) auto
  have "snd x + PAGE_SIZE \<le> flen w" if "x \<in> set (m b)" for x b
    using map_ok_offsets [of m "\<lambda>off. off + PAGE_SIZE \<le> flen w", OF _ mok that] inside
    by (auto simp: look)
  then have "file_page r n = (case map_lookup m n of Some off \<Rightarrow> page_of (fread w off PAGE_SIZE)
      | None \<Rightarrow> file_page (copy_pages src) n)"
    unfolding r by (intro apply_page_map_page copy_pages_page(1) mok) blast
  then show ?thesis
    using inside [of n]
    by (auto simp: look copy_pages_page(2) k_def [symmetric] fread_inside frame_page_def frame_data_def
        payload_offset_def split: option.split)
qed


section \<open>Appending a frame\<close>

lemma frame_fields_append:
  fixes ts lsn :: "64 word"
  assumes "flen w = 4 + k * WAL_FRAME_SIZE_V2" "length data = PAGE_SIZE" "n < 2 ^ 32"
  defines "w' \<equiv> fwrite w (flen w) (wal_frame WAL_FRAME_SIZE_V2 n ts lsn data)"
  shows "frame_pnum w' WAL_FRAME_SIZE_V2 k = n" "frame_valid w' WAL_FRAME_SIZE_V2 k"
    "frame_data w' WAL_FRAME_SIZE_V2 k = data" "flen w' = 4 + (k + 1) * WAL_FRAME_SIZE_V2"
    "frame_lsn w' WAL_FRAME_SIZE_V2 k = unat lsn"
proof -
  let ?bs = "wal_frame WAL_FRAME_SIZE_V2 n ts lsn data"
  have len: "length ?bs = 4120" using assms(2) by (simp add: wal_frame_def)
  have off: "wal_header WAL_FRAME_SIZE_V2 + k * WAL_FRAME_SIZE_V2 = flen w"
    using assms(1) by (simp add: wal_header_def)
  have sub: "get_bytes (fdata w') (flen w + i) m = take m (drop i ?bs)" if "i + m \<le> 4120" for i m
    using that len get_put_sub [of "flen w" "flen w + i" m ?bs "fdata w"] by (simp add: w'_def fwrite_def)
  show "frame_pnum w' WAL_FRAME_SIZE_V2 k = n"
    using sub [of 0 4] assms(3) unfolding frame_pnum_def off rd_def by (simp add: wal_frame_def)
  show "frame_lsn w' WAL_FRAME_SIZE_V2 k = unat lsn"
    using sub [of 16 8] unfolding frame_lsn_def off rd_def by (simp add: wal_frame_def)
  have crc: "frame_crc w' WAL_FRAME_SIZE_V2 k = unat (calculate_crc32 data)"
    using sub [of 4 4] unfolding frame_crc_def off rd_def by (simp add: wal_frame_def)
  show dat: "frame_data w' WAL_FRAME_SIZE_V2 k = data"
    using sub [of 24 4096] assms(2) unfolding frame_data_def off
    by (simp add: wal_frame_def frame_payload_def)
  show "frame_valid w' WAL_FRAME_SIZE_V2 k" by (simp add: frame_valid_def dat crc)
  show "flen w' = 4 + (k + 1) * WAL_FRAME_SIZE_V2" using assms(1) len by (simp add: w'_def fwrite_def)
qed

lemma frame_fields_before:
  fixes bs :: "byte list"
  assumes "flen w = 4 + k * WAL_FRAME_SIZE_V2" "f < k"
  defines "w' \<equiv> fwrite w (flen w) bs"
  shows "frame_pnum w' WAL_FRAME_SIZE_V2 f = frame_pnum w WAL_FRAME_SIZE_V2 f"
    "frame_valid w' WAL_FRAME_SIZE_V2 f = frame_valid w WAL_FRAME_SIZE_V2 f"
    "frame_data w' WAL_FRAME_SIZE_V2 f = frame_data w WAL_FRAME_SIZE_V2 f"
proof -
  have "(f + 1) * WAL_FRAME_SIZE_V2 \<le> k * WAL_FRAME_SIZE_V2" using assms(2) by (intro mult_le_mono1) simp
  then have off: "wal_header WAL_FRAME_SIZE_V2 + f * WAL_FRAME_SIZE_V2 + WAL_FRAME_SIZE_V2 \<le> flen w"
    using assms(1) by (simp add: wal_header_def)
  then show "frame_pnum w' WAL_FRAME_SIZE_V2 f = frame_pnum w WAL_FRAME_SIZE_V2 f"
    by (simp add: frame_pnum_def w'_def fwrite_def rd_put_disjoint)
  have crc: "frame_crc w' WAL_FRAME_SIZE_V2 f = frame_crc w WAL_FRAME_SIZE_V2 f"
    using off by (simp add: frame_crc_def w'_def fwrite_def rd_put_disjoint)
  show dat: "frame_data w' WAL_FRAME_SIZE_V2 f = frame_data w WAL_FRAME_SIZE_V2 f"
    using off by (simp add: frame_data_def frame_payload_def w'_def fwrite_def get_put_disjoint)
  show "frame_valid w' WAL_FRAME_SIZE_V2 f = frame_valid w WAL_FRAME_SIZE_V2 f"
    by (simp add: frame_valid_def crc dat)
qed

lemma newest_frame_cong:
  "(\<And>f. f < k \<Longrightarrow> frame_pnum w' fs f = frame_pnum w fs f \<and> frame_valid w' fs f = frame_valid w fs f) \<Longrightarrow>
     newest_frame w' fs n k = newest_frame w fs n k"
  by (induction k) simp_all

lemma wal_page_append:
  fixes ts lsn :: "64 word"
  assumes "flen w = 4 + k * WAL_FRAME_SIZE_V2" "page_ok b" "n < 2 ^ 32"
  defines "w' \<equiv> fwrite w (flen w) (wal_frame WAL_FRAME_SIZE_V2 n ts lsn (page_bytes b))"
  shows "wal_page w' WAL_FRAME_SIZE_V2 (k + 1) f m = (if m = n then b else wal_page w WAL_FRAME_SIZE_V2 k f m)"
proof -
  note new = frame_fields_append [OF assms(1) _ assms(3), of "page_bytes b" ts lsn, folded w'_def]
  note old = frame_fields_before [OF assms(1), of _ "wal_frame WAL_FRAME_SIZE_V2 n ts lsn (page_bytes b)", folded w'_def]
  have "newest_frame w' WAL_FRAME_SIZE_V2 m k = newest_frame w WAL_FRAME_SIZE_V2 m k"
    by (rule newest_frame_cong) (simp add: old)
  then show ?thesis
    using new assms(2) newest_frame_Some [of w WAL_FRAME_SIZE_V2 m k]
    by (auto simp: wal_page_def frame_page_def old split: option.split)
qed

text \<open>
  C26.  In WAL mode, flushing a page appends one frame with a correct checksum: afterwards every
  reader of the log finds that content for the page, every other page reads as before, and the
  database file has not been touched.
\<close>

theorem wal_flush_appends:
  assumes "\<not> is_memory pg" "use_wal pg" "wal_fd pg = FdFile p" "wal_frame_size pg = WAL_FRAME_SIZE_V2"
    and "wal (os pg) = Some w" "flen w = 4 + k * WAL_FRAME_SIZE_V2"
    and "page_buf pg n = Some b" "page_ok b" "n < 2 ^ 32"
  shows "\<exists>w'. wal (os (pager_flush pg n)) = Some w' \<and> flen w' = 4 + (k + 1) * WAL_FRAME_SIZE_V2 \<and>
    (\<forall>m. wal_page w' WAL_FRAME_SIZE_V2 (k + 1) (db (os pg)) m =
       (if m = n then b else wal_page w WAL_FRAME_SIZE_V2 k (db (os pg)) m)) \<and>
    db (os (pager_flush pg n)) = db (os pg)"
proof -
  have "wal_file pg = w" using assms(5) by (simp add: wal_file_def)
  then have prep: "prepare_wal pg = pg" using assms(4,6) by (simp add: prepare_wal_def)
  obtain ts lsn where "wal (os (flush_wal pg n b)) =
      Some (fwrite w (flen w) (wal_frame WAL_FRAME_SIZE_V2 n ts lsn (page_bytes b)))"
      "db (os (flush_wal pg n b)) = db (os pg)"
    using assms(4,5)
    by (cases "current_commit_lsn pg = 0") (auto simp: flush_wal_def prep wal_append_def set_os_def Let_def)
  moreover have "pager_flush pg n = flush_wal pg n b"
    using assms(1-3,7) by (simp add: pager_flush_def open_wal_def)
  ultimately show ?thesis
    using wal_page_append [OF assms(6,8,9), of ts lsn] frame_fields_append(4) [OF assms(6) _ assms(9)]
    by (intro exI [of _ "fwrite w (flen w) (wal_frame WAL_FRAME_SIZE_V2 n ts lsn (page_bytes b))"]) simp
qed


subsection \<open>A concrete log\<close>

text \<open>A log of one frame, page 1 with LSN 5, over a database of two zero pages.\<close>

abbreviation page_seven :: buf where "page_seven \<equiv> zero_buf(0 := 7)"

definition empty_log :: os_file where
  "empty_log = fwrite empty_file 0 (le_bytes 4 WAL_MAGIC)"

definition one_frame_log :: os_file where
  "one_frame_log = fwrite empty_log (flen empty_log) (wal_frame WAL_FRAME_SIZE_V2 1 0 5 (page_bytes page_seven))"

definition wal_pager :: "os_file \<Rightarrow> Pager" where
  "wal_pager w = (fresh_pager (quiet_os\<lparr>wal := Some w\<rparr>))\<lparr>use_wal := True, wal_fd := FdFile 0, file_length := 8192,
     num_pages := 2, pages := (\<lambda>_. None)(1 := Some page_seven)\<rparr>"

lemma wal_pager_fields [simp]:
  "is_memory (wal_pager w) = False" "use_wal (wal_pager w)" "wal_fd (wal_pager w) = FdFile 0"
  "wal_frame_size (wal_pager w) = WAL_FRAME_SIZE_V2" "wal (os (wal_pager w)) = Some w" "wal_file (wal_pager w) = w"
  "db (os (wal_pager w)) = \<lparr>fdata = zero_buf, flen = 8192\<rparr>" "file_length (wal_pager w) = 8192"
  "eff_frame_size (wal_pager w) = WAL_FRAME_SIZE_V2" "busy (os (wal_pager w)) = (\<lambda>_ _. F_UNLCK)"
  by (simp_all add: wal_pager_def fresh_pager_def quiet_os_def wal_file_def eff_frame_size_def)

lemma zero_db_ok: "file_ok \<lparr>fdata = zero_buf, flen = n\<rparr>"
  by (simp add: file_ok_def zero_buf_def)

lemma page_seven_ok: "page_ok page_seven"
  by (simp add: page_ok_def zero_buf_def)

lemma empty_log_len: "flen empty_log = 4 + 0 * WAL_FRAME_SIZE_V2"
  by (simp add: empty_log_def fwrite_def empty_file_def)

lemma one_frame_log_fields:
  "frame_pnum one_frame_log WAL_FRAME_SIZE_V2 0 = 1" "frame_valid one_frame_log WAL_FRAME_SIZE_V2 0"
  "frame_data one_frame_log WAL_FRAME_SIZE_V2 0 = page_bytes page_seven" "flen one_frame_log = 4124"
  "frame_lsn one_frame_log WAL_FRAME_SIZE_V2 0 = 5" "wal_num_frames one_frame_log WAL_FRAME_SIZE_V2 = 1"
  using frame_fields_append [OF empty_log_len, of "page_bytes page_seven" 1 0 5]
  by (simp_all add: one_frame_log_def wal_num_frames_def wal_header_def)

lemma one_frame_log_page: "wal_page one_frame_log WAL_FRAME_SIZE_V2 1 f 1 = page_seven"
  using wal_page_append [OF empty_log_len page_seven_ok, of 1 0 5 f 1] by (simp add: one_frame_log_def)

lemma one_frame_log_magic: "wal_magic_ok one_frame_log"
  by (simp add: wal_magic_ok_def one_frame_log_def empty_log_def fwrite_def empty_file_def rd_put_disjoint)
    (simp add: rd_def page_of_def del: overlay_zero)


theorem restore_point_in_time_witness:
  "\<exists>r. pager_restore \<lparr>fdata = zero_buf, flen = 8192\<rparr> (Some one_frame_log) False
      \<lparr>until_ts = 0, use_ts = False, until_lsn = 5, use_lsn = True\<rparr> = Some r \<and>
    file_page r 1 = page_seven"
proof -
  let ?l = "\<lparr>until_ts = 0, use_ts = False, until_lsn = 5, use_lsn = True\<rparr>"
  have lim: "limit_frames ?l one_frame_log WAL_FRAME_SIZE_V2 (Suc 0) = Suc 0"
    by (simp add: limit_frames_def past_limit_def one_frame_log_fields)
  obtain r where r: "pager_restore \<lparr>fdata = zero_buf, flen = 8192\<rparr> (Some one_frame_log) False ?l = Some r"
    using one_frame_log_magic by (simp add: pager_restore_def one_frame_log_fields Let_def)
  have "newest_frame one_frame_log WAL_FRAME_SIZE_V2 1 1 = Some 0"
    by (simp add: one_frame_log_fields)
  then show ?thesis
    using restore_point_in_time [OF r one_frame_log_magic, of 1] r page_seven_ok
    by (simp add: one_frame_log_fields lim frame_page_def)
qed

theorem wal_flush_appends_witness:
  "\<exists>w'. wal (os (pager_flush (wal_pager empty_log) 1)) = Some w' \<and>
    wal_page w' WAL_FRAME_SIZE_V2 1 \<lparr>fdata = zero_buf, flen = 8192\<rparr> 1 = page_seven"
proof -
  have "page_buf (wal_pager empty_log) 1 = Some page_seven"
    by (simp add: page_buf_def shadowed_def wal_pager_def fresh_pager_def)
  then show ?thesis
    using wal_flush_appends [of "wal_pager empty_log" 0 empty_log 0 1 page_seven]
    by (auto simp: empty_log_len page_seven_ok)
qed

end
