(* ===== verification/Btree_Page.thy ===== *)
theory Btree_Page
  imports Record_Format Files
begin

text \<open>
  The pages of a B+ tree (\<open>src/btree.c\<close>) as single 4096-byte objects: the accessors of the node
  header, the slot array and cells of a leaf, the cells of an internal node, and the operations that
  touch one page only.  \<open>cells\<close> reads a leaf as the list of its cells; the lemmas say what each
  operation does to that list, and \<open>leaf_ok\<close> is the well-formedness they keep.

  A pointer into a page is its offset.  Offsets past the page are outside the C object; that no
  operation uses one on a well-formed page is part of what is proved (\<open>page_ok\<close> is kept).
\<close>

section \<open>Node header\<close>

abbreviation (input) NODE_TYPE_OFFSET :: nat where "NODE_TYPE_OFFSET \<equiv> 0"
abbreviation (input) IS_ROOT_OFFSET :: nat where "IS_ROOT_OFFSET \<equiv> 1"
abbreviation (input) PARENT_POINTER_OFFSET :: nat where "PARENT_POINTER_OFFSET \<equiv> 4"
abbreviation (input) LEAF_NODE_NUM_CELLS_OFFSET :: nat where "LEAF_NODE_NUM_CELLS_OFFSET \<equiv> 8"
abbreviation (input) LEAF_NODE_NEXT_LEAF_OFFSET :: nat where "LEAF_NODE_NEXT_LEAF_OFFSET \<equiv> 12"
abbreviation (input) LEAF_NODE_FREE_SPACE_OFFSET :: nat where "LEAF_NODE_FREE_SPACE_OFFSET \<equiv> 16"
abbreviation (input) LEAF_NODE_HEADER_SIZE :: nat where "LEAF_NODE_HEADER_SIZE \<equiv> 20"
abbreviation (input) PAGE_SLOT_SIZE :: nat where "PAGE_SLOT_SIZE \<equiv> 4"
abbreviation (input) INTERNAL_NODE_NUM_KEYS_OFFSET :: nat where "INTERNAL_NODE_NUM_KEYS_OFFSET \<equiv> 8"
abbreviation (input) INTERNAL_NODE_RIGHT_CHILD_OFFSET :: nat where "INTERNAL_NODE_RIGHT_CHILD_OFFSET \<equiv> 12"
abbreviation (input) INTERNAL_NODE_HEADER_SIZE :: nat where "INTERNAL_NODE_HEADER_SIZE \<equiv> 16"
abbreviation (input) INTERNAL_NODE_CELL_SIZE :: nat where "INTERNAL_NODE_CELL_SIZE \<equiv> 36"
abbreviation (input) INTERNAL_NODE_CHILD_SIZE :: nat where "INTERNAL_NODE_CHILD_SIZE \<equiv> 4"
abbreviation (input) INTERNAL_NODE_MAX_KEYS :: nat where "INTERNAL_NODE_MAX_KEYS \<equiv> 32"
abbreviation (input) INTERNAL_NODE_MIN_KEYS :: nat where "INTERNAL_NODE_MIN_KEYS \<equiv> 16"
abbreviation (input) LEAF_NODE_MIN_CELLS :: nat where "LEAF_NODE_MIN_CELLS \<equiv> 2"

text \<open>The byte cast to the enum; values other than 0 and 1 match no case of a \<open>switch\<close>.\<close>

datatype NodeType = NODE_INTERNAL | NODE_LEAF | BAD_NODE byte

definition get_node_type :: "buf \<Rightarrow> NodeType" where
  "get_node_type node = (let b = node NODE_TYPE_OFFSET
     in if b = 0 then NODE_INTERNAL else if b = 1 then NODE_LEAF else BAD_NODE b)"

definition set_node_type :: "buf \<Rightarrow> NodeType \<Rightarrow> buf" where
  "set_node_type node t =
     node(NODE_TYPE_OFFSET := (case t of NODE_INTERNAL \<Rightarrow> 0 | NODE_LEAF \<Rightarrow> 1 | BAD_NODE b \<Rightarrow> b))"

definition is_node_root :: "buf \<Rightarrow> bool" where
  "is_node_root node \<longleftrightarrow> node IS_ROOT_OFFSET \<noteq> 0"

definition set_node_root :: "buf \<Rightarrow> bool \<Rightarrow> buf" where
  "set_node_root node v = node(IS_ROOT_OFFSET := (if v then 1 else 0))"

definition node_parent :: "buf \<Rightarrow> nat" where
  "node_parent node = rd 4 node PARENT_POINTER_OFFSET"
definition set_node_parent :: "nat \<Rightarrow> buf \<Rightarrow> buf" where
  "set_node_parent p node = wr 4 node PARENT_POINTER_OFFSET p"

section \<open>Leaf accessors\<close>

definition leaf_node_num_cells :: "buf \<Rightarrow> nat" where
  "leaf_node_num_cells node = rd 4 node LEAF_NODE_NUM_CELLS_OFFSET"
definition set_num_cells :: "nat \<Rightarrow> buf \<Rightarrow> buf" where
  "set_num_cells n node = wr 4 node LEAF_NODE_NUM_CELLS_OFFSET n"
definition leaf_node_next_leaf :: "buf \<Rightarrow> nat" where
  "leaf_node_next_leaf node = rd 4 node LEAF_NODE_NEXT_LEAF_OFFSET"
definition set_next_leaf :: "nat \<Rightarrow> buf \<Rightarrow> buf" where
  "set_next_leaf n node = wr 4 node LEAF_NODE_NEXT_LEAF_OFFSET n"
definition leaf_node_free_space :: "buf \<Rightarrow> nat" where
  "leaf_node_free_space node = rd 2 node LEAF_NODE_FREE_SPACE_OFFSET"
definition set_free_space :: "nat \<Rightarrow> buf \<Rightarrow> buf" where
  "set_free_space n node = wr 2 node LEAF_NODE_FREE_SPACE_OFFSET n"

text \<open>A slot is the pair of its offset and size.\<close>

definition leaf_node_slot :: "nat \<Rightarrow> nat" where
  "leaf_node_slot i = LEAF_NODE_HEADER_SIZE + i * PAGE_SLOT_SIZE"
definition slot_offset :: "buf \<Rightarrow> nat \<Rightarrow> nat" where
  "slot_offset node i = rd 2 node (leaf_node_slot i)"
definition slot_size :: "buf \<Rightarrow> nat \<Rightarrow> nat" where
  "slot_size node i = rd 2 node (leaf_node_slot i + 2)"
definition set_slot :: "nat \<Rightarrow> nat \<Rightarrow> nat \<Rightarrow> buf \<Rightarrow> buf" where
  "set_slot i off sz node = wr 2 (wr 2 node (leaf_node_slot i) off) (leaf_node_slot i + 2) sz"
definition copy_slot :: "nat \<Rightarrow> nat \<Rightarrow> buf \<Rightarrow> buf" where
  "copy_slot i j node = put_bytes node (leaf_node_slot i) (get_bytes node (leaf_node_slot j) PAGE_SLOT_SIZE)"

definition leaf_node_value :: "buf \<Rightarrow> nat \<Rightarrow> nat" where
  "leaf_node_value node i = slot_offset node i"
definition leaf_cell :: "buf \<Rightarrow> nat \<Rightarrow> byte list" where
  "leaf_cell node i = get_bytes node (leaf_node_value node i) (slot_size node i)"

section \<open>Internal accessors\<close>

definition internal_node_num_keys :: "buf \<Rightarrow> nat" where
  "internal_node_num_keys node = rd 4 node INTERNAL_NODE_NUM_KEYS_OFFSET"
definition set_num_keys :: "nat \<Rightarrow> buf \<Rightarrow> buf" where
  "set_num_keys n node = wr 4 node INTERNAL_NODE_NUM_KEYS_OFFSET n"
definition internal_node_right_child :: "buf \<Rightarrow> nat" where
  "internal_node_right_child node = rd 4 node INTERNAL_NODE_RIGHT_CHILD_OFFSET"
definition set_right_child :: "nat \<Rightarrow> buf \<Rightarrow> buf" where
  "set_right_child p node = wr 4 node INTERNAL_NODE_RIGHT_CHILD_OFFSET p"

definition internal_node_cell :: "nat \<Rightarrow> nat" where
  "internal_node_cell i = INTERNAL_NODE_HEADER_SIZE + i * INTERNAL_NODE_CELL_SIZE"

text \<open>The pointer \<open>internal_node_child(node, i)\<close>; an index past \<open>num_keys\<close> ends the process.\<close>

definition internal_node_child :: "buf \<Rightarrow> nat \<Rightarrow> nat option" where
  "internal_node_child node i =
     (let n = internal_node_num_keys node
      in if i > n then None
         else if i = n then Some INTERNAL_NODE_RIGHT_CHILD_OFFSET else Some (internal_node_cell i))"

definition child_page :: "buf \<Rightarrow> nat \<Rightarrow> nat option" where
  "child_page node i = map_option (rd 4 node) (internal_node_child node i)"
definition set_child_page :: "nat \<Rightarrow> nat \<Rightarrow> buf \<Rightarrow> buf option" where
  "set_child_page i p node = map_option (\<lambda>off. wr 4 node off p) (internal_node_child node i)"

definition internal_node_key :: "nat \<Rightarrow> nat" where
  "internal_node_key i = internal_node_cell i + INTERNAL_NODE_CHILD_SIZE"
definition node_key :: "buf \<Rightarrow> nat \<Rightarrow> byte list" where
  "node_key node i = get_bytes node (internal_node_key i) INTERNAL_NODE_KEY_SIZE"
definition set_node_key :: "nat \<Rightarrow> byte list \<Rightarrow> buf \<Rightarrow> buf" where
  "set_node_key i k node = put_bytes node (internal_node_key i) k"
definition copy_cell :: "nat \<Rightarrow> nat \<Rightarrow> buf \<Rightarrow> buf" where
  "copy_cell i j node =
     put_bytes node (internal_node_cell i) (get_bytes node (internal_node_cell j) INTERNAL_NODE_CELL_SIZE)"

section \<open>Initialisation\<close>

definition initialize_leaf_node :: "buf \<Rightarrow> buf" where
  "initialize_leaf_node node =
     set_free_space 4096 (set_next_leaf 0 (set_num_cells 0 (set_node_root (set_node_type node NODE_LEAF) False)))"

definition initialize_internal_node :: "buf \<Rightarrow> buf" where
  "initialize_internal_node node =
     set_right_child INVALID_PAGE_NUM (set_num_keys 0 (set_node_root (set_node_type node NODE_INTERNAL) False))"

definition initialize_root_leaf :: "buf \<Rightarrow> buf" where
  "initialize_root_leaf node = set_node_root (initialize_leaf_node node) True"

section \<open>Changing a leaf\<close>

text \<open>\<open>uint16_t\<close> subtraction.\<close>

definition sub16 :: "nat \<Rightarrow> nat \<Rightarrow> nat" where
  "sub16 a b = (a + (65536 - b mod 65536)) mod 65536"

text \<open>One turn of the copy loop: cell \<open>i\<close> of the old page goes below what is packed already.\<close>

definition defragment_step :: "buf \<Rightarrow> nat \<Rightarrow> buf \<times> nat \<Rightarrow> buf \<times> nat" where
  "defragment_step node i st =
     (case st of (temp, free_offset) \<Rightarrow>
        (let free_offset = sub16 free_offset (slot_size node i);
             temp = put_bytes temp free_offset (leaf_cell node i)
         in (wr 2 temp (leaf_node_slot i) free_offset, free_offset)))"

definition leaf_node_defragment :: "buf \<Rightarrow> buf" where
  "leaf_node_defragment node =
     (let num_cells = leaf_node_num_cells node
      in if num_cells = 0 then set_free_space 4096 node
         else (let temp = put_bytes zero_buf 0 (get_bytes node 0 (leaf_node_slot num_cells));
                   (temp, free_offset) = fold (defragment_step node) [0..<num_cells] (temp, 4096)
               in copy_buf PAGE_SIZE node (set_free_space free_offset temp)))"

text \<open>\<open>free_space < slots_end || (free_space - slots_end) < needed\<close> for a cell of \<open>sz\<close> bytes.\<close>

definition leaf_full :: "nat \<Rightarrow> nat \<Rightarrow> nat \<Rightarrow> bool" where
  "leaf_full free_space nc sz \<longleftrightarrow>
     free_space < leaf_node_slot nc \<or> free_space - leaf_node_slot nc < PAGE_SLOT_SIZE + sz"

definition shift_slots_right :: "nat \<Rightarrow> nat \<Rightarrow> buf \<Rightarrow> buf" where
  "shift_slots_right k nc node = fold (\<lambda>i. copy_slot i (i - 1)) (rev [Suc k..<Suc nc]) node"

definition shift_slots_left :: "nat \<Rightarrow> nat \<Rightarrow> buf \<Rightarrow> buf" where
  "shift_slots_left k nc node = fold (\<lambda>i. copy_slot i (i + 1)) [k..<nc - 1] node"

text \<open>The free space goes down by the cell's size, the cell is copied there and slot \<open>k\<close> points to it.\<close>

definition place_cell :: "nat \<Rightarrow> byte list \<Rightarrow> buf \<Rightarrow> buf" where
  "place_cell k cell node =
     (let new_offset = sub16 (leaf_node_free_space node) (length cell);
          node = put_bytes (set_free_space new_offset node) new_offset cell
      in set_slot k new_offset (length cell) node)"

text \<open>The end of \<open>leaf_node_insert\<close>, after the room has been made.\<close>

definition leaf_insert_cell :: "nat \<Rightarrow> nat \<Rightarrow> byte list \<Rightarrow> buf \<Rightarrow> buf" where
  "leaf_insert_cell nc k cell node =
     (let node = place_cell k cell (shift_slots_right k nc node)
      in set_num_cells (leaf_node_num_cells node + 1) node)"

text \<open>\<open>btree_delete\<close>: the slots behind the deleted one move left.\<close>

definition leaf_delete_cell :: "nat \<Rightarrow> nat \<Rightarrow> buf \<Rightarrow> buf" where
  "leaf_delete_cell nc k node =
     (let node = shift_slots_left k nc node
      in set_num_cells (leaf_node_num_cells node - 1) node)"

text \<open>\<open>leaf_node_split_and_insert\<close>: the cells of the page with the new one, and the refilling of a page.\<close>

definition split_cells :: "buf \<Rightarrow> nat \<Rightarrow> byte list \<Rightarrow> byte list list" where
  "split_cells old_node k new_cell =
     map (\<lambda>i. if i = k then new_cell
              else leaf_cell old_node (if i < k then i else i - 1))
       [0..<leaf_node_num_cells old_node + 1]"

definition populate_step :: "nat \<times> byte list \<Rightarrow> buf \<times> nat \<Rightarrow> buf \<times> nat" where
  "populate_step ic st =
     (case (ic, st) of ((i, cell), (node, off)) \<Rightarrow>
        (let off = sub16 off (length cell)
         in (set_slot i off (length cell) (put_bytes node off cell), off)))"

definition populate_leaf :: "byte list list \<Rightarrow> buf \<Rightarrow> buf" where
  "populate_leaf cs node =
     (case fold populate_step (zip [0..<length cs] cs) (node, 4096) of
        (node, off) \<Rightarrow> set_free_space off (set_num_cells (length cs) node))"

section \<open>Searching a node\<close>

text \<open>The key of a stored cell as the comparisons see it.\<close>

definition cell_key :: "TableDef \<Rightarrow> buf \<Rightarrow> nat \<Rightarrow> byte list" where
  "cell_key def node i =
     serialize_col0_key def (extract_col0_from_packed_record def node (leaf_node_value node i) (slot_size node i))"

definition leaf_node_find :: "buf \<Rightarrow> byte list \<Rightarrow> TableDef \<Rightarrow> nat" where
  "leaf_node_find node raw_key def =
     (let nc = leaf_node_num_cells node;
          key_type = col_type (columns def ! 0)
      in if key_type = COL_INT
         then (let target_key = (of_nat (le_val (take 4 raw_key)) :: 32 word)
               in lower_bound (\<lambda>mid. sint (int_val (extract_col0_from_packed_record def node
                      (leaf_node_value node mid) (slot_size node mid))) < sint target_key) 0 nc)
         else lower_bound (\<lambda>mid. compare_keys key_type (cell_key def node mid) raw_key < 0) 0 nc)"

definition internal_node_find_child :: "buf \<Rightarrow> byte list \<Rightarrow> TableDef \<Rightarrow> nat" where
  "internal_node_find_child node raw_key def =
     (let nk = internal_node_num_keys node;
          key_type = col_type (columns def ! 0)
      in if key_type = COL_INT
         then (let target_key = (of_nat (le_val (take 4 raw_key)) :: 32 word)
               in lower_bound (\<lambda>mid. sint (of_nat (rd 4 node (internal_node_key mid)) :: 32 word)
                     < sint target_key) 0 nk)
         else lower_bound (\<lambda>mid. compare_keys key_type (node_key node mid) raw_key < 0) 0 nk)"

text \<open>\<open>find_child_index\<close>: \<open>exit\<close> when the page is not a child.\<close>

fun find_child_from :: "buf \<Rightarrow> nat \<Rightarrow> nat list \<Rightarrow> nat option" where
  "find_child_from parent p [] = None"
| "find_child_from parent p (i # is') =
     child_page parent i \<bind> (\<lambda>c. if c = p then Some i else find_child_from parent p is')"

definition find_child_index :: "buf \<Rightarrow> nat \<Rightarrow> nat option" where
  "find_child_index parent p = find_child_from parent p [0..<internal_node_num_keys parent + 1]"

definition update_internal_node_key :: "byte list \<Rightarrow> byte list \<Rightarrow> TableDef \<Rightarrow> buf \<Rightarrow> buf" where
  "update_internal_node_key old_key new_key def node =
     set_node_key (internal_node_find_child node old_key def) new_key node"

end
