(* ===== verification/Btree.thy ===== *)
theory Btree
  imports Btree_Page Pager
begin

text \<open>
  The B+ tree over the pager (\<open>src/btree.c\<close>): overflow chains, search and cursors, insertion with
  splits up to a new root, deletion with borrowing and merging.  Every function takes the pager and
  returns it; a page pointer held across calls is a \<open>bufref\<close> and is dereferenced where the code
  dereferences it.  \<open>None\<close> is the end of the process (\<open>exit\<close>, a NULL page used) or, in the functions
  that follow page numbers found on disk, no return.

  \<open>Table\<close> is a pager with a table definition, so the functions take \<open>def\<close> and \<open>pg\<close>.
\<close>

record Cursor =
  c_page :: nat
  c_cell :: nat
  end_of_table :: bool

section \<open>Page pointers\<close>

definition page_ptr :: "Pager \<Rightarrow> nat \<Rightarrow> (bufref \<times> Pager) option" where
  "page_ptr pg n = get_page pg n \<bind> (\<lambda>(r, pg). r \<bind> (\<lambda>r. Some (r, pg)))"

definition edit_at :: "bufref \<Rightarrow> (buf \<Rightarrow> buf) \<Rightarrow> Pager \<Rightarrow> Pager option" where
  "edit_at r f pg = deref pg r \<bind> (\<lambda>b. Some (store pg r (f b)))"

definition edit_opt :: "bufref \<Rightarrow> (buf \<Rightarrow> buf option) \<Rightarrow> Pager \<Rightarrow> Pager option" where
  "edit_opt r f pg = deref pg r \<bind> (\<lambda>b. f b \<bind> (\<lambda>b. Some (store pg r b)))"

section \<open>Overflow chains\<close>

abbreviation (input) OVERFLOW_HEADER_SIZE :: nat where "OVERFLOW_HEADER_SIZE \<equiv> 4"
abbreviation (input) OVERFLOW_PAYLOAD_SIZE :: nat where "OVERFLOW_PAYLOAD_SIZE \<equiv> 4092"

function chunks :: "byte list \<Rightarrow> byte list list" where
  "chunks bs = (if bs = [] then [] else take OVERFLOW_PAYLOAD_SIZE bs # chunks (drop OVERFLOW_PAYLOAD_SIZE bs))"
  by pat_completeness auto
termination by (relation "measure length") auto

declare chunks.simps [simp del]

text \<open>One page of the chain: taken, journaled, cleared, linked from the previous one and filled.\<close>

definition overflow_write_step :: "byte list \<Rightarrow> nat \<times> nat \<times> Pager \<Rightarrow> (nat \<times> nat \<times> Pager) option" where
  "overflow_write_step chunk st = (case st of (first_page, prev_page, pg) \<Rightarrow> do {
     (new_page, pg) \<leftarrow> get_unused_page_num pg;
     pg \<leftarrow> pager_journal_page pg new_page;
     (pbuf, pg) \<leftarrow> page_ptr pg new_page;
     pg \<leftarrow> edit_at pbuf (\<lambda>b. clear_bytes b 0 PAGE_SIZE) pg;
     pg \<leftarrow> (if prev_page \<noteq> 0 then update_page pg prev_page (\<lambda>b. wr 4 b 0 new_page) else Some pg);
     pg \<leftarrow> edit_at pbuf (\<lambda>b. put_bytes b OVERFLOW_HEADER_SIZE chunk) pg;
     Some (if first_page = 0 then new_page else first_page, new_page, pg) })"

definition btree_write_overflow_chain :: "Pager \<Rightarrow> byte list \<Rightarrow> (nat \<times> Pager) option" where
  "btree_write_overflow_chain pg data =
     (if data = [] then Some (0, pg)
      else do {
        (first_page, prev_page, pg) \<leftarrow> fold_opt overflow_write_step (chunks data) (0, 0, pg);
        pg \<leftarrow> (if prev_page \<noteq> 0 then update_page pg prev_page (\<lambda>b. wr 4 b 0 0) else Some pg);
        Some (first_page, pg) })"

partial_function (option) btree_free_overflow_chain :: "Pager \<Rightarrow> nat \<Rightarrow> Pager option" where
  "btree_free_overflow_chain pg cur =
     (if cur \<noteq> 0 \<and> cur \<noteq> INVALID_PAGE_NUM \<and> cur \<ge> reserved_catalog_pages pg
      then do {
        pg \<leftarrow> pager_journal_page pg cur;
        (pbuf, pg) \<leftarrow> read_page pg cur;
        pg \<leftarrow> pager_free_page pg cur;
        btree_free_overflow_chain pg (rd 4 pbuf 0) }
      else Some pg)"

function btree_read_overflow_chain :: "Pager \<Rightarrow> nat \<Rightarrow> nat \<Rightarrow> (byte list \<times> Pager) option" where
  "btree_read_overflow_chain pg cur len =
     (if cur \<noteq> 0 \<and> cur \<noteq> INVALID_PAGE_NUM \<and> 0 < len
      then do {
        (pbuf, pg) \<leftarrow> read_page pg cur;
        let chunk_size = (if len > OVERFLOW_PAYLOAD_SIZE then OVERFLOW_PAYLOAD_SIZE else len);
        (rest, pg) \<leftarrow> btree_read_overflow_chain pg (rd 4 pbuf 0) (len - chunk_size);
        Some (get_bytes pbuf OVERFLOW_HEADER_SIZE chunk_size @ rest, pg) }
      else Some ([], pg))"
  by pat_completeness auto
termination by (relation "measure (\<lambda>(_, _, len). len)") auto

declare btree_read_overflow_chain.simps [simp del]

text \<open>The cell of a row: the record itself, or a stub with its first 1016 bytes and an overflow chain.
  The buffer the record is built in is always large enough and is left out.\<close>

definition serialize_cell_for_leaf ::
    "TableDef \<Rightarrow> Value list \<Rightarrow> 64 word \<Rightarrow> 64 word \<Rightarrow> 64 word \<Rightarrow> Pager \<Rightarrow> (byte list \<times> Pager) option" where
  "serialize_cell_for_leaf def vs expire_at xmin xmax pg = do {
     ser_buf \<leftarrow> serialize_row_with_mvcc def vs expire_at xmin xmax;
     let total_size = length ser_buf;
     if total_size < BTREE_MAX_LOCAL_PAYLOAD then Some (ser_buf, pg)
     else do {
       let local_chunk = BTREE_MAX_LOCAL_PAYLOAD - OVERFLOW_STUB_HEADER;
       (first_overflow, pg) \<leftarrow> btree_write_overflow_chain pg (drop local_chunk ser_buf);
       Some (le_bytes 4 total_size @ le_bytes 4 first_overflow @ take local_chunk ser_buf, pg) } }"

section \<open>Keys and depth\<close>

abbreviation zero_key :: "byte list" where "zero_key \<equiv> replicate INTERNAL_NODE_KEY_SIZE 0"

partial_function (option) get_node_max_key :: "TableDef \<Rightarrow> bufref \<Rightarrow> Pager \<Rightarrow> (byte list \<times> Pager) option" where
  "get_node_max_key def node pg = do {
     b \<leftarrow> deref pg node;
     if get_node_type b = NODE_LEAF
     then (let nc = leaf_node_num_cells b
           in Some (if nc = 0 then zero_key else cell_key def b (nc - 1), pg))
     else if get_node_type b = NODE_INTERNAL
     then (let rc_page = internal_node_right_child b
           in if rc_page = INVALID_PAGE_NUM \<or> rc_page = 0 then Some (zero_key, pg)
              else do {
                (rc, pg) \<leftarrow> get_page pg rc_page;
                if rc = None then Some (zero_key, pg) else get_node_max_key def (the rc) pg })
     else Some (zero_key, pg) }"

partial_function (option) depth_loop :: "Pager \<Rightarrow> nat \<Rightarrow> nat \<Rightarrow> (nat \<times> Pager) option" where
  "depth_loop pg page_num depth = do {
     (node, pg) \<leftarrow> get_page pg page_num;
     if node = None then Some (depth, pg)
     else do {
       b \<leftarrow> deref pg (the node);
       if get_node_type b = NODE_INTERNAL
       then child_page b 0 \<bind> (\<lambda>c. depth_loop pg c (depth + 1))
       else Some (depth, pg) } }"

definition btree_depth :: "Pager \<Rightarrow> nat \<Rightarrow> (nat \<times> Pager) option" where
  "btree_depth pg root =
     (if root = INVALID_PAGE_NUM then Some (0, pg) else depth_loop pg root 1)"

section \<open>Search\<close>

text \<open>The position in a leaf, moved to the next leaf when it is past the end.\<close>

definition leaf_cursor :: "TableDef \<Rightarrow> byte list \<Rightarrow> nat \<Rightarrow> buf \<Rightarrow> Pager \<Rightarrow> (Cursor \<times> Pager) option" where
  "leaf_cursor def raw_key page_num node pg =
     (let cell_num = leaf_node_find node raw_key def;
          c = \<lparr>c_page = page_num, c_cell = cell_num, end_of_table = False\<rparr>
      in if cell_num \<ge> leaf_node_num_cells node
         then (let next_leaf = leaf_node_next_leaf node
               in if next_leaf = 0 then Some (c\<lparr>end_of_table := True\<rparr>, pg)
                  else do {
                    (next_node, pg) \<leftarrow> read_page pg next_leaf;
                    Some (c\<lparr>c_page := next_leaf, c_cell := 0,
                            end_of_table := (leaf_node_num_cells next_node = 0)\<rparr>, pg) })
         else Some (c, pg))"

definition leaf_node_navigate :: "TableDef \<Rightarrow> nat \<Rightarrow> byte list \<Rightarrow> Pager \<Rightarrow> (Cursor \<times> Pager) option" where
  "leaf_node_navigate def page_num raw_key pg = do {
     (node, pg) \<leftarrow> read_page pg page_num;
     leaf_cursor def raw_key page_num node pg }"

text \<open>\<open>None\<close> as the cursor: the function returned NULL, the child's type byte being neither.\<close>

partial_function (option) internal_node_find ::
    "TableDef \<Rightarrow> nat \<Rightarrow> byte list \<Rightarrow> Pager \<Rightarrow> (Cursor option \<times> Pager) option" where
  "internal_node_find def page_num raw_key pg = do {
     (node, pg) \<leftarrow> read_page pg page_num;
     c \<leftarrow> child_page node (internal_node_find_child node raw_key def);
     (child, pg) \<leftarrow> read_page pg c;
     if get_node_type child = NODE_LEAF
     then do { (cur, pg) \<leftarrow> leaf_node_navigate def c raw_key pg; Some (Some cur, pg) }
     else if get_node_type child = NODE_INTERNAL then internal_node_find def c raw_key pg
     else Some (None, pg) }"

definition btree_find :: "TableDef \<Rightarrow> Value \<Rightarrow> Pager \<Rightarrow> (Cursor option \<times> Pager) option" where
  "btree_find def key_value pg = do {
     let raw_key = serialize_col0_key def key_value;
     (root, pg) \<leftarrow> read_page pg (root_page_num def);
     if get_node_type root = NODE_LEAF
     then do { (cur, pg) \<leftarrow> leaf_node_navigate def (root_page_num def) raw_key pg; Some (Some cur, pg) }
     else internal_node_find def (root_page_num def) raw_key pg }"

text \<open>The descent of \<open>btree_find_out\<close> and \<open>btree_start_out\<close>: \<open>pick\<close> is the child index taken.\<close>

partial_function (option) btree_descend ::
    "(buf \<Rightarrow> nat) \<Rightarrow> nat \<Rightarrow> Pager \<Rightarrow> (nat \<times> buf \<times> Pager) option" where
  "btree_descend pick page_num pg = do {
     (node, pg) \<leftarrow> read_page pg page_num;
     if get_node_type node = NODE_INTERNAL
     then child_page node (pick node) \<bind> (\<lambda>c. btree_descend pick c pg)
     else Some (page_num, node, pg) }"

definition btree_find_out :: "TableDef \<Rightarrow> Value \<Rightarrow> Pager \<Rightarrow> (Cursor \<times> Pager) option" where
  "btree_find_out def key_value pg = do {
     let raw_key = serialize_col0_key def key_value;
     (page_num, node, pg) \<leftarrow> btree_descend (\<lambda>node. internal_node_find_child node raw_key def) (root_page_num def) pg;
     leaf_cursor def raw_key page_num node pg }"

definition btree_start_out :: "TableDef \<Rightarrow> Pager \<Rightarrow> (Cursor \<times> Pager) option" where
  "btree_start_out def pg = do {
     (page_num, node, pg) \<leftarrow> btree_descend (\<lambda>_. 0) (root_page_num def) pg;
     Some (\<lparr>c_page = page_num, c_cell = 0, end_of_table = (leaf_node_num_cells node = 0)\<rparr>, pg) }"

definition btree_start :: "TableDef \<Rightarrow> Pager \<Rightarrow> (Cursor \<times> Pager) option" where
  "btree_start def pg = btree_start_out def pg"

section \<open>Cursors\<close>

text \<open>The bytes from the returned pointer on; what the thread's overflow buffer holds beyond the value
  is left out (zero).\<close>

definition cursor_value :: "Cursor \<Rightarrow> Pager \<Rightarrow> (buf \<times> Pager) option" where
  "cursor_value c pg = do {
     (node, pg) \<leftarrow> read_page pg (c_page c);
     let off = slot_offset node (c_cell c);
     let sz = slot_size node (c_cell c);
     let cell_data = (\<lambda>i. node (off + i));
     if \<not> cell_is_overflow_stub sz then Some (cell_data, pg)
     else do {
       let total_size = rd 4 cell_data 0;
       let first_overflow_page = rd 4 cell_data 4;
       let local_chunk = sz - OVERFLOW_STUB_HEADER;
       if total_size \<le> local_chunk \<or> first_overflow_page = 0 \<or> first_overflow_page = INVALID_PAGE_NUM
          \<or> first_overflow_page < reserved_catalog_pages pg
       then Some (cell_data, pg)
       else do {
         (rest, pg) \<leftarrow> btree_read_overflow_chain pg first_overflow_page (total_size - local_chunk);
         Some (page_of (get_bytes cell_data OVERFLOW_STUB_HEADER local_chunk @ rest), pg) } } }"

definition cursor_advance :: "Cursor \<Rightarrow> Pager \<Rightarrow> (Cursor \<times> Pager) option" where
  "cursor_advance c pg = do {
     (node, pg) \<leftarrow> read_page pg (c_page c);
     let c = c\<lparr>c_cell := c_cell c + 1\<rparr>;
     Some (if c_cell c \<ge> leaf_node_num_cells node
           then (if leaf_node_next_leaf node = 0 then c\<lparr>end_of_table := True\<rparr>
                 else c\<lparr>c_page := leaf_node_next_leaf node, c_cell := 0\<rparr>)
           else c, pg) }"

definition btree_key_value :: "TableDef \<Rightarrow> Cursor \<Rightarrow> Pager \<Rightarrow> (Value \<times> Pager) option" where
  "btree_key_value def c pg = do {
     (p, pg) \<leftarrow> cursor_value c pg;
     Some (value_copy value_init (fst (deserialize_row def p) ! 0), pg) }"

end
