(* ===== verification/Btree_Leaf.thy ===== *)
theory Btree_Leaf
  imports Btree_Page
begin

text \<open>
  What the page operations of \<open>Btree_Page\<close> do to a leaf read as a list of cells: insertion,
  deletion, defragmentation and the two halves of a split, each with the invariant \<open>leaf_ok\<close>; the
  position \<open>leaf_node_find\<close> returns; and the split that overruns its page.
\<close>

section \<open>Reading fields back\<close>

lemmas node_defs = node_parent_def set_node_parent_def leaf_node_num_cells_def set_num_cells_def
  leaf_node_next_leaf_def set_next_leaf_def leaf_node_free_space_def set_free_space_def

lemma rd_upd_disjoint [buf_simps]: "\<not> (off \<le> i \<and> i < off + n) \<Longrightarrow> rd n (b(i := v)) off = rd n b off"
  by (rule rd_cong) auto

lemma slot_pos: "leaf_node_slot i = 20 + 4 * i"
  by (simp add: leaf_node_slot_def)

definition slot :: "buf \<Rightarrow> nat \<Rightarrow> nat \<times> nat" where
  "slot node i = (slot_offset node i, slot_size node i)"

lemma slot_bounds: "slot_offset node i < 65536" "slot_size node i < 65536"
  by (simp_all add: slot_offset_def slot_size_def)

lemma rd_copy: "o' + n \<le> m \<Longrightarrow> rd n (put_bytes b d (get_bytes b s m)) (d + o') = rd n b (s + o')"
  by (rule rd_cong) (simp add: put_bytes_def add.assoc)

lemma slot_copy: "slot (copy_slot i j node) l = (if l = i then slot node j else slot node l)"
proof (cases "l = i")
  case True
  then show ?thesis
    using rd_copy [of 0 2 4 node "leaf_node_slot i" "leaf_node_slot j"]
      rd_copy [of 2 2 4 node "leaf_node_slot i" "leaf_node_slot j"]
    by (simp add: slot_def slot_offset_def slot_size_def copy_slot_def)
next
  case False
  then have "l < i \<or> i < l" by auto
  with False show ?thesis
    by (auto simp: slot_def slot_offset_def slot_size_def copy_slot_def slot_pos rd_put_disjoint)
qed

lemma slot_set:
  assumes "off < 65536" "sz < 65536"
  shows "slot (set_slot i off sz node) l = (if l = i then (off, sz) else slot node l)"
proof (cases "l = i")
  case True
  with assms show ?thesis
    by (simp add: slot_def slot_offset_def slot_size_def set_slot_def slot_pos rd_wr_disjoint)
next
  case False
  then have "l < i \<or> i < l" by auto
  with False show ?thesis
    by (auto simp: slot_def slot_offset_def slot_size_def set_slot_def slot_pos rd_wr_disjoint)
qed

lemma slot_agree:
  "agree_outside lo hi b b' \<Longrightarrow> leaf_node_slot (Suc i) \<le> lo \<or> hi \<le> leaf_node_slot i \<Longrightarrow> slot b' i = slot b i"
  by (auto simp: slot_def slot_offset_def slot_size_def slot_pos rd_agree)

lemma agree_copy_slot: "agree_outside (leaf_node_slot i) (leaf_node_slot (Suc i)) b (copy_slot i j b)"
  by (auto simp: copy_slot_def slot_pos)

lemma agree_set_slot: "agree_outside (leaf_node_slot i) (leaf_node_slot (Suc i)) b (set_slot i off sz b)"
  unfolding set_slot_def
  by (rule agree_outside_trans; rule agree_outside_wr) (auto simp: slot_pos)

lemma agree_fold:
  assumes "\<And>i b. i \<in> set is' \<Longrightarrow> agree_outside lo hi b (f i b)"
  shows "agree_outside lo hi b (fold f is' b)"
  using assms by (induction is' arbitrary: b) (auto intro: agree_outside_trans)

lemma page_ok_agree: "agree_outside lo hi b b' \<Longrightarrow> hi \<le> PAGE_SIZE \<Longrightarrow> page_ok b \<Longrightarrow> page_ok b'"
  by (auto simp: page_ok_def agree_outside_def)

lemma agree_chain:
  assumes "agree_outside a b x y" "agree_outside c d y z" "lo \<le> a" "b \<le> hi" "lo \<le> c" "d \<le> hi"
  shows "agree_outside lo hi x z"
  using agree_outside_trans [OF agree_outside_mono [OF assms(1,3,4)] agree_outside_mono [OF assms(2,5,6)]] .

section \<open>Moving slots\<close>

lemma slot_shift_right:
  "k \<le> nc \<Longrightarrow> slot (shift_slots_right k nc node) j = (if k < j \<and> j \<le> nc then slot node (j - 1) else slot node j)"
proof (induction nc arbitrary: node)
  case (Suc m)
  show ?case
  proof (cases "k \<le> m")
    case True
    have "shift_slots_right k (Suc m) node = shift_slots_right k m (copy_slot (Suc m) m node)"
      using True by (simp add: shift_slots_right_def)
    then show ?thesis
      using Suc.IH [OF True, of "copy_slot (Suc m) m node"] True by (auto simp: slot_copy)
  next
    case False
    with Suc.prems have "k = Suc m" by simp
    then show ?thesis by (auto simp: shift_slots_right_def)
  qed
qed (simp add: shift_slots_right_def)

lemma agree_shift_right:
  "agree_outside (leaf_node_slot (Suc k)) (leaf_node_slot (Suc nc)) node (shift_slots_right k nc node)"
  unfolding shift_slots_right_def
  by (rule agree_fold) (auto intro!: agree_outside_mono [OF agree_copy_slot] simp: slot_pos)

lemma slot_shift_left:
  "slot (shift_slots_left k nc node) j = (if k \<le> j \<and> j + 1 < nc then slot node (j + 1) else slot node j)"
proof -
  have "slot (fold (\<lambda>i. copy_slot i (i + 1)) [k..<m] node) j
      = (if k \<le> j \<and> j < m then slot node (j + 1) else slot node j)" for m
  proof (induction m arbitrary: j)
    case (Suc m)
    then show ?case by (auto simp: slot_copy)
  qed simp
  then show ?thesis by (auto simp: shift_slots_left_def)
qed

lemma agree_shift_left:
  "agree_outside (leaf_node_slot k) (leaf_node_slot (nc - 1)) node (shift_slots_left k nc node)"
  unfolding shift_slots_left_def
proof (rule agree_fold)
  fix i b
  assume "i \<in> set [k..<nc - 1]"
  then show "agree_outside (leaf_node_slot k) (leaf_node_slot (nc - 1)) b (copy_slot i (i + 1) b)"
    by (intro agree_outside_mono [OF agree_copy_slot]) (auto simp: slot_pos)
qed

section \<open>Leaves as lists of cells\<close>

definition cells :: "buf \<Rightarrow> byte list list" where
  "cells node = map (leaf_cell node) [0..<leaf_node_num_cells node]"

definition slot_fits :: "nat \<Rightarrow> nat \<times> nat \<Rightarrow> bool" where
  "slot_fits free s \<longleftrightarrow> free \<le> fst s \<and> fst s + snd s \<le> PAGE_SIZE"

text \<open>
  The slot array ends below the free space, every cell lies between the free space and the end of
  the page, and the cells together take no more than that.
\<close>

definition leaf_ok :: "buf \<Rightarrow> bool" where
  "leaf_ok node \<longleftrightarrow> page_ok node \<and>
     leaf_node_slot (leaf_node_num_cells node) \<le> leaf_node_free_space node \<and>
     leaf_node_free_space node + sum_list (map (slot_size node) [0..<leaf_node_num_cells node]) \<le> PAGE_SIZE \<and>
     (\<forall>i < leaf_node_num_cells node. slot_fits (leaf_node_free_space node) (slot node i))"

text \<open>The header fields a leaf operation leaves alone: type, root flag, parent and next leaf.\<close>

definition same_links :: "buf \<Rightarrow> buf \<Rightarrow> bool" where
  "same_links b b' \<longleftrightarrow> get_node_type b' = get_node_type b \<and> is_node_root b' = is_node_root b \<and>
     node_parent b' = node_parent b \<and> leaf_node_next_leaf b' = leaf_node_next_leaf b"

lemma same_linksI:
  "(\<And>i. i < 8 \<or> 12 \<le> i \<and> i < 16 \<Longrightarrow> b' i = b i) \<Longrightarrow> same_links b b'"
  by (auto simp: same_links_def get_node_type_def is_node_root_def node_defs Let_def intro!: rd_cong)

lemma length_cells [simp]: "length (cells node) = leaf_node_num_cells node"
  by (simp add: cells_def)

lemma nth_cells [simp]: "i < leaf_node_num_cells node \<Longrightarrow> cells node ! i = leaf_cell node i"
  by (simp add: cells_def)

lemma length_leaf_cell [simp]: "length (leaf_cell node i) = slot_size node i"
  by (simp add: leaf_cell_def)

lemma leaf_cell_slot: "leaf_cell node i = get_bytes node (fst (slot node i)) (snd (slot node i))"
  by (simp add: leaf_cell_def leaf_node_value_def slot_def)

lemma slot_size_slot: "slot_size node i = snd (slot node i)"
  by (simp add: slot_def)

lemma sum_sizes: "sum_list (map (slot_size node) [0..<leaf_node_num_cells node]) = sum_list (map length (cells node))"
  by (simp add: cells_def comp_def)

lemma leaf_ok_bounds:
  assumes "leaf_ok node"
  shows "leaf_node_free_space node \<le> PAGE_SIZE" "leaf_node_slot (leaf_node_num_cells node) \<le> leaf_node_free_space node"
    "leaf_node_num_cells node \<le> 1019"
  using assms by (auto simp: leaf_ok_def slot_pos)

lemma num_cells_set [simp]:
  "n < 2 ^ 32 \<Longrightarrow> leaf_node_num_cells (set_num_cells n b) = n"
  "leaf_node_free_space (set_num_cells n b) = leaf_node_free_space b"
  "slot (set_num_cells n b) i = slot b i"
  by (simp_all add: node_defs rd_wr_disjoint slot_def slot_offset_def slot_size_def slot_pos)

lemma free_space_set [simp]:
  "n < 65536 \<Longrightarrow> leaf_node_free_space (set_free_space n b) = n"
  "leaf_node_num_cells (set_free_space n b) = leaf_node_num_cells b"
  "slot (set_free_space n b) i = slot b i"
  by (simp_all add: node_defs rd_wr_disjoint slot_def slot_offset_def slot_size_def slot_pos)

lemma header_agree:
  assumes "agree_outside lo hi b b'" "20 \<le> lo"
  shows "leaf_node_num_cells b' = leaf_node_num_cells b" "leaf_node_free_space b' = leaf_node_free_space b"
    "same_links b b'"
  using assms by (auto simp: node_defs rd_agree intro!: same_linksI agree_outsideD)

lemma sub16_le: "b \<le> a \<Longrightarrow> a < 65536 \<Longrightarrow> sub16 a b = a - b"
proof -
  assume "b \<le> a" "a < 65536"
  then have "a + (65536 - b mod 65536) = (a - b) + 65536" by simp
  then show ?thesis using \<open>a < 65536\<close> unfolding sub16_def by simp
qed

text \<open>A cell list rebuilt from its slots.\<close>

lemma cells_eqI:
  assumes "leaf_node_num_cells b = length cs"
    and "\<And>i. i < length cs \<Longrightarrow> get_bytes b (fst (slot b i)) (snd (slot b i)) = cs ! i"
  shows "cells b = cs"
  by (rule nth_equalityI) (use assms in \<open>auto simp: leaf_cell_slot\<close>)


section \<open>Insertion\<close>

lemma slot_put_above:
  "leaf_node_slot (Suc j) \<le> off \<Longrightarrow> slot (put_bytes b off bs) j = slot b j"
  by (rule slot_agree [OF agree_outside_put]) (auto simp: slot_pos)

lemma agree_place_cell:
  assumes "length cell \<le> leaf_node_free_space b" "leaf_node_slot (Suc k) \<le> leaf_node_free_space b - length cell"
  shows "agree_outside 16 (leaf_node_free_space b) b (place_cell k cell b)"
proof -
  let ?F = "leaf_node_free_space b"
  have F: "?F < 65536" by (simp add: leaf_node_free_space_def)
  define b2 where "b2 = set_free_space (?F - length cell) b"
  define b3 where "b3 = put_bytes b2 (?F - length cell) cell"
  have eq: "place_cell k cell b = set_slot k (?F - length cell) (length cell) b3"
    using assms(1) F by (simp add: place_cell_def sub16_le Let_def b2_def b3_def)
  have "agree_outside 16 ?F b b2"
    using assms by (auto simp: b2_def set_free_space_def slot_pos)
  moreover have "agree_outside 16 ?F b2 b3"
    using assms by (auto simp: b3_def slot_pos)
  moreover have "agree_outside 16 ?F b3 (place_cell k cell b)"
    unfolding eq using assms by (intro agree_outside_mono [OF agree_set_slot]) (auto simp: slot_pos)
  ultimately show ?thesis by (blast intro: agree_outside_trans)
qed

lemma place_cell:
  assumes "length cell \<le> leaf_node_free_space b" "leaf_node_slot (Suc k) \<le> leaf_node_free_space b - length cell"
  shows "slot (place_cell k cell b) j = (if j = k then (leaf_node_free_space b - length cell, length cell)
           else if leaf_node_slot (Suc j) \<le> leaf_node_free_space b - length cell then slot b j
           else slot (place_cell k cell b) j)"
    and "leaf_node_free_space (place_cell k cell b) = leaf_node_free_space b - length cell"
    and "leaf_node_num_cells (place_cell k cell b) = leaf_node_num_cells b"
    and "get_bytes (place_cell k cell b) (leaf_node_free_space b - length cell) (length cell) = cell"
    and "same_links b (place_cell k cell b)"
proof -
  let ?F = "leaf_node_free_space b"
  have F: "?F < 65536" by (simp add: leaf_node_free_space_def)
  define b2 where "b2 = set_free_space (?F - length cell) b"
  define b3 where "b3 = put_bytes b2 (?F - length cell) cell"
  have eq: "place_cell k cell b = set_slot k (?F - length cell) (length cell) b3"
    using assms(1) F by (simp add: place_cell_def sub16_le Let_def b2_def b3_def)
  have sl: "slot (place_cell k cell b) j = (if j = k then (?F - length cell, length cell) else slot b3 j)"
    using assms F unfolding eq by (intro slot_set) auto
  moreover have "leaf_node_slot (Suc j) \<le> ?F - length cell \<Longrightarrow> slot b3 j = slot b j"
    using F by (simp add: b3_def b2_def slot_put_above)
  ultimately show "slot (place_cell k cell b) j = (if j = k then (?F - length cell, length cell)
           else if leaf_node_slot (Suc j) \<le> ?F - length cell then slot b j else slot (place_cell k cell b) j)"
    by simp
  have above: "agree_outside (?F - length cell) ?F b2 b3"
    using assms by (auto simp: b3_def)
  note h3 = header_agree [OF above] and hs = header_agree [OF agree_set_slot [of k b3 "?F - length cell" "length cell"]]
  show "leaf_node_free_space (place_cell k cell b) = ?F - length cell"
    "leaf_node_num_cells (place_cell k cell b) = leaf_node_num_cells b"
    using assms F h3 hs by (simp_all add: eq slot_pos b2_def)
  have "agree_outside 16 ?F b (place_cell k cell b)" by (rule agree_place_cell [OF assms])
  then show "same_links b (place_cell k cell b)"
    by (auto intro!: same_linksI agree_outsideD)
  have "get_bytes b3 (?F - length cell) (length cell) = cell" by (simp add: b3_def)
  then show "get_bytes (place_cell k cell b) (?F - length cell) (length cell) = cell"
    unfolding eq using assms(2) by (subst get_bytes_agree [OF agree_set_slot]) auto
qed

lemma not_full_room:
  assumes "\<not> leaf_full free nc sz"
  shows "leaf_node_slot (Suc nc) + sz \<le> free"
  using assms by (auto simp: leaf_full_def slot_pos)

text \<open>The slots and bytes of the page after an insertion.\<close>

lemma leaf_insert_slots:
  assumes "k \<le> nc" "nc = leaf_node_num_cells node" "nc < 2000" "leaf_node_slot (Suc nc) + length cell \<le> F"
    "F = leaf_node_free_space node" "F \<le> PAGE_SIZE"
  defines "b \<equiv> leaf_insert_cell nc k cell node"
  shows "leaf_node_num_cells b = Suc nc" "leaf_node_free_space b = F - length cell"
    "j \<le> nc \<Longrightarrow> slot b j = (if j < k then slot node j else if j = k then (F - length cell, length cell) else slot node (j - 1))"
    "get_bytes b (F - length cell) (length cell) = cell"
    "agree_outside 8 F node b" "same_links node b"
proof -
  define b1 where "b1 = shift_slots_right k nc node"
  have a1: "agree_outside (leaf_node_slot (Suc k)) (leaf_node_slot (Suc nc)) node b1"
    unfolding b1_def by (rule agree_shift_right)
  have F1: "leaf_node_free_space b1 = F" "leaf_node_num_cells b1 = nc" and l1: "same_links node b1"
    using header_agree [OF a1] assms by (simp_all add: slot_pos)
  have pre: "length cell \<le> leaf_node_free_space b1" "leaf_node_slot (Suc k) \<le> leaf_node_free_space b1 - length cell"
    using assms by (auto simp: F1 slot_pos)
  define b4 where "b4 = place_cell k cell b1"
  note b4 = place_cell [OF pre, folded b4_def, unfolded F1]
  have b: "b = set_num_cells (Suc nc) b4"
    by (simp add: b_def leaf_insert_cell_def Let_def b1_def [symmetric] b4_def [symmetric] b4(3))
  show "leaf_node_num_cells b = Suc nc" "leaf_node_free_space b = F - length cell"
    using assms(3) b4(2) by (simp_all add: b)
  show "slot b j = (if j < k then slot node j else if j = k then (F - length cell, length cell) else slot node (j - 1))"
    if "j \<le> nc"
  proof -
    have "leaf_node_slot (Suc j) \<le> F - length cell" using that assms(4) by (auto simp: slot_pos)
    then show ?thesis
      using b4(1) [of j] that slot_shift_right [OF assms(1), of node j] by (auto simp: b b1_def)
  qed
  have s: "agree_outside 8 12 b4 b" by (auto simp: b set_num_cells_def)
  show "get_bytes b (F - length cell) (length cell) = cell"
    using b4(4) assms(4) by (simp add: get_bytes_agree [OF s] slot_pos)
  have lo: "leaf_node_slot (Suc nc) \<le> F" using assms(4) by simp
  have "agree_outside 16 F b1 b4"
    unfolding b4_def F1(1) [symmetric] by (rule agree_place_cell [OF pre])
  then have "agree_outside 8 F node b4"
    by (rule agree_chain [OF a1]) (use lo in \<open>auto simp: slot_pos\<close>)
  then show "agree_outside 8 F node b"
    by (rule agree_chain [OF _ s]) (use lo in \<open>auto simp: slot_pos\<close>)
  have "same_links b4 b" by (rule same_linksI, rule agree_outsideD [OF s]) auto
  with l1 b4(5) show "same_links node b" by (simp add: same_links_def)
qed

lemma sum_list_insert: "k \<le> length xs \<Longrightarrow> sum_list (map length (take k xs @ c # drop k xs)) = length c + sum_list (map length xs)"
proof -
  have "sum_list (map length xs) = sum_list (map length (take k xs)) + sum_list (map length (drop k xs))"
    by (metis append_take_drop_id map_append sum_list_append)
  then show ?thesis by simp
qed

lemma leaf_okI:
  assumes "page_ok b" "leaf_node_slot (leaf_node_num_cells b) \<le> leaf_node_free_space b"
    "leaf_node_free_space b + sum_list (map length (cells b)) \<le> PAGE_SIZE"
    "\<And>i. i < leaf_node_num_cells b \<Longrightarrow> slot_fits (leaf_node_free_space b) (slot b i)"
  shows "leaf_ok b"
  using assms by (simp add: leaf_ok_def sum_sizes)

lemma leaf_okD:
  assumes "leaf_ok b"
  shows "page_ok b" "leaf_node_free_space b + sum_list (map length (cells b)) \<le> PAGE_SIZE"
    "i < leaf_node_num_cells b \<Longrightarrow> slot_fits (leaf_node_free_space b) (slot b i)"
  using assms by (auto simp: leaf_ok_def sum_sizes)

lemma slot_fits_mono: "slot_fits F s \<Longrightarrow> F' \<le> F \<Longrightarrow> slot_fits F' s"
  by (simp add: slot_fits_def)

lemma leaf_insert_ok:
  assumes ok: "leaf_ok node" and k: "k \<le> leaf_node_num_cells node"
    and room: "\<not> leaf_full (leaf_node_free_space node) (leaf_node_num_cells node) (length cell)"
  defines "b \<equiv> leaf_insert_cell (leaf_node_num_cells node) k cell node"
  shows "cells b = take k (cells node) @ cell # drop k (cells node)" "leaf_ok b" "same_links node b"
    "leaf_node_free_space b = leaf_node_free_space node - length cell"
proof -
  let ?nc = "leaf_node_num_cells node" and ?F = "leaf_node_free_space node"
  have nc: "?nc < 2000" and F: "?F \<le> PAGE_SIZE" using leaf_ok_bounds [OF ok] by auto
  have r: "leaf_node_slot (Suc ?nc) + length cell \<le> ?F" by (rule not_full_room [OF room])
  note ins = leaf_insert_slots [OF k refl nc r refl F, folded b_def]
  show "same_links node b" by (rule ins(6))
  show fb: "leaf_node_free_space b = ?F - length cell" by (rule ins(2))
  have old: "get_bytes b (fst (slot node i)) (snd (slot node i)) = leaf_cell node i" if "i < ?nc" for i
    using leaf_okD(3) [OF ok that] by (simp add: leaf_cell_slot slot_fits_def get_bytes_agree [OF ins(5)])
  have len: "length (take k (cells node) @ cell # drop k (cells node)) = Suc ?nc" using k by simp
  show cs: "cells b = take k (cells node) @ cell # drop k (cells node)"
  proof (rule cells_eqI)
    show "leaf_node_num_cells b = length (take k (cells node) @ cell # drop k (cells node))"
      by (simp add: ins(1) len del: length_append)
    fix i
    assume "i < length (take k (cells node) @ cell # drop k (cells node))"
    then have i: "i \<le> ?nc" using len by simp
    consider "i < k" | "i = k" | "k < i" by linarith
    then show "get_bytes b (fst (slot b i)) (snd (slot b i)) = (take k (cells node) @ cell # drop k (cells node)) ! i"
    proof cases
      case 3
      then obtain d where d: "i = Suc (k + d)" by (auto dest: less_imp_Suc_add)
      with 3 i k old [of "k + d"] ins(3) [OF i] show ?thesis by (simp add: nth_append)
    qed (use i k old [of i] ins(3) [OF i] ins(4) in \<open>simp_all add: nth_append\<close>)
  qed
  have fit: "slot_fits (?F - length cell) (slot b i)" if "i \<le> ?nc" for i
  proof (cases "i < k")
    case True
    with k ins(3) [OF that] leaf_okD(3) [OF ok, of i] show ?thesis by (auto elim: slot_fits_mono)
  next
    case False
    then consider "i = k" | "k < i" by linarith
    then show ?thesis
    proof cases
      case 2
      then have "i - 1 < ?nc" using that by simp
      with 2 ins(3) [OF that] leaf_okD(3) [OF ok this] show ?thesis by (auto elim: slot_fits_mono)
    qed (use that ins(3) [OF that] r F in \<open>auto simp: slot_fits_def\<close>)
  qed
  show "leaf_ok b"
  proof (rule leaf_okI)
    show "page_ok b" by (rule page_ok_agree [OF ins(5) F leaf_okD(1) [OF ok]])
    show "leaf_node_slot (leaf_node_num_cells b) \<le> leaf_node_free_space b" using r by (simp add: ins(1,2))
    show "leaf_node_free_space b + sum_list (map length (cells b)) \<le> PAGE_SIZE"
      using leaf_okD(2) [OF ok] r k unfolding cs by (subst sum_list_insert) (auto simp: ins(2))
    show "slot_fits (leaf_node_free_space b) (slot b i)" if "i < leaf_node_num_cells b" for i
      using fit [of i] that by (simp add: ins(1,2))
  qed
qed

section \<open>Deletion\<close>

lemma leaf_delete_ok:
  assumes ok: "leaf_ok node" and k: "k < leaf_node_num_cells node"
  defines "b \<equiv> leaf_delete_cell (leaf_node_num_cells node) k node"
  shows "cells b = take k (cells node) @ drop (Suc k) (cells node)" "leaf_ok b" "same_links node b"
    "leaf_node_free_space b = leaf_node_free_space node"
proof -
  let ?nc = "leaf_node_num_cells node" and ?F = "leaf_node_free_space node"
  have nc: "?nc \<le> 1019" and sF: "leaf_node_slot ?nc \<le> ?F" "?F \<le> PAGE_SIZE" using leaf_ok_bounds [OF ok] by auto
  define b1 where "b1 = shift_slots_left k ?nc node"
  have a1: "agree_outside (leaf_node_slot k) (leaf_node_slot (?nc - 1)) node b1"
    unfolding b1_def by (rule agree_shift_left)
  have h1: "leaf_node_num_cells b1 = ?nc" "leaf_node_free_space b1 = ?F" "same_links node b1"
    using header_agree [OF a1] by (simp_all add: slot_pos)
  have b: "b = set_num_cells (?nc - 1) b1"
    by (simp add: b_def leaf_delete_cell_def Let_def b1_def [symmetric] h1)
  have nb: "leaf_node_num_cells b = ?nc - 1" using nc by (simp add: b)
  show fb: "leaf_node_free_space b = ?F" by (simp add: b h1)
  have ab: "agree_outside 8 12 b1 b" by (auto simp: b set_num_cells_def)
  have "same_links b1 b" by (rule same_linksI, rule agree_outsideD [OF ab]) auto
  with h1(3) show "same_links node b" by (simp add: same_links_def)
  have up: "agree_outside 8 ?F node b"
    using sF k by (intro agree_chain [OF a1 ab]) (auto simp: slot_pos)
  have sl: "slot b i = (if i < k then slot node i else slot node (Suc i))" if "i < ?nc - 1" for i
    using that by (auto simp: b b1_def slot_shift_left)
  have old: "get_bytes b (fst (slot node i)) (snd (slot node i)) = leaf_cell node i" if "i < ?nc" for i
    using leaf_okD(3) [OF ok that] by (simp add: leaf_cell_slot slot_fits_def get_bytes_agree [OF up])
  show cs: "cells b = take k (cells node) @ drop (Suc k) (cells node)"
  proof (rule cells_eqI)
    fix i
    assume "i < length (take k (cells node) @ drop (Suc k) (cells node))"
    then have i: "i < ?nc - 1" using k by auto
    then show "get_bytes b (fst (slot b i)) (snd (slot b i)) = (take k (cells node) @ drop (Suc k) (cells node)) ! i"
      using k old [of i] old [of "Suc i"] sl [OF i] by (auto simp: nth_append min_def)
  qed (use k nb in auto)
  have sum: "sum_list (map length (cells b)) \<le> sum_list (map length (cells node))"
  proof -
    have "cells node = take k (cells node) @ leaf_cell node k # drop (Suc k) (cells node)"
      using k id_take_nth_drop [of k "cells node"] by simp
    then have "sum_list (map length (cells node)) =
        sum_list (map length (take k (cells node))) + (slot_size node k + sum_list (map length (drop (Suc k) (cells node))))"
      by (metis length_leaf_cell list.simps(9) map_append sum_list.Cons sum_list_append)
    then show ?thesis by (simp add: cs)
  qed
  show "leaf_ok b"
  proof (rule leaf_okI)
    show "page_ok b" by (rule page_ok_agree [OF up sF(2) leaf_okD(1) [OF ok]])
    show "leaf_node_slot (leaf_node_num_cells b) \<le> leaf_node_free_space b" using sF(1) by (simp add: nb fb slot_pos)
    show "leaf_node_free_space b + sum_list (map length (cells b)) \<le> PAGE_SIZE"
      using leaf_okD(2) [OF ok] sum by (simp add: fb)
    show "slot_fits (leaf_node_free_space b) (slot b i)" if "i < leaf_node_num_cells b" for i
      using that sl [of i] leaf_okD(3) [OF ok, of i] leaf_okD(3) [OF ok, of "Suc i"] by (simp add: nb fb)
  qed
qed


section \<open>Packing cells\<close>

text \<open>The first \<open>m\<close> cells of \<open>cs\<close> have been packed against the end of the page, down to \<open>off\<close>.\<close>

definition packed :: "byte list list \<Rightarrow> nat \<Rightarrow> buf \<Rightarrow> nat \<Rightarrow> bool" where
  "packed cs m b off \<longleftrightarrow> off + sum_list (map length (take m cs)) = PAGE_SIZE \<and>
     (\<forall>i < m. slot_fits off (slot b i) \<and> get_bytes b (fst (slot b i)) (snd (slot b i)) = cs ! i \<and>
        snd (slot b i) = length (cs ! i))"

lemma packed_0 [simp]: "packed cs 0 b off \<longleftrightarrow> off = PAGE_SIZE"
  by (simp add: packed_def)

lemma packed_step:
  assumes p: "packed cs m b off" and m: "m < length cs" "length (cs ! m) \<le> off"
    and new: "slot b' m = (off - length (cs ! m), length (cs ! m))"
      "get_bytes b' (off - length (cs ! m)) (length (cs ! m)) = cs ! m"
    and old: "\<And>j. j < m \<Longrightarrow> slot b' j = slot b j" "\<And>x. off \<le> x \<Longrightarrow> b' x = b x"
  shows "packed cs (Suc m) b' (off - length (cs ! m))"
proof -
  have sum: "off - length (cs ! m) + sum_list (map length (take (Suc m) cs)) = PAGE_SIZE"
    using p m by (simp add: packed_def take_Suc_conv_app_nth)
  have off: "off \<le> PAGE_SIZE" using p by (simp add: packed_def)
  have "slot_fits (off - length (cs ! m)) (slot b' i) \<and>
      get_bytes b' (fst (slot b' i)) (snd (slot b' i)) = cs ! i \<and> snd (slot b' i) = length (cs ! i)"
    if "i < Suc m" for i
  proof (cases "i = m")
    case False
    with that have i: "i < m" by simp
    then have "off \<le> fst (slot b i)" using p by (simp add: packed_def slot_fits_def)
    then have "get_bytes b' (fst (slot b i)) (snd (slot b i)) = get_bytes b (fst (slot b i)) (snd (slot b i))"
      by (intro get_bytes_cong old) simp
    moreover have "slot_fits (off - length (cs ! m)) (slot b i)"
      using i p slot_fits_mono [of off "slot b i"] by (simp add: packed_def)
    ultimately show ?thesis using i p by (auto simp: packed_def old(1))
  qed (use new m off in \<open>auto simp: slot_fits_def\<close>)
  with sum show ?thesis unfolding packed_def by blast
qed

lemma sum_take_le: "sum_list (map length (take m cs)) \<le> sum_list (map length cs)"
proof -
  have "sum_list (map length cs) = sum_list (map length (take m cs)) + sum_list (map length (drop m cs))"
    by (metis append_take_drop_id map_append sum_list_append)
  then show ?thesis by simp
qed

lemma packed_room:
  assumes "packed cs m b off" "m < length cs" "leaf_node_slot (length cs) + sum_list (map length cs) \<le> PAGE_SIZE"
  shows "leaf_node_slot (Suc m) + length (cs ! m) \<le> off"
proof -
  have "sum_list (map length (take (Suc m) cs)) \<le> sum_list (map length cs)" by (rule sum_take_le)
  then show ?thesis using assms by (simp add: packed_def take_Suc_conv_app_nth slot_pos)
qed

text \<open>What a packed page is, once its header says so.\<close>

lemma packed_leaf:
  assumes "packed cs (length cs) b off" "leaf_node_num_cells b = length cs" "leaf_node_free_space b = off"
    and "leaf_node_slot (length cs) + sum_list (map length cs) \<le> PAGE_SIZE" "page_ok b"
  shows "cells b = cs" "leaf_ok b" "leaf_node_free_space b = PAGE_SIZE - sum_list (map length cs)"
proof -
  show cs: "cells b = cs" using assms by (intro cells_eqI) (auto simp: packed_def)
  show "leaf_ok b" by (rule leaf_okI) (use assms cs in \<open>auto simp: packed_def\<close>)
  show "leaf_node_free_space b = PAGE_SIZE - sum_list (map length cs)" using assms(1,3) by (auto simp: packed_def)
qed

lemma populate_packed:
  assumes "leaf_node_slot (length cs) + sum_list (map length cs) \<le> PAGE_SIZE" "m \<le> length cs"
  shows "\<exists>b off. fold populate_step (zip [0..<m] (take m cs)) (node, 4096) = (b, off) \<and>
    packed cs m b off \<and> agree_outside 20 PAGE_SIZE node b"
  using assms(2)
proof (induction m)
  case (Suc m)
  then obtain b off where b: "fold populate_step (zip [0..<m] (take m cs)) (node, 4096) = (b, off)"
    "packed cs m b off" "agree_outside 20 PAGE_SIZE node b" by auto
  have m: "m < length cs" using Suc.prems by simp
  have room: "leaf_node_slot (Suc m) + length (cs ! m) \<le> off" by (rule packed_room [OF b(2) m assms(1)])
  have off: "off \<le> PAGE_SIZE" using b(2) by (simp add: packed_def)
  let ?o = "off - length (cs ! m)"
  define b1 where "b1 = put_bytes b ?o (cs ! m)"
  have a1: "agree_outside ?o off b b1" using room by (auto simp: b1_def)
  note as = agree_set_slot [of m b1 ?o "length (cs ! m)"]
  have "zip [0..<Suc m] (take (Suc m) cs) = zip [0..<m] (take m cs) @ [(m, cs ! m)]"
    using m by (simp add: take_Suc_conv_app_nth)
  then have "fold populate_step (zip [0..<Suc m] (take (Suc m) cs)) (node, 4096)
      = populate_step (m, cs ! m) (b, off)"
    by (simp add: b(1))
  also have "sub16 off (length (cs ! m)) = ?o" using room off by (intro sub16_le) auto
  then have "populate_step (m, cs ! m) (b, off) = (set_slot m ?o (length (cs ! m)) b1, ?o)"
    by (simp add: populate_step_def b1_def Let_def)
  finally have "fold populate_step (zip [0..<Suc m] (take (Suc m) cs)) (node, 4096)
      = (set_slot m ?o (length (cs ! m)) b1, ?o)" .
  moreover have "packed cs (Suc m) (set_slot m ?o (length (cs ! m)) b1) ?o"
  proof (rule packed_step [OF b(2) m])
    show "slot (set_slot m ?o (length (cs ! m)) b1) m = (?o, length (cs ! m))"
      using room off by (subst slot_set) auto
    have "get_bytes b1 ?o (length (cs ! m)) = cs ! m" by (simp add: b1_def)
    then show "get_bytes (set_slot m ?o (length (cs ! m)) b1) ?o (length (cs ! m)) = cs ! m"
      using room by (subst get_bytes_agree [OF as]) auto
    show "slot (set_slot m ?o (length (cs ! m)) b1) j = slot b j" if "j < m" for j
      using that room off slot_agree [OF a1, of j] by (subst slot_set) (auto simp: slot_pos)
    show "set_slot m ?o (length (cs ! m)) b1 x = b x" if "off \<le> x" for x
      using that room agree_outsideD [OF as, of x] agree_outsideD [OF a1, of x] by (auto simp: slot_pos)
  qed (use room in simp)
  moreover have "agree_outside 20 PAGE_SIZE b1 (set_slot m ?o (length (cs ! m)) b1)"
    by (rule agree_outside_mono [OF as]) (use room off in \<open>auto simp: slot_pos\<close>)
  then have "agree_outside 20 PAGE_SIZE b (set_slot m ?o (length (cs ! m)) b1)"
    by (rule agree_chain [OF a1]) (use room off in \<open>auto simp: slot_pos\<close>)
  note agree_outside_trans [OF b(3) this]
  ultimately show ?case by blast
qed simp

lemma populate_leaf_ok:
  assumes fits: "leaf_node_slot (length cs) + sum_list (map length cs) \<le> PAGE_SIZE" and "page_ok node"
  shows "cells (populate_leaf cs node) = cs" "leaf_ok (populate_leaf cs node)"
    "same_links node (populate_leaf cs node)"
proof -
  obtain b off where b: "fold populate_step (zip [0..<length cs] cs) (node, 4096) = (b, off)"
    "packed cs (length cs) b off" "agree_outside 20 PAGE_SIZE node b"
    using populate_packed [OF fits, of "length cs" node] by auto
  let ?b = "set_free_space off (set_num_cells (length cs) b)"
  have eq: "populate_leaf cs node = ?b" by (simp add: populate_leaf_def b(1))
  have n: "length cs < 2 ^ 32" and off: "off < 65536"
    using fits b(2) by (auto simp: slot_pos packed_def)
  have ag: "agree_outside 8 12 b (set_num_cells (length cs) b)" "agree_outside 16 18 (set_num_cells (length cs) b) ?b"
    by (auto simp: node_defs)
  have hi: "?b x = b x" if "20 \<le> x" for x
    using that by (simp add: agree_outsideD [OF ag(2)] agree_outsideD [OF ag(1)])
  have bytes: "get_bytes ?b o' l = get_bytes b o' l" if "20 \<le> o'" for o' l
    by (rule get_bytes_cong) (use that in \<open>simp add: hi\<close>)
  have "off \<ge> 20" using fits b(2) by (simp add: packed_def slot_pos)
  then have p: "packed cs (length cs) ?b off"
    using b(2) by (auto simp: packed_def slot_fits_def bytes)
  have pok: "page_ok ?b"
    using page_ok_agree [OF b(3) _ assms(2)] hi by (auto simp: page_ok_def)
  note packed_leaf [OF p _ _ fits pok]
  then show "cells (populate_leaf cs node) = cs" "leaf_ok (populate_leaf cs node)"
    using n off by (simp_all add: eq)
  have "?b i = node i" if "i < 8 \<or> 12 \<le> i \<and> i < 16" for i
    using that agree_outsideD [OF ag(1), of i] agree_outsideD [OF ag(2), of i] agree_outsideD [OF b(3), of i] by auto
  then show "same_links node (populate_leaf cs node)" unfolding eq by (rule same_linksI)
qed

section \<open>Defragmentation\<close>

lemma leaf_ok_fits: "leaf_ok b \<Longrightarrow> leaf_node_slot (leaf_node_num_cells b) + sum_list (map length (cells b)) \<le> PAGE_SIZE"
  by (auto simp: leaf_ok_def sum_sizes)

lemma defragment_packed:
  assumes ok: "leaf_ok node" and m: "m \<le> leaf_node_num_cells node"
  defines "temp \<equiv> put_bytes zero_buf 0 (get_bytes node 0 (leaf_node_slot (leaf_node_num_cells node)))"
  shows "\<exists>b off. fold (defragment_step node) [0..<m] (temp, 4096) = (b, off) \<and>
    packed (cells node) m b off \<and> agree_outside 20 PAGE_SIZE temp b \<and>
    (\<forall>i. m \<le> i \<longrightarrow> i < leaf_node_num_cells node \<longrightarrow> slot b i = slot node i)"
  using m
proof (induction m)
  case 0
  have "slot temp i = slot node i" if "i < leaf_node_num_cells node" for i
    using that by (auto simp: slot_def slot_offset_def slot_size_def temp_def slot_pos put_bytes_def intro!: rd_cong)
  then show ?case by simp
next
  case (Suc m)
  let ?nc = "leaf_node_num_cells node" and ?cs = "cells node"
  obtain b off where b: "fold (defragment_step node) [0..<m] (temp, 4096) = (b, off)"
    "packed ?cs m b off" "agree_outside 20 PAGE_SIZE temp b"
    "\<forall>i. m \<le> i \<longrightarrow> i < ?nc \<longrightarrow> slot b i = slot node i" using Suc by auto
  have m: "m < length ?cs" using Suc.prems by simp
  have room: "leaf_node_slot (Suc m) + length (?cs ! m) \<le> off"
    by (rule packed_room [OF b(2) m]) (simp add: leaf_ok_fits [OF ok])
  have off: "off \<le> PAGE_SIZE" using b(2) by (simp add: packed_def)
  have cm: "?cs ! m = leaf_cell node m" "slot_size node m = length (?cs ! m)" using m by auto
  let ?o = "off - length (?cs ! m)"
  define b1 where "b1 = put_bytes b ?o (?cs ! m)"
  define b2 where "b2 = wr 2 b1 (leaf_node_slot m) ?o"
  have a1: "agree_outside ?o off b b1" using room by (auto simp: b1_def)
  have a2: "agree_outside (leaf_node_slot m) (leaf_node_slot m + 2) b1 b2" by (auto simp: b2_def)
  have s1: "slot b1 j = slot b j" if "j \<le> m" for j
    using that room by (intro slot_agree [OF a1]) (auto simp: slot_pos)
  have s2: "slot b2 j = (if j = m then (?o, snd (slot b1 m)) else slot b1 j)" for j
  proof (cases "j = m")
    case True
    then show ?thesis
      using off by (simp add: slot_def slot_offset_def slot_size_def b2_def rd_wr_disjoint)
  next
    case False
    then have "j < m \<or> m < j" by auto
    with False show ?thesis
      by (auto intro!: slot_agree [OF a2] simp: slot_pos)
  qed
  have "fold (defragment_step node) [0..<Suc m] (temp, 4096) = defragment_step node m (b, off)"
    by (simp add: b(1))
  also have "sub16 off (slot_size node m) = ?o"
    unfolding cm(2) using room off by (intro sub16_le) auto
  then have "defragment_step node m (b, off) = (b2, ?o)"
    by (simp add: defragment_step_def b1_def b2_def Let_def cm(1))
  finally have "fold (defragment_step node) [0..<Suc m] (temp, 4096) = (b2, ?o)" .
  moreover have "packed ?cs (Suc m) b2 ?o"
  proof (rule packed_step [OF b(2) m])
    show "slot b2 m = (?o, length (?cs ! m))"
      using b(4) m by (simp add: s2 s1 slot_size_slot)
    have "get_bytes b1 ?o (length (?cs ! m)) = ?cs ! m" by (simp add: b1_def)
    then show "get_bytes b2 ?o (length (?cs ! m)) = ?cs ! m"
      using room by (subst get_bytes_agree [OF a2]) (auto simp: slot_pos)
    show "b2 x = b x" if "off \<le> x" for x
      using that room agree_outsideD [OF a2, of x] agree_outsideD [OF a1, of x] by (auto simp: slot_pos)
  qed (use room in \<open>simp_all add: s2 s1\<close>)
  moreover have "agree_outside 20 PAGE_SIZE b b2"
    by (rule agree_chain [OF a1 a2]) (use room off in \<open>auto simp: slot_pos\<close>)
  note agree_outside_trans [OF b(3) this]
  moreover have "slot b2 i = slot node i" if "Suc m \<le> i" "i < ?nc" for i
  proof -
    have "leaf_node_slot ?nc + sum_list (map length ?cs) \<le> PAGE_SIZE" by (rule leaf_ok_fits [OF ok])
    moreover have "?o + sum_list (map length (take (Suc m) ?cs)) = PAGE_SIZE"
      using \<open>packed ?cs (Suc m) b2 ?o\<close> by (simp add: packed_def)
    ultimately have "leaf_node_slot ?nc \<le> ?o" using sum_take_le [of "Suc m" ?cs] by linarith
    then have "slot b1 i = slot b i" using that by (intro slot_agree [OF a1]) (auto simp: slot_pos)
    then show ?thesis using that b(4) by (simp add: s2)
  qed
  ultimately show ?case by blast
qed


lemma leaf_defragment_ok:
  assumes ok: "leaf_ok node"
  defines "b \<equiv> leaf_node_defragment node"
  shows "cells b = cells node" "leaf_ok b" "same_links node b"
    "leaf_node_free_space b = PAGE_SIZE - sum_list (map length (cells node))"
proof -
  let ?nc = "leaf_node_num_cells node" and ?cs = "cells node"
  note pok = leaf_okD(1) [OF ok]
  have "cells b = ?cs \<and> leaf_ok b \<and> same_links node b \<and>
    leaf_node_free_space b = PAGE_SIZE - sum_list (map length ?cs)"
  proof (cases "?nc = 0")
    case True
    then have b: "b = set_free_space 4096 node" by (simp add: b_def leaf_node_defragment_def)
    have ag: "agree_outside 16 18 node b" by (auto simp: b set_free_space_def)
    have "same_links node b" by (rule same_linksI, rule agree_outsideD [OF ag]) auto
    moreover have "page_ok b" by (rule page_ok_agree [OF ag _ pok]) simp
    ultimately show ?thesis using True by (simp add: b leaf_ok_def cells_def slot_pos)
  next
    case False
    let ?temp = "put_bytes zero_buf 0 (get_bytes node 0 (leaf_node_slot ?nc))"
    obtain t off where t: "fold (defragment_step node) [0..<?nc] (?temp, 4096) = (t, off)"
      "packed ?cs ?nc t off" "agree_outside 20 PAGE_SIZE ?temp t"
      using defragment_packed [OF ok order_refl] by blast
    define t2 where "t2 = set_free_space off t"
    have fits: "leaf_node_slot (length ?cs) + sum_list (map length ?cs) \<le> PAGE_SIZE"
      using leaf_ok_fits [OF ok] by simp
    have off: "off < 65536" "20 \<le> off" using t(2) fits by (auto simp: packed_def slot_pos)
    have ag: "agree_outside 16 18 t t2" by (auto simp: t2_def set_free_space_def)
    have temp: "page_ok ?temp" using fits by (auto simp: page_ok_def put_bytes_def zero_buf_def slot_pos)
    have ok2: "page_ok t2" using page_ok_agree [OF t(3) _ temp] page_ok_agree [OF ag] by simp
    have "b = copy_buf PAGE_SIZE node t2" using False t(1) by (simp add: b_def leaf_node_defragment_def t2_def)
    then have b: "b = t2" using pok ok2 by (auto simp: copy_buf_def page_ok_def fun_eq_iff)
    have hi: "t2 x = t x" if "20 \<le> x" for x using that by (simp add: agree_outsideD [OF ag])
    have "get_bytes t2 o' l = get_bytes t o' l" if "20 \<le> o'" for o' l
      by (rule get_bytes_cong) (use that in \<open>simp add: hi\<close>)
    then have p: "packed ?cs (length ?cs) t2 off"
      using t(2) off by (auto simp: packed_def slot_fits_def t2_def)
    have low: "t2 i = node i" if "i < 16 \<or> 18 \<le> i \<and> i < 20" for i
      using that agree_outsideD [OF ag, of i] agree_outsideD [OF t(3), of i] by (auto simp: put_bytes_def slot_pos)
    have "leaf_node_num_cells t2 = ?nc"
      by (simp add: leaf_node_num_cells_def) (rule rd_cong, simp add: low)
    moreover have "same_links node t2" by (rule same_linksI) (auto intro: low)
    ultimately show ?thesis using packed_leaf [OF p _ _ fits ok2] off by (simp add: b t2_def)
  qed
  then show "cells b = ?cs" "leaf_ok b" "same_links node b"
    "leaf_node_free_space b = PAGE_SIZE - sum_list (map length ?cs)" by simp_all
qed

text \<open>After defragmentation a cell fits exactly when the bytes of the page suffice for it.\<close>

lemma leaf_full_defragmented:
  assumes "leaf_ok node"
  shows "leaf_full (leaf_node_free_space (leaf_node_defragment node)) (leaf_node_num_cells node) sz \<longleftrightarrow>
    PAGE_SIZE < leaf_node_slot (Suc (leaf_node_num_cells node)) + sum_list (map length (cells node)) + sz"
  using leaf_defragment_ok(4) [OF assms] leaf_ok_fits [OF assms] by (auto simp: leaf_full_def slot_pos)


section \<open>Splitting\<close>

lemma split_cells_eq:
  assumes "k \<le> leaf_node_num_cells old"
  shows "split_cells old k c = take k (cells old) @ c # drop k (cells old)"
proof (rule nth_equalityI)
  show "length (split_cells old k c) = length (take k (cells old) @ c # drop k (cells old))"
    using assms by (simp add: split_cells_def)
  fix i
  assume "i < length (split_cells old k c)"
  then have i: "i \<le> leaf_node_num_cells old" by (simp add: split_cells_def del: upt_Suc)
  consider "i < k" | "i = k" | d where "i = Suc (k + d)" by (metis less_imp_Suc_add linorder_neqE_nat)
  then show "split_cells old k c ! i = (take k (cells old) @ c # drop k (cells old)) ! i"
    using i assms by cases (simp_all add: split_cells_def nth_append del: upt_Suc)
qed

text \<open>
  Four overflow stubs do not fit on one page: 4 * 1024 bytes leave nothing for the header.  Packing
  them runs the free offset down to 0 and the last cell over the header and the slot array.
\<close>

lemma four_stubs_bytes:
  assumes "length c0 = 1024" "length c1 = 1024" "length c2 = 1024" "length c3 = 1024"
  shows "x < 8 \<or> 20 \<le> x \<and> x < 32 \<Longrightarrow> populate_leaf [c0, c1, c2, c3] node x = c3 ! x"
proof -
  have "[0..<4] = [0, 1, 2, 3 :: nat]" by (simp add: upt_rec)
  then have "fold populate_step (zip [0..<4] [c0, c1, c2, c3]) (node, 4096)
      = (set_slot 3 0 1024 (put_bytes (set_slot 2 1024 1024 (put_bytes (set_slot 1 2048 1024
          (put_bytes (set_slot 0 3072 1024 (put_bytes node 3072 c0)) 2048 c1)) 1024 c2)) 0 c3), 0)"
    using assms by (simp add: populate_step_def sub16_def Let_def)
  then have b: "populate_leaf [c0, c1, c2, c3] node =
      set_free_space 0 (set_num_cells 4 (set_slot 3 0 1024 (put_bytes (set_slot 2 1024 1024 (put_bytes (set_slot 1 2048 1024
          (put_bytes (set_slot 0 3072 1024 (put_bytes node 3072 c0)) 2048 c1)) 1024 c2)) 0 c3)))"
    by (simp add: populate_leaf_def numeral_eq_Suc)
  show "populate_leaf [c0, c1, c2, c3] node x = c3 ! x" if "x < 8 \<or> 20 \<le> x \<and> x < 32"
    using that assms(4) by (auto simp: b node_defs set_slot_def wr_def put_bytes_def leaf_node_slot_def)
qed

section \<open>Searching\<close>

abbreviation key_type :: "TableDef \<Rightarrow> ColumnType" where "key_type def \<equiv> col_type (columns def ! 0)"

definition keys :: "TableDef \<Rightarrow> buf \<Rightarrow> byte list list" where
  "keys def node = map (cell_key def node) [0..<leaf_node_num_cells node]"

text \<open>The order on raw keys that the tree keeps.\<close>

abbreviation key_less :: "TableDef \<Rightarrow> byte list \<Rightarrow> byte list \<Rightarrow> bool" where
  "key_less def x y \<equiv> compare_keys (key_type def) x y < 0"

definition sorted_keys :: "TableDef \<Rightarrow> byte list list \<Rightarrow> bool" where
  "sorted_keys def ks \<longleftrightarrow> sorted_wrt (\<lambda>x y. compare_keys (key_type def) x y \<le> 0) ks \<and>
     (\<forall>k \<in> set ks. key_ok (key_type def) k)"

lemma compare_keys_int:
  "compare_keys COL_INT x y < 0 \<longleftrightarrow>
     sint (of_nat (le_val (take 4 x)) :: 32 word) < sint (of_nat (le_val (take 4 y)) :: 32 word)"
  by (simp add: compare_keys_def i32_cmp_def)

lemma leaf_node_find_bound:
  "leaf_node_find node k def = lower_bound (\<lambda>i. key_less def (cell_key def node i) k) 0 (leaf_node_num_cells node)"
proof (cases "key_type def = COL_INT")
  case True
  have "take 4 (cell_key def node i) = le_bytes 4 (unat (int_val (extract_col0_from_packed_record def node
      (leaf_node_value node i) (slot_size node i))))" for i
    using True by (simp add: cell_key_def serialize_col0_key_def take_key_pad)
  then show ?thesis using True by (simp add: leaf_node_find_def compare_keys_int Let_def)
qed (simp add: leaf_node_find_def Let_def)

lemma internal_node_find_child_bound:
  "internal_node_find_child node k def =
     lower_bound (\<lambda>i. key_less def (node_key node i) k) 0 (internal_node_num_keys node)"
proof (cases "key_type def = COL_INT")
  case True
  have "le_val (take 4 (node_key node i)) = rd 4 node (internal_node_key i)" for i
    by (simp add: node_key_def rd_def get_bytes_def take_map)
  then show ?thesis using True by (simp add: internal_node_find_child_def compare_keys_int Let_def)
qed (simp add: internal_node_find_child_def Let_def)

lemma sorted_keys_below:
  assumes "sorted_keys def ks" "key_ok (key_type def) k" "j < length ks" "i \<le> j" "key_less def (ks ! j) k"
  shows "key_less def (ks ! i) k"
  using key_order.sorted_below_prefix [of "key_type def" ks k j i] assms by (simp add: sorted_keys_def)

text \<open>The contract of both searches: the number of keys below \<open>k\<close>.\<close>

definition splits_at :: "TableDef \<Rightarrow> byte list list \<Rightarrow> byte list \<Rightarrow> nat \<Rightarrow> bool" where
  "splits_at def ks k n \<longleftrightarrow> n \<le> length ks \<and> (\<forall>x \<in> set (take n ks). key_less def x k) \<and>
     (\<forall>x \<in> set (drop n ks). \<not> key_less def x k)"

lemma lower_bound_splits:
  assumes "sorted_keys def ks" "key_ok (key_type def) k"
  shows "splits_at def ks k (lower_bound (\<lambda>i. key_less def (ks ! i) k) 0 (length ks))"
proof -
  let ?n = "lower_bound (\<lambda>i. key_less def (ks ! i) k) 0 (length ks)"
  have n: "?n \<le> length ks" using lower_bound_range by blast
  have sp: "(\<forall>i. 0 \<le> i \<longrightarrow> i < ?n \<longrightarrow> key_less def (ks ! i) k) \<and>
      (\<forall>i. ?n \<le> i \<longrightarrow> i < length ks \<longrightarrow> \<not> key_less def (ks ! i) k)"
    by (rule lower_bound_spec) (use sorted_keys_below [OF assms] in auto)
  define m where "m = ?n"
  note sp' = sp [folded m_def] and n' = n [folded m_def]
  have "key_less def x k" if x: "x \<in> set (take m ks)" for x
  proof -
    obtain i where "i < m" "x = ks ! i" using x n' by (auto simp: in_set_conv_nth)
    then show ?thesis using sp' by simp
  qed
  moreover have "\<not> key_less def x k" if x: "x \<in> set (drop m ks)" for x
  proof -
    obtain i where "m + i < length ks" "x = ks ! (m + i)" using x n' by (auto simp: in_set_conv_nth less_diff_conv add.commute)
    then show ?thesis using sp' by simp
  qed
  ultimately show ?thesis using n' unfolding splits_at_def m_def by blast
qed

lemma lower_bound_cong:
  "(\<And>i. lo \<le> i \<Longrightarrow> i < hi \<Longrightarrow> p i = q i) \<Longrightarrow> lower_bound p lo hi = lower_bound q lo hi"
proof (induction p lo hi rule: lower_bound.induct)
  case (1 p lo hi)
  show ?case
  proof (cases "lo < hi")
    case True
    let ?m = "(lo + hi) div 2"
    have "lo \<le> ?m" "?m < hi" using True by auto
    with "1.prems" have "p ?m = q ?m" by simp
    moreover have "lower_bound p (?m + 1) hi = lower_bound q (?m + 1) hi" if "p ?m"
      using "1.IH"(1) [OF True refl that] "1.prems" \<open>lo \<le> ?m\<close> by simp
    moreover have "lower_bound p lo ?m = lower_bound q lo ?m" if "\<not> p ?m"
      using "1.IH"(2) [OF True refl that] "1.prems" \<open>?m < hi\<close> by simp
    ultimately show ?thesis
      using True by (simp add: lower_bound.simps [of p lo hi] lower_bound.simps [of q lo hi] Let_def)
  qed (simp add: lower_bound.simps [of p lo hi] lower_bound.simps [of q lo hi])
qed

lemma leaf_node_find_splits:
  assumes "sorted_keys def (keys def node)" "key_ok (key_type def) k"
  shows "splits_at def (keys def node) k (leaf_node_find node k def)"
proof -
  have "lower_bound (\<lambda>i. key_less def (keys def node ! i) k) 0 (length (keys def node)) = leaf_node_find node k def"
    unfolding leaf_node_find_bound by (auto simp: keys_def intro: lower_bound_cong)
  with lower_bound_splits [OF assms] show ?thesis by simp
qed

text \<open>Separators and children of an internal node.\<close>

definition separators :: "buf \<Rightarrow> byte list list" where
  "separators node = map (node_key node) [0..<internal_node_num_keys node]"

definition children :: "buf \<Rightarrow> nat list" where
  "children node = map (\<lambda>i. rd 4 node (internal_node_cell i)) [0..<internal_node_num_keys node]
     @ [internal_node_right_child node]"

lemma child_page_children:
  "i \<le> internal_node_num_keys node \<Longrightarrow> child_page node i = Some (children node ! i)"
  by (auto simp: child_page_def internal_node_child_def children_def nth_append Let_def internal_node_right_child_def)

lemma internal_node_find_child_splits:
  assumes "sorted_keys def (separators node)" "key_ok (key_type def) k"
  shows "splits_at def (separators node) k (internal_node_find_child node k def)"
proof -
  have "lower_bound (\<lambda>i. key_less def (separators node ! i) k) 0 (length (separators node)) = internal_node_find_child node k def"
    unfolding internal_node_find_child_bound by (auto simp: separators_def intro: lower_bound_cong)
  with lower_bound_splits [OF assms] show ?thesis by simp
qed

end
