(* ===== verification/Btree_Search.thy ===== *)
theory Btree_Search
  imports Btree Btree_Leaf Rollback
begin

text \<open>
  Searching and scanning a B+ tree through the pager.  \<open>tree_ok\<close> describes a well-formed tree in the
  pages a pager shows, \<open>tree_keys\<close> is the sequence of keys of its leaves.  \<open>btree_find_out\<close> returns
  the position of the first key that is not below the wanted one, \<open>btree_start_out\<close> position 0, and
  \<open>cursor_advance\<close> goes from a position to the next.
\<close>

section \<open>Reading pages in a transaction\<close>

definition reading :: "Pager \<Rightarrow> bool" where
  "reading pg \<longleftrightarrow> settled pg \<and> file_mode pg \<and> cache_ok pg \<and> (\<forall>n. shadowed pg n \<longrightarrow> shadow_pages pg n \<noteq> None)"

text \<open>Nothing a caller of the B+ tree can see has changed.\<close>

definition unseen :: "Pager \<Rightarrow> Pager \<Rightarrow> bool" where
  "unseen pg p \<longleftrightarrow> reading p \<and> view p = view pg \<and> base p = base pg \<and> same_core pg p \<and>
     (\<forall>n. pages pg n \<noteq> None \<longrightarrow> pages p n \<noteq> None)"

lemma unseenD:
  assumes "unseen pg p"
  shows "reading p" "view p = view pg" "reserved_catalog_pages p = reserved_catalog_pages pg"
  using assms by (simp_all add: unseen_def same_core_def)

lemma unseen_refl [simp]: "unseen pg pg \<longleftrightarrow> reading pg"
  by (simp add: unseen_def)

lemma unseen_trans: "unseen a b \<Longrightarrow> unseen b c \<Longrightarrow> unseen a c"
  by (auto simp: unseen_def intro: same_core_trans)

lemma read_page_reading:
  assumes "reading pg" "n < MAX_PAGES"
  obtains p where "read_page pg n = Some (view pg n, p)" "unseen pg p"
proof -
  obtain r p where p: "get_page pg n = Some (Some r, p)" "deref p r = Some (view pg n)"
    "same_core pg p" "cache_ok p" "base p = base pg" "pages p = (pages pg)(n := Some (base pg n))"
    by (rule get_page_settled [of pg n]) (use assms in \<open>auto simp: reading_def\<close>)
  have fm: "file_mode p" using file_mode_core [OF p(3)] assms by (simp add: reading_def)
  have sh: "shadowed p = shadowed pg" "shadow_pages p = shadow_pages pg" "is_writer p = is_writer pg"
    using p(3) by (auto simp: same_core_def shadowed_def is_writer_def fun_eq_iff)
  then have "view p = view pg" by (auto simp: view_def p(5) fun_eq_iff)
  moreover have "reading p" using assms(1) p(3,4) fm sh by (simp add: reading_def settled_def same_core_def)
  ultimately have "unseen pg p" using p(3,5,6) by (simp add: unseen_def)
  then show ?thesis using p that by (simp add: read_page_def)
qed

section \<open>Well-formed trees\<close>

type_synonym pages = "nat \<Rightarrow> buf"

fun leaf_pages :: "pages \<Rightarrow> nat \<Rightarrow> nat \<Rightarrow> nat list" where
  "leaf_pages V 0 p = [p]"
| "leaf_pages V (Suc d) p = concat (map (leaf_pages V d) (children (V p)))"

definition leaf_keys :: "TableDef \<Rightarrow> pages \<Rightarrow> nat list \<Rightarrow> byte list list" where
  "leaf_keys def V ps = concat (map (\<lambda>p. keys def (V p)) ps)"

abbreviation tree_keys :: "TableDef \<Rightarrow> pages \<Rightarrow> nat \<Rightarrow> nat \<Rightarrow> byte list list" where
  "tree_keys def V d p \<equiv> leaf_keys def V (leaf_pages V d p)"

text \<open>
  A tree of height \<open>d\<close> at page \<open>p\<close>: sorted leaves at the bottom; in an internal node sorted
  separators, none of which is below a key to its left or above a key to its right.
\<close>

fun tree_ok :: "TableDef \<Rightarrow> pages \<Rightarrow> nat \<Rightarrow> nat \<Rightarrow> bool" where
  "tree_ok def V 0 p \<longleftrightarrow> p < MAX_PAGES \<and> get_node_type (V p) = NODE_LEAF \<and> sorted_keys def (keys def (V p))"
| "tree_ok def V (Suc d) p \<longleftrightarrow> p < MAX_PAGES \<and> get_node_type (V p) = NODE_INTERNAL \<and>
     sorted_keys def (separators (V p)) \<and> (\<forall>c \<in> set (children (V p)). tree_ok def V d c) \<and>
     (\<forall>i < internal_node_num_keys (V p).
        (\<forall>j \<le> i. \<forall>k \<in> set (tree_keys def V d (children (V p) ! j)).
           compare_keys (key_type def) k (separators (V p) ! i) \<le> 0) \<and>
        (\<forall>j. i < j \<longrightarrow> j \<le> internal_node_num_keys (V p) \<longrightarrow>
           (\<forall>k \<in> set (tree_keys def V d (children (V p) ! j)).
              compare_keys (key_type def) (separators (V p) ! i) k \<le> 0)))"

lemma tree_ok_separators:
  assumes "tree_ok def V (Suc d) p" "i < internal_node_num_keys (V p)"
  shows "j \<le> i \<Longrightarrow> k \<in> set (tree_keys def V d (children (V p) ! j)) \<Longrightarrow>
           compare_keys (key_type def) k (separators (V p) ! i) \<le> 0"
    and "i < j \<Longrightarrow> j \<le> internal_node_num_keys (V p) \<Longrightarrow> k \<in> set (tree_keys def V d (children (V p) ! j)) \<Longrightarrow>
           compare_keys (key_type def) (separators (V p) ! i) k \<le> 0"
  using assms by auto

lemma tree_ok_page: "tree_ok def V d p \<Longrightarrow> p < MAX_PAGES"
  by (cases d) auto

lemma length_children [simp]: "length (children b) = Suc (internal_node_num_keys b)"
  by (simp add: children_def)

lemma length_separators [simp]: "length (separators b) = internal_node_num_keys b"
  by (simp add: separators_def)

lemma length_keys [simp]: "length (keys def b) = leaf_node_num_cells b"
  by (simp add: keys_def)

lemma leaf_keys_append: "leaf_keys def V (xs @ ys) = leaf_keys def V xs @ leaf_keys def V ys"
  by (simp add: leaf_keys_def)

lemma leaf_keys_simps [simp]: "leaf_keys def V (p # ps) = keys def (V p) @ leaf_keys def V ps" "leaf_keys def V [] = []"
  by (simp_all add: leaf_keys_def)

lemma tree_key_ok: "tree_ok def V d p \<Longrightarrow> k \<in> set (tree_keys def V d p) \<Longrightarrow> key_ok (key_type def) k"
proof (induction d arbitrary: p)
  case 0
  then show ?case by (auto simp: leaf_keys_def sorted_keys_def)
next
  case (Suc d)
  then obtain c where "c \<in> set (children (V p))" "k \<in> set (tree_keys def V d c)"
    by (auto simp: leaf_keys_def)
  with Suc show ?case by auto
qed

text \<open>The leaf the descent ends in: every key of an earlier leaf is below \<open>k\<close>, none of a later one.\<close>

definition leaf_for :: "TableDef \<Rightarrow> pages \<Rightarrow> byte list \<Rightarrow> nat list \<Rightarrow> nat list \<Rightarrow> bool" where
  "leaf_for def V k before after \<longleftrightarrow>
     (\<forall>x \<in> set (leaf_keys def V before). key_less def x k) \<and>
     (\<forall>x \<in> set (leaf_keys def V after). \<not> key_less def x k)"

lemma btree_descend_step:
  assumes "reading pg" "p < MAX_PAGES"
  obtains q where "unseen pg q" "btree_descend pick p pg =
    (if get_node_type (view pg p) = NODE_INTERNAL
     then child_page (view pg p) (pick (view pg p)) \<bind> (\<lambda>c. btree_descend pick c q)
     else Some (p, view pg p, q))"
proof -
  obtain q where "read_page pg p = Some (view pg p, q)" "unseen pg q"
    by (rule read_page_reading [OF assms])
  then show ?thesis using that by (subst (asm) btree_descend.simps) auto
qed

lemma children_split:
  assumes "i \<le> internal_node_num_keys b"
  shows "children b = take i (children b) @ children b ! i # drop (Suc i) (children b)"
  using assms by (intro id_take_nth_drop) simp

lemma key_le_less:
  assumes "compare_keys ty x y \<le> 0" "compare_keys ty y k < 0" "key_ok ty x" "key_ok ty y" "key_ok ty k"
  shows "compare_keys ty x k < 0"
  using key_order.cmp_less_trans assms by blast

text \<open>The leaf a search for \<open>k\<close> ends in.\<close>

fun find_leaf :: "TableDef \<Rightarrow> pages \<Rightarrow> byte list \<Rightarrow> nat \<Rightarrow> nat \<Rightarrow> nat" where
  "find_leaf def V k 0 p = p"
| "find_leaf def V k (Suc d) p = find_leaf def V k d (children (V p) ! internal_node_find_child (V p) k def)"

lemma descend_find:
  assumes "tree_ok def (view pg) d p" "key_ok (key_type def) k" "reading pg"
  defines "l \<equiv> find_leaf def (view pg) k d p"
  shows "\<exists>q before after. btree_descend (\<lambda>node. internal_node_find_child node k def) p pg = Some (l, view pg l, q) \<and>
    unseen pg q \<and> leaf_pages (view pg) d p = before @ l # after \<and> leaf_for def (view pg) k before after"
  using assms(1-3) unfolding l_def
proof (induction d arbitrary: p pg)
  case 0
  obtain q where "unseen pg q" "btree_descend (\<lambda>node. internal_node_find_child node k def) p pg = Some (p, view pg p, q)"
    using btree_descend_step [OF 0(3), of p "\<lambda>node. internal_node_find_child node k def"] 0(1) by auto
  then show ?case by (intro exI [of _ q] exI [of _ "[]"]) (simp add: leaf_for_def leaf_keys_def)
next
  case (Suc d)
  let ?V = "view pg" and ?b = "view pg p"
  define i where "i = internal_node_find_child ?b k def"
  have T: "p < MAX_PAGES" "get_node_type ?b = NODE_INTERNAL" "sorted_keys def (separators ?b)"
    "\<And>c. c \<in> set (children ?b) \<Longrightarrow> tree_ok def ?V d c" using Suc.prems(1) by auto
  note left = tree_ok_separators(1) [OF Suc.prems(1)] and right = tree_ok_separators(2) [OF Suc.prems(1)]
  have sp: "splits_at def (separators ?b) k i"
    unfolding i_def by (rule internal_node_find_child_splits [OF T(3) Suc.prems(2)])
  then have ile: "i \<le> internal_node_num_keys ?b" by (simp add: splits_at_def)
  define c where "c = children ?b ! i"
  have c: "child_page ?b i = Some c" "c \<in> set (children ?b)"
    using child_page_children [OF ile] ile by (auto simp: c_def)
  obtain q where q: "unseen pg q" "btree_descend (\<lambda>node. internal_node_find_child node k def) p pg =
      btree_descend (\<lambda>node. internal_node_find_child node k def) c q"
    using btree_descend_step [OF Suc.prems(3) T(1), of "\<lambda>node. internal_node_find_child node k def"] T(2) c(1)
    by (auto simp: i_def)
  note u = unseenD [OF q(1)]
  define l where "l = find_leaf def ?V k d c"
  obtain q' before after where l: "btree_descend (\<lambda>node. internal_node_find_child node k def) c q = Some (l, ?V l, q')"
    "unseen q q'" "leaf_pages ?V d c = before @ l # after" "leaf_for def ?V k before after"
    using Suc.IH [of q c] T(4) [OF c(2)] Suc.prems(2) u by (auto simp: l_def)
  let ?pre = "concat (map (leaf_pages ?V d) (take i (children ?b)))"
    and ?post = "concat (map (leaf_pages ?V d) (drop (Suc i) (children ?b)))"
  have lp: "leaf_pages ?V (Suc d) p = (?pre @ before) @ l # (after @ ?post)"
    using children_split [OF ile] l(3) by (simp add: c_def) (metis append.assoc append_Cons concat.simps(2) concat_append list.simps(9) map_append)
  have sepok: "key_ok (key_type def) (separators ?b ! s)" if "s < internal_node_num_keys ?b" for s
    using T(3) that by (simp add: sorted_keys_def)
  have "key_less def x k" if x: "x \<in> set (leaf_keys def ?V ?pre)" for x
  proof -
    obtain c' where c': "c' \<in> set (take i (children ?b))" "x \<in> set (tree_keys def ?V d c')"
      using x by (auto simp: leaf_keys_def)
    obtain j where "j < i" "c' = children ?b ! j"
      using c'(1) ile by (auto simp: in_set_conv_nth)
    with c'(2) have j: "j < i" "x \<in> set (tree_keys def ?V d (children ?b ! j))" by simp_all
    have s: "i - 1 < internal_node_num_keys ?b" "j \<le> i - 1" using j ile by auto
    have "separators ?b ! (i - 1) \<in> set (take i (separators ?b))"
      using j(1) ile by (auto simp: in_set_conv_nth intro!: exI [of _ "i - 1"])
    then have "key_less def (separators ?b ! (i - 1)) k" using sp by (simp add: splits_at_def)
    moreover have "children ?b ! j \<in> set (children ?b)" using j(1) ile by simp
    ultimately show ?thesis
      using key_le_less [OF left [OF s(1,2) j(2)]] tree_key_ok [OF T(4) j(2)] sepok [OF s(1)] Suc.prems(2) by blast
  qed
  moreover have "\<not> key_less def x k" if x: "x \<in> set (leaf_keys def ?V ?post)" for x
  proof -
    obtain c' where c': "c' \<in> set (drop (Suc i) (children ?b))" "x \<in> set (tree_keys def ?V d c')"
      using x by (auto simp: leaf_keys_def)
    obtain m where "m < internal_node_num_keys ?b - i" "c' = children ?b ! (Suc i + m)"
      using c'(1) ile by (auto simp: in_set_conv_nth)
    with c'(2) have j: "i < Suc i + m" "Suc i + m \<le> internal_node_num_keys ?b"
      "x \<in> set (tree_keys def ?V d (children ?b ! (Suc i + m)))" by auto
    define j where "j = Suc i + m"
    note j = j [folded j_def]
    have "separators ?b ! i \<in> set (drop i (separators ?b))"
      using j ile by (auto simp: in_set_conv_nth intro!: exI [of _ 0])
    then have "\<not> key_less def (separators ?b ! i) k" using sp by (simp add: splits_at_def)
    moreover have "children ?b ! j \<in> set (children ?b)" using j by simp
    moreover have "i < internal_node_num_keys ?b" using j by simp
    ultimately show ?thesis
      using key_le_less [OF right [OF _ j] _ sepok _ Suc.prems(2)] tree_key_ok [OF T(4) j(3)] by blast
  qed
  ultimately have "leaf_for def ?V k (?pre @ before) (after @ ?post)"
    using l(4) by (auto simp: leaf_for_def leaf_keys_append)
  moreover have "find_leaf def ?V k (Suc d) p = l" by (simp add: l_def c_def i_def)
  ultimately show ?case
    using q(2) l(1) lp unseen_trans [OF q(1) l(2)] by (metis u(2))
qed


lemma tree_keys_sorted: "tree_ok def V d p \<Longrightarrow> sorted_wrt (\<lambda>x y. compare_keys (key_type def) x y \<le> 0) (tree_keys def V d p)"
proof (induction d arbitrary: p)
  case 0
  then show ?case by (simp add: leaf_keys_def sorted_keys_def)
next
  case (Suc d)
  let ?cs = "children (V p)" and ?le = "\<lambda>x y. compare_keys (key_type def) x y \<le> 0"
  have T: "\<And>c. c \<in> set ?cs \<Longrightarrow> tree_ok def V d c" "sorted_keys def (separators (V p))" using Suc.prems by auto
  have "sorted_wrt ?le (leaf_keys def V (concat (map (leaf_pages V d) (take m ?cs))))" for m
  proof (induction m)
    case 0
    then show ?case by (simp add: leaf_keys_def)
  next
    case IH: (Suc m)
    show ?case
    proof (cases "m < length ?cs")
      case True
      have eq: "leaf_keys def V (concat (map (leaf_pages V d) (take (Suc m) ?cs))) =
          leaf_keys def V (concat (map (leaf_pages V d) (take m ?cs))) @ tree_keys def V d (?cs ! m)"
        using True by (simp add: take_Suc_conv_app_nth leaf_keys_append)
      have "?le x y" if x: "x \<in> set (leaf_keys def V (concat (map (leaf_pages V d) (take m ?cs))))"
        and y: "y \<in> set (tree_keys def V d (?cs ! m))" for x y
      proof -
        obtain c where c: "c \<in> set (take m ?cs)" "x \<in> set (tree_keys def V d c)"
          using x by (auto simp: leaf_keys_def)
        obtain j where j: "j < m" "c = ?cs ! j" using c(1) True by (auto simp: in_set_conv_nth)
        have mk: "m \<le> internal_node_num_keys (V p)" using True by simp
        let ?s = "separators (V p) ! j"
        have jn: "j < internal_node_num_keys (V p)" using j(1) mk by simp
        have "?le x ?s" "?le ?s y"
          using tree_ok_separators [OF Suc.prems jn] c(2) j mk y by auto
        moreover have "key_ok (key_type def) ?s" using T(2) j mk by (simp add: sorted_keys_def)
        moreover have "key_ok (key_type def) x" using tree_key_ok [OF T(1) c(2)] j True by simp
        moreover have "key_ok (key_type def) y" using tree_key_ok [OF T(1) y] True by simp
        ultimately show ?thesis by (meson key_order.cmp_trans)
      qed
      then show ?thesis
        unfolding eq sorted_wrt_append using IH Suc.IH [OF T(1), of "?cs ! m"] True by simp
    qed (use IH in simp)
  qed
  from this [of "length ?cs"] show ?case by simp
qed

section \<open>Cursor positions\<close>

fun leaf_chain :: "pages \<Rightarrow> nat list \<Rightarrow> bool" where
  "leaf_chain V [] \<longleftrightarrow> True"
| "leaf_chain V [p] \<longleftrightarrow> leaf_node_next_leaf (V p) = 0"
| "leaf_chain V (p # q # ps) \<longleftrightarrow> leaf_node_next_leaf (V p) = q \<and> q \<noteq> 0 \<and> leaf_chain V (q # ps)"

lemma leaf_chain_at:
  "leaf_chain V (before @ l # after) \<Longrightarrow>
     leaf_node_next_leaf (V l) = (case after of [] \<Rightarrow> 0 | q # _ \<Rightarrow> q) \<and> (after \<noteq> [] \<longrightarrow> hd after \<noteq> 0)"
proof (induction before)
  case Nil
  then show ?case by (cases after) auto
next
  case (Cons x before)
  then show ?case by (cases before) auto
qed

text \<open>Linked leaves, none of them empty unless it is the only one.\<close>

definition table_ok :: "TableDef \<Rightarrow> pages \<Rightarrow> nat \<Rightarrow> bool" where
  "table_ok def V d \<longleftrightarrow> tree_ok def V d (root_page_num def) \<and> leaf_chain V (leaf_pages V d (root_page_num def)) \<and>
     (0 < d \<longrightarrow> (\<forall>p \<in> set (leaf_pages V d (root_page_num def)). 0 < leaf_node_num_cells (V p)))"

definition num_entries :: "pages \<Rightarrow> nat list \<Rightarrow> nat" where
  "num_entries V ps = sum_list (map (\<lambda>p. leaf_node_num_cells (V p)) ps)"

text \<open>The cursor stands on entry \<open>n\<close> of the leaves \<open>ps\<close>, or at the end.\<close>

definition at_position :: "pages \<Rightarrow> nat list \<Rightarrow> Cursor \<Rightarrow> nat \<Rightarrow> bool" where
  "at_position V ps c n \<longleftrightarrow>
     (if n = num_entries V ps then end_of_table c
      else \<not> end_of_table c \<and> (\<exists>before after. ps = before @ c_page c # after \<and>
             c_cell c < leaf_node_num_cells (V (c_page c)) \<and> n = num_entries V before + c_cell c))"

lemma num_entries_append [simp]:
  "num_entries V (xs @ ys) = num_entries V xs + num_entries V ys"
  "num_entries V (p # ps) = leaf_node_num_cells (V p) + num_entries V ps" "num_entries V [] = 0"
  by (simp_all add: num_entries_def)

lemma length_leaf_keys [simp]: "length (leaf_keys def V ps) = num_entries V ps"
  by (induction ps) (auto simp: leaf_keys_def)

lemma num_entries_pos: "ps \<noteq> [] \<Longrightarrow> \<forall>p \<in> set ps. 0 < leaf_node_num_cells (V p) \<Longrightarrow> 0 < num_entries V ps"
  by (cases ps) auto

lemma leaf_pages_ok: "tree_ok def V d p \<Longrightarrow> q \<in> set (leaf_pages V d p) \<Longrightarrow> tree_ok def V 0 q"
proof (induction d arbitrary: p)
  case (Suc d)
  then obtain c where "c \<in> set (children (V p))" "q \<in> set (leaf_pages V d c)" by auto
  with Suc show ?case by auto
qed simp

lemma table_leaf:
  assumes "table_ok def V d" "leaf_pages V d (root_page_num def) = before @ l # after"
  shows "l < MAX_PAGES" "sorted_keys def (keys def (V l))"
    "leaf_node_next_leaf (V l) = (case after of [] \<Rightarrow> 0 | q # _ \<Rightarrow> q)"
    "after = q # rest \<Longrightarrow> q \<noteq> 0 \<and> q < MAX_PAGES \<and> 0 < leaf_node_num_cells (V q)"
proof -
  have ok: "tree_ok def V 0 m" if "m \<in> set (before @ l # after)" for m
    using leaf_pages_ok assms that unfolding table_ok_def by metis
  show "l < MAX_PAGES" "sorted_keys def (keys def (V l))" using ok [of l] by auto
  have chain: "leaf_chain V (before @ l # after)" using assms by (simp add: table_ok_def)
  show "leaf_node_next_leaf (V l) = (case after of [] \<Rightarrow> 0 | q # _ \<Rightarrow> q)"
    using leaf_chain_at [OF chain] by simp
  show "q \<noteq> 0 \<and> q < MAX_PAGES \<and> 0 < leaf_node_num_cells (V q)" if after: "after = q # rest"
  proof -
    have "0 < d" using assms(2) after by (cases d) (auto simp: append_eq_Cons_conv)
    then show ?thesis
      using leaf_chain_at [OF chain] ok [of q] after assms by (auto simp: table_ok_def)
  qed
qed

text \<open>The cursor \<open>leaf_cursor\<close> gives, as a function of the pages.\<close>

definition cursor_for :: "TableDef \<Rightarrow> pages \<Rightarrow> byte list \<Rightarrow> nat \<Rightarrow> Cursor" where
  "cursor_for def V k l =
     (let i = leaf_node_find (V l) k def; next_leaf = leaf_node_next_leaf (V l)
      in if i < leaf_node_num_cells (V l) then \<lparr>c_page = l, c_cell = i, end_of_table = False\<rparr>
         else if next_leaf = 0 then \<lparr>c_page = l, c_cell = i, end_of_table = True\<rparr>
         else \<lparr>c_page = next_leaf, c_cell = 0, end_of_table = (leaf_node_num_cells (V next_leaf) = 0)\<rparr>)"

lemma leaf_cursor_for:
  assumes "table_ok def (view pg) d" "leaf_pages (view pg) d (root_page_num def) = before @ l # after" "reading pg"
  obtains q where "leaf_cursor def k l (view pg l) pg = Some (cursor_for def (view pg) k l, q)" "unseen pg q"
proof -
  let ?V = "view pg"
  note tl = table_leaf [OF assms(1,2)]
  show ?thesis
  proof (cases "leaf_node_find (?V l) k def < leaf_node_num_cells (?V l) \<or> after = []")
    case True
    then show ?thesis
      using that [of pg] assms(3) tl(3) by (auto simp: leaf_cursor_def cursor_for_def Let_def)
  next
    case False
    then obtain n rest where Cons: "after = n # rest" by (cases after) auto
    note nx = tl(4) [OF Cons]
    obtain q where "read_page pg n = Some (?V n, q)" "unseen pg q"
      by (rule read_page_reading [OF assms(3), of n]) (use nx in auto)
    then show ?thesis
      using that [of q] False Cons tl(3) nx by (simp add: leaf_cursor_def cursor_for_def Let_def)
  qed
qed

lemma cursor_for_position:
  assumes "table_ok def V d" "leaf_pages V d (root_page_num def) = before @ l # after" "key_ok (key_type def) k"
  shows "at_position V (before @ l # after) (cursor_for def V k l) (num_entries V before + leaf_node_find (V l) k def)"
proof -
  let ?i = "leaf_node_find (V l) k def"
  note tl = table_leaf [OF assms(1,2)]
  have i: "?i \<le> leaf_node_num_cells (V l)"
    using leaf_node_find_splits [OF tl(2) assms(3)] by (simp add: splits_at_def)
  show ?thesis
  proof (cases "?i < leaf_node_num_cells (V l)")
    case True
    then show ?thesis by (force simp: cursor_for_def at_position_def Let_def)
  next
    case False
    with i have eq: "?i = leaf_node_num_cells (V l)" by simp
    show ?thesis
    proof (cases after)
      case Nil
      with eq tl(3) show ?thesis by (simp add: cursor_for_def at_position_def)
    next
      case (Cons n rest)
      note nx = tl(4) [OF Cons]
      have "\<exists>b a. before @ l # n # rest = b @ n # a \<and> num_entries V before + leaf_node_num_cells (V l) = num_entries V b"
        by (intro exI [of _ "before @ [l]"] exI [of _ rest]) simp
      with Cons eq tl(3) nx show ?thesis by (simp add: cursor_for_def at_position_def)
    qed
  qed
qed

lemma splits_at_parts:
  assumes "splits_at def (keys def (V l)) k i" "leaf_for def V k before after"
  shows "splits_at def (leaf_keys def V (before @ l # after)) k (num_entries V before + i)"
  using assms by (auto simp: splits_at_def leaf_for_def leaf_keys_append)


section \<open>The search functions\<close>

lemma find_out_cursor:
  assumes "table_ok def (view pg) d" "reading pg" "key_ok (key_type def) (serialize_col0_key def v)"
  defines "l \<equiv> find_leaf def (view pg) (serialize_col0_key def v) d (root_page_num def)"
  obtains q before after where
    "btree_find_out def v pg = Some (cursor_for def (view pg) (serialize_col0_key def v) l, q)" "unseen pg q"
    "leaf_pages (view pg) d (root_page_num def) = before @ l # after"
    "leaf_for def (view pg) (serialize_col0_key def v) before after"
proof -
  let ?k = "serialize_col0_key def v"
  have "tree_ok def (view pg) d (root_page_num def)" using assms(1) by (simp add: table_ok_def)
  from descend_find [OF this assms(3,2), folded l_def] obtain q before after where l:
    "btree_descend (\<lambda>node. internal_node_find_child node ?k def) (root_page_num def) pg = Some (l, view pg l, q)"
    "unseen pg q" "leaf_pages (view pg) d (root_page_num def) = before @ l # after" "leaf_for def (view pg) ?k before after"
    by blast
  note u = unseenD [OF l(2)]
  obtain q' where "leaf_cursor def ?k l (view q l) q = Some (cursor_for def (view q) ?k l, q')" "unseen q q'"
    by (rule leaf_cursor_for [of def q d before l after]) (use assms(1) l u in auto)
  then show ?thesis
    using that [of q' before after] l u unseen_trans [OF l(2)] by (simp add: btree_find_out_def)
qed

lemma find_leaf_position:
  assumes "table_ok def V d" "key_ok (key_type def) k" "leaf_pages V d (root_page_num def) = before @ l # after"
    "leaf_for def V k before after"
  shows "\<exists>n. splits_at def (tree_keys def V d (root_page_num def)) k n \<and>
    at_position V (leaf_pages V d (root_page_num def)) (cursor_for def V k l) n"
proof -
  have "splits_at def (keys def (V l)) k (leaf_node_find (V l) k def)"
    using table_leaf(2) [OF assms(1,3)] assms(2) by (rule leaf_node_find_splits)
  from splits_at_parts [OF this assms(4)] cursor_for_position [OF assms(1,3,2)]
  show ?thesis unfolding assms(3) by blast
qed

text \<open>
  C9.  Search.  In a well-formed table the search returns without changing what the pager shows, at
  the position of the first key that is not below the wanted one: all keys before it are below, it
  and all later keys are not; when every key is below, the cursor is at the end of the table.
\<close>

theorem btree_find_position:
  assumes "table_ok def (view pg) d" "reading pg" "key_ok (key_type def) (serialize_col0_key def v)"
  shows "\<exists>c q n. btree_find_out def v pg = Some (c, q) \<and> unseen pg q \<and>
    splits_at def (tree_keys def (view pg) d (root_page_num def)) (serialize_col0_key def v) n \<and>
    at_position (view pg) (leaf_pages (view pg) d (root_page_num def)) c n"
proof -
  let ?k = "serialize_col0_key def v"
  obtain q before after where l: "btree_find_out def v pg = Some (cursor_for def (view pg) ?k (find_leaf def (view pg) ?k d (root_page_num def)), q)"
    "unseen pg q" "leaf_pages (view pg) d (root_page_num def) = before @ find_leaf def (view pg) ?k d (root_page_num def) # after"
    "leaf_for def (view pg) ?k before after"
    by (rule find_out_cursor [OF assms])
  from find_leaf_position [OF assms(1,3) l(3,4)] l(1,2) show ?thesis by blast
qed

lemma navigate_cursor:
  assumes "table_ok def (view pg) d" "leaf_pages (view pg) d (root_page_num def) = before @ l # after" "reading pg"
  obtains q where "leaf_node_navigate def l k pg = Some (cursor_for def (view pg) k l, q)" "unseen pg q"
proof -
  obtain q where q: "read_page pg l = Some (view pg l, q)" "unseen pg q"
    by (rule read_page_reading [OF assms(3) table_leaf(1) [OF assms(1,2)]])
  note u = unseenD [OF q(2)]
  obtain q' where "leaf_cursor def k l (view q l) q = Some (cursor_for def (view q) k l, q')" "unseen q q'"
    by (rule leaf_cursor_for [of def q d before l after]) (use assms u in auto)
  then show ?thesis using that [of q'] q u unseen_trans [OF q(2)] by (simp add: leaf_node_navigate_def)
qed

lemma internal_find_cursor:
  assumes "tree_ok def (view pg) (Suc d) p" "table_ok def (view pg) D" "reading pg" "key_ok (key_type def) k"
    "leaf_pages (view pg) D (root_page_num def) = pre @ leaf_pages (view pg) (Suc d) p @ post"
  shows "\<exists>q. internal_node_find def p k pg = Some (Some (cursor_for def (view pg) k (find_leaf def (view pg) k (Suc d) p)), q) \<and>
    unseen pg q"
  using assms
proof (induction d arbitrary: p pg pre post)
  case 0
  let ?V = "view pg" and ?b = "view pg p"
  define c where "c = children ?b ! internal_node_find_child ?b k def"
  have T: "p < MAX_PAGES" "sorted_keys def (separators ?b)"
    "\<And>c. c \<in> set (children ?b) \<Longrightarrow> tree_ok def ?V 0 c" using 0(1) by auto
  have ile: "internal_node_find_child ?b k def \<le> internal_node_num_keys ?b"
    using internal_node_find_child_splits [OF T(2) 0(4)] by (simp add: splits_at_def)
  have c: "child_page ?b (internal_node_find_child ?b k def) = Some c" "c \<in> set (children ?b)"
    using child_page_children [OF ile] ile by (auto simp: c_def)
  note Tc = T(3) [OF c(2)]
  obtain q where q: "read_page pg p = Some (?b, q)" "unseen pg q" by (rule read_page_reading [OF 0(3) T(1)])
  note u = unseenD [OF q(2)]
  obtain q2 where q2: "read_page q c = Some (?V c, q2)" "unseen q q2"
    by (rule read_page_reading [OF u(1), of c]) (use Tc u in auto)
  note u2 = unseenD [OF q2(2)]
  have "c \<in> set (leaf_pages ?V D (root_page_num def))" using c(2) 0(5) by auto
  then obtain before after where ba: "leaf_pages ?V D (root_page_num def) = before @ c # after"
    by (auto dest: split_list)
  obtain q3 where "leaf_node_navigate def c k q2 = Some (cursor_for def (view q2) k c, q3)" "unseen q2 q3"
    by (rule navigate_cursor [of def q2 D before c after k]) (use 0 ba u u2 in auto)
  then show ?case
    using q q2 c(1) Tc u u2 unseen_trans [OF q(2) unseen_trans [OF q2(2)]]
    by (subst internal_node_find.simps) (simp add: c_def)
next
  case (Suc d)
  let ?V = "view pg" and ?b = "view pg p"
  define i where "i = internal_node_find_child ?b k def"
  define c where "c = children ?b ! i"
  have T: "p < MAX_PAGES" "sorted_keys def (separators ?b)"
    "\<And>c. c \<in> set (children ?b) \<Longrightarrow> tree_ok def ?V (Suc d) c" using Suc.prems(1) by auto
  have ile: "i \<le> internal_node_num_keys ?b"
    using internal_node_find_child_splits [OF T(2) Suc.prems(4)] by (simp add: splits_at_def i_def)
  have c: "child_page ?b i = Some c" "c \<in> set (children ?b)"
    using child_page_children [OF ile] ile by (auto simp: c_def)
  note Tc = T(3) [OF c(2)]
  obtain q where q: "read_page pg p = Some (?b, q)" "unseen pg q" by (rule read_page_reading [OF Suc.prems(3) T(1)])
  note u = unseenD [OF q(2)]
  obtain q2 where q2: "read_page q c = Some (?V c, q2)" "unseen q q2"
    by (rule read_page_reading [OF u(1), of c]) (use tree_ok_page [OF Tc] u in auto)
  note u2 = unseenD [OF q2(2)]
  let ?L = "\<lambda>cs. concat (map (leaf_pages ?V (Suc d)) cs)"
  have lp: "leaf_pages ?V (Suc (Suc d)) p = ?L (take i (children ?b)) @ leaf_pages ?V (Suc d) c @ ?L (drop (Suc i) (children ?b))"
    using arg_cong [OF children_split [OF ile], of ?L] by (simp add: c_def)
  have "\<exists>r. internal_node_find def c k q2 = Some (Some (cursor_for def (view q2) k (find_leaf def (view q2) k (Suc d) c)), r) \<and>
    unseen q2 r"
    by (rule Suc.IH [of q2 c "pre @ ?L (take i (children ?b))" "?L (drop (Suc i) (children ?b)) @ post"])
      (use Suc.prems(2-5) Tc u u2 lp in \<open>simp_all del: leaf_pages.simps tree_ok.simps\<close>)
  then obtain r where "internal_node_find def c k q2 = Some (Some (cursor_for def ?V k (find_leaf def ?V k (Suc d) c)), r)" "unseen q2 r"
    using u u2 by auto
  moreover have "get_node_type (?V c) = NODE_INTERNAL" using Tc by simp
  ultimately show ?case
    using q q2 c(1) u u2 unseen_trans [OF q(2) unseen_trans [OF q2(2)]]
    by (subst internal_node_find.simps) (simp add: c_def i_def)
qed

lemma find_cursor:
  assumes "table_ok def (view pg) d" "reading pg" "key_ok (key_type def) (serialize_col0_key def v)"
  shows "\<exists>q. btree_find def v pg = Some (Some (cursor_for def (view pg) (serialize_col0_key def v)
      (find_leaf def (view pg) (serialize_col0_key def v) d (root_page_num def))), q) \<and> unseen pg q"
proof -
  let ?k = "serialize_col0_key def v" and ?r = "root_page_num def" and ?V = "view pg"
  have tree: "tree_ok def ?V d ?r" using assms(1) by (simp add: table_ok_def)
  obtain q where q: "read_page pg ?r = Some (?V ?r, q)" "unseen pg q"
    by (rule read_page_reading [OF assms(2) tree_ok_page [OF tree]])
  note u = unseenD [OF q(2)]
  show ?thesis
  proof (cases d)
    case 0
    obtain q' where "leaf_node_navigate def ?r ?k q = Some (cursor_for def (view q) ?k ?r, q')" "unseen q q'"
      by (rule navigate_cursor [of def q d "[]" ?r "[]"]) (use 0 assms u in auto)
    then show ?thesis using tree q u 0 unseen_trans [OF q(2)] by (simp add: btree_find_def)
  next
    case (Suc e)
    have "\<exists>q'. internal_node_find def ?r ?k q = Some (Some (cursor_for def (view q) ?k (find_leaf def (view q) ?k (Suc e) ?r)), q') \<and>
        unseen q q'"
      by (rule internal_find_cursor [where D = d and pre = "[]" and post = "[]"]) (use Suc assms u tree in \<open>simp_all del: tree_ok.simps\<close>)
    then show ?thesis using tree q u Suc unseen_trans [OF q(2)] by (auto simp: btree_find_def)
  qed
qed

lemma find_position:
  assumes "table_ok def (view pg) d" "reading pg" "key_ok (key_type def) (serialize_col0_key def v)"
  shows "\<exists>c q n. btree_find def v pg = Some (Some c, q) \<and> unseen pg q \<and>
    splits_at def (tree_keys def (view pg) d (root_page_num def)) (serialize_col0_key def v) n \<and>
    at_position (view pg) (leaf_pages (view pg) d (root_page_num def)) c n"
proof -
  let ?k = "serialize_col0_key def v"
  obtain q before after where l: "btree_find_out def v pg = Some (cursor_for def (view pg) ?k (find_leaf def (view pg) ?k d (root_page_num def)), q)"
    "unseen pg q" "leaf_pages (view pg) d (root_page_num def) = before @ find_leaf def (view pg) ?k d (root_page_num def) # after"
    "leaf_for def (view pg) ?k before after"
    by (rule find_out_cursor [OF assms])
  from find_leaf_position [OF assms(1,3) l(3,4)] find_cursor [OF assms] show ?thesis by blast
qed

text \<open>
  \<open>btree_find\<close>, which recurses and allocates the cursor, and \<open>btree_find_out\<close>, which loops
  and fills the caller's, give the same cursor on every well-formed table.
\<close>

theorem btree_find_agrees:
  assumes "table_ok def (view pg) d" "reading pg" "key_ok (key_type def) (serialize_col0_key def v)"
  shows "\<exists>c q q'. btree_find def v pg = Some (Some c, q) \<and> btree_find_out def v pg = Some (c, q')"
  using find_cursor [OF assms] find_out_cursor [OF assms] by metis


section \<open>Scanning\<close>

lemma leftmost_leaf:
  assumes "tree_ok def (view pg) d p" "reading pg"
  shows "\<exists>q. btree_descend (\<lambda>_. 0) p pg = Some (hd (leaf_pages (view pg) d p), view pg (hd (leaf_pages (view pg) d p)), q) \<and>
    unseen pg q \<and> leaf_pages (view pg) d p \<noteq> []"
  using assms
proof (induction d arbitrary: p pg)
  case 0
  obtain q where "unseen pg q" "btree_descend (\<lambda>_. 0) p pg = Some (p, view pg p, q)"
    using btree_descend_step [OF 0(2), of p "\<lambda>_. 0"] 0(1) by auto
  then show ?case by simp
next
  case (Suc d)
  let ?V = "view pg"
  define c where "c = children (?V p) ! 0"
  have c: "child_page (?V p) 0 = Some c" "c \<in> set (children (?V p))"
    using child_page_children [of 0 "?V p"] by (auto simp: c_def)
  obtain q where q: "unseen pg q" "btree_descend (\<lambda>_. 0) p pg = btree_descend (\<lambda>_. 0) c q"
    using btree_descend_step [OF Suc.prems(2), of p "\<lambda>_. 0"] Suc.prems(1) c(1) by auto
  note u = unseenD [OF q(1)]
  obtain q' where l: "btree_descend (\<lambda>_. 0) c q = Some (hd (leaf_pages ?V d c), ?V (hd (leaf_pages ?V d c)), q')"
    "unseen q q'" "leaf_pages ?V d c \<noteq> []"
    using Suc.IH [of q c] Suc.prems(1) c(2) u by auto
  obtain cs where "children (?V p) = c # cs" by (cases "children (?V p)") (auto simp: c_def children_def)
  then show ?case using q(2) l unseen_trans [OF q(1) l(2)] by simp
qed

text \<open>The entry after a position.\<close>

lemma cursor_advance_position:
  assumes "table_ok def (view pg) d" "reading pg" "n < num_entries (view pg) (leaf_pages (view pg) d (root_page_num def))"
    "at_position (view pg) (leaf_pages (view pg) d (root_page_num def)) c n"
  shows "\<exists>c' q. cursor_advance c pg = Some (c', q) \<and> unseen pg q \<and>
    at_position (view pg) (leaf_pages (view pg) d (root_page_num def)) c' (Suc n)"
proof -
  let ?V = "view pg" and ?ps = "leaf_pages (view pg) d (root_page_num def)" and ?l = "c_page c"
  obtain before after where ba: "?ps = before @ ?l # after" "c_cell c < leaf_node_num_cells (?V ?l)"
    "n = num_entries ?V before + c_cell c" "\<not> end_of_table c"
    using assms(3,4) by (auto simp: at_position_def)
  note tl = table_leaf [OF assms(1) ba(1)]
  obtain q where q: "read_page pg ?l = Some (?V ?l, q)" "unseen pg q" by (rule read_page_reading [OF assms(2) tl(1)])
  show ?thesis
  proof (cases "c_cell c + 1 < leaf_node_num_cells (?V ?l)")
    case True
    have "\<exists>b a. ?ps = b @ ?l # a \<and> Suc n = num_entries ?V b + (c_cell c + 1)"
      using ba by (intro exI [of _ before] exI [of _ after]) simp
    moreover have "Suc n \<noteq> num_entries ?V ?ps" using ba(3) True by (simp add: ba(1))
    ultimately have "at_position ?V ?ps (c\<lparr>c_cell := c_cell c + 1\<rparr>) (Suc n)"
      using True ba(4) by (simp add: at_position_def)
    with True q show ?thesis by (simp add: cursor_advance_def)
  next
    case False
    with ba(2) have last: "c_cell c + 1 = leaf_node_num_cells (?V ?l)" by simp
    show ?thesis
    proof (cases after)
      case Nil
      with last ba q tl(3) show ?thesis by (simp add: cursor_advance_def at_position_def)
    next
      case (Cons m rest)
      note nx = tl(4) [OF Cons]
      have "\<exists>b a. before @ ?l # m # rest = b @ m # a \<and> num_entries ?V before + leaf_node_num_cells (?V ?l) = num_entries ?V b"
        by (intro exI [of _ "before @ [?l]"] exI [of _ rest]) simp
      moreover have "Suc n = num_entries ?V before + leaf_node_num_cells (?V ?l)" using ba(3) last by simp
      ultimately have "at_position ?V ?ps (c\<lparr>c_page := m, c_cell := 0\<rparr>) (Suc n)"
        using nx ba(4) unfolding ba(1) Cons at_position_def by simp
      with last q tl(3) nx Cons show ?thesis by (simp add: cursor_advance_def)
    qed
  qed
qed

text \<open>The loop of every full scan, \<open>n\<close> turns of it.\<close>

fun advance_n :: "nat \<Rightarrow> Cursor \<Rightarrow> Pager \<Rightarrow> (Cursor \<times> Pager) option" where
  "advance_n 0 c pg = Some (c, pg)"
| "advance_n (Suc n) c pg = advance_n n c pg \<bind> (\<lambda>(c, pg). cursor_advance c pg)"

lemma start_position:
  assumes "table_ok def (view pg) d" "reading pg"
  shows "\<exists>c q. btree_start_out def pg = Some (c, q) \<and> unseen pg q \<and>
    at_position (view pg) (leaf_pages (view pg) d (root_page_num def)) c 0"
proof -
  let ?V = "view pg" and ?ps = "leaf_pages (view pg) d (root_page_num def)"
  have tree: "tree_ok def ?V d (root_page_num def)" using assms(1) by (simp add: table_ok_def)
  from leftmost_leaf [OF tree assms(2)] obtain q where
    q: "btree_descend (\<lambda>_. 0) (root_page_num def) pg = Some (hd ?ps, ?V (hd ?ps), q)" "unseen pg q" "?ps \<noteq> []"
    by (elim exE conjE)
  obtain l rest where ps: "?ps = l # rest" using q(3) by (cases ?ps) auto
  have "0 < leaf_node_num_cells (?V l)" if "rest \<noteq> []"
  proof -
    have "0 < d" using ps that by (cases d) auto
    then show ?thesis using assms(1) unfolding table_ok_def ps by simp
  qed
  then have empty: "num_entries ?V (l # rest) = 0 \<longleftrightarrow> leaf_node_num_cells (?V l) = 0"
    by (cases "rest = []") auto
  have "\<exists>b a. l # rest = b @ l # a \<and> 0 = num_entries ?V b"
    by (rule exI [of _ "[]"], rule exI [of _ rest]) simp
  with empty have "at_position ?V ?ps \<lparr>c_page = l, c_cell = 0, end_of_table = (leaf_node_num_cells (?V l) = 0)\<rparr> 0"
    unfolding ps at_position_def by auto
  moreover have "btree_start_out def pg = Some (\<lparr>c_page = l, c_cell = 0, end_of_table = (leaf_node_num_cells (?V l) = 0)\<rparr>, q)"
    using q(1) by (simp add: btree_start_out_def ps)
  ultimately show ?thesis using q(2) by (intro exI conjI) (assumption | simp)+
qed

text \<open>
  C10.  Scan.  Starting at the first entry and advancing \<open>n\<close> times gives entry \<open>n\<close>, for every \<open>n\<close> up
  to the number of entries, where the cursor is at the end; so a scan visits every entry of the table
  once, and in key order.
\<close>

theorem btree_scan_in_order:
  assumes "table_ok def (view pg) d" "reading pg"
    "n \<le> num_entries (view pg) (leaf_pages (view pg) d (root_page_num def))"
  shows "\<exists>c q. (btree_start_out def pg \<bind> (\<lambda>(c, pg). advance_n n c pg)) = Some (c, q) \<and> unseen pg q \<and>
    at_position (view pg) (leaf_pages (view pg) d (root_page_num def)) c n \<and>
    sorted_wrt (\<lambda>x y. compare_keys (key_type def) x y \<le> 0) (tree_keys def (view pg) d (root_page_num def))"
  using assms(3)
proof (induction n)
  case 0
  have "tree_ok def (view pg) d (root_page_num def)" using assms(1) by (simp add: table_ok_def)
  then show ?case using start_position [OF assms(1,2)] tree_keys_sorted by auto
next
  case (Suc n)
  then obtain c q where c: "(btree_start_out def pg \<bind> (\<lambda>(c, pg). advance_n n c pg)) = Some (c, q)" "unseen pg q"
    "at_position (view pg) (leaf_pages (view pg) d (root_page_num def)) c n"
    "sorted_wrt (\<lambda>x y. compare_keys (key_type def) x y \<le> 0) (tree_keys def (view pg) d (root_page_num def))"
    by auto
  note u = unseenD [OF c(2)]
  obtain c' q' where "cursor_advance c q = Some (c', q')" "unseen q q'"
    "at_position (view q) (leaf_pages (view q) d (root_page_num def)) c' (Suc n)"
    using cursor_advance_position [of def q d n c] assms(1) u c(3) Suc.prems by auto
  then show ?case using c u unseen_trans [OF c(2)] by auto
qed

end
