(* ===== verification/Btree_Store.thy ===== *)
theory Btree_Store
  imports Btree_Search
begin

text \<open>
  Changing pages inside a transaction, as the B+ tree does it: taking a page pointer, writing through
  it, journaling a page.  \<open>writing\<close> is the state in which that works; \<open>evolves\<close> says what the pages
  read as afterwards and that the pointers held stay good.  Some writes of the B+ tree go to pages it
  has not journaled, so this is weaker than \<open>tx_inv\<close>: it says what the transaction sees, not what a
  rollback restores.
\<close>

section \<open>The state of a writing transaction\<close>

definition writing :: "Pager \<Rightarrow> bool" where
  "writing pg \<longleftrightarrow> in_transaction pg \<and> RESERVED_LOCK \<le> lock_state (lock pg) \<and> file_mode pg \<and> cache_ok pg \<and>
     (lock_node pg = None \<or> lock_node pg = Some ThisPager) \<and> writer_tid pg = self_tid (os pg) \<and>
     page_is_journaled pg \<noteq> None \<and> (\<exists>pos j. journal_fd pg = FdFile pos \<and> journal (os pg) = Some j) \<and> shadows_ok pg"

lemma tx_core_writing: "tx_core T pg \<Longrightarrow> writing pg"
  by (auto simp: tx_core_def writing_def journal_ok_def)

lemma writing_reading: "writing pg \<Longrightarrow> reading pg"
  by (auto simp: writing_def reading_def settled_def shadows_ok_def lock_order)

lemma writing_writer: "writing pg \<Longrightarrow> is_writer pg"
  by (simp add: writing_def is_writer_def)

text \<open>The pointer \<open>get_page\<close> gives for a page, and whether the page is in memory.\<close>

definition ref_of :: "Pager \<Rightarrow> nat \<Rightarrow> bufref" where
  "ref_of pg n = (if shadowed pg n then RShadow n else RCache n)"

definition loaded :: "Pager \<Rightarrow> nat \<Rightarrow> bool" where
  "loaded pg n \<longleftrightarrow> pages pg n \<noteq> None"

lemma deref_loaded:
  assumes "writing pg" "loaded pg n"
  shows "deref pg (ref_of pg n) = Some (view pg n)"
  using assms writing_writer [OF assms(1)]
  by (auto simp: ref_of_def loaded_def view_def base_def writing_def shadows_ok_def)

text \<open>
  From \<open>pg\<close> to \<open>p\<close>: the pages read as \<open>V\<close>, pages in memory stay there, only pages of \<open>X\<close> have got a
  shadow, the number of pages is at most \<open>m\<close>.
\<close>

definition evolves :: "Pager \<Rightarrow> nat set \<Rightarrow> nat \<Rightarrow> Pager \<Rightarrow> pages \<Rightarrow> bool" where
  "evolves pg X m p V \<longleftrightarrow> writing p \<and> view p = V \<and> (\<forall>n. loaded pg n \<longrightarrow> loaded p n) \<and>
     (\<forall>n. shadowed p n \<longrightarrow> shadowed pg n \<or> n \<in> X) \<and> (\<forall>n. shadowed pg n \<longrightarrow> shadowed p n) \<and>
     num_pages pg \<le> num_pages p \<and> num_pages p \<le> max (num_pages pg) m \<and>
     freelist_head p = freelist_head pg \<and> reserved_catalog_pages p = reserved_catalog_pages pg"

lemma evolvesD:
  assumes "evolves pg X m p V"
  shows "writing p" "view p = V" "loaded pg n \<Longrightarrow> loaded p n" "num_pages pg \<le> num_pages p"
    "num_pages p \<le> max (num_pages pg) m" "freelist_head p = freelist_head pg"
    "reserved_catalog_pages p = reserved_catalog_pages pg"
    "n \<notin> X \<or> shadowed pg n \<Longrightarrow> ref_of p n = ref_of pg n" "shadowed pg n \<Longrightarrow> shadowed p n"
  using assms by (auto simp: evolves_def ref_of_def)

lemma evolves_trans:
  "evolves a X m b V \<Longrightarrow> evolves b Y m' c W \<Longrightarrow> X \<union> Y \<subseteq> Z \<Longrightarrow> m \<le> k \<Longrightarrow> m' \<le> k \<Longrightarrow> evolves a Z k c W"
proof -
  assume a: "evolves a X m b V" "evolves b Y m' c W" "X \<union> Y \<subseteq> Z" "m \<le> k" "m' \<le> k"
  have "shadowed c n \<Longrightarrow> shadowed a n \<or> n \<in> Z" for n using a(1,2,3) unfolding evolves_def by blast
  moreover have "num_pages c \<le> max (num_pages a) k" "num_pages a \<le> num_pages c"
    using evolvesD(4,5) [OF a(1)] evolvesD(4,5) [OF a(2)] a(4,5) by linarith+
  ultimately show ?thesis using a(1,2) by (simp add: evolves_def)
qed

lemma evolves_refl: "writing pg \<Longrightarrow> evolves pg X m pg (view pg)"
  by (simp add: evolves_def)

lemma same_core_writing:
  assumes "writing pg" "same_core pg p" "cache_ok p" "base p = base pg" "\<And>n. pages pg n \<noteq> None \<Longrightarrow> pages p n \<noteq> None"
  shows "writing p" "view p = view pg" "shadowed p = shadowed pg"
proof -
  show sh: "shadowed p = shadowed pg" using assms(2) by (auto simp: same_core_def shadowed_def fun_eq_iff)
  have "is_writer p = is_writer pg" "shadow_pages p = shadow_pages pg" using assms(2) by (auto simp: same_core_def is_writer_def)
  then show "view p = view pg" using sh assms(4) by (simp add: view_def fun_eq_iff)
  have "file_mode p" using file_mode_core [OF assms(2)] assms(1) by (simp add: writing_def)
  moreover have "shadows_ok p"
    using assms(1,5) sh \<open>shadow_pages p = shadow_pages pg\<close> assms(2) by (simp add: writing_def shadows_ok_def same_core_def)
  ultimately show "writing p" using assms(1-3) by (simp add: writing_def same_core_def)
qed

lemma unseen_writing:
  assumes "writing pg" "unseen pg p"
  shows "writing p" "view p = view pg" "freelist_head p = freelist_head pg"
    "reserved_catalog_pages p = reserved_catalog_pages pg" "num_pages pg \<le> num_pages p"
proof -
  have u: "reading p" "view p = view pg" "base p = base pg" "same_core pg p" "\<And>n. pages pg n \<noteq> None \<Longrightarrow> pages p n \<noteq> None"
    using assms(2) by (simp_all add: unseen_def)
  show "writing p" by (rule same_core_writing(1) [OF assms(1) u(4) _ u(3,5)]) (use u(1) in \<open>simp add: reading_def\<close>)
  show "view p = view pg" by (rule u(2))
  show "freelist_head p = freelist_head pg" "reserved_catalog_pages p = reserved_catalog_pages pg" "num_pages pg \<le> num_pages p"
    using u(4) by (simp_all add: same_core_def)
qed

section \<open>Taking a page\<close>

lemma get_page_num_pages:
  assumes "settled pg" "\<not> is_memory pg" "get_page pg n = Some (r, p)" "\<And>b. pages pg n = Some b \<Longrightarrow> n < num_pages pg"
  shows "num_pages p = max (num_pages pg) (Suc n)"
proof -
  define p0 where "p0 = pg\<lparr>lock_error := False\<rparr>"
  have lk: "lock_retry 50 SHARED_LOCK pg = (True, pg)"
    using assms(1) by (intro lock_retry_held) (simp_all add: settled_def)
  have rf: "pager_refresh_if_modified p0 = p0"
    using assms(1) by (simp add: pager_refresh_if_modified_def p0_def settled_def)
  obtain p1 where p1: "resize_pages p0 n = Some p1"
    "p = (case pages p1 n of None \<Rightarrow> p1\<lparr>disk_reads := disk_reads p1 + 1,
                           pages := (pages p1)(n := Some (load_page p1 n)),
                           num_pages := (if n \<ge> num_pages p1 then n + 1 else num_pages p1)\<rparr>
                       | Some _ \<Rightarrow> p1\<lparr>cache_hits := cache_hits p1 + 1\<rparr>)"
    using assms(2,3) lk rf
    by (cases "resize_pages p0 n") (simp_all add: get_page_def p0_def [symmetric] Let_def)
  have "num_pages p1 = num_pages pg \<and> (\<forall>b. pages p1 n = Some b \<longrightarrow> pages pg n = Some b)"
  proof (cases "n < max_pages p0")
    case True
    then have "p0 = p1" using p1(1) by (simp add: resize_pages_def)
    then show ?thesis by (auto simp: p0_def)
  next
    case False
    then obtain m x y where "p1 = p0\<lparr>max_pages := m, pages := (\<lambda>i. if max_pages p0 \<le> i \<and> i < m then None else pages p0 i),
        page_is_journaled := x, is_dirty := y\<rparr>" using p1(1) by (auto simp: resize_pages_def Let_def)
    then show ?thesis by (simp add: p0_def)
  qed
  then show ?thesis using p1(2) assms(4) by (auto split: option.splits)
qed

lemma page_ptr_ok:
  assumes "writing pg" "n < MAX_PAGES"
  obtains p where "page_ptr pg n = Some (ref_of p n, p)" "evolves pg {} (Suc n) p (view pg)" "loaded p n"
    "get_page pg n = Some (Some (ref_of p n), p)" "ref_of p n = ref_of pg n" "num_pages p = max (num_pages pg) (Suc n)"
proof -
  have S: "settled pg" "file_mode pg" "cache_ok pg" using writing_reading [OF assms(1)] by (simp_all add: reading_def)
  have sh: "shadowed pg n \<Longrightarrow> shadow_pages pg n \<noteq> None" using writing_reading [OF assms(1)] by (simp add: reading_def)
  obtain r p where p: "get_page pg n = Some (Some r, p)" "deref p r = Some (view pg n)"
    "r = (if is_writer pg \<and> shadowed pg n then RShadow n else RCache n)"
    "same_core pg p" "cache_ok p" "base p = base pg" "pages p = (pages pg)(n := Some (base pg n))"
    by (rule get_page_settled [OF S assms(2) sh])
  have keep: "pages p m \<noteq> None" if "pages pg m \<noteq> None" for m using that p(7) by simp
  note w = same_core_writing [OF assms(1) p(4,5,6) keep]
  have r: "r = ref_of p n" "ref_of p n = ref_of pg n" using p(3) writing_writer [OF assms(1)] w(3) by (simp_all add: ref_of_def)
  have np: "num_pages p = max (num_pages pg) (Suc n)"
    by (rule get_page_num_pages [OF S(1) _ p(1)]) (use S in \<open>auto simp: file_mode_def cache_ok_def\<close>)
  have "evolves pg {} (Suc n) p (view pg)"
    using w p(4) keep by (auto simp: evolves_def loaded_def same_core_def np)
  moreover have "loaded p n" using p(7) by (simp add: loaded_def)
  ultimately show ?thesis using that [of p] p(1) r np by (simp add: page_ptr_def)
qed

lemma read_page_ok:
  assumes "writing pg" "n < MAX_PAGES"
  obtains p where "read_page pg n = Some (view pg n, p)" "evolves pg {} (Suc n) p (view pg)" "loaded p n"
    "ref_of p n = ref_of pg n" "num_pages p = max (num_pages pg) (Suc n)"
proof -
  obtain p where p: "page_ptr pg n = Some (ref_of p n, p)" "evolves pg {} (Suc n) p (view pg)" "loaded p n"
    "get_page pg n = Some (Some (ref_of p n), p)" "ref_of p n = ref_of pg n" "num_pages p = max (num_pages pg) (Suc n)"
    by (rule page_ptr_ok [OF assms])
  have "deref p (ref_of p n) = Some (view pg n)"
    using deref_loaded [of p n] p(2,3) by (simp add: evolves_def)
  then show ?thesis using that [of p] p by (simp add: read_page_def)
qed

section \<open>Writing through a pointer\<close>

lemma base_update:
  assumes "file_mode pg"
  shows "base (pg\<lparr>pages := (pages pg)(n := Some b)\<rparr>) = (base pg)(n := b)"
proof
  fix m
  have fm: "file_mode (pg\<lparr>pages := (pages pg)(n := Some b)\<rparr>)" using assms by (simp add: file_mode_def)
  have "load_page (pg\<lparr>pages := (pages pg)(n := Some b)\<rparr>) m = load_page pg m"
    using load_page_file [OF fm, of m] load_page_file [OF assms, of m] by simp
  then show "base (pg\<lparr>pages := (pages pg)(n := Some b)\<rparr>) m = ((base pg)(n := b)) m"
    by (cases "pages pg m") (simp_all add: base_def)
qed

lemma edit_at_ok:
  assumes "writing pg" "loaded pg n" "page_ok (f (view pg n))" "r = ref_of pg n"
  obtains p where "edit_at r f pg = Some p" "evolves pg {} 0 p ((view pg)(n := f (view pg n)))"
    "num_pages p = num_pages pg"
proof -
  let ?b = "f (view pg n)"
  define p where "p = store pg r ?b"
  have "edit_at r f pg = Some p"
    using deref_loaded [OF assms(1,2)] by (simp add: edit_at_def p_def assms(4))
  moreover have "writing p \<and> view p = (view pg)(n := ?b) \<and> shadowed p = shadowed pg \<and> (\<forall>m. loaded pg m \<longrightarrow> loaded p m)"
  proof (cases "shadowed pg n")
    case True
    then have p: "p = pg\<lparr>shadow_pages := (shadow_pages pg)(n := Some ?b)\<rparr>" by (simp add: p_def assms(4) ref_of_def)
    have sh: "shadowed p = shadowed pg" by (simp add: p shadowed_def fun_eq_iff)
    have fm: "file_mode pg" "file_mode p" using assms(1) by (simp_all add: writing_def p file_mode_def)
    have "base p = base pg" by (rule base_cong) (simp_all add: p)
    moreover have "is_writer p" using writing_writer [OF assms(1)] by (simp add: p is_writer_def)
    ultimately have "view p m = ((view pg)(n := ?b)) m" for m
      using True writing_writer [OF assms(1)] sh p by (cases "m = n") (simp_all add: view_def)
    then have "view p = (view pg)(n := ?b)" by (rule ext)
    moreover have "shadows_ok p"
      using assms(1,3) unfolding shadows_ok_def sh writing_def by (simp add: p)
    then have "writing p" using assms(1) fm by (simp add: writing_def p cache_ok_def)
    ultimately show ?thesis using sh by (simp add: loaded_def p)
  next
    case False
    then have p: "p = pg\<lparr>pages := (pages pg)(n := Some ?b)\<rparr>" by (simp add: p_def assms(4) ref_of_def)
    have sh: "shadowed p = shadowed pg" by (simp add: p shadowed_def fun_eq_iff)
    have fm: "file_mode pg" "file_mode p" using assms(1) by (simp_all add: writing_def p file_mode_def)
    have b: "base p = (base pg)(n := ?b)" unfolding p by (rule base_update [OF fm(1)])
    moreover have "is_writer p" using writing_writer [OF assms(1)] by (simp add: p is_writer_def)
    ultimately have "view p m = ((view pg)(n := ?b)) m" for m
      using False writing_writer [OF assms(1)] sh p by (cases "m = n") (simp_all add: view_def)
    then have "view p = (view pg)(n := ?b)" by (rule ext)
    moreover have "shadows_ok p" using assms(1) unfolding shadows_ok_def sh writing_def by (simp add: p)
    moreover have "cache_ok p"
      using assms by (auto simp: writing_def cache_ok_def p loaded_def)
    ultimately show ?thesis using assms(1) fm sh by (simp add: writing_def loaded_def p)
  qed
  moreover have "num_pages p = num_pages pg \<and> freelist_head p = freelist_head pg \<and>
      reserved_catalog_pages p = reserved_catalog_pages pg"
    by (cases r) (simp_all add: p_def)
  ultimately show ?thesis using that by (auto simp: evolves_def)
qed

lemma edit_opt_at: "f (view pg n) = Some b \<Longrightarrow> writing pg \<Longrightarrow> loaded pg n \<Longrightarrow> r = ref_of pg n \<Longrightarrow>
    edit_opt r f pg = edit_at r (\<lambda>_. b) pg"
  by (simp add: edit_opt_def edit_at_def deref_loaded)

lemma update_page_ok:
  assumes "writing pg" "n < MAX_PAGES" "page_ok (f (view pg n))"
  obtains p where "update_page pg n f = Some p" "evolves pg {} (Suc n) p ((view pg)(n := f (view pg n)))"
    "num_pages p = max (num_pages pg) (Suc n)" "loaded p n"
proof -
  obtain q where q: "page_ptr pg n = Some (ref_of q n, q)" "evolves pg {} (Suc n) q (view pg)" "loaded q n"
    "get_page pg n = Some (Some (ref_of q n), q)" "num_pages q = max (num_pages pg) (Suc n)"
    by (rule page_ptr_ok [OF assms(1,2)])
  note d = evolvesD [OF q(2)]
  obtain p where p: "edit_at (ref_of q n) f q = Some p" "evolves q {} 0 p ((view q)(n := f (view q n)))" "num_pages p = num_pages q"
    by (rule edit_at_ok [OF d(1) q(3), of f]) (use assms(3) d(2) in auto)
  have "update_page pg n f = Some p" using q(4) p(1) by (simp add: update_page_def edit_at_def)
  then show ?thesis
    using that [of p] evolves_trans [OF q(2) p(2)] p(3) q(5) d(2) evolvesD(3) [OF p(2) q(3)] by simp
qed


section \<open>Journaling a page\<close>

lemma writing_lock:
  assumes "writing pg"
  shows "pager_ensure_write_lock pg = (True, pg)"
proof -
  obtain j p where "page_is_journaled pg = Some j" "journal_fd pg = FdFile p"
    using assms by (auto simp: writing_def)
  moreover have "acquire_node pg = (True, pg)"
    using assms by (auto simp: writing_def acquire_node_def split: option.split)
  moreover have "reserve_lock pg = (True, pg)"
    using assms by (auto simp: writing_def reserve_lock_def)
  ultimately show ?thesis
    using assms by (simp add: pager_ensure_write_lock_def open_journal_def writing_def)
qed

text \<open>Changes of the shadow arrays that leave what the transaction sees.\<close>

lemma shadow_arrays:
  assumes "writing pg"
    and "p = pg\<lparr>is_dirty := d, shadow_pages := sp, is_shadowed := isf, shadow_capacity := cap\<rparr>"
    and sh: "\<And>m. m < cap \<Longrightarrow> isf m \<Longrightarrow> sp m = Some (view pg m) \<and> loaded pg m"
    and keep: "\<And>m. shadowed pg m \<Longrightarrow> m < cap \<and> isf m" and "cap < 2 ^ 30"
  shows "writing p" "view p = view pg"
proof -
  have vok: "page_ok (view pg m)" if "m < cap" "isf m" for m
  proof (cases "shadowed pg m")
    case True
    then show ?thesis
      using assms(1) writing_writer [OF assms(1)] by (auto simp: view_def writing_def shadows_ok_def)
  next
    case False
    then show ?thesis
      using assms(1) sh [OF that] by (auto simp: view_def base_def loaded_def writing_def cache_ok_def)
  qed
  have "shadows_ok p" using sh vok assms(5) by (auto simp: shadows_ok_def shadowed_def assms(2) loaded_def)
  then show "writing p" using assms(1) by (simp add: writing_def assms(2) file_mode_def cache_ok_def)
  have b: "base p = base pg" by (rule base_cong) (simp_all add: assms(2))
  have w: "is_writer p" using writing_writer [OF assms(1)] by (simp add: is_writer_def assms(2))
  show "view p = view pg"
  proof
    fix m
    show "view p m = view pg m"
    proof (cases "m < cap \<and> isf m")
      case True
      then show ?thesis using sh [of m] w by (simp add: view_def shadowed_def assms(2))
    next
      case False
      then have "\<not> shadowed pg m" "\<not> shadowed p m" using keep [of m] by (auto simp: shadowed_def assms(2))
      then show ?thesis by (simp add: view_def b)
    qed
  qed
qed

lemma writing_shadow: "writing pg \<Longrightarrow> shadowed pg m \<Longrightarrow> shadow_pages pg m = Some (view pg m) \<and> loaded pg m"
  using writing_writer [of pg] by (auto simp: view_def writing_def shadows_ok_def loaded_def)

lemma prepare_shadow:
  assumes "writing pg" "n < MAX_PAGES"
  defines "p \<equiv> grow_shadow (mark_dirty pg n) n"
  shows "writing p" "view p = view pg" "shadowed p = shadowed pg" "pages p = pages pg" "num_pages p = num_pages pg"
    "n < shadow_capacity p" "freelist_head p = freelist_head pg" "reserved_catalog_pages p = reserved_catalog_pages pg"
proof -
  define d where "d = is_dirty (mark_dirty pg n)"
  define big where "big \<longleftrightarrow> shadow_capacity pg \<le> n"
  define cap where "cap = (if big then n + 1024 else shadow_capacity pg)"
  define sp where "sp = (\<lambda>i. if big \<and> shadow_capacity pg \<le> i \<and> i < cap then None else shadow_pages pg i)"
  define isf where "isf = (\<lambda>i. if big \<and> shadow_capacity pg \<le> i \<and> i < cap then False else is_shadowed pg i)"
  have p: "p = pg\<lparr>is_dirty := d, shadow_pages := sp, is_shadowed := isf, shadow_capacity := cap\<rparr>"
    using assms(2)
    by (auto simp: p_def grow_shadow_def mark_dirty_def d_def big_def cap_def sp_def isf_def clear_tail_def
        Let_def fun_eq_iff)
  have old: "shadowed pg m \<and> sp m = shadow_pages pg m" if "m < cap" "isf m" for m
    using that by (auto simp: isf_def sp_def shadowed_def cap_def big_def split: if_splits)
  have "shadow_capacity pg < 2 ^ 30" using assms(1) by (simp add: writing_def shadows_ok_def)
  then have cap: "cap < 2 ^ 30" using assms(2) by (simp add: cap_def)
  have keep: "m < cap \<and> isf m" if "shadowed pg m" for m
    using that by (auto simp: shadowed_def cap_def isf_def big_def)
  have old': "sp m = Some (view pg m) \<and> loaded pg m" if "m < cap" "isf m" for m
    using old [OF that] writing_shadow [OF assms(1)] by simp
  note w = shadow_arrays [OF assms(1) p old' keep cap]
  show "writing p" by (rule w(1))
  show "view p = view pg" by (rule w(2))
  show "shadowed p = shadowed pg"
  proof
    fix m
    have "shadowed p m \<longleftrightarrow> m < cap \<and> isf m" by (simp add: p shadowed_def)
    then show "shadowed p m = shadowed pg m" using old [of m] keep [of m] by blast
  qed
  show "n < shadow_capacity p" by (simp add: p cap_def big_def)
qed (simp_all add: p_def grow_shadow_def mark_dirty_def Let_def)

lemma put_shadow:
  assumes "writing pg" "n < shadow_capacity pg" "\<not> shadowed pg n" "pages pg n = Some b"
  defines "p \<equiv> pg\<lparr>shadow_pages := (shadow_pages pg)(n := Some b), is_shadowed := (is_shadowed pg)(n := True)\<rparr>"
  shows "evolves pg {n} 0 p (view pg)" "shadowed p n"
proof -
  have p: "p = pg\<lparr>is_dirty := is_dirty pg, shadow_pages := (shadow_pages pg)(n := Some b),
      is_shadowed := (is_shadowed pg)(n := True), shadow_capacity := shadow_capacity pg\<rparr>" by (simp add: p_def)
  have vn: "view pg n = b" using assms(3,4) by (simp add: view_def base_def)
  have old: "((shadow_pages pg)(n := Some b)) m = Some (view pg m) \<and> loaded pg m"
    if "m < shadow_capacity pg" "((is_shadowed pg)(n := True)) m" for m
  proof (cases "m = n")
    case True
    then show ?thesis using assms(4) vn by (simp add: loaded_def)
  next
    case False
    with that have "shadowed pg m" by (simp add: shadowed_def)
    then show ?thesis using False writing_shadow [OF assms(1)] by simp
  qed
  have keep: "m < shadow_capacity pg \<and> ((is_shadowed pg)(n := True)) m" if "shadowed pg m" for m
    using that by (simp add: shadowed_def)
  have cap: "shadow_capacity pg < 2 ^ 30" using assms(1) by (simp add: writing_def shadows_ok_def)
  note w = shadow_arrays [OF assms(1) p old keep cap]
  have sh: "shadowed p m \<longleftrightarrow> shadowed pg m \<or> m = n" for m using assms(2) by (auto simp: p shadowed_def)
  have "loaded p m = loaded pg m" for m by (simp add: p loaded_def)
  moreover have "num_pages p = num_pages pg" "freelist_head p = freelist_head pg"
    "reserved_catalog_pages p = reserved_catalog_pages pg" by (simp_all add: p)
  ultimately show "evolves pg {n} 0 p (view pg)" using w sh by (simp add: evolves_def)
  show "shadowed p n" by (simp add: sh)
qed

lemma shadow_write_ok:
  assumes "writing pg" "n < MAX_PAGES"
  obtains p where "pager_shadow_page_write pg n = Some p" "evolves pg {n} (Suc n) p (view pg)" "shadowed p n"
proof -
  define q where "q = grow_shadow (mark_dirty pg n) n"
  note pr = prepare_shadow [OF assms, folded q_def]
  have ev: "evolves pg {} 0 q (view pg)" using pr by (simp add: evolves_def loaded_def)
  have eq: "pager_shadow_page_write pg n = make_shadow q n"
    using assms(1) by (simp add: pager_shadow_page_write_def writing_lock [OF assms(1)] q_def) (simp add: writing_def)
  have "\<exists>p. make_shadow q n = Some p \<and> evolves q {n} (Suc n) p (view q) \<and> shadowed p n"
  proof (cases "shadowed q n")
    case True
    then show ?thesis using pr(1,6) by (auto simp: make_shadow_def is_shadowed_lt intro: evolves_refl)
  next
    case False
    show ?thesis
    proof (cases "n < max_pages q \<and> pages q n \<noteq> None")
      case True
      then obtain b where b: "pages q n = Some b" by blast
      note ps = put_shadow [OF pr(1,6) False b]
      have "make_shadow q n = Some (q\<lparr>shadow_pages := (shadow_pages q)(n := Some b), is_shadowed := (is_shadowed q)(n := True)\<rparr>)"
        using True False b pr(6) by (simp add: make_shadow_def is_shadowed_lt)
      then show ?thesis using ps evolves_trans [OF ps(1) evolves_refl, of "{}" "{n}" 0 "Suc n"] by (auto simp: evolves_def)
    next
      case miss: False
      have S: "settled q" "file_mode q" "cache_ok q" using writing_reading [OF pr(1)] by (simp_all add: reading_def)
      obtain r p0 where p0: "get_page q n = Some (Some r, p0)" "same_core q p0" "cache_ok p0" "base p0 = base q"
          "pages p0 = (pages q)(n := Some (base q n))" "n < max_pages p0"
        by (rule get_page_settled [OF S assms(2)]) (use False in auto)
      obtain p where p: "page_ptr q n = Some (ref_of p n, p)" "evolves q {} (Suc n) p (view q)" "loaded p n"
        "get_page q n = Some (Some (ref_of p n), p)"
        by (rule page_ptr_ok [OF pr(1) assms(2)])
      have pp: "p = p0" using p(4) p0(1) by simp
      note d = evolvesD [OF p(2)]
      have sh: "\<not> shadowed p n" "n < shadow_capacity p" "shadow_capacity p = shadow_capacity q"
        using False pr(6) p0(2) by (simp_all add: pp same_core_def shadowed_def)
      have pn: "pages p n = Some (base q n)" using p0(5) by (simp add: pp)
      note ps = put_shadow [OF d(1) sh(2,1) pn]
      have "make_shadow q n = Some (p\<lparr>shadow_pages := (shadow_pages p)(n := Some (base q n)), is_shadowed := (is_shadowed p)(n := True)\<rparr>)"
        using miss False pr(6) p0 by (auto simp: make_shadow_def is_shadowed_lt pp Let_def)
      moreover note evolves_trans [OF p(2) ps(1), of "{n}" "Suc n"]
      ultimately show ?thesis using ps(2) d(2) by simp
    qed
  qed
  then obtain p where "make_shadow q n = Some p" "evolves q {n} (Suc n) p (view q)" "shadowed p n" by blast
  then show ?thesis using that [of p] eq evolves_trans [OF ev, of "{n}" "Suc n" p "view q" "{n}" "Suc n"] pr(2) by simp
qed

lemma journal_write_ok:
  assumes "writing pg"
  shows "evolves pg {} 0 ((journal_write pg bs)\<lparr>page_is_journaled := map_option f (page_is_journaled pg)\<rparr>) (view pg)"
proof -
  obtain pos j where j: "journal_fd pg = FdFile pos" "journal (os pg) = Some j" using assms by (auto simp: writing_def)
  define p where "p = (journal_write pg bs)\<lparr>page_is_journaled := map_option f (page_is_journaled pg)\<rparr>"
  have p: "p = pg\<lparr>os := (os pg)\<lparr>journal := Some (fwrite j pos bs)\<rparr>, journal_fd := FdFile (pos + length bs),
      page_is_journaled := map_option f (page_is_journaled pg)\<rparr>"
    by (simp add: p_def journal_write_def j set_os_def)
  have fm: "file_mode pg" "file_mode p" using assms by (simp_all add: writing_def p file_mode_def)
  have sh: "shadowed p = shadowed pg" by (simp add: p shadowed_def fun_eq_iff)
  have "load_page p = load_page pg" by (rule ext) (simp add: load_page_file [OF fm(1)] load_page_file [OF fm(2)], simp add: p)
  then have "base p m = base pg m" for m
    by (cases "pages pg m") (simp_all add: base_def, simp_all add: p)
  moreover have "is_writer p = is_writer pg" "shadow_pages p = shadow_pages pg" by (simp_all add: p is_writer_def)
  ultimately have "view p = view pg" using sh by (simp add: view_def fun_eq_iff)
  moreover have "shadows_ok p" using assms unfolding writing_def shadows_ok_def sh by (simp add: p)
  ultimately show ?thesis using assms fm sh unfolding p_def [symmetric]
    by (simp add: evolves_def writing_def loaded_def p cache_ok_def)
qed

lemma journal_ok_writing:
  assumes "writing pg" "n < MAX_PAGES"
  obtains p where "pager_journal_page pg n = Some p" "evolves pg {n} (Suc n) p (view pg)" "shadowed p n"
proof -
  obtain q where q: "pager_shadow_page_write pg n = Some q" "evolves pg {n} (Suc n) q (view pg)" "shadowed q n"
    by (rule shadow_write_ok [OF assms])
  note d = evolvesD [OF q(2)]
  have tx: "in_transaction q" "journal_fd q \<noteq> FdNone" using d(1) by (auto simp: writing_def)
  show ?thesis
  proof (cases "savepoints q = [] \<and> is_journaled q n")
    case True
    then show ?thesis using that [of q] q tx by (simp add: pager_journal_page_def)
  next
    case False
    let ?f = "\<lambda>j. if n < max_pages q + TRACK_SLACK then j(n := True) else j"
    let ?w = "journal_write q (journal_entry n (journal_image q n))"
    note jw = journal_write_ok [OF d(1), where bs = "journal_entry n (journal_image q n)" and f = ?f]
    have pj: "page_is_journaled ?w = page_is_journaled q" "max_pages ?w = max_pages q"
      by (auto simp: journal_write_def set_os_def split: fd.split)
    obtain p where p: "p = ?w\<lparr>page_is_journaled := map_option ?f (page_is_journaled q)\<rparr>" by blast
    have "pager_journal_page pg n = Some p"
      using q(1) tx False by (auto simp: pager_journal_page_def Let_def pj p)
    moreover have ev: "evolves q {} 0 p (view pg)" unfolding p d(2) [symmetric] by (rule jw)
    moreover have "evolves pg {n} (Suc n) p (view pg)" by (rule evolves_trans [OF q(2) ev]) auto
    ultimately show ?thesis using that [of p] evolvesD(9) [OF ev q(3)] by blast
  qed
qed

lemma unused_page:
  assumes "freelist_head pg = 0"
  shows "get_unused_page_num pg = Some (max (num_pages pg) (reserved_catalog_pages pg), pg)"
  using assms by (simp add: get_unused_page_num_def max_def)

end
