(* ===== verification/Btree_Overflow.thy ===== *)
theory Btree_Overflow
  imports Btree_Store
begin

text \<open>
  Rows too long for a page: a chain of overflow pages holds what does not fit in the stub.  Writing a
  chain and reading it back gives the same bytes, and \<open>cursor_value\<close> gives the whole record, stored
  inline or with a chain.
\<close>

section \<open>Chains\<close>

text \<open>Page \<open>p\<close> starts a chain that holds the chunks \<open>cs\<close>.\<close>

fun chain_at :: "pages \<Rightarrow> nat \<Rightarrow> byte list list \<Rightarrow> bool" where
  "chain_at V p [] \<longleftrightarrow> True"
| "chain_at V p (c # cs) \<longleftrightarrow> p \<noteq> 0 \<and> p < MAX_PAGES \<and>
     get_bytes (V p) OVERFLOW_HEADER_SIZE (length c) = c \<and> chain_at V (rd 4 (V p) 0) cs"

lemma chunks_Nil [simp]: "chunks [] = []"
  by (simp add: chunks.simps)

lemma chunks_step: "bs \<noteq> [] \<Longrightarrow> chunks bs = take OVERFLOW_PAYLOAD_SIZE bs # chunks (drop OVERFLOW_PAYLOAD_SIZE bs)"
  by (subst chunks.simps) simp

lemma chunks_bounds: "c \<in> set (chunks bs) \<Longrightarrow> length c \<le> OVERFLOW_PAYLOAD_SIZE \<and> c \<noteq> []"
proof (induction bs rule: chunks.induct)
  case (1 bs)
  then show ?case by (cases "bs = []") (auto simp: chunks_step)
qed

lemma read_chain:
  assumes "chain_at (view pg) p (chunks data)" "reading pg"
  shows "\<exists>q. btree_read_overflow_chain pg p (length data) = Some (data, q) \<and> unseen pg q"
  using assms
proof (induction data arbitrary: p pg rule: chunks.induct)
  case (1 data)
  show ?case
  proof (cases "data = []")
    case True
    then show ?thesis using 1 by (simp add: btree_read_overflow_chain.simps)
  next
    case False
    let ?n = "min (length data) OVERFLOW_PAYLOAD_SIZE"
    have ch: "p \<noteq> 0" "p < MAX_PAGES" "get_bytes (view pg p) OVERFLOW_HEADER_SIZE ?n = take OVERFLOW_PAYLOAD_SIZE data"
      "chain_at (view pg) (rd 4 (view pg p) 0) (chunks (drop OVERFLOW_PAYLOAD_SIZE data))"
      using "1.prems"(1) False by (auto simp: chunks_step)
    obtain q where q: "read_page pg p = Some (view pg p, q)" "unseen pg q"
      by (rule read_page_reading [OF "1.prems"(2) ch(2)])
    note u = unseenD [OF q(2)]
    have "\<exists>r. btree_read_overflow_chain q (rd 4 (view pg p) 0) (length (drop OVERFLOW_PAYLOAD_SIZE data)) =
        Some (drop OVERFLOW_PAYLOAD_SIZE data, r) \<and> unseen q r"
      using "1.IH" [OF False, of q "rd 4 (view pg p) 0"] ch(4) u by simp
    then obtain r where r: "btree_read_overflow_chain q (rd 4 (view pg p) 0) (length data - OVERFLOW_PAYLOAD_SIZE) =
        Some (drop OVERFLOW_PAYLOAD_SIZE data, r)" "unseen q r" by auto
    have n: "(if length data > OVERFLOW_PAYLOAD_SIZE then OVERFLOW_PAYLOAD_SIZE else length data) = ?n"
      "length data - ?n = length data - OVERFLOW_PAYLOAD_SIZE" by auto
    have "btree_read_overflow_chain pg p (length data) =
        Some (take OVERFLOW_PAYLOAD_SIZE data @ drop OVERFLOW_PAYLOAD_SIZE data, r)"
      using False ch(1-3) q(1) r(1)
      by (subst btree_read_overflow_chain.simps) (simp add: n Let_def del: append_take_drop_id)
    then show ?thesis using unseen_trans [OF q(2) r(2)] by simp
  qed
qed

text \<open>The pages a fresh chain occupies, with what they hold.\<close>

definition fresh_chain :: "pages \<Rightarrow> nat \<Rightarrow> byte list list \<Rightarrow> bool" where
  "fresh_chain V N cs \<longleftrightarrow>
     (\<forall>i < length cs. get_bytes (V (N + i)) OVERFLOW_HEADER_SIZE (length (cs ! i)) = cs ! i) \<and>
     (\<forall>i. Suc i < length cs \<longrightarrow> rd 4 (V (N + i)) 0 = N + Suc i)"

lemma fresh_chain_at:
  assumes "fresh_chain V N cs" "0 < N" "N + length cs \<le> MAX_PAGES" "m \<le> length cs"
  shows "chain_at V (N + (length cs - m)) (drop (length cs - m) cs)"
  using assms(4)
proof (induction m)
  case (Suc m)
  let ?i = "length cs - Suc m"
  have i: "?i < length cs" using Suc.prems by simp
  have "chain_at V (rd 4 (V (N + ?i)) 0) (drop (Suc ?i) cs)"
  proof (cases m)
    case 0
    then show ?thesis using i by simp
  next
    case (Suc k)
    then have "Suc ?i < length cs" using Suc.prems by simp
    then have "rd 4 (V (N + ?i)) 0 = N + Suc ?i" using assms(1) unfolding fresh_chain_def by blast
    moreover have "Suc ?i = length cs - m" using Suc.prems by simp
    ultimately show ?thesis using Suc.IH Suc.prems by (metis Suc_leD)
  qed
  then show ?case
    using i assms by (simp add: Cons_nth_drop_Suc [OF i, symmetric] fresh_chain_def)
qed simp

lemma fresh_chain_start: "fresh_chain V N cs \<Longrightarrow> 0 < N \<Longrightarrow> N + length cs \<le> MAX_PAGES \<Longrightarrow> chain_at V N cs"
  using fresh_chain_at [of V N cs "length cs"] by simp

lemma fresh_chain_agree: "fresh_chain V N cs \<Longrightarrow> (\<And>k. N \<le> k \<Longrightarrow> W k = V k) \<Longrightarrow> fresh_chain W N cs"
  by (simp add: fresh_chain_def)

lemma page_ok_put: "page_ok b \<Longrightarrow> off + length bs \<le> PAGE_SIZE \<Longrightarrow> page_ok (put_bytes b off bs)"
  by (auto simp: page_ok_def put_bytes_def)

lemma writing_view_ok: "writing pg \<Longrightarrow> page_ok (view pg n)"
proof (cases "shadowed pg n")
  case True
  then show "writing pg \<Longrightarrow> ?thesis"
    using writing_writer by (auto simp: view_def writing_def shadows_ok_def)
next
  case False
  then show "writing pg \<Longrightarrow> ?thesis"
    by (auto simp: view_def base_def writing_def cache_ok_def load_page_file split: option.split)
qed

lemma clear_page [simp]: "page_ok b \<Longrightarrow> clear_bytes b 0 PAGE_SIZE = zero_buf"
  by (auto simp: clear_bytes_def page_ok_def zero_buf_def fun_eq_iff)

text \<open>One step of the writing loop, on a pager whose next free page is \<open>n\<close>.\<close>

lemma overflow_write_step_ok:
  assumes w: "writing pg" and free: "freelist_head pg = 0"
    and n: "n = max (num_pages pg) (reserved_catalog_pages pg)" "0 < n" "n < MAX_PAGES"
    and c: "length c \<le> OVERFLOW_PAYLOAD_SIZE" and prev: "prev < n"
  defines "V \<equiv> (if prev \<noteq> 0 then (view pg)(prev := wr 4 (view pg prev) 0 n) else view pg)"
  shows "\<exists>p. overflow_write_step c (first, prev, pg) = Some (if first = 0 then n else first, n, p) \<and>
    writing p \<and> view p = V(n := put_bytes zero_buf OVERFLOW_HEADER_SIZE c) \<and> num_pages p = Suc n \<and>
    freelist_head p = 0 \<and> reserved_catalog_pages p = reserved_catalog_pages pg \<and> (\<forall>k. loaded pg k \<longrightarrow> loaded p k) \<and>
    (\<forall>k. shadowed pg k \<longrightarrow> shadowed p k) \<and> (\<forall>k. shadowed p k \<longrightarrow> shadowed pg k \<or> k = n)"
proof -
  note gu = unused_page [OF free, folded n(1)]
  obtain p1 where p1: "pager_journal_page pg n = Some p1" "evolves pg {n} (Suc n) p1 (view pg)"
    by (rule journal_ok_writing [OF w n(3)])
  note d1 = evolvesD [OF p1(2)]
  obtain p2 where p2: "page_ptr p1 n = Some (ref_of p2 n, p2)" "evolves p1 {} (Suc n) p2 (view p1)" "loaded p2 n"
    "num_pages p2 = max (num_pages p1) (Suc n)"
    by (rule page_ptr_ok [OF d1(1) n(3)])
  note d2 = evolvesD [OF p2(2)]
  have ok2: "page_ok (view p2 k)" for k by (rule writing_view_ok [OF d2(1)])
  obtain p3 where p3: "edit_at (ref_of p2 n) (\<lambda>b. clear_bytes b 0 PAGE_SIZE) p2 = Some p3"
    "evolves p2 {} 0 p3 ((view p2)(n := zero_buf))" "num_pages p3 = num_pages p2"
    by (rule edit_at_ok [OF d2(1) p2(3), of "\<lambda>b. clear_bytes b 0 PAGE_SIZE"]) (simp_all add: ok2)
  note d3 = evolvesD [OF p3(2)]
  have np: "num_pages p3 = Suc n" using p3(3) p2(4) d1(5) n(1) by simp
  have "\<exists>p4. (if prev \<noteq> 0 then update_page p3 prev (\<lambda>b. wr 4 b 0 n) else Some p3) = Some p4 \<and>
      evolves p3 {} (Suc n) p4 (V(n := zero_buf))"
  proof (cases "prev = 0")
    case True
    have "evolves p3 {} (Suc n) p3 (view p3)" by (rule evolves_refl [OF d3(1)])
    then show ?thesis using True d3(2) d2(2) d1(2) by (simp add: V_def)
  next
    case False
    have vp: "view p3 prev = view pg prev" using prev d3(2) d2(2) d1(2) by simp
    have pv: "prev < MAX_PAGES" using prev n(3) by simp
    obtain p4 where p4: "update_page p3 prev (\<lambda>b. wr 4 b 0 n) = Some p4"
      "evolves p3 {} (Suc prev) p4 ((view p3)(prev := wr 4 (view p3 prev) 0 n))"
      by (rule update_page_ok [OF d3(1) pv, of "\<lambda>b. wr 4 b 0 n"])
        (use writing_view_ok [OF d3(1)] in \<open>simp_all add: page_ok_wr\<close>)
    have "(view p3)(prev := wr 4 (view p3 prev) 0 n) = V(n := zero_buf)"
      using False prev d3(2) d2(2) d1(2) vp by (auto simp: V_def)
    moreover have "evolves p4 {} 0 p4 (view p4)" using evolvesD(1) [OF p4(2)] by (rule evolves_refl)
    ultimately show ?thesis
      using False p4 evolves_trans [OF p4(2), of "{}" 0 p4 "view p4" "{}" "Suc n"] prev evolvesD(2) [OF p4(2)] by auto
  qed
  then obtain p4 where p4: "(if prev \<noteq> 0 then update_page p3 prev (\<lambda>b. wr 4 b 0 n) else Some p3) = Some p4"
      "evolves p3 {} (Suc n) p4 (V(n := zero_buf))" by blast
  note d4 = evolvesD [OF p4(2)]
  have l4: "loaded p4 n" using d4(3) d3(3) p2(3) by blast
  have r4: "ref_of p2 n = ref_of p4 n" using d3(8) d4(8) by simp
  have v4: "view p4 n = zero_buf" using d4(2) by simp
  have ok5: "page_ok (put_bytes (view p4 n) OVERFLOW_HEADER_SIZE c)" using c by (simp add: v4 page_ok_put)
  obtain p5 where p5: "edit_at (ref_of p2 n) (\<lambda>b. put_bytes b OVERFLOW_HEADER_SIZE c) p4 = Some p5"
    "evolves p4 {} 0 p5 ((view p4)(n := put_bytes (view p4 n) OVERFLOW_HEADER_SIZE c))" "num_pages p5 = num_pages p4"
    by (rule edit_at_ok [OF d4(1) l4, of "\<lambda>b. put_bytes b OVERFLOW_HEADER_SIZE c"]) (use ok5 r4 in simp_all)
  note d5 = evolvesD [OF p5(2)]
  have "overflow_write_step c (first, prev, pg) = Some (if first = 0 then n else first, n, p5)"
    using gu p1(1) p2(1) p3(1) p4(1) p5(1) by (simp add: overflow_write_step_def del: One_nat_def)
  moreover have "view p5 = V(n := put_bytes zero_buf OVERFLOW_HEADER_SIZE c)" using d5(2) d4(2) v4 by simp
  moreover have "num_pages p5 = Suc n" using p5(3) d4(4,5) np by simp
  moreover have "freelist_head p5 = 0" "reserved_catalog_pages p5 = reserved_catalog_pages pg"
    using d1(6,7) d2(6,7) d3(6,7) d4(6,7) d5(6,7) free by simp_all
  moreover have "loaded p5 k" if "loaded pg k" for k using that d1(3) d2(3) d3(3) d4(3) d5(3) by blast
  moreover have "shadowed p5 k" if "shadowed pg k" for k using that d1(9) d2(9) d3(9) d4(9) d5(9) by blast
  moreover have "shadowed pg k \<or> k = n" if "shadowed p5 k" for k
    using that p1(2) p2(2) p3(2) p4(2) p5(2) unfolding evolves_def by blast
  ultimately show ?thesis using d5(1) by blast
qed


text \<open>A pager changed only by new pages from \<open>N\<close> on.\<close>

definition extended :: "Pager \<Rightarrow> nat \<Rightarrow> nat \<Rightarrow> Pager \<Rightarrow> bool" where
  "extended pg N m p \<longleftrightarrow> writing p \<and> num_pages p = N + m \<and> freelist_head p = 0 \<and>
     reserved_catalog_pages p = reserved_catalog_pages pg \<and> (\<forall>k < N. view p k = view pg k) \<and>
     (\<forall>k. loaded pg k \<longrightarrow> loaded p k) \<and> (\<forall>k. shadowed pg k \<longrightarrow> shadowed p k) \<and>
     (\<forall>k. shadowed p k \<longrightarrow> shadowed pg k \<or> N \<le> k)"

lemma extended_ref: "extended pg N m p \<Longrightarrow> k < N \<Longrightarrow> ref_of p k = ref_of pg k"
  unfolding extended_def ref_of_def by (meson not_le)

lemma write_steps:
  assumes "writing pg" "freelist_head pg = 0" "N = max (num_pages pg) (reserved_catalog_pages pg)" "0 < N"
    and "N + length cs \<le> MAX_PAGES" "\<forall>c \<in> set cs. length c \<le> OVERFLOW_PAYLOAD_SIZE" "cs \<noteq> []"
  shows "\<exists>p. fold_opt overflow_write_step cs (0, 0, pg) = Some (N, N + length cs - 1, p) \<and>
    extended pg N (length cs) p \<and> fresh_chain (view p) N cs"
  using assms(5-7)
proof (induction cs rule: rev_induct)
  case (snoc c cs)
  show ?case
  proof (cases "cs = []")
    case True
    have n: "N < MAX_PAGES" using snoc.prems(1) True by simp
    obtain p where p: "overflow_write_step c (0, 0, pg) = Some (N, N, p)" "writing p"
      "view p = (view pg)(N := put_bytes zero_buf OVERFLOW_HEADER_SIZE c)" "num_pages p = Suc N"
      "freelist_head p = 0" "reserved_catalog_pages p = reserved_catalog_pages pg" "\<forall>k. loaded pg k \<longrightarrow> loaded p k"
      "\<forall>k. shadowed pg k \<longrightarrow> shadowed p k" "\<forall>k. shadowed p k \<longrightarrow> shadowed pg k \<or> k = N"
      using overflow_write_step_ok [OF assms(1,2,3,4) n, of c 0 0] snoc.prems(2) assms(4) by auto
    then have "extended pg N 1 p" by (auto simp: extended_def)
    moreover have "fresh_chain (view p) N [c]" using p(3) by (simp add: fresh_chain_def)
    ultimately show ?thesis using True p(1) by simp
  next
    case False
    obtain q where q: "fold_opt overflow_write_step cs (0, 0, pg) = Some (N, N + length cs - 1, q)"
      "extended pg N (length cs) q" "fresh_chain (view q) N cs"
      using snoc.IH snoc.prems False by auto
    have qe: "writing q" "num_pages q = N + length cs" "freelist_head q = 0" "reserved_catalog_pages q = reserved_catalog_pages pg"
      using q(2) by (simp_all add: extended_def)
    let ?n = "N + length cs" and ?prev = "N + length cs - 1"
    have n: "?n = max (num_pages q) (reserved_catalog_pages q)" "0 < ?n" "?n < MAX_PAGES"
      using qe assms(3,4) snoc.prems(1) by auto
    have prev: "?prev < ?n" "?prev \<noteq> 0" "N \<le> ?prev" using False assms(4) by (cases cs; simp)+
    obtain p where p: "overflow_write_step c (N, ?prev, q) = Some (N, ?n, p)" "writing p"
      "view p = ((view q)(?prev := wr 4 (view q ?prev) 0 ?n))(?n := put_bytes zero_buf OVERFLOW_HEADER_SIZE c)"
      "num_pages p = Suc ?n" "freelist_head p = 0" "reserved_catalog_pages p = reserved_catalog_pages q"
      "\<forall>k. loaded q k \<longrightarrow> loaded p k" "\<forall>k. shadowed q k \<longrightarrow> shadowed p k" "\<forall>k. shadowed p k \<longrightarrow> shadowed q k \<or> k = ?n"
      using overflow_write_step_ok [OF qe(1,3) n, of c ?prev N] snoc.prems(2) prev assms(4) by auto
    have ex: "extended pg N (Suc (length cs)) p"
      using p q(2) prev unfolding extended_def by auto
    have content: "get_bytes (view p (N + i)) OVERFLOW_HEADER_SIZE (length ((cs @ [c]) ! i)) = (cs @ [c]) ! i"
      if "i < Suc (length cs)" for i
    proof (cases "i = length cs")
      case True
      then show ?thesis by (simp add: p(3))
    next
      case False
      with that have i: "i < length cs" by simp
      then have "get_bytes (view q (N + i)) OVERFLOW_HEADER_SIZE (length (cs ! i)) = cs ! i"
        using q(3) by (simp add: fresh_chain_def)
      then show ?thesis using i by (auto simp: p(3) nth_append get_wr_disjoint)
    qed
    have links: "rd 4 (view p (N + i)) 0 = N + Suc i" if "i < length cs" for i
    proof (cases "Suc i = length cs")
      case True
      then have "N + i = ?prev" by simp
      then show ?thesis using n(3) True by (simp add: p(3))
    next
      case False
      with that have "Suc i < length cs" "N + i \<noteq> ?prev" by auto
      then show ?thesis using q(3) by (simp add: p(3) fresh_chain_def)
    qed
    have "fresh_chain (view p) N (cs @ [c])" using content links by (simp add: fresh_chain_def del: add_Suc_right)
    then show ?thesis using q(1) p(1) ex by (simp add: fold_opt_append)
  qed
qed simp

lemma write_chain:
  assumes "writing pg" "freelist_head pg = 0" "N = max (num_pages pg) (reserved_catalog_pages pg)" "0 < N"
    and "N + length (chunks data) \<le> MAX_PAGES" "data \<noteq> []"
  shows "\<exists>p. btree_write_overflow_chain pg data = Some (N, p) \<and> extended pg N (length (chunks data)) p \<and>
    fresh_chain (view p) N (chunks data)"
proof -
  let ?cs = "chunks data"
  have ne: "?cs \<noteq> []" using assms(6) by (simp add: chunks_step)
  have small: "\<forall>c \<in> set ?cs. length c \<le> OVERFLOW_PAYLOAD_SIZE" using chunks_bounds by blast
  obtain q where q: "fold_opt overflow_write_step ?cs (0, 0, pg) = Some (N, N + length ?cs - 1, q)"
    "extended pg N (length ?cs) q" "fresh_chain (view q) N ?cs"
    using write_steps [OF assms(1-5) small ne] by blast
  let ?l = "N + length ?cs - 1"
  have l: "?l \<noteq> 0" "?l < MAX_PAGES" "N \<le> ?l" "Suc ?l = N + length ?cs"
    using assms(4,5) ne by (cases ?cs; simp)+
  have qw: "writing q" "num_pages q = N + length ?cs" using q(2) by (simp_all add: extended_def)
  obtain p where p: "update_page q ?l (\<lambda>b. wr 4 b 0 0) = Some p"
    "evolves q {} (Suc ?l) p ((view q)(?l := wr 4 (view q ?l) 0 0))" "num_pages p = max (num_pages q) (Suc ?l)"
    by (rule update_page_ok [OF qw(1) l(2), of "\<lambda>b. wr 4 b 0 0"]) (simp add: page_ok_wr writing_view_ok [OF qw(1)])
  note d = evolvesD [OF p(2)]
  have "extended pg N (length ?cs) p"
    using q(2) d p(3) l(3,4) qw(2) p(2) unfolding extended_def evolves_def by auto
  moreover have g: "get_bytes (view p k) 4 m = get_bytes (view q k) 4 m" for k m
    by (simp add: d(2) get_wr_disjoint)
  have "N + i \<noteq> ?l" if "Suc i < length ?cs" for i using l(4) that by linarith
  then have "fresh_chain (view p) N ?cs"
    using q(3) unfolding fresh_chain_def g by (simp add: d(2))
  ultimately show ?thesis using assms(6) q(1) p(1) l(1) by (simp add: btree_write_overflow_chain_def)
qed

section \<open>Cells\<close>

text \<open>The cell stores the record \<open>rec\<close>, inline or as a stub with its chain.\<close>

definition cell_holds :: "pages \<Rightarrow> nat \<Rightarrow> byte list \<Rightarrow> byte list \<Rightarrow> bool" where
  "cell_holds V reserved cell rec \<longleftrightarrow>
     (if length rec < BTREE_MAX_LOCAL_PAYLOAD then cell = rec
      else length rec < 2 ^ 32 \<and> (\<exists>first. cell = le_bytes 4 (length rec) @ le_bytes 4 first @ take 1016 rec \<and>
             reserved \<le> first \<and> first \<noteq> 0 \<and> first < MAX_PAGES \<and> chain_at V first (chunks (drop 1016 rec))))"

lemma cell_holds_length: "cell_holds V r cell rec \<Longrightarrow> length cell = min 1024 (length rec)"
  by (auto simp: cell_holds_def split: if_splits)

lemma chain_at_agree: "(\<And>k. k < MAX_PAGES \<Longrightarrow> k \<noteq> 0 \<Longrightarrow> W k = V k) \<Longrightarrow> chain_at V p cs \<Longrightarrow> chain_at W p cs"
  by (induction cs arbitrary: p) auto

lemma serialize_cell_ok:
  assumes "writing pg" "freelist_head pg = 0" "N = max (num_pages pg) (reserved_catalog_pages pg)" "0 < N"
    and "serialize_row_with_mvcc def vs expire_at xmin xmax = Some rec" "length rec < 2 ^ 32"
    and "BTREE_MAX_LOCAL_PAYLOAD \<le> length rec \<longrightarrow> N + length (chunks (drop 1016 rec)) \<le> MAX_PAGES"
  shows "\<exists>cell p. serialize_cell_for_leaf def vs expire_at xmin xmax pg = Some (cell, p) \<and>
    (\<forall>W. (\<forall>k \<ge> N. W k = view p k) \<longrightarrow> cell_holds W (reserved_catalog_pages p) cell rec) \<and>
    writing p \<and> (\<forall>k < N. view p k = view pg k) \<and> (\<forall>k. loaded pg k \<longrightarrow> loaded p k) \<and> (\<forall>k < N. ref_of p k = ref_of pg k) \<and> freelist_head p = 0 \<and>
    reserved_catalog_pages p = reserved_catalog_pages pg \<and> num_pages pg \<le> num_pages p \<and>
    (length rec < BTREE_MAX_LOCAL_PAYLOAD \<longrightarrow> p = pg)"
proof (cases "length rec < BTREE_MAX_LOCAL_PAYLOAD")
  case True
  then show ?thesis using assms by (simp add: serialize_cell_for_leaf_def cell_holds_def)
next
  case False
  then have ne: "drop 1016 rec \<noteq> []" by auto
  have room: "N + length (chunks (drop 1016 rec)) \<le> MAX_PAGES" using assms(7) False by simp
  obtain p where p: "btree_write_overflow_chain pg (drop 1016 rec) = Some (N, p)"
    "extended pg N (length (chunks (drop 1016 rec))) p" "fresh_chain (view p) N (chunks (drop 1016 rec))"
    using write_chain [OF assms(1-4) room ne] by blast
  have "chunks (drop 1016 rec) \<noteq> []" using ne by (simp add: chunks_step)
  then have N: "N < MAX_PAGES" using room by (cases "chunks (drop 1016 rec)") auto
  let ?cell = "le_bytes 4 (length rec) @ le_bytes 4 N @ take 1016 rec"
  have ex: "writing p" "reserved_catalog_pages p = reserved_catalog_pages pg" "\<forall>k < N. view p k = view pg k"
    "\<forall>k. loaded pg k \<longrightarrow> loaded p k" "freelist_head p = 0" "num_pages pg \<le> num_pages p"
    using p(2) assms(3) by (simp_all add: extended_def)
  have "cell_holds W (reserved_catalog_pages p) ?cell rec" if "\<forall>k \<ge> N. W k = view p k" for W
    using False assms(3,4,6) fresh_chain_start [OF fresh_chain_agree [OF p(3), of W] assms(4) room] that N
    unfolding cell_holds_def ex(2) by auto
  moreover have "serialize_cell_for_leaf def vs expire_at xmin xmax pg = Some (?cell, p)"
    using False assms(5) p(1) by (simp add: serialize_cell_for_leaf_def)
  moreover have "\<forall>k < N. ref_of p k = ref_of pg k" using extended_ref [OF p(2)] by blast
  ultimately show ?thesis using ex False by blast
qed

text \<open>
  The cell \<open>serialize_cell_for_leaf\<close> makes of a row holds its record: below 1024 bytes the record
  itself, with no page touched, from 1024 bytes on a 1024-byte stub with the record's length, its
  first 1016 bytes and a chain of new pages with the rest.  No page that existed changes.
\<close>

theorem serialize_cell_holds:
  assumes "writing pg" "freelist_head pg = 0" "N = max (num_pages pg) (reserved_catalog_pages pg)" "0 < N"
    and "serialize_row_with_mvcc def vs expire_at xmin xmax = Some rec" "length rec < 2 ^ 32"
    and "BTREE_MAX_LOCAL_PAYLOAD \<le> length rec \<longrightarrow> N + length (chunks (drop 1016 rec)) \<le> MAX_PAGES"
  shows "\<exists>cell p. serialize_cell_for_leaf def vs expire_at xmin xmax pg = Some (cell, p) \<and>
    cell_holds (view p) (reserved_catalog_pages p) cell rec \<and> (\<forall>k < N. view p k = view pg k) \<and>
    (length rec < BTREE_MAX_LOCAL_PAYLOAD \<longrightarrow> p = pg)"
proof -
  obtain cell p where p: "serialize_cell_for_leaf def vs expire_at xmin xmax pg = Some (cell, p)"
    "\<forall>W. (\<forall>k \<ge> N. W k = view p k) \<longrightarrow> cell_holds W (reserved_catalog_pages p) cell rec"
    "\<forall>k < N. view p k = view pg k" "length rec < BTREE_MAX_LOCAL_PAYLOAD \<longrightarrow> p = pg"
    using serialize_cell_ok [OF assms] by (elim exE conjE)
  then show ?thesis by simp
qed

lemma stub_fields:
  assumes "get_bytes b 0 1024 = le_bytes 4 x @ le_bytes 4 y @ bs" "length bs = 1016" "x < 2 ^ 32" "y < 2 ^ 32"
  shows "rd 4 b 0 = x" "rd 4 b 4 = y" "get_bytes b 8 1016 = bs"
proof -
  have "get_bytes b 0 (4 + (4 + 1016)) = le_bytes 4 x @ le_bytes 4 y @ bs" using assms(1) by simp
  then have "get_bytes b 0 4 @ get_bytes b 4 4 @ get_bytes b 8 1016 = le_bytes 4 x @ le_bytes 4 y @ bs"
    unfolding get_bytes_append by simp
  then have g: "get_bytes b 0 4 = le_bytes 4 x" "get_bytes b 4 4 = le_bytes 4 y" "get_bytes b 8 1016 = bs"
    by (simp_all add: append_eq_append_conv)
  show "rd 4 b 0 = x" "rd 4 b 4 = y" using g(1,2) assms(3,4) by (simp_all add: rd_def)
  show "get_bytes b 8 1016 = bs" by (rule g(3))
qed

lemma cursor_value_record:
  assumes "reading pg" "c_page c < MAX_PAGES" "cell_holds (view pg) (reserved_catalog_pages pg) (leaf_cell (view pg (c_page c)) (c_cell c)) rec"
  shows "\<exists>b q. cursor_value c pg = Some (b, q) \<and> unseen pg q \<and> get_bytes b 0 (length rec) = rec"
proof -
  let ?node = "view pg (c_page c)" and ?i = "c_cell c"
  let ?off = "slot_offset ?node ?i" and ?sz = "slot_size ?node ?i"
  define cd where "cd = (\<lambda>i. ?node (?off + i))"
  obtain q where q: "read_page pg (c_page c) = Some (?node, q)" "unseen pg q"
    by (rule read_page_reading [OF assms(1,2)])
  note u = unseenD [OF q(2)]
  have cell: "get_bytes cd 0 ?sz = leaf_cell ?node ?i" by (simp add: cd_def leaf_cell_def leaf_node_value_def get_bytes_def)
  have sz: "?sz = min 1024 (length rec)" using cell_holds_length [OF assms(3)] by simp
  show ?thesis
  proof (cases "length rec < BTREE_MAX_LOCAL_PAYLOAD")
    case True
    then have "get_bytes cd 0 (length rec) = rec" using cell assms(3) sz by (simp add: cell_holds_def)
    then show ?thesis using True q sz by (simp add: cursor_value_def cell_is_overflow_stub_def cd_def [symmetric] Let_def)
  next
    case False
    then obtain first where f: "leaf_cell ?node ?i = le_bytes 4 (length rec) @ le_bytes 4 first @ take 1016 rec"
      "reserved_catalog_pages pg \<le> first" "first \<noteq> 0" "first < MAX_PAGES" "chain_at (view pg) first (chunks (drop 1016 rec))"
      "length rec < 2 ^ 32" using assms(3) by (auto simp: cell_holds_def)
    have s: "?sz = 1024" using sz False by simp
    have flds: "rd 4 cd 0 = length rec" "rd 4 cd 4 = first" "get_bytes cd 8 1016 = take 1016 rec"
      using stub_fields [of cd "length rec" first "take 1016 rec"] cell f s False by auto
    obtain r where r: "btree_read_overflow_chain q first (length (drop 1016 rec)) = Some (drop 1016 rec, r)" "unseen q r"
      using read_chain [of q first "drop 1016 rec"] f(5) u by auto
    have nc: "\<not> (rd 4 cd 0 \<le> ?sz - 8 \<or> rd 4 cd 4 = 0 \<or> rd 4 cd 4 = INVALID_PAGE_NUM \<or> rd 4 cd 4 < reserved_catalog_pages q)"
      using False f(2-4) u(3) by (simp add: flds s)
    have "cursor_value c pg = btree_read_overflow_chain q (rd 4 cd 4) (rd 4 cd 0 - (?sz - 8)) \<bind>
        (\<lambda>(rest, pg). Some (page_of (get_bytes cd 8 (?sz - 8) @ rest), pg))"
      using nc s by (simp add: cursor_value_def q(1) cell_is_overflow_stub_def cd_def [symmetric] Let_def del: de_Morgan_disj)
    also have "\<dots> = Some (page_of (take 1016 rec @ drop 1016 rec), r)"
      using r(1) by (simp add: flds s del: append_take_drop_id)
    finally have "cursor_value c pg = Some (page_of (take 1016 rec @ drop 1016 rec), r)" .
    then have "cursor_value c pg = Some (page_of rec, r)" by simp
    moreover have "get_bytes (page_of rec) 0 (length rec) = rec"
      unfolding page_of_def by (rule get_put_same) simp
    ultimately show ?thesis using unseen_trans [OF q(2) r(2)] by blast
  qed
qed

end
