(* ===== verification/Btree_Update.thy ===== *)
theory Btree_Update
  imports Btree
begin

text \<open>
  The structural changes of the B+ tree (\<open>src/btree.c\<close>): inserting a cell with leaf and internal
  splits and the new root, deleting a cell, borrowing from a sibling, merging and the collapse of the
  root.  The recursions follow parent pointers read from disk, so they are partial functions; the
  functions that take part in one as its callee get it as their first argument.
\<close>

section \<open>A new root\<close>

definition set_parent_of :: "nat \<Rightarrow> nat \<Rightarrow> Pager \<Rightarrow> Pager option" where
  "set_parent_of p n pg = update_page pg n (set_node_parent p)"

text \<open>Every child of the node behind \<open>r\<close> gets the parent \<open>p\<close>.\<close>

definition reparent_children :: "bufref \<Rightarrow> nat \<Rightarrow> Pager \<Rightarrow> Pager option" where
  "reparent_children r p pg = do {
     b \<leftarrow> deref pg r;
     fold_opt (\<lambda>i pg. do {
         b \<leftarrow> deref pg r;
         c \<leftarrow> child_page b i;
         set_parent_of p c pg }) [0..<internal_node_num_keys b + 1] pg }"

definition create_new_root :: "TableDef \<Rightarrow> nat \<Rightarrow> Pager \<Rightarrow> Pager option" where
  "create_new_root def right_child_page pg = do {
     (root, pg) \<leftarrow> page_ptr pg (root_page_num def);
     (right_child, pg) \<leftarrow> page_ptr pg right_child_page;
     (left_page, pg) \<leftarrow> get_unused_page_num pg;
     (left_child, pg) \<leftarrow> page_ptr pg left_page;
     rb \<leftarrow> deref pg root;
     pg \<leftarrow> (if get_node_type rb = NODE_INTERNAL
            then edit_at right_child initialize_internal_node pg \<bind> edit_at left_child initialize_internal_node
            else Some pg);
     rb \<leftarrow> deref pg root;
     pg \<leftarrow> edit_at left_child (\<lambda>b. set_node_root (copy_buf PAGE_SIZE b rb) False) pg;
     lb \<leftarrow> deref pg left_child;
     pg \<leftarrow> (if get_node_type lb = NODE_INTERNAL then reparent_children left_child left_page pg else Some pg);
     pg \<leftarrow> edit_opt root (\<lambda>b. set_child_page 0 left_page
            (set_num_keys 1 (set_node_root (initialize_internal_node b) True))) pg;
     (lmax, pg) \<leftarrow> get_node_max_key def left_child pg;
     pg \<leftarrow> edit_at root (\<lambda>b. set_right_child right_child_page (set_node_key 0 lmax b)) pg;
     pg \<leftarrow> edit_at left_child (set_node_parent (root_page_num def)) pg;
     edit_at right_child (set_node_parent (root_page_num def)) pg }"

section \<open>Inserting a child\<close>

text \<open>\<open>internal_node_split_and_insert\<close>; \<open>ins\<close> is \<open>internal_node_insert\<close> on the same table.\<close>

definition split_internal_with ::
    "(nat \<Rightarrow> nat \<Rightarrow> Pager \<Rightarrow> Pager option) \<Rightarrow> TableDef \<Rightarrow> nat \<Rightarrow> nat \<Rightarrow> Pager \<Rightarrow> Pager option" where
  "split_internal_with ins def parent_page child pg = do {
     (old_node, pg) \<leftarrow> page_ptr pg parent_page;
     (old_max, pg) \<leftarrow> get_node_max_key def old_node pg;
     (child_node, pg) \<leftarrow> page_ptr pg child;
     (cmax, pg) \<leftarrow> get_node_max_key def child_node pg;
     (new_page, pg) \<leftarrow> get_unused_page_num pg;
     ob \<leftarrow> deref pg old_node;
     let splitting_root = is_node_root ob;
     (parent, old_page, old_node, pg) \<leftarrow>
       (if splitting_root
        then do {
          pg \<leftarrow> create_new_root def new_page pg;
          (parent, pg) \<leftarrow> page_ptr pg (root_page_num def);
          pb \<leftarrow> deref pg parent;
          old_page \<leftarrow> child_page pb 0;
          (old_node, pg) \<leftarrow> page_ptr pg old_page;
          Some (parent, old_page, old_node, pg) }
        else do {
          (parent, pg) \<leftarrow> page_ptr pg (node_parent ob);
          pg \<leftarrow> update_page pg new_page initialize_internal_node;
          Some (parent, parent_page, old_node, pg) });
     ob \<leftarrow> deref pg old_node;
     let cur_page = internal_node_right_child ob;
     (cur, pg) \<leftarrow> page_ptr pg cur_page;
     pg \<leftarrow> ins new_page cur_page pg;
     pg \<leftarrow> edit_at cur (set_node_parent new_page) pg;
     pg \<leftarrow> edit_at old_node (set_right_child INVALID_PAGE_NUM) pg;
     pg \<leftarrow> fold_opt (\<lambda>i pg. do {
         ob \<leftarrow> deref pg old_node;
         cur_page \<leftarrow> child_page ob i;
         (cur, pg) \<leftarrow> page_ptr pg cur_page;
         pg \<leftarrow> ins new_page cur_page pg;
         pg \<leftarrow> edit_at cur (set_node_parent new_page) pg;
         edit_at old_node (\<lambda>b. set_num_keys (internal_node_num_keys b - 1) b) pg })
       (rev [INTERNAL_NODE_MAX_KEYS div 2 + 1..<INTERNAL_NODE_MAX_KEYS]) pg;
     pg \<leftarrow> edit_opt old_node (\<lambda>b.
         child_page b (internal_node_num_keys b - 1) \<bind> (\<lambda>c.
           Some (set_num_keys (internal_node_num_keys b - 1) (set_right_child c b)))) pg;
     (max_after, pg) \<leftarrow> get_node_max_key def old_node pg;
     let dest = (if compare_keys (col_type (columns def ! 0)) cmax max_after < 0 then old_page else new_page);
     pg \<leftarrow> ins dest child pg;
     (new_old_max, pg) \<leftarrow> get_node_max_key def old_node pg;
     pg \<leftarrow> edit_at parent (update_internal_node_key old_max new_old_max def) pg;
     if splitting_root then Some pg
     else deref pg old_node \<bind> (\<lambda>ob. ins (node_parent ob) new_page pg) }"

lemma fold_opt_mono [partial_function_mono]:
  assumes "\<And>x s. mono_option (\<lambda>f. g f x s)"
  shows "mono_option (\<lambda>f. fold_opt (g f) xs s)"
proof (induction xs arbitrary: s)
  case (Cons x xs)
  show ?case unfolding fold_opt.simps by (rule bind_mono [OF assms Cons])
qed (simp add: option.const_mono)

lemma case_prod_mono:
  "(\<And>x y. mono_option (\<lambda>f. h x y f)) \<Longrightarrow> mono_option (\<lambda>f. case p of (x, y) \<Rightarrow> h x y f)"
  by (cases p) simp

lemmas option_mono_intros = bind_mono fold_opt_mono case_prod_mono if_mono option.const_mono

lemma split_internal_mono [partial_function_mono]:
  assumes "\<And>p c pg. mono_option (\<lambda>f. ins f p c pg)"
  shows "mono_option (\<lambda>f. split_internal_with (ins f) def parent child pg)"
  unfolding split_internal_with_def Let_def
  by (intro option_mono_intros assms) 


partial_function (option) internal_node_insert ::
    "TableDef \<Rightarrow> nat \<Rightarrow> nat \<Rightarrow> Pager \<Rightarrow> Pager option" where
  "internal_node_insert def parent_page child pg = do {
     (parent, pg) \<leftarrow> page_ptr pg parent_page;
     (child_node, pg) \<leftarrow> page_ptr pg child;
     (cmax, pg) \<leftarrow> get_node_max_key def child_node pg;
     pb \<leftarrow> deref pg parent;
     let idx = internal_node_find_child pb cmax def;
     let nk = internal_node_num_keys pb;
     pg \<leftarrow> edit_at child_node (set_node_parent parent_page) pg;
     if nk \<ge> INTERNAL_NODE_MAX_KEYS
     then split_internal_with (internal_node_insert def) def parent_page child pg
     else do {
       pb \<leftarrow> deref pg parent;
       let rcp = internal_node_right_child pb;
       if rcp = INVALID_PAGE_NUM then edit_at parent (set_right_child child) pg
       else do {
         (rc, pg) \<leftarrow> page_ptr pg rcp;
         pg \<leftarrow> edit_at parent (\<lambda>b. set_num_keys (internal_node_num_keys b + 1) b) pg;
         (rcmax, pg) \<leftarrow> get_node_max_key def rc pg;
         if compare_keys (col_type (columns def ! 0)) cmax rcmax > 0
         then edit_opt parent (\<lambda>b. set_child_page nk rcp b \<bind>
                (\<lambda>b. Some (set_right_child child (set_node_key nk rcmax b)))) pg
         else edit_opt parent (\<lambda>b. set_child_page idx child
                  (fold (\<lambda>i. copy_cell i (i - 1)) (rev [Suc idx..<Suc nk]) b) \<bind>
                (\<lambda>b. Some (set_node_key idx cmax b))) pg } } }"

definition internal_node_split_and_insert :: "TableDef \<Rightarrow> nat \<Rightarrow> nat \<Rightarrow> Pager \<Rightarrow> Pager option" where
  "internal_node_split_and_insert def = split_internal_with (internal_node_insert def) def"

section \<open>Inserting a row\<close>

definition leaf_node_split_and_insert :: "TableDef \<Rightarrow> Cursor \<Rightarrow> byte list \<Rightarrow> Pager \<Rightarrow> Pager option" where
  "leaf_node_split_and_insert def c new_cell pg = do {
     pg \<leftarrow> pager_journal_page pg (c_page c);
     (old_node, pg) \<leftarrow> page_ptr pg (c_page c);
     (old_max, pg) \<leftarrow> get_node_max_key def old_node pg;
     (new_page, pg) \<leftarrow> get_unused_page_num pg;
     pg \<leftarrow> pager_journal_page pg new_page;
     (new_node, pg) \<leftarrow> page_ptr pg new_page;
     pg \<leftarrow> edit_at new_node initialize_leaf_node pg;
     ob \<leftarrow> deref pg old_node;
     pg \<leftarrow> edit_at new_node (\<lambda>b. set_next_leaf (leaf_node_next_leaf ob) (set_node_parent (node_parent ob) b)) pg;
     pg \<leftarrow> edit_at old_node (set_next_leaf new_page) pg;
     ob \<leftarrow> deref pg old_node;
     let temp_cells = split_cells ob (c_cell c) new_cell;
     let lsplit = length temp_cells div 2;
     pg \<leftarrow> edit_at old_node (\<lambda>b. populate_leaf (take lsplit temp_cells) (set_next_leaf new_page
            (if is_node_root b then set_node_root (initialize_leaf_node b) True else initialize_leaf_node b))) pg;
     pg \<leftarrow> edit_at new_node (populate_leaf (drop lsplit temp_cells)) pg;
     ob \<leftarrow> deref pg old_node;
     if is_node_root ob then create_new_root def new_page pg
     else do {
       let pp = node_parent ob;
       pg \<leftarrow> pager_journal_page pg pp;
       (parent, pg) \<leftarrow> page_ptr pg pp;
       (new_old_max, pg) \<leftarrow> get_node_max_key def old_node pg;
       pg \<leftarrow> edit_at parent (update_internal_node_key old_max new_old_max def) pg;
       internal_node_insert def pp new_page pg } }"

definition leaf_node_insert ::
    "TableDef \<Rightarrow> Cursor \<Rightarrow> Value list \<Rightarrow> 64 word \<Rightarrow> 64 word \<Rightarrow> 64 word \<Rightarrow> Pager \<Rightarrow> Pager option" where
  "leaf_node_insert def c vs expire_at xmin xmax pg = do {
     pg \<leftarrow> pager_journal_page pg (c_page c);
     (node, pg) \<leftarrow> page_ptr pg (c_page c);
     b \<leftarrow> deref pg node;
     let nc = leaf_node_num_cells b;
     (cell, pg) \<leftarrow> serialize_cell_for_leaf def vs expire_at xmin xmax pg;
     b \<leftarrow> deref pg node;
     if leaf_full (leaf_node_free_space b) nc (length cell)
     then do {
       pg \<leftarrow> edit_at node leaf_node_defragment pg;
       b \<leftarrow> deref pg node;
       if leaf_full (leaf_node_free_space b) nc (length cell)
       then leaf_node_split_and_insert def c cell pg
       else edit_at node (leaf_insert_cell nc (c_cell c) cell) pg }
     else edit_at node (leaf_insert_cell nc (c_cell c) cell) pg }"

definition btree_insert_with_mvcc ::
    "TableDef \<Rightarrow> Cursor \<Rightarrow> Value list \<Rightarrow> 64 word \<Rightarrow> 64 word \<Rightarrow> 64 word \<Rightarrow> Pager \<Rightarrow> Pager option" where
  "btree_insert_with_mvcc def c vs expire_at xmin xmax pg = leaf_node_insert def c vs expire_at xmin xmax pg"

definition btree_insert_with_ttl :: "TableDef \<Rightarrow> Cursor \<Rightarrow> Value list \<Rightarrow> 64 word \<Rightarrow> Pager \<Rightarrow> Pager option" where
  "btree_insert_with_ttl def c vs expire_at pg = btree_insert_with_mvcc def c vs expire_at 0 0 pg"

definition btree_insert :: "TableDef \<Rightarrow> Cursor \<Rightarrow> Value list \<Rightarrow> Pager \<Rightarrow> Pager option" where
  "btree_insert def c vs pg = btree_insert_with_mvcc def c vs 0 0 0 pg"

end
