(* ===== verification/Btree_Insert.thy ===== *)
theory Btree_Insert
  imports Btree_Overflow Btree_Update Record_Roundtrip
begin

text \<open>
  Inserting a row: into a leaf with room for it, which inserts its cell into the list of cells and
  lets the row be read back through the cursor; into a full root leaf, which becomes an internal root
  over two leaves; and the split that does not fit.
\<close>

section \<open>A leaf with room\<close>

text \<open>A cell of \<open>sz\<close> bytes fits once the leaf is defragmented.\<close>

definition leaf_fits :: "buf \<Rightarrow> nat \<Rightarrow> bool" where
  "leaf_fits b sz \<longleftrightarrow> leaf_node_slot (Suc (leaf_node_num_cells b)) + sum_list (map length (cells b)) + sz \<le> PAGE_SIZE"

lemma cells_num: "cells b = cells b' \<Longrightarrow> leaf_node_num_cells b = leaf_node_num_cells b'"
  by (metis length_cells)

lemma same_links_trans: "same_links a b \<Longrightarrow> same_links b c \<Longrightarrow> same_links a c"
  by (simp add: same_links_def)

text \<open>The end of \<open>leaf_node_insert\<close> on one page.\<close>

lemma insert_or_defragment:
  assumes ok: "leaf_ok b" and k: "k \<le> leaf_node_num_cells b" and fits: "leaf_fits b (length cell)"
  defines "b' \<equiv> (if leaf_full (leaf_node_free_space b) (leaf_node_num_cells b) (length cell) then leaf_node_defragment b else b)"
  shows "\<not> leaf_full (leaf_node_free_space b') (leaf_node_num_cells b) (length cell)" "page_ok b'"
    "cells (leaf_insert_cell (leaf_node_num_cells b) k cell b') = take k (cells b) @ cell # drop k (cells b)"
    "leaf_ok (leaf_insert_cell (leaf_node_num_cells b) k cell b')"
    "same_links b (leaf_insert_cell (leaf_node_num_cells b) k cell b')"
proof -
  note df = leaf_defragment_ok [OF ok]
  have b': "leaf_ok b'" "cells b' = cells b" "same_links b b'"
    using ok df by (auto simp: b'_def same_links_def)
  have nc: "leaf_node_num_cells b' = leaf_node_num_cells b" by (rule cells_num [OF b'(2)])
  show room: "\<not> leaf_full (leaf_node_free_space b') (leaf_node_num_cells b) (length cell)"
    using fits leaf_full_defragmented [OF ok, of "length cell"] by (auto simp: b'_def leaf_fits_def)
  show "page_ok b'" by (rule leaf_okD(1) [OF b'(1)])
  note ins = leaf_insert_ok [OF b'(1), of k cell, unfolded nc, OF k room]
  show "cells (leaf_insert_cell (leaf_node_num_cells b) k cell b') = take k (cells b) @ cell # drop k (cells b)"
    "leaf_ok (leaf_insert_cell (leaf_node_num_cells b) k cell b')"
    "same_links b (leaf_insert_cell (leaf_node_num_cells b) k cell b')"
    using ins b'(2) same_links_trans [OF b'(3)] by simp_all
qed


text \<open>What a store looks like once a row with record \<open>rec\<close> has gone into the leaf \<open>n\<close> at position \<open>k\<close>.\<close>

definition leaf_gains :: "Pager \<Rightarrow> Pager \<Rightarrow> nat \<Rightarrow> nat \<Rightarrow> byte list \<Rightarrow> bool" where
  "leaf_gains pg p n k rec \<longleftrightarrow> writing p \<and> freelist_head p = freelist_head pg \<and> num_pages pg \<le> num_pages p \<and>
     leaf_ok (view p n) \<and> same_links (view pg n) (view p n) \<and>
     (\<exists>cell. cell_holds (view p) (reserved_catalog_pages p) cell rec \<and>
        cells (view p n) = take k (cells (view pg n)) @ cell # drop k (cells (view pg n))) \<and>
     (\<forall>m < max (num_pages pg) (reserved_catalog_pages pg). m \<noteq> n \<longrightarrow> view p m = view pg m)"

lemma leaf_node_insert_ok:
  assumes w: "writing pg" and free: "freelist_head pg = 0"
    and N: "N = max (num_pages pg) (reserved_catalog_pages pg)"
    and rec: "serialize_row_with_mvcc def vs expire_at xmin xmax = Some rec" "length rec < 2 ^ 32"
      "BTREE_MAX_LOCAL_PAYLOAD \<le> length rec \<longrightarrow> N + length (chunks (drop 1016 rec)) \<le> MAX_PAGES"
    and leaf: "c_page c < num_pages pg" "c_page c < MAX_PAGES" "leaf_ok (view pg (c_page c))" "c_cell c \<le> leaf_node_num_cells (view pg (c_page c))"
      "leaf_fits (view pg (c_page c)) (min 1024 (length rec))"
  shows "\<exists>p. leaf_node_insert def c vs expire_at xmin xmax pg = Some p \<and> leaf_gains pg p (c_page c) (c_cell c) rec"
proof -
  let ?n = "c_page c" and ?k = "c_cell c"
  let ?b = "view pg ?n" let ?nc = "leaf_node_num_cells ?b"
  obtain p1 where p1: "pager_journal_page pg ?n = Some p1" "evolves pg {?n} (Suc ?n) p1 (view pg)"
    by (rule journal_ok_writing [OF w leaf(2)])
  note d1 = evolvesD [OF p1(2)]
  obtain p2 where p2: "page_ptr p1 ?n = Some (ref_of p2 ?n, p2)" "evolves p1 {} (Suc ?n) p2 (view p1)" "loaded p2 ?n"
    by (rule page_ptr_ok [OF d1(1) leaf(2)])
  note d2 = evolvesD [OF p2(2)]
  have np: "num_pages p2 = num_pages pg" using d1(4,5) d2(4,5) leaf(1) by linarith
  have N2: "N = max (num_pages p2) (reserved_catalog_pages p2)" using np d1(7) d2(7) N by simp
  have N0: "0 < N" "?n < N" using leaf(1) N by auto
  obtain cell p3 where p3: "serialize_cell_for_leaf def vs expire_at xmin xmax p2 = Some (cell, p3)"
    "\<forall>W. (\<forall>k \<ge> N. W k = view p3 k) \<longrightarrow> cell_holds W (reserved_catalog_pages p3) cell rec"
    "writing p3" "\<forall>k < N. view p3 k = view p2 k" "\<forall>k. loaded p2 k \<longrightarrow> loaded p3 k" "\<forall>k < N. ref_of p3 k = ref_of p2 k"
    "freelist_head p3 = 0" "reserved_catalog_pages p3 = reserved_catalog_pages p2" "num_pages p2 \<le> num_pages p3"
    using serialize_cell_ok [OF d2(1) _ N2 N0(1) rec] free d1(6) d2(6) by auto
  have b3: "view p3 ?n = ?b" "view p2 ?n = ?b" using p3(4) N0(2) d1(2) d2(2) by simp_all
  have l3: "loaded p3 ?n" "ref_of p2 ?n = ref_of p3 ?n" using p3(5,6) p2(3) N0(2) by simp_all
  have dr: "deref p2 (ref_of p2 ?n) = Some ?b" "deref p3 (ref_of p2 ?n) = Some ?b"
    using deref_loaded [OF d2(1) p2(3)] deref_loaded [OF p3(3) l3(1)] l3(2) b3 by simp_all
  have len: "length cell = min 1024 (length rec)" using p3(2) cell_holds_length by blast
  note io = insert_or_defragment [OF leaf(3,4), of cell, unfolded len, OF leaf(5)]
  define b' where "b' = (if leaf_full (leaf_node_free_space ?b) ?nc (min 1024 (length rec)) then leaf_node_defragment ?b else ?b)"
  let ?f = "leaf_insert_cell ?nc ?k cell"
  note io' = io [folded b'_def]
  have main: "\<exists>p. leaf_node_insert def c vs expire_at xmin xmax pg = Some p \<and> evolves p3 {} 0 p ((view p3)(?n := ?f b'))"
  proof (cases "leaf_full (leaf_node_free_space ?b) ?nc (length cell)")
    case False
    then have b': "b' = ?b" by (simp add: b'_def len)
    obtain p4 where p4: "edit_at (ref_of p2 ?n) ?f p3 = Some p4" "evolves p3 {} 0 p4 ((view p3)(?n := ?f (view p3 ?n)))"
      by (rule edit_at_ok [OF p3(3) l3(1), of ?f "ref_of p2 ?n"]) (use leaf_okD(1) [OF io'(4)] b3 b' l3(2) in simp_all)
    have "leaf_node_insert def c vs expire_at xmin xmax pg = Some p4"
      using False p1(1) p2(1) p3(1) dr p4(1) by (simp add: leaf_node_insert_def Let_def)
    then show ?thesis using p4(2) b3 b' by simp
  next
    case True
    then have b': "b' = leaf_node_defragment ?b" by (simp add: b'_def len)
    obtain p4 where p4: "edit_at (ref_of p2 ?n) leaf_node_defragment p3 = Some p4"
      "evolves p3 {} 0 p4 ((view p3)(?n := leaf_node_defragment (view p3 ?n)))"
      by (rule edit_at_ok [OF p3(3) l3(1), of leaf_node_defragment "ref_of p2 ?n"]) (use io'(2) b3 b' l3(2) in simp_all)
    note d4 = evolvesD [OF p4(2)]
    have b4: "view p4 ?n = b'" "loaded p4 ?n" "ref_of p2 ?n = ref_of p4 ?n"
      using d4(2) d4(3) [OF l3(1)] d4(8) l3(2) b3 b' by simp_all
    have dr4: "deref p4 (ref_of p2 ?n) = Some b'" using deref_loaded [OF d4(1) b4(2)] b4 by simp
    obtain p5 where p5: "edit_at (ref_of p2 ?n) ?f p4 = Some p5" "evolves p4 {} 0 p5 ((view p4)(?n := ?f (view p4 ?n)))"
      by (rule edit_at_ok [OF d4(1) b4(2), of ?f "ref_of p2 ?n"]) (use leaf_okD(1) [OF io'(4)] b4 in simp_all)
    have "leaf_node_insert def c vs expire_at xmin xmax pg = Some p5"
      using True io'(1) p1(1) p2(1) p3(1) dr dr4 p4(1) p5(1) by (simp add: leaf_node_insert_def Let_def len)
    moreover have "(view p4)(?n := ?f (view p4 ?n)) = (view p3)(?n := ?f b')"
      unfolding b4(1) unfolding d4(2) by simp
    ultimately show ?thesis using evolves_trans [OF p4(2) p5(2), of "{}" 0] by simp
  qed
  then obtain p where p: "leaf_node_insert def c vs expire_at xmin xmax pg = Some p"
    "evolves p3 {} 0 p ((view p3)(?n := ?f b'))" by blast
  note d = evolvesD [OF p(2)]
  have "cell_holds (view p) (reserved_catalog_pages p) cell rec" using p3(2) d(2,7) N0(2) by simp
  moreover have "view p m = view pg m" if "m < N" "m \<noteq> ?n" for m using that d(2) p3(4) d2(2) d1(2) by simp
  ultimately have "leaf_gains pg p ?n ?k rec"
    using d(1,2,4,6) io'(3-5) N np p3(7,9) free by (auto simp: leaf_gains_def)
  then show ?thesis using p(1) by blast
qed

text \<open>
  C30.  \<open>btree_insert_with_mvcc\<close> into a leaf with room for the row: the list of the leaf's cells gets
  one more, which holds the row's record, at the cursor's position; the leaf stays well formed with
  its links, and no other page that existed changes, whether the record is stored inline or goes to
  overflow pages and whether or not the leaf has to be defragmented first.
\<close>

theorem btree_insert_cells:
  assumes "writing pg" "freelist_head pg = 0" "N = max (num_pages pg) (reserved_catalog_pages pg)"
    and "serialize_row_with_mvcc def vs expire_at xmin xmax = Some rec" "length rec < 2 ^ 32"
      "BTREE_MAX_LOCAL_PAYLOAD \<le> length rec \<longrightarrow> N + length (chunks (drop 1016 rec)) \<le> MAX_PAGES"
    and "c_page c < num_pages pg" "c_page c < MAX_PAGES" "leaf_ok (view pg (c_page c))"
      "c_cell c \<le> leaf_node_num_cells (view pg (c_page c))" "leaf_fits (view pg (c_page c)) (min 1024 (length rec))"
  shows "\<exists>p. btree_insert_with_mvcc def c vs expire_at xmin xmax pg = Some p \<and> leaf_gains pg p (c_page c) (c_cell c) rec"
  unfolding btree_insert_with_mvcc_def by (rule leaf_node_insert_ok [OF assms])

text \<open>The new cell is the one under the cursor.\<close>

lemma gained_cell:
  assumes "leaf_gains pg p n k rec" "k \<le> leaf_node_num_cells (view pg n)"
  shows "cell_holds (view p) (reserved_catalog_pages p) (leaf_cell (view p n) k) rec" "reading p"
proof -
  obtain cell where c: "cell_holds (view p) (reserved_catalog_pages p) cell rec"
    "cells (view p n) = take k (cells (view pg n)) @ cell # drop k (cells (view pg n))" "writing p"
    using assms(1) by (auto simp: leaf_gains_def)
  have l: "length (take k (cells (view pg n))) = k" using assms(2) by simp
  have "k < length (cells (view p n))" unfolding c(2) using l by simp
  then have "leaf_cell (view p n) k = cells (view p n) ! k" by simp
  also have "\<dots> = cell" unfolding c(2) using l by (metis nth_append_length)
  finally show "cell_holds (view p) (reserved_catalog_pages p) (leaf_cell (view p n) k) rec" using c(1) by simp
  show "reading p" by (rule writing_reading [OF c(3)])
qed


end
