(* ===== verification/Btree_Table.thy ===== *)
theory Btree_Table
  imports Btree_Insert
begin

text \<open>
  A table of one leaf as a sorted list of rows.  \<open>single_leaf def pg vss\<close> says that the table's root
  is a leaf whose cells hold the rows \<open>vss\<close> in the order of their keys; inserting at the position that
  \<open>btree_find_out\<close> finds is, on the list, insertion in front of the first row whose key is not smaller.
\<close>

section \<open>Rows and their keys\<close>

text \<open>A row the table can hold, with a key that its record determines.\<close>

definition row_ok :: "TableDef \<Rightarrow> Value list \<Rightarrow> bool" where
  "row_ok def vs \<longleftrightarrow> num_cols def = length vs \<and> num_cols def \<le> MAX_COLUMNS \<and> vs \<noteq> [] \<and>
     (\<forall>v \<in> set vs. value_wf v) \<and> key_consistent (key_type def) (hd vs) \<and> key_type def \<noteq> COL_FLOAT"

abbreviation row_key :: "TableDef \<Rightarrow> Value list \<Rightarrow> byte list" where
  "row_key def vs \<equiv> serialize_col0_key def (hd vs)"

definition cell_row :: "TableDef \<Rightarrow> byte list \<Rightarrow> Value list \<Rightarrow> bool" where
  "cell_row def cell vs \<longleftrightarrow> row_ok def vs \<and> length cell < BTREE_MAX_LOCAL_PAYLOAD \<and>
     (\<exists>expire_at xmin xmax. serialize_row_with_mvcc def vs expire_at xmin xmax = Some cell)"

definition leaf_rows :: "TableDef \<Rightarrow> buf \<Rightarrow> Value list list \<Rightarrow> bool" where
  "leaf_rows def b vss \<longleftrightarrow> list_all2 (cell_row def) (cells b) vss"

lemma key_of_canon:
  assumes "row_ok def vs"
  shows "serialize_col0_key def (canon (columns def ! 0) (hd vs)) = row_key def vs"
proof (cases "is_text_type (key_type def)")
  case True
  have "value_wf (hd vs)" "\<not> is_null (hd vs)" using assms by (auto simp: row_ok_def key_consistent_def)
  then have t: "take (unat (text_len (hd vs))) (text_bytes (text_val (hd vs))) = text_bytes (text_val (hd vs))"
    by (auto simp: value_wf_def split: text_ptr.splits)
  then have "val_text (canon (columns def ! 0) (hd vs)) = val_text (hd vs)"
    using True \<open>\<not> is_null (hd vs)\<close> by (cases "key_type def") (auto simp: canon_def val_text_def value_set_text_len_def Let_def)
  then show ?thesis using True by (cases "key_type def") (simp_all add: serialize_col0_key_def)
next
  case False
  then show ?thesis
    using assms by (cases "key_type def") (auto simp: row_ok_def key_consistent_def canon_def serialize_col0_key_def)
qed

lemma cell_row_key:
  assumes "cell_row def (leaf_cell b i) vs"
  shows "cell_key def b i = row_key def vs"
proof -
  have r: "row_ok def vs" using assms by (simp add: cell_row_def)
  obtain v vs' where v: "vs = v # vs'" using r by (cases vs) (auto simp: row_ok_def)
  obtain e x y where s: "serialize_row_with_mvcc def vs e x y = Some (leaf_cell b i)" using assms by (auto simp: cell_row_def)
  have nn: "\<not> is_null v" using r v by (simp add: row_ok_def key_consistent_def)
  have g: "get_bytes b (leaf_node_value b i) (length (leaf_cell b i)) = leaf_cell b i" by (simp add: leaf_cell_def)
  have "extract_col0_from_packed_record def b (leaf_node_value b i) (length (leaf_cell b i)) = canon (columns def ! 0) v"
    by (rule extract_col0_stored [OF _ _ _ v nn s g]) (use r assms in \<open>auto simp: row_ok_def cell_row_def\<close>)
  then show ?thesis using key_of_canon [OF r] by (simp add: cell_key_def v)
qed

lemma leaf_rows_keys:
  assumes "leaf_rows def b vss"
  shows "keys def b = map (row_key def) vss" "length vss = leaf_node_num_cells b"
proof -
  have l: "length vss = leaf_node_num_cells b" using assms by (auto simp: leaf_rows_def dest: list_all2_lengthD)
  have "cell_row def (leaf_cell b i) (vss ! i)" if "i < length vss" for i
    using assms that l by (auto simp: leaf_rows_def list_all2_conv_all_nth)
  then show "keys def b = map (row_key def) vss"
    using l cell_row_key [of def b] by - (rule nth_equalityI, simp_all add: keys_def)
  show "length vss = leaf_node_num_cells b" by (rule l)
qed

section \<open>The table\<close>

definition single_leaf :: "TableDef \<Rightarrow> Pager \<Rightarrow> Value list list \<Rightarrow> bool" where
  "single_leaf def pg vss \<longleftrightarrow> writing pg \<and> freelist_head pg = 0 \<and> root_page_num def < num_pages pg \<and>
     root_page_num def < MAX_PAGES \<and>
     (let b = view pg (root_page_num def)
      in get_node_type b = NODE_LEAF \<and> leaf_node_next_leaf b = 0 \<and> leaf_ok b \<and> leaf_rows def b vss) \<and>
     sorted_wrt (\<lambda>x y. compare_keys (key_type def) x y \<le> 0) (map (row_key def) vss)"

text \<open>The reference: insertion in front of the first row whose key is not smaller.\<close>

fun insert_row :: "TableDef \<Rightarrow> Value list \<Rightarrow> Value list list \<Rightarrow> Value list list" where
  "insert_row def vs [] = [vs]"
| "insert_row def vs (w # ws) = (if key_less def (row_key def w) (row_key def vs)
     then w # insert_row def vs ws else vs # w # ws)"

lemma insert_row_split:
  assumes "splits_at def (map (row_key def) vss) (row_key def vs) k"
  shows "take k vss @ vs # drop k vss = insert_row def vs vss"
  using assms
proof (induction vss arbitrary: k)
  case (Cons w ws)
  then show ?case
  proof (cases k)
    case 0
    then show ?thesis using Cons.prems by (simp add: splits_at_def)
  next
    case (Suc j)
    then have "key_less def (row_key def w) (row_key def vs)" "splits_at def (map (row_key def) ws) (row_key def vs) j"
      using Cons.prems by (auto simp: splits_at_def)
    then show ?thesis using Cons.IH Suc by simp
  qed
qed (simp add: splits_at_def)

lemma table_keys:
  assumes "single_leaf def pg vss"
  shows "keys def (view pg (root_page_num def)) = map (row_key def) vss"
    "sorted_keys def (keys def (view pg (root_page_num def)))" "\<forall>vs \<in> set vss. row_ok def vs"
proof -
  have lr: "leaf_rows def (view pg (root_page_num def)) vss"
    and s: "sorted_wrt (\<lambda>x y. compare_keys (key_type def) x y \<le> 0) (map (row_key def) vss)"
    using assms by (simp_all add: single_leaf_def Let_def)
  show k: "keys def (view pg (root_page_num def)) = map (row_key def) vss" by (rule leaf_rows_keys(1) [OF lr])
  show r: "\<forall>vs \<in> set vss. row_ok def vs"
    using lr by (auto simp: leaf_rows_def list_all2_conv_all_nth in_set_conv_nth cell_row_def)
  then have "\<forall>x \<in> set (map (row_key def) vss). key_ok (key_type def) x"
    using serialize_col0_key_ok by (fastforce simp: row_ok_def)
  then show "sorted_keys def (keys def (view pg (root_page_num def)))" using s unfolding k by (simp add: sorted_keys_def)
qed

text \<open>Where \<open>btree_find_out\<close> puts the cursor.\<close>

lemma leaf_position:
  assumes "single_leaf def pg vss" "row_ok def vs"
  obtains c q where "btree_find_out def (hd vs) pg = Some (c, q)" "unseen pg q" "c_page c = root_page_num def"
    "c_cell c = leaf_node_find (view pg (root_page_num def)) (row_key def vs) def"
proof -
  let ?n = "root_page_num def" and ?k = "row_key def vs"
  let ?b = "view pg ?n"
  have S: "writing pg" "?n < MAX_PAGES" "get_node_type ?b = NODE_LEAF" "leaf_node_next_leaf ?b = 0" "leaf_rows def ?b vss"
    using assms(1) by (simp_all add: single_leaf_def Let_def)
  have key: "key_ok (key_type def) ?k" using assms(2) serialize_col0_key_ok by (simp add: row_ok_def)
  note tk = table_keys [OF assms(1)]
  have t: "table_ok def (view pg) 0" using S(2-4) tk(2) by (simp add: table_ok_def)
  obtain q where f: "btree_find_out def (hd vs) pg = Some (cursor_for def (view pg) ?k ?n, q)" "unseen pg q"
    using find_out_cursor [OF t writing_reading [OF S(1)] key] by auto
  have "splits_at def (map (row_key def) vss) ?k (leaf_node_find ?b ?k def)"
    using leaf_node_find_splits [OF tk(2) key] by (simp add: tk(1))
  then have "leaf_node_find ?b ?k def \<le> leaf_node_num_cells ?b" using leaf_rows_keys(2) [OF S(5)] by (simp add: splits_at_def)
  then have "c_page (cursor_for def (view pg) ?k ?n) = ?n" "c_cell (cursor_for def (view pg) ?k ?n) = leaf_node_find ?b ?k def"
    using S(4) by (auto simp: cursor_for_def Let_def)
  then show ?thesis using that [OF f] by blast
qed

lemma single_leaf_unseen:
  assumes "single_leaf def pg vss" "unseen pg q"
  shows "single_leaf def q vss"
  using assms(1) unseen_writing [OF _ assms(2)] by (auto simp: single_leaf_def Let_def)

text \<open>Insertion with the cursor where the binary search in the leaf puts it.\<close>

lemma insert_into_leaf:
  assumes "single_leaf def pg vss" "row_ok def vs" "serialize_row_with_mvcc def vs expire_at xmin xmax = Some rec"
    and "length rec < BTREE_MAX_LOCAL_PAYLOAD" "leaf_fits (view pg (root_page_num def)) (length rec)"
    and "c_page c = root_page_num def" "c_cell c = leaf_node_find (view pg (root_page_num def)) (row_key def vs) def"
  obtains p where "btree_insert_with_mvcc def c vs expire_at xmin xmax pg = Some p"
    "single_leaf def p (take (c_cell c) vss @ vs # drop (c_cell c) vss)"
    "insert_row def vs vss = take (c_cell c) vss @ vs # drop (c_cell c) vss"
    "cells (view p (root_page_num def)) =
       take (c_cell c) (cells (view pg (root_page_num def))) @ rec # drop (c_cell c) (cells (view pg (root_page_num def)))"
    "is_node_root (view p (root_page_num def)) = is_node_root (view pg (root_page_num def))"
proof -
  let ?n = "root_page_num def" and ?k = "row_key def vs"
  let ?b = "view pg ?n" and ?i = "c_cell c"
  have S: "writing pg" "freelist_head pg = 0" "?n < num_pages pg" "?n < MAX_PAGES" "get_node_type ?b = NODE_LEAF"
    "leaf_node_next_leaf ?b = 0" "leaf_ok ?b" "leaf_rows def ?b vss"
    using assms(1) by (simp_all add: single_leaf_def Let_def)
  have key: "key_ok (key_type def) ?k" using assms(2) serialize_col0_key_ok by (simp add: row_ok_def)
  note tk = table_keys [OF assms(1)]
  have sp: "splits_at def (map (row_key def) vss) ?k ?i" using leaf_node_find_splits [OF tk(2) key] by (simp add: tk(1) assms(7))
  then have i: "?i \<le> leaf_node_num_cells ?b" using leaf_rows_keys(2) [OF S(8)] by (simp add: splits_at_def)
  have "\<exists>p. btree_insert_with_mvcc def c vs expire_at xmin xmax pg = Some p \<and> leaf_gains pg p (c_page c) ?i rec"
    unfolding btree_insert_with_mvcc_def
    by (rule leaf_node_insert_ok [OF S(1) _ refl assms(3)]) (use S assms(4-6) i in auto)
  then obtain p where p: "btree_insert_with_mvcc def c vs expire_at xmin xmax pg = Some p" "leaf_gains pg p ?n ?i rec"
    unfolding assms(6) by blast
  let ?b' = "view p ?n"
  have g: "writing p" "leaf_ok ?b'" "same_links ?b ?b'" using p(2) by (simp_all add: leaf_gains_def)
  obtain cell where cell: "cell_holds (view p) (reserved_catalog_pages p) cell rec" "cells ?b' = take ?i (cells ?b) @ cell # drop ?i (cells ?b)"
    using p(2) by (auto simp: leaf_gains_def)
  have rec: "cell = rec" using cell(1) assms(4) by (simp add: cell_holds_def)
  then have "cell_row def cell vs" using assms(2-4) by (auto simp: cell_row_def)
  then have rows: "leaf_rows def ?b' (take ?i vss @ vs # drop ?i vss)"
    using S(8) cell(2) by (simp add: leaf_rows_def list_all2_appendI list_all2_takeI list_all2_dropI)
  have "sorted_wrt (\<lambda>x y. compare_keys (key_type def) x y \<le> 0) (map (row_key def) (take ?i vss @ vs # drop ?i vss))"
    using key_order.sorted_insert_split [of "key_type def" "map (row_key def) vss" ?k ?i] tk(2) sp key
    unfolding tk(1) by (simp add: sorted_keys_def splits_at_def take_map drop_map)
  moreover have "freelist_head p = 0 \<and> num_pages pg \<le> num_pages p" using p(2) S(2) by (simp add: leaf_gains_def)
  ultimately have "single_leaf def p (take ?i vss @ vs # drop ?i vss)"
    using g rows S by (simp add: single_leaf_def Let_def same_links_def)
  moreover have "is_node_root ?b' = is_node_root ?b" using g(3) by (simp add: same_links_def)
  ultimately show ?thesis by (rule that [OF p(1) _ insert_row_split [OF sp, symmetric] cell(2) [unfolded rec]])
qed

text \<open>
  C6.  The one-leaf table refines the sorted list: inserting a row where \<open>btree_find_out\<close> says gives
  the table of \<open>insert_row\<close>, with its keys still in order, as long as the leaf has room for the row.
\<close>

theorem insert_refines_sorted_list:
  assumes "single_leaf def pg vss" "row_ok def vs" "serialize_row_with_mvcc def vs expire_at xmin xmax = Some rec"
    and "length rec < BTREE_MAX_LOCAL_PAYLOAD" "leaf_fits (view pg (root_page_num def)) (length rec)"
  shows "\<exists>c q p. btree_find_out def (hd vs) pg = Some (c, q) \<and> btree_insert_with_mvcc def c vs expire_at xmin xmax q = Some p \<and>
    single_leaf def p (insert_row def vs vss)"
proof -
  obtain c q where c: "btree_find_out def (hd vs) pg = Some (c, q)" "unseen pg q" "c_page c = root_page_num def"
    "c_cell c = leaf_node_find (view pg (root_page_num def)) (row_key def vs) def"
    by (rule leaf_position [OF assms(1,2)])
  have v: "view q = view pg" using c(2) by (simp add: unseen_def)
  obtain p where "btree_insert_with_mvcc def c vs expire_at xmin xmax q = Some p"
    "single_leaf def p (take (c_cell c) vss @ vs # drop (c_cell c) vss)" "insert_row def vs vss = take (c_cell c) vss @ vs # drop (c_cell c) vss"
    by (rule insert_into_leaf [OF single_leaf_unseen [OF assms(1) c(2)] assms(2-4) _ c(3)]) (simp_all add: assms(5) c(4) v)
  then show ?thesis using c(1) by auto
qed

end
