(* ===== verification/Btree_Sample.thy ===== *)
theory Btree_Sample
  imports Btree_Table
begin

text \<open>
  Concrete stores for the theorems of the B+ tree: a table of one INT column at page 1, as one leaf and
  as an internal root over two leaves, in a transaction of a process that is alone on its file.
\<close>

section \<open>Pages\<close>

definition sample_table :: TableDef where
  "sample_table = (plain_table [COL_INT])\<lparr>root_page_num := 1\<rparr>"

definition int_row :: "nat \<Rightarrow> Value list" where
  "int_row x = [value_init\<lparr>int_val := of_nat x\<rparr>]"

abbreviation int_cell :: "nat \<Rightarrow> byte list" where
  "int_cell x \<equiv> [2, 1, of_nat x]"

definition sample_leaf :: "bool \<Rightarrow> nat \<Rightarrow> nat list \<Rightarrow> buf" where
  "sample_leaf r next xs = populate_leaf (map int_cell xs) (set_next_leaf next (set_node_root (initialize_leaf_node zero_buf) r))"

definition sample_root :: buf where
  "sample_root = put_bytes (set_right_child 3 (set_num_keys 1 (initialize_internal_node zero_buf)))
     (internal_node_cell 0) (le_bytes 4 2 @ key_pad (le_bytes 4 3))"

lemma sample_table_simps [simp]:
  "num_cols sample_table = 1" "root_page_num sample_table = 1" "columns sample_table = [plain_column COL_INT]"
  by (simp_all add: sample_table_def plain_table_def plain_column_def)

lemma sint_small: "x < 128 \<Longrightarrow> sint (of_nat x :: 32 word) = int x"
proof -
  assume "x < 128"
  then have "uint (of_nat x :: 32 word) = int x" by (simp add: uint_nat unat_of_nat)
  with \<open>x < 128\<close> show ?thesis by (simp add: sint_uint signed_take_bit_int_eq_self)
qed

lemma put_varint_small: "put_varint 1 = [1]" "put_varint 2 = [2]"
  by (subst put_varint.simps; simp add: word_le_nat_alt)+

lemma serialize_int_row:
  assumes "1 < x" "x < 128"
  shows "serialize_row_with_mvcc sample_table (int_row x) 0 0 0 = Some (int_cell x)"
proof -
  have u: "unat (of_nat x :: 32 word) = x" using assms by (simp add: unat_of_nat)
  have s: "sint (of_nat x :: 32 word) = int x" using assms(2) by (rule sint_small)
  show ?thesis
    using assms header_size_loop_ends [of 1]
    by (simp add: serialize_row_with_mvcc_def serialize_col_def hdr_add_def serialize_stamps_def
        value_init_def put_varint_small int_row_def u s Let_def)
qed

lemma int_row_ok [simp]: "row_ok sample_table (int_row x)"
  by (simp add: row_ok_def int_row_def value_wf_def value_init_def key_consistent_def value_ordered_def)

lemma int_row_key:
  assumes "x < 128"
  shows "row_key sample_table (int_row x) = key_pad (le_bytes 4 x)"
  using assms by (simp add: int_row_def serialize_col0_key_def unat_of_nat)

lemma int_cell_row: "1 < x \<Longrightarrow> x < 128 \<Longrightarrow> cell_row sample_table (int_cell x) (int_row x)"
  using serialize_int_row [of x] by (auto simp: cell_row_def)

lemma compare_int_keys:
  assumes "x < 128" "y < 128"
  shows "compare_keys COL_INT (key_pad (le_bytes 4 x)) (key_pad (le_bytes 4 y)) \<le> 0 \<longleftrightarrow> x \<le> y"
    "compare_keys COL_INT (key_pad (le_bytes 4 x)) (key_pad (le_bytes 4 y)) < 0 \<longleftrightarrow> x < y"
proof -
  have s: "sint (of_nat z :: 32 word) = int z" if "z < 128" for z
    using that by (rule sint_small)
  have c: "compare_keys COL_INT (key_pad (le_bytes 4 x)) (key_pad (le_bytes 4 y)) = cmp3 (int x > int y) (int x < int y)"
    using assms by (simp add: compare_keys_def take_key_pad i32_cmp_def s)
  show "compare_keys COL_INT (key_pad (le_bytes 4 x)) (key_pad (le_bytes 4 y)) \<le> 0 \<longleftrightarrow> x \<le> y"
    "compare_keys COL_INT (key_pad (le_bytes 4 x)) (key_pad (le_bytes 4 y)) < 0 \<longleftrightarrow> x < y"
    unfolding c by simp_all
qed

lemma int_key_ok [simp]: "key_ok COL_INT (key_pad (le_bytes 4 x))"
  by (simp add: key_ok_def)

lemma fresh_leaf:
  "page_ok (set_next_leaf n (set_node_root (initialize_leaf_node zero_buf) r))"
  "n < 2 ^ 32 \<Longrightarrow> leaf_node_next_leaf (set_next_leaf n (set_node_root (initialize_leaf_node zero_buf) r)) = n"
  "get_node_type (set_next_leaf n (set_node_root (initialize_leaf_node zero_buf) r)) = NODE_LEAF"
  "is_node_root (set_next_leaf n (set_node_root (initialize_leaf_node zero_buf) r)) = r"
proof -
  show "n < 2 ^ 32 \<Longrightarrow> leaf_node_next_leaf (set_next_leaf n (set_node_root (initialize_leaf_node zero_buf) r)) = n" by (simp add: node_defs)
qed (auto simp: initialize_leaf_node_def node_defs set_node_type_def set_node_root_def is_node_root_def get_node_type_def
      page_ok_def zero_buf_def wr_def put_bytes_def Let_def)

lemma sample_leaf:
  assumes "length xs \<le> 3" "n < 2 ^ 32"
  shows "cells (sample_leaf r n xs) = map int_cell xs" "leaf_ok (sample_leaf r n xs)" "leaf_node_next_leaf (sample_leaf r n xs) = n"
    "get_node_type (sample_leaf r n xs) = NODE_LEAF" "is_node_root (sample_leaf r n xs) = r"
proof -
  let ?b = "set_next_leaf n (set_node_root (initialize_leaf_node zero_buf) r)"
  have s: "map length (map int_cell xs) = replicate (length xs) 3" by (simp add: comp_def map_replicate_const)
  have f: "leaf_node_slot (length (map int_cell xs)) + sum_list (map length (map int_cell xs)) \<le> PAGE_SIZE"
    unfolding s using assms(1) by (simp add: slot_pos sum_list_replicate)
  note p = populate_leaf_ok [OF f fresh_leaf(1) [of n r], folded sample_leaf_def]
  show "cells (sample_leaf r n xs) = map int_cell xs" "leaf_ok (sample_leaf r n xs)" by (rule p(1), rule p(2))
  show "leaf_node_next_leaf (sample_leaf r n xs) = n" "get_node_type (sample_leaf r n xs) = NODE_LEAF"
    "is_node_root (sample_leaf r n xs) = r"
    using p(3) fresh_leaf(2-4) [of n r] assms(2) by (simp_all add: same_links_def)
qed

lemma sample_rows:
  assumes "length xs \<le> 3" "n < 2 ^ 32" "\<forall>x \<in> set xs. 1 < x \<and> x < 128"
  shows "leaf_rows sample_table (sample_leaf r n xs) (map int_row xs)"
    "keys sample_table (sample_leaf r n xs) = map (\<lambda>x. key_pad (le_bytes 4 x)) xs"
proof -
  show r: "leaf_rows sample_table (sample_leaf r n xs) (map int_row xs)"
    using int_cell_row assms(3) by (auto simp: leaf_rows_def sample_leaf(1) [OF assms(1,2)] list_all2_conv_all_nth)
  show "keys sample_table (sample_leaf r n xs) = map (\<lambda>x. key_pad (le_bytes 4 x)) xs"
    using leaf_rows_keys(1) [OF r] int_row_key assms(3) by simp
qed

section \<open>Stores\<close>

definition sample_pager :: "(nat \<Rightarrow> buf option) \<Rightarrow> Pager" where
  "sample_pager ps = begun_pager\<lparr>os := quiet_os\<lparr>journal := Some \<lparr>fdata = zero_buf, flen = 0\<rparr>\<rparr>,
     lock := fresh_proc\<lparr>lock_state := RESERVED_LOCK\<rparr>, lock_node := Some ThisPager, writer_tid := 1,
     page_is_journaled := Some (\<lambda>_. False), journal_fd := FdFile 0, pages := ps, num_pages := 4\<rparr>"

lemma sample_pager_fields [simp]:
  "pages (sample_pager ps) = ps" "num_pages (sample_pager ps) = 4" "freelist_head (sample_pager ps) = 0"
  "reserved_catalog_pages (sample_pager ps) = 0"
  by (simp_all add: sample_pager_def begun_pager_def fresh_pager_def)

lemma sample_writing:
  assumes "\<forall>n b. ps n = Some b \<longrightarrow> page_ok b \<and> n < 4"
  shows "writing (sample_pager ps)" "ps n = Some b \<Longrightarrow> view (sample_pager ps) n = b"
proof -
  have ns: "\<not> shadowed (sample_pager ps) n" for n by (simp add: shadowed_def sample_pager_def begun_pager_def fresh_pager_def)
  have "ps n = None" if "32 \<le> n" for n using assms that by (cases "ps n") fastforce+
  then have "cache_ok (sample_pager ps)"
    using assms by (simp add: cache_ok_def) (fastforce simp: sample_pager_def begun_pager_def fresh_pager_def)
  moreover have "file_mode (sample_pager ps)"
    by (simp add: file_mode_def sample_pager_def begun_pager_def fresh_pager_def quiet_os_def file_ok_def zero_buf_def)
  moreover have "shadows_ok (sample_pager ps)"
    using ns by (simp add: shadows_ok_def) (simp add: sample_pager_def begun_pager_def fresh_pager_def)
  ultimately show "writing (sample_pager ps)"
    by (simp add: writing_def) (simp add: sample_pager_def begun_pager_def fresh_pager_def quiet_os_def)
  show "ps n = Some b \<Longrightarrow> view (sample_pager ps) n = b" using ns by (simp add: view_def base_def)
qed

text \<open>The table as one leaf, and as a root over two leaves.\<close>

definition one_leaf :: Pager where
  "one_leaf = sample_pager [1 \<mapsto> sample_leaf True 0 [2, 5]]"

definition two_leaves :: Pager where
  "two_leaves = sample_pager [1 \<mapsto> sample_root, 2 \<mapsto> sample_leaf False 3 [2, 3], 3 \<mapsto> sample_leaf False 0 [5, 7]]"

lemma sample_root:
  "page_ok sample_root" "get_node_type sample_root = NODE_INTERNAL" "internal_node_num_keys sample_root = 1"
  "children sample_root = [2, 3]" "separators sample_root = [key_pad (le_bytes 4 3)]"
proof -
  let ?b = "set_right_child 3 (set_num_keys 1 (initialize_internal_node zero_buf))"
  have f: "internal_node_num_keys ?b = 1" "internal_node_right_child ?b = 3"
    by (simp_all add: internal_node_num_keys_def internal_node_right_child_def set_num_keys_def set_right_child_def rd_wr_disjoint)
  have r: "rd 4 sample_root off = rd 4 ?b off" if "off \<le> 12" for off
    unfolding sample_root_def using that by (intro rd_cong) (auto simp: put_bytes_def internal_node_cell_def)
  show n: "internal_node_num_keys sample_root = 1" using r [of 8] f(1) by (simp add: internal_node_num_keys_def)
  have rc: "internal_node_right_child sample_root = 3" using r [of 12] f(2) by (simp add: internal_node_right_child_def)
  have "get_bytes sample_root 16 (4 + 32) = le_bytes 4 2 @ key_pad (le_bytes 4 3)"
    unfolding sample_root_def internal_node_cell_def by (simp add: get_put_same)
  then have g: "get_bytes sample_root 16 4 = le_bytes 4 2" "get_bytes sample_root 20 32 = key_pad (le_bytes 4 3)"
    unfolding get_bytes_append by (simp_all add: append_eq_append_conv)
  show "children sample_root = [2, 3]"
    using g(1) by (simp add: children_def n rc internal_node_cell_def rd_def)
  show "separators sample_root = [key_pad (le_bytes 4 3)]"
    using g(2) by (simp add: separators_def n node_key_def internal_node_key_def internal_node_cell_def)
  show "get_node_type sample_root = NODE_INTERNAL" "page_ok sample_root"
    by (auto simp: sample_root_def initialize_internal_node_def get_node_type_def set_node_type_def set_node_root_def
        set_num_keys_def set_right_child_def put_bytes_def wr_def zero_buf_def page_ok_def internal_node_cell_def)
qed

lemma sample_leaf_page: "length xs \<le> 3 \<Longrightarrow> n < 2 ^ 32 \<Longrightarrow> page_ok (sample_leaf r n xs)"
  using sample_leaf(2) leaf_okD(1) by blast

lemma one_leaf:
  "writing one_leaf" "view one_leaf 1 = sample_leaf True 0 [2, 5]" "single_leaf sample_table one_leaf [int_row 2, int_row 5]"
proof -
  have ok: "\<forall>(n::nat) b. [1 \<mapsto> sample_leaf True 0 [2, 5]] n = Some b \<longrightarrow> page_ok b \<and> n < 4" by (simp add: sample_leaf_page)
  show w: "writing one_leaf" and v: "view one_leaf 1 = sample_leaf True 0 [2, 5]"
    unfolding one_leaf_def by (rule sample_writing [OF ok]; simp)+
  have "sorted_wrt (\<lambda>x y. compare_keys COL_INT x y \<le> 0) [row_key sample_table (int_row 2), row_key sample_table (int_row 5)]"
    unfolding int_row_key [of 2, simplified] int_row_key [of 5, simplified] by (simp add: compare_int_keys)
  then show "single_leaf sample_table one_leaf [int_row 2, int_row 5]"
    using w v sample_leaf [of "[2, 5]" 0 True] sample_rows(1) [of "[2, 5]" 0 True] by (simp add: single_leaf_def Let_def) (simp add: one_leaf_def)
qed

lemma two_leaves:
  "writing two_leaves" "view two_leaves 1 = sample_root" "view two_leaves 2 = sample_leaf False 3 [2, 3]"
  "view two_leaves 3 = sample_leaf False 0 [5, 7]"
proof -
  let ?ps = "[1 \<mapsto> sample_root, 2 \<mapsto> sample_leaf False 3 [2, 3], 3 \<mapsto> sample_leaf False 0 [5, 7]]"
  have ok: "\<forall>(n::nat) b. ?ps n = Some b \<longrightarrow> page_ok b \<and> n < 4" by (simp add: sample_leaf_page sample_root(1))
  show "writing two_leaves" "view two_leaves 1 = sample_root" "view two_leaves 2 = sample_leaf False 3 [2, 3]"
    "view two_leaves 3 = sample_leaf False 0 [5, 7]"
    unfolding two_leaves_def by (rule sample_writing [OF ok]; simp)+
qed

lemma two_leaves_table: "table_ok sample_table (view two_leaves) 1"
proof -
  note k = sample_rows(2) [of "[2, 3]" 3 False] sample_rows(2) [of "[5, 7]" 0 False]
  note l = sample_leaf [of "[2, 3]" 3 False] sample_leaf [of "[5, 7]" 0 False]
  have nc: "leaf_node_num_cells (sample_leaf False 3 [2, 3]) = 2" "leaf_node_num_cells (sample_leaf False 0 [5, 7]) = 2"
    using length_cells [of "sample_leaf False 3 [2, 3]"] length_cells [of "sample_leaf False 0 [5, 7]"] l by simp_all
  show ?thesis
    using k l nc
    by (simp add: table_ok_def two_leaves two_leaves(2) [unfolded One_nat_def] sample_root sample_root(3) [unfolded One_nat_def] sorted_keys_def compare_int_keys leaf_keys_def le_Suc_eq less_Suc_eq all_conj_distrib disj_imp)
qed

section \<open>The theorems at these stores\<close>

lemma sample_key: "row_key sample_table (int_row 5) = key_pad (le_bytes 4 5)"
  by (rule int_row_key) simp

lemma two_leaves_reading: "reading two_leaves"
  by (rule writing_reading [OF two_leaves(1)])

theorem btree_find_position_witness:
  "\<exists>c q n. btree_find_out sample_table (hd (int_row 5)) two_leaves = Some (c, q) \<and>
    at_position (view two_leaves) (leaf_pages (view two_leaves) 1 1) c n"
  using btree_find_position [OF two_leaves_table two_leaves_reading, of "hd (int_row 5)"] by (fastforce simp: sample_key)

theorem btree_find_agrees_witness:
  "\<exists>c q q'. btree_find sample_table (hd (int_row 5)) two_leaves = Some (Some c, q) \<and>
    btree_find_out sample_table (hd (int_row 5)) two_leaves = Some (c, q')"
  using btree_find_agrees [OF two_leaves_table two_leaves_reading, of "hd (int_row 5)"] by (simp add: sample_key)

lemma two_leaves_entries: "num_entries (view two_leaves) (leaf_pages (view two_leaves) 1 1) = 4"
proof -
  have "leaf_node_num_cells (sample_leaf False 3 [2, 3]) = 2" "leaf_node_num_cells (sample_leaf False 0 [5, 7]) = 2"
    using length_cells [of "sample_leaf False 3 [2, 3]"] length_cells [of "sample_leaf False 0 [5, 7]"]
      sample_leaf(1) [of "[2, 3]" 3 False] sample_leaf(1) [of "[5, 7]" 0 False] by simp_all
  then show ?thesis by (simp add: two_leaves two_leaves(2) [unfolded One_nat_def] sample_root)
qed

theorem btree_scan_in_order_witness:
  "\<exists>c q. (btree_start_out sample_table two_leaves \<bind> (\<lambda>(c, pg). advance_n 3 c pg)) = Some (c, q) \<and>
    at_position (view two_leaves) (leaf_pages (view two_leaves) 1 1) c 3"
  using btree_scan_in_order [OF two_leaves_table two_leaves_reading, of 3] two_leaves_entries
  by (simp only: sample_table_simps) fastforce

lemma int_cell_7: "serialize_row_with_mvcc sample_table (int_row 7) 0 0 0 = Some [2, 1, 7]"
  using serialize_int_row [of 7] by simp

lemma one_leaf_fields [simp]: "freelist_head one_leaf = 0" "num_pages one_leaf = 4" "reserved_catalog_pages one_leaf = 0"
  by (simp_all add: one_leaf_def)

theorem serialize_cell_holds_witness:
  "\<exists>cell p. serialize_cell_for_leaf sample_table (int_row 7) 0 0 0 one_leaf = Some (cell, p) \<and>
    cell_holds (view p) (reserved_catalog_pages p) cell [2, 1, 7] \<and> p = one_leaf"
  using serialize_cell_holds [OF one_leaf(1) _ _ _ int_cell_7, of 4] by simp

abbreviation at_end_of_page_1 :: Cursor where
  "at_end_of_page_1 \<equiv> \<lparr>c_page = 1, c_cell = 2, end_of_table = True\<rparr>"

lemma one_leaf_room:
  "leaf_ok (view one_leaf 1)" "leaf_node_num_cells (view one_leaf 1) = 2" "leaf_fits (view one_leaf 1) 3"
proof -
  show "leaf_ok (view one_leaf 1)" unfolding one_leaf(2) by (rule sample_leaf) simp_all
  show n: "leaf_node_num_cells (view one_leaf 1) = 2"
    using length_cells [of "sample_leaf True 0 [2, 5]"] sample_leaf(1) [of "[2, 5]" 0 True] unfolding one_leaf(2) by simp
  show "leaf_fits (view one_leaf 1) 3" unfolding leaf_fits_def n unfolding one_leaf(2) using sample_leaf(1) [of "[2, 5]" 0 True] by (simp add: slot_pos)
qed

lemmas one_leaf_simps = one_leaf_room [unfolded One_nat_def] one_leaf_room(3) [unfolded One_nat_def numeral_3_eq_3]

theorem btree_insert_cells_witness:
  "\<exists>p. btree_insert_with_mvcc sample_table at_end_of_page_1 (int_row 7) 0 0 0 one_leaf = Some p \<and> leaf_gains one_leaf p 1 2 [2, 1, 7]"
  using btree_insert_cells [OF one_leaf(1) _ _ int_cell_7, of 4 at_end_of_page_1] by (simp add: one_leaf_simps)


theorem insert_refines_sorted_list_witness:
  "\<exists>c q p. btree_find_out sample_table (hd (int_row 3)) one_leaf = Some (c, q) \<and>
    btree_insert_with_mvcc sample_table c (int_row 3) 0 0 0 q = Some p \<and>
    single_leaf sample_table p [int_row 2, int_row 3, int_row 5]"
proof -
  have s: "serialize_row_with_mvcc sample_table (int_row 3) 0 0 0 = Some [2, 1, 3]" using serialize_int_row [of 3] by simp
  have k: "row_key sample_table (int_row x) = key_pad (le_bytes 4 x)" if "x < 128" for x using that by (rule int_row_key)
  have "insert_row sample_table (int_row 3) [int_row 2, int_row 5] = [int_row 2, int_row 3, int_row 5]"
    by (simp add: k compare_int_keys)
  then show ?thesis
    using insert_refines_sorted_list [OF one_leaf(3) int_row_ok s] by (simp add: one_leaf_simps del: insert_row.simps)
qed

end
