(* ===== verification/Btree_Delete.thy ===== *)
theory Btree_Delete
  imports Btree_Update
begin

text \<open>
  Deletion from the B+ tree (\<open>src/btree.c\<close>): removing a cell, borrowing a cell or child from a
  sibling, merging siblings, removing a child from an internal node and collapsing the root.
\<close>

section \<open>Leaves\<close>

definition leaf_make_room :: "nat \<Rightarrow> buf \<Rightarrow> buf" where
  "leaf_make_room sz b =
     (if leaf_full (leaf_node_free_space b) (leaf_node_num_cells b) sz then leaf_node_defragment b else b)"

text \<open>The node \<open>self\<close> gets the last cell of its left sibling as its first one.\<close>

definition take_first :: "byte list \<Rightarrow> buf \<Rightarrow> buf" where
  "take_first cell b =
     (let sc = leaf_node_num_cells b
      in place_cell 0 cell (shift_slots_right 0 sc (leaf_make_room (length cell) b)))"

definition take_last :: "byte list \<Rightarrow> buf \<Rightarrow> buf" where
  "take_last cell b =
     (let sc = leaf_node_num_cells b in place_cell sc cell (leaf_make_room (length cell) b))"

definition change_num_cells :: "(nat \<Rightarrow> nat) \<Rightarrow> buf \<Rightarrow> buf" where
  "change_num_cells f b = set_num_cells (f (leaf_node_num_cells b)) b"

definition leaf_borrow_from_left ::
    "TableDef \<Rightarrow> bufref \<Rightarrow> bufref \<Rightarrow> nat \<Rightarrow> nat \<Rightarrow> Pager \<Rightarrow> Pager option" where
  "leaf_borrow_from_left def self left parent_page self_idx pg = do {
     lb \<leftarrow> deref pg left;
     (parent, pg) \<leftarrow> page_ptr pg parent_page;
     pb \<leftarrow> deref pg parent;
     let npk = internal_node_num_keys pb;
     let cell = leaf_cell lb (leaf_node_num_cells lb - 1);
     pg \<leftarrow> edit_at self (take_first cell) pg;
     pg \<leftarrow> edit_at left (change_num_cells (\<lambda>n. n - 1)) pg;
     pg \<leftarrow> edit_at self (change_num_cells (\<lambda>n. n + 1)) pg;
     (left_max, pg) \<leftarrow> get_node_max_key def left pg;
     pg \<leftarrow> edit_at parent (set_node_key (self_idx - 1) left_max) pg;
     if self_idx < npk
     then do {
       (self_max, pg) \<leftarrow> get_node_max_key def self pg;
       edit_at parent (set_node_key self_idx self_max) pg }
     else Some pg }"

definition leaf_borrow_from_right ::
    "TableDef \<Rightarrow> bufref \<Rightarrow> bufref \<Rightarrow> nat \<Rightarrow> nat \<Rightarrow> Pager \<Rightarrow> Pager option" where
  "leaf_borrow_from_right def self right parent_page self_idx pg = do {
     rb \<leftarrow> deref pg right;
     let rc = leaf_node_num_cells rb;
     (parent, pg) \<leftarrow> page_ptr pg parent_page;
     let cell = leaf_cell rb 0;
     pg \<leftarrow> edit_at self (take_last cell) pg;
     pg \<leftarrow> edit_at right (shift_slots_left 0 rc) pg;
     pg \<leftarrow> edit_at self (change_num_cells (\<lambda>n. n + 1)) pg;
     pg \<leftarrow> edit_at right (change_num_cells (\<lambda>n. n - 1)) pg;
     (self_max, pg) \<leftarrow> get_node_max_key def self pg;
     edit_at parent (set_node_key self_idx self_max) pg }"

definition leaf_merge ::
    "(nat \<Rightarrow> nat \<Rightarrow> Pager \<Rightarrow> Pager option) \<Rightarrow> bufref \<Rightarrow> bufref \<Rightarrow> nat \<Rightarrow> nat \<Rightarrow> Pager \<Rightarrow> Pager option" where
  "leaf_merge rm left right parent_page right_idx pg = do {
     rb \<leftarrow> deref pg right;
     pg \<leftarrow> fold_opt (\<lambda>i pg. do {
         rb \<leftarrow> deref pg right;
         edit_at left (\<lambda>b. change_num_cells (\<lambda>n. n + 1) (take_last (leaf_cell rb i) b)) pg })
       [0..<leaf_node_num_cells rb] pg;
     rb \<leftarrow> deref pg right;
     pg \<leftarrow> edit_at left (set_next_leaf (leaf_node_next_leaf rb)) pg;
     pg \<leftarrow> edit_at right (set_num_cells 0) pg;
     rm parent_page right_idx pg }"

section \<open>Internal nodes\<close>

definition internal_borrow_from_left ::
    "bufref \<Rightarrow> nat \<Rightarrow> bufref \<Rightarrow> nat \<Rightarrow> nat \<Rightarrow> Pager \<Rightarrow> Pager option" where
  "internal_borrow_from_left self self_page left parent_page self_idx pg = do {
     lb \<leftarrow> deref pg left;
     let ln = internal_node_num_keys lb;
     (parent, pg) \<leftarrow> page_ptr pg parent_page;
     let mcp = internal_node_right_child lb;
     pb \<leftarrow> deref pg parent;
     pg \<leftarrow> edit_opt self (\<lambda>b.
         (let sn = internal_node_num_keys b;
              b = fold (\<lambda>i. copy_cell i (i - 1)) (rev [1..<Suc sn]) b
          in set_child_page 0 mcp (set_num_keys (sn + 1) b)
             \<bind> (\<lambda>b. Some (set_node_key 0 (node_key pb (self_idx - 1)) b)))) pg;
     pg \<leftarrow> set_parent_of self_page mcp pg;
     pg \<leftarrow> edit_opt left (\<lambda>b. child_page b (ln - 1) \<bind>
         (\<lambda>c. Some (set_num_keys (internal_node_num_keys b - 1) (set_right_child c b)))) pg;
     lb \<leftarrow> deref pg left;
     edit_at parent (set_node_key (self_idx - 1) (node_key lb (ln - 1))) pg }"

definition internal_borrow_from_right ::
    "bufref \<Rightarrow> nat \<Rightarrow> bufref \<Rightarrow> nat \<Rightarrow> nat \<Rightarrow> Pager \<Rightarrow> Pager option" where
  "internal_borrow_from_right self self_page right parent_page self_idx pg = do {
     rb \<leftarrow> deref pg right;
     let rn = internal_node_num_keys rb;
     (parent, pg) \<leftarrow> page_ptr pg parent_page;
     mcp \<leftarrow> child_page rb 0;
     sb \<leftarrow> deref pg self;
     pb \<leftarrow> deref pg parent;
     let cur_r = internal_node_right_child sb;
     let nl = internal_node_num_keys sb;
     pg \<leftarrow> edit_opt self (\<lambda>b. set_child_page nl cur_r (set_num_keys (nl + 1) b)
         \<bind> (\<lambda>b. Some (set_right_child mcp (set_node_key nl (node_key pb self_idx) b)))) pg;
     pg \<leftarrow> set_parent_of self_page mcp pg;
     pg \<leftarrow> edit_at right (\<lambda>b.
         (let b = fold (\<lambda>i. copy_cell i (i + 1)) [0..<rn - 1] b
          in set_num_keys (internal_node_num_keys b - 1) b)) pg;
     rb \<leftarrow> deref pg right;
     edit_at parent (set_node_key self_idx (node_key rb 0)) pg }"

text \<open>The pointers to the merged children are taken before \<open>num_keys\<close> of the left node grows.\<close>

definition internal_merge_nodes ::
    "(nat \<Rightarrow> nat \<Rightarrow> Pager \<Rightarrow> Pager option) \<Rightarrow>
     bufref \<Rightarrow> nat \<Rightarrow> bufref \<Rightarrow> nat \<Rightarrow> nat \<Rightarrow> Pager \<Rightarrow> Pager option" where
  "internal_merge_nodes rm left left_page right parent_page right_idx pg = do {
     (parent, pg) \<leftarrow> page_ptr pg parent_page;
     lb \<leftarrow> deref pg left;
     rb \<leftarrow> deref pg right;
     pb \<leftarrow> deref pg parent;
     let ln = internal_node_num_keys lb;
     let rn = internal_node_num_keys rb;
     pg \<leftarrow> edit_opt left (\<lambda>b. set_child_page ln (internal_node_right_child b) b
         \<bind> (\<lambda>b. Some (set_node_key ln (node_key pb (right_idx - 1)) b))) pg;
     pg \<leftarrow> fold_opt (\<lambda>i pg. do {
         rb \<leftarrow> deref pg right;
         cp \<leftarrow> child_page rb i;
         pg \<leftarrow> edit_opt left (\<lambda>b. set_child_page (ln + 1 + i) cp b
             \<bind> (\<lambda>b. Some (set_node_key (ln + 1 + i) (node_key rb i) b))) pg;
         set_parent_of left_page cp pg }) [0..<rn] pg;
     rb \<leftarrow> deref pg right;
     let rrc = internal_node_right_child rb;
     pg \<leftarrow> edit_at left (set_right_child rrc) pg;
     pg \<leftarrow> set_parent_of left_page rrc pg;
     pg \<leftarrow> edit_at left (set_num_keys (ln + 1 + rn)) pg;
     pg \<leftarrow> edit_at right (set_num_keys 0) pg;
     rm parent_page right_idx pg }"

definition handle_internal_underflow_with ::
    "(nat \<Rightarrow> nat \<Rightarrow> Pager \<Rightarrow> Pager option) \<Rightarrow> nat \<Rightarrow> Pager \<Rightarrow> Pager option" where
  "handle_internal_underflow_with rm page_num pg = do {
     (node, pg) \<leftarrow> page_ptr pg page_num;
     b \<leftarrow> deref pg node;
     if is_node_root b then Some pg
     else if internal_node_num_keys b \<ge> INTERNAL_NODE_MIN_KEYS then Some pg
     else do {
       let pp = node_parent b;
       (parent, pg) \<leftarrow> page_ptr pg pp;
       pb \<leftarrow> deref pg parent;
       si \<leftarrow> find_child_index pb page_num;
       let nk = internal_node_num_keys pb;
       if si > 0
       then do {
         lp \<leftarrow> child_page pb (si - 1);
         (left, pg) \<leftarrow> page_ptr pg lp;
         lb \<leftarrow> deref pg left;
         if internal_node_num_keys lb > INTERNAL_NODE_MIN_KEYS
         then internal_borrow_from_left node page_num left pp si pg
         else internal_merge_nodes rm left lp node pp si pg }
       else if si < nk
       then do {
         rp \<leftarrow> child_page pb (si + 1);
         (right, pg) \<leftarrow> page_ptr pg rp;
         rb \<leftarrow> deref pg right;
         if internal_node_num_keys rb > INTERNAL_NODE_MIN_KEYS
         then internal_borrow_from_right node page_num right pp si pg
         else internal_merge_nodes rm node page_num right pp (si + 1) pg }
       else Some pg } }"

lemma handle_underflow_mono [partial_function_mono]:
  assumes "\<And>p c pg. mono_option (\<lambda>f. rm f p c pg)"
  shows "mono_option (\<lambda>f. handle_internal_underflow_with (rm f) page_num pg)"
  unfolding handle_internal_underflow_with_def internal_merge_nodes_def Let_def
  by (intro option_mono_intros assms)

text \<open>The part of \<open>internal_remove_child\<close> that takes the child out of the node.\<close>

definition remove_child :: "nat \<Rightarrow> buf \<Rightarrow> buf option" where
  "remove_child child_idx b =
     (let nk = internal_node_num_keys b
      in if child_idx = nk
         then (if nk = 0 then None
               else child_page b (nk - 1) \<bind> (\<lambda>c. Some (set_num_keys (nk - 1) (set_right_child c b))))
         else (let b = (if child_idx > 0 then set_node_key (child_idx - 1) (node_key b child_idx) b else b);
                   b = fold (\<lambda>i. copy_cell i (i + 1)) [child_idx..<nk - 1] b
               in Some (set_num_keys (nk - 1) b)))"

partial_function (option) internal_remove_child ::
    "TableDef \<Rightarrow> nat \<Rightarrow> nat \<Rightarrow> Pager \<Rightarrow> Pager option" where
  "internal_remove_child def parent_page child_idx pg = do {
     (parent, pg) \<leftarrow> page_ptr pg parent_page;
     pg \<leftarrow> edit_opt parent (remove_child child_idx) pg;
     pb \<leftarrow> deref pg parent;
     let nk = internal_node_num_keys pb;
     if is_node_root pb \<and> nk = 0
     then do {
       let ocp = internal_node_right_child pb;
       (oc, pg) \<leftarrow> page_ptr pg ocp;
       ob \<leftarrow> deref pg oc;
       pg \<leftarrow> edit_at parent (\<lambda>b. set_node_root (copy_buf PAGE_SIZE b ob) True) pg;
       pb \<leftarrow> deref pg parent;
       if get_node_type pb = NODE_INTERNAL then reparent_children parent (root_page_num def) pg else Some pg }
     else if \<not> is_node_root pb \<and> nk < INTERNAL_NODE_MIN_KEYS
     then handle_internal_underflow_with (internal_remove_child def) parent_page pg
     else Some pg }"

definition handle_internal_underflow :: "TableDef \<Rightarrow> nat \<Rightarrow> Pager \<Rightarrow> Pager option" where
  "handle_internal_underflow def = handle_internal_underflow_with (internal_remove_child def)"

section \<open>Deleting a row\<close>

definition leaf_node_handle_underflow :: "TableDef \<Rightarrow> nat \<Rightarrow> Pager \<Rightarrow> Pager option" where
  "leaf_node_handle_underflow def page_num pg = do {
     (node, pg) \<leftarrow> page_ptr pg page_num;
     b \<leftarrow> deref pg node;
     if is_node_root b then Some pg
     else if leaf_node_num_cells b \<ge> LEAF_NODE_MIN_CELLS then Some pg
     else do {
       let pp = node_parent b;
       (parent, pg) \<leftarrow> page_ptr pg pp;
       pb \<leftarrow> deref pg parent;
       si \<leftarrow> find_child_index pb page_num;
       let nk = internal_node_num_keys pb;
       if si > 0
       then do {
         lp \<leftarrow> child_page pb (si - 1);
         (left, pg) \<leftarrow> page_ptr pg lp;
         lb \<leftarrow> deref pg left;
         if leaf_node_num_cells lb > LEAF_NODE_MIN_CELLS
         then leaf_borrow_from_left def node left pp si pg
         else leaf_merge (internal_remove_child def) left node pp si pg }
       else if si < nk
       then do {
         rp \<leftarrow> child_page pb (si + 1);
         (right, pg) \<leftarrow> page_ptr pg rp;
         rb \<leftarrow> deref pg right;
         if leaf_node_num_cells rb > LEAF_NODE_MIN_CELLS
         then leaf_borrow_from_right def node right pp si pg
         else leaf_merge (internal_remove_child def) node right pp (si + 1) pg }
       else Some pg } }"

text \<open>The separator in the parent follows the new maximum, unless the page is the rightmost child.\<close>

definition delete_update_parent ::
    "TableDef \<Rightarrow> nat \<Rightarrow> bufref \<Rightarrow> bool \<Rightarrow> byte list \<Rightarrow> Pager \<Rightarrow> Pager option" where
  "delete_update_parent def page_num node was_max old_max pg = do {
     b \<leftarrow> deref pg node;
     if was_max \<and> \<not> is_node_root b \<and> leaf_node_num_cells b > 0
     then do {
       let pp = node_parent b;
       pg \<leftarrow> pager_journal_page pg pp;
       (parent, pg) \<leftarrow> page_ptr pg pp;
       pb \<leftarrow> deref pg parent;
       if page_num \<noteq> internal_node_right_child pb
       then do {
         (new_max, pg) \<leftarrow> get_node_max_key def node pg;
         edit_at parent (update_internal_node_key old_max new_max def) pg }
       else Some pg }
     else Some pg }"

text \<open>A cursor behind the last cell of its page goes to the next leaf.\<close>

definition delete_move_cursor :: "Cursor \<Rightarrow> bufref \<Rightarrow> Pager \<Rightarrow> (Cursor \<times> Pager) option" where
  "delete_move_cursor c node pg = do {
     b \<leftarrow> deref pg node;
     if c_cell c \<ge> leaf_node_num_cells b
     then (let next_leaf = leaf_node_next_leaf b
           in if next_leaf = 0 then Some (c\<lparr>end_of_table := True\<rparr>, pg)
              else do {
                (next_node, pg) \<leftarrow> read_page pg next_leaf;
                Some (c\<lparr>c_page := next_leaf, c_cell := 0,
                        end_of_table := end_of_table c \<or> leaf_node_num_cells next_node = 0\<rparr>, pg) })
     else Some (c, pg) }"

definition btree_delete :: "TableDef \<Rightarrow> Cursor \<Rightarrow> Pager \<Rightarrow> (Cursor \<times> Pager) option" where
  "btree_delete def c pg = do {
     pg \<leftarrow> pager_journal_page pg (c_page c);
     (node, pg) \<leftarrow> page_ptr pg (c_page c);
     b \<leftarrow> deref pg node;
     let nc = leaf_node_num_cells b;
     let ci = c_cell c;
     if nc = 0 \<or> ci \<ge> nc then Some (c\<lparr>end_of_table := True\<rparr>, pg)
     else do {
       let first_overflow_page = rd 4 b (slot_offset b ci + 4);
       pg \<leftarrow> (if cell_is_overflow_stub (slot_size b ci) \<and> first_overflow_page \<noteq> 0
              then btree_free_overflow_chain pg first_overflow_page else Some pg);
       (old_max, pg) \<leftarrow> get_node_max_key def node pg;
       pg \<leftarrow> edit_at node (leaf_delete_cell nc ci) pg;
       pg \<leftarrow> delete_update_parent def (c_page c) node (ci = nc - 1) old_max pg;
       (c, pg) \<leftarrow> delete_move_cursor c node pg;
       pg \<leftarrow> leaf_node_handle_underflow def (c_page c) pg;
       Some (c, pg) } }"

end
