(* ===== verification/Btree_Shrink.thy ===== *)
theory Btree_Shrink
  imports Btree_Sample Btree_Delete
begin

text \<open>
  Deletion: from a table of one leaf, which removes the row from the list; removing a child from an
  internal node; and the merge of two internal nodes, which ends the process.
\<close>

section \<open>Internal nodes as lists\<close>

text \<open>The bytes of cell \<open>i\<close>: a child pointer and the separator behind it.\<close>

definition inode_cell :: "buf \<Rightarrow> nat \<Rightarrow> byte list" where
  "inode_cell b i = get_bytes b (internal_node_cell i) INTERNAL_NODE_CELL_SIZE"

lemma length_inode_cell [simp]: "length (inode_cell b i) = 36"
  by (simp add: inode_cell_def)

lemma inode_cell_parts:
  "rd 4 b (internal_node_cell i) = le_val (take 4 (inode_cell b i))" "node_key b i = drop 4 (inode_cell b i)"
proof -
  have "inode_cell b i = get_bytes b (internal_node_cell i) (4 + 32)" by (simp add: inode_cell_def)
  then have "inode_cell b i = get_bytes b (internal_node_cell i) 4 @ get_bytes b (internal_node_cell i + 4) 32"
    unfolding get_bytes_append .
  then show "rd 4 b (internal_node_cell i) = le_val (take 4 (inode_cell b i))" "node_key b i = drop 4 (inode_cell b i)"
    by (simp_all add: rd_def node_key_def internal_node_key_def)
qed

lemma cell_pos: "internal_node_cell i = 16 + 36 * i"
  by (simp add: internal_node_cell_def)

lemma inode_cell_copy: "inode_cell (copy_cell i j b) k = (if k = i then inode_cell b j else inode_cell b k)"
proof (cases "k = i")
  case True
  then show ?thesis by (simp add: inode_cell_def copy_cell_def get_put_same)
next
  case False
  then have "internal_node_cell k + 36 \<le> internal_node_cell i \<or> internal_node_cell i + 36 \<le> internal_node_cell k"
    by (cases "k < i") (auto simp: cell_pos)
  then show ?thesis using False by (auto simp: inode_cell_def copy_cell_def get_put_disjoint)
qed

lemma inode_cell_shift:
  "inode_cell (fold (\<lambda>i. copy_cell i (i + 1)) [k..<m] b) j = (if k \<le> j \<and> j < m then inode_cell b (j + 1) else inode_cell b j)"
proof (induction m arbitrary: j)
  case (Suc m)
  then show ?case by (auto simp: inode_cell_copy)
qed simp

lemma agree_cells:
  assumes "m \<le> 113"
  shows "agree_outside 16 PAGE_SIZE b (fold (\<lambda>i. copy_cell i (i + 1)) [k..<m] b)"
  by (rule agree_fold) (use assms in \<open>auto intro!: agree_outside_put simp: copy_cell_def cell_pos\<close>)

definition drop_nth :: "nat \<Rightarrow> 'a list \<Rightarrow> 'a list" where
  "drop_nth k xs = take k xs @ drop (Suc k) xs"

lemma length_drop_nth [simp]: "k < length xs \<Longrightarrow> length (drop_nth k xs) = length xs - 1"
  by (simp add: drop_nth_def)

lemma nth_drop_nth: "k < length xs \<Longrightarrow> i < length xs - 1 \<Longrightarrow> drop_nth k xs ! i = (if i < k then xs ! i else xs ! Suc i)"
  by (auto simp: drop_nth_def nth_append)

lemma nth_children: "i \<le> internal_node_num_keys b \<Longrightarrow> children b ! i =
    (if i = internal_node_num_keys b then internal_node_right_child b else le_val (take 4 (inode_cell b i)))"
  by (simp add: children_def nth_append inode_cell_parts)

lemma nth_separators: "i < internal_node_num_keys b \<Longrightarrow> separators b ! i = drop 4 (inode_cell b i)"
  by (simp add: separators_def inode_cell_parts)

text \<open>The header fields of an internal node that the others do not share.\<close>

definition same_head :: "buf \<Rightarrow> buf \<Rightarrow> bool" where
  "same_head b b' \<longleftrightarrow> get_node_type b' = get_node_type b \<and> is_node_root b' = is_node_root b \<and> node_parent b' = node_parent b"

lemma same_head_agree: "(\<And>i. i < 8 \<Longrightarrow> b' i = b i) \<Longrightarrow> same_head b b'"
  by (auto simp: same_head_def get_node_type_def is_node_root_def node_parent_def Let_def intro!: rd_cong)

lemma num_keys_lt: "internal_node_num_keys b < 2 ^ 32"
  by (simp add: internal_node_num_keys_def)

lemma remove_inner:
  assumes "k < internal_node_num_keys b" "internal_node_num_keys b \<le> 112"
  defines "b' \<equiv> set_num_keys (internal_node_num_keys b - 1)
    (fold (\<lambda>i. copy_cell i (i + 1)) [k..<internal_node_num_keys b - 1]
      (if k > 0 then set_node_key (k - 1) (node_key b k) b else b))"
  shows "children b' = drop_nth k (children b)" "separators b' = drop_nth (k - 1) (separators b)"
    "agree_outside 8 PAGE_SIZE b b'"
proof -
  let ?nk = "internal_node_num_keys b"
  define b1 where "b1 = (if k > 0 then set_node_key (k - 1) (node_key b k) b else b)"
  define b2 where "b2 = fold (\<lambda>i. copy_cell i (i + 1)) [k..<?nk - 1] b1"
  have b': "b' = set_num_keys (?nk - 1) b2" by (simp add: b'_def b1_def b2_def)
  have pos: "Suc i \<le> k \<Longrightarrow> internal_node_cell i + 36 \<le> internal_node_cell k" for i by (simp add: cell_pos)
  have a1: "agree_outside 16 PAGE_SIZE b b1"
    using assms(1,2) by (auto simp: b1_def set_node_key_def internal_node_key_def cell_pos node_key_def intro!: agree_outside_put)
  have a2: "agree_outside 16 PAGE_SIZE b1 b2" unfolding b2_def by (rule agree_cells) (use assms(2) in simp)
  have rc: "internal_node_right_child b' = internal_node_right_child b" "internal_node_num_keys b' = ?nk - 1"
    using agree_outside_trans [OF a1 a2] assms(2)
    by (simp_all add: b' set_num_keys_def internal_node_right_child_def internal_node_num_keys_def rd_wr_disjoint rd_agree)
  have c1: "inode_cell b1 i = (if Suc i = k then take 4 (inode_cell b i) @ node_key b k else inode_cell b i)" for i
  proof (cases "Suc i = k")
    case True
    have "inode_cell b1 i = get_bytes b1 (internal_node_cell i) 4 @ get_bytes b1 (internal_node_cell i + 4) 32"
      using get_bytes_append [of b1 "internal_node_cell i" 4 32] by (simp add: inode_cell_def)
    also have "\<dots> = get_bytes b (internal_node_cell i) 4 @ node_key b k"
      using True by (auto simp: b1_def set_node_key_def internal_node_key_def get_put_same get_put_disjoint node_key_def)
    also have "get_bytes b (internal_node_cell i) 4 = take 4 (inode_cell b i)" by (simp add: inode_cell_def get_bytes_def take_map)
    finally show ?thesis using True by simp
  next
    case False
    then have "k = 0 \<or> i < k - 1 \<or> k \<le> i" by linarith
    then have "k = 0 \<or> internal_node_key (k - 1) + 32 \<le> internal_node_cell i \<or> internal_node_cell i + 36 \<le> internal_node_key (k - 1)"
      by (auto simp: internal_node_key_def cell_pos)
    then show ?thesis using False by (auto simp: b1_def set_node_key_def inode_cell_def node_key_def get_put_disjoint)
  qed
  have c2: "inode_cell b' i = (if k \<le> i \<and> i < ?nk - 1 then inode_cell b (Suc i) else inode_cell b1 i)" for i
  proof -
    have "inode_cell b' i = inode_cell b2 i" by (simp add: b' inode_cell_def set_num_keys_def wr_def get_put_disjoint cell_pos)
    then show ?thesis using inode_cell_shift [of k "?nk - 1" b1 i] c1 [of "Suc i"] by (auto simp: b2_def)
  qed
  show "children b' = drop_nth k (children b)"
  proof (rule nth_equalityI)
    fix i assume "i < length (children b')"
    then have i: "i < ?nk" using assms(1) rc by simp
    show "children b' ! i = drop_nth k (children b) ! i"
    proof (cases "i = ?nk - 1")
      case True
      have "Suc (?nk - 1) = ?nk" "\<not> ?nk - 1 < k" using assms(1) by simp_all
      then show ?thesis using True i rc by (simp add: nth_children nth_drop_nth)
    next
      case False
      then show ?thesis using i rc(2) assms(1) c1 [of i] c2 [of i] by (auto simp: nth_children nth_drop_nth)
    qed
  qed (use assms(1) rc(2) in simp)
  show "separators b' = drop_nth (k - 1) (separators b)"
  proof (rule nth_equalityI)
    fix i assume "i < length (separators b')"
    then have i: "i < ?nk - 1" using rc by simp
    then show "separators b' ! i = drop_nth (k - 1) (separators b) ! i"
      using rc(2) assms(1) c1 [of i] c2 [of i]
      by (auto simp: nth_separators nth_drop_nth inode_cell_parts inode_cell_def)
  qed (use assms(1) rc(2) in simp)
  show "agree_outside 8 PAGE_SIZE b b'"
    unfolding b' set_num_keys_def
    by (rule agree_outside_trans [OF agree_outside_mono [OF agree_outside_trans [OF a1 a2]] agree_outside_wr]) simp_all
qed

lemma remove_last:
  assumes "0 < internal_node_num_keys b" "internal_node_num_keys b \<le> 112"
  defines "b' \<equiv> set_num_keys (internal_node_num_keys b - 1)
    (set_right_child (rd 4 b (internal_node_cell (internal_node_num_keys b - 1))) b)"
  shows "children b' = drop_nth (internal_node_num_keys b) (children b)"
    "separators b' = drop_nth (internal_node_num_keys b - 1) (separators b)" "agree_outside 8 PAGE_SIZE b b'"
proof -
  let ?nk = "internal_node_num_keys b"
  have h: "internal_node_num_keys b' = ?nk - 1" "internal_node_right_child b' = rd 4 b (internal_node_cell (?nk - 1))"
    using assms(2) by (simp_all add: b'_def set_num_keys_def set_right_child_def internal_node_num_keys_def
        internal_node_right_child_def rd_wr_disjoint)
  have c: "inode_cell b' i = inode_cell b i" for i
    by (simp add: b'_def inode_cell_def set_num_keys_def set_right_child_def wr_def get_put_disjoint cell_pos)
  show "children b' = drop_nth ?nk (children b)"
  proof (rule nth_equalityI)
    fix i assume "i < length (children b')"
    then have i: "i < ?nk" using h assms(1) by simp
    then show "children b' ! i = drop_nth ?nk (children b) ! i"
      using h c [of i] by (cases "i = ?nk - 1") (auto simp: nth_children nth_drop_nth inode_cell_parts)
  qed (use assms(1) h in simp)
  show "separators b' = drop_nth (?nk - 1) (separators b)"
  proof (rule nth_equalityI)
    show "length (separators b') = length (drop_nth (?nk - 1) (separators b))" using h(1) assms(1) by simp
    fix i assume "i < length (separators b')"
    then have i: "i < ?nk - 1" using h(1) by simp
    then show "separators b' ! i = drop_nth (?nk - 1) (separators b) ! i"
      using h(1) c [of i] by (simp add: nth_separators nth_drop_nth)
  qed
  show "agree_outside 8 PAGE_SIZE b b'"
    unfolding b'_def set_num_keys_def set_right_child_def
    by (rule agree_outside_trans; rule agree_outside_wr) simp_all
qed

text \<open>
  Removing child \<open>k\<close> of an internal node takes that pointer out of the list of children and the
  separator to its left (the first one for the first child) out of the list of separators, whether the
  child is one of the cells or the right child; nothing else of the header changes.
\<close>

theorem remove_child_lists:
  assumes "k \<le> internal_node_num_keys b" "0 < internal_node_num_keys b" "internal_node_num_keys b \<le> 112"
  shows "\<exists>b'. remove_child k b = Some b' \<and> children b' = drop_nth k (children b) \<and>
    separators b' = drop_nth (k - 1) (separators b) \<and> same_head b b'"
proof (cases "k = internal_node_num_keys b")
  case True
  obtain m where m: "internal_node_num_keys b = Suc m" using assms(2) by (cases "internal_node_num_keys b") auto
  then have "child_page b (k - 1) = Some (rd 4 b (internal_node_cell (k - 1)))"
    using True by (simp add: child_page_def internal_node_child_def Let_def)
  then have "remove_child k b = Some (set_num_keys (k - 1) (set_right_child (rd 4 b (internal_node_cell (k - 1))) b))"
    using True assms(2) by (simp add: remove_child_def Let_def)
  moreover note r = remove_last [OF assms(2,3), folded True]
  have "same_head b (set_num_keys (k - 1) (set_right_child (rd 4 b (internal_node_cell (k - 1))) b))"
    by (rule same_head_agree, rule agree_outsideD [OF r(3)]) simp
  ultimately show ?thesis using r(1,2) by blast
next
  case False
  then have "k < internal_node_num_keys b" using assms(1) by simp
  then show ?thesis
    using False remove_inner [of k b] assms(3) same_head_agree [OF agree_outsideD [OF remove_inner(3) [of k b]]]
    by (simp add: remove_child_def Let_def)
qed

theorem remove_child_lists_witness:
  "\<exists>b'. remove_child 1 sample_root = Some b' \<and> children b' = [2] \<and> separators b' = []"
proof -
  obtain b' where "remove_child 1 sample_root = Some b'" "children b' = drop_nth 1 [2, 3]"
    "separators b' = drop_nth 0 [key_pad (le_bytes 4 3)]"
    using remove_child_lists [of 1 sample_root] unfolding sample_root by auto
  then show ?thesis by (simp add: drop_nth_def)
qed

section \<open>The merge of two internal nodes\<close>

lemma deref_store: "deref (store pg r b) r = Some b"
  by (cases r) simp_all

text \<open>
  C34.  Merging two internal nodes, the right one with at least one key, never returns: the pointer to
  the child after the first moved one is asked for while \<open>num_keys\<close> of the left node still is the old
  one, and \<open>internal_node_child\<close> ends the process.
\<close>

theorem internal_merge_aborts:
  assumes "page_ptr pg parent_page = Some (parent, pg')" "deref pg' left = Some lb" "deref pg' right = Some rb"
    and "left \<noteq> right" "0 < internal_node_num_keys rb"
    and "internal_node_num_keys lb \<le> 112"
  shows "internal_merge_nodes rm left left_page right parent_page right_idx pg = None"
proof (cases "deref pg' parent")
  case (Some pb)
  let ?ln = "internal_node_num_keys lb"
  define b where "b = set_node_key ?ln (node_key pb (right_idx - 1)) (wr 4 lb 12 (internal_node_right_child lb))"
  define p where "p = store pg' left b"
  have e: "edit_opt left (\<lambda>b. set_child_page ?ln (internal_node_right_child b) b \<bind>
      (\<lambda>b. Some (set_node_key ?ln (node_key pb (right_idx - 1)) b))) pg' = Some p"
    by (simp add: edit_opt_def assms(2) set_child_page_def internal_node_child_def Let_def p_def b_def)
  have n: "internal_node_num_keys b = ?ln"
    by (simp add: b_def internal_node_num_keys_def set_node_key_def internal_node_key_def cell_pos wr_def rd_put_disjoint)
  have d: "deref p right = Some rb" "deref p left = Some b" "deref pg' parent = Some pb"
    using assms(3,4) Some by (cases left; cases right; simp add: p_def)+
  define f where "f = (\<lambda>i pg. do {
         rb \<leftarrow> deref pg right;
         cp \<leftarrow> child_page rb i;
         pg \<leftarrow> edit_opt left (\<lambda>b. set_child_page (?ln + 1 + i) cp b
             \<bind> (\<lambda>b. Some (set_node_key (?ln + 1 + i) (node_key rb i) b))) pg;
         set_parent_of left_page cp pg })"
  have "f 0 p = None"
    using d(1,2) n by (cases "child_page rb 0") (simp_all add: f_def edit_opt_def set_child_page_def internal_node_child_def Let_def)
  then have "fold_opt f [0..<internal_node_num_keys rb] p = None" using assms(5) by (simp add: upt_conv_Cons)
  then show ?thesis
    using assms(1-3) d(3) e by (simp add: internal_merge_nodes_def Let_def f_def)
qed (use assms in \<open>simp add: internal_merge_nodes_def\<close>)

definition three_nodes :: Pager where
  "three_nodes = sample_pager [1 \<mapsto> sample_root, 2 \<mapsto> sample_root, 3 \<mapsto> sample_root]"

theorem internal_merge_aborts_witness:
  "internal_merge_nodes (internal_remove_child sample_table) (ref_of three_nodes 2) 2 (ref_of three_nodes 3) 1 1 three_nodes = None"
proof -
  let ?ps = "[1 \<mapsto> sample_root, 2 \<mapsto> sample_root, 3 \<mapsto> sample_root]"
  have ok: "\<forall>(n::nat) b. ?ps n = Some b \<longrightarrow> page_ok b \<and> n < 4" by (simp add: sample_root(1))
  have w: "writing three_nodes" and v: "view three_nodes 2 = sample_root" "view three_nodes 3 = sample_root"
    unfolding three_nodes_def by (rule sample_writing [OF ok]; simp)+
  have l: "loaded three_nodes 2" "loaded three_nodes 3" by (simp_all add: three_nodes_def loaded_def)
  have m: "(1 :: nat) < MAX_PAGES" by simp
  obtain p where p: "page_ptr three_nodes 1 = Some (ref_of p 1, p)" "evolves three_nodes {} (Suc 1) p (view three_nodes)"
    by (rule page_ptr_ok [OF w m])
  note d = evolvesD [OF p(2)]
  have dr: "deref p (ref_of three_nodes n) = Some sample_root" if "n \<in> {2, 3}" for n
    using deref_loaded [OF d(1), of n] d(3) [of n] d(8) [of n] l v that d(2) by auto
  have "ref_of three_nodes 2 \<noteq> ref_of three_nodes 3" by (simp add: ref_of_def)
  then show ?thesis using internal_merge_aborts [OF p(1) dr dr] by (simp add: sample_root(3))
qed

section \<open>Deleting from a table of one leaf\<close>

lemma list_all2_drop_nth: "list_all2 P xs ys \<Longrightarrow> list_all2 P (drop_nth k xs) (drop_nth k ys)"
  by (simp add: drop_nth_def list_all2_appendI list_all2_takeI list_all2_dropI)

lemma sorted_drop_nth: "sorted_wrt P xs \<Longrightarrow> sorted_wrt P (drop_nth k xs)"
proof -
  assume s: "sorted_wrt P xs"
  then have "sorted_wrt P (take k xs @ drop k xs)" by simp
  moreover have "set (drop (Suc k) xs) \<subseteq> set (drop k xs)" by (rule set_drop_subset_set_drop) simp
  ultimately show ?thesis using sorted_wrt_drop [OF s, of "Suc k"]
    unfolding drop_nth_def sorted_wrt_append by blast
qed

lemma map_drop_nth: "map f (drop_nth k xs) = drop_nth k (map f xs)"
  by (simp add: drop_nth_def take_map drop_map)

lemma delete_from_leaf:
  assumes "single_leaf def pg vss" "is_node_root (view pg (root_page_num def))"
    and "c_page c = root_page_num def" "c_cell c < length vss" "\<not> end_of_table c"
  obtains q where "btree_delete def c pg = Some (c\<lparr>end_of_table := (c_cell c = length vss - 1)\<rparr>, q)"
    "single_leaf def q (drop_nth (c_cell c) vss)" "is_node_root (view q (root_page_num def))"
    "cells (view q (root_page_num def)) = drop_nth (c_cell c) (cells (view pg (root_page_num def)))"
proof -
  let ?n = "root_page_num def" and ?k = "c_cell c"
  let ?b = "view pg ?n"
  let ?nc = "leaf_node_num_cells ?b" and ?b' = "leaf_delete_cell (leaf_node_num_cells ?b) ?k ?b"
  have S: "writing pg" "freelist_head pg = 0" "?n < num_pages pg" "?n < MAX_PAGES" "get_node_type ?b = NODE_LEAF"
    "leaf_node_next_leaf ?b = 0" "leaf_ok ?b" "leaf_rows def ?b vss"
    and sorted: "sorted_wrt (\<lambda>x y. compare_keys (key_type def) x y \<le> 0) (map (row_key def) vss)"
    using assms(1) by (simp_all add: single_leaf_def Let_def)
  have len: "length vss = ?nc" by (rule leaf_rows_keys(2) [OF S(8)])
  then have k: "?k < ?nc" using assms(4) by simp
  note del = leaf_delete_ok [OF S(7) k]
  have nc': "leaf_node_num_cells ?b' = ?nc - 1" using length_cells [of ?b'] del(1) k by simp
  have links: "get_node_type ?b' = NODE_LEAF" "leaf_node_next_leaf ?b' = 0" "is_node_root ?b'"
    using del(3) S(5,6) assms(2) by (simp_all add: same_links_def)
  have "cell_row def (cells ?b ! ?k) (vss ! ?k)"
    using S(8) assms(4) len by (simp add: leaf_rows_def list_all2_conv_all_nth)
  then have small: "\<not> cell_is_overflow_stub (slot_size ?b ?k)" using k by (simp add: cell_row_def cell_is_overflow_stub_def)
  obtain p1 where p1: "pager_journal_page pg ?n = Some p1" "evolves pg {?n} (Suc ?n) p1 (view pg)"
    by (rule journal_ok_writing [OF S(1,4)])
  note d1 = evolvesD [OF p1(2)]
  obtain p2 where p2: "page_ptr p1 ?n = Some (ref_of p2 ?n, p2)" "evolves p1 {} (Suc ?n) p2 (view p1)" "loaded p2 ?n"
    by (rule page_ptr_ok [OF d1(1) S(4)])
  note d2 = evolvesD [OF p2(2)]
  have v2: "view p2 ?n = ?b" using d1(2) d2(2) by simp
  have dr2: "deref p2 (ref_of p2 ?n) = Some ?b" using deref_loaded [OF d2(1) p2(3)] v2 by simp
  obtain om where mx: "get_node_max_key def (ref_of p2 ?n) p2 = Some (om, p2)"
    using S(5) by (simp add: get_node_max_key.simps [of def "ref_of p2 ?n" p2] dr2 Let_def)
  obtain p3 where p3: "edit_at (ref_of p2 ?n) (leaf_delete_cell ?nc ?k) p2 = Some p3"
    "evolves p2 {} 0 p3 ((view p2)(?n := leaf_delete_cell ?nc ?k (view p2 ?n)))" "num_pages p3 = num_pages p2"
    by (rule edit_at_ok [OF d2(1) p2(3), of "leaf_delete_cell ?nc ?k"]) (use v2 leaf_okD(1) [OF del(2)] in simp_all)
  note d3 = evolvesD [OF p3(2)]
  have v3: "view p3 ?n = ?b'" using d3(2) v2 by simp
  have dr3: "deref p3 (ref_of p2 ?n) = Some ?b'" using deref_loaded [OF d3(1) d3(3) [OF p2(3)]] d3(8) v3 by simp
  obtain p4 where p4: "page_ptr p3 ?n = Some (ref_of p4 ?n, p4)" "evolves p3 {} (Suc ?n) p4 (view p3)" "loaded p4 ?n"
    by (rule page_ptr_ok [OF d3(1) S(4)])
  note d4 = evolvesD [OF p4(2)]
  have dr4: "deref p4 (ref_of p4 ?n) = Some ?b'" using deref_loaded [OF d4(1) p4(3)] d4(2) v3 by simp
  have cur: "delete_move_cursor c (ref_of p2 ?n) p3 = Some (c\<lparr>end_of_table := (?k = length vss - 1)\<rparr>, p3)"
    using dr3 links(2) nc' k len assms(5) by (cases c) (auto simp: delete_move_cursor_def Let_def)
  have "btree_delete def c pg = Some (c\<lparr>end_of_table := (?k = length vss - 1)\<rparr>, p4)"
    using p1(1) p2(1) dr2 k small mx p3(1) dr3 cur p4(1) dr4 links(3) assms(3)
    by (simp add: btree_delete_def delete_update_parent_def leaf_node_handle_underflow_def Let_def)
  moreover have cb: "cells ?b' = drop_nth ?k (cells ?b)" using del(1) by (simp add: drop_nth_def)
  moreover have "single_leaf def p4 (drop_nth ?k vss)"
  proof -
    from cb have "leaf_rows def ?b' (drop_nth ?k vss)" using S(8) by (simp add: leaf_rows_def list_all2_drop_nth)
    moreover have "num_pages pg \<le> num_pages p4" using d1(4) d2(4) d3(4) d4(4) by linarith
    ultimately show ?thesis
      using d4(1,2,6) d3(6) d2(6) d1(6) S v3 links(1,2) del(2) sorted
      by (simp add: single_leaf_def Let_def map_drop_nth sorted_drop_nth)
  qed
  ultimately show ?thesis using that [of p4] d4(2) v3 links(3) by simp
qed

text \<open>
  C8.  Deleting the row under the cursor from a table of one leaf, the root, takes that row out of the
  list of rows and leaves the others in their order; the cursor stays on the page and is at the end
  of the table exactly when the last row went.
\<close>

theorem delete_refines_list:
  assumes "single_leaf def pg vss" "is_node_root (view pg (root_page_num def))"
    and "c_page c = root_page_num def" "c_cell c < length vss" "\<not> end_of_table c"
  shows "\<exists>c' q. btree_delete def c pg = Some (c', q) \<and> single_leaf def q (drop_nth (c_cell c) vss) \<and>
    c' = c\<lparr>end_of_table := (c_cell c = length vss - 1)\<rparr>"
  by (rule delete_from_leaf [OF assms]) blast

theorem delete_refines_list_witness:
  "\<exists>c' q. btree_delete sample_table \<lparr>c_page = 1, c_cell = 0, end_of_table = False\<rparr> one_leaf = Some (c', q) \<and>
    single_leaf sample_table q [int_row 5] \<and> \<not> end_of_table c'"
proof -
  have "is_node_root (view one_leaf 1)" unfolding one_leaf(2) using sample_leaf(5) [of "[2, 5]" 0 True] by simp
  then show ?thesis
    using delete_refines_list [OF one_leaf(3), of "\<lparr>c_page = 1, c_cell = 0, end_of_table = False\<rparr>"] by (fastforce simp: drop_nth_def)
qed

end
