(* ===== verification/Btree_Split.thy ===== *)
theory Btree_Split
  imports Btree_Shrink
begin

text \<open>
  The split of a full root leaf: the root becomes an internal node over two leaves which together hold
  the old cells and the new one, so that the table is a well-formed tree of height 1 with the row
  inserted.  And the split that overruns its page, because it divides the cells by number.
\<close>

section \<open>Pages and headers\<close>

text \<open>The type, the root flag and the parent are not what a leaf's cells depend on.\<close>

lemma leaf_header_change:
  assumes "leaf_ok b" "agree_outside 0 8 b b'"
  shows "leaf_ok b'" "cells b' = cells b" "leaf_node_next_leaf b' = leaf_node_next_leaf b"
proof -
  have h: "leaf_node_num_cells b' = leaf_node_num_cells b" "leaf_node_free_space b' = leaf_node_free_space b"
    "leaf_node_next_leaf b' = leaf_node_next_leaf b"
    using assms(2) by (simp_all add: node_defs rd_agree)
  have s: "slot b' i = slot b i" for i
    using assms(2) by (simp add: slot_def slot_offset_def slot_size_def slot_pos rd_agree)
  show n: "leaf_node_next_leaf b' = leaf_node_next_leaf b" by (rule h(3))
  show c: "cells b' = cells b"
  proof (rule cells_eqI)
    fix i assume i: "i < length (cells b)"
    then have "slot_fits (leaf_node_free_space b) (slot b i)" using leaf_okD(3) [OF assms(1)] by simp
    then have "20 \<le> fst (slot b i)" using leaf_ok_bounds(2) [OF assms(1)] by (simp add: slot_fits_def slot_pos)
    then have "get_bytes b' (fst (slot b i)) (snd (slot b i)) = get_bytes b (fst (slot b i)) (snd (slot b i))"
      using assms(2) by (intro get_bytes_agree) auto
    then show "get_bytes b' (fst (slot b' i)) (snd (slot b' i)) = cells b ! i" using i s by (simp add: leaf_cell_slot)
  qed (use h in simp)
  have "page_ok b'" using page_ok_agree [OF assms(2)] leaf_okD(1) [OF assms(1)] by simp
  then show "leaf_ok b'"
    by (rule leaf_okI) (use h s c leaf_okD(2,3) [OF assms(1)] leaf_ok_bounds(2) [OF assms(1)] in simp_all)
qed

lemma agree_root_parent: "agree_outside 0 8 b (set_node_root b r)" "agree_outside 0 8 b (set_node_parent p b)"
  by (auto simp: agree_outside_def set_node_root_def set_node_parent_def wr_def put_bytes_def)

lemma copy_whole_page: "page_ok a \<Longrightarrow> page_ok b \<Longrightarrow> copy_buf PAGE_SIZE a b = b"
  by (auto simp: copy_buf_def page_ok_def)

lemma header_fields [simp]:
  "get_node_type (set_node_root b r) = get_node_type b" "is_node_root (set_node_root b r) = r"
  "get_node_type (set_node_parent p b) = get_node_type b" "is_node_root (set_node_parent p b) = is_node_root b"
  by (simp_all add: get_node_type_def set_node_root_def is_node_root_def set_node_parent_def wr_def put_bytes_def)

text \<open>The root a split makes.\<close>

definition new_root :: "nat \<Rightarrow> nat \<Rightarrow> byte list \<Rightarrow> buf \<Rightarrow> buf" where
  "new_root left right k b = set_right_child right (set_node_key 0 k
     (wr 4 (set_num_keys 1 (set_node_root (initialize_internal_node b) True)) (internal_node_cell 0) left))"

lemma new_root:
  assumes "left < 2 ^ 32" "right < 2 ^ 32" "length k = 32" "page_ok b"
  shows "children (new_root left right k b) = [left, right]" "separators (new_root left right k b) = [k]"
    "get_node_type (new_root left right k b) = NODE_INTERNAL" "is_node_root (new_root left right k b)"
    "page_ok (new_root left right k b)"
proof -
  let ?b = "new_root left right k b"
  have n: "internal_node_num_keys ?b = 1" "internal_node_right_child ?b = right" "rd 4 ?b (internal_node_cell 0) = left"
    using assms by (simp_all add: new_root_def internal_node_num_keys_def internal_node_right_child_def set_num_keys_def
        set_right_child_def set_node_key_def internal_node_key_def cell_pos rd_wr_disjoint rd_put_disjoint)
  have "node_key ?b 0 = k"
    using assms(3) by (simp add: new_root_def node_key_def set_right_child_def set_node_key_def internal_node_key_def
        cell_pos wr_def get_put_disjoint get_put_same)
  then show "children ?b = [left, right]" "separators ?b = [k]" using n by (simp_all add: children_def separators_def)
  have z: "get_node_type (initialize_internal_node b) = NODE_INTERNAL"
    by (simp add: initialize_internal_node_def get_node_type_def set_node_type_def set_node_root_def set_num_keys_def
        set_right_child_def wr_def put_bytes_def)
  have a: "agree_outside 8 PAGE_SIZE (set_node_root (initialize_internal_node b) True) ?b"
    using assms(3) unfolding new_root_def set_right_child_def set_node_key_def set_num_keys_def
    by (intro agree_outside_trans [OF agree_outside_wr agree_outside_trans [OF agree_outside_wr
          agree_outside_trans [OF agree_outside_put agree_outside_wr]]]) (simp_all add: cell_pos internal_node_key_def)
  show "get_node_type ?b = NODE_INTERNAL" "is_node_root ?b"
    using z agree_outsideD [OF a, of 0] agree_outsideD [OF a, of 1]
    by (simp_all add: get_node_type_def set_node_root_def is_node_root_def split: if_splits)
  have "page_ok (set_node_root (initialize_internal_node b) True)"
    using assms(4) by (auto simp: page_ok_def initialize_internal_node_def set_node_type_def set_node_root_def set_num_keys_def
        set_right_child_def wr_def put_bytes_def)
  then show "page_ok ?b" by (rule page_ok_agree [OF a, rotated]) simp
qed

section \<open>Steps on a writing pager\<close>

text \<open>\<open>p\<close> is \<open>pg\<close> with pages that read as \<open>V\<close>; the pointers held stay good.\<close>

definition keeps :: "Pager \<Rightarrow> Pager \<Rightarrow> pages \<Rightarrow> bool" where
  "keeps pg p V \<longleftrightarrow> writing p \<and> view p = V \<and> (\<forall>n. loaded pg n \<longrightarrow> loaded p n) \<and> (\<forall>n. ref_of p n = ref_of pg n) \<and>
     freelist_head p = freelist_head pg \<and> reserved_catalog_pages p = reserved_catalog_pages pg \<and> num_pages pg \<le> num_pages p"

lemma keepsD:
  assumes "keeps pg p V"
  shows "writing p" "view p = V" "loaded pg n \<Longrightarrow> loaded p n" "ref_of p n = ref_of pg n" "freelist_head p = freelist_head pg"
    "reserved_catalog_pages p = reserved_catalog_pages pg" "num_pages pg \<le> num_pages p"
  using assms by (simp_all add: keeps_def)

lemma keeps_refl: "writing pg \<Longrightarrow> keeps pg pg (view pg)"
  by (simp add: keeps_def)

lemma keeps_trans: "keeps a b V \<Longrightarrow> keeps b c W \<Longrightarrow> keeps a c W"
  by (auto simp: keeps_def)

lemma evolves_keeps: "evolves pg {} m p V \<Longrightarrow> keeps pg p V"
  using evolvesD(8) [of pg "{}" m p V] by (simp add: keeps_def evolves_def)

lemma keeps_deref: "keeps pg p V \<Longrightarrow> loaded p n \<Longrightarrow> deref p (ref_of pg n) = Some (V n)"
  using deref_loaded [of p n] by (simp add: keeps_def)

lemma keeps_page:
  assumes "keeps pg p V" "n < MAX_PAGES"
  obtains q where "page_ptr p n = Some (ref_of pg n, q)" "keeps pg q V" "loaded q n" "num_pages q = max (num_pages p) (Suc n)"
    "\<forall>m. loaded p m \<longrightarrow> loaded q m"
proof -
  obtain q where q: "page_ptr p n = Some (ref_of q n, q)" "evolves p {} (Suc n) q (view p)" "loaded q n"
    "get_page p n = Some (Some (ref_of q n), q)" "ref_of q n = ref_of p n" "num_pages q = max (num_pages p) (Suc n)"
    by (rule page_ptr_ok [OF keepsD(1) [OF assms(1)] assms(2)])
  have "keeps pg q V" using keeps_trans [OF assms(1) evolves_keeps [OF q(2)]] keepsD(2) [OF assms(1)] by simp
  then show ?thesis using that [of q] q keepsD(4) [OF assms(1)] evolvesD(3) [OF q(2)] by simp
qed

lemma keeps_edit:
  assumes "keeps pg p V" "loaded p n" "page_ok (f (V n))"
  obtains q where "edit_at (ref_of pg n) f p = Some q" "keeps pg q (V(n := f (V n)))" "num_pages q = num_pages p"
    "\<forall>m. loaded p m \<longrightarrow> loaded q m"
proof -
  note k = keepsD [OF assms(1)]
  obtain q where q: "edit_at (ref_of pg n) f p = Some q" "evolves p {} 0 q ((view p)(n := f (view p n)))" "num_pages q = num_pages p"
    by (rule edit_at_ok [OF k(1) assms(2), of f "ref_of pg n"]) (use assms(3) k(2,4) in simp_all)
  show ?thesis
    using that [of q] q keeps_trans [OF assms(1) evolves_keeps [OF q(2)]] k(2) evolvesD(3) [OF q(2)] by simp
qed

section \<open>The new root\<close>

lemma length_col0_key [simp]: "length (serialize_col0_key def v) = 32"
  by (simp add: serialize_col0_key_def Let_def split: ColumnType.split)

lemma create_new_root_leaf:
  assumes w: "writing pg" and free: "freelist_head pg = 0" and L: "L = max (num_pages pg) (reserved_catalog_pages pg)" "L < MAX_PAGES"
    and r: "root_page_num def = r" "r < num_pages pg" and n: "n < num_pages pg" "r \<noteq> n"
    and leaf: "get_node_type (view pg r) = NODE_LEAF"
  defines "left \<equiv> set_node_parent r (set_node_root (view pg r) False)"
  defines "k \<equiv> (if leaf_node_num_cells (view pg r) = 0 then zero_key
       else cell_key def (set_node_root (view pg r) False) (leaf_node_num_cells (view pg r) - 1))"
  shows "\<exists>p. create_new_root def n pg = Some p \<and>
    keeps pg p ((view pg)(L := left, r := new_root L n k (view pg r), n := set_node_parent r (view pg n)))"
proof -
  let ?b = "view pg r" and ?lb = "set_node_root (view pg r) False"
  have lt: "r < MAX_PAGES" "n < MAX_PAGES" "L \<noteq> r" "L \<noteq> n" using r n L by auto
  have ok: "page_ok (view pg m)" for m by (rule writing_view_ok [OF w])
  have hok: "page_ok b \<Longrightarrow> page_ok (set_node_parent q b)" "page_ok b \<Longrightarrow> page_ok (set_node_root b f)" for b q f
    using page_ok_agree [OF agree_root_parent(1)] page_ok_agree [OF agree_root_parent(2)] by simp_all
  obtain p1 where p1: "page_ptr pg r = Some (ref_of pg r, p1)" "keeps pg p1 (view pg)" "loaded p1 r"
    "num_pages p1 = max (num_pages pg) (Suc r)" "\<forall>m. loaded pg m \<longrightarrow> loaded p1 m"
    by (rule keeps_page [OF keeps_refl [OF w] lt(1)])
  obtain p2 where p2: "page_ptr p1 n = Some (ref_of pg n, p2)" "keeps pg p2 (view pg)" "loaded p2 n"
    "num_pages p2 = max (num_pages p1) (Suc n)" "\<forall>m. loaded p1 m \<longrightarrow> loaded p2 m"
    by (rule keeps_page [OF p1(2) lt(2)])
  have "num_pages p2 = num_pages pg" using p1(4) p2(4) r(2) n(1) by simp
  then have u: "get_unused_page_num p2 = Some (L, p2)"
    using unused_page [of p2] keepsD(5,6) [OF p2(2)] free L by simp
  obtain p3 where p3: "page_ptr p2 L = Some (ref_of pg L, p3)" "keeps pg p3 (view pg)" "loaded p3 L"
    "num_pages p3 = max (num_pages p2) (Suc L)" "\<forall>m. loaded p2 m \<longrightarrow> loaded p3 m"
    by (rule keeps_page [OF p2(2) L(2)])
  have l3: "loaded p3 r" "loaded p3 n" using p1(3) p2(3,5) p3(5) by auto
  have d3: "deref p3 (ref_of pg r) = Some ?b" by (rule keeps_deref [OF p3(2) l3(1)])
  have cp: "set_node_root (copy_buf PAGE_SIZE (view pg L) ?b) False = ?lb" by (simp add: copy_whole_page ok)
  let ?copy = "\<lambda>b. set_node_root (copy_buf PAGE_SIZE b ?b) False"
  let ?V4 = "(view pg)(L := ?lb)"
  obtain p4 where p4: "edit_at (ref_of pg L) ?copy p3 = Some p4" "keeps pg p4 ?V4" "\<forall>m. loaded p3 m \<longrightarrow> loaded p4 m"
    by (rule keeps_edit [OF p3(2,3), of ?copy]) (use hok ok cp in auto)
  have l4: "loaded p4 r" "loaded p4 n" "loaded p4 L" using l3 p3(3) p4(3) by auto
  have d4: "deref p4 (ref_of pg L) = Some ?lb" "deref p4 (ref_of pg r) = Some ?b"
    using keeps_deref [OF p4(2) l4(3)] keeps_deref [OF p4(2) l4(1)] lt(3) by simp_all
  have lbt: "get_node_type ?lb = NODE_LEAF" using leaf by simp
  let ?r5 = "wr 4 (set_num_keys 1 (set_node_root (initialize_internal_node ?b) True)) (internal_node_cell 0) L"
  have sc: "set_child_page 0 L (set_num_keys 1 (set_node_root (initialize_internal_node ?b) True)) = Some ?r5"
    by (simp add: set_child_page_def internal_node_child_def internal_node_num_keys_def set_num_keys_def Let_def)
  have kl: "length k = 32" by (simp add: k_def cell_key_def)
  have bound: "L < 2 ^ 32" "n < 2 ^ 32" using L(2) lt(2) by simp_all
  note nr = new_root(5) [OF bound kl ok [of r]]
  have ok5: "page_ok ?r5"
    using page_ok_agree [of 8 PAGE_SIZE _ ?r5] ok [of r]
    by (auto simp: page_ok_def initialize_internal_node_def set_node_type_def set_node_root_def set_num_keys_def
        set_right_child_def wr_def put_bytes_def cell_pos)
  obtain p5 where p5: "edit_at (ref_of pg r) (\<lambda>_. ?r5) p4 = Some p5" "keeps pg p5 (?V4(r := ?r5))" "\<forall>m. loaded p4 m \<longrightarrow> loaded p5 m"
    by (rule keeps_edit [OF p4(2) l4(1), of "\<lambda>_. ?r5"]) (use ok5 in auto)
  have e5: "edit_opt (ref_of pg r) (\<lambda>b. set_child_page 0 L (set_num_keys 1 (set_node_root (initialize_internal_node b) True))) p4 = Some p5"
    using d4(2) sc p5(1) by (simp add: edit_opt_def edit_at_def)
  have l5: "loaded p5 r" "loaded p5 n" "loaded p5 L" using l4 p5(3) by auto
  have d5: "deref p5 (ref_of pg L) = Some ?lb" using keeps_deref [OF p5(2) l5(3)] lt(3) by simp
  have mx: "get_node_max_key def (ref_of pg L) p5 = Some (k, p5)"
    using lbt by (subst get_node_max_key.simps) (simp add: d5 k_def Let_def set_node_root_def leaf_node_num_cells_def rd_upd_disjoint)
  obtain p6 where p6: "edit_at (ref_of pg r) (\<lambda>b. set_right_child n (set_node_key 0 k b)) p5 = Some p6"
    "keeps pg p6 (?V4(r := new_root L n k ?b))" "\<forall>m. loaded p5 m \<longrightarrow> loaded p6 m"
    by (rule keeps_edit [OF p5(2) l5(1), of "\<lambda>b. set_right_child n (set_node_key 0 k b)"]) (use nr in \<open>auto simp: new_root_def\<close>)
  have l6: "loaded p6 n" "loaded p6 L" using l5 p6(3) by auto
  let ?V7 = "?V4(r := new_root L n k ?b, L := left)"
  obtain p7 where p7: "edit_at (ref_of pg L) (set_node_parent r) p6 = Some p7" "keeps pg p7 ?V7" "\<forall>m. loaded p6 m \<longrightarrow> loaded p7 m"
    by (rule keeps_edit [OF p6(2) l6(2), of "set_node_parent r"]) (use hok ok lt(3) in \<open>auto simp: left_def\<close>)
  have l7: "loaded p7 n" using l6(1) p7(3) by auto
  obtain p8 where p8: "edit_at (ref_of pg n) (set_node_parent r) p7 = Some p8" "keeps pg p8 (?V7(n := set_node_parent r (view pg n)))"
    by (rule keeps_edit [OF p7(2) l7, of "set_node_parent r"]) (use hok ok lt(4) n(2) in auto)
  have "create_new_root def n pg = Some p8"
    using p1(1) p2(1) u p3(1) d3 leaf p4(1) d4(1) lbt e5 mx p6(1) p7(1) p8(1)
    by (simp add: create_new_root_def r(1) Let_def)
  moreover have "?V7(n := set_node_parent r (view pg n)) =
      (view pg)(L := left, r := new_root L n k ?b, n := set_node_parent r (view pg n))"
    using lt(3,4) n(2) by (auto simp: fun_eq_iff)
  ultimately show ?thesis using p8(2) by auto
qed

section \<open>Splitting the root leaf\<close>

definition cells_fit :: "byte list list \<Rightarrow> bool" where
  "cells_fit cs \<longleftrightarrow> leaf_node_slot (length cs) + sum_list (map length cs) \<le> PAGE_SIZE"

lemma cells_set_next:
  assumes "leaf_ok b"
  shows "cells (set_next_leaf n b) = cells b"
proof (rule cells_eqI)
  have a: "agree_outside 12 16 b (set_next_leaf n b)" by (auto simp: set_next_leaf_def)
  have s: "slot (set_next_leaf n b) i = slot b i" for i
    using a by (simp add: slot_def slot_offset_def slot_size_def slot_pos rd_agree)
  show "leaf_node_num_cells (set_next_leaf n b) = length (cells b)" using a by (simp add: node_defs rd_agree)
  fix i assume i: "i < length (cells b)"
  then have "slot_fits (leaf_node_free_space b) (slot b i)" using leaf_okD(3) [OF assms] by simp
  then have "20 \<le> fst (slot b i)" using leaf_ok_bounds(2) [OF assms] by (simp add: slot_fits_def slot_pos)
  then have "get_bytes (set_next_leaf n b) (fst (slot b i)) (snd (slot b i)) = get_bytes b (fst (slot b i)) (snd (slot b i))"
    using a by (intro get_bytes_agree) auto
  then show "get_bytes (set_next_leaf n b) (fst (slot (set_next_leaf n b) i)) (snd (slot (set_next_leaf n b) i)) = cells b ! i"
    using i s by (simp add: leaf_cell_slot)
qed

text \<open>A page initialised as a leaf, with its links.\<close>

lemma init_leaf:
  assumes "page_ok b"
  shows "get_node_type (initialize_leaf_node b) = NODE_LEAF" "\<not> is_node_root (initialize_leaf_node b)"
    "page_ok (initialize_leaf_node b)"
  using assms by (auto simp: initialize_leaf_node_def get_node_type_def is_node_root_def node_defs set_node_type_def
      set_node_root_def page_ok_def wr_def put_bytes_def)

lemma set_next_fields [simp]:
  "get_node_type (set_next_leaf n b) = get_node_type b" "is_node_root (set_next_leaf n b) = is_node_root b"
  "n < 2 ^ 32 \<Longrightarrow> leaf_node_next_leaf (set_next_leaf n b) = n" "page_ok b \<Longrightarrow> page_ok (set_next_leaf n b)"
proof -
  show "n < 2 ^ 32 \<Longrightarrow> leaf_node_next_leaf (set_next_leaf n b) = n" by (simp add: node_defs)
qed (auto simp: get_node_type_def is_node_root_def node_defs wr_def put_bytes_def page_ok_def)

lemma parent_root_page [simp]:
  "page_ok b \<Longrightarrow> page_ok (set_node_parent q b)" "page_ok b \<Longrightarrow> page_ok (set_node_root b f)"
  "leaf_node_next_leaf (set_node_parent q b) = leaf_node_next_leaf b"
  "leaf_node_next_leaf (set_node_root b f) = leaf_node_next_leaf b"
  using page_ok_agree [OF agree_root_parent(1)] page_ok_agree [OF agree_root_parent(2)]
  by (simp_all add: node_defs rd_wr_disjoint set_node_root_def rd_upd_disjoint)

lemma populated:
  assumes "cells_fit cs" "page_ok b"
  shows "cells (populate_leaf cs b) = cs" "leaf_ok (populate_leaf cs b)" "get_node_type (populate_leaf cs b) = get_node_type b"
    "is_node_root (populate_leaf cs b) = is_node_root b" "leaf_node_next_leaf (populate_leaf cs b) = leaf_node_next_leaf b"
    "page_ok (populate_leaf cs b)"
  using populate_leaf_ok [OF assms(1) [unfolded cells_fit_def] assms(2)] leaf_okD(1) by (auto simp: same_links_def)

text \<open>The first half: both leaves filled, just before the new root is made.\<close>

definition old_half :: "nat \<Rightarrow> byte list list \<Rightarrow> buf \<Rightarrow> buf" where
  "old_half new_page cs b = populate_leaf cs (set_next_leaf new_page
     (if is_node_root b then set_node_root (initialize_leaf_node b) True else initialize_leaf_node b))"

lemma old_half:
  assumes "cells_fit cs" "page_ok b" "n < 2 ^ 32"
  shows "cells (old_half n cs b) = cs" "leaf_ok (old_half n cs b)" "get_node_type (old_half n cs b) = NODE_LEAF"
    "is_node_root (old_half n cs b) = is_node_root b" "leaf_node_next_leaf (old_half n cs b) = n"
  unfolding old_half_def using populated [OF assms(1)] init_leaf [OF assms(2)] assms(3) by simp_all

definition leaf_with :: "byte list list \<Rightarrow> nat \<Rightarrow> buf \<Rightarrow> bool" where
  "leaf_with cs next b \<longleftrightarrow> leaf_ok b \<and> cells b = cs \<and> get_node_type b = NODE_LEAF \<and> leaf_node_next_leaf b = next"

lemma leaf_with_header: "leaf_with cs n b \<Longrightarrow> leaf_with cs n (set_node_root b f)" "leaf_with cs n b \<Longrightarrow> leaf_with cs n (set_node_parent q b)"
  using leaf_header_change [OF _ agree_root_parent(1)] leaf_header_change [OF _ agree_root_parent(2)]
  by (auto simp: leaf_with_def)

text \<open>The pages after the split of the root leaf \<open>r\<close>: the cells \<open>cs\<close> in two leaves \<open>Suc N\<close> and \<open>N\<close>.\<close>

definition split_pages :: "TableDef \<Rightarrow> nat \<Rightarrow> nat \<Rightarrow> byte list list \<Rightarrow> nat \<Rightarrow> pages \<Rightarrow> pages \<Rightarrow> bool" where
  "split_pages def r N cs next V W \<longleftrightarrow> (\<exists>A A' B R.
     leaf_with (take (length cs div 2) cs) N A \<and> leaf_with (take (length cs div 2) cs) N A' \<and>
     leaf_with (drop (length cs div 2) cs) next B \<and> page_ok R \<and>
     W = V(Suc N := A, r := new_root (Suc N) N
           (if length cs div 2 = 0 then zero_key else cell_key def A' (length cs div 2 - 1)) R, N := B))"

lemma split_root_leaf:
  assumes w: "writing pg" and free: "freelist_head pg = 0" and N: "N = max (num_pages pg) (reserved_catalog_pages pg)" "Suc N < MAX_PAGES"
    and r: "root_page_num def = r" "c_page c = r" "r < num_pages pg"
    and leaf: "get_node_type (view pg r) = NODE_LEAF" "is_node_root (view pg r)" "leaf_ok (view pg r)"
    and k: "c_cell c \<le> leaf_node_num_cells (view pg r)"
    and cs: "cs = take (c_cell c) (cells (view pg r)) @ cell # drop (c_cell c) (cells (view pg r))"
    and fits: "cells_fit (take (length cs div 2) cs)" "cells_fit (drop (length cs div 2) cs)"
  shows "\<exists>p. leaf_node_split_and_insert def c cell pg = Some p \<and> writing p \<and> freelist_head p = 0 \<and> num_pages pg \<le> num_pages p \<and>
    split_pages def r N cs (leaf_node_next_leaf (view pg r)) (view pg) (view p)"
proof -
  let ?b = "view pg r" and ?h = "length cs div 2" and ?nx = "leaf_node_next_leaf (view pg r)"
  have lt: "r < MAX_PAGES" "N < MAX_PAGES" "N \<noteq> r" "N < 2 ^ 32" "?nx < 2 ^ 32"
    using r(3) N by (auto simp: leaf_node_next_leaf_def)
  have ok: "page_ok (view pg m)" for m by (rule writing_view_ok [OF w])
  obtain p1 where p1: "pager_journal_page pg r = Some p1" "evolves pg {r} (Suc r) p1 (view pg)"
    by (rule journal_ok_writing [OF w lt(1)])
  note d1 = evolvesD [OF p1(2)]
  obtain p2 where p2: "page_ptr p1 r = Some (ref_of p1 r, p2)" "keeps p1 p2 (view p1)" "loaded p2 r"
    "num_pages p2 = max (num_pages p1) (Suc r)" "\<forall>m. loaded p1 m \<longrightarrow> loaded p2 m"
    by (rule keeps_page [OF keeps_refl [OF d1(1)] lt(1)])
  have n2: "num_pages p2 = num_pages pg" using p2(4) d1(4,5) r(3) by linarith
  have f2: "freelist_head p2 = 0" "reserved_catalog_pages p2 = reserved_catalog_pages pg"
    using keepsD(5,6) [OF p2(2)] d1(6,7) free by simp_all
  have w2: "writing p2" "view p2 = view pg" using keepsD(1,2) [OF p2(2)] d1(2) by simp_all
  have "deref p2 (ref_of p1 r) = Some ?b" using keeps_deref [OF p2(2,3)] d1(2) by simp
  then obtain om where mx: "get_node_max_key def (ref_of p1 r) p2 = Some (om, p2)"
    using leaf(1) by (simp add: get_node_max_key.simps [of def "ref_of p1 r" p2] Let_def)
  have u: "get_unused_page_num p2 = Some (N, p2)" using unused_page [OF f2(1)] n2 f2(2) N by simp
  obtain p3 where p3: "pager_journal_page p2 N = Some p3" "evolves p2 {N} (Suc N) p3 (view p2)"
    by (rule journal_ok_writing [OF w2(1) lt(2)])
  note d3 = evolvesD [OF p3(2)]
  obtain p4 where p4: "page_ptr p3 N = Some (ref_of p3 N, p4)" "keeps p3 p4 (view p3)" "loaded p4 N"
    "num_pages p4 = max (num_pages p3) (Suc N)" "\<forall>m. loaded p3 m \<longrightarrow> loaded p4 m"
    by (rule keeps_page [OF keeps_refl [OF d3(1)] lt(2)])
  have n4: "num_pages p4 = Suc N" using p4(4) d3(4,5) n2 N(1) by linarith
  have f4: "freelist_head p4 = 0" "reserved_catalog_pages p4 = reserved_catalog_pages pg"
    using keepsD(5,6) [OF p4(2)] d3(6,7) f2 by simp_all
  have ro: "ref_of p3 r = ref_of p1 r" using d3(8) [of r] keepsD(4) [OF p2(2)] lt(3) by simp
  have l4: "loaded p4 r" "loaded p4 N" using p4(3,5) d3(3) [OF p2(3)] by auto
  have v3: "view p3 = view pg" using d3(2) w2(2) by simp
  note k4 = p4(2) [unfolded v3]
  let ?V5 = "(view pg)(N := initialize_leaf_node (view pg N))"
  obtain p5 where p5: "edit_at (ref_of p3 N) initialize_leaf_node p4 = Some p5" "keeps p3 p5 ?V5" "num_pages p5 = num_pages p4"
    "\<forall>m. loaded p4 m \<longrightarrow> loaded p5 m"
    by (rule keeps_edit [OF k4 l4(2), of initialize_leaf_node]) (use init_leaf(3) [OF ok] in auto)
  have d5: "deref p5 (ref_of p1 r) = Some ?b" using keeps_deref [OF p5(2), of r] l4 p5(4) lt(3) ro by auto
  let ?g = "\<lambda>b. set_next_leaf ?nx (set_node_parent (node_parent ?b) b)"
  let ?n6 = "?g (initialize_leaf_node (view pg N))"
  obtain p6 where p6: "edit_at (ref_of p3 N) ?g p5 = Some p6" "keeps p3 p6 (?V5(N := ?g (?V5 N)))" "num_pages p6 = num_pages p5"
    "\<forall>m. loaded p5 m \<longrightarrow> loaded p6 m"
    by (rule keeps_edit [OF p5(2), of N ?g]) (use init_leaf(3) [OF ok] l4(2) p5(4) in auto)
  let ?ob = "set_next_leaf N ?b"
  obtain p7 where p7: "edit_at (ref_of p3 r) (set_next_leaf N) p6 = Some p7" "keeps p3 p7 (?V5(N := ?g (?V5 N), r := ?ob))"
    "num_pages p7 = num_pages p6" "\<forall>m. loaded p6 m \<longrightarrow> loaded p7 m"
    by (rule keeps_edit [OF p6(2), of r "set_next_leaf N"]) (use ok l4 p5(4) p6(4) lt(3) in auto)
  have l7: "loaded p7 r" "loaded p7 N" using l4 p5(4) p6(4) p7(4) by auto
  have d7: "deref p7 (ref_of p1 r) = Some ?ob" using keeps_deref [OF p7(2) l7(1)] ro by simp
  have csob: "cells ?ob = cells ?b" by (rule cells_set_next [OF leaf(3)])
  have "leaf_node_num_cells ?ob = leaf_node_num_cells ?b" by (rule cells_num [OF csob])
  then have sp: "split_cells ?ob (c_cell c) cell = cs" using split_cells_eq [of "c_cell c" ?ob cell] k csob cs by simp
  let ?A = "old_half N (take ?h cs) ?ob" and ?B = "populate_leaf (drop ?h cs) ?n6"
  have okob: "page_ok ?ob" using ok by simp
  note A = old_half [OF fits(1) okob lt(4)]
  have A': "leaf_with (take ?h cs) N ?A" "is_node_root ?A" using A leaf(2) by (simp_all add: leaf_with_def)
  have "page_ok ?n6" "get_node_type ?n6 = NODE_LEAF" "leaf_node_next_leaf ?n6 = ?nx" using init_leaf [OF ok] lt(5) by simp_all
  then have B: "leaf_with (drop ?h cs) ?nx ?B" using populated [OF fits(2)] by (simp add: leaf_with_def)
  let ?V8 = "?V5(N := ?g (?V5 N), r := ?A)"
  obtain p8 where p8: "edit_at (ref_of p3 r) (\<lambda>b. old_half N (take ?h cs) b) p7 = Some p8" "keeps p3 p8 ?V8"
    "num_pages p8 = num_pages p7" "\<forall>m. loaded p7 m \<longrightarrow> loaded p8 m"
    by (rule keeps_edit [OF p7(2) l7(1), of "\<lambda>b. old_half N (take ?h cs) b"]) (use A(2) leaf_okD(1) in auto)
  have l8: "loaded p8 r" "loaded p8 N" using l7 p8(4) by auto
  let ?V9 = "(view pg)(r := ?A, N := ?B)"
  have V9: "?V8(N := populate_leaf (drop ?h cs) (?V8 N)) = ?V9" using lt(3) by (auto simp: fun_eq_iff)
  obtain p9 where p9: "edit_at (ref_of p3 N) (populate_leaf (drop ?h cs)) p8 = Some p9" "keeps p3 p9 ?V9" "num_pages p9 = num_pages p8"
    "\<forall>m. loaded p8 m \<longrightarrow> loaded p9 m"
    unfolding V9 [symmetric]
    by (rule keeps_edit [OF p8(2) l8(2), of "populate_leaf (drop ?h cs)"]) (use B leaf_okD(1) lt(3) in \<open>auto simp: leaf_with_def\<close>)
  have l9: "loaded p9 r" using l8 p9(4) by auto
  have d9: "deref p9 (ref_of p1 r) = Some ?A" using keeps_deref [OF p9(2) l9] ro lt(3) by simp
  note k9 = keepsD [OF p9(2)]
  have n9: "num_pages p9 = Suc N" using n4 p5(3) p6(3) p7(3) p8(3) p9(3) by simp
  have f9: "freelist_head p9 = 0" "reserved_catalog_pages p9 = reserved_catalog_pages pg" using k9(5,6) d3(6,7) f2 by simp_all
  let ?k = "if leaf_node_num_cells ?A = 0 then zero_key else cell_key def (set_node_root ?A False) (leaf_node_num_cells ?A - 1)"
  have L9: "Suc N = max (num_pages p9) (reserved_catalog_pages p9)" using n9 f9(2) N(1) by simp
  have v9: "view p9 r = ?A" "view p9 N = ?B" using k9(2) lt(3) by simp_all
  have rn: "r < num_pages p9" "N < num_pages p9" "r \<noteq> N" using n9 r(3) N(1) lt(3) by simp_all
  obtain p where p: "create_new_root def N p9 = Some p" "keeps p9 p (?V9(Suc N := set_node_parent r (set_node_root ?A False),
      r := new_root (Suc N) N ?k ?A, N := set_node_parent r ?B))"
    using create_new_root_leaf [OF k9(1) f9(1) L9 N(2) r(1) rn, unfolded v9, unfolded k9(2), OF A(3)] by (elim exE conjE)
  have "leaf_node_split_and_insert def c cell pg = Some p"
    using p1(1) p2(1) mx u p3(1) p4(1) p5(1) d5 p6(1) p7(1) d7 sp p8(1) p9(1) d9 A'(2) p(1) r(2) ro
    by (simp add: leaf_node_split_and_insert_def Let_def old_half_def)
  moreover have "split_pages def r N cs ?nx (view pg) (view p)"
  proof -
    have "leaf_node_num_cells ?A = ?h" using length_cells [of ?A] A(1) by simp
    then have "view p = (view pg)(Suc N := set_node_parent r (set_node_root ?A False), r := new_root (Suc N) N
        (if ?h = 0 then zero_key else cell_key def (set_node_root ?A False) (?h - 1)) ?A, N := set_node_parent r ?B)"
      using keepsD(2) [OF p(2)] lt(3) by (auto simp: fun_eq_iff)
    moreover have "page_ok ?A" using A(2) leaf_okD(1) by blast
    ultimately show ?thesis
      using A' B leaf_with_header unfolding split_pages_def by blast
  qed
  moreover have "writing p" "freelist_head p = 0" "num_pages pg \<le> num_pages p"
    using keepsD(1,5,7) [OF p(2)] f9(1) n9 N(1) by simp_all
  ultimately show ?thesis by blast
qed

section \<open>The table after the split\<close>

text \<open>A well-formed table of height \<open>d\<close> whose leaves hold the rows \<open>vss\<close>.\<close>

definition table_rows :: "TableDef \<Rightarrow> pages \<Rightarrow> nat \<Rightarrow> Value list list \<Rightarrow> bool" where
  "table_rows def V d vss \<longleftrightarrow> table_ok def V d \<and>
     list_all2 (cell_row def) (concat (map (\<lambda>p. cells (V p)) (leaf_pages V d (root_page_num def)))) vss"

lemma leaf_rows_ok:
  assumes "leaf_rows def b vss" "sorted_wrt (\<lambda>x y. compare_keys (key_type def) x y \<le> 0) (map (row_key def) vss)"
  shows "sorted_keys def (keys def b)"
proof -
  have "key_ok (key_type def) (row_key def vs)" if "vs \<in> set vss" for vs
    using that assms(1) serialize_col0_key_ok
    by (auto simp: leaf_rows_def list_all2_conv_all_nth in_set_conv_nth cell_row_def row_ok_def)
  then show ?thesis using assms(2) by (simp add: sorted_keys_def leaf_rows_keys(1) [OF assms(1)])
qed

lemma split_table:
  assumes sp: "split_pages def r N cs 0 V W" and r: "root_page_num def = r" "r < N" "Suc N < MAX_PAGES"
    and rows: "list_all2 (cell_row def) cs vss" and len: "2 \<le> length cs"
    and s: "sorted_wrt (\<lambda>x y. compare_keys (key_type def) x y \<le> 0) (map (row_key def) vss)"
  shows "table_rows def W 1 vss"
proof -
  let ?h = "length cs div 2"
  have h: "0 < ?h" "?h < length cs" using len by linarith+
  obtain A A' B R where p: "leaf_with (take ?h cs) N A" "leaf_with (take ?h cs) N A'" "leaf_with (drop ?h cs) 0 B" "page_ok R"
      "W = V(Suc N := A, r := new_root (Suc N) N (cell_key def A' (?h - 1)) R, N := B)"
    using sp h(1) unfolding split_pages_def by (auto split: if_splits)
  have W: "W (Suc N) = A" "W N = B" "W r = new_root (Suc N) N (cell_key def A' (?h - 1)) R" using p(5) r(2) by simp_all
  have lenv: "length vss = length cs" using rows by (simp add: list_all2_lengthD)
  have rA: "leaf_rows def A (take ?h vss)" "leaf_rows def A' (take ?h vss)" "leaf_rows def B (drop ?h vss)"
    using p(1-3) rows by (simp_all add: leaf_rows_def leaf_with_def list_all2_takeI list_all2_dropI)
  have "sorted_wrt (\<lambda>x y. compare_keys (key_type def) x y \<le> 0) (map (row_key def) (take ?h vss) @ map (row_key def) (drop ?h vss))"
    using s by (simp flip: map_append)
  then have sA: "sorted_wrt (\<lambda>x y. compare_keys (key_type def) x y \<le> 0) (map (row_key def) (take ?h vss))"
    and sB: "sorted_wrt (\<lambda>x y. compare_keys (key_type def) x y \<le> 0) (map (row_key def) (drop ?h vss))"
    and sAB: "\<forall>x \<in> set (map (row_key def) (take ?h vss)). \<forall>y \<in> set (map (row_key def) (drop ?h vss)). compare_keys (key_type def) x y \<le> 0"
    unfolding sorted_wrt_append by auto
  let ?k = "map (row_key def) (take ?h vss) ! (?h - 1)"
  have keys: "keys def A = map (row_key def) (take ?h vss)" "keys def A' = map (row_key def) (take ?h vss)"
    "keys def B = map (row_key def) (drop ?h vss)" using leaf_rows_keys(1) [OF rA(1)] leaf_rows_keys(1) [OF rA(2)] leaf_rows_keys(1) [OF rA(3)] .
  have nA: "leaf_node_num_cells A = ?h" "leaf_node_num_cells A' = ?h" "leaf_node_num_cells B = length cs - ?h"
    using p(1-3) h length_cells [of A] length_cells [of A'] length_cells [of B] by (auto simp: leaf_with_def)
  have k: "cell_key def A' (?h - 1) = ?k"
    using arg_cong [OF keys(2), of "\<lambda>xs. xs ! (?h - 1)"] nA(2) h(1) by (simp add: keys_def)
  have kin: "?k \<in> set (map (row_key def) (take ?h vss))" using h lenv by (intro nth_mem) simp
  have kok: "key_ok (key_type def) ?k" using kin leaf_rows_ok [OF rA(1) sA] by (auto simp: sorted_keys_def keys(1))
  have last: "\<forall>x \<in> set (map (row_key def) (take ?h vss)). compare_keys (key_type def) x ?k \<le> 0"
  proof
    fix x assume "x \<in> set (map (row_key def) (take ?h vss))"
    then obtain i where i: "i < ?h" "x = map (row_key def) (take ?h vss) ! i" using h lenv by (auto simp: in_set_conv_nth)
    then consider "i = ?h - 1" | "i < ?h - 1" by linarith
    then show "compare_keys (key_type def) x ?k \<le> 0"
      using sorted_wrt_nth_less [OF sA, of i "?h - 1"] h lenv kok key_order.cmp_refl [of "key_type def" ?k] i
      by cases simp_all
  qed
  have root: "children (W r) = [Suc N, N]" "separators (W r) = [?k]" "get_node_type (W r) = NODE_INTERNAL"
    using new_root [of "Suc N" N "cell_key def A' (?h - 1)" R] r(3) p(4) k by (simp_all add: W(3) cell_key_def)
  have nk: "internal_node_num_keys (W r) = 1" using length_separators [of "W r"] root(2) by simp
  have leaves: "tree_ok def W 0 (Suc N)" "tree_ok def W 0 N"
    using W(1,2) p(1,3) r(3) leaf_rows_ok [OF rA(1) sA] leaf_rows_ok [OF rA(3) sB] by (simp_all add: leaf_with_def)
  have tk: "tree_keys def W 0 (Suc N) = map (row_key def) (take ?h vss)" "tree_keys def W 0 N = map (row_key def) (drop ?h vss)"
    using W(1,2) keys by (simp_all add: leaf_keys_def)
  have sep: "\<forall>i < internal_node_num_keys (W r).
        (\<forall>j \<le> i. \<forall>x \<in> set (tree_keys def W 0 (children (W r) ! j)). compare_keys (key_type def) x (separators (W r) ! i) \<le> 0) \<and>
        (\<forall>j. i < j \<longrightarrow> j \<le> internal_node_num_keys (W r) \<longrightarrow>
           (\<forall>x \<in> set (tree_keys def W 0 (children (W r) ! j)). compare_keys (key_type def) (separators (W r) ! i) x \<le> 0))"
  proof (intro allI impI conjI)
    fix i j assume "i < internal_node_num_keys (W r)" "j \<le> i"
    then have "i = 0" "j = 0" using nk by simp_all
    then show "\<forall>x \<in> set (tree_keys def W 0 (children (W r) ! j)). compare_keys (key_type def) x (separators (W r) ! i) \<le> 0"
      unfolding root using tk(1) last by (simp del: leaf_pages.simps)
  next
    fix i j assume "i < internal_node_num_keys (W r)" "i < j" "j \<le> internal_node_num_keys (W r)"
    then have "i = 0" "j = 1" using nk by simp_all
    then show "\<forall>x \<in> set (tree_keys def W 0 (children (W r) ! j)). compare_keys (key_type def) (separators (W r) ! i) x \<le> 0"
      unfolding root using tk(2) bspec [OF sAB kin] by (simp del: leaf_pages.simps)
  qed
  have "tree_ok def W 1 r"
    unfolding One_nat_def tree_ok.simps(2)
    using sep leaves root kok r(2,3) by (simp add: sorted_keys_def del: tree_ok.simps)
  moreover have "leaf_chain W (leaf_pages W 1 r)" "\<forall>p \<in> set (leaf_pages W 1 r). 0 < leaf_node_num_cells (W p)"
    using root(1) W(1,2) p(1,3) r(2) nA h by (simp_all add: leaf_with_def)
  moreover have "concat (map (\<lambda>p. cells (W p)) (leaf_pages W 1 r)) = cs"
    using root(1) W(1,2) p(1,3) by (simp add: leaf_with_def)
  ultimately show ?thesis using r(1) rows by (simp add: table_rows_def table_ok_def)
qed


section \<open>A split that overruns its page\<close>

text \<open>
  C33.  Cells are divided by number, not by size.  A leaf of six cells, the last three of 1024 bytes,
  splits for a seventh of 1024 bytes at the end, and the right page gets four of them: the last is
  copied over the page's header and slots, so the node type and the first slot are bytes of that row.
\<close>

theorem split_overruns_page:
  assumes "leaf_ok b" "leaf_node_num_cells b = 6"
    and "length (cells b ! 3) = 1024" "length (cells b ! 4) = 1024" "length (cells b ! 5) = 1024" "length new = 1024"
  shows "leaf_full (leaf_node_free_space (leaf_node_defragment b)) 6 1024 \<and>
    (\<forall>x. x < 8 \<or> 20 \<le> x \<and> x < 32 \<longrightarrow> populate_leaf (drop (7 div 2) (split_cells b 6 new)) node x = new ! x)"
proof -
  have len: "length (cells b) = 6" using assms(2) by simp
  then obtain c0 c1 c2 c3 c4 c5 where c: "cells b = [c0, c1, c2, c3, c4, c5]"
    by (auto simp: length_Suc_conv numeral_eq_Suc simp del: length_cells)
  have "split_cells b 6 new = cells b @ [new]" using split_cells_eq [of 6 b new] assms(2) len by simp
  then have "drop (7 div 2) (split_cells b 6 new) = [c3, c4, c5, new]" by (simp add: c)
  moreover have "3072 \<le> sum_list (map length (cells b))" using assms(3-5) by (simp add: c)
  ultimately show ?thesis
    using four_stubs_bytes [of c3 c4 c5 new _ node] assms(3-6) leaf_full_defragmented [OF assms(1), of 1024] assms(2)
    by (simp add: c slot_pos)
qed

definition six_cells :: buf where
  "six_cells = populate_leaf (replicate 3 [2, 1, 7] @ replicate 3 (replicate 1024 0)) (set_next_leaf 0 (set_node_root (initialize_leaf_node zero_buf) True))"

theorem split_overruns_page_witness:
  "get_node_type (populate_leaf (drop (7 div 2) (split_cells six_cells 6 (replicate 1024 9))) zero_buf) = BAD_NODE 9"
proof -
  let ?cs = "replicate 3 [2, 1, 7 :: byte] @ replicate 3 (replicate 1024 0)"
  have "cells_fit ?cs" by (simp add: cells_fit_def slot_pos sum_list_replicate)
  note p = populated [OF this fresh_leaf(1) [of 0 True], folded six_cells_def]
  have n: "leaf_node_num_cells six_cells = 6" using length_cells [of six_cells] p(1) by simp
  have "length (cells six_cells ! 3) = 1024" "length (cells six_cells ! 4) = 1024" "length (cells six_cells ! 5) = 1024"
    unfolding p(1) by (simp_all add: nth_append)
  from split_overruns_page [OF p(2) n this, of "replicate 1024 9" zero_buf]
  have "populate_leaf (drop (7 div 2) (split_cells six_cells 6 (replicate 1024 9))) zero_buf 0 = replicate 1024 9 ! 0" by simp
  then show ?thesis by (simp add: get_node_type_def)
qed

section \<open>A full leaf of text rows\<close>

definition text_table :: TableDef where
  "text_table = (plain_table [COL_VARCHAR])\<lparr>root_page_num := 1\<rparr>"

definition text_row :: "byte \<Rightarrow> Value list" where
  "text_row x = [value_init\<lparr>text_val := THeap (replicate 900 x), text_len := 900\<rparr>]"

lemma text_table_simps [simp]:
  "num_cols text_table = 1" "root_page_num text_table = 1" "columns text_table = [plain_column COL_VARCHAR]"
  by (simp_all add: text_table_def plain_table_def plain_column_def)

lemma val_text_row: "x \<noteq> 0 \<Longrightarrow> val_text (hd (text_row x)) = replicate 900 x"
  by (simp add: text_row_def val_text_def c_str_def takeWhile_eq_all_conv)

lemma text_row_ok: "x \<noteq> 0 \<Longrightarrow> row_ok text_table (text_row x)"
  using val_text_row [of x]
  by (simp add: row_ok_def key_consistent_def value_ordered_def) (simp add: text_row_def value_wf_def value_init_def)

lemma text_row_record:
  obtains rec where "serialize_row_with_mvcc text_table (text_row x) 0 0 0 = Some rec" "length rec = 903"
proof -
  have v: "put_varint 1813 = [149, 14]" "put_varint 3 = [3]"
    by (subst put_varint.simps, simp add: word_le_nat_alt, (subst put_varint.simps)?, simp add: word_le_nat_alt)+
  have l: "serial_text_len (hd (text_row x)) = 900" by (simp add: serial_text_len_def text_row_def)
  have h: "header_size_loop (Suc (Suc 0)) (Suc (Suc (Suc 0))) = Some (Suc (Suc (Suc 0)))"
    using header_size_loop_ends [of 2] by (simp add: numeral_2_eq_2 numeral_3_eq_3)
  show ?thesis
    using that [of "[3, 149, 14] @ replicate 900 x"] h l v
    by (simp add: serialize_row_with_mvcc_def serialize_col_def hdr_add_def serialize_stamps_def text_row_def value_init_def Let_def)
qed

text \<open>Four rows fill the page; the fifth splits it.\<close>

definition full_leaf :: "byte list list \<Rightarrow> Pager" where
  "full_leaf cs = sample_pager [1 \<mapsto> populate_leaf cs (set_next_leaf 0 (set_node_root (initialize_leaf_node zero_buf) True))]"

lemma text_key_ok: "x \<noteq> 0 \<Longrightarrow> key_ok COL_VARCHAR (row_key text_table (text_row x))"
  using serialize_col0_key_ok [of text_table "hd (text_row x)"] text_row_ok [of x] by (simp add: row_ok_def)

lemma text_row_less:
  assumes "x \<noteq> 0" "y \<noteq> 0"
  shows "compare_keys COL_VARCHAR (row_key text_table (text_row x)) (row_key text_table (text_row y)) \<le> 0 \<longleftrightarrow> x \<le> y"
proof -
  have t: "key_text COL_VARCHAR (row_key text_table (text_row z)) = replicate 30 z" if "z \<noteq> 0" for z
    using serialize_col0_key_text [of text_table COL_VARCHAR "hd (text_row z)"] val_text_row [OF that] text_row_ok [OF that]
    by (simp add: row_ok_def)
  have "strcmp (replicate 30 x) (replicate 30 y) \<le> 0 \<longleftrightarrow> x \<le> y"
    by (auto simp: numeral_eq_Suc)
  then show ?thesis using assms by (simp add: compare_keys_text text_key_ok t)
qed

lemma full_leaf:
  assumes "cells_fit cs" "list_all2 (cell_row text_table) cs [text_row 2, text_row 3, text_row 5, text_row 7]"
  shows "single_leaf text_table (full_leaf cs) [text_row 2, text_row 3, text_row 5, text_row 7]"
    "cells (view (full_leaf cs) 1) = cs" "is_node_root (view (full_leaf cs) 1)"
proof -
  let ?b = "populate_leaf cs (set_next_leaf 0 (set_node_root (initialize_leaf_node zero_buf) True))"
  note p = populated [OF assms(1) fresh_leaf(1) [of 0 True]]
  have ok: "\<forall>(n::nat) b. [1 \<mapsto> ?b] n = Some b \<longrightarrow> page_ok b \<and> n < 4" using p(6) by simp
  have w: "writing (full_leaf cs)" and v: "view (full_leaf cs) 1 = ?b"
    unfolding full_leaf_def by (rule sample_writing [OF ok]; simp)+
  show "cells (view (full_leaf cs) 1) = cs" "is_node_root (view (full_leaf cs) 1)"
    unfolding v using p(1,4) fresh_leaf(4) [of 0 True] by simp_all
  have "sorted_wrt (\<lambda>x y. compare_keys COL_VARCHAR x y \<le> 0) (map (row_key text_table) [text_row 2, text_row 3, text_row 5, text_row 7])"
    by (simp add: text_row_less)
  then show "single_leaf text_table (full_leaf cs) [text_row 2, text_row 3, text_row 5, text_row 7]"
    using w v [unfolded One_nat_def] p(1-3,5) fresh_leaf(2,3) [of 0 True] assms(2)
    by (simp add: single_leaf_def Let_def leaf_rows_def) (simp add: full_leaf_def)
qed


end
