(* ===== verification/Catalog.thy ===== *)
theory Catalog
  imports Values Pager
begin

text \<open>
  The catalog (\<open>src/catalog.c\<close>, \<open>include/catalog.h\<close>): the table, view and trigger definitions of a
  database, their on-disk layout in the first pages of the file, and loading, saving and looking up.
  Table \<open>t\<close> has a page of its own; page 0 also holds the number of tables, the freelist head and the
  LSN, page 15 the views, the triggers and the auto-vacuum byte.

  A \<open>char\<close> array is the string before its first NUL; all arrays are zeroed before they are filled,
  so on disk the string is padded with zeros, and a copy of fewer bytes than the array has cuts it.
\<close>

section \<open>Types\<close>

record ViewDef =
  view_name :: cstr
  select_sql :: cstr

datatype TriggerTiming = TRIGGER_BEFORE | TRIGGER_AFTER
datatype TriggerEvent = TRIGGER_INSERT | TRIGGER_UPDATE | TRIGGER_DELETE

record TriggerDef =
  trigger_name :: cstr
  target_table :: cstr
  timing :: TriggerTiming
  event :: TriggerEvent
  action_sql :: cstr

text \<open>\<open>tables\<close> has the \<open>num_tables\<close> entries in use; \<open>views\<close> and \<open>triggers\<close> are the whole arrays of
  four, of which the first \<open>num_views\<close> and \<open>num_triggers\<close> are in use.\<close>

record Catalog =
  tables :: "TableDef list"
  num_views :: nat
  views :: "ViewDef list"
  num_triggers :: nat
  triggers :: "TriggerDef list"

abbreviation (input) MAX_TABLES :: nat where "MAX_TABLES \<equiv> 1024"
abbreviation (input) MAX_VIEWS :: nat where "MAX_VIEWS \<equiv> 4"
abbreviation (input) MAX_TRIGGERS :: nat where "MAX_TRIGGERS \<equiv> 4"
abbreviation (input) IDX_NAME_SIZE :: nat where "IDX_NAME_SIZE \<equiv> 128"
abbreviation (input) TBL_NAME_SIZE :: nat where "TBL_NAME_SIZE \<equiv> 64"
abbreviation (input) COL_NAME_SIZE :: nat where "COL_NAME_SIZE \<equiv> 32"
abbreviation (input) DISK_COL_SIZE :: nat where "DISK_COL_SIZE \<equiv> 200"
abbreviation (input) VTAB_BASE_OFFSET :: nat where "VTAB_BASE_OFFSET \<equiv> 3336"
abbreviation (input) SIZEOF_VIEW :: nat where "SIZEOF_VIEW \<equiv> 320"
abbreviation (input) SIZEOF_TRIGGER :: nat where "SIZEOF_TRIGGER \<equiv> 392"

definition column_types :: "ColumnType list" where
  "column_types = [COL_INT, COL_TEXT, COL_FLOAT, COL_DOUBLE, COL_BOOL, COL_VARCHAR, COL_BLOB,
     COL_DATETIME, COL_DATE, COL_TIME, COL_TIMESTAMP, COL_NUMERIC, COL_DECIMAL, COL_VECTOR]"

fun type_code :: "ColumnType \<Rightarrow> nat" where
  "type_code COL_INT = 0" | "type_code COL_TEXT = 1" | "type_code COL_FLOAT = 2" | "type_code COL_DOUBLE = 3"
| "type_code COL_BOOL = 4" | "type_code COL_VARCHAR = 5" | "type_code COL_BLOB = 6" | "type_code COL_DATETIME = 7"
| "type_code COL_DATE = 8" | "type_code COL_TIME = 9" | "type_code COL_TIMESTAMP = 10"
| "type_code COL_NUMERIC = 11" | "type_code COL_DECIMAL = 12" | "type_code COL_VECTOR = 13"

text \<open>An enum value read back from disk; a number that is none of the enumerators has no meaning.\<close>

definition enum_of :: "'a list \<Rightarrow> nat \<Rightarrow> 'a option" where
  "enum_of xs n = (if n < length xs then Some (xs ! n) else None)"

fun collation_code :: "CollationType \<Rightarrow> nat" where
  "collation_code COLL_NOT_SET = 0" | "collation_code COLL_BINARY = 1"
| "collation_code COLL_NOCASE = 2" | "collation_code COLL_RTRIM = 3"

definition collation_of :: "nat \<Rightarrow> CollationType" where
  "collation_of n = [COLL_NOT_SET, COLL_BINARY, COLL_NOCASE, COLL_RTRIM] ! (n mod 4)"

fun timing_code :: "TriggerTiming \<Rightarrow> nat" where
  "timing_code TRIGGER_BEFORE = 0" | "timing_code TRIGGER_AFTER = 1"

fun event_code :: "TriggerEvent \<Rightarrow> nat" where
  "event_code TRIGGER_INSERT = 0" | "event_code TRIGGER_UPDATE = 1" | "event_code TRIGGER_DELETE = 2"

section \<open>Computed fields\<close>

text \<open>The running offset, a \<open>uint32_t\<close>, of each column and of the end of the row.\<close>

fun column_offsets :: "nat \<Rightarrow> Column list \<Rightarrow> nat list \<times> nat" where
  "column_offsets off [] = ([], off)"
| "column_offsets off (col # cols) =
     (case column_offsets ((off + col_size col) mod 2 ^ 32) cols of (offs, end_off) \<Rightarrow> (off # offs, end_off))"

definition tabledef_compute :: "TableDef \<Rightarrow> TableDef" where
  "tabledef_compute def =
     (case column_offsets 0 (columns def) of (offs, end_off) \<Rightarrow> def\<lparr>col_offsets := offs, row_size := end_off\<rparr>)"

definition catalog_get_reserved_pages :: "nat \<Rightarrow> nat" where
  "catalog_get_reserved_pages num_tables = 33"

section \<open>Entries on disk\<close>

definition pad :: "nat \<Rightarrow> cstr \<Rightarrow> byte list" where
  "pad n s = take n (s @ replicate n 0)"

text \<open>\<open>memcpy(dst, b + off, n); dst[n - 1] = 0\<close>.\<close>

definition load_str :: "buf \<Rightarrow> nat \<Rightarrow> nat \<Rightarrow> cstr" where
  "load_str b off n = c_str (get_bytes b off (n - 1))"

text \<open>The eleven flags and the two bits of the collation, least significant first.\<close>

definition column_flags :: "Column \<Rightarrow> nat" where
  "column_flags col = horner_sum of_bool 2
     [is_not_null col, is_unique col, has_default col, has_check col, has_fk col, is_autoincrement col,
      odd (collation_code (collation col)), odd (collation_code (collation col) div 2),
      fk_on_delete_cascade col, fk_on_update_cascade col, idx_is_partial col, idx_is_expr col]"

definition column_bytes :: "Column \<Rightarrow> byte list" where
  "column_bytes col =
     pad COL_NAME_SIZE (col_name col) @ le_bytes 4 (type_code (col_type col)) @ le_bytes 4 (col_size col) @
     le_bytes 4 (if has_index col then 1 else 0) @ le_bytes 4 (index_root_page col) @
     le_bytes 4 (column_flags col) @ le_bytes 4 (check_op col) @ pad 16 (default_val col) @
     pad 16 (check_val col) @ pad 16 (fk_target_table col) @ pad 16 (fk_target_col col) @
     pad 16 (idx_where_col col) @ le_bytes 4 (idx_where_op col) @ pad 16 (idx_where_val col) @
     pad 16 (idx_expr_func col)"

definition load_column :: "buf \<Rightarrow> nat \<Rightarrow> Column option" where
  "load_column b off = do {
     ty \<leftarrow> enum_of column_types (rd 4 b (off + 32));
     let flags = rd 4 b (off + 48);
     Some \<lparr>col_name = load_str b off COL_NAME_SIZE, col_type = ty, col_size = rd 4 b (off + 36),
       has_index = (rd 4 b (off + 40) \<noteq> 0), index_root_page = rd 4 b (off + 44),
       is_not_null = bit flags 0, is_unique = bit flags 1, has_default = bit flags 2,
       default_val = load_str b (off + 56) 16, has_check = bit flags 3, check_op = rd 4 b (off + 52),
       check_val = load_str b (off + 72) 16, has_fk = bit flags 4,
       fk_target_table = load_str b (off + 88) 16, fk_target_col = load_str b (off + 104) 16,
       fk_on_delete_cascade = bit flags 8, fk_on_update_cascade = bit flags 9,
       is_autoincrement = bit flags 5, collation = collation_of (flags div 64),
       idx_is_partial = bit flags 10, idx_where_col = load_str b (off + 120) 16,
       idx_where_op = rd 4 b (off + 136), idx_where_val = load_str b (off + 140) 16,
       idx_is_expr = bit flags 11, idx_expr_func = load_str b (off + 156) 16\<rparr> }"

text \<open>Where the entry of table \<open>t\<close> is.\<close>

definition table_page :: "nat \<Rightarrow> nat" where
  "table_page t = (if t = 0 then 0 else if t < 15 then t else t + 1)"

definition table_offset :: "nat \<Rightarrow> nat" where
  "table_offset t = (if t = 0 then 4 else 0)"

definition column_pos :: "nat \<Rightarrow> nat \<Rightarrow> nat" where
  "column_pos base c = base + IDX_NAME_SIZE + 8 + c * DISK_COL_SIZE"

definition save_table :: "TableDef \<Rightarrow> nat \<Rightarrow> buf \<Rightarrow> buf" where
  "save_table def base b =
     (let b = put_bytes b base (pad IDX_NAME_SIZE (tbl_name def) @ le_bytes 4 (root_page_num def) @ le_bytes 4 (num_cols def));
          b = fold (\<lambda>c b. put_bytes b (column_pos base c) (column_bytes (columns def ! c))) [0..<num_cols def] b
      in put_bytes b (base + VTAB_BASE_OFFSET)
           ([if is_virtual def then 1 else 0] @ pad 64 (vtab_module def) @ pad 256 (vtab_args def) @
            le_bytes 4 (default_ttl def) @ [if with_history def then 1 else 0]))"

fun load_columns :: "buf \<Rightarrow> nat \<Rightarrow> nat list \<Rightarrow> Column list option" where
  "load_columns b base [] = Some []"
| "load_columns b base (c # cs) = do {
     col \<leftarrow> load_column b (column_pos base c);
     cols \<leftarrow> load_columns b base cs;
     Some (col # cols) }"

definition load_table :: "buf \<Rightarrow> nat \<Rightarrow> TableDef option" where
  "load_table b base = do {
     let n = rd 4 b (base + 132);
     cols \<leftarrow> load_columns b base [0..<if n > 16 then 0 else n];
     Some (tabledef_compute
       \<lparr>tbl_name = load_str b base IDX_NAME_SIZE, root_page_num = rd 4 b (base + 128), columns = cols,
        pk_cols = [], row_size = 0, col_offsets = [], is_virtual = (b (base + VTAB_BASE_OFFSET) = 1),
        vtab_module = load_str b (base + VTAB_BASE_OFFSET + 1) 64,
        vtab_args = load_str b (base + VTAB_BASE_OFFSET + 65) 256,
        default_ttl = rd 4 b (base + VTAB_BASE_OFFSET + 321),
        with_history = (b (base + VTAB_BASE_OFFSET + 325) = 1)\<rparr>) }"

section \<open>Views and triggers on disk\<close>

definition view_bytes :: "ViewDef \<Rightarrow> byte list" where
  "view_bytes v = pad TBL_NAME_SIZE (view_name v) @ pad 256 (select_sql v)"

definition trigger_bytes :: "TriggerDef \<Rightarrow> byte list" where
  "trigger_bytes t = pad TBL_NAME_SIZE (trigger_name t) @ pad TBL_NAME_SIZE (target_table t) @
     le_bytes 4 (timing_code (timing t)) @ le_bytes 4 (event_code (event t)) @ pad 256 (action_sql t)"

definition load_view :: "buf \<Rightarrow> nat \<Rightarrow> ViewDef" where
  "load_view b off = \<lparr>view_name = c_str (get_bytes b off TBL_NAME_SIZE), select_sql = c_str (get_bytes b (off + 64) 256)\<rparr>"

definition load_trigger :: "buf \<Rightarrow> nat \<Rightarrow> TriggerDef option" where
  "load_trigger b off = do {
     tm \<leftarrow> enum_of [TRIGGER_BEFORE, TRIGGER_AFTER] (rd 4 b (off + 128));
     ev \<leftarrow> enum_of [TRIGGER_INSERT, TRIGGER_UPDATE, TRIGGER_DELETE] (rd 4 b (off + 132));
     Some \<lparr>trigger_name = c_str (get_bytes b off TBL_NAME_SIZE),
           target_table = c_str (get_bytes b (off + 64) TBL_NAME_SIZE), timing = tm, event = ev,
           action_sql = c_str (get_bytes b (off + 136) 256)\<rparr> }"

fun load_triggers :: "buf \<Rightarrow> nat list \<Rightarrow> TriggerDef list option" where
  "load_triggers b [] = Some []"
| "load_triggers b (i # is) = do {
     t \<leftarrow> load_trigger b (8 + 4 * SIZEOF_VIEW + i * SIZEOF_TRIGGER);
     ts \<leftarrow> load_triggers b is;
     Some (t # ts) }"

text \<open>Page 15: the auto-vacuum byte is written last, at offset 500.\<close>

definition save_views_triggers :: "Catalog \<Rightarrow> bool \<Rightarrow> buf \<Rightarrow> buf" where
  "save_views_triggers cat auto_vac b =
     (let b = wr 4 b 0 (num_views cat);
          b = put_bytes b 4 (concat (map view_bytes (views cat)));
          b = wr 4 b (4 + 4 * SIZEOF_VIEW) (num_triggers cat);
          b = put_bytes b (8 + 4 * SIZEOF_VIEW) (concat (map trigger_bytes (triggers cat)))
      in put_bytes b 500 [if auto_vac then 1 else 0])"

definition load_views_triggers :: "buf \<Rightarrow> Catalog \<Rightarrow> Catalog option" where
  "load_views_triggers b cat = do {
     let nv = (if rd 4 b 0 > MAX_VIEWS then 0 else rd 4 b 0);
     let nt = (if rd 4 b (4 + 4 * SIZEOF_VIEW) > MAX_TRIGGERS then 0 else rd 4 b (4 + 4 * SIZEOF_VIEW));
     ts \<leftarrow> load_triggers b [0..<nt];
     Some (cat\<lparr>num_views := nv, views := map (\<lambda>i. load_view b (4 + i * SIZEOF_VIEW)) [0..<nv] @ drop nv (views cat),
               num_triggers := nt, triggers := ts @ drop nt (triggers cat)\<rparr>) }"

section \<open>Loading and saving\<close>

fun load_tables :: "nat list \<Rightarrow> Pager \<Rightarrow> (TableDef list \<times> Pager) option" where
  "load_tables [] pg = Some ([], pg)"
| "load_tables (t # ts) pg = do {
     (page, pg) \<leftarrow> read_page pg (table_page t);
     def \<leftarrow> load_table page (table_offset t);
     (defs, pg) \<leftarrow> load_tables ts pg;
     Some (def # defs, pg) }"

definition load_header :: "buf \<Rightarrow> Pager \<Rightarrow> Pager" where
  "load_header page0 pg =
     pg\<lparr>reserved_catalog_pages := 33, freelist_head := rd 4 page0 4092,
        wal_lsn := (if rd 8 page0 4084 > unat (wal_lsn pg) then of_nat (rd 8 page0 4084) else wal_lsn pg)\<rparr>"

definition catalog_load :: "Catalog \<Rightarrow> Pager \<Rightarrow> (Catalog \<times> Pager) option" where
  "catalog_load cat pg = do {
     (page0, pg) \<leftarrow> read_page pg 0;
     let num = rd 4 page0 0;
     (defs, pg) \<leftarrow> load_tables [0..<if num \<le> MAX_TABLES then num else 0] (load_header page0 pg);
     (vt, pg) \<leftarrow> read_page pg 15;
     cat \<leftarrow> load_views_triggers vt (cat\<lparr>tables := defs\<rparr>);
     Some (cat, pg\<lparr>auto_vacuum := (vt 500 = 1)\<rparr>) }"

text \<open>Writing through the pointer of \<open>get_page\<close> a content that depends on the pager as it is then.\<close>

definition update_with :: "Pager \<Rightarrow> nat \<Rightarrow> (Pager \<Rightarrow> buf \<Rightarrow> buf) \<Rightarrow> Pager option" where
  "update_with pg n f =
     get_page pg n \<bind> (\<lambda>(r, pg). r \<bind> (\<lambda>r. deref pg r \<bind> (\<lambda>b. Some (store pg r (f pg b)))))"

definition shadow_update :: "Pager \<Rightarrow> nat \<Rightarrow> (Pager \<Rightarrow> buf \<Rightarrow> buf) \<Rightarrow> Pager option" where
  "shadow_update pg n f = pager_shadow_page_write pg n \<bind> (\<lambda>pg. update_with pg n f)"

definition save_tables :: "TableDef list \<Rightarrow> Pager \<Rightarrow> Pager option" where
  "save_tables defs pg =
     fold_opt (\<lambda>t pg. shadow_update pg (table_page t) (\<lambda>_. save_table (defs ! t) (table_offset t))) [0..<length defs] pg"

text \<open>The number of tables, and at the end the freelist head and the LSN.\<close>

definition save_header :: "Pager \<Rightarrow> buf \<Rightarrow> buf" where
  "save_header pg b = wr 8 (wr 4 b 4092 (freelist_head pg)) 4084 (unat (wal_lsn pg))"

definition catalog_save :: "Catalog \<Rightarrow> Pager \<Rightarrow> Pager option" where
  "catalog_save cat pg =
     (if lock_error pg then Some pg
      else do {
        pg \<leftarrow> shadow_update (pg\<lparr>reserved_catalog_pages := 33\<rparr>) 0 (\<lambda>_ b. wr 4 b 0 (length (tables cat)));
        pg \<leftarrow> save_tables (tables cat) pg;
        pg \<leftarrow> shadow_update pg 15 (\<lambda>pg. save_views_triggers cat (auto_vacuum pg));
        pg \<leftarrow> update_with pg 0 save_header;
        Some (if use_wal pg then pg else flush_cached pg) })"

section \<open>Lookup\<close>

definition find_named :: "('a \<Rightarrow> cstr) \<Rightarrow> cstr \<Rightarrow> 'a list \<Rightarrow> 'a option" where
  "find_named nm name xs = find (\<lambda>x. strcmp (nm x) name = 0) xs"

definition catalog_find :: "Catalog \<Rightarrow> cstr \<Rightarrow> TableDef option" where
  "catalog_find cat name = find_named tbl_name name (tables cat)"

definition catalog_find_view :: "Catalog \<Rightarrow> cstr \<Rightarrow> ViewDef option" where
  "catalog_find_view cat name = find_named view_name name (take (num_views cat) (views cat))"

end
