(* ===== verification/Catalog_Codec.thy ===== *)
theory Catalog_Codec
  imports Catalog
begin

text \<open>
  The catalog's on-disk entries round trip, up to what the layout cuts: seven strings of a column are
  stored in 16 bytes whatever the size of their array, and the primary key columns of a table are
  not stored.  \<open>disk_column\<close> and \<open>disk_table\<close> are the definitions as they come back.
\<close>

section \<open>Strings and fields\<close>

definition char_ok :: "nat \<Rightarrow> cstr \<Rightarrow> bool" where
  "char_ok n s \<longleftrightarrow> 0 \<notin> set s \<and> length s < n"

lemma length_pad [simp]: "length (pad n s) = n"
  by (simp add: pad_def)

lemma c_str_all: "0 \<notin> set s \<Longrightarrow> c_str s = s"
  by (auto simp: c_str_def takeWhile_eq_all_conv)

lemma c_str_pad: "0 \<notin> set s \<Longrightarrow> k \<le> n \<Longrightarrow> c_str (take k (pad n s)) = take k s"
proof -
  assume a: "0 \<notin> set s" "k \<le> n"
  have "take k (pad n s) = take k s @ replicate (min (k - length s) n) 0"
    using a(2) by (simp add: pad_def min_absorb1)
  moreover have "takeWhile (\<lambda>c. c \<noteq> 0) (take k s @ replicate m 0) = take k s" for m
  proof -
    have "\<forall>c \<in> set (take k s). c \<noteq> 0" using a(1) by (metis in_set_takeD)
    then show ?thesis by (cases m) (simp_all add: takeWhile_append)
  qed
  ultimately show ?thesis by (simp add: c_str_def)
qed

lemma get_sub:
  assumes "get_bytes b off (length bs) = bs" "k + n \<le> length bs"
  shows "get_bytes b (off + k) n = take n (drop k bs)"
proof (rule nth_equalityI)
  fix i assume "i < length (get_bytes b (off + k) n)"
  then show "get_bytes b (off + k) n ! i = take n (drop k bs) ! i"
    using assms nth_get_bytes [of "k + i" "length bs" b off] by (simp add: add.assoc)
qed (use assms(2) in simp)

lemma rd_sub:
  "get_bytes b off (length bs) = bs \<Longrightarrow> k + n \<le> length bs \<Longrightarrow> rd n b (off + k) = le_val (take n (drop k bs))"
  by (simp add: rd_def get_sub)

lemma load_str_sub:
  "get_bytes b off (length bs) = bs \<Longrightarrow> k + (n - 1) \<le> length bs \<Longrightarrow> load_str b (off + k) n = c_str (take (n - 1) (drop k bs))"
  by (simp add: load_str_def get_sub)

text \<open>A string of the array's size comes back whole, a longer one cut.\<close>

lemma c_str_pad_less: "char_ok n s \<Longrightarrow> c_str (take (n - 1) (pad n s)) = s"
proof -
  assume "char_ok n s"
  then have "0 \<notin> set s" "length s \<le> n - 1" by (auto simp: char_ok_def)
  then show ?thesis using c_str_pad [of s "n - 1" n] by simp
qed

lemma c_str_pad_full: "char_ok n s \<Longrightarrow> c_str (pad n s) = s"
  using c_str_pad [of s n n] by (simp add: char_ok_def)

section \<open>Columns\<close>

definition column_ok :: "Column \<Rightarrow> bool" where
  "column_ok col \<longleftrightarrow> char_ok COL_NAME_SIZE (col_name col) \<and> char_ok 64 (default_val col) \<and>
     char_ok 64 (check_val col) \<and> char_ok TBL_NAME_SIZE (fk_target_table col) \<and>
     char_ok COL_NAME_SIZE (fk_target_col col) \<and> char_ok COL_NAME_SIZE (idx_where_col col) \<and>
     char_ok 64 (idx_where_val col) \<and> char_ok 32 (idx_expr_func col) \<and>
     col_size col < 2 ^ 32 \<and> index_root_page col < 2 ^ 32 \<and> check_op col < 2 ^ 32 \<and> idx_where_op col < 2 ^ 32"

definition disk_column :: "Column \<Rightarrow> Column" where
  "disk_column col = col\<lparr>default_val := take 15 (default_val col), check_val := take 15 (check_val col),
     fk_target_table := take 15 (fk_target_table col), fk_target_col := take 15 (fk_target_col col),
     idx_where_col := take 15 (idx_where_col col), idx_where_val := take 15 (idx_where_val col),
     idx_expr_func := take 15 (idx_expr_func col)\<rparr>"

lemma length_column_bytes [simp]: "length (column_bytes col) = 172"
  by (simp add: column_bytes_def)

lemma bits_less: "horner_sum of_bool 2 bs < (2 :: nat) ^ length bs"
  by (induction bs) (auto split: if_splits)

lemma column_flags_less: "column_flags col < 4294967296"
proof -
  have "column_flags col < 2 ^ 12" unfolding column_flags_def by (rule less_le_trans [OF bits_less]) simp
  then show ?thesis by simp
qed

lemma column_flags_bits:
  "bit (column_flags col) 0 = is_not_null col" "bit (column_flags col) 1 = is_unique col"
  "bit (column_flags col) 2 = has_default col" "bit (column_flags col) 3 = has_check col"
  "bit (column_flags col) 4 = has_fk col" "bit (column_flags col) 5 = is_autoincrement col"
  "bit (column_flags col) 8 = fk_on_delete_cascade col" "bit (column_flags col) 9 = fk_on_update_cascade col"
  "bit (column_flags col) 10 = idx_is_partial col" "bit (column_flags col) 11 = idx_is_expr col"
  unfolding column_flags_def bit_horner_sum_bit_iff by simp_all

lemma two_bits:
  "horner_sum of_bool 2 (xs @ p # q # ys) div 2 ^ length xs mod 4 = (of_bool p + 2 * of_bool q :: nat)"
proof -
  have "horner_sum of_bool 2 (xs @ p # q # ys) =
      horner_sum of_bool 2 xs + 2 ^ length xs * (of_bool p + 2 * of_bool q + 4 * horner_sum of_bool 2 ys :: nat)"
    by (simp add: horner_sum_append algebra_simps)
  moreover have "(of_bool p + 2 * of_bool q + 4 * (h :: nat)) mod 4 = of_bool p + 2 * of_bool q" for h
    by (simp only: mod_mult_self2) (cases p; cases q; simp)
  ultimately show ?thesis using bits_less [of xs] by simp
qed

lemma collation_flags: "collation_of (column_flags col div 64) = collation col"
proof -
  let ?xs = "[is_not_null col, is_unique col, has_default col, has_check col, has_fk col, is_autoincrement col]"
  have "column_flags col div 2 ^ length ?xs mod 4 =
      of_bool (odd (collation_code (collation col))) + 2 * of_bool (odd (collation_code (collation col) div 2))"
    using two_bits [of ?xs] by (simp only: column_flags_def append.simps)
  then show ?thesis by (cases "collation col") (simp_all add: collation_of_def)
qed

lemma enum_type_code [simp]: "enum_of column_types (type_code ty) = Some ty" "type_code ty < 4294967296"
  by (cases ty; simp add: enum_of_def column_types_def)+

lemma load_column_bytes:
  assumes "column_ok col" "get_bytes b off 172 = column_bytes col"
  shows "load_column b off = Some (disk_column col)"
proof -
  note g = assms(2) [folded length_column_bytes [of col]]
  note ok = assms(1) [unfolded column_ok_def]
  have nums: "rd 4 b (off + 32) = type_code (col_type col)" "rd 4 b (off + 36) = col_size col"
    "rd 4 b (off + 40) = (if has_index col then 1 else 0)" "rd 4 b (off + 44) = index_root_page col"
    "rd 4 b (off + 48) = column_flags col" "rd 4 b (off + 52) = check_op col" "rd 4 b (off + 136) = idx_where_op col"
    using ok column_flags_less [of col] by (simp_all add: rd_sub [OF g] column_bytes_def)
  have strs: "load_str b (off + 56) 16 = take 15 (default_val col)" "load_str b (off + 72) 16 = take 15 (check_val col)"
    "load_str b (off + 88) 16 = take 15 (fk_target_table col)" "load_str b (off + 104) 16 = take 15 (fk_target_col col)"
    "load_str b (off + 120) 16 = take 15 (idx_where_col col)" "load_str b (off + 140) 16 = take 15 (idx_where_val col)"
    "load_str b (off + 156) 16 = take 15 (idx_expr_func col)"
    using ok by (simp_all add: load_str_sub [OF g] column_bytes_def c_str_pad char_ok_def)
  have "load_str b (off + 0) 32 = col_name col"
    using ok c_str_pad_less [of 32 "col_name col"] by (subst load_str_sub [OF g]) (simp_all add: column_bytes_def)
  then show ?thesis
    using nums strs by (simp add: load_column_def disk_column_def column_flags_bits [unfolded One_nat_def] collation_flags)
qed

section \<open>Table entries\<close>

definition tabledef_ok :: "TableDef \<Rightarrow> bool" where
  "tabledef_ok def \<longleftrightarrow> char_ok IDX_NAME_SIZE (tbl_name def) \<and> root_page_num def < 2 ^ 32 \<and> num_cols def \<le> 16 \<and>
     (\<forall>col \<in> set (columns def). column_ok col) \<and> char_ok 64 (vtab_module def) \<and> char_ok 256 (vtab_args def) \<and>
     default_ttl def < 2 ^ 32"

definition disk_table :: "TableDef \<Rightarrow> TableDef" where
  "disk_table def = tabledef_compute (def\<lparr>columns := map disk_column (columns def), pk_cols := []\<rparr>)"

lemma save_columns:
  fixes cols :: "Column list" and base :: nat and b :: buf
  defines "fill \<equiv> \<lambda>n. fold (\<lambda>c b. put_bytes b (column_pos base c) (column_bytes (cols ! c))) [0..<n] b"
  shows "c < n \<Longrightarrow> get_bytes (fill n) (column_pos base c) 172 = column_bytes (cols ! c)"
    and "agree_outside (base + 136) (base + 136 + 200 * n) b (fill n)"
proof -
  have step: "fill (Suc n) = put_bytes (fill n) (column_pos base n) (column_bytes (cols ! n))" for n
    by (simp add: fill_def)
  show "agree_outside (base + 136) (base + 136 + 200 * n) b (fill n)"
  proof (induction n)
    case (Suc n)
    have "agree_outside (base + 136) (base + 136 + 200 * Suc n) (fill n) (fill (Suc n))"
      unfolding step by (rule agree_outside_put) (simp_all add: column_pos_def)
    moreover have "agree_outside (base + 136) (base + 136 + 200 * Suc n) b (fill n)"
      using Suc by (rule agree_outside_mono) simp_all
    ultimately show ?case by (rule agree_outside_trans [rotated])
  qed (simp add: fill_def)
  show "c < n \<Longrightarrow> get_bytes (fill n) (column_pos base c) 172 = column_bytes (cols ! c)"
  proof (induction n)
    case (Suc n)
    show ?case
    proof (cases "c = n")
      case True
      then show ?thesis unfolding step by (simp add: get_put_same)
    next
      case False
      then have "get_bytes (fill (Suc n)) (column_pos base c) 172 = get_bytes (fill n) (column_pos base c) 172"
        unfolding step using Suc.prems by (intro get_put_disjoint) (simp add: column_pos_def)
      then show ?thesis using Suc False by simp
    qed
  qed simp
qed

lemma load_columns_ok:
  "\<forall>c \<in> set cs. load_column b (column_pos base c) = Some (f c) \<Longrightarrow> load_columns b base cs = Some (map f cs)"
  by (induction cs) auto

lemma get_agree: "agree_outside lo hi b b' \<Longrightarrow> get_bytes b off n = bs \<Longrightarrow> off + n \<le> lo \<or> hi \<le> off \<Longrightarrow> get_bytes b' off n = bs"
  by (simp add: get_bytes_agree)

lemma save_table_parts:
  fixes def base b
  assumes "num_cols def \<le> 16"
  defines "b' \<equiv> save_table def base b"
  shows "get_bytes b' base 136 = pad 128 (tbl_name def) @ le_bytes 4 (root_page_num def) @ le_bytes 4 (num_cols def)"
    and "c < num_cols def \<Longrightarrow> get_bytes b' (column_pos base c) 172 = column_bytes (columns def ! c)"
    and "get_bytes b' (base + 3336) 326 = [if is_virtual def then 1 else 0] @ pad 64 (vtab_module def) @
           pad 256 (vtab_args def) @ le_bytes 4 (default_ttl def) @ [if with_history def then 1 else 0]"
    and "agree_outside base (base + 3662) b b'"
proof -
  define h where "h = pad 128 (tbl_name def) @ le_bytes 4 (root_page_num def) @ le_bytes 4 (num_cols def)"
  define t where "t = [if is_virtual def then 1 else 0 :: byte] @ pad 64 (vtab_module def) @
           pad 256 (vtab_args def) @ le_bytes 4 (default_ttl def) @ [if with_history def then 1 else 0]"
  have len: "length h = 136" "length t = 326" by (simp_all add: h_def t_def)
  define b1 where "b1 = put_bytes b base h"
  define b2 where "b2 = fold (\<lambda>c b. put_bytes b (column_pos base c) (column_bytes (columns def ! c))) [0..<num_cols def] b1"
  have b': "b' = put_bytes b2 (base + 3336) t" by (simp add: b'_def save_table_def b1_def b2_def h_def t_def Let_def)
  note sc = save_columns [where n = "num_cols def" and base = base and cols = "columns def" and b = b1, folded b2_def]
  show "get_bytes b' (base + 3336) 326 = [if is_virtual def then 1 else 0] @ pad 64 (vtab_module def) @
           pad 256 (vtab_args def) @ le_bytes 4 (default_ttl def) @ [if with_history def then 1 else 0]"
    unfolding b' t_def [symmetric] using len by simp
  have "get_bytes b2 base 136 = h"
    by (rule get_agree [OF sc(2)]) (simp_all add: b1_def len)
  then show "get_bytes b' base 136 = pad 128 (tbl_name def) @ le_bytes 4 (root_page_num def) @ le_bytes 4 (num_cols def)"
    unfolding b' h_def [symmetric] by (subst get_put_disjoint) (simp_all add: len)
  show "get_bytes b' (column_pos base c) 172 = column_bytes (columns def ! c)" if "c < num_cols def"
    unfolding b' using sc(1) [OF that] assms(1) that by (subst get_put_disjoint) (simp_all add: column_pos_def)
  have "agree_outside base (base + 3662) b b1" unfolding b1_def by (rule agree_outside_put) (simp_all add: len)
  moreover have "agree_outside base (base + 3662) b1 b2" by (rule agree_outside_mono [OF sc(2)]) (use assms(1) in simp_all)
  moreover have "agree_outside base (base + 3662) b2 b'" unfolding b' by (rule agree_outside_put) (simp_all add: len)
  ultimately show "agree_outside base (base + 3662) b b'" by (rule agree_outside_trans [OF agree_outside_trans])
qed

lemma load_saved_table:
  assumes "tabledef_ok def" "\<And>i. base \<le> i \<Longrightarrow> i < base + 3662 \<Longrightarrow> b' i = save_table def base b i"
  shows "load_table b' base = Some (disk_table def)"
proof -
  note ok = assms(1) [unfolded tabledef_ok_def]
  have n: "num_cols def \<le> 16" using ok by simp
  have same: "get_bytes b' off n = get_bytes (save_table def base b) off n" if "base \<le> off" "off + n \<le> base + 3662" for off n
    using that assms(2) by (intro get_bytes_cong) simp
  note p = save_table_parts [where base = base and b = b, OF n]
  have h: "get_bytes b' base (length (pad 128 (tbl_name def) @ le_bytes 4 (root_page_num def) @ le_bytes 4 (num_cols def))) =
      pad 128 (tbl_name def) @ le_bytes 4 (root_page_num def) @ le_bytes 4 (num_cols def)"
    using p(1) same [of base 136] by simp
  have t: "get_bytes b' (base + 3336) (length ([if is_virtual def then 1 else 0] @ pad 64 (vtab_module def) @
           pad 256 (vtab_args def) @ le_bytes 4 (default_ttl def) @ [if with_history def then 1 else 0])) =
      [if is_virtual def then 1 else 0] @ pad 64 (vtab_module def) @
           pad 256 (vtab_args def) @ le_bytes 4 (default_ttl def) @ [if with_history def then 1 else 0]"
    using p(3) same [of "base + 3336" 326] by simp
  have hd: "rd 4 b' (base + 128) = root_page_num def" "rd 4 b' (base + 132) = num_cols def"
    "load_str b' base 128 = tbl_name def"
    using ok rd_sub [OF h, of 128 4] rd_sub [OF h, of 132 4] load_str_sub [OF h, of 0 128] c_str_pad_less [of 128 "tbl_name def"]
    by simp_all
  have tl: "load_str b' (base + 3336 + 1) 64 = vtab_module def" "load_str b' (base + 3336 + 65) 256 = vtab_args def"
    "rd 4 b' (base + 3336 + 321) = default_ttl def"
    using ok load_str_sub [OF t, of 1 64] load_str_sub [OF t, of 65 256] rd_sub [OF t, of 321 4]
      c_str_pad_less [of 64 "vtab_module def"] c_str_pad_less [of 256 "vtab_args def"]
    by simp_all
  have tb: "b' (base + 3336 + k) = ([if is_virtual def then 1 else 0] @ pad 64 (vtab_module def) @
           pad 256 (vtab_args def) @ le_bytes 4 (default_ttl def) @ [if with_history def then 1 else 0]) ! k" if "k < 326" for k
    using nth_get_bytes [OF that, of b' "base + 3336"] t by (simp del: nth_get_bytes)
  have bytes: "b' (base + 3336) = (if is_virtual def then 1 else 0)" "b' (base + 3336 + 325) = (if with_history def then 1 else 0)"
    using tb [of 0] tb [of 325] by (simp_all add: nth_append)
  have "load_column b' (column_pos base c) = Some (disk_column (columns def ! c))" if "c < num_cols def" for c
  proof (rule load_column_bytes)
    show "get_bytes b' (column_pos base c) 172 = column_bytes (columns def ! c)"
      using p(2) [OF that] same [of "column_pos base c" 172] that n by (simp add: column_pos_def)
  qed (use ok that in simp)
  then have "load_columns b' base [0..<num_cols def] = Some (map (\<lambda>c. disk_column (columns def ! c)) [0..<num_cols def])"
    by (intro load_columns_ok) simp
  moreover have "map (\<lambda>c. disk_column (columns def ! c)) [0..<num_cols def] = map disk_column (columns def)"
    by (rule nth_equalityI) simp_all
  ultimately show ?thesis
    using hd tl bytes n by (simp add: load_table_def disk_table_def tabledef_compute_def split: prod.split)
qed

section \<open>Views and triggers\<close>

definition view_ok :: "ViewDef \<Rightarrow> bool" where
  "view_ok v \<longleftrightarrow> char_ok TBL_NAME_SIZE (view_name v) \<and> char_ok 256 (select_sql v)"

definition trigger_ok :: "TriggerDef \<Rightarrow> bool" where
  "trigger_ok t \<longleftrightarrow> char_ok TBL_NAME_SIZE (trigger_name t) \<and> char_ok TBL_NAME_SIZE (target_table t) \<and> char_ok 256 (action_sql t)"

definition catalog_ok :: "Catalog \<Rightarrow> bool" where
  "catalog_ok cat \<longleftrightarrow> length (tables cat) \<le> MAX_TABLES \<and> (\<forall>def \<in> set (tables cat). tabledef_ok def) \<and>
     length (views cat) = MAX_VIEWS \<and> num_views cat \<le> MAX_VIEWS \<and> (\<forall>v \<in> set (views cat). view_ok v) \<and>
     length (triggers cat) = MAX_TRIGGERS \<and> num_triggers cat \<le> MAX_TRIGGERS \<and> (\<forall>t \<in> set (triggers cat). trigger_ok t)"

text \<open>The auto-vacuum byte is character 112 of the second view's statement: what that statement comes
  back as.\<close>

definition stamped_sql :: "bool \<Rightarrow> cstr \<Rightarrow> cstr" where
  "stamped_sql av sql =
     (if length sql < 112 then sql else if av then take 112 sql @ 1 # drop 113 sql else take 112 sql)"

definition disk_view :: "bool \<Rightarrow> nat \<Rightarrow> ViewDef \<Rightarrow> ViewDef" where
  "disk_view av i v = (if i = 1 then v\<lparr>select_sql := stamped_sql av (select_sql v)\<rparr> else v)"

lemma stamped_text:
  assumes "char_ok 256 sql"
  shows "c_str ((pad 256 sql)[112 := if av then 1 else 0]) = stamped_sql av sql"
proof -
  have nz: "\<forall>c \<in> set sql. c \<noteq> 0" "length sql < 256" using assms by (auto simp: char_ok_def)
  have a: "takeWhile (\<lambda>c. c \<noteq> 0) (take k sql @ ys) = take k sql @ takeWhile (\<lambda>c. c \<noteq> 0) ys" for k ys
    by (rule takeWhile_append2) (use nz(1) in \<open>auto dest: in_set_takeD\<close>)
  show ?thesis
  proof (cases "length sql < 112")
    case True
    then have "(pad 256 sql)[112 := x] = take (length sql) sql @ replicate (Suc (111 - length sql)) 0 @ x # replicate 143 0" for x
      by (intro nth_equalityI) (auto simp: pad_def nth_list_update nth_append nth_Cons')
    then show ?thesis using True a [of "length sql"] by (simp add: c_str_def stamped_sql_def)
  next
    case False
    then have eq: "(pad 256 sql)[112 := x] = take 112 sql @ x # drop 113 sql @ replicate (if length sql = 112 then 143 else 256 - length sql) 0" for x
      using nz(2) by (intro nth_equalityI) (auto simp: pad_def nth_list_update nth_append nth_Cons' min_def)
    have b: "takeWhile (\<lambda>c. c \<noteq> 0) (drop 113 sql @ replicate m 0) = drop 113 sql" for m
      using nz(1) by (subst takeWhile_append2) (auto dest: in_set_dropD simp: takeWhile_eq_Nil_iff hd_replicate)
    show ?thesis using False unfolding eq c_str_def a by (simp add: b stamped_sql_def)
  qed
qed

lemma chunk_of_concat:
  "\<forall>x \<in> set xss. length x = n \<Longrightarrow> i < length xss \<Longrightarrow> take n (drop (i * n) (concat xss)) = xss ! i"
proof (induction xss arbitrary: i)
  case (Cons x xss)
  then show ?case by (cases i) auto
qed simp

lemma length_concat_chunks: "\<forall>x \<in> set xss. length x = n \<Longrightarrow> length (concat xss) = length xss * n"
  by (induction xss) auto

lemma length_view_bytes [simp]: "length (view_bytes v) = 320" "length (trigger_bytes t) = 392"
  by (simp_all add: view_bytes_def trigger_bytes_def)

lemma load_trigger_bytes:
  assumes "trigger_ok t" "get_bytes b off 392 = trigger_bytes t"
  shows "load_trigger b off = Some t"
proof -
  note g = assms(2) [folded length_view_bytes(2) [of t]]
  have c: "timing_code (timing t) < 4294967296" "event_code (event t) < 4294967296"
    by (rule TriggerTiming.exhaust [of "timing t"]; simp) (rule TriggerEvent.exhaust [of "event t"]; simp)
  then have nums: "rd 4 b (off + 128) = timing_code (timing t)" "rd 4 b (off + 132) = event_code (event t)"
    by (simp_all add: rd_sub [OF g] trigger_bytes_def)
  have "get_bytes b off 64 = pad 64 (trigger_name t)" "get_bytes b (off + 64) 64 = pad 64 (target_table t)"
    "get_bytes b (off + 136) 256 = pad 256 (action_sql t)"
    using get_sub [OF g, of 0 64] get_sub [OF g, of 64 64] get_sub [OF g, of 136 256] by (simp_all add: trigger_bytes_def)
  then have "load_trigger b off = Some \<lparr>trigger_name = trigger_name t, target_table = target_table t, timing = timing t,
      event = event t, action_sql = action_sql t\<rparr>"
    using nums assms(1) by (cases "timing t"; cases "event t") (simp_all add: load_trigger_def enum_of_def trigger_ok_def c_str_pad_full)
  then show ?thesis by simp
qed

lemma load_triggers_ok:
  "\<forall>i \<in> set is. load_trigger b (8 + 4 * SIZEOF_VIEW + i * SIZEOF_TRIGGER) = Some (f i) \<Longrightarrow> load_triggers b is = Some (map f is)"
  by (induction "is") auto

lemma get_put_byte:
  "off \<le> k \<Longrightarrow> k < off + n \<Longrightarrow> get_bytes (put_bytes b k [x]) off n = (get_bytes b off n)[k - off := x]"
  by (rule nth_equalityI) (auto simp: put_bytes_def nth_list_update)

lemma save_views_parts:
  fixes cat av b
  assumes "length (views cat) = 4" "length (triggers cat) = 4" "num_views cat < 2 ^ 32" "num_triggers cat < 2 ^ 32"
  defines "b' \<equiv> save_views_triggers cat av b"
  shows "rd 4 b' 0 = num_views cat" "rd 4 b' 1284 = num_triggers cat" "b' 500 = (if av then 1 else 0)"
    and "i < 4 \<Longrightarrow> get_bytes b' (4 + i * 320) 64 = pad 64 (view_name (views cat ! i))"
    and "i < 4 \<Longrightarrow> get_bytes b' (4 + i * 320 + 64) 256 =
      (if i = 1 then (pad 256 (select_sql (views cat ! i)))[112 := if av then 1 else 0] else pad 256 (select_sql (views cat ! i)))"
    and "i < 4 \<Longrightarrow> get_bytes b' (1288 + i * 392) 392 = trigger_bytes (triggers cat ! i)"
    and "agree_outside 0 2856 b b'"
proof -
  define vs where "vs = concat (map view_bytes (views cat))"
  define ts where "ts = concat (map trigger_bytes (triggers cat))"
  have len: "length vs = 1280" "length ts = 1568"
    using assms(1,2) by (simp_all add: vs_def ts_def length_concat_chunks [where n = 320] length_concat_chunks [where n = 392])
  define b2 where "b2 = put_bytes (wr 4 b 0 (num_views cat)) 4 vs"
  define b4 where "b4 = put_bytes (wr 4 b2 1284 (num_triggers cat)) 1288 ts"
  have b': "b' = put_bytes b4 500 [if av then 1 else 0]"
    by (simp add: b'_def save_views_triggers_def b2_def b4_def vs_def ts_def Let_def)
  show "rd 4 b' 0 = num_views cat" "rd 4 b' 1284 = num_triggers cat" "b' 500 = (if av then 1 else 0)"
    using assms(3,4) by (simp_all add: b' b4_def b2_def buf_simps len put_bytes_inside)
  have v: "get_bytes b4 4 (length vs) = vs" by (simp add: b4_def b2_def buf_simps len)
  have t: "get_bytes b4 1288 (length ts) = ts" by (simp add: b4_def len)
  show "get_bytes b' (1288 + i * 392) 392 = trigger_bytes (triggers cat ! i)" if "i < 4"
    using that get_sub [OF t, of "i * 392" 392] chunk_of_concat [of "map trigger_bytes (triggers cat)" 392 i, folded ts_def] assms(2)
    by (simp add: b' get_put_disjoint len)
  have vi: "take 320 (drop (i * 320) vs) = view_bytes (views cat ! i)" if "i < 4"
    using that chunk_of_concat [of "map view_bytes (views cat)" 320 i] assms(1) by (simp add: vs_def)
  have parts: "take n (drop (i * 320 + k) vs) = take n (drop k (view_bytes (views cat ! i)))" if "i < 4" "k + n \<le> 320" for k n
    using that(2) unfolding vi [OF that(1), symmetric] by (simp add: drop_take add.commute min_absorb1)
  have name: "get_bytes b4 (4 + i * 320) 64 = pad 64 (view_name (views cat ! i))" if "i < 4"
    using that get_sub [OF v, of "i * 320" 64] parts [OF that, of 0 64] by (simp add: len view_bytes_def)
  have sql: "get_bytes b4 (4 + i * 320 + 64) 256 = pad 256 (select_sql (views cat ! i))" if "i < 4"
    using that get_sub [OF v, of "i * 320 + 64" 256] parts [OF that, of 64 256] by (simp add: len view_bytes_def add.assoc)
  show "get_bytes b' (4 + i * 320) 64 = pad 64 (view_name (views cat ! i))" if "i < 4"
  proof -
    have "4 + i * 320 + 64 \<le> 500 \<or> 501 \<le> 4 + i * 320" by (cases "i \<le> 1") simp_all
    then show ?thesis unfolding b' using name [OF that] by (subst get_put_disjoint) auto
  qed
  show "get_bytes b' (4 + i * 320 + 64) 256 =
      (if i = 1 then (pad 256 (select_sql (views cat ! i)))[112 := if av then 1 else 0] else pad 256 (select_sql (views cat ! i)))" if "i < 4"
  proof (cases "i = 1")
    case True
    then show ?thesis using sql [OF that] by (simp add: b' get_put_byte)
  next
    case False
    then have "4 + i * 320 + 64 + 256 \<le> 500 \<or> 501 \<le> 4 + i * 320 + 64" using that by auto
    then have "get_bytes b' (4 + i * 320 + 64) 256 = get_bytes b4 (4 + i * 320 + 64) 256"
      unfolding b' by (intro get_put_disjoint) auto
    then show ?thesis using False sql [OF that] by simp
  qed
  have "agree_outside 0 2856 b (wr 4 b 0 (num_views cat))" "agree_outside 0 2856 (wr 4 b 0 (num_views cat)) b2"
    "agree_outside 0 2856 b2 (wr 4 b2 1284 (num_triggers cat))" "agree_outside 0 2856 (wr 4 b2 1284 (num_triggers cat)) b4"
    "agree_outside 0 2856 b4 b'"
    by (auto simp: b2_def b4_def b' len intro!: agree_outside_put agree_outside_wr)
  then show "agree_outside 0 2856 b b'" by (blast intro: agree_outside_trans)
qed

lemma load_saved_views:
  assumes "catalog_ok cat" "\<And>i. i < 2856 \<Longrightarrow> b' i = save_views_triggers cat av b i"
  shows "load_views_triggers b' cat0 = Some (cat0\<lparr>num_views := num_views cat,
      views := map (\<lambda>i. disk_view av i (views cat ! i)) [0..<num_views cat] @ drop (num_views cat) (views cat0),
      num_triggers := num_triggers cat,
      triggers := take (num_triggers cat) (triggers cat) @ drop (num_triggers cat) (triggers cat0)\<rparr>)"
    and "b' 500 = (if av then 1 else 0)"
proof -
  note ok = assms(1) [unfolded catalog_ok_def]
  have same: "get_bytes b' off n = get_bytes (save_views_triggers cat av b) off n" if "off + n \<le> 2856" for off n
    using that assms(2) by (intro get_bytes_cong) simp
  have lens: "length (views cat) = 4" "length (triggers cat) = 4" "num_views cat < 2 ^ 32" "num_triggers cat < 2 ^ 32" using ok by simp_all
  note p = save_views_parts [OF lens, where b = b and av = av]
  show "b' 500 = (if av then 1 else 0)" using p(3) assms(2) [of 500] by simp
  have nums: "rd 4 b' 0 = num_views cat" "rd 4 b' 1284 = num_triggers cat"
    using p(1,2) same [of 0 4] same [of 1284 4] by (simp_all add: rd_def)
  have v: "load_view b' (4 + i * 320) = disk_view av i (views cat ! i)" if "i < num_views cat" for i
  proof -
    have i: "i < 4" "view_ok (views cat ! i)" using that ok by simp_all
    have "get_bytes b' (4 + i * 320) 64 = pad 64 (view_name (views cat ! i))"
      "get_bytes b' (4 + i * 320 + 64) 256 = (if i = 1 then (pad 256 (select_sql (views cat ! i)))[112 := if av then 1 else 0]
         else pad 256 (select_sql (views cat ! i)))"
      using p(4,5) [OF i(1)] same [of "4 + i * 320" 64] same [of "4 + i * 320 + 64" 256] i(1) by simp_all
    then show ?thesis using i(2) stamped_text [of "select_sql (views cat ! i)" av]
      by (cases "i = 1") (simp_all add: load_view_def disk_view_def view_ok_def c_str_pad_full)
  qed
  have "load_trigger b' (8 + 4 * 320 + i * 392) = Some (triggers cat ! i)" if "i < num_triggers cat" for i
  proof (rule load_trigger_bytes)
    show "trigger_ok (triggers cat ! i)" using that ok by simp
    show "get_bytes b' (8 + 4 * 320 + i * 392) 392 = trigger_bytes (triggers cat ! i)"
      using p(6) [of i] same [of "1288 + i * 392" 392] that ok by simp
  qed
  then have "load_triggers b' [0..<num_triggers cat] = Some (map (\<lambda>i. triggers cat ! i) [0..<num_triggers cat])"
    by (intro load_triggers_ok) simp
  moreover have "map (\<lambda>i. triggers cat ! i) [0..<num_triggers cat] = take (num_triggers cat) (triggers cat)"
    using ok by (intro nth_equalityI) simp_all
  moreover have "map (\<lambda>i. load_view b' (4 + i * 320)) [0..<num_views cat] = map (\<lambda>i. disk_view av i (views cat ! i)) [0..<num_views cat]"
    using v by simp
  ultimately show "load_views_triggers b' cat0 = Some (cat0\<lparr>num_views := num_views cat,
      views := map (\<lambda>i. disk_view av i (views cat ! i)) [0..<num_views cat] @ drop (num_views cat) (views cat0),
      num_triggers := num_triggers cat,
      triggers := take (num_triggers cat) (triggers cat) @ drop (num_triggers cat) (triggers cat0)\<rparr>)"
    using nums ok by (simp add: load_views_triggers_def Let_def)
qed

end
