(* ===== verification/Catalog_Store.thy ===== *)
theory Catalog_Store
  imports Catalog_Codec Btree_Sample
begin

text \<open>
  Saving and loading the catalog through the pager, inside a transaction: what \<open>catalog_save\<close> puts
  into the pages comes back from \<open>catalog_load\<close>, and what it does to the database file on the way.
\<close>

section \<open>Fields that reading and shadowing leave alone\<close>

definition meta :: "Pager \<Rightarrow> bool \<times> 64 word \<times> nat \<times> os_file option" where
  "meta pg = (auto_vacuum pg, wal_lsn pg, freelist_head pg, journal (os pg))"

lemma get_page_meta:
  assumes "settled pg" "file_mode pg" "get_page pg n = Some (r, p)"
  shows "meta p = meta pg"
proof -
  define p0 where "p0 = pg\<lparr>lock_error := False\<rparr>"
  have lk: "lock_retry 50 SHARED_LOCK pg = (True, pg)"
    using assms(1) by (intro lock_retry_held) (simp_all add: settled_def)
  have rf: "pager_refresh_if_modified p0 = p0"
    using assms(1) by (simp add: pager_refresh_if_modified_def p0_def settled_def)
  obtain p1 where p1: "resize_pages p0 n = Some p1"
    "p = (case pages p1 n of None \<Rightarrow> p1\<lparr>disk_reads := disk_reads p1 + 1,
                           pages := (pages p1)(n := Some (load_page p1 n)),
                           num_pages := (if n \<ge> num_pages p1 then n + 1 else num_pages p1)\<rparr>
                       | Some _ \<Rightarrow> p1\<lparr>cache_hits := cache_hits p1 + 1\<rparr>)"
    using assms(2,3) lk rf
    by (cases "resize_pages p0 n") (simp_all add: get_page_def p0_def [symmetric] Let_def file_mode_def)
  have "meta p1 = meta p0"
  proof (cases "n < max_pages p0")
    case False
    then obtain m x y where "p1 = p0\<lparr>max_pages := m, pages := (\<lambda>i. if max_pages p0 \<le> i \<and> i < m then None else pages p0 i),
        page_is_journaled := x, is_dirty := y\<rparr>" using p1(1) by (auto simp: resize_pages_def Let_def)
    then show ?thesis by (simp add: meta_def)
  qed (use p1(1) in \<open>simp add: resize_pages_def\<close>)
  moreover have "meta p0 = meta pg" by (simp add: meta_def p0_def)
  moreover have "meta p = meta p1" unfolding p1(2) by (cases "pages p1 n") (simp_all add: meta_def)
  ultimately show ?thesis by simp
qed

lemma shadow_write_meta:
  assumes "writing pg" "n < MAX_PAGES" "pager_shadow_page_write pg n = Some p"
  shows "meta p = meta pg"
proof -
  define q where "q = grow_shadow (mark_dirty pg n) n"
  have q: "meta q = meta pg" by (simp add: q_def grow_shadow_def mark_dirty_def meta_def Let_def)
  have r: "settled q" "file_mode q"
    using writing_reading [OF prepare_shadow(1) [OF assms(1,2)], folded q_def] by (simp_all add: reading_def)
  have "pager_shadow_page_write pg n = make_shadow q n"
    using assms(1) by (simp add: pager_shadow_page_write_def writing_lock [OF assms(1)] q_def) (simp add: writing_def)
  then have eq: "make_shadow q n = Some p" using assms(3) by simp
  show ?thesis
  proof (cases "is_shadowed q n")
    case True
    then show ?thesis using eq q by (simp add: make_shadow_def)
  next
    case False
    define base where "base = (if n < max_pages q then pages q n else None)"
    have "\<exists>b p'. p = p'\<lparr>shadow_pages := (shadow_pages p')(n := b), is_shadowed := (is_shadowed p')(n := True)\<rparr> \<and>
        (p' = q \<or> (\<exists>r. get_page q n = Some (r, p')))"
    proof (cases base)
      case (Some b)
      then have "p = q\<lparr>shadow_pages := (shadow_pages q)(n := Some b), is_shadowed := (is_shadowed q)(n := True)\<rparr>"
        using eq False by (simp add: make_shadow_def base_def [symmetric])
      then show ?thesis by blast
    next
      case None
      then obtain r p' where g: "get_page q n = Some (r, p')"
        using eq False by (cases "get_page q n") (auto simp: make_shadow_def base_def [symmetric])
      then have "\<exists>b. p = p'\<lparr>shadow_pages := (shadow_pages p')(n := b), is_shadowed := (is_shadowed p')(n := True)\<rparr>"
        using eq False None by (simp add: make_shadow_def base_def [symmetric]) blast
      then show ?thesis using g by blast
    qed
    then obtain b p' where pp: "p = p'\<lparr>shadow_pages := (shadow_pages p')(n := b), is_shadowed := (is_shadowed p')(n := True)\<rparr>"
      and p': "p' = q \<or> (\<exists>r. get_page q n = Some (r, p'))" by blast
    from pp have "meta p = meta p'" by (simp add: meta_def)
    moreover have "meta p' = meta q" using p' get_page_meta [OF r] by auto
    ultimately show ?thesis using q by simp
  qed
qed

section \<open>One page\<close>

lemma store_meta [simp]: "meta (store pg r b) = meta pg"
  by (cases r) (simp_all add: meta_def)

lemma update_with_ok:
  assumes "writing pg" "n < MAX_PAGES" "page_ok (f (view pg n))" "\<And>p. meta p = meta pg \<Longrightarrow> g p = f"
  obtains p where "update_with pg n g = Some p" "writing p" "view p = (view pg)(n := f (view pg n))" "meta p = meta pg" "loaded p n"
    "\<forall>m. loaded pg m \<longrightarrow> loaded p m"
proof -
  obtain p where p: "update_page pg n f = Some p" "evolves pg {} (Suc n) p ((view pg)(n := f (view pg n)))" "loaded p n"
    by (rule update_page_ok [where f = f, OF assms(1-3)])
  then obtain r q b where q: "get_page pg n = Some (Some r, q)" "deref q r = Some b" "p = store q r (f b)"
    by (auto simp: update_page_def bind_eq_Some)
  have m: "meta q = meta pg"
    using get_page_meta [OF _ _ q(1)] writing_reading [OF assms(1)] by (simp add: reading_def)
  then have "update_with pg n g = Some p" "meta p = meta pg"
    using q assms(4) [OF m] by (simp_all add: update_with_def)
  then show ?thesis using that p evolvesD(1-3) [OF p(2)] by simp
qed

lemma shadow_update_ok:
  assumes "writing pg" "n < MAX_PAGES" "page_ok (f (view pg n))" "\<And>p. meta p = meta pg \<Longrightarrow> g p = f"
  obtains p where "shadow_update pg n g = Some p" "writing p" "view p = (view pg)(n := f (view pg n))" "meta p = meta pg" "loaded p n"
proof -
  obtain q where q: "pager_shadow_page_write pg n = Some q" "evolves pg {n} (Suc n) q (view pg)"
    by (rule shadow_write_ok [OF assms(1,2)])
  have m: "meta q = meta pg" by (rule shadow_write_meta [OF assms(1,2) q(1)])
  note e = evolvesD(1,2) [OF q(2)]
  obtain p where "update_with q n g = Some p" "writing p" "view p = (view q)(n := f (view q n))" "meta p = meta q" "loaded p n"
    by (rule update_with_ok [where f = f and g = g, OF e(1) assms(2)]) (use assms(3,4) e(2) m in auto)
  then show ?thesis using that q(1) e(2) m by (simp add: shadow_update_def)
qed

section \<open>Saving\<close>

lemma table_page_simps [simp]:
  "table_page t = 0 \<longleftrightarrow> t = 0" "table_page t \<noteq> 15" "table_page s = table_page t \<longleftrightarrow> s = t" "0 = table_page t \<longleftrightarrow> t = 0"
  by (auto simp: table_page_def)

definition entries :: "TableDef list \<Rightarrow> nat \<Rightarrow> pages \<Rightarrow> bool" where
  "entries defs m V \<longleftrightarrow> (\<forall>t < m. \<exists>b. \<forall>i. table_offset t \<le> i \<and> i < table_offset t + 3662 \<longrightarrow>
     V (table_page t) i = save_table (defs ! t) (table_offset t) b i)"

lemma entries_cong:
  assumes "entries defs m V" "\<And>n. 0 < n \<Longrightarrow> n \<noteq> 15 \<Longrightarrow> W n = V n" "\<And>i. 4 \<le> i \<Longrightarrow> i < 3666 \<Longrightarrow> W 0 i = V 0 i"
  shows "entries defs m W"
  unfolding entries_def
proof (intro allI impI)
  fix t assume "t < m"
  then obtain b where b: "\<And>i. table_offset t \<le> i \<Longrightarrow> i < table_offset t + 3662 \<Longrightarrow>
      V (table_page t) i = save_table (defs ! t) (table_offset t) b i" using assms(1) by (auto simp: entries_def)
  have "W (table_page t) i = V (table_page t) i" if "table_offset t \<le> i" "i < table_offset t + 3662" for i
  proof (cases "t = 0")
    case True
    then show ?thesis using that assms(3) by (simp add: table_page_def table_offset_def)
  next
    case False
    then have "0 < table_page t" by (metis gr0I table_page_simps(1))
    then show ?thesis using assms(2) [of "table_page t"] by simp
  qed
  then show "\<exists>b. \<forall>i. table_offset t \<le> i \<and> i < table_offset t + 3662 \<longrightarrow>
      W (table_page t) i = save_table (defs ! t) (table_offset t) b i" using b by auto
qed

lemma save_tables_ok:
  assumes "writing pg" "\<forall>def \<in> set defs. tabledef_ok def" "length defs \<le> MAX_TABLES" "m \<le> length defs"
  shows "\<exists>p. fold_opt (\<lambda>t pg. shadow_update pg (table_page t) (\<lambda>_. save_table (defs ! t) (table_offset t))) [0..<m] pg = Some p \<and>
    writing p \<and> meta p = meta pg \<and> entries defs m (view p) \<and>
    (\<forall>n. n \<notin> table_page ` {..<m} \<longrightarrow> view p n = view pg n) \<and> agree_outside 4 3666 (view pg 0) (view p 0)"
  using assms(4)
proof (induction m)
  case 0
  then show ?case using assms(1) by (simp add: entries_def)
next
  case (Suc m)
  then obtain q where q: "fold_opt (\<lambda>t pg. shadow_update pg (table_page t) (\<lambda>_. save_table (defs ! t) (table_offset t))) [0..<m] pg = Some q"
    "writing q" "meta q = meta pg" "entries defs m (view q)" "\<forall>n. n \<notin> table_page ` {..<m} \<longrightarrow> view q n = view pg n"
    "agree_outside 4 3666 (view pg 0) (view q 0)" by (meson Suc_leD)
  let ?f = "save_table (defs ! m) (table_offset m)"
  have ok: "tabledef_ok (defs ! m)" using Suc.prems assms(2) by simp
  then have part: "agree_outside (table_offset m) (table_offset m + 3662) b (?f b)" for b
    using ok by (intro save_table_parts(4)) (simp add: tabledef_ok_def)
  have "page_ok (?f (view q (table_page m)))"
    by (rule page_ok_agree [OF part]) (simp_all add: table_offset_def writing_view_ok [OF q(2)])
  moreover have "table_page m < MAX_PAGES" using Suc.prems assms(3) by (simp add: table_page_def)
  ultimately obtain p where p: "shadow_update q (table_page m) (\<lambda>_. ?f) = Some p" "writing p"
    "view p = (view q)(table_page m := ?f (view q (table_page m)))" "meta p = meta q"
    by (rule_tac shadow_update_ok [where f = ?f and g = "\<lambda>_. ?f", OF q(2)]) auto
  have "entries defs (Suc m) (view p)"
    unfolding entries_def
  proof (intro allI impI)
    fix t assume t: "t < Suc m"
    show "\<exists>b. \<forall>i. table_offset t \<le> i \<and> i < table_offset t + 3662 \<longrightarrow>
      view p (table_page t) i = save_table (defs ! t) (table_offset t) b i"
    proof (cases "t = m")
      case True
      then show ?thesis by (intro exI [of _ "view q (table_page m)"]) (simp add: p(3))
    next
      case False
      then show ?thesis using t q(4) by (simp add: p(3) entries_def)
    qed
  qed
  moreover have "agree_outside 4 3666 (view pg 0) (view p 0)"
  proof (cases "m = 0")
    case True
    then show ?thesis using q(6) part [of "view q 0"] by (simp add: p(3) table_page_def table_offset_def agree_outside_trans)
  next
    case False
    then show ?thesis using q(6) by (simp add: p(3))
  qed
  moreover have "view p n = view pg n" if "n \<notin> table_page ` {..<Suc m}" for n
    using that q(5) by (auto simp: p(3) lessThan_Suc)
  moreover have "fold_opt (\<lambda>t pg. shadow_update pg (table_page t) (\<lambda>_. save_table (defs ! t) (table_offset t))) [0..<Suc m] pg = Some p"
    using q(1) p(1) by (simp add: fold_opt_append)
  ultimately show ?case using p(2,4) q(3) by auto
qed

lemma flush_cached_view:
  assumes "writing pg"
  obtains f where "flushed pg f (flush_cached pg)"
    "\<forall>m. file_page f m = (if loaded pg m then view pg m else file_page (db (os pg)) m)"
proof -
  have w: "file_mode pg" "cache_ok pg" "shadows_ok pg" "is_writer pg"
    using assms writing_writer by (auto simp: writing_def)
  have buf: "page_buf pg i = Some (view pg i)" "page_ok (view pg i)" "i < MAX_PAGES" if "pages pg i \<noteq> None" for i
  proof -
    have "i < max_pages pg" using that w(2) by (meson cache_ok_def not_le)
    then show "page_buf pg i = Some (view pg i)"
      using that w(3,4) by (auto simp: page_buf_def view_def base_def shadows_ok_def)
    show "page_ok (view pg i)" by (rule writing_view_ok [OF assms])
    show "i < MAX_PAGES" using that w(2) by (auto simp: cache_ok_def)
  qed
  have "\<exists>f. flushed pg f (flush_cached pg) \<and> (\<forall>m. m \<notin> {} \<longrightarrow> file_page f m =
      (if m \<in> set [0..<max_pages pg] \<and> pages pg m \<noteq> None then the (page_buf pg m) else file_page (db (os pg)) m))"
    unfolding flush_cached_def
  proof (rule flush_fold [OF w(1)])
    fix i q f assume "i \<in> set [0..<max_pages pg]" "flushed pg f q" "pages q i \<noteq> None"
    moreover from this have "pages pg i \<noteq> None" by (auto simp: flushed_def)
    ultimately show "i < MAX_PAGES \<and>
        (\<exists>b. page_buf pg i = Some b \<and> page_ok b \<and> (pages pg i \<noteq> None \<or> b = file_page (db (os pg)) i \<or> i \<in> {}))"
      using buf by auto
  next
    fix i q f assume "flushed pg f q" "pages pg i \<noteq> None"
    then show "pages q i \<noteq> None" by (auto simp: flushed_def)
  qed auto
  then obtain f where f: "flushed pg f (flush_cached pg)" "\<And>m. file_page f m =
      (if m < max_pages pg \<and> pages pg m \<noteq> None then the (page_buf pg m) else file_page (db (os pg)) m)" by auto
  have "m < max_pages pg" if "pages pg m \<noteq> None" for m using that w(2) by (meson cache_ok_def not_le)
  then show ?thesis using that [OF f(1)] f(2) buf(1) by (auto simp: loaded_def)
qed

text \<open>The pages a catalog is in.\<close>

definition saved_as :: "Catalog \<Rightarrow> bool \<Rightarrow> Pager \<Rightarrow> pages \<Rightarrow> bool" where
  "saved_as cat av pg V \<longleftrightarrow> rd 4 (V 0) 0 = length (tables cat) \<and> entries (tables cat) (length (tables cat)) V \<and>
     (\<exists>b. \<forall>i < 2856. V 15 i = save_views_triggers cat av b i) \<and>
     rd 4 (V 0) 4092 = freelist_head pg mod 2 ^ 32 \<and> rd 8 (V 0) 4084 = unat (wal_lsn pg)"

lemma catalog_save_ok:
  assumes "writing pg" "\<not> lock_error pg" "catalog_ok cat"
  obtains p f where "catalog_save cat pg = Some p" "reading p" "saved_as cat (auto_vacuum pg) pg (view p)" "meta p = meta pg"
    "db (os p) = f" "loaded p 0" "loaded p 15" "\<forall>n. loaded p n \<longrightarrow> file_page f n = view p n"
proof -
  note ok = assms(3) [unfolded catalog_ok_def]
  define n where "n = length (tables cat)"
  let ?pg = "pg\<lparr>reserved_catalog_pages := 33\<rparr>"
  have w0: "writing ?pg" and v0: "view ?pg = view pg" and m0: "meta ?pg = meta pg"
  proof -
    have "base ?pg = base pg" by (rule base_cong) simp_all
    then show "view ?pg = view pg" by (simp add: view_def is_writer_def shadowed_def fun_eq_iff)
    show "writing ?pg" using assms(1) by (simp add: writing_def file_mode_def cache_ok_def shadows_ok_def shadowed_def)
    show "meta ?pg = meta pg" by (simp add: meta_def)
  qed
  obtain p1 where p1: "shadow_update ?pg 0 (\<lambda>_ b. wr 4 b 0 n) = Some p1" "writing p1" "view p1 = (view pg)(0 := wr 4 (view pg 0) 0 n)"
    "meta p1 = meta pg"
    by (rule shadow_update_ok [where f = "\<lambda>b. wr 4 b 0 n" and g = "\<lambda>_ b. wr 4 b 0 n", OF w0, of 0])
      (simp_all add: page_ok_wr writing_view_ok [OF assms(1)] v0 m0)
  obtain p2 where p2: "save_tables (tables cat) p1 = Some p2" "writing p2" "meta p2 = meta p1" "entries (tables cat) n (view p2)"
    "\<forall>k. k \<notin> table_page ` {..<n} \<longrightarrow> view p2 k = view p1 k" "agree_outside 4 3666 (view p1 0) (view p2 0)"
    using save_tables_ok [OF p1(2), of "tables cat" n] ok by (auto simp: save_tables_def n_def)
  let ?f = "save_views_triggers cat (auto_vacuum pg)"
  have lens: "length (views cat) = 4" "length (triggers cat) = 4" "num_views cat < 2 ^ 32" "num_triggers cat < 2 ^ 32" using ok by simp_all
  have av: "save_views_triggers cat (auto_vacuum p) = ?f" if "meta p = meta p2" for p
    using that p2(3) p1(4) by (simp add: meta_def)
  have "page_ok (?f (view p2 15))"
    by (rule page_ok_agree [OF save_views_parts(7) [OF lens]]) (simp_all add: writing_view_ok [OF p2(2)])
  then obtain p3 where p3: "shadow_update p2 15 (\<lambda>pg. save_views_triggers cat (auto_vacuum pg)) = Some p3" "writing p3"
    "view p3 = (view p2)(15 := ?f (view p2 15))" "meta p3 = meta p2" "loaded p3 15"
    by (rule_tac shadow_update_ok [where f = ?f and g = "\<lambda>pg. save_views_triggers cat (auto_vacuum pg)", OF p2(2), of 15])
      (auto simp: av)
  have hd: "save_header p = save_header pg" if "meta p = meta p3" for p
    using that p3(4) p2(3) p1(4) by (simp add: meta_def save_header_def fun_eq_iff)
  have "page_ok (save_header pg (view p3 0))" by (simp add: save_header_def page_ok_wr writing_view_ok [OF p3(2)])
  then obtain p4 where p4: "update_with p3 0 save_header = Some p4" "writing p4"
    "view p4 = (view p3)(0 := save_header pg (view p3 0))" "meta p4 = meta p3" "loaded p4 0" "loaded p4 15"
    by (rule_tac update_with_ok [where f = "save_header pg" and g = save_header, OF p3(2), of 0]) (auto simp: hd p3(5))
  obtain f where f: "flushed p4 f (flush_cached p4)" "\<forall>m. file_page f m = (if loaded p4 m then view p4 m else file_page (db (os p4)) m)"
    by (rule flush_cached_view [OF p4(2)])
  define p where "p = flush_cached p4"
  obtain l d where p: "p = p4\<lparr>os := (os p4)\<lparr>db := f\<rparr>, file_length := l, is_dirty := d\<rparr>" "file_mode p"
    using f(1) by (auto simp: p_def flushed_def)
  have w4: "file_mode p4" using p4(2) by (simp add: writing_def)
  have same: "loaded p n = loaded p4 n" "shadowed p n = shadowed p4 n" for n by (simp_all add: p(1) loaded_def shadowed_def)
  have "base p k = base p4 k" for k
    using f(2) [rule_format, of k] base_file [OF p(2), of k] base_file [OF w4, of k] by (cases "pages p4 k") (simp_all add: p(1) loaded_def)
  moreover have "is_writer p = is_writer p4" "shadow_pages p = shadow_pages p4" by (simp_all add: p(1) is_writer_def)
  ultimately have vp: "view p = view p4" by (intro ext) (simp add: view_def same)
  have "reading p" using writing_reading [OF p4(2)] p(2) by (simp add: reading_def same settled_def) (simp add: p(1) cache_ok_def)
  moreover have "catalog_save cat pg = Some p"
    using assms(2) p1(1) p2(1) p3(1) p4(1) w4 by (simp add: catalog_save_def p_def n_def [symmetric] file_mode_def)
  moreover have "meta p = meta pg" using p4(4) p3(4) p2(3) p1(4) by (simp add: p(1) meta_def)
  moreover have "db (os p) = f" "loaded p 0" "loaded p 15" using p4(5,6) by (simp_all add: same) (simp add: p(1))
  moreover have "saved_as cat (auto_vacuum pg) pg (view p)"
  proof -
    have v0: "view p4 0 = save_header pg (view p2 0)" "view p4 15 = ?f (view p2 15)" by (simp_all add: p4(3) p3(3))
    have out: "agree_outside 4084 4096 (view p2 0) (view p4 0)"
      unfolding v0(1) save_header_def by (rule agree_outside_trans [of _ _ _ "wr 4 (view p2 0) 4092 (freelist_head pg)"]) (auto intro!: agree_outside_wr)
    have "rd 4 (view p4 0) 0 = n"
      using ok rd_agree [OF out, of 0 4] rd_agree [OF p2(6), of 0 4] by (simp add: p1(3) n_def)
    moreover have "entries (tables cat) n (view p4)"
      by (rule entries_cong [OF p2(4)]) (use agree_outsideD [OF out] in \<open>simp_all add: p4(3) p3(3)\<close>)
    moreover have "rd 4 (view p4 0) 4092 = freelist_head pg mod 2 ^ 32" "rd 8 (view p4 0) 4084 = unat (wal_lsn pg)"
      unfolding v0(1) by (simp_all add: save_header_def buf_simps)
    ultimately show ?thesis using v0(2) unfolding vp saved_as_def n_def by auto
  qed
  ultimately show ?thesis using that [of p f] f(2) by (simp add: same vp)
qed

section \<open>Loading\<close>

lemma read_page_meta: "reading pg \<Longrightarrow> read_page pg n = Some (b, p) \<Longrightarrow> meta p = meta pg"
  using get_page_meta [of pg n] by (auto simp: read_page_def bind_eq_Some reading_def)

lemma load_tables_ok:
  assumes "reading pg" "view pg = V" "\<forall>t \<in> set ts. table_page t < MAX_PAGES \<and> load_table (V (table_page t)) (table_offset t) = Some (f t)"
  shows "\<exists>p. load_tables ts pg = Some (map f ts, p) \<and> unseen pg p \<and> meta p = meta pg"
  using assms
proof (induction ts arbitrary: pg)
  case (Cons t ts)
  obtain q where q: "read_page pg (table_page t) = Some (V (table_page t), q)" "unseen pg q"
    by (rule read_page_reading [OF Cons.prems(1), of "table_page t"]) (use Cons.prems in auto)
  obtain p where "load_tables ts q = Some (map f ts, p)" "unseen q p" "meta p = meta q"
    using Cons.IH [OF unseenD(1) [OF q(2)]] unseenD(2) [OF q(2)] Cons.prems by auto
  then show ?case using q unseen_trans [OF q(2)] Cons.prems(3) read_page_meta [OF Cons.prems(1) q(1)] by auto
qed simp

definition disk_catalog :: "bool \<Rightarrow> Catalog \<Rightarrow> Catalog \<Rightarrow> Catalog" where
  "disk_catalog av cat cat0 = cat0\<lparr>tables := map disk_table (tables cat), num_views := num_views cat,
     views := map (\<lambda>i. disk_view av i (views cat ! i)) [0..<num_views cat] @ drop (num_views cat) (views cat0),
     num_triggers := num_triggers cat,
     triggers := take (num_triggers cat) (triggers cat) @ drop (num_triggers cat) (triggers cat0)\<rparr>"

lemma reading_header:
  assumes "reading pg"
  shows "reading (load_header b pg)" "view (load_header b pg) = view pg"
proof -
  have "base (load_header b pg) = base pg" by (rule base_cong) (simp_all add: load_header_def)
  moreover have s: "shadowed (load_header b pg) = shadowed pg" by (simp add: shadowed_def load_header_def fun_eq_iff)
  moreover have "is_writer (load_header b pg) = is_writer pg" "shadow_pages (load_header b pg) = shadow_pages pg"
    by (simp_all add: load_header_def is_writer_def)
  ultimately show "view (load_header b pg) = view pg" by (intro ext) (simp add: view_def)
  show "reading (load_header b pg)"
    using assms unfolding reading_def s by (simp add: load_header_def settled_def file_mode_def cache_ok_def)
qed

lemma catalog_load_ok:
  assumes "reading pg" "saved_as cat av pg0 (view pg)" "catalog_ok cat" "meta pg = meta pg0" "freelist_head pg < 2 ^ 32"
  obtains q where "catalog_load cat0 pg = Some (disk_catalog av cat cat0, q)" "auto_vacuum q = av"
    "freelist_head q = freelist_head pg" "wal_lsn q = wal_lsn pg"
proof -
  note ok = assms(3) [unfolded catalog_ok_def] and sv = assms(2) [unfolded saved_as_def]
  have m: "freelist_head pg0 = freelist_head pg" "wal_lsn pg0 = wal_lsn pg" using assms(4) by (simp_all add: meta_def)
  define n where "n = length (tables cat)"
  obtain p0 where p0: "read_page pg 0 = Some (view pg 0, p0)" "unseen pg p0"
    by (rule read_page_reading [OF assms(1), of 0]) simp
  define p1 where "p1 = load_header (view pg 0) p0"
  have same0: "wal_lsn p0 = wal_lsn pg"
    using read_page_meta [OF assms(1) p0(1)] by (simp add: meta_def)
  note r1 = reading_header [OF unseenD(1) [OF p0(2)], of "view pg 0", folded p1_def]
  have v1: "view p1 = view pg" using r1(2) unseenD(2) [OF p0(2)] by simp
  have ent: "load_table (view pg (table_page t)) (table_offset t) = Some (disk_table (tables cat ! t))" if "t < n" for t
  proof -
    obtain b where "\<forall>i. table_offset t \<le> i \<and> i < table_offset t + 3662 \<longrightarrow>
        view pg (table_page t) i = save_table (tables cat ! t) (table_offset t) b i"
      using sv \<open>t < n\<close> unfolding entries_def n_def by blast
    then show ?thesis using ok that by (intro load_saved_table) (simp_all add: n_def)
  qed
  have tp: "table_page t < MAX_PAGES" if "t < n" for t using that ok by (simp add: table_page_def n_def)
  obtain p2 where p2: "load_tables [0..<n] p1 = Some (map (\<lambda>t. disk_table (tables cat ! t)) [0..<n], p2)" "unseen p1 p2" "meta p2 = meta p1"
    using load_tables_ok [OF r1(1) v1, of "[0..<n]" "\<lambda>t. disk_table (tables cat ! t)"] ent tp by auto
  have map: "map (\<lambda>t. disk_table (tables cat ! t)) [0..<n] = map disk_table (tables cat)"
    by (rule nth_equalityI) (simp_all add: n_def)
  obtain p3 where p3: "read_page p2 15 = Some (view p2 15, p3)" "unseen p2 p3"
    by (rule read_page_reading [OF unseenD(1) [OF p2(2)], of 15]) simp
  have v2: "view p2 = view pg" using unseenD(2) [OF p2(2)] v1 by simp
  obtain b where "\<forall>i < 2856. view pg 15 i = save_views_triggers cat av b i" using sv by blast
  note lv = load_saved_views [OF assms(3) this [rule_format]]
  define q where "q = p3\<lparr>auto_vacuum := (view pg 15 500 = 1)\<rparr>"
  have "catalog_load cat0 pg = Some (disk_catalog av cat cat0, q)"
    using p0(1) p2(1) p3(1) v2 lv(1) [of "cat0\<lparr>tables := map disk_table (tables cat)\<rparr>"] sv ok
    by (simp add: catalog_load_def p1_def [symmetric] n_def [symmetric] map disk_catalog_def q_def)
  moreover have "unseen p1 p3" by (rule unseen_trans [OF p2(2) p3(2)])
  moreover have "freelist_head p1 = freelist_head pg" "wal_lsn p1 = wal_lsn pg"
    using sv m assms(5) same0 by (simp_all add: p1_def load_header_def)
  moreover have "wal_lsn p3 = wal_lsn p1"
    using read_page_meta [OF unseenD(1) [OF p2(2)] p3(1)] p2(3) by (simp add: meta_def)
  ultimately show ?thesis using that [of q] lv(2) by (simp add: q_def unseen_def same_core_def)
qed

section \<open>Properties\<close>

text \<open>
  C28.  The catalog round trip.  Saving a catalog inside a transaction and loading it again returns
  every table, view and trigger: tables without their primary-key columns and with seven strings of
  each column cut to 15 characters, the second view's statement with the auto-vacuum byte in it.  The
  freelist head, the LSN and the auto-vacuum flag come back too.
\<close>

theorem catalog_roundtrip:
  assumes "writing pg" "\<not> lock_error pg" "catalog_ok cat" "freelist_head pg < 2 ^ 32"
  shows "\<exists>p q. catalog_save cat pg = Some p \<and> catalog_load cat0 p = Some (disk_catalog (auto_vacuum pg) cat cat0, q) \<and>
    auto_vacuum q = auto_vacuum pg \<and> freelist_head q = freelist_head pg \<and> wal_lsn q = wal_lsn pg"
proof -
  obtain p f where p: "catalog_save cat pg = Some p" "reading p" "saved_as cat (auto_vacuum pg) pg (view p)" "meta p = meta pg"
    by (rule catalog_save_ok [OF assms(1-3)])
  have m: "freelist_head p = freelist_head pg" "wal_lsn p = wal_lsn pg" using p(4) by (simp_all add: meta_def)
  obtain q where "catalog_load cat0 p = Some (disk_catalog (auto_vacuum pg) cat cat0, q)" "auto_vacuum q = auto_vacuum pg"
    "freelist_head q = freelist_head p" "wal_lsn q = wal_lsn p"
    by (rule catalog_load_ok [OF p(2,3) assms(3) p(4)]) (use assms(4) m in simp_all)
  then show ?thesis using p(1) m by auto
qed

text \<open>
  C35.  \<open>catalog_save\<close> does not journal the pages it changes and at its end flushes every cached page to
  the database file, inside the running transaction.  If the process then dies before the commit, the
  recovery leaves the uncommitted catalog in the file: page 0 has the new number of tables and the new
  first table, although the journal has no image of it.
\<close>

theorem catalog_survives_crash:
  assumes "writing pg" "\<not> lock_error pg" "catalog_ok cat" "tables cat \<noteq> []"
    and "journal (os pg) = Some j" "0 \<notin> fst ` set (journal_entries j 0)"
  shows "\<exists>p. catalog_save cat pg = Some p \<and> in_transaction p \<and>
    (let page0 = file_page (db (check_and_recover_journal (os p))) 0
     in rd 4 page0 0 = length (tables cat) \<and> load_table page0 4 = Some (disk_table (hd (tables cat))))"
proof -
  obtain p f where p: "catalog_save cat pg = Some p" "reading p" "saved_as cat (auto_vacuum pg) pg (view p)" "meta p = meta pg"
    "db (os p) = f" "loaded p 0" "loaded p 15" "\<forall>n. loaded p n \<longrightarrow> file_page f n = view p n"
    by (rule catalog_save_ok [OF assms(1-3)])
  have j: "journal (os p) = Some j" using p(4) assms(5) by (simp add: meta_def)
  have f: "file_ok f" "file_page f 0 = view p 0" using p(2,5,6,8) by (auto simp: reading_def file_mode_def)
  have "file_page (replay (journal_entries j 0) f) 0 = file_page f 0"
    by (rule replay_keeps [OF f(1) _ assms(6)]) (auto dest: journal_entries_length)
  then have r: "file_page (db (check_and_recover_journal (os p))) 0 = view p 0"
    using f(2) j p(5) by (simp add: check_and_recover_journal_def)
  have "\<exists>b. \<forall>i. table_offset 0 \<le> i \<and> i < table_offset 0 + 3662 \<longrightarrow>
      view p (table_page 0) i = save_table (tables cat ! 0) (table_offset 0) b i"
    using p(3) assms(4) unfolding saved_as_def entries_def by blast
  then obtain b where "\<forall>i. 4 \<le> i \<and> i < 3666 \<longrightarrow> view p 0 i = save_table (tables cat ! 0) 4 b i"
    by (auto simp: table_offset_def table_page_def)
  then have "load_table (view p 0) 4 = Some (disk_table (tables cat ! 0))"
    using assms(3,4) by (intro load_saved_table) (auto simp: catalog_ok_def)
  then show ?thesis
    using p(1-3) r assms(4) by (auto simp: reading_def settled_def saved_as_def Let_def hd_conv_nth)
qed

section \<open>A concrete catalog\<close>

text \<open>A table with a default of 20 characters and a second view of 150.\<close>

definition blank_view :: ViewDef where "blank_view = \<lparr>view_name = [], select_sql = []\<rparr>"

definition blank_trigger :: TriggerDef where
  "blank_trigger = \<lparr>trigger_name = [], target_table = [], timing = TRIGGER_BEFORE, event = TRIGGER_INSERT, action_sql = []\<rparr>"

definition empty_catalog :: Catalog where
  "empty_catalog = \<lparr>tables = [], num_views = 0, views = replicate 4 blank_view, num_triggers = 0, triggers = replicate 4 blank_trigger\<rparr>"

definition sample_catalog :: Catalog where
  "sample_catalog = empty_catalog\<lparr>
     tables := [(plain_table [])\<lparr>tbl_name := [116], columns := [plain_column COL_INT, (plain_column COL_TEXT)\<lparr>default_val := replicate 20 97\<rparr>]\<rparr>],
     num_views := 2, views := [blank_view, \<lparr>view_name = [118], select_sql = replicate 150 115\<rparr>, blank_view, blank_view]\<rparr>"

lemma sample_catalog_ok: "catalog_ok sample_catalog" "tables sample_catalog \<noteq> []"
  by (simp_all add: catalog_ok_def sample_catalog_def empty_catalog_def blank_view_def blank_trigger_def tabledef_ok_def
      column_ok_def view_ok_def trigger_ok_def char_ok_def plain_column_def plain_table_def)

lemma bare_pager:
  "writing (sample_pager Map.empty)" "\<not> lock_error (sample_pager Map.empty)" "\<not> auto_vacuum (sample_pager Map.empty)"
  "journal (os (sample_pager Map.empty)) = Some empty_file"
  by (rule sample_writing, simp)
    (simp_all add: sample_pager_def begun_pager_def fresh_pager_def quiet_os_def empty_file_def)

theorem catalog_roundtrip_witness:
  "\<exists>p q cat. catalog_save sample_catalog (sample_pager Map.empty) = Some p \<and> catalog_load empty_catalog p = Some (cat, q) \<and>
    map default_val (columns (hd (tables cat))) = [[], replicate 15 97] \<and> map select_sql (take 2 (views cat)) = [[], replicate 112 115]"
proof -
  let ?cat = "disk_catalog False sample_catalog empty_catalog"
  have "map default_val (columns (hd (tables ?cat))) = [[], replicate 15 97]"
    by (simp add: disk_catalog_def sample_catalog_def disk_table_def tabledef_compute_def disk_column_def plain_column_def split: prod.split)
  moreover have "map select_sql (take 2 (views ?cat)) = [[], replicate 112 115]"
    by (simp add: disk_catalog_def sample_catalog_def disk_view_def stamped_sql_def blank_view_def numeral_2_eq_2)
  ultimately show ?thesis
    using catalog_roundtrip [OF bare_pager(1,2) sample_catalog_ok(1), of empty_catalog] bare_pager(3) by auto
qed

theorem catalog_survives_crash_witness:
  "\<exists>p. catalog_save sample_catalog (sample_pager Map.empty) = Some p \<and> in_transaction p \<and>
    rd 4 (file_page (db (check_and_recover_journal (os p))) 0) 0 = 1"
proof -
  have "length (tables sample_catalog) = 1" by (simp add: sample_catalog_def)
  then show ?thesis
    using catalog_survives_crash [OF bare_pager(1,2) sample_catalog_ok bare_pager(4)]
    by (auto simp: journal_entries_end empty_file_def Let_def)
qed

end
