(* ===== verification/Scan.thy ===== *)
theory Scan
  imports Btree_Overflow
begin

text \<open>
  The loop that every statement uses to go over a table: test the end, look at the row under the
  cursor, stop or advance (\<open>src/executor.c\<close>, \<open>src/vdbe.c\<close>).  The loops of the source differ in the body
  only.  The locale \<open>row_source\<close> says what the loop needs of a cursor; there the loop is shown to
  end and to walk over the rows in order, and the B+ tree's cursors are an instance.
\<close>

section \<open>The loop\<close>

text \<open>\<open>while (!cursor->end_of_table) { body; cursor_advance(cursor); }\<close>; \<open>body\<close> says whether to go on.\<close>

partial_function (option) scan_loop ::
    "(Cursor \<Rightarrow> 's \<Rightarrow> Pager \<Rightarrow> (bool \<times> 's \<times> Pager) option) \<Rightarrow> Cursor \<Rightarrow> 's \<Rightarrow> Pager \<Rightarrow> (Cursor \<times> 's \<times> Pager) option" where
  "scan_loop body c s pg =
     (if end_of_table c then Some (c, s, pg)
      else do {
        (go_on, s, pg) \<leftarrow> body c s pg;
        if \<not> go_on then Some (c, s, pg)
        else do {
          (c, pg) \<leftarrow> cursor_advance c pg;
          scan_loop body c s pg } })"

text \<open>The same over a list of rows.\<close>

fun walk :: "('r \<Rightarrow> 's \<Rightarrow> bool \<times> 's) \<Rightarrow> 'r list \<Rightarrow> 's \<Rightarrow> 's" where
  "walk f [] s = s"
| "walk f (r # rs) s = (case f r s of (go_on, s) \<Rightarrow> if go_on then walk f rs s else s)"

text \<open>How many rows the walk leaves behind before it stops.\<close>

fun walked :: "('r \<Rightarrow> 's \<Rightarrow> bool \<times> 's) \<Rightarrow> 'r list \<Rightarrow> 's \<Rightarrow> nat" where
  "walked f [] s = 0"
| "walked f (r # rs) s = (case f r s of (go_on, s) \<Rightarrow> if go_on then Suc (walked f rs s) else 0)"

lemma walked_le: "walked f rs s \<le> length rs"
  by (induction rs arbitrary: s) (auto split: prod.split)

section \<open>The interface of a cursor\<close>

text \<open>
  \<open>good\<close> is the state in which rows are read, \<open>at c n\<close> says that the cursor is on row \<open>n\<close> or, for \<open>n\<close>
  the number of rows, at the end.
\<close>

locale row_source =
  fixes good :: "Pager \<Rightarrow> bool" and "at" :: "Cursor \<Rightarrow> nat \<Rightarrow> bool" and rows :: "'r list"
    and fetch :: "Cursor \<Rightarrow> Pager \<Rightarrow> ('r \<times> Pager) option"
  assumes at_end: "at c n \<Longrightarrow> n \<le> length rows \<Longrightarrow> end_of_table c \<longleftrightarrow> n = length rows"
    and advance: "good p \<Longrightarrow> at c n \<Longrightarrow> n < length rows \<Longrightarrow>
      \<exists>c' q. cursor_advance c p = Some (c', q) \<and> good q \<and> at c' (Suc n)"
    and fetch_row: "good p \<Longrightarrow> at c n \<Longrightarrow> n < length rows \<Longrightarrow> \<exists>q. fetch c p = Some (rows ! n, q) \<and> good q"
begin

definition runs_as :: "(Cursor \<Rightarrow> 's \<Rightarrow> Pager \<Rightarrow> (bool \<times> 's \<times> Pager) option) \<Rightarrow> ('r \<Rightarrow> 's \<Rightarrow> bool \<times> 's) \<Rightarrow> bool" where
  "runs_as body f \<longleftrightarrow> (\<forall>p c n s. good p \<longrightarrow> at c n \<longrightarrow> n < length rows \<longrightarrow>
     (\<exists>q. body c s p = Some (fst (f (rows ! n) s), snd (f (rows ! n) s), q) \<and> good q))"

lemma scan_walk:
  assumes "runs_as body f" "good p" "at c n" "n \<le> length rows"
  shows "\<exists>c' q. scan_loop body c s p = Some (c', walk f (drop n rows) s, q) \<and> good q \<and> at c' (n + walked f (drop n rows) s)"
  using assms(2-4)
proof (induction "length rows - n" arbitrary: n c s p)
  case 0
  then have "n = length rows" by simp
  then show ?case using 0 at_end [of c n] by (simp add: scan_loop.simps)
next
  case (Suc k)
  then have n: "n < length rows" and k: "k = length rows - Suc n" by simp_all
  have d: "drop n rows = rows ! n # drop (Suc n) rows" using n by (rule Cons_nth_drop_Suc [symmetric])
  have e: "\<not> end_of_table c" using at_end [OF Suc.prems(2)] Suc.prems(3) n by auto
  obtain go s' where f: "f (rows ! n) s = (go, s')" by (rule prod.exhaust)
  obtain q where q: "body c s p = Some (go, s', q)" "good q"
    using assms(1) [unfolded runs_as_def, rule_format, OF Suc.prems(1,2) n, of s] unfolding f fst_conv snd_conv by blast
  show ?case
  proof (cases go)
    case False
    then show ?thesis using q e Suc.prems(2) by (subst scan_loop.simps) (simp add: d f)
  next
    case True
    obtain c' r where r: "cursor_advance c q = Some (c', r)" "good r" "at c' (Suc n)"
      using advance [OF q(2) Suc.prems(2) n] by blast
    obtain c'' t where "scan_loop body c' s' r = Some (c'', walk f (drop (Suc n) rows) s', t)" "good t"
        "at c'' (Suc n + walked f (drop (Suc n) rows) s')"
      using Suc.hyps(1) [OF _ r(2,3), of s'] k n by auto
    then show ?thesis using q e r True by (subst scan_loop.simps) (simp add: d f)
  qed
qed

text \<open>A body that fetches the row and computes.\<close>

lemma runs_as_fetch: "runs_as (\<lambda>c s pg. fetch c pg \<bind> (\<lambda>(r, pg). Some (fst (f r s), snd (f r s), pg))) f"
  unfolding runs_as_def
proof (intro allI impI)
  fix p c n s assume "good p" "at c n" "n < length rows"
  from fetch_row [OF this] obtain q where "fetch c p = Some (rows ! n, q)" "good q" by blast
  then show "\<exists>q. (fetch c p \<bind> (\<lambda>(r, pg). Some (fst (f r s), snd (f r s), pg))) =
      Some (fst (f (rows ! n) s), snd (f (rows ! n) s), q) \<and> good q" by simp
qed

end

section \<open>The rows of a B+ tree\<close>

text \<open>A row as \<open>deserialize_row_with_mvcc\<close> yields it: values, expiry and the two stamps, length.\<close>

type_synonym stored = "Value list \<times> (64 word \<times> 64 word \<times> 64 word) \<times> nat"

definition cell_stores :: "TableDef \<Rightarrow> pages \<Rightarrow> nat \<Rightarrow> byte list \<Rightarrow> stored \<Rightarrow> bool" where
  "cell_stores def V reserved cell r \<longleftrightarrow> (\<exists>rec. cell_holds V reserved cell rec \<and>
     (\<forall>b. get_bytes b 0 (length rec) = rec \<longrightarrow> deserialize_row_with_mvcc def b = r))"

definition all_cells :: "pages \<Rightarrow> nat list \<Rightarrow> byte list list" where
  "all_cells V ps = concat (map (\<lambda>p. cells (V p)) ps)"

text \<open>The table at \<open>root_page_num\<close>, of height \<open>d\<close>, stores \<open>rows\<close>.\<close>

definition stores :: "TableDef \<Rightarrow> pages \<Rightarrow> nat \<Rightarrow> nat \<Rightarrow> stored list \<Rightarrow> bool" where
  "stores def V reserved d rows \<longleftrightarrow> table_ok def V d \<and>
     list_all2 (cell_stores def V reserved) (all_cells V (leaf_pages V d (root_page_num def))) rows"

definition fetch_stored :: "TableDef \<Rightarrow> Cursor \<Rightarrow> Pager \<Rightarrow> (stored \<times> Pager) option" where
  "fetch_stored def c pg = cursor_value c pg \<bind> (\<lambda>(b, pg). Some (deserialize_row_with_mvcc def b, pg))"

text \<open>
  The state in which rows are read: the pages are \<open>V\<close>.  \<open>I\<close> is any further property that reading pages
  keeps, as what a transaction needs to write later.
\<close>

definition stable :: "(Pager \<Rightarrow> bool) \<Rightarrow> bool" where
  "stable I \<longleftrightarrow> (\<forall>p q. I p \<longrightarrow> unseen p q \<longrightarrow> I q)"

definition presented :: "(Pager \<Rightarrow> bool) \<Rightarrow> pages \<Rightarrow> nat \<Rightarrow> Pager \<Rightarrow> bool" where
  "presented I V reserved pg \<longleftrightarrow> reading pg \<and> view pg = V \<and> reserved_catalog_pages pg = reserved \<and> stable I \<and> I pg"

abbreviation presents :: "pages \<Rightarrow> nat \<Rightarrow> Pager \<Rightarrow> bool" where
  "presents \<equiv> presented (\<lambda>_. True)"

lemma presents_def: "presents V reserved pg \<longleftrightarrow> reading pg \<and> view pg = V \<and> reserved_catalog_pages pg = reserved"
  by (simp add: presented_def stable_def)

lemma stable_unseen: "stable (unseen p0)"
  by (auto simp: stable_def intro: unseen_trans)

lemma presented_unseen: "presented I V r pg \<Longrightarrow> unseen pg q \<Longrightarrow> presented I V r q"
  using unseenD [of pg q] by (auto simp: presented_def stable_def)

lemma length_all_cells: "length (all_cells V ps) = num_entries V ps"
  by (induction ps) (auto simp: all_cells_def)

lemma nth_all_cells:
  assumes "ps = before @ l # after" "i < leaf_node_num_cells (V l)"
  shows "all_cells V ps ! (num_entries V before + i) = leaf_cell (V l) i"
proof -
  have "all_cells V ps = all_cells V before @ cells (V l) @ all_cells V after" by (simp add: all_cells_def assms(1))
  then show ?thesis using assms(2) length_all_cells [of V before] by (simp add: nth_append)
qed

definition on_row :: "TableDef \<Rightarrow> pages \<Rightarrow> nat \<Rightarrow> nat \<Rightarrow> stored list \<Rightarrow> Cursor \<Rightarrow> nat \<Rightarrow> bool" where
  "on_row def V reserved d rows c n \<longleftrightarrow> stores def V reserved d rows \<and> at_position V (leaf_pages V d (root_page_num def)) c n"

interpretation tree_rows: row_source "presented I V reserved" "on_row def V reserved d rows" rows "fetch_stored def"
proof
  let ?ps = "leaf_pages V d (root_page_num def)"
  have len: "length rows = num_entries V ?ps" if "on_row def V reserved d rows c n" for c n
    using that list_all2_lengthD length_all_cells unfolding stores_def on_row_def by metis
  show "end_of_table c \<longleftrightarrow> n = length rows" if "on_row def V reserved d rows c n" "n \<le> length rows" for c n
    using that len [OF that(1)] by (auto simp: on_row_def at_position_def split: if_splits)
  show "\<exists>c' q. cursor_advance c p = Some (c', q) \<and> presented I V reserved q \<and> on_row def V reserved d rows c' (Suc n)"
    if g: "presented I V reserved p" and o: "on_row def V reserved d rows c n" "n < length rows" for p c n
  proof -
    have v: "view p = V" "reading p" using g by (simp_all add: presented_def)
    obtain c' q where "cursor_advance c p = Some (c', q)" "unseen p q" "at_position V ?ps c' (Suc n)"
      using cursor_advance_position [of def p d n c] o len [OF o(1)] by (auto simp: v on_row_def stores_def)
    then show ?thesis using presented_unseen [OF g] o(1) by (auto simp: on_row_def)
  qed
  show "\<exists>q. fetch_stored def c p = Some (rows ! n, q) \<and> presented I V reserved q"
    if g: "presented I V reserved p" and o: "on_row def V reserved d rows c n" "n < length rows" for p c n
  proof -
    have v: "view p = V" "reading p" "reserved_catalog_pages p = reserved" using g by (simp_all add: presented_def)
    have ok: "table_ok def V d" using o(1) by (simp add: stores_def on_row_def)
    obtain before after where ba: "?ps = before @ c_page c # after" "c_cell c < leaf_node_num_cells (V (c_page c))"
      "n = num_entries V before + c_cell c" using o len [OF o(1)] by (auto simp: on_row_def at_position_def)
    have "cell_stores def V reserved (all_cells V ?ps ! n) (rows ! n)"
      using o by (auto simp: on_row_def stores_def list_all2_conv_all_nth)
    then obtain rec where rec: "cell_holds V reserved (leaf_cell (V (c_page c)) (c_cell c)) rec"
      "\<forall>b. get_bytes b 0 (length rec) = rec \<longrightarrow> deserialize_row_with_mvcc def b = rows ! n"
      using nth_all_cells [OF ba(1), of "c_cell c"] ba(2,3) by (auto simp: cell_stores_def)
    have "c_page c < MAX_PAGES" using table_leaf(1) [OF ok ba(1)] .
    then obtain b q where "cursor_value c p = Some (b, q)" "unseen p q" "get_bytes b 0 (length rec) = rec"
      using cursor_value_record [of p c rec] v rec(1) by auto
    then show ?thesis using rec(2) presented_unseen [OF g] by (auto simp: fetch_stored_def)
  qed
qed

text \<open>A full scan starts on row 0.\<close>

lemma start_row:
  assumes "stores def V reserved d rows" "presented I V reserved pg"
  shows "\<exists>c q. btree_start def pg = Some (c, q) \<and> presented I V reserved q \<and> on_row def V reserved d rows c 0"
proof -
  have "table_ok def (view pg) d" "reading pg" using assms by (auto simp: stores_def presented_def)
  from start_position [OF this] show ?thesis
    using assms presented_unseen [OF assms(2)] by (auto simp: btree_start_def on_row_def presented_def)
qed

end
