(* ===== verification/Mvcc.thy ===== *)
theory Mvcc
  imports Scan Record_Roundtrip
begin

text \<open>
  Which version of a row a reader sees (\<open>src/executor.c\<close>): the TTL, the two stamps of the row and the
  reader's snapshot.  The theorem says what the stamps written by an insertion mean to a reader.
\<close>

text \<open>\<open>Some\<close> with the values when the row is visible; otherwise they have been freed.\<close>

definition row_is_visible_and_active :: "TableDef \<Rightarrow> buf \<Rightarrow> 64 word \<Rightarrow> 64 word \<Rightarrow> Value list option" where
  "row_is_visible_and_active def row_bytes snap now_ts =
     (case deserialize_row_with_mvcc def row_bytes of (vs, (expire_at, xmin, xmax), _) \<Rightarrow>
        if expire_at > 0 \<and> now_ts > 0 \<and> sint expire_at < sint now_ts then None
        else if xmin > snap then None
        else if xmax \<noteq> 0 \<and> xmax \<le> snap then None
        else Some vs)"

definition any_shadow :: "Pager \<Rightarrow> bool" where
  "any_shadow pg \<longleftrightarrow> list_ex (is_shadowed pg) [0..<shadow_capacity pg]"

definition get_current_snapshot_xid :: "Pager \<Rightarrow> 64 word" where
  "get_current_snapshot_xid pg =
     (if in_transaction pg
      then if writer_tid pg = self_tid (os pg) \<and> shadow_capacity pg > 0 \<and> any_shadow pg
           then (if current_commit_lsn pg \<noteq> 0 then current_commit_lsn pg else wal_lsn pg + 1)
           else if tx_snapshot_xid pg > 0 then tx_snapshot_xid pg
           else wal_lsn pg
      else wal_lsn pg)"

text \<open>The same decision on a row already read.\<close>

definition visible :: "64 word \<Rightarrow> 64 word \<Rightarrow> stored \<Rightarrow> bool" where
  "visible snap now r \<longleftrightarrow> (case r of (vs, (e, xmin, xmax), _) \<Rightarrow>
     \<not> (e > 0 \<and> now > 0 \<and> sint e < sint now) \<and> xmin \<le> snap \<and> (xmax = 0 \<or> snap < xmax))"

lemma row_visible_stored:
  "row_is_visible_and_active def b snap now =
     (let r = deserialize_row_with_mvcc def b in if visible snap now r then Some (fst r) else None)"
  by (auto simp: row_is_visible_and_active_def visible_def Let_def split: prod.split)

text \<open>The time, as \<open>time(NULL)\<close> gives it.\<close>

definition time_now :: "Pager \<Rightarrow> 64 word" where
  "time_now pg = wall_time (os pg) (tick (os pg))"

text \<open>
  Visibility of an inserted row.  For a record written with expiry \<open>e\<close>, creation stamp \<open>xmin\<close> and
  deletion stamp \<open>xmax\<close>, and bytes that begin with it, a reader gets the row exactly if it has not
  expired and the reader's snapshot is not before its creation and before its deletion (if any).
\<close>

theorem inserted_row_visible:
  assumes "num_cols def = length vs" "num_cols def \<le> MAX_COLUMNS" "\<forall>v \<in> set vs. value_wf v"
    and "serialize_row_with_mvcc def vs e xmin xmax = Some rec" "get_bytes b 0 (length rec) = rec"
  shows "row_is_visible_and_active def b snap now =
    (if (e = 0 \<or> now = 0 \<or> sint now \<le> sint e) \<and> xmin \<le> snap \<and> (xmax = 0 \<or> snap < xmax)
     then Some (map2 canon (columns def) vs) else None)"
proof -
  have "deserialize_row_with_mvcc def b = (map2 canon (columns def) vs, (e, xmin, xmax), length rec)"
    using deserialize_serialized [OF assms(1-3), of e xmin xmax] assms(4,5) by auto
  then show ?thesis by (auto simp: row_visible_stored visible_def Let_def word_gt_0)
qed

text \<open>A row created at 5 and deleted at 9 is seen by snapshot 7 and by neither 4 nor 9.\<close>

theorem inserted_row_visible_witness:
  "\<exists>rec. serialize_row_with_mvcc (plain_table [COL_INT]) [value_init\<lparr>int_val := 3\<rparr>] 0 5 9 = Some rec \<and>
    map (\<lambda>snap. row_is_visible_and_active (plain_table [COL_INT]) (put_bytes zero_buf 0 rec) snap 1000 \<noteq> None) [4, 7, 9] = [False, True, False]"
proof -
  let ?def = "plain_table [COL_INT]" and ?vs = "[value_init\<lparr>int_val := 3\<rparr>]"
  have wf: "\<forall>v \<in> set ?vs. value_wf v" by (simp add: value_wf_def value_init_def)
  obtain rec where r: "serialize_row_with_mvcc ?def ?vs 0 5 9 = Some rec"
    using deserialize_serialized [of ?def ?vs 0 5 9] wf by auto
  define b where "b = put_bytes zero_buf 0 rec"
  have "get_bytes b 0 (length rec) = rec" unfolding b_def by (rule get_put_same) simp
  note v = inserted_row_visible [OF _ _ wf r this, of _ 1000]
  show ?thesis using r v by (intro exI [of _ rec]) (simp add: b_def [symmetric] del: overlay_zero)
qed

end
