(* ===== verification/Matching.thy ===== *)
theory Matching
  imports Values "HOL-Library.Sublist"
begin

text \<open>
  Pattern matching of \<open>LIKE\<close> and \<open>GLOB\<close> (\<open>src/executor.c\<close>, \<open>sql_like_match\<close> and \<open>sql_glob_match\<close>),
  and the language of patterns they are to decide.  Both functions have the same loop, so what is
  proved of it is proved once, in the locale \<open>matcher\<close>.
\<close>

section \<open>LIKE\<close>

definition like_char :: "CollationType \<Rightarrow> byte \<Rightarrow> byte \<Rightarrow> bool" where
  "like_char coll p s = (if coll = COLL_NOCASE then to_lower p = to_lower s else p = s)"

text \<open>\<open>%\<close> is 37, \<open>_\<close> is 95; the inner loop tries the non-empty suffixes of the string.\<close>

function (sequential) sql_like_match :: "CollationType \<Rightarrow> cstr \<Rightarrow> cstr \<Rightarrow> bool"
  and like_suffix :: "CollationType \<Rightarrow> cstr \<Rightarrow> cstr \<Rightarrow> bool" where
  "sql_like_match coll [] str = (str = [])"
| "sql_like_match coll (c # pattern) str =
     (if c = 37 then (if pattern = [] then True else like_suffix coll pattern str)
      else (case str of [] \<Rightarrow> False
            | s # str' \<Rightarrow>
                if c = 95 then sql_like_match coll pattern str'
                else if like_char coll c s then sql_like_match coll pattern str' else False))"
| "like_suffix coll pattern [] = False"
| "like_suffix coll pattern (s # str) =
     (if sql_like_match coll pattern (s # str) then True else like_suffix coll pattern str)"
  by pat_completeness auto
termination
  by (relation "measures [\<lambda>x. case x of Inl (_, p, _) \<Rightarrow> length p | Inr (_, p, _) \<Rightarrow> length p,
      \<lambda>x. case x of Inl _ \<Rightarrow> 0 | Inr (_, _, s) \<Rightarrow> length s + 1]") auto

section \<open>GLOB\<close>

text \<open>
  A character class: \<open>pattern\<close> is behind the bracket.  \<open>char\<close> is signed on the targets, so a range is a
  range of signed bytes.
\<close>

fun class_match :: "byte \<Rightarrow> cstr \<Rightarrow> bool \<Rightarrow> bool \<times> cstr" where
  "class_match s [] matched = (matched, [])"
| "class_match s [a] matched = (if a = 93 then (matched, [a]) else (matched \<or> s = a, []))"
| "class_match s [a, b] matched =
     (if a = 93 then (matched, [a, b]) else class_match s [b] (matched \<or> s = a))"
| "class_match s (a # b # c # pattern) matched =
     (if a = 93 then (matched, a # b # c # pattern)
      else if b = 45 \<and> c \<noteq> 93
        then class_match s pattern (matched \<or> (sint a \<le> sint s \<and> sint s \<le> sint c))
      else class_match s (b # c # pattern) (matched \<or> s = a))"

definition glob_class :: "byte \<Rightarrow> cstr \<Rightarrow> bool \<times> cstr" where
  "glob_class s pattern =
     (let invert = (pattern \<noteq> [] \<and> (hd pattern = 33 \<or> hd pattern = 94));
          pattern = (if invert then tl pattern else pattern)
      in case class_match s pattern False of (matched, rest) \<Rightarrow>
           (if invert then \<not> matched else matched, if rest \<noteq> [] \<and> hd rest = 93 then tl rest else rest))"

lemma class_match_suffix: "suffix (snd (class_match s p m)) p"
  by (induction s p m rule: class_match.induct) (auto simp: suffix_ConsI)

lemma glob_class_suffix: "suffix (snd (glob_class s p)) p"
proof -
  define q where "q = (if p \<noteq> [] \<and> (hd p = 33 \<or> hd p = 94) then tl p else p)"
  have "suffix (snd (class_match s q False)) q" by (rule class_match_suffix)
  moreover have "suffix q p" by (auto simp: q_def suffix_tl)
  moreover have "suffix (if r \<noteq> [] \<and> hd r = 93 then tl r else r) r" for r :: cstr by (simp add: suffix_tl)
  ultimately show ?thesis
    unfolding glob_class_def q_def [symmetric] Let_def by (simp split: prod.split) (metis snd_conv suffix_order.trans suffix_tl)
qed

lemma length_glob_class: "length (snd (glob_class s p)) \<le> length p"
  using glob_class_suffix by (rule suffix_length_le)

lemma class_rest: "(b, rest) = glob_class s p \<Longrightarrow> length rest \<le> length p"
  using length_glob_class [of s p] by (metis snd_conv)

text \<open>\<open>*\<close> is 42, \<open>?\<close> is 63, the bracket 91.\<close>

function (sequential) sql_glob_match :: "cstr \<Rightarrow> cstr \<Rightarrow> bool" and glob_suffix :: "cstr \<Rightarrow> cstr \<Rightarrow> bool" where
  "sql_glob_match [] str = (str = [])"
| "sql_glob_match (c # pattern) str =
     (if c = 42 then (if pattern = [] then True else glob_suffix pattern str)
      else (case str of [] \<Rightarrow> False
            | s # str' \<Rightarrow>
                if c = 63 then sql_glob_match pattern str'
                else if c = 91
                  then (case glob_class s pattern of (matched, rest) \<Rightarrow>
                          if \<not> matched then False else sql_glob_match rest str')
                else if c \<noteq> s then False else sql_glob_match pattern str'))"
| "glob_suffix pattern [] = False"
| "glob_suffix pattern (s # str) =
     (if sql_glob_match pattern (s # str) then True else glob_suffix pattern str)"
  by pat_completeness auto
termination
  by (relation "measures [\<lambda>x. case x of Inl (p, _) \<Rightarrow> length p | Inr (p, _) \<Rightarrow> length p,
      \<lambda>x. case x of Inl _ \<Rightarrow> 0 | Inr (_, s) \<Rightarrow> length s + 1]")
    (auto simp: le_imp_less_Suc dest: class_rest)

section \<open>The language of a pattern\<close>

text \<open>
  A star stands for any string, everything else for one character: \<open>next p c\<close> is the pattern left when
  \<open>p\<close>, which does not begin with a star, consumes \<open>c\<close>.
\<close>

inductive matches :: "byte \<Rightarrow> (cstr \<Rightarrow> byte \<Rightarrow> cstr option) \<Rightarrow> cstr \<Rightarrow> cstr \<Rightarrow> bool"
  for star :: byte and "next" :: "cstr \<Rightarrow> byte \<Rightarrow> cstr option" where
  matches_end: "matches star next [] []"
| matches_star: "matches star next p t \<Longrightarrow> matches star next (star # p) (s @ t)"
| matches_char: "p \<noteq> [] \<Longrightarrow> hd p \<noteq> star \<Longrightarrow> next p c = Some p' \<Longrightarrow> matches star next p' s \<Longrightarrow> matches star next p (c # s)"

inductive_cases matches_NilE: "matches star next p []"

definition like_next :: "CollationType \<Rightarrow> cstr \<Rightarrow> byte \<Rightarrow> cstr option" where
  "like_next coll p c = (if hd p = 95 \<or> like_char coll (hd p) c then Some (tl p) else None)"

definition glob_next :: "cstr \<Rightarrow> byte \<Rightarrow> cstr option" where
  "glob_next p c =
     (if hd p = 63 then Some (tl p)
      else if hd p = 91 then (case glob_class c (tl p) of (matched, rest) \<Rightarrow> if matched then Some rest else None)
      else if hd p = c then Some (tl p) else None)"

text \<open>Patterns that match the empty string.\<close>

lemma matches_Nil: "matches star next p [] \<Longrightarrow> set p \<subseteq> {star}"
proof (induction p)
  case (Cons a p)
  from Cons.prems show ?case
    by (rule matches_NilE) (use Cons.IH in auto)
qed simp

lemma replicate_snoc_two: "replicate n x @ [x, x] = x # x # replicate n x"
  by (induction n) auto

text \<open>The loop: what both functions do with a star, with the end of the string and with a character.\<close>

locale matcher =
  fixes star :: byte and "next" :: "cstr \<Rightarrow> byte \<Rightarrow> cstr option" and m :: "cstr \<Rightarrow> cstr \<Rightarrow> bool"
  assumes next_suffix: "p \<noteq> [] \<Longrightarrow> next p c = Some p' \<Longrightarrow> strict_suffix p' p"
    and m_Nil: "m [] s \<longleftrightarrow> s = []"
    and m_last: "m [star] s"
    and m_star: "p \<noteq> [] \<Longrightarrow> m (star # p) s \<longleftrightarrow> (\<exists>t. t \<noteq> [] \<and> suffix t s \<and> m p t)"
    and m_end: "p \<noteq> [] \<Longrightarrow> hd p \<noteq> star \<Longrightarrow> \<not> m p []"
    and m_char: "p \<noteq> [] \<Longrightarrow> hd p \<noteq> star \<Longrightarrow> m p (c # s) \<longleftrightarrow> (\<exists>p'. next p c = Some p' \<and> m p' s)"
begin

lemma m_sound: "m p s \<Longrightarrow> matches star next p s"
proof (induction "length p" arbitrary: p s rule: less_induct)
  case less
  show ?case
  proof (cases p)
    case Nil
    then show ?thesis using less.prems by (simp add: m_Nil matches_end)
  next
    case (Cons a q)
    show ?thesis
    proof (cases "a = star")
      case True
      show ?thesis
      proof (cases "q = []")
        case True
        then show ?thesis using matches_star [OF matches_end, of star "next" s] Cons \<open>a = star\<close> by simp
      next
        case False
        then obtain t where "t \<noteq> []" "suffix t s" "m q t" using less.prems Cons True m_star by auto
        then show ?thesis
          using less.hyps [of q t] Cons True by (auto simp: suffix_def intro: matches_star)
      qed
    next
      case False
      then have "s \<noteq> []" using m_end [of p] less.prems Cons by auto
      then obtain c s' where s: "s = c # s'" by (cases s) auto
      then obtain p' where p': "next p c = Some p'" "m p' s'" using m_char [of p c s'] less.prems Cons False by auto
      have "length p' < length p"
        using next_suffix [OF _ p'(1)] Cons by (intro suffix_length_less) auto
      then show ?thesis using p' less.hyps s Cons False by (auto intro: matches_char)
    qed
  qed
qed

text \<open>The converse fails only where the pattern ends in two stars.\<close>

lemma m_complete: "matches star next p s \<Longrightarrow> \<not> suffix [star, star] p \<Longrightarrow> m p s"
proof (induction rule: matches.induct)
  case (matches_star p t s)
  have "\<not> suffix [star, star] p" using matches_star.prems suffix_ConsI [of "[star, star]" p star] by auto
  then have ih: "m p t" by (rule matches_star.IH)
  show ?case
  proof (cases "p = []")
    case True
    then show ?thesis by (simp add: m_last)
  next
    case False
    have "t \<noteq> []"
    proof
      assume "t = []"
      then have "set p \<subseteq> {star}" using matches_star.hyps matches_Nil by blast
      then have "replicate (length p) star = p" by (intro replicate_length_same) auto
      then have "star # p = replicate (Suc (length p)) star" by simp
      then have "star # p = replicate (length p - 1) star @ [star, star]"
        using False replicate_snoc_two [of "length p - 1" star] by (cases p) simp_all
      then show False using matches_star.prems by (metis suffixI)
    qed
    then show ?thesis using ih m_star [OF False] by (auto simp: suffix_def)
  qed
next
  case (matches_char p c p' s)
  have "suffix p' p" using next_suffix [OF matches_char.hyps(1,3)] by (simp add: strict_suffix_def)
  then have "\<not> suffix [star, star] p'" using matches_char.prems suffix_order.trans [of "[star, star]" p' p] by auto
  then have "m p' s" by (rule matches_char.IH)
  then show ?case using m_char [OF matches_char.hyps(1,2)] matches_char.hyps(3) by auto
qed (simp add: m_Nil)

lemma m_double_star: "\<not> m [star, star] []"
  by (simp add: m_star)

end

section \<open>Both functions are matchers\<close>

lemma like_suffix_iff: "like_suffix coll p s \<longleftrightarrow> (\<exists>t. t \<noteq> [] \<and> suffix t s \<and> sql_like_match coll p t)"
  by (induction s) (auto simp: suffix_Cons)

lemma glob_suffix_iff: "glob_suffix p s \<longleftrightarrow> (\<exists>t. t \<noteq> [] \<and> suffix t s \<and> sql_glob_match p t)"
  by (induction s) (auto simp: suffix_Cons)

lemma strict_suffix_tl: "p \<noteq> [] \<Longrightarrow> suffix q (tl p) \<Longrightarrow> strict_suffix q p"
  by (cases p) (auto simp: strict_suffix_def suffix_def)

interpretation like: matcher 37 "like_next coll" "sql_like_match coll"
proof unfold_locales
  show "sql_like_match coll p (c # s) \<longleftrightarrow> (\<exists>p'. like_next coll p c = Some p' \<and> sql_like_match coll p' s)"
    if "p \<noteq> []" "hd p \<noteq> 37" for p c s
    using that by (cases p) (auto simp: like_next_def)
  show "\<not> sql_like_match coll p []" if "p \<noteq> []" "hd p \<noteq> 37" for p
    using that by (cases p) auto
qed (auto simp: like_next_def like_suffix_iff strict_suffix_tl split: if_splits)

interpretation glob: matcher 42 glob_next sql_glob_match
proof unfold_locales
  show "sql_glob_match p (c # s) \<longleftrightarrow> (\<exists>p'. glob_next p c = Some p' \<and> sql_glob_match p' s)"
    if "p \<noteq> []" "hd p \<noteq> 42" for p c s
    using that by (cases p) (auto simp: glob_next_def split: prod.split)
  show "\<not> sql_glob_match p []" if "p \<noteq> []" "hd p \<noteq> 42" for p
    using that by (cases p) auto
  show "strict_suffix p' p" if "p \<noteq> []" "glob_next p c = Some p'" for p p' c
    using that glob_class_suffix [of c "tl p"]
    by (auto simp: glob_next_def strict_suffix_tl split: if_splits prod.splits)
qed (simp_all add: glob_suffix_iff)

section \<open>Properties\<close>

text \<open>
  C32.  \<open>LIKE\<close> decides its language: for a pattern that does not end in two percent signs, the code's
  matching loop accepts exactly the strings that the pattern denotes, a percent sign standing for any
  string, an underscore for any character, and letters compared without case under NOCASE.
\<close>

theorem like_decides_language:
  assumes "\<not> suffix [37, 37] pattern"
  shows "sql_like_match coll pattern str \<longleftrightarrow> matches 37 (like_next coll) pattern str"
  using like.m_sound like.m_complete assms by blast

theorem like_decides_language_witness:
  "\<not> matches 37 (like_next COLL_NOCASE) [97, 37, 98, 95] [65, 120, 98] \<and>
   matches 37 (like_next COLL_NOCASE) [97, 37, 98, 95] [65, 120, 98, 98, 99]"
proof -
  have p: "\<not> suffix [37, 37] [97, 37, 98, 95 :: byte]" by (simp add: suffix_def)
  have "\<not> sql_like_match COLL_NOCASE [97, 37, 98, 95] [65, 120, 98]"
    "sql_like_match COLL_NOCASE [97, 37, 98, 95] [65, 120, 98, 98, 99]"
    by (simp_all add: like_char_def to_lower_def)
  then show ?thesis using like_decides_language [OF p] by blast
qed

text \<open>
  The same for \<open>GLOB\<close> with its star, question mark and character classes.
\<close>

theorem glob_decides_language:
  assumes "\<not> suffix [42, 42] pattern"
  shows "sql_glob_match pattern str \<longleftrightarrow> matches 42 glob_next pattern str"
  using glob.m_sound glob.m_complete assms by blast

theorem glob_decides_language_witness:
  "matches 42 glob_next [42, 91, 94, 97, 45, 99, 93] [120, 100] \<and> \<not> matches 42 glob_next [42, 91, 94, 97, 45, 99, 93] [120, 98]"
proof -
  have p: "\<not> suffix [42, 42] [42, 91, 94, 97, 45, 99, 93 :: byte]" by (simp add: suffix_def)
  have "sql_glob_match [42, 91, 94, 97, 45, 99, 93] [120, 100]" "\<not> sql_glob_match [42, 91, 94, 97, 45, 99, 93] [120, 98]"
    by (simp_all add: glob_class_def)
  then show ?thesis using glob_decides_language [OF p] by blast
qed

text \<open>
  CX.  A pattern that ends in two percent signs is not equivalent to the pattern with one: \<open>'%%'\<close>
  denotes every string, but the code rejects the empty one, and \<open>'a%%'\<close> rejects \<open>'a'\<close>.
\<close>

theorem like_double_percent:
  assumes "37 \<notin> set q" "95 \<notin> set q"
  shows "\<not> sql_like_match coll (q @ [37, 37]) q \<and> sql_like_match coll (q @ [37]) q \<and>
    matches 37 (like_next coll) (q @ [37, 37]) q"
  using assms
proof (induction q)
  case Nil
  have "matches 37 (like_next coll) [37, 37] ([] @ [] @ [])" by (intro matches_star matches_end)
  then show ?case using like.m_double_star by simp
next
  case (Cons c q)
  then show ?case by (auto simp: like_char_def like_next_def intro!: matches_char)
qed

theorem like_double_percent_witness: "\<not> sql_like_match COLL_BINARY ([97] @ [37, 37]) [97]"
  using like_double_percent [of "[97]" COLL_BINARY] by simp

end
