(* ===== verification/Cstdlib.thy ===== *)
theory Cstdlib
  imports Floats "HOL-Library.Multiset"
begin

text \<open>
  What the engine uses of the C library on text (glibc, C locale): \<open>atoi\<close>, \<open>atof\<close>, \<open>snprintf\<close> with
  \<open>%d\<close>, \<open>%.8g\<close> and \<open>%.4g\<close>, \<open>strstr\<close> and \<open>strcasestr\<close>, and \<open>qsort\<close>.
\<close>

section \<open>Integers\<close>

definition is_digit :: "byte \<Rightarrow> bool" where "is_digit c \<longleftrightarrow> 48 \<le> c \<and> c \<le> 57"

definition digits_val :: "cstr \<Rightarrow> nat" where
  "digits_val ds = fold (\<lambda>c n. 10 * n + (unat c - 48)) ds 0"

definition skip_spaces :: "cstr \<Rightarrow> cstr" where "skip_spaces s = dropWhile is_space s"

text \<open>An optional sign: 43 is plus, 45 is minus.\<close>

definition split_sign :: "cstr \<Rightarrow> bool \<times> cstr" where
  "split_sign s = (case s of [] \<Rightarrow> (False, []) | c # t \<Rightarrow> if c = 45 then (True, t) else if c = 43 then (False, t) else (False, s))"

text \<open>\<open>(int)strtol(s, NULL, 10)\<close>: clamped to 64 bits, then truncated to 32.\<close>

definition atoi :: "cstr \<Rightarrow> 32 word" where
  "atoi s =
     (case split_sign (skip_spaces s) of (neg, t) \<Rightarrow>
        (let n = int (digits_val (takeWhile is_digit t))
         in word_of_int (max (- (2 ^ 63)) (min (2 ^ 63 - 1) (if neg then - n else n)))))"

fun dec_digits :: "nat \<Rightarrow> cstr" where
  "dec_digits n = (if n < 10 then [of_nat (48 + n)] else dec_digits (n div 10) @ [of_nat (48 + n mod 10)])"

declare dec_digits.simps [simp del]

text \<open>\<open>%d\<close>\<close>

definition fmt_int :: "int \<Rightarrow> cstr" where
  "fmt_int v = (if v < 0 then 45 # dec_digits (nat (- v)) else dec_digits (nat v))"

section \<open>Decimal fractions\<close>

text \<open>\<open>n * 10^e\<close> to the nearest double; below the point a quotient of at least 64 bits with a sticky bit.\<close>

definition f64_of_decimal :: "bool \<Rightarrow> nat \<Rightarrow> int \<Rightarrow> f64" where
  "f64_of_decimal neg n e =
     f64_make neg
       (if 0 \<le> e then round64 (n * 10 ^ nat e) 0
        else (let d = 10 ^ nat (- e); s = 4 * nat (- e) + 66; q = n * 2 ^ s div d; r = n * 2 ^ s mod d
              in round64 (2 * q + (if r = 0 then 0 else 1)) (- int (s + 1))))"

text \<open>An exponent, an optional sign and at least one digit after the mark; its value and what follows.\<close>

definition exponent_of :: "byte \<Rightarrow> cstr \<Rightarrow> int \<times> cstr" where
  "exponent_of mark s =
     (case s of [] \<Rightarrow> (0, s)
      | c # t \<Rightarrow>
          (case split_sign t of (neg, u) \<Rightarrow>
             if to_lower c = mark \<and> takeWhile is_digit u \<noteq> []
             then (let n = int (digits_val (takeWhile is_digit u)) in (if neg then - n else n, dropWhile is_digit u))
             else (0, s)))"

text \<open>Digits with an optional point: the integral and the fractional digits, and what follows.\<close>

definition split_point :: "(byte \<Rightarrow> bool) \<Rightarrow> cstr \<Rightarrow> cstr \<times> cstr \<times> cstr" where
  "split_point dig s =
     (let t = dropWhile dig s
      in if t \<noteq> [] \<and> hd t = 46 then (takeWhile dig s, takeWhile dig (tl t), dropWhile dig (tl t))
         else (takeWhile dig s, [], t))"

definition strtod_decimal :: "bool \<Rightarrow> cstr \<Rightarrow> (f64 \<times> cstr) option" where
  "strtod_decimal neg s =
     (case split_point is_digit s of (ip, fp, rest) \<Rightarrow>
        if ip = [] \<and> fp = [] then None
        else (case exponent_of 101 rest of (e, rest) \<Rightarrow>
                Some (f64_of_decimal neg (digits_val (ip @ fp)) (e - int (length fp)), rest)))"

definition hex_digit :: "byte \<Rightarrow> nat option" where
  "hex_digit c = (if is_digit c then Some (unat c - 48)
     else if 97 \<le> to_lower c \<and> to_lower c \<le> 102 then Some (unat (to_lower c) - 87) else None)"

definition hex_val :: "cstr \<Rightarrow> nat" where
  "hex_val ds = fold (\<lambda>c n. 16 * n + the (hex_digit c)) ds 0"

text \<open>\<open>t\<close> begins with \<open>0x\<close>; with no digit after it the number is the leading zero.\<close>

definition strtod_hex :: "bool \<Rightarrow> cstr \<Rightarrow> f64 \<times> cstr" where
  "strtod_hex neg t =
     (case split_point (\<lambda>c. hex_digit c \<noteq> None) (drop 2 t) of (ip, fp, rest) \<Rightarrow>
        if ip = [] \<and> fp = [] then (f64_make neg 0, drop 1 t)
        else (case exponent_of 112 rest of (e, rest) \<Rightarrow>
                (f64_make neg (round64 (hex_val (ip @ fp)) (e - 4 * int (length fp))), rest)))"

definition starts_nocase :: "cstr \<Rightarrow> cstr \<Rightarrow> bool" where
  "starts_nocase pre s \<longleftrightarrow> map to_lower (take (length pre) s) = pre"

text \<open>The number at the start of a string and what follows it; \<open>None\<close> when there is none.  The
  parenthesised payload of a NaN is not taken.\<close>

definition strtod :: "cstr \<Rightarrow> (f64 \<times> cstr) option" where
  "strtod s =
     (case split_sign (skip_spaces s) of (neg, t) \<Rightarrow>
        if starts_nocase [105, 110, 102, 105, 110, 105, 116, 121] t then Some (f64_make neg f64_inf_bits, drop 8 t)
        else if starts_nocase [105, 110, 102] t then Some (f64_make neg f64_inf_bits, drop 3 t)
        else if starts_nocase [110, 97, 110] t then Some (f64_make neg (f64_inf_bits + 2 ^ 51), drop 3 t)
        else if starts_nocase [48, 120] t then Some (strtod_hex neg t)
        else strtod_decimal neg t)"

definition atof :: "cstr \<Rightarrow> f64" where
  "atof s = (case strtod s of None \<Rightarrow> 0 | Some (x, _) \<Rightarrow> x)"

section \<open>\<open>%.8g\<close> and \<open>%.4g\<close>\<close>

text \<open>The decimal exponent of \<open>num / den\<close>.\<close>

function exp10_up :: "nat \<Rightarrow> nat \<Rightarrow> int" where
  "exp10_up num den = (if 0 < den \<and> 10 * den \<le> num then 1 + exp10_up num (10 * den) else 0)"
  by pat_completeness auto
termination by (relation "measure (\<lambda>(num, den). num - den)") auto

function exp10_down :: "nat \<Rightarrow> nat \<Rightarrow> int" where
  "exp10_down num den = (if 0 < num \<and> num < den then exp10_down (10 * num) den - 1 else 0)"
  by pat_completeness auto
termination by (relation "measure (\<lambda>(num, den). den - num)") auto

declare exp10_up.simps [simp del] exp10_down.simps [simp del]

definition exp10 :: "nat \<Rightarrow> nat \<Rightarrow> int" where
  "exp10 num den = (if num < den then exp10_down num den else exp10_up num den)"

definition div_even :: "nat \<Rightarrow> nat \<Rightarrow> nat" where
  "div_even a b = (let q = a div b; r = a mod b in if 2 * r > b \<or> (2 * r = b \<and> odd q) then q + 1 else q)"

text \<open>\<open>num / den\<close> as \<open>d * 10^(e - p + 1)\<close> with \<open>d\<close> of \<open>p\<close> digits.\<close>

definition round_digits :: "nat \<Rightarrow> nat \<Rightarrow> nat \<Rightarrow> nat \<times> int" where
  "round_digits p num den =
     (let e = exp10 num den; k = e - (int p - 1);
          d = (if 0 \<le> k then div_even num (den * 10 ^ nat k) else div_even (num * 10 ^ nat (- k)) den)
      in if d = 10 ^ p then (10 ^ (p - 1), e + 1) else (d, e))"

definition strip_zeros :: "cstr \<Rightarrow> cstr" where
  "strip_zeros s = rev (dropWhile (\<lambda>c. c = 48) (rev s))"

definition point :: "cstr \<Rightarrow> cstr" where
  "point fr = (if fr = [] then [] else 46 # fr)"

definition fmt_digits :: "nat \<Rightarrow> nat \<Rightarrow> int \<Rightarrow> cstr" where
  "fmt_digits p d e =
     (let ds = dec_digits d
      in if e < -4 \<or> int p \<le> e
         then take 1 ds @ point (strip_zeros (drop 1 ds)) @ 101 # (if e < 0 then 45 else 43) #
              (if \<bar>e\<bar> < 10 then [48] else []) @ dec_digits (nat \<bar>e\<bar>)
         else if e < 0 then 48 # point (strip_zeros (replicate (nat (- e) - 1) 48 @ ds))
         else take (nat e + 1) ds @ point (strip_zeros (drop (nat e + 1) ds)))"

definition fmt_g :: "nat \<Rightarrow> f64 \<Rightarrow> cstr" where
  "fmt_g p x =
     (let sgn = (if f64_neg x then [45] else [])
      in if f64_nan x then sgn @ [110, 97, 110]
         else if f64_mag x = f64_inf_bits then sgn @ [105, 110, 102]
         else if f64_mag x = 0 then sgn @ [48]
         else case f64_unpack (f64_mag x) of (m, q) \<Rightarrow>
           (case (if 0 \<le> q then round_digits p (m * 2 ^ nat q) 1 else round_digits p m (2 ^ nat (- q))) of (d, e) \<Rightarrow>
              sgn @ fmt_digits p d e))"

abbreviation fmt_g8 :: "f64 \<Rightarrow> cstr" where "fmt_g8 \<equiv> fmt_g 8"
abbreviation fmt_g4 :: "f64 \<Rightarrow> cstr" where "fmt_g4 \<equiv> fmt_g 4"

section \<open>Substrings\<close>

definition strstr :: "cstr \<Rightarrow> cstr \<Rightarrow> bool" where
  "strstr hay needle \<longleftrightarrow> list_ex (\<lambda>k. take (length needle) (drop k hay) = needle) [0..<Suc (length hay)]"

definition strcasestr :: "cstr \<Rightarrow> cstr \<Rightarrow> bool" where
  "strcasestr hay needle \<longleftrightarrow> strstr (map to_lower hay) (map to_lower needle)"

section \<open>Sorting\<close>

text \<open>glibc's \<open>qsort\<close> is a merge sort, hence stable: for a total preorder any stable sort gives its
  result, here an insertion sort.\<close>

fun insert_by :: "('a \<Rightarrow> 'a \<Rightarrow> int) \<Rightarrow> 'a \<Rightarrow> 'a list \<Rightarrow> 'a list" where
  "insert_by cmp x [] = [x]"
| "insert_by cmp x (y # ys) = (if cmp x y \<le> 0 then x # y # ys else y # insert_by cmp x ys)"

definition qsort :: "('a \<Rightarrow> 'a \<Rightarrow> int) \<Rightarrow> 'a list \<Rightarrow> 'a list" where
  "qsort cmp xs = foldr (insert_by cmp) xs []"

lemma mset_insert_by [simp]: "mset (insert_by cmp x xs) = add_mset x (mset xs)"
  by (induction xs) auto

lemma mset_qsort [simp]: "mset (qsort cmp xs) = mset xs"
  unfolding qsort_def by (induction xs) auto

lemma length_qsort [simp]: "length (qsort cmp xs) = length xs"
  by (metis mset_qsort size_mset)

lemma set_qsort [simp]: "set (qsort cmp xs) = set xs"
  by (metis mset_qsort set_mset_mset)

context comparator
begin

lemma sorted_insert_by:
  assumes "sorted_wrt (\<lambda>x y. cmp x y \<le> 0) xs" "ok x" "\<forall>y \<in> set xs. ok y"
  shows "sorted_wrt (\<lambda>x y. cmp x y \<le> 0) (insert_by cmp x xs)"
  using assms
proof (induction xs)
  case (Cons y ys)
  have set: "set (insert_by cmp x ys) = insert x (set ys)" by (metis mset_insert_by set_mset_add_mset_insert set_mset_mset)
  show ?case
  proof (cases "cmp x y \<le> 0")
    case True
    then have "cmp x z \<le> 0" if "z \<in> set ys" for z
      using cmp_trans [of x y z] Cons.prems that by auto
    then show ?thesis using True Cons.prems by simp
  next
    case False
    then have "cmp y x \<le> 0" using cmp_ge_iff [of x y] Cons.prems by simp
    then show ?thesis using False Cons set by simp
  qed
qed simp

lemma sorted_qsort:
  assumes "\<forall>x \<in> set xs. ok x"
  shows "sorted_wrt (\<lambda>x y. cmp x y \<le> 0) (qsort cmp xs)"
  using assms
proof (induction xs)
  case (Cons x xs)
  then have "sorted_wrt (\<lambda>x y. cmp x y \<le> 0) (insert_by cmp x (qsort cmp xs))"
    by (intro sorted_insert_by) simp_all
  then show ?case by (simp add: qsort_def)
qed (simp add: qsort_def)

text \<open>Stability: rows that compare as equal to \<open>k\<close> keep their order.\<close>

lemma insert_by_equal:
  assumes "ok x" "ok k" "\<forall>y \<in> set xs. ok y" "sorted_wrt (\<lambda>x y. cmp x y \<le> 0) xs"
  shows "filter (\<lambda>y. cmp y k = 0) (insert_by cmp x xs) = filter (\<lambda>y. cmp y k = 0) (x # xs)"
  using assms(3,4)
proof (induction xs)
  case (Cons y ys)
  have "cmp y k \<noteq> 0" if "\<not> cmp x y \<le> 0" "cmp x k = 0"
  proof
    assume "cmp y k = 0"
    then have "cmp k y = 0" using cmp_swap [of y k] assms(2) Cons.prems(1) by (simp add: sgn_0_0)
    then show False using cmp_trans [of x k y] that assms(1,2) Cons.prems(1) by simp
  qed
  then show ?case using Cons by auto
qed simp

lemma qsort_stable:
  assumes "\<forall>x \<in> set xs. ok x" "ok k"
  shows "filter (\<lambda>y. cmp y k = 0) (qsort cmp xs) = filter (\<lambda>y. cmp y k = 0) xs"
  using assms(1)
proof (induction xs)
  case (Cons x xs)
  have "qsort cmp (x # xs) = insert_by cmp x (qsort cmp xs)" by (simp add: qsort_def)
  then show ?case using Cons insert_by_equal [OF _ assms(2), of x "qsort cmp xs"] sorted_qsort [of xs] by simp
qed (simp add: qsort_def)

end

end
