(* ===== verification/Where.thy ===== *)
theory Where
  imports Mvcc Matching Cstdlib Catalog
begin

text \<open>
  The WHERE clause (\<open>src/executor.c\<close>, \<open>eval_where_clause_cols\<close>; types in \<open>include/parser.h\<close>): single
  conditions on a column, \<open>IN\<close> and \<open>EXISTS\<close> subqueries, which scan another table through the pager,
  and the combination of the results from left to right.
\<close>

section \<open>Conditions\<close>

datatype CompOp =
    OP_EQ | OP_GT | OP_LT | OP_GTE | OP_LTE | OP_IN | OP_IS_NULL | OP_IS_NOT_NULL | OP_MATCH | OP_LIKE
  | OP_BETWEEN | OP_GLOB | OP_NOT_LIKE | OP_NOT_GLOB

datatype LogicOp = LOGIC_AND | LOGIC_OR

record SingleCond =
  cond_col :: cstr
  cond_op :: CompOp
  raw_val :: cstr
  raw_val2 :: cstr
  is_subquery :: bool
  sub_table :: cstr
  sub_col :: cstr
  sub_where_col :: cstr
  sub_where_op :: CompOp
  sub_where_val :: cstr
  has_sub_where :: bool
  is_exists :: bool
  is_not_exists :: bool
  sub_where_is_correlated :: bool
  sub_correlated_outer_col :: cstr
  cond_collation :: CollationType

text \<open>\<open>conds\<close> has the \<open>num_conds\<close> conditions in use, \<open>logic_ops\<close> the operators between them.\<close>

record WhereClause =
  has_where :: bool
  conds :: "SingleCond list"
  logic_ops :: "LogicOp list"

text \<open>The index of the first column with a name, by \<open>strcmp\<close> or \<open>strcasecmp\<close>.\<close>

definition find_column :: "(cstr \<Rightarrow> cstr \<Rightarrow> int) \<Rightarrow> cstr \<Rightarrow> Column list \<Rightarrow> nat option" where
  "find_column compare name cols =
     (let i = length (takeWhile (\<lambda>col. compare (col_name col) name \<noteq> 0) cols) in if i < length cols then Some i else None)"

text \<open>\<open>strchr(name, '.')\<close>: what follows the first dot.\<close>

definition after_dot :: "cstr \<Rightarrow> cstr option" where
  "after_dot s = (let t = dropWhile (\<lambda>c. c \<noteq> 46) s in if t = [] then None else Some (tl t))"

definition find_cond_column :: "cstr \<Rightarrow> Column list \<Rightarrow> nat option" where
  "find_cond_column name cols =
     (case find_column strcasecmp name cols of
        Some i \<Rightarrow> Some i
      | None \<Rightarrow> (case after_dot name of None \<Rightarrow> None | Some t \<Rightarrow> find_column strcasecmp t cols))"

definition parse_bool :: "cstr \<Rightarrow> bool" where
  "parse_bool s \<longleftrightarrow> strcasecmp s [116, 114, 117, 101] = 0 \<or> strcmp s [49] = 0"

fun op_holds :: "CompOp \<Rightarrow> int \<Rightarrow> bool" where
  "op_holds OP_EQ cmp = (cmp = 0)"
| "op_holds OP_LT cmp = (cmp < 0)"
| "op_holds OP_GT cmp = (cmp > 0)"
| "op_holds OP_LTE cmp = (cmp \<le> 0)"
| "op_holds OP_GTE cmp = (cmp \<ge> 0)"
| "op_holds _ cmp = False"

section \<open>Subqueries\<close>

definition sub_filter_value :: "ColumnType \<Rightarrow> cstr \<Rightarrow> Value" where
  "sub_filter_value ty raw =
     (case ty of
        COL_INT \<Rightarrow> value_init\<lparr>int_val := atoi raw\<rparr>
      | COL_FLOAT \<Rightarrow> value_init\<lparr>float_val := f32_of_f64 (atof raw)\<rparr>
      | COL_DOUBLE \<Rightarrow> value_init\<lparr>double_val := atof raw\<rparr>
      | COL_BOOL \<Rightarrow> value_init\<lparr>bool_val := parse_bool raw\<rparr>
      | _ \<Rightarrow> value_set_text value_init (Some raw))"

definition sub_compare :: "ColumnType \<Rightarrow> Value \<Rightarrow> Value \<Rightarrow> int" where
  "sub_compare ty v w =
     (case ty of
        COL_INT \<Rightarrow> i32_cmp (int_val v) (int_val w)
      | COL_FLOAT \<Rightarrow> f32_cmp (float_val v) (float_val w)
      | COL_DOUBLE \<Rightarrow> f64_cmp (double_val v) (double_val w)
      | COL_BOOL \<Rightarrow> bool_cmp (bool_val v) (bool_val w)
      | _ \<Rightarrow> strcmp (val_text v) (val_text w))"

text \<open>The filter of a subquery on one of its rows; \<open>outer\<close> gives the value of a correlated column.\<close>

definition sub_passes :: "SingleCond \<Rightarrow> (ColumnType \<Rightarrow> Value) \<Rightarrow> TableDef \<Rightarrow> Value list \<Rightarrow> bool" where
  "sub_passes cond sfilter sub_def row =
     (if has_sub_where cond
      then (case find_column strcmp (sub_where_col cond) (columns sub_def) of
              None \<Rightarrow> True
            | Some s \<Rightarrow>
                (let ty = col_type (columns sub_def ! s)
                 in op_holds (sub_where_op cond) (sub_compare ty (row ! s) (sfilter ty))))
      else True)"

definition exists_filter :: "SingleCond \<Rightarrow> Column list \<Rightarrow> Value list \<Rightarrow> ColumnType \<Rightarrow> Value" where
  "exists_filter cond cols row_vals ty =
     (if sub_where_is_correlated cond
      then (case find_column strcmp (sub_correlated_outer_col cond) cols of
              None \<Rightarrow> value_init
            | Some i \<Rightarrow> value_copy value_init (row_vals ! i))
      else sub_filter_value ty (sub_where_val cond))"

definition sub_equal :: "ColumnType \<Rightarrow> Value \<Rightarrow> Value \<Rightarrow> bool" where
  "sub_equal ty actual sub_actual =
     (if is_null actual \<or> is_null sub_actual then False
      else case ty of
        COL_INT \<Rightarrow> int_val actual = int_val sub_actual
      | COL_FLOAT \<Rightarrow> f32_eq (float_val actual) (float_val sub_actual)
      | COL_DOUBLE \<Rightarrow> f64_eq (double_val actual) (double_val sub_actual)
      | COL_BOOL \<Rightarrow> bool_val actual = bool_val sub_actual
      | _ \<Rightarrow> strcmp (val_text actual) (val_text sub_actual) = 0)"

text \<open>The loop over the subquery's table: is there a row with \<open>hit\<close>?\<close>

definition sub_body :: "TableDef \<Rightarrow> (Value list \<Rightarrow> bool) \<Rightarrow> Cursor \<Rightarrow> bool \<Rightarrow> Pager \<Rightarrow> (bool \<times> bool \<times> Pager) option" where
  "sub_body sub_def hit c found pg = do {
     (b, pg) \<leftarrow> cursor_value c pg;
     let found = hit (fst (deserialize_row sub_def b));
     Some (\<not> found, found, pg) }"

definition sub_search :: "TableDef \<Rightarrow> (Value list \<Rightarrow> bool) \<Rightarrow> Pager \<Rightarrow> (bool \<times> Pager) option" where
  "sub_search sub_def hit pg = do {
     (c, pg) \<leftarrow> btree_start sub_def pg;
     (c, found, pg) \<leftarrow> scan_loop (sub_body sub_def hit) c False pg;
     Some (found, pg) }"

definition eval_exists :: "Column list \<Rightarrow> Value list \<Rightarrow> Catalog \<Rightarrow> SingleCond \<Rightarrow> Pager \<Rightarrow> (bool \<times> Pager) option" where
  "eval_exists cols row_vals cat cond pg =
     (case catalog_find cat (sub_table cond) of
        None \<Rightarrow> Some (False, pg)
      | Some sub_def \<Rightarrow> do {
          (m, pg) \<leftarrow> sub_search sub_def (sub_passes cond (exists_filter cond cols row_vals) sub_def) pg;
          Some (if is_exists cond then m else \<not> m, pg) })"

definition eval_in_subquery :: "ColumnType \<Rightarrow> Value \<Rightarrow> Catalog \<Rightarrow> SingleCond \<Rightarrow> Pager \<Rightarrow> (bool \<times> Pager) option" where
  "eval_in_subquery ty actual cat cond pg =
     (case catalog_find cat (sub_table cond) of
        None \<Rightarrow> Some (False, pg)
      | Some sub_def \<Rightarrow>
          (case find_column strcmp (sub_col cond) (columns sub_def) of
             None \<Rightarrow> Some (False, pg)
           | Some s \<Rightarrow> sub_search sub_def
               (\<lambda>row. sub_passes cond (\<lambda>ty. sub_filter_value ty (sub_where_val cond)) sub_def row
                      \<and> sub_equal ty actual (row ! s)) pg))"

section \<open>A condition on a column\<close>

definition between_value :: "ColumnType \<Rightarrow> cstr \<Rightarrow> Value" where
  "between_value ty raw =
     (case ty of
        COL_INT \<Rightarrow> value_init\<lparr>int_val := atoi raw\<rparr>
      | COL_FLOAT \<Rightarrow> value_init\<lparr>float_val := f32_of_f64 (atof raw)\<rparr>
      | COL_DOUBLE \<Rightarrow> value_init\<lparr>double_val := atof raw\<rparr>
      | COL_NUMERIC \<Rightarrow> value_init\<lparr>double_val := atof raw\<rparr>
      | COL_DECIMAL \<Rightarrow> value_init\<lparr>double_val := atof raw\<rparr>
      | _ \<Rightarrow> value_set_text value_init (Some raw))"

text \<open>The string that \<open>LIKE\<close> and \<open>GLOB\<close> match, in a buffer of 65536 bytes.\<close>

definition match_string :: "ColumnType \<Rightarrow> Value \<Rightarrow> cstr" where
  "match_string ty v = take 65535
     (case ty of COL_INT \<Rightarrow> fmt_int (sint (int_val v))
      | COL_DOUBLE \<Rightarrow> fmt_g8 (double_val v) | COL_FLOAT \<Rightarrow> fmt_g8 (double_val v)
      | _ \<Rightarrow> val_text v)"

definition filter_value :: "ColumnType \<Rightarrow> cstr \<Rightarrow> Value" where
  "filter_value ty raw =
     (case ty of
        COL_INT \<Rightarrow> value_init\<lparr>int_val := atoi raw\<rparr>
      | COL_FLOAT \<Rightarrow> value_init\<lparr>float_val := f32_of_f64 (atof raw)\<rparr>
      | COL_DOUBLE \<Rightarrow> value_init\<lparr>double_val := atof raw\<rparr>
      | COL_NUMERIC \<Rightarrow> value_init\<lparr>double_val := atof raw\<rparr>
      | COL_DECIMAL \<Rightarrow> value_init\<lparr>double_val := atof raw\<rparr>
      | COL_BOOL \<Rightarrow> value_init\<lparr>bool_val := parse_bool raw\<rparr>
      | _ \<Rightarrow> value_set_text value_init (Some raw))"

definition cond_coll :: "SingleCond \<Rightarrow> Column \<Rightarrow> CollationType" where
  "cond_coll cond col =
     (let coll = (if cond_collation cond = COLL_NOT_SET then collation col else cond_collation cond)
      in if coll = COLL_NOT_SET then COLL_BINARY else coll)"

definition where_compare :: "SingleCond \<Rightarrow> Column \<Rightarrow> Value \<Rightarrow> Value \<Rightarrow> int" where
  "where_compare cond col actual filter_val =
     (case col_type col of
        COL_INT \<Rightarrow> i32_cmp (int_val actual) (int_val filter_val)
      | COL_FLOAT \<Rightarrow> f32_cmp (float_val actual) (float_val filter_val)
      | COL_DOUBLE \<Rightarrow> f64_cmp (double_val actual) (double_val filter_val)
      | COL_NUMERIC \<Rightarrow> f64_cmp (double_val actual) (double_val filter_val)
      | COL_DECIMAL \<Rightarrow> f64_cmp (double_val actual) (double_val filter_val)
      | COL_BOOL \<Rightarrow> bool_cmp (bool_val actual) (bool_val filter_val)
      | _ \<Rightarrow> compare_strings_collated (val_text actual) (val_text filter_val) (cond_coll cond col))"

text \<open>
  A condition with neither kind of subquery.  The literal is freed once it is compared, and \<open>MATCH\<close>
  looks at it after that.
\<close>

definition cond_holds :: "SingleCond \<Rightarrow> Column \<Rightarrow> Value \<Rightarrow> bool" where
  "cond_holds cond col actual =
     (if cond_op cond = OP_IS_NULL then is_null actual
      else if cond_op cond = OP_IS_NOT_NULL then \<not> is_null actual
      else if is_null actual then False
      else if cond_op cond = OP_BETWEEN
        then compare_values (col_type col) actual (between_value (col_type col) (raw_val cond)) \<ge> 0
             \<and> compare_values (col_type col) actual (between_value (col_type col) (raw_val2 cond)) \<le> 0
      else if cond_op cond = OP_LIKE
        then sql_like_match (cond_collation cond) (raw_val cond) (match_string (col_type col) actual)
      else if cond_op cond = OP_NOT_LIKE
        then \<not> sql_like_match (cond_collation cond) (raw_val cond) (match_string (col_type col) actual)
      else if cond_op cond = OP_GLOB then sql_glob_match (raw_val cond) (match_string (col_type col) actual)
      else if cond_op cond = OP_NOT_GLOB then \<not> sql_glob_match (raw_val cond) (match_string (col_type col) actual)
      else (let filter_val = filter_value (col_type col) (raw_val cond)
            in if cond_op cond = OP_MATCH then strcasestr (val_text actual) (val_text (value_free filter_val))
               else op_holds (cond_op cond) (where_compare cond col actual filter_val)))"

definition eval_cond :: "Column list \<Rightarrow> Value list \<Rightarrow> Catalog \<Rightarrow> SingleCond \<Rightarrow> Pager \<Rightarrow> (bool \<times> Pager) option" where
  "eval_cond cols row_vals cat cond pg =
     (if is_exists cond \<or> is_not_exists cond then eval_exists cols row_vals cat cond pg
      else case find_cond_column (cond_col cond) cols of
        None \<Rightarrow> Some (False, pg)
      | Some i \<Rightarrow>
          (if is_subquery cond then eval_in_subquery (col_type (cols ! i)) (row_vals ! i) cat cond pg
           else Some (cond_holds cond (cols ! i) (row_vals ! i), pg)))"

section \<open>The clause\<close>

fun eval_conds :: "Column list \<Rightarrow> Value list \<Rightarrow> Catalog \<Rightarrow> SingleCond list \<Rightarrow> Pager \<Rightarrow> (bool list \<times> Pager) option" where
  "eval_conds cols row_vals cat [] pg = Some ([], pg)"
| "eval_conds cols row_vals cat (c # cs) pg = do {
     (r, pg) \<leftarrow> eval_cond cols row_vals cat c pg;
     (rs, pg) \<leftarrow> eval_conds cols row_vals cat cs pg;
     Some (r # rs, pg) }"

fun combine :: "bool \<Rightarrow> LogicOp list \<Rightarrow> bool list \<Rightarrow> bool" where
  "combine overall ops [] = overall"
| "combine overall (op # ops) (r # rs) = combine (if op = LOGIC_OR then overall \<or> r else overall \<and> r) ops rs"
| "combine overall [] (r # rs) = overall"

definition eval_where_clause :: "TableDef \<Rightarrow> Value list \<Rightarrow> WhereClause \<Rightarrow> Catalog \<Rightarrow> Pager \<Rightarrow> (bool \<times> Pager) option" where
  "eval_where_clause def row_vals wc cat pg =
     (if \<not> has_where wc \<or> conds wc = [] then Some (True, pg)
      else do {
        (rs, pg) \<leftarrow> eval_conds (columns def) row_vals cat (conds wc) pg;
        Some (combine (hd rs) (logic_ops wc) (tl rs), pg) })"

end
