(* ===== verification/Select.thy ===== *)
theory Select
  imports Where
begin

text \<open>
  \<open>SELECT\<close> over one table (\<open>src/executor.c\<close>, the part of \<open>run_select_vm\<close> behind \<open>if (true)\<close>, which
  every plain select takes): choosing an access path, collecting the visible rows that satisfy the
  WHERE clause through it, sorting, \<open>DISTINCT\<close>, \<open>LIMIT\<close> and \<open>OFFSET\<close>.  The result is the list of
  rows that are printed; statistics and the printing itself are left out.

  \<open>expr\<close> stands for \<open>eval_expr_string\<close>, which an \<open>ORDER BY\<close> item that names no column is evaluated
  with; everything is proved for any such function.
\<close>

section \<open>Statements and sort entries\<close>

record OrderByItem =
  item_col :: cstr
  item_desc :: bool
  item_collation :: CollationType

text \<open>\<open>item_col\<close> and \<open>order_by_col\<close> are the heap string where there is one, else the array.\<close>

record SelectStmt =
  where_clause :: WhereClause
  has_order_by :: bool
  order_by_items :: "OrderByItem list"
  order_by_col :: cstr
  order_by_desc :: bool
  order_by_collation :: CollationType
  select_cols :: "cstr list"
  is_distinct :: bool
  has_limit :: bool
  limit_val :: int
  has_offset :: bool
  offset_val :: int

record SortKey =
  key_val :: Value
  sort_type :: ColumnType
  sort_coll :: CollationType
  sort_desc :: bool

text \<open>\<open>sort_keys\<close> has the \<open>num_sort_keys\<close> keys in use, at most four.\<close>

record RowSortEntry =
  entry_row :: "Value list"
  sort_keys :: "SortKey list"

type_synonym expr_fun = "cstr \<Rightarrow> TableDef \<Rightarrow> Value list \<Rightarrow> cstr"

definition zero_value :: Value where
  "zero_value = value_init\<lparr>text_val := TNull\<rparr>"

section \<open>Comparing entries\<close>

fun is_number_type :: "ColumnType \<Rightarrow> bool" where
  "is_number_type COL_INT = True"
| "is_number_type COL_DOUBLE = True"
| "is_number_type COL_FLOAT = True"
| "is_number_type COL_NUMERIC = True"
| "is_number_type COL_DECIMAL = True"
| "is_number_type _ = False"

definition number_of :: "ColumnType \<Rightarrow> Value \<Rightarrow> f64" where
  "number_of ty v = (if ty = COL_INT then f64_of_int (sint (int_val v))
     else if ty = COL_FLOAT then f64_of_f32 (float_val v) else double_val v)"

definition sort_text :: "ColumnType \<Rightarrow> Value \<Rightarrow> cstr" where
  "sort_text ty v = (if ty \<in> {COL_TEXT, COL_VARCHAR, COL_BLOB, COL_VECTOR} then val_text v else [])"

definition compare_sort_key :: "SortKey \<Rightarrow> SortKey \<Rightarrow> int" where
  "compare_sort_key a b =
     (let va = key_val a; vb = key_val b
      in if is_null va \<or> is_null vb
         then (if is_null va \<and> is_null vb then 0 else if is_null va then -1 else 1)
         else if is_number_type (sort_type a) \<and> is_number_type (sort_type b)
         then f64_cmp (number_of (sort_type a) va) (number_of (sort_type b) vb)
         else if sort_type a = COL_BOOL \<and> sort_type b = COL_BOOL then bool_cmp (bool_val va) (bool_val vb)
         else compare_strings_collated (sort_text (sort_type a) va) (sort_text (sort_type b) vb) (sort_coll a))"

fun compare_sort_keys :: "SortKey list \<Rightarrow> SortKey list \<Rightarrow> int" where
  "compare_sort_keys (a # as) (b # bs) =
     (let cmp = compare_sort_key a b
      in if cmp \<noteq> 0 then (if sort_desc a then - cmp else cmp) else compare_sort_keys as bs)"
| "compare_sort_keys _ _ = 0"

definition compare_row_sort_entries :: "RowSortEntry \<Rightarrow> RowSortEntry \<Rightarrow> int" where
  "compare_row_sort_entries a b = compare_sort_keys (sort_keys a) (sort_keys b)"

section \<open>Adding a row\<close>

definition resolve_item :: "cstr list \<Rightarrow> cstr \<Rightarrow> cstr" where
  "resolve_item sel target =
     (if target \<noteq> [] \<and> is_digit (hd target) \<and> sel \<noteq> []
      then (let pos = sint (atoi target)
            in if 1 \<le> pos \<and> pos \<le> int (length sel) then sel ! (nat pos - 1) else target)
      else target)"

definition expr_key :: "cstr \<Rightarrow> bool \<Rightarrow> CollationType \<Rightarrow> SortKey option" where
  "expr_key out desc coll =
     (if out = [] then None
      else if strcasecmp out [110, 117, 108, 108] = 0
        then Some \<lparr>key_val = zero_value\<lparr>is_null := True\<rparr>, sort_type = COL_INT, sort_coll = coll, sort_desc = desc\<rparr>
      else case strtod out of
        Some (dval, rest) \<Rightarrow>
          if rest = [] \<or> is_space (hd rest)
          then Some \<lparr>key_val = zero_value\<lparr>double_val := dval\<rparr>, sort_type = COL_DOUBLE, sort_coll = coll, sort_desc = desc\<rparr>
          else Some \<lparr>key_val = value_set_text zero_value (Some out), sort_type = COL_TEXT, sort_coll = coll, sort_desc = desc\<rparr>
      | None \<Rightarrow> Some \<lparr>key_val = value_set_text zero_value (Some out), sort_type = COL_TEXT, sort_coll = coll, sort_desc = desc\<rparr>)"

definition item_key :: "expr_fun \<Rightarrow> cstr list \<Rightarrow> TableDef \<Rightarrow> Value list \<Rightarrow> OrderByItem \<Rightarrow> SortKey option" where
  "item_key expr sel def row_vals it =
     (let resolved = resolve_item sel (item_col it)
      in case find_column strcasecmp resolved (columns def) of
           Some c \<Rightarrow> Some \<lparr>key_val = value_copy zero_value (row_vals ! c), sort_type = col_type (columns def ! c),
                           sort_coll = item_collation it, sort_desc = item_desc it\<rparr>
         | None \<Rightarrow> expr_key (take 255 (expr resolved def row_vals)) (item_desc it) (item_collation it))"

definition order_items :: "SelectStmt \<Rightarrow> OrderByItem list" where
  "order_items stmt =
     (if \<not> has_order_by stmt then []
      else if order_by_items stmt \<noteq> [] then order_by_items stmt
      else [\<lparr>item_col = order_by_col stmt, item_desc = order_by_desc stmt, item_collation = order_by_collation stmt\<rparr>])"

definition add_selected_row :: "expr_fun \<Rightarrow> SelectStmt \<Rightarrow> TableDef \<Rightarrow> Value list \<Rightarrow> RowSortEntry" where
  "add_selected_row expr stmt def row_vals =
     \<lparr>entry_row = map (value_copy zero_value) row_vals,
      sort_keys = take 4 (List.map_filter (item_key expr (select_cols stmt) def row_vals) (order_items stmt))\<rparr>"

section \<open>DISTINCT\<close>

definition distinct_cols :: "SelectStmt \<Rightarrow> TableDef \<Rightarrow> nat list" where
  "distinct_cols stmt def =
     (if select_cols stmt \<noteq> [] then List.map_filter (\<lambda>name. find_column strcmp name (columns def)) (select_cols stmt)
      else [0..<num_cols def])"

definition same_row :: "TableDef \<Rightarrow> nat list \<Rightarrow> RowSortEntry \<Rightarrow> RowSortEntry \<Rightarrow> bool" where
  "same_row def cols a b \<longleftrightarrow> list_all (\<lambda>c. compare_values (col_type (columns def ! c)) (entry_row a ! c) (entry_row b ! c) = 0) cols"

fun dedup_loop :: "('a \<Rightarrow> 'a \<Rightarrow> bool) \<Rightarrow> 'a list \<Rightarrow> 'a list \<Rightarrow> 'a list" where
  "dedup_loop same kept [] = kept"
| "dedup_loop same kept (e # es) =
     (if list_ex (\<lambda>k. same e k) kept then dedup_loop same kept es else dedup_loop same (kept @ [e]) es)"

definition deduplicate_distinct_entries :: "SelectStmt \<Rightarrow> TableDef \<Rightarrow> RowSortEntry list \<Rightarrow> RowSortEntry list" where
  "deduplicate_distinct_entries stmt def es =
     (if \<not> is_distinct stmt then es else dedup_loop (same_row def (distinct_cols stmt def)) [] es)"

section \<open>Access paths\<close>

definition value_from_raw :: "ColumnType \<Rightarrow> cstr \<Rightarrow> bool \<Rightarrow> Value" where
  "value_from_raw ty raw null =
     (if null \<or> raw = [] then value_init\<lparr>is_null := True\<rparr>
      else case ty of
        COL_INT \<Rightarrow> value_init\<lparr>int_val := atoi raw\<rparr>
      | COL_FLOAT \<Rightarrow> value_init\<lparr>float_val := f32_of_f64 (atof raw), double_val := atof raw\<rparr>
      | COL_DOUBLE \<Rightarrow> value_init\<lparr>double_val := atof raw\<rparr>
      | COL_NUMERIC \<Rightarrow> value_init\<lparr>double_val := atof raw\<rparr>
      | COL_DECIMAL \<Rightarrow> value_init\<lparr>double_val := atof raw\<rparr>
      | COL_BOOL \<Rightarrow> value_init\<lparr>bool_val := parse_bool raw\<rparr>
      | _ \<Rightarrow> value_set_text value_init (Some raw))"

datatype AccessPath = ACCESS_SCAN | ACCESS_PK_SEEK SingleCond | ACCESS_INDEX_SEEK nat SingleCond

definition plain_literal :: "SingleCond \<Rightarrow> bool" where
  "plain_literal c \<longleftrightarrow> \<not> is_subquery c \<and> raw_val c \<noteq> [] \<and> strcasecmp (raw_val c) [110, 117, 108, 108] \<noteq> 0 \<and>
     cond_op c \<noteq> OP_IS_NULL \<and> cond_op c \<noteq> OP_IS_NOT_NULL"

definition seekable :: "SingleCond \<Rightarrow> bool" where
  "seekable c \<longleftrightarrow> cond_op c = OP_EQ \<or> cond_op c = OP_GT \<or> cond_op c = OP_GTE"

definition pk_cond :: "TableDef \<Rightarrow> SingleCond \<Rightarrow> bool" where
  "pk_cond def c \<longleftrightarrow> plain_literal c \<and> strcmp (col_name (columns def ! 0)) (cond_col c) = 0 \<and> seekable c"

definition index_cond :: "TableDef \<Rightarrow> SingleCond \<times> nat \<Rightarrow> bool" where
  "index_cond def p \<longleftrightarrow> (case p of (c, i) \<Rightarrow>
     (let col = columns def ! i
      in plain_literal c \<and> has_index col \<and> index_root_page col \<noteq> 0 \<and> \<not> idx_is_partial col \<and> \<not> idx_is_expr col
         \<and> strcmp (col_name col) (cond_col c) = 0 \<and> seekable c))"

definition choose_path :: "TableDef \<Rightarrow> WhereClause \<Rightarrow> AccessPath" where
  "choose_path def wc =
     (if has_where wc \<and> conds wc \<noteq> [] \<and> list_all (\<lambda>op. op = LOGIC_AND) (take (length (conds wc) - 1) (logic_ops wc))
      then (case find (pk_cond def) (conds wc) of
              Some c \<Rightarrow> ACCESS_PK_SEEK c
            | None \<Rightarrow> (case find (index_cond def) (List.product (conds wc) [1..<num_cols def]) of
                Some (c, i) \<Rightarrow> ACCESS_INDEX_SEEK i c
              | None \<Rightarrow> ACCESS_SCAN))
      else ACCESS_SCAN)"

section \<open>Collecting rows\<close>

text \<open>What every loop does with the row under the cursor: is it visible, does it satisfy the clause?\<close>

definition visit_row ::
    "expr_fun \<Rightarrow> SelectStmt \<Rightarrow> TableDef \<Rightarrow> Catalog \<Rightarrow> 64 word \<Rightarrow> 64 word \<Rightarrow> Cursor \<Rightarrow> RowSortEntry list \<Rightarrow> Pager
     \<Rightarrow> (bool \<times> RowSortEntry list \<times> Pager) option" where
  "visit_row expr stmt def cat snap now c es pg = do {
     (b, pg) \<leftarrow> cursor_value c pg;
     case row_is_visible_and_active def b snap now of
       None \<Rightarrow> Some (False, es, pg)
     | Some row_vals \<Rightarrow> do {
         (ok, pg) \<leftarrow> eval_where_clause def row_vals (where_clause stmt) cat pg;
         Some (True, if ok then es @ [add_selected_row expr stmt def row_vals] else es, pg) } }"

definition scan_body where
  "scan_body expr stmt def cat snap now c es pg = do {
     (vis, es, pg) \<leftarrow> visit_row expr stmt def cat snap now c es pg;
     Some (True, es, pg) }"

text \<open>An equality seek: while the key is the one sought, up to the first visible row.\<close>

definition equal_body where
  "equal_body expr stmt def cat snap now target c es pg = do {
     (cur_pk, pg) \<leftarrow> btree_key_value def c pg;
     if compare_values (col_type (columns def ! 0)) cur_pk target \<noteq> 0 then Some (False, es, pg)
     else do {
       (vis, es, pg) \<leftarrow> visit_row expr stmt def cat snap now c es pg;
       Some (\<not> vis, es, pg) } }"

definition equal_seek where
  "equal_seek expr stmt def cat snap now target es pg = do {
     (c, pg) \<leftarrow> btree_find def target pg;
     c \<leftarrow> c;
     (c, es, pg) \<leftarrow> scan_loop (equal_body expr stmt def cat snap now target) c es pg;
     Some (es, pg) }"

definition index_def :: "TableDef \<Rightarrow> nat \<Rightarrow> TableDef" where
  "index_def def i =
     tabledef_compute ((plain_table [])\<lparr>
       tbl_name := take 127 ([95, 105, 100, 120, 95] @ take 31 (tbl_name def) @ [95] @ take 31 (col_name (columns def ! i))),
       root_page_num := index_root_page (columns def ! i),
       columns := [columns def ! i, (plain_column COL_INT)\<lparr>col_name := [105, 100], col_size := 4\<rparr>]\<rparr>)"

definition index_body where
  "index_body expr stmt def cat snap now i cond target c es pg = do {
     (b, pg) \<leftarrow> cursor_value c pg;
     let vals = fst (deserialize_row (index_def def i) b);
     if cond_op cond = OP_EQ \<and> compare_values (col_type (columns def ! i)) (vals ! 0) target \<noteq> 0
     then Some (False, es, pg)
     else do {
       (es, pg) \<leftarrow> equal_seek expr stmt def cat snap now (vals ! 1) es pg;
       Some (True, es, pg) } }"

definition collect_rows :: "expr_fun \<Rightarrow> SelectStmt \<Rightarrow> TableDef \<Rightarrow> Catalog \<Rightarrow> 64 word \<Rightarrow> 64 word \<Rightarrow> AccessPath \<Rightarrow> Pager
    \<Rightarrow> (RowSortEntry list \<times> Pager) option" where
  "collect_rows expr stmt def cat snap now path pg =
     (case path of
        ACCESS_PK_SEEK cond \<Rightarrow>
          (let target = value_from_raw (col_type (columns def ! 0)) (raw_val cond) False
           in if cond_op cond = OP_EQ then equal_seek expr stmt def cat snap now target [] pg
              else do {
                (c, pg) \<leftarrow> btree_find def target pg;
                c \<leftarrow> c;
                (c, es, pg) \<leftarrow> scan_loop (scan_body expr stmt def cat snap now) c [] pg;
                Some (es, pg) })
      | ACCESS_INDEX_SEEK i cond \<Rightarrow>
          (let target = value_from_raw (col_type (columns def ! i)) (raw_val cond) False
           in do {
             (c, pg) \<leftarrow> btree_find (index_def def i) target pg;
             c \<leftarrow> c;
             (c, es, pg) \<leftarrow> scan_loop (index_body expr stmt def cat snap now i cond target) c [] pg;
             Some (es, pg) })
      | ACCESS_SCAN \<Rightarrow> do {
          (c, pg) \<leftarrow> btree_start def pg;
          (c, es, pg) \<leftarrow> scan_loop (scan_body expr stmt def cat snap now) c [] pg;
          Some (es, pg) })"

section \<open>The statement\<close>

definition limit_rows :: "SelectStmt \<Rightarrow> 'a list \<Rightarrow> 'a list" where
  "limit_rows stmt xs =
     (let offset = (if has_offset stmt \<and> offset_val stmt > 0 then nat (offset_val stmt) else 0);
          limit = (if has_limit stmt \<and> limit_val stmt \<ge> 0 then (offset + nat (limit_val stmt)) mod 2 ^ 32 else length xs);
          limit = (if limit > length xs then length xs else limit)
      in drop offset (take limit xs))"

definition finish_rows :: "SelectStmt \<Rightarrow> TableDef \<Rightarrow> RowSortEntry list \<Rightarrow> RowSortEntry list" where
  "finish_rows stmt def es =
     (let es = (if has_order_by stmt \<and> length es > 1 then qsort compare_row_sort_entries es else es)
      in limit_rows stmt (deduplicate_distinct_entries stmt def es))"

definition run_select :: "expr_fun \<Rightarrow> SelectStmt \<Rightarrow> TableDef \<Rightarrow> Catalog \<Rightarrow> Pager \<Rightarrow> (Value list list \<times> Pager) option" where
  "run_select expr stmt def cat pg = do {
     (es, pg) \<leftarrow> collect_rows expr stmt def cat (get_current_snapshot_xid pg) (time_now pg) (choose_path def (where_clause stmt)) pg;
     Some (map entry_row (finish_rows stmt def es), pg) }"

end
