(* ===== verification/Select_Order.thy ===== *)
theory Select_Order
  imports Select
begin

text \<open>
  \<open>ORDER BY\<close>, \<open>DISTINCT\<close>, \<open>LIMIT\<close>: what becomes of the rows that a select has collected.  The comparison
  of entries is an instance of \<open>comparator\<close> once all entries have keys of the same types, which is so
  when every item names a column; then \<open>qsort\<close> sorts.
\<close>

section \<open>Comparing entries\<close>

text \<open>The type, collation and direction of every key of an entry.\<close>

type_synonym shape = "(ColumnType \<times> CollationType \<times> bool) list"

definition key_fits :: "ColumnType \<Rightarrow> CollationType \<Rightarrow> SortKey \<Rightarrow> bool" where
  "key_fits ty coll k \<longleftrightarrow> sort_type k = ty \<and> sort_coll k = coll \<and>
     (is_number_type ty \<longrightarrow> is_null (key_val k) \<or> \<not> f64_nan (number_of ty (key_val k)))"

lemma compare_sort_key_null:
  "is_null (key_val a) \<or> is_null (key_val b) \<Longrightarrow> compare_sort_key a b =
     (if is_null (key_val a) \<and> is_null (key_val b) then 0 else if is_null (key_val a) then -1 else 1)"
  by (auto simp: compare_sort_key_def Let_def)

lemma compare_sort_key_cases:
  assumes "key_fits ty coll a" "key_fits ty coll b" "\<not> is_null (key_val a)" "\<not> is_null (key_val b)"
  shows "compare_sort_key a b =
    (if is_number_type ty then f64_cmp (number_of ty (key_val a)) (number_of ty (key_val b))
     else if ty = COL_BOOL then bool_cmp (bool_val (key_val a)) (bool_val (key_val b))
     else compare_strings_collated (sort_text ty (key_val a)) (sort_text ty (key_val b)) coll)"
  using assms by (simp add: compare_sort_key_def key_fits_def Let_def)

interpretation sort_key_order: comparator compare_sort_key "key_fits ty coll"
proof
  show "sgn (compare_sort_key y x) = - sgn (compare_sort_key x y)" if "key_fits ty coll x" "key_fits ty coll y" for x y
  proof (cases "is_null (key_val x) \<or> is_null (key_val y)")
    case False
    with that show ?thesis
      using f64_order.cmp_swap [of "number_of ty (key_val x)" "number_of ty (key_val y)"]
        bool_order.cmp_swap [of "bool_val (key_val x)" "bool_val (key_val y)"]
        collated_order.cmp_swap [where x = "sort_text ty (key_val x)" and y = "sort_text ty (key_val y)" and coll = coll]
      by (simp add: compare_sort_key_cases [OF that] compare_sort_key_cases [OF that(2,1)] key_fits_def)
  qed (auto simp: compare_sort_key_null)
  show "compare_sort_key x z \<le> 0"
    if "key_fits ty coll x" "key_fits ty coll y" "key_fits ty coll z" "compare_sort_key x y \<le> 0" "compare_sort_key y z \<le> 0" for x y z
  proof (cases "is_null (key_val x) \<or> is_null (key_val y) \<or> is_null (key_val z)")
    case True
    then show ?thesis using that(4,5)
      by (cases "is_null (key_val x)"; cases "is_null (key_val y)"; cases "is_null (key_val z)") (simp_all add: compare_sort_key_null)
  next
    case False
    with that show ?thesis
      using f64_order.cmp_trans [of "number_of ty (key_val x)" "number_of ty (key_val y)" "number_of ty (key_val z)"]
        bool_order.cmp_trans [of "bool_val (key_val x)" "bool_val (key_val y)" "bool_val (key_val z)"]
        collated_order.cmp_trans [where x = "sort_text ty (key_val x)" and y = "sort_text ty (key_val y)" and z = "sort_text ty (key_val z)" and coll = coll]
      by (auto simp: compare_sort_key_cases [OF that(1,2)] compare_sort_key_cases [OF that(2,3)]
          compare_sort_key_cases [OF that(1,3)] key_fits_def split: if_splits)
  qed
qed

text \<open>With the direction.\<close>

definition signed_compare :: "bool \<Rightarrow> SortKey \<Rightarrow> SortKey \<Rightarrow> int" where
  "signed_compare desc a b = (if desc then - compare_sort_key a b else compare_sort_key a b)"

interpretation signed_order: comparator "signed_compare desc" "key_fits ty coll"
proof
  note ge = sort_key_order.cmp_ge_iff [of ty coll]
  show "sgn (signed_compare desc y x) = - sgn (signed_compare desc x y)" if "key_fits ty coll x" "key_fits ty coll y" for x y
    using sort_key_order.cmp_swap [OF that] by (simp add: signed_compare_def)
  show "signed_compare desc x z \<le> 0"
    if "key_fits ty coll x" "key_fits ty coll y" "key_fits ty coll z" "signed_compare desc x y \<le> 0" "signed_compare desc y z \<le> 0" for x y z
    using that sort_key_order.cmp_trans [OF that(1-3)] sort_key_order.cmp_trans [OF that(3,2,1)]
      ge [OF that(1,2)] ge [OF that(2,3)] ge [OF that(1,3)]
    by (simp add: signed_compare_def split: if_splits)
qed

lemma compare_sort_keys_Cons:
  "compare_sort_keys (a # as) (b # bs) =
     (if signed_compare (sort_desc a) a b \<noteq> 0 then signed_compare (sort_desc a) a b else compare_sort_keys as bs)"
  by (simp add: signed_compare_def Let_def)

fun keys_fit :: "shape \<Rightarrow> SortKey list \<Rightarrow> bool" where
  "keys_fit [] ks \<longleftrightarrow> ks = []"
| "keys_fit ((ty, coll, desc) # sh) ks \<longleftrightarrow>
     (\<exists>k ks'. ks = k # ks' \<and> key_fits ty coll k \<and> sort_desc k = desc \<and> keys_fit sh ks')"

lemma compare_sort_keys_swap:
  "keys_fit sh as \<Longrightarrow> keys_fit sh bs \<Longrightarrow> sgn (compare_sort_keys bs as) = - sgn (compare_sort_keys as bs)"
proof (induction sh arbitrary: as bs)
  case (Cons s sh)
  obtain ty coll desc where s: "s = (ty, coll, desc)" by (cases s)
  obtain a as' where a: "as = a # as'" "key_fits ty coll a" "sort_desc a = desc" "keys_fit sh as'" using Cons.prems(1) s by auto
  obtain b bs' where b: "bs = b # bs'" "key_fits ty coll b" "sort_desc b = desc" "keys_fit sh bs'" using Cons.prems(2) s by auto
  have "sgn (signed_compare desc b a) = - sgn (signed_compare desc a b)" by (rule signed_order.cmp_swap [OF a(2) b(2)])
  moreover from this have "signed_compare desc b a = 0 \<longleftrightarrow> signed_compare desc a b = 0" by (metis neg_equal_0_iff_equal sgn_0_0)
  ultimately show ?case using Cons.IH [OF a(4) b(4)] unfolding a(1) b(1) compare_sort_keys_Cons a(3) b(3) by simp
qed simp

lemma compare_sort_keys_trans:
  "keys_fit sh as \<Longrightarrow> keys_fit sh bs \<Longrightarrow> keys_fit sh cs \<Longrightarrow> compare_sort_keys as bs \<le> 0 \<Longrightarrow> compare_sort_keys bs cs \<le> 0 \<Longrightarrow>
   compare_sort_keys as cs \<le> 0"
proof (induction sh arbitrary: as bs cs)
  case (Cons s sh)
  obtain ty coll desc where s: "s = (ty, coll, desc)" by (cases s)
  obtain a as' where a: "as = a # as'" "key_fits ty coll a" "sort_desc a = desc" "keys_fit sh as'" using Cons.prems(1) s by auto
  obtain b bs' where b: "bs = b # bs'" "key_fits ty coll b" "sort_desc b = desc" "keys_fit sh bs'" using Cons.prems(2) s by auto
  obtain c cs' where c: "cs = c # cs'" "key_fits ty coll c" "sort_desc c = desc" "keys_fit sh cs'" using Cons.prems(3) s by auto
  let ?s = "signed_compare desc"
  note le = Cons.prems(4,5) [unfolded a(1) b(1) c(1) compare_sort_keys_Cons a(3) b(3) c(3)]
  have ab: "?s a b \<le> 0" and bc: "?s b c \<le> 0" using le by (auto split: if_splits)
  have ac: "?s a c \<le> 0" by (rule signed_order.cmp_trans [OF a(2) b(2) c(2) ab bc])
  show ?case
  proof (cases "?s a c = 0")
    case False
    then show ?thesis unfolding a(1) c(1) compare_sort_keys_Cons a(3) using ac by simp
  next
    case True
    then have ca: "?s c a \<le> 0" using signed_order.cmp_ge_iff [OF a(2) c(2), of desc] by simp
    have "?s b c = 0" "?s a b = 0"
      using signed_order.cmp_trans [OF c(2) a(2) b(2) ca ab] signed_order.cmp_trans [OF b(2) c(2) a(2) bc ca] ab bc
        signed_order.cmp_ge_iff [OF b(2) c(2), of desc] signed_order.cmp_ge_iff [OF a(2) b(2), of desc] by simp_all
    then show ?thesis using le True Cons.IH [OF a(4) b(4) c(4)] unfolding a(1) c(1) compare_sort_keys_Cons a(3) by simp
  qed
qed simp

interpretation entry_order: comparator compare_row_sort_entries "\<lambda>e. keys_fit sh (sort_keys e)"
  by unfold_locales (auto simp: compare_row_sort_entries_def intro: compare_sort_keys_swap compare_sort_keys_trans)

section \<open>Sorting\<close>

text \<open>Every item of the clause names a column: then the entries of all rows have the same shape.\<close>

definition item_column :: "SelectStmt \<Rightarrow> TableDef \<Rightarrow> OrderByItem \<Rightarrow> nat option" where
  "item_column stmt def it = find_column strcasecmp (resolve_item (select_cols stmt) (item_col it)) (columns def)"

definition order_shape :: "SelectStmt \<Rightarrow> TableDef \<Rightarrow> shape" where
  "order_shape stmt def = map (\<lambda>it. (col_type (columns def ! the (item_column stmt def it)), item_collation it, item_desc it))
     (take 4 (order_items stmt))"

text \<open>No NaN in a column that is sorted by.\<close>

definition sortable :: "SelectStmt \<Rightarrow> TableDef \<Rightarrow> Value list \<Rightarrow> bool" where
  "sortable stmt def row_vals \<longleftrightarrow> (\<forall>it \<in> set (order_items stmt). \<exists>c. item_column stmt def it = Some c \<and>
     (is_number_type (col_type (columns def ! c)) \<longrightarrow> is_null (row_vals ! c) \<or>
      \<not> f64_nan (number_of (col_type (columns def ! c)) (row_vals ! c))))"

lemma value_copy_scalars [simp]:
  "is_null (value_copy d v) = is_null v" "int_val (value_copy d v) = int_val v" "float_val (value_copy d v) = float_val v"
  "double_val (value_copy d v) = double_val v" "bool_val (value_copy d v) = bool_val v"
  by (simp_all add: value_copy_def value_set_text_len_def Let_def)

lemma number_of_copy [simp]: "number_of ty (value_copy d v) = number_of ty v"
  by (simp add: number_of_def)

lemma item_key_column:
  "item_column stmt def it = Some c \<Longrightarrow> item_key expr (select_cols stmt) def row_vals it =
     Some \<lparr>key_val = value_copy zero_value (row_vals ! c), sort_type = col_type (columns def ! c),
           sort_coll = item_collation it, sort_desc = item_desc it\<rparr>"
  by (simp add: item_key_def item_column_def)

lemma map_filter_all: "\<forall>x \<in> set xs. \<exists>y. f x = Some y \<Longrightarrow> List.map_filter f xs = map (\<lambda>x. the (f x)) xs"
  by (induction xs) auto

lemma keys_fit_map:
  "\<forall>it \<in> set its. key_fits (ty it) (coll it) (k it) \<and> sort_desc (k it) = desc it \<Longrightarrow>
   keys_fit (map (\<lambda>it. (ty it, coll it, desc it)) its) (map k its)"
  by (induction its) auto

lemma selected_row_fits:
  assumes "sortable stmt def row_vals"
  shows "keys_fit (order_shape stmt def) (sort_keys (add_selected_row expr stmt def row_vals))"
proof -
  let ?key = "item_key expr (select_cols stmt) def row_vals"
  have k: "\<forall>it \<in> set (order_items stmt). \<exists>y. ?key it = Some y"
    using assms item_key_column by (fastforce simp: sortable_def)
  have "keys_fit (map (\<lambda>it. (col_type (columns def ! the (item_column stmt def it)), item_collation it, item_desc it)) (take 4 (order_items stmt)))
      (map (\<lambda>it. the (?key it)) (take 4 (order_items stmt)))"
  proof (rule keys_fit_map, intro ballI)
    fix it assume "it \<in> set (take 4 (order_items stmt))"
    then obtain c where "item_column stmt def it = Some c"
      "is_number_type (col_type (columns def ! c)) \<longrightarrow> is_null (row_vals ! c) \<or> \<not> f64_nan (number_of (col_type (columns def ! c)) (row_vals ! c))"
      using assms in_set_takeD unfolding sortable_def by metis
    then show "key_fits (col_type (columns def ! the (item_column stmt def it))) (item_collation it) (the (?key it)) \<and>
        sort_desc (the (?key it)) = item_desc it"
      by (simp add: item_key_column key_fits_def)
  qed
  then show ?thesis by (simp add: add_selected_row_def map_filter_all [OF k] order_shape_def take_map)
qed


lemma qsort_constant: "\<forall>x \<in> set xs. \<forall>y \<in> set xs. cmp x y \<le> 0 \<Longrightarrow> qsort cmp xs = xs"
proof (induction xs)
  case (Cons x xs)
  then have "qsort cmp xs = xs" by simp
  then show ?case using Cons.prems by (cases xs) (simp_all add: qsort_def)
qed (simp add: qsort_def)

text \<open>
  \<open>ORDER BY\<close> on a date.  Dates and times are stored as text, but the comparison of entries takes
  them for the empty string: ordering by a \<open>DATE\<close>, \<open>TIME\<close>, \<open>DATETIME\<close> or \<open>TIMESTAMP\<close> column without NULLs
  leaves the rows in the order in which they were collected.
\<close>

theorem order_by_date_no_effect:
  assumes "order_items stmt = [it]" "item_column stmt def it = Some c" "\<forall>row \<in> set rows. \<not> is_null (row ! c)"
    and "col_type (columns def ! c) \<in> {COL_DATE, COL_TIME, COL_DATETIME, COL_TIMESTAMP}"
    and "\<not> is_distinct stmt" "\<not> has_limit stmt" "\<not> has_offset stmt"
  shows "finish_rows stmt def (map (add_selected_row expr stmt def) rows) = map (add_selected_row expr stmt def) rows"
proof -
  let ?es = "map (add_selected_row expr stmt def) rows"
  have "compare_row_sort_entries (add_selected_row expr stmt def r) (add_selected_row expr stmt def s) = 0"
    if "r \<in> set rows" "s \<in> set rows" for r s
    using that assms(1-4)
    by (auto simp: compare_row_sort_entries_def add_selected_row_def map_filter_all item_key_column Let_def
        compare_sort_key_def sort_text_def compare_strings_collated_eq)
  then have "qsort compare_row_sort_entries ?es = ?es" by (intro qsort_constant) auto
  then show ?thesis
    using assms(5-7) by (simp add: finish_rows_def limit_rows_def deduplicate_distinct_entries_def Let_def)
qed

section \<open>DISTINCT\<close>

text \<open>What the loop keeps: a sublist with no two alike in which every row has its like.\<close>

lemma dedup_loop:
  assumes "\<forall>i < length kept. \<forall>j < i. \<not> same (kept ! i) (kept ! j)"
  shows "\<exists>more. dedup_loop same kept es = kept @ more \<and> subseq more es \<and>
    (\<forall>i < length (kept @ more). \<forall>j < i. \<not> same ((kept @ more) ! i) ((kept @ more) ! j)) \<and>
    (\<forall>e \<in> set es. e \<in> set more \<or> (\<exists>k \<in> set (kept @ more). same e k))"
  using assms
proof (induction es arbitrary: kept)
  case (Cons e es)
  show ?case
  proof (cases "list_ex (\<lambda>k. same e k) kept")
    case True
    obtain more where m: "dedup_loop same kept es = kept @ more" "subseq more es"
      "\<forall>i < length (kept @ more). \<forall>j < i. \<not> same ((kept @ more) ! i) ((kept @ more) ! j)"
      "\<forall>x \<in> set es. x \<in> set more \<or> (\<exists>k \<in> set (kept @ more). same x k)"
      using Cons.IH [OF Cons.prems] by blast
    have "subseq more (e # es)" using m(2) by (rule list_emb_Cons)
    with m True show ?thesis by (intro exI [of _ more]) (auto simp: list_ex_iff)
  next
    case False
    have new: "\<not> same e (kept ! j)" if "j < length kept" for j using False that by (auto simp: list_ex_iff)
    have "\<forall>i < length (kept @ [e]). \<forall>j < i. \<not> same ((kept @ [e]) ! i) ((kept @ [e]) ! j)"
      using Cons.prems new by (auto simp: nth_append less_Suc_eq)
    from Cons.IH [OF this] obtain more where m: "dedup_loop same (kept @ [e]) es = (kept @ [e]) @ more" "subseq more es"
      "\<forall>i < length ((kept @ [e]) @ more). \<forall>j < i. \<not> same (((kept @ [e]) @ more) ! i) (((kept @ [e]) @ more) ! j)"
      "\<forall>x \<in> set es. x \<in> set more \<or> (\<exists>k \<in> set ((kept @ [e]) @ more). same x k)"
      by blast
    with False show ?thesis by (intro exI [of _ "e # more"]) auto
  qed
qed auto

text \<open>
  \<open>DISTINCT\<close>.  The rows that remain are a sublist of those collected, in which no row is the same
  as an earlier one in the selected columns, and every row that was dropped is the same as one kept.
\<close>

theorem distinct_keeps_representatives:
  assumes "is_distinct stmt"
  shows "let out = deduplicate_distinct_entries stmt def es; same = same_row def (distinct_cols stmt def)
    in subseq out es \<and> (\<forall>i < length out. \<forall>j < i. \<not> same (out ! i) (out ! j)) \<and>
       (\<forall>e \<in> set es. e \<in> set out \<or> (\<exists>k \<in> set out. same e k))"
  using dedup_loop [of "[]" "same_row def (distinct_cols stmt def)" es] assms
  by (auto simp: deduplicate_distinct_entries_def Let_def)

text \<open>
  \<open>DISTINCT\<close> on expressions.  A selected name that is no column is skipped in the comparison; when
  all are (\<open>SELECT DISTINCT upper(name)\<close>), all rows are taken for the same and only one is returned.
\<close>

theorem distinct_expression_one_row:
  assumes "is_distinct stmt" "select_cols stmt \<noteq> []" "\<forall>name \<in> set (select_cols stmt). find_column strcmp name (columns def) = None"
  shows "deduplicate_distinct_entries stmt def es = take 1 es"
proof -
  have "List.map_filter (\<lambda>name. find_column strcmp name (columns def)) sel = []"
    if "\<forall>name \<in> set sel. find_column strcmp name (columns def) = None" for sel
    using that by (induction sel) (auto simp: map_filter_simps)
  from this [OF assms(3)] have s: "same_row def (distinct_cols stmt def) = (\<lambda>a b. True)" using assms(2) by (auto simp: same_row_def distinct_cols_def fun_eq_iff)
  have "dedup_loop (\<lambda>a b. True) [e] xs = [e]" for e :: RowSortEntry and xs by (induction xs) auto
  then show ?thesis using assms(1) s by (cases es) (simp_all add: deduplicate_distinct_entries_def)
qed

section \<open>LIMIT\<close>

text \<open>
  \<open>LIMIT\<close> and \<open>OFFSET\<close>.  For all values of the two 32-bit integers the sum that the code forms in
  an unsigned 32-bit integer does not wrap, and the rows printed are the first \<open>limit\<close> after \<open>offset\<close>.
\<close>

theorem limit_window:
  assumes "offset_val stmt < 2 ^ 31" "limit_val stmt < 2 ^ 31" "has_limit stmt" "0 \<le> limit_val stmt"
  shows "limit_rows stmt xs = take (nat (limit_val stmt)) (drop (if has_offset stmt then nat (offset_val stmt) else 0) xs)"
proof -
  define off where "off = (if has_offset stmt \<and> offset_val stmt > 0 then nat (offset_val stmt) else 0)"
  have "off < 2 ^ 31" "nat (limit_val stmt) < 2 ^ 31" using assms(1,2) by (auto simp: off_def)
  then have sum: "(off + nat (limit_val stmt)) mod 2 ^ 32 = off + nat (limit_val stmt)" by simp
  have off: "(if has_offset stmt then nat (offset_val stmt) else 0) = off" by (simp add: off_def)
  show ?thesis
    using assms(3,4) unfolding limit_rows_def off_def [symmetric] Let_def off sum
    by (simp add: take_drop add.commute)
qed

section \<open>At concrete statements\<close>

definition plain_select :: SelectStmt where
  "plain_select = \<lparr>where_clause = \<lparr>has_where = False, conds = [], logic_ops = []\<rparr>, has_order_by = False, order_by_items = [],
     order_by_col = [], order_by_desc = False, order_by_collation = COLL_NOT_SET, select_cols = [], is_distinct = False,
     has_limit = False, limit_val = 0, has_offset = False, offset_val = 0\<rparr>"

text \<open>\<open>ORDER BY\<close> the only column of a table.\<close>

definition by_col :: SelectStmt where
  "by_col = plain_select\<lparr>has_order_by := True, order_by_items := [\<lparr>item_col = [], item_desc = True, item_collation = COLL_NOT_SET\<rparr>]\<rparr>"

lemma by_col_items:
  "order_items by_col = [\<lparr>item_col = [], item_desc = True, item_collation = COLL_NOT_SET\<rparr>]"
  "item_column by_col (plain_table [ty]) \<lparr>item_col = [], item_desc = True, item_collation = COLL_NOT_SET\<rparr> = Some 0"
  by (simp_all add: order_items_def by_col_def item_column_def resolve_item_def find_column_def plain_column_def strcasecmp_def)

abbreviation bool_row :: "bool \<Rightarrow> Value list" where
  "bool_row b \<equiv> [value_init\<lparr>bool_val := b\<rparr>]"

lemma by_col_fields: "has_order_by by_col" "\<not> is_distinct by_col" "\<not> has_limit by_col" "\<not> has_offset by_col"
  by (simp_all add: by_col_def plain_select_def)


theorem order_by_date_no_effect_witness:
  "let es = map (add_selected_row (\<lambda>_ _ _. []) by_col (plain_table [COL_DATE])) [[value_set_text value_init (Some [50])], [value_set_text value_init (Some [49])]]
   in finish_rows by_col (plain_table [COL_DATE]) es = es"
  unfolding Let_def
  by (rule order_by_date_no_effect [OF by_col_items(1) by_col_items(2) _ _ by_col_fields(2-4)])
    (simp_all add: value_set_text_def value_set_text_len_def Let_def plain_column_def)

abbreviation plain_entry :: "bool \<Rightarrow> RowSortEntry" where
  "plain_entry b \<equiv> \<lparr>entry_row = bool_row b, sort_keys = []\<rparr>"

theorem distinct_keeps_representatives_witness:
  "let out = deduplicate_distinct_entries (plain_select\<lparr>is_distinct := True\<rparr>) (plain_table [COL_BOOL]) [plain_entry True, plain_entry True]
   in subseq out [plain_entry True, plain_entry True]"
  using distinct_keeps_representatives [of "plain_select\<lparr>is_distinct := True\<rparr>" "plain_table [COL_BOOL]" "[plain_entry True, plain_entry True]"]
  by (simp add: Let_def)

theorem distinct_expression_one_row_witness:
  "deduplicate_distinct_entries (plain_select\<lparr>is_distinct := True, select_cols := [[120]]\<rparr>) (plain_table [COL_BOOL])
     [plain_entry True, plain_entry False] = [plain_entry True]"
  using distinct_expression_one_row [of "plain_select\<lparr>is_distinct := True, select_cols := [[120]]\<rparr>" "plain_table [COL_BOOL]"
      "[plain_entry True, plain_entry False]"]
  by (simp add: find_column_def plain_column_def)

theorem limit_window_witness:
  "limit_rows (plain_select\<lparr>has_limit := True, limit_val := 2, has_offset := True, offset_val := 1\<rparr>) [10, 20, 30, 40 :: nat] = [20, 30]"
  using limit_window [of "plain_select\<lparr>has_limit := True, limit_val := 2, has_offset := True, offset_val := 1\<rparr>" "[10, 20, 30, 40 :: nat]"]
  by (simp add: numeral_2_eq_2)

end
