(* ===== verification/Where_Rows.thy ===== *)
theory Where_Rows
  imports Where Btree_Sample
begin

text \<open>
  What a WHERE clause means on the rows that the tables store, and that its evaluation, which searches
  the subqueries' tables through the pager, computes just that.
\<close>

section \<open>The meaning of a clause\<close>

text \<open>Every table of the catalog is stored; \<open>rs\<close> gives the rows of a table, \<open>ds\<close> the height of its tree.\<close>

definition catalog_stored :: "Catalog \<Rightarrow> pages \<Rightarrow> nat \<Rightarrow> (TableDef \<Rightarrow> nat) \<Rightarrow> (TableDef \<Rightarrow> stored list) \<Rightarrow> bool" where
  "catalog_stored cat V reserved ds rs \<longleftrightarrow>
     (\<forall>name def. catalog_find cat name = Some def \<longrightarrow> stores def V reserved (ds def) (rs def))"

definition exists_meaning :: "(TableDef \<Rightarrow> stored list) \<Rightarrow> Column list \<Rightarrow> Value list \<Rightarrow> Catalog \<Rightarrow> SingleCond \<Rightarrow> bool" where
  "exists_meaning rs cols row_vals cat cond \<longleftrightarrow>
     (\<exists>sd. catalog_find cat (sub_table cond) = Some sd \<and>
       (is_exists cond \<longleftrightarrow> (\<exists>r \<in> set (rs sd). sub_passes cond (exists_filter cond cols row_vals) sd (fst r))))"

definition in_meaning :: "(TableDef \<Rightarrow> stored list) \<Rightarrow> ColumnType \<Rightarrow> Value \<Rightarrow> Catalog \<Rightarrow> SingleCond \<Rightarrow> bool" where
  "in_meaning rs ty actual cat cond \<longleftrightarrow>
     (\<exists>sd s. catalog_find cat (sub_table cond) = Some sd \<and> find_column strcmp (sub_col cond) (columns sd) = Some s \<and>
       (\<exists>r \<in> set (rs sd). sub_passes cond (\<lambda>ty. sub_filter_value ty (sub_where_val cond)) sd (fst r) \<and>
          sub_equal ty actual (fst r ! s)))"

definition cond_meaning :: "(TableDef \<Rightarrow> stored list) \<Rightarrow> Column list \<Rightarrow> Value list \<Rightarrow> Catalog \<Rightarrow> SingleCond \<Rightarrow> bool" where
  "cond_meaning rs cols row_vals cat cond \<longleftrightarrow>
     (if is_exists cond \<or> is_not_exists cond then exists_meaning rs cols row_vals cat cond
      else \<exists>i. find_cond_column (cond_col cond) cols = Some i \<and>
        (if is_subquery cond then in_meaning rs (col_type (cols ! i)) (row_vals ! i) cat cond
         else cond_holds cond (cols ! i) (row_vals ! i)))"

text \<open>A list of AND only is a conjunction; OR mixed in joins the result so far.\<close>

definition where_meaning :: "(TableDef \<Rightarrow> stored list) \<Rightarrow> TableDef \<Rightarrow> Value list \<Rightarrow> WhereClause \<Rightarrow> Catalog \<Rightarrow> bool" where
  "where_meaning rs def row_vals wc cat \<longleftrightarrow>
     \<not> has_where wc \<or> conds wc = [] \<or>
     combine (cond_meaning rs (columns def) row_vals cat (hd (conds wc))) (logic_ops wc)
       (map (cond_meaning rs (columns def) row_vals cat) (tl (conds wc)))"

lemma combine_and:
  "length rs \<le> length ops \<Longrightarrow> list_all (\<lambda>op. op = LOGIC_AND) (take (length rs) ops) \<Longrightarrow>
   combine b ops rs \<longleftrightarrow> b \<and> list_all id rs"
  by (induction b ops rs rule: combine.induct) auto

lemma where_all_and:
  assumes "list_all (\<lambda>op. op = LOGIC_AND) (take (length (conds wc) - 1) (logic_ops wc))"
    "length (conds wc) - 1 \<le> length (logic_ops wc)" "has_where wc"
  shows "where_meaning rs def vs wc cat \<longleftrightarrow> (\<forall>c \<in> set (conds wc). cond_meaning rs (columns def) vs cat c)"
proof (cases "conds wc")
  case (Cons c cs)
  then show ?thesis
    using assms combine_and [of "map (cond_meaning rs (columns def) vs cat) cs" "logic_ops wc"]
    by (auto simp: where_meaning_def list_all_iff)
qed (simp add: where_meaning_def)

section \<open>Evaluation\<close>

lemma deserialize_row_fst: "fst (deserialize_row def b) = fst (deserialize_row_with_mvcc def b)"
  by (simp add: deserialize_row_def split: prod.split)

lemma sub_body_fetch:
  "sub_body sd hit c found pg =
     fetch_stored sd c pg \<bind> (\<lambda>(r, pg). Some (fst (\<not> hit (fst r), hit (fst r)), snd (\<not> hit (fst r), hit (fst r)), pg))"
  by (cases "cursor_value c pg") (auto simp: sub_body_def fetch_stored_def deserialize_row_fst Let_def split: prod.split)

lemma walk_find: "walk (\<lambda>r s. (\<not> hit r, hit r)) rows False \<longleftrightarrow> (\<exists>r \<in> set rows. hit r)"
  by (induction rows) auto

lemma sub_search_rows:
  assumes "stores sd V reserved d rows" "presented I V reserved pg"
  shows "\<exists>q. sub_search sd hit pg = Some (\<exists>r \<in> set rows. hit (fst r), q) \<and> presented I V reserved q"
proof -
  obtain c q where c: "btree_start sd pg = Some (c, q)" "presented I V reserved q" "on_row sd V reserved d rows c 0"
    using start_row [OF assms] by blast
  have "tree_rows.runs_as I V reserved sd d rows (sub_body sd hit) (\<lambda>r (s :: bool). (\<not> hit (fst r), hit (fst r)))"
    unfolding sub_body_fetch [abs_def] by (rule tree_rows.runs_as_fetch)
  from tree_rows.scan_walk [OF this c(2,3), of False] obtain c' t where
    "scan_loop (sub_body sd hit) c False q = Some (c', walk (\<lambda>r s. (\<not> hit (fst r), hit (fst r))) rows False, t)"
    "presented I V reserved t" by auto
  then show ?thesis using c(1) walk_find [of "\<lambda>r. hit (fst r)" rows] by (simp add: sub_search_def)
qed

lemma eval_cond_meaning:
  assumes "catalog_stored cat V reserved ds rs" "presented I V reserved pg"
  shows "\<exists>q. eval_cond cols row_vals cat cond pg = Some (cond_meaning rs cols row_vals cat cond, q) \<and> presented I V reserved q"
proof -
  have search: "\<exists>q. sub_search sd hit pg = Some (\<exists>r \<in> set (rs sd). hit (fst r), q) \<and> presented I V reserved q"
    if "catalog_find cat name = Some sd" for name sd hit
    using sub_search_rows [of sd V reserved "ds sd" "rs sd"] assms that by (auto simp: catalog_stored_def)
  have e: "\<exists>q. eval_exists cols row_vals cat cond pg = Some (exists_meaning rs cols row_vals cat cond, q) \<and> presented I V reserved q"
    if "is_exists cond \<or> is_not_exists cond"
  proof (cases "catalog_find cat (sub_table cond)")
    case (Some sd)
    from search [OF this, of "sub_passes cond (exists_filter cond cols row_vals) sd"] that Some
    show ?thesis by (auto simp: eval_exists_def exists_meaning_def)
  qed (simp add: eval_exists_def exists_meaning_def assms(2))
  have i: "\<exists>q. eval_in_subquery ty v cat cond pg = Some (in_meaning rs ty v cat cond, q) \<and> presented I V reserved q" for ty v
  proof (cases "catalog_find cat (sub_table cond)")
    case (Some sd)
    show ?thesis
    proof (cases "find_column strcmp (sub_col cond) (columns sd)")
      case (Some s)
      from search [OF \<open>catalog_find cat (sub_table cond) = Some sd\<close>, of "\<lambda>row. sub_passes cond
          (\<lambda>ty. sub_filter_value ty (sub_where_val cond)) sd row \<and> sub_equal ty v (row ! s)"]
      show ?thesis using \<open>catalog_find cat (sub_table cond) = Some sd\<close> Some
        by (auto simp: eval_in_subquery_def in_meaning_def)
    qed (simp add: eval_in_subquery_def in_meaning_def assms(2) Some)
  qed (simp add: eval_in_subquery_def in_meaning_def assms(2))
  show ?thesis
  proof (cases "is_exists cond \<or> is_not_exists cond")
    case True
    with e show ?thesis by (simp add: eval_cond_def cond_meaning_def)
  next
    case False
    then show ?thesis
      using i assms(2) by (cases "find_cond_column (cond_col cond) cols") (simp_all add: eval_cond_def cond_meaning_def)
  qed
qed

lemma eval_conds_meaning:
  assumes "catalog_stored cat V reserved ds rs" "presented I V reserved pg"
  shows "\<exists>q. eval_conds cols row_vals cat cs pg = Some (map (cond_meaning rs cols row_vals cat) cs, q) \<and> presented I V reserved q"
  using assms(2)
proof (induction cs arbitrary: pg)
  case (Cons c cs)
  from eval_cond_meaning [OF assms(1) Cons.prems] obtain q where
    q: "eval_cond cols row_vals cat c pg = Some (cond_meaning rs cols row_vals cat c, q)" "presented I V reserved q" by blast
  with Cons.IH [OF q(2)] show ?case by auto
qed simp

lemma eval_where_meaning:
  assumes "catalog_stored cat V reserved ds rs" "presented I V reserved pg"
  shows "\<exists>q. eval_where_clause def row_vals wc cat pg = Some (where_meaning rs def row_vals wc cat, q) \<and> presented I V reserved q"
proof (cases "\<not> has_where wc \<or> conds wc = []")
  case True
  then show ?thesis using assms(2) by (auto simp: eval_where_clause_def where_meaning_def)
next
  case False
  then obtain c cs where "conds wc = c # cs" by (cases "conds wc") auto
  with False eval_conds_meaning [OF assms, of "columns def" row_vals "conds wc"] show ?thesis
    by (auto simp: eval_where_clause_def where_meaning_def)
qed


section \<open>Two flaws\<close>

text \<open>
  Subqueries see what no reader should.  Take a table with rows, each of them deleted, expired or
  not yet visible to the reader.  \<open>EXISTS (SELECT ... FROM t)\<close> is true all the same: the loop of the
  subquery reads the values of the rows and never their stamps.
\<close>

theorem exists_sees_invisible_rows:
  assumes "stores sd V reserved d rows" "presents V reserved pg" "rows \<noteq> []" "\<forall>r \<in> set rows. \<not> visible snap now r"
    and "catalog_find cat (sub_table cond) = Some sd" "is_exists cond" "\<not> has_sub_where cond"
  shows "\<exists>q. eval_where_clause def row_vals \<lparr>has_where = True, conds = [cond], logic_ops = []\<rparr> cat pg = Some (True, q)"
proof -
  let ?hit = "sub_passes cond (exists_filter cond (columns def) row_vals) sd"
  have "\<exists>r \<in> set rows. ?hit (fst r)" using hd_in_set [OF assms(3)] assms(7) by (intro bexI) (simp_all add: sub_passes_def)
  with sub_search_rows [OF assms(1,2), of ?hit] obtain q where "sub_search sd ?hit pg = Some (True, q)" by auto
  then show ?thesis using assms(5,6) by (simp add: eval_where_clause_def eval_cond_def eval_exists_def)
qed

lemma strstr_empty: "strstr hay []"
  by (auto simp: strstr_def list_ex_iff)

text \<open>
  \<open>MATCH\<close> matches everything.  The literal is freed before the operators are looked at, which
  leaves the empty string; so \<open>column MATCH literal\<close> is true of every row whose column is not NULL,
  whatever the literal.
\<close>

theorem match_holds_always:
  assumes "find_cond_column (cond_col cond) (columns def) = Some i" "cond_op cond = OP_MATCH"
    "\<not> is_exists cond" "\<not> is_not_exists cond" "\<not> is_subquery cond"
  shows "eval_where_clause def row_vals \<lparr>has_where = True, conds = [cond], logic_ops = []\<rparr> cat pg =
    Some (\<not> is_null (row_vals ! i), pg)"
proof -
  have "val_text (value_free v) = []" for v by (simp add: val_text_def value_free_def c_str_def)
  then show ?thesis
    using assms strstr_empty by (simp add: eval_where_clause_def eval_cond_def cond_holds_def Let_def strcasestr_def)
qed

section \<open>At a concrete store\<close>

definition plain_cond :: "CompOp \<Rightarrow> cstr \<Rightarrow> SingleCond" where
  "plain_cond op raw = \<lparr>cond_col = [], cond_op = op, raw_val = raw, raw_val2 = [], is_subquery = False, sub_table = [],
     sub_col = [], sub_where_col = [], sub_where_op = OP_EQ, sub_where_val = [], has_sub_where = False, is_exists = False,
     is_not_exists = False, sub_where_is_correlated = False, sub_correlated_outer_col = [], cond_collation = COLL_NOT_SET\<rparr>"

definition sample_catalog :: Catalog where
  "sample_catalog = \<lparr>tables = [sample_table], num_views = 0, views = [], num_triggers = 0, triggers = []\<rparr>"

definition sample_stored :: "nat list \<Rightarrow> stored list" where
  "sample_stored xs = map (\<lambda>x. (int_row x, (0, 0, 0), 3)) xs"

lemma int_row_cell:
  assumes "serialize_row_with_mvcc sample_table (int_row x) e xmin xmax = Some rec" "length rec < BTREE_MAX_LOCAL_PAYLOAD"
  shows "cell_stores sample_table V reserved rec (int_row x, (e, xmin, xmax), length rec)"
proof -
  have r: "num_cols sample_table = length (int_row x)" "num_cols sample_table \<le> MAX_COLUMNS" "\<forall>v \<in> set (int_row x). value_wf v"
    by (simp_all add: int_row_def value_wf_def value_init_def)
  have "map2 canon (columns sample_table) (int_row x) = int_row x"
    by (simp add: int_row_def canon_def value_init_def)
  with deserialize_serialized [OF r, of e xmin xmax] assms(1)
  have "\<forall>b. get_bytes b 0 (length rec) = rec \<longrightarrow> deserialize_row_with_mvcc sample_table b = (int_row x, (e, xmin, xmax), length rec)"
    by (simp del: sample_table_simps)
  then show ?thesis using assms(2) unfolding cell_stores_def cell_holds_def by (intro exI [of _ rec]) simp
qed

lemma int_cell_stored:
  "1 < x \<Longrightarrow> x < 128 \<Longrightarrow> cell_stores sample_table V reserved (int_cell x) (int_row x, (0, 0, 0), 3)"
  using int_row_cell [OF serialize_int_row] by (simp add: numeral_3_eq_3)

lemma two_leaves_stored: "stores sample_table (view two_leaves) 0 1 (sample_stored [2, 3, 5, 7])"
proof -
  have "all_cells (view two_leaves) (leaf_pages (view two_leaves) 1 1) = map int_cell [2, 3, 5, 7]"
    using sample_leaf(1) [of "[2, 3]" 3 False] sample_leaf(1) [of "[5, 7]" 0 False]
    by (simp add: all_cells_def two_leaves two_leaves(2) [unfolded One_nat_def] sample_root)
  moreover have "list_all2 (cell_stores sample_table (view two_leaves) 0) (map int_cell xs) (sample_stored xs)"
    if "\<forall>x \<in> set xs. 1 < x \<and> x < 128" for xs
    using that int_cell_stored by (induction xs) (auto simp: sample_stored_def)
  from this [of "[2, 3, 5, 7]"]
  have "list_all2 (cell_stores sample_table (view two_leaves) 0) (map int_cell [2, 3, 5, 7]) (sample_stored [2, 3, 5, 7])" by simp
  ultimately show ?thesis using two_leaves_table unfolding stores_def sample_table_simps by metis
qed

lemma two_leaves_presents: "presents (view two_leaves) 0 two_leaves"
  using two_leaves_reading by (simp add: presents_def) (simp add: two_leaves_def)

lemma sample_catalog_stored:
  "catalog_stored sample_catalog (view two_leaves) 0 (\<lambda>_. 1) (\<lambda>_. sample_stored [2, 3, 5, 7])"
  using two_leaves_stored
  by (auto simp: catalog_stored_def sample_catalog_def catalog_find_def find_named_def find_Some_iff)

lemma find_sample: "catalog_find sample_catalog [] = Some sample_table"
  by (simp add: catalog_find_def find_named_def sample_catalog_def sample_table_def plain_table_def)

abbreviation where_2 :: WhereClause where
  "where_2 \<equiv> \<lparr>has_where = True, conds = [plain_cond OP_EQ [50]], logic_ops = []\<rparr>"


theorem match_holds_always_witness:
  "eval_where_clause sample_table (int_row 2) \<lparr>has_where = True, conds = [plain_cond OP_MATCH [120]], logic_ops = []\<rparr>
    sample_catalog two_leaves = Some (True, two_leaves)"
proof -
  have "find_cond_column (cond_col (plain_cond OP_MATCH [120])) (columns sample_table) = Some 0"
    by (simp add: plain_cond_def find_cond_column_def find_column_def plain_column_def strcasecmp_def)
  from match_holds_always [OF this, of "int_row 2" sample_catalog two_leaves] show ?thesis
    by (simp add: int_row_def value_init_def) (simp add: plain_cond_def)
qed

text \<open>A table with one row, deleted by transaction 5.\<close>

definition deleted_leaf :: buf where
  "deleted_leaf = populate_leaf [[4, 1, 14, 15, 2] @ le_bytes 8 0 @ le_bytes 8 5]
     (set_next_leaf 0 (set_node_root (initialize_leaf_node zero_buf) True))"

definition deleted_row :: Pager where
  "deleted_row = sample_pager [1 \<mapsto> deleted_leaf]"

lemma serialize_deleted:
  "serialize_row_with_mvcc sample_table (int_row 2) 0 0 5 = Some ([4, 1, 14, 15, 2] @ le_bytes 8 0 @ le_bytes 8 5)"
proof -
  have p: "put_varint 4 = [4]" "put_varint 14 = [14]" "put_varint 15 = [15]"
    by (subst put_varint.simps; simp add: word_le_nat_alt)+
  have "header_size_loop (Suc (Suc (Suc 0))) (Suc (Suc (Suc (Suc 0)))) = Some 4"
    by (subst header_size_loop.simps) (simp add: p(1))
  with p show ?thesis
    using sint_small [of 2]
    by (simp add: serialize_row_with_mvcc_def serialize_col_def hdr_add_def serialize_stamps_def
        value_init_def put_varint_small int_row_def Let_def)
qed

lemma deleted_row_stored:
  "stores sample_table (view deleted_row) 0 0 [(int_row 2, (0, 0, 5), 21)]" "presents (view deleted_row) 0 deleted_row"
proof -
  let ?c = "[4, 1, 14, 15, 2 :: byte] @ le_bytes 8 0 @ le_bytes 8 5"
  let ?b = "set_next_leaf 0 (set_node_root (initialize_leaf_node zero_buf) True)"
  have f: "leaf_node_slot (length [?c]) + sum_list (map length [?c]) \<le> PAGE_SIZE" by (simp add: slot_pos)
  note p = populate_leaf_ok [OF f fresh_leaf(1) [of 0 True], folded deleted_leaf_def]
  have ok: "\<forall>(n::nat) b. [1 \<mapsto> deleted_leaf] n = Some b \<longrightarrow> page_ok b \<and> n < 4" using leaf_okD(1) [OF p(2)] by simp
  have w: "writing deleted_row" and v: "view deleted_row 1 = deleted_leaf"
    unfolding deleted_row_def by (rule sample_writing [OF ok]; simp)+
  show "presents (view deleted_row) 0 deleted_row"
    using writing_reading [OF w] by (simp add: presents_def) (simp add: deleted_row_def)
  have l: "get_node_type deleted_leaf = NODE_LEAF" "leaf_node_next_leaf deleted_leaf = 0"
    using p(3) fresh_leaf(2-4) [of 0 True] by (simp_all add: same_links_def)
  have "leaf_rows sample_table deleted_leaf [int_row 2]"
    using serialize_deleted by (auto simp: leaf_rows_def p(1) cell_row_def)
  then have "keys sample_table deleted_leaf = [key_pad (le_bytes 4 2)]" by (simp add: leaf_rows_keys(1) int_row_key)
  then have t: "table_ok sample_table (view deleted_row) 0"
    by (simp add: table_ok_def v v [unfolded One_nat_def] l sorted_keys_def)
  have "cell_stores sample_table (view deleted_row) 0 ?c (int_row 2, (0, 0, 5), 21)"
    using int_row_cell [OF serialize_deleted] by simp
  then show "stores sample_table (view deleted_row) 0 0 [(int_row 2, (0, 0, 5), 21)]"
    using t by (simp add: stores_def all_cells_def v v [unfolded One_nat_def] p(1))
qed

theorem exists_sees_invisible_rows_witness:
  "\<exists>q. eval_where_clause sample_table (int_row 2)
    \<lparr>has_where = True, conds = [(plain_cond OP_EQ [])\<lparr>is_exists := True\<rparr>], logic_ops = []\<rparr> sample_catalog deleted_row = Some (True, q)"

proof -
  let ?c = "(plain_cond OP_EQ [])\<lparr>is_exists := True\<rparr>"
  have c: "sub_table ?c = []" "is_exists ?c" "\<not> has_sub_where ?c" by (simp_all add: plain_cond_def)
  have "\<forall>r \<in> set [(int_row 2, (0, 0, 5), 21)]. \<not> visible 9 1000 r" by (simp add: visible_def)
  from exists_sees_invisible_rows [OF deleted_row_stored _ this, of sample_catalog ?c] c find_sample
  show ?thesis by (simp only: c list.distinct not_False_eq_True simp_thms)
qed

end
