(* ===== verification/Select_Rows.thy ===== *)
theory Select_Rows
  imports Select_Order Where_Rows
begin

text \<open>
  What \<open>SELECT\<close> returns.  The reference is one line: the visible rows that satisfy the clause, in key
  order.  A scan computes it; so does a seek on an integer primary key, which reads a part of the
  table only, provided that no key has two visible versions.
\<close>

section \<open>The reference\<close>

definition chosen :: "expr_fun \<Rightarrow> SelectStmt \<Rightarrow> TableDef \<Rightarrow> Catalog \<Rightarrow> (TableDef \<Rightarrow> stored list) \<Rightarrow> 64 word \<Rightarrow> 64 word
    \<Rightarrow> stored list \<Rightarrow> RowSortEntry list" where
  "chosen expr stmt def cat rs snap now rows =
     map (\<lambda>r. add_selected_row expr stmt def (fst r))
       (filter (\<lambda>r. visible snap now r \<and> where_meaning rs def (fst r) (where_clause stmt) cat) rows)"

lemma chosen_simps [simp]:
  "chosen expr stmt def cat rs snap now [] = []"
  "chosen expr stmt def cat rs snap now (r # rows) =
     (if visible snap now r \<and> where_meaning rs def (fst r) (where_clause stmt) cat
      then add_selected_row expr stmt def (fst r) # chosen expr stmt def cat rs snap now rows
      else chosen expr stmt def cat rs snap now rows)"
  "chosen expr stmt def cat rs snap now (xs @ ys) =
     chosen expr stmt def cat rs snap now xs @ chosen expr stmt def cat rs snap now ys"
  by (simp_all add: chosen_def)

lemma chosen_empty:
  "(\<And>r. r \<in> set rows \<Longrightarrow> visible snap now r \<Longrightarrow> \<not> where_meaning rs def (fst r) (where_clause stmt) cat) \<Longrightarrow>
   chosen expr stmt def cat rs snap now rows = []"
  by (induction rows) auto

section \<open>One row\<close>

lemma visit_row_chosen:
  assumes "catalog_stored cat V reserved ds rs" "presented I V reserved pg" "on_row def V reserved d rows c n" "n < length rows"
  shows "\<exists>q. visit_row expr stmt def cat snap now c es pg =
      Some (visible snap now (rows ! n), es @ chosen expr stmt def cat rs snap now [rows ! n], q) \<and> presented I V reserved q"
proof -
  obtain q where q: "fetch_stored def c pg = Some (rows ! n, q)" "presented I V reserved q"
    using tree_rows.fetch_row [OF assms(2-4)] by blast
  then obtain b where b: "cursor_value c pg = Some (b, q)" "deserialize_row_with_mvcc def b = rows ! n"
    by (auto simp: fetch_stored_def split: bind_splits)
  obtain t where "eval_where_clause def (fst (rows ! n)) (where_clause stmt) cat q =
      Some (where_meaning rs def (fst (rows ! n)) (where_clause stmt) cat, t)" "presented I V reserved t"
    using eval_where_meaning [OF assms(1) q(2)] by blast
  then show ?thesis using b q(2) by (auto simp: visit_row_def row_visible_stored Let_def)
qed

lemma scan_body_runs:
  assumes "catalog_stored cat V reserved ds rs"
  shows "tree_rows.runs_as I V reserved def d rows (scan_body expr stmt def cat snap now)
    (\<lambda>r es. (True, es @ chosen expr stmt def cat rs snap now [r]))"
  unfolding tree_rows.runs_as_def
proof (intro allI impI)
  fix p c n es assume "presented I V reserved p" "on_row def V reserved d rows c n" "n < length rows"
  from visit_row_chosen [OF assms this, of expr stmt snap now es]
  show "\<exists>q. scan_body expr stmt def cat snap now c es p = Some (fst (True, es @ chosen expr stmt def cat rs snap now [rows ! n]),
      snd (True, es @ chosen expr stmt def cat rs snap now [rows ! n]), q) \<and> presented I V reserved q"
    by (auto simp: scan_body_def)
qed

lemma walk_chosen:
  "walk (\<lambda>r es. (True, es @ chosen expr stmt def cat rs snap now [r])) rows es = es @ chosen expr stmt def cat rs snap now rows"
  by (induction rows arbitrary: es) simp_all

lemma scan_from:
  assumes "catalog_stored cat V reserved ds rs" "presented I V reserved p" "on_row def V reserved d rows c n" "n \<le> length rows"
  shows "\<exists>c' q. scan_loop (scan_body expr stmt def cat snap now) c [] p =
      Some (c', chosen expr stmt def cat rs snap now (drop n rows), q) \<and> presented I V reserved q"
  using tree_rows.scan_walk [OF scan_body_runs [OF assms(1)] assms(2-4), of expr stmt snap now "[]"]
  unfolding walk_chosen append_Nil by blast

section \<open>A scan\<close>

lemma collect_scan:
  assumes "catalog_stored cat V reserved ds rs" "presented I V reserved pg" "stores def V reserved d rows"
  shows "\<exists>q. collect_rows expr stmt def cat snap now ACCESS_SCAN pg =
      Some (chosen expr stmt def cat rs snap now rows, q) \<and> presented I V reserved q"
proof -
  obtain c q where c: "btree_start def pg = Some (c, q)" "presented I V reserved q" "on_row def V reserved d rows c 0"
    using start_row [OF assms(3,2)] by blast
  from scan_from [OF assms(1) c(2,3), of expr stmt snap now] c(1) show ?thesis by (auto simp: collect_rows_def)
qed

section \<open>A seek on the primary key\<close>

text \<open>The keys of the tree are those of the rows, none of which is NULL.\<close>

definition keyed :: "TableDef \<Rightarrow> pages \<Rightarrow> nat \<Rightarrow> stored list \<Rightarrow> bool" where
  "keyed def V d rows \<longleftrightarrow> tree_keys def V d (root_page_num def) = map (\<lambda>r. serialize_col0_key def (fst r ! 0)) rows \<and>
     (\<forall>r \<in> set rows. \<not> is_null (fst r ! 0))"

abbreviation key_int :: "stored \<Rightarrow> int" where
  "key_int r \<equiv> sint (int_val (fst r ! 0))"

text \<open>No key has two versions that the reader sees.\<close>

definition single_versions :: "64 word \<Rightarrow> 64 word \<Rightarrow> stored list \<Rightarrow> bool" where
  "single_versions snap now rows \<longleftrightarrow> distinct (map key_int (filter (visible snap now) rows))"

lemma compare_int_col0:
  "key_type def = COL_INT \<Longrightarrow>
   compare_keys COL_INT (serialize_col0_key def v) (serialize_col0_key def w) = i32_cmp (int_val v) (int_val w)"
  by (simp add: serialize_col0_key_def compare_keys_def take_key_pad)

lemma i32_cmp_sint:
  "i32_cmp a b = 0 \<longleftrightarrow> sint a = sint b" "i32_cmp a b < 0 \<longleftrightarrow> sint a < sint b" "i32_cmp a b > 0 \<longleftrightarrow> sint b < sint a"
  "i32_cmp a b \<le> 0 \<longleftrightarrow> sint a \<le> sint b" "i32_cmp a b \<ge> 0 \<longleftrightarrow> sint b \<le> sint a"
  by (auto simp: i32_cmp_def cmp3_def)

lemma seek_position:
  assumes "presented I V reserved pg" "stores def V reserved d rows" "keyed def V d rows" "key_type def = COL_INT"
  shows "\<exists>c q n. btree_find def v pg = Some (Some c, q) \<and> presented I V reserved q \<and> on_row def V reserved d rows c n \<and>
    n \<le> length rows \<and> (\<forall>r \<in> set (take n rows). key_int r < sint (int_val v)) \<and>
    (\<forall>r \<in> set (drop n rows). sint (int_val v) \<le> key_int r) \<and> sorted (map key_int rows)"
proof -
  have t: "table_ok def (view pg) d" "reading pg" "view pg = V" using assms by (auto simp: stores_def presented_def)
  have k: "key_ok (key_type def) (serialize_col0_key def v)" using assms(4) by (simp add: key_ok_def serialize_col0_key_def)
  have less: "key_less def (serialize_col0_key def a) (serialize_col0_key def b) \<longleftrightarrow> sint (int_val a) < sint (int_val b)" for a b
    by (simp add: assms(4) compare_int_col0 i32_cmp_sint)
  obtain c q n where c: "btree_find def v pg = Some (Some c, q)" "unseen pg q"
    "splits_at def (tree_keys def V d (root_page_num def)) (serialize_col0_key def v) n"
    "at_position V (leaf_pages V d (root_page_num def)) c n"
    using find_position [OF t(1,2) k] unfolding t(3) by blast
  have "sorted_wrt (\<lambda>x y. compare_keys (key_type def) x y \<le> 0) (tree_keys def V d (root_page_num def))"
    using t tree_keys_sorted by (auto simp: table_ok_def)
  then have "sorted (map key_int rows)"
    using assms(3,4) by (simp add: keyed_def sorted_wrt_map compare_int_col0 i32_cmp_sint)
  moreover have "length rows = num_entries V (leaf_pages V d (root_page_num def))"
    unfolding length_leaf_keys [of def V, symmetric] using assms(3) by (simp add: keyed_def del: length_leaf_keys)
  ultimately show ?thesis
    using c assms(3) presented_unseen [OF assms(1) c(2)] assms(2)
    by (intro exI [of _ c] exI [of _ q] exI [of _ n]) (auto simp: splits_at_def keyed_def on_row_def take_map drop_map less)
qed

text \<open>The loop of an equality seek.\<close>

definition equal_step where
  "equal_step expr stmt def cat rs snap now t r es =
     (if sint t \<noteq> key_int r then (False, es)
      else (\<not> visible snap now r, es @ chosen expr stmt def cat rs snap now [r]))"

lemma equal_body_runs:
  assumes "catalog_stored cat V reserved ds rs" "key_type def = COL_INT" "keyed def V d rows" "\<not> is_null target"
  shows "tree_rows.runs_as I V reserved def d rows (equal_body expr stmt def cat snap now target)
    (equal_step expr stmt def cat rs snap now (int_val target))"
  unfolding tree_rows.runs_as_def
proof (intro allI impI)
  fix p c n es assume p: "presented I V reserved p" "on_row def V reserved d rows c n" "n < length rows"
  obtain q where q: "fetch_stored def c p = Some (rows ! n, q)" "presented I V reserved q"
    using tree_rows.fetch_row [OF p] by blast
  then have k: "btree_key_value def c p = Some (value_copy value_init (fst (rows ! n) ! 0), q)"
    by (auto simp: fetch_stored_def btree_key_value_def deserialize_row_fst split: bind_splits)
  have "\<not> is_null (fst (rows ! n) ! 0)" using assms(3) p(3) by (simp add: keyed_def)
  then have "compare_values COL_INT (value_copy value_init (fst (rows ! n) ! 0)) target =
      i32_cmp (int_val (fst (rows ! n) ! 0)) (int_val target)"
    using assms(4) by (simp add: compare_values_def value_copy_def value_set_text_len_def Let_def)
  then show "\<exists>q. equal_body expr stmt def cat snap now target c es p =
      Some (fst (equal_step expr stmt def cat rs snap now (int_val target) (rows ! n) es),
        snd (equal_step expr stmt def cat rs snap now (int_val target) (rows ! n) es), q) \<and> presented I V reserved q"
    using k q(2) assms(2) visit_row_chosen [OF assms(1) q(2) p(2,3), of expr stmt snap now es]
    by (auto simp: equal_body_def equal_step_def i32_cmp_sint)
qed

lemma walk_equal:
  assumes "\<forall>r \<in> set rows. where_meaning rs def (fst r) (where_clause stmt) cat \<longrightarrow> key_int r = sint t"
    and "\<forall>r \<in> set rows. sint t \<le> key_int r" "sorted (map key_int rows)" "single_versions snap now rows"
  shows "walk (equal_step expr stmt def cat rs snap now t) rows es = es @ chosen expr stmt def cat rs snap now rows"
  using assms
proof (induction rows arbitrary: es)
  case (Cons r rows)
  have none: "chosen expr stmt def cat rs snap now xs = []"
    if "\<forall>r \<in> set xs. visible snap now r \<longrightarrow> key_int r \<noteq> sint t" "set xs \<subseteq> set (r # rows)" for xs
    using that Cons.prems(1) by (intro chosen_empty) auto
  show ?case
  proof (cases "key_int r = sint t")
    case False
    with Cons.prems(2,3) have "\<forall>x \<in> set (r # rows). key_int x \<noteq> sint t" by fastforce
    then have "chosen expr stmt def cat rs snap now (r # rows) = []" by (intro none) auto
    then show ?thesis using False by (simp add: equal_step_def del: chosen_simps)
  next
    case True
    show ?thesis
    proof (cases "visible snap now r")
      case True
      have "\<forall>x \<in> set rows. visible snap now x \<longrightarrow> key_int x \<noteq> sint t"
      proof (intro ballI impI notI)
        fix x assume "x \<in> set rows" "visible snap now x" "key_int x = sint t"
        then have "key_int r \<in> key_int ` set (filter (visible snap now) rows)"
          using \<open>key_int r = sint t\<close> by (intro image_eqI [of _ _ x]) simp_all
        then show False using Cons.prems(4) True by (simp add: single_versions_def)
      qed
      then have "chosen expr stmt def cat rs snap now rows = []" by (intro none) auto
      then show ?thesis using True \<open>key_int r = sint t\<close> by (simp add: equal_step_def)
    next
      case False
      then show ?thesis using True Cons by (simp add: equal_step_def single_versions_def)
    qed
  qed
qed simp

text \<open>The condition that the seek is made for holds of no row outside its range.\<close>

lemma sought_cond:
  assumes "key_type def = COL_INT" "pk_cond def c" "\<not> is_exists c" "\<not> is_not_exists c" "columns def \<noteq> []"
    and "cond_meaning rs (columns def) vs cat c"
  shows "op_holds (cond_op c) (i32_cmp (int_val (vs ! 0)) (atoi (raw_val c)))"
proof -
  obtain col cols where cs: "columns def = col # cols" using assms(5) by (cases "columns def") auto
  have "find_cond_column (cond_col c) (columns def) = Some 0"
    using assms(2) by (simp add: pk_cond_def cs find_cond_column_def find_column_def strcasecmp_def)
  then have "cond_holds c (columns def ! 0) (vs ! 0)"
    using assms(2-4,6) by (simp add: cond_meaning_def pk_cond_def plain_literal_def)
  then show ?thesis
    using assms(1,2) by (auto simp: cond_holds_def pk_cond_def seekable_def plain_literal_def where_compare_def filter_value_def Let_def value_init_def split: if_splits)
qed

lemma choose_pk:
  assumes "choose_path def wc = ACCESS_PK_SEEK c"
  shows "pk_cond def c" "c \<in> set (conds wc)" "has_where wc"
    "list_all (\<lambda>op. op = LOGIC_AND) (take (length (conds wc) - 1) (logic_ops wc))"
  using assms by (auto simp: choose_path_def find_Some_iff split: if_splits option.splits)

lemma collect_seek:
  assumes "catalog_stored cat V reserved ds rs" "presented I V reserved pg" "stores def V reserved d rows" "keyed def V d rows"
    and "key_type def = COL_INT" "columns def \<noteq> []" "choose_path def (where_clause stmt) = ACCESS_PK_SEEK c"
    and "\<not> is_exists c" "\<not> is_not_exists c" "length (conds (where_clause stmt)) - 1 \<le> length (logic_ops (where_clause stmt))"
    and "cond_op c = OP_EQ \<longrightarrow> single_versions snap now rows"
  shows "\<exists>q. collect_rows expr stmt def cat snap now (ACCESS_PK_SEEK c) pg =
      Some (chosen expr stmt def cat rs snap now rows, q) \<and> presented I V reserved q"
proof -
  let ?wc = "where_clause stmt" and ?t = "value_from_raw (col_type (columns def ! 0)) (raw_val c) False"
  let ?chosen = "chosen expr stmt def cat rs snap now"
  note pk = choose_pk [OF assms(7)]
  have t: "int_val ?t = atoi (raw_val c)" "\<not> is_null ?t"
    using pk(1) assms(5) by (simp_all add: value_from_raw_def pk_cond_def plain_literal_def value_init_def)
  have sought: "op_holds (cond_op c) (i32_cmp (int_val (fst r ! 0)) (atoi (raw_val c)))"
    if "where_meaning rs def (fst r) ?wc cat" for r
    using sought_cond [OF assms(5) pk(1) assms(8,9,6)] that where_all_and [OF pk(4) assms(10) pk(3)] pk(2) by blast
  obtain cu q n where n: "btree_find def ?t pg = Some (Some cu, q)" "presented I V reserved q" "on_row def V reserved d rows cu n"
    "n \<le> length rows" "\<forall>r \<in> set (take n rows). key_int r < sint (int_val ?t)"
    "\<forall>r \<in> set (drop n rows). sint (int_val ?t) \<le> key_int r" "sorted (map key_int rows)"
    using seek_position [OF assms(2-5)] by blast
  have ops: "cond_op c = OP_EQ \<or> cond_op c = OP_GT \<or> cond_op c = OP_GTE" using pk(1) by (simp add: pk_cond_def seekable_def)
  have "?chosen (take n rows) = []"
  proof (rule chosen_empty)
    fix r assume "r \<in> set (take n rows)"
    then have "key_int r < sint (atoi (raw_val c))" using n(5) t(1) by simp
    then show "\<not> where_meaning rs def (fst r) ?wc cat" using sought [of r] ops by (auto simp: i32_cmp_sint)
  qed
  then have rest: "?chosen (drop n rows) = ?chosen rows" using chosen_simps(3) [of expr stmt def cat rs snap now "take n rows" "drop n rows"] by simp
  show ?thesis
  proof (cases "cond_op c = OP_EQ")
    case True
    have "sorted (map key_int (drop n rows))" using sorted_wrt_drop [OF n(7)] by (simp only: drop_map)
    moreover have "single_versions snap now (drop n rows)"
    proof -
      have "distinct (map key_int (filter (visible snap now) (take n rows @ drop n rows)))"
        using assms(11) True by (simp add: single_versions_def)
      then show ?thesis by (simp add: single_versions_def del: append_take_drop_id)
    qed
    moreover have "\<forall>r \<in> set (drop n rows). where_meaning rs def (fst r) ?wc cat \<longrightarrow> key_int r = sint (int_val ?t)"
      using sought True t(1) by (auto simp: i32_cmp_sint)
    ultimately have w: "walk (equal_step expr stmt def cat rs snap now (int_val ?t)) (drop n rows) [] = ?chosen rows"
      using walk_equal [of "drop n rows" rs def stmt cat "int_val ?t" snap now expr "[]"] n(6) rest by auto
    from tree_rows.scan_walk [OF equal_body_runs [OF assms(1,5,4) t(2)] n(2-4), of expr stmt snap now "[]"]
    show ?thesis using n(1) True w by (auto simp: collect_rows_def equal_seek_def Let_def)
  next
    case False
    from scan_from [OF assms(1) n(2-4), of expr stmt snap now] n(1) False rest
    show ?thesis by (auto simp: collect_rows_def Let_def)
  qed
qed

section \<open>The whole statement\<close>

text \<open>
  C11.  A select by a scan.  When no condition can be sought by a key, the select ends; it prints the rows
  that are visible in its snapshot and satisfy the clause, in key order, finished by \<open>ORDER BY\<close>,
  \<open>DISTINCT\<close>, \<open>LIMIT\<close> and \<open>OFFSET\<close>, and what the pager shows does not change.
\<close>

theorem select_by_scan:
  assumes "catalog_stored cat V reserved ds rs" "presents V reserved pg" "stores def V reserved d rows"
    and "choose_path def (where_clause stmt) = ACCESS_SCAN"
  shows "\<exists>q. run_select expr stmt def cat pg =
      Some (map entry_row (finish_rows stmt def (chosen expr stmt def cat rs (get_current_snapshot_xid pg) (time_now pg) rows)), q) \<and>
    presents V reserved q"
  using collect_scan [OF assms(1-3), of expr stmt "get_current_snapshot_xid pg" "time_now pg"] assms(4)
  by (auto simp: run_select_def)

text \<open>
  C12.  A select by the primary key.  For an integer key a condition \<open>=\<close>, \<open>>\<close> or \<open>>=\<close> on it, all conditions
  joined by AND, makes the select seek: it reads the table from the first key in range, and for \<open>=\<close>
  stops at the first visible row.  It prints what the scan of the whole table would have printed,
  if no key has two versions that are visible to the reader.
\<close>

theorem select_by_key:
  assumes "catalog_stored cat V reserved ds rs" "presents V reserved pg" "stores def V reserved d rows" "keyed def V d rows"
    and "key_type def = COL_INT" "columns def \<noteq> []" "choose_path def (where_clause stmt) = ACCESS_PK_SEEK c"
    and "\<not> is_exists c" "\<not> is_not_exists c" "length (conds (where_clause stmt)) - 1 \<le> length (logic_ops (where_clause stmt))"
    and "cond_op c = OP_EQ \<longrightarrow> single_versions (get_current_snapshot_xid pg) (time_now pg) rows"
  shows "\<exists>q. run_select expr stmt def cat pg =
      Some (map entry_row (finish_rows stmt def (chosen expr stmt def cat rs (get_current_snapshot_xid pg) (time_now pg) rows)), q) \<and>
    presents V reserved q"
  using collect_seek [OF assms, of expr] assms(7) by (auto simp: run_select_def)

section \<open>At a concrete store\<close>

text \<open>\<open>SELECT * FROM t\<close> and \<open>SELECT * FROM t WHERE id = 5\<close> on the table with rows 2, 3, 5, 7.\<close>

abbreviation where_5 :: WhereClause where
  "where_5 \<equiv> \<lparr>has_where = True, conds = [plain_cond OP_EQ [53]], logic_ops = []\<rparr>"

lemma visible_sample: "visible snap now (int_row x, (0, 0, 0), 3)"
  by (simp add: visible_def)

lemma printed_sample:
  assumes "\<not> has_order_by stmt" "\<not> is_distinct stmt" "\<not> has_limit stmt" "\<not> has_offset stmt"
  shows "map entry_row (finish_rows stmt sample_table (chosen expr stmt sample_table cat rs snap now (sample_stored xs))) =
    map int_row (filter (\<lambda>x. where_meaning rs sample_table (int_row x) (where_clause stmt) cat) xs)"
proof -
  have "entry_row (add_selected_row expr stmt sample_table (int_row x)) = int_row x" for x
    by (simp add: add_selected_row_def int_row_def value_copy_def value_init_def)
  then have "map entry_row (chosen expr stmt sample_table cat rs snap now (sample_stored xs)) =
      map int_row (filter (\<lambda>x. where_meaning rs sample_table (int_row x) (where_clause stmt) cat) xs)"
    by (induction xs) (simp_all add: sample_stored_def visible_sample)
  then show ?thesis using assms by (simp add: finish_rows_def deduplicate_distinct_entries_def limit_rows_def)
qed

theorem select_by_scan_witness:
  "\<exists>q. run_select (\<lambda>_ _ _. []) plain_select sample_table sample_catalog two_leaves =
    Some ([int_row 2, int_row 3, int_row 5, int_row 7], q)"
proof -
  have c: "choose_path sample_table (where_clause plain_select) = ACCESS_SCAN" by (simp add: choose_path_def plain_select_def)
  have m: "where_meaning rs sample_table vs (where_clause plain_select) cat" for rs vs cat
    by (simp add: where_meaning_def plain_select_def)
  have f: "\<not> has_order_by plain_select" "\<not> is_distinct plain_select" "\<not> has_limit plain_select" "\<not> has_offset plain_select"
    by (simp_all add: plain_select_def)
  from select_by_scan [OF sample_catalog_stored two_leaves_presents two_leaves_stored c, of "\<lambda>_ _ _. []"]
  show ?thesis unfolding printed_sample [OF f] by (auto simp: m)
qed

lemma two_leaves_keyed: "keyed sample_table (view two_leaves) 1 (sample_stored [2, 3, 5, 7])"
proof -
  have "tree_keys sample_table (view two_leaves) 1 1 = map (\<lambda>x. key_pad (le_bytes 4 x)) [2, 3, 5, 7]"
    using sample_rows(2) [of "[2, 3]" 3 False] sample_rows(2) [of "[5, 7]" 0 False]
    by (simp add: leaf_keys_def two_leaves two_leaves(2) [unfolded One_nat_def] sample_root)
  then show ?thesis
    by (simp add: keyed_def sample_stored_def int_row_def value_init_def serialize_col0_key_def unat_of_nat)
qed

lemma atoi_5: "atoi [53] = 5"
  by code_simp

theorem select_by_key_witness:
  "\<exists>q. run_select (\<lambda>_ _ _. []) (plain_select\<lparr>where_clause := where_5\<rparr>) sample_table sample_catalog two_leaves =
    Some ([int_row 5], q)"
proof -
  let ?stmt = "plain_select\<lparr>where_clause := where_5\<rparr>"
  have w: "where_clause ?stmt = where_5" by simp
  have p: "choose_path sample_table (where_clause ?stmt) = ACCESS_PK_SEEK (plain_cond OP_EQ [53])"
    unfolding w by (simp add: choose_path_def pk_cond_def plain_literal_def seekable_def plain_column_def plain_cond_def strcasecmp_def)
  have v: "single_versions snap now (sample_stored [2, 3, 5, 7])" for snap now
    by (simp add: single_versions_def sample_stored_def visible_sample int_row_def value_init_def)
  have m: "where_meaning (\<lambda>_. sample_stored [2, 3, 5, 7]) sample_table (int_row x) where_5 sample_catalog \<longleftrightarrow> x = 5" if "x < 8" for x
  proof -
    have "sint (of_nat x :: 32 word) = int x" using that by (intro sint_small) simp
    then show ?thesis
      using atoi_5 by (simp add: where_meaning_def cond_meaning_def plain_cond_def find_cond_column_def find_column_def plain_column_def
          strcasecmp_def cond_holds_def where_compare_def filter_value_def i32_cmp_sint int_row_def value_init_def Let_def)
  qed
  have e: "\<not> is_exists (plain_cond OP_EQ [53])" "\<not> is_not_exists (plain_cond OP_EQ [53])" by (simp_all add: plain_cond_def)
  have f: "\<not> has_order_by ?stmt" "\<not> is_distinct ?stmt" "\<not> has_limit ?stmt" "\<not> has_offset ?stmt"
    by (simp_all add: plain_select_def)
  have "filter (\<lambda>x. where_meaning (\<lambda>_. sample_stored [2, 3, 5, 7]) sample_table (int_row x) where_5 sample_catalog) [2, 3, 5, 7] = [5]"
    using m [of 2] m [of 3] m [of 5] m [of 7] by simp
  with select_by_key [OF sample_catalog_stored two_leaves_presents two_leaves_stored two_leaves_keyed _ _ p e, of "\<lambda>_ _ _. []"]
  show ?thesis unfolding printed_sample [OF f] w using v by (auto simp: plain_column_def plain_cond_def)
qed

end
