(* ===== verification/Vdbe.thy ===== *)
theory Vdbe
  imports Select Btree_Delete Transactions
begin

text \<open>
  The virtual machine (\<open>src/vdbe.c\<close>, \<open>include/vdbe.h\<close>): 16 registers, 4 cursors, a sorter and a program
  of instructions.  The model has one definition for every opcode; what is printed is the string \<open>out\<close>.

  An index outside the fixed arrays, a NULL text or cursor that is dereferenced, and \<open>exit\<close> are the
  result \<open>None\<close>: from there on C promises nothing.  Signed overflow wraps, as the compiled code does.
\<close>

section \<open>The machine\<close>

datatype Opcode =
    OP_Transaction | OP_Integer | OP_String | OP_Double | OP_OpenRead | OP_OpenWrite | OP_Rewind | OP_Next
  | OP_SeekGE | OP_SeekGT | OP_Column | OP_Compare | OP_IfFalse | OP_ResultRow | OP_Insert | OP_Delete
  | OP_SorterInsert | OP_SorterSort | OP_SorterRewind | OP_SorterNext | OP_Dec | OP_Add | OP_Subtract
  | OP_Multiply | OP_Divide | OP_Remainder | OP_Null | OP_Halt

record Instruction =
  opcode :: Opcode
  p1 :: "32 word"
  p2 :: "32 word"
  p3 :: "32 word"
  p4 :: Value

abbreviation (input) MAX_REGISTERS :: nat where "MAX_REGISTERS \<equiv> 16"
abbreviation (input) MAX_CURSORS :: nat where "MAX_CURSORS \<equiv> 4"

record SorterEntry =
  row_values :: "Value list"
  sorter_key :: Value
  sorter_type :: ColumnType
  sorter_collation :: CollationType
  sorter_desc :: bool

record Register =
  reg_val :: Value
  reg_type :: ColumnType
  reg_null :: bool

record VmCursor =
  btree_cursor :: "Cursor option"
  vc_def :: TableDef
  is_open :: bool

text \<open>\<open>entries\<close> are the sorter's entries in use, \<open>cursor_idx\<close> its position.\<close>

record Vdbe =
  insts :: "Instruction list"
  regs :: "Register list"
  cursors :: "VmCursor list"
  vm_catalog :: Catalog
  cmp_result :: bool
  pc :: nat
  entries :: "SorterEntry list"
  cursor_idx :: nat
  vm_snapshot :: "64 word"
  registered_snapshot :: "64 word"
  out :: cstr

text \<open>\<open>memset(vm, 0, sizeof(Vdbe))\<close>.\<close>

definition zero_reg :: Register where
  "zero_reg = \<lparr>reg_val = zero_value, reg_type = COL_INT, reg_null = False\<rparr>"

definition closed_cursor :: VmCursor where
  "closed_cursor = \<lparr>btree_cursor = None, vc_def = plain_table [], is_open = False\<rparr>"

definition vdbe_create :: "Catalog \<Rightarrow> Pager \<Rightarrow> Vdbe \<times> Pager" where
  "vdbe_create cat pg =
     (case pager_register_snapshot pg of (xid, pg) \<Rightarrow>
        (\<lparr>insts = [], regs = replicate MAX_REGISTERS zero_reg, cursors = replicate MAX_CURSORS closed_cursor,
          vm_catalog = cat, cmp_result = False, pc = 0, entries = [], cursor_idx = 0,
          vm_snapshot = (if in_transaction pg \<and> writer_tid pg = self_tid (os pg) \<and> shadow_capacity pg > 0 \<and> any_shadow pg
                         then (if current_commit_lsn pg \<noteq> 0 then current_commit_lsn pg else wal_lsn pg + 1) else xid),
          registered_snapshot = xid, out = []\<rparr>, pg))"

definition vdbe_free :: "Vdbe \<Rightarrow> Pager \<Rightarrow> Pager" where
  "vdbe_free vm pg = (if registered_snapshot vm > 0 then pager_unregister_snapshot pg (registered_snapshot vm) else pg)"

definition vdbe_add_inst :: "Vdbe \<Rightarrow> Opcode \<Rightarrow> 32 word \<Rightarrow> 32 word \<Rightarrow> 32 word \<Rightarrow> Value \<Rightarrow> Vdbe" where
  "vdbe_add_inst vm opc a b c v = vm\<lparr>insts := insts vm @ [\<lparr>opcode = opc, p1 = a, p2 = b, p3 = c, p4 = value_copy zero_value v\<rparr>]\<rparr>"

section \<open>Access to the arrays\<close>

definition get_reg :: "Vdbe \<Rightarrow> 32 word \<Rightarrow> Register option" where
  "get_reg vm i = (if unat i < length (regs vm) then Some (regs vm ! unat i) else None)"

definition set_reg :: "32 word \<Rightarrow> Register \<Rightarrow> Vdbe \<Rightarrow> Vdbe option" where
  "set_reg i r vm = (if unat i < length (regs vm) then Some (vm\<lparr>regs := (regs vm)[unat i := r]\<rparr>) else None)"

definition get_cur :: "Vdbe \<Rightarrow> 32 word \<Rightarrow> VmCursor option" where
  "get_cur vm i = (if unat i < length (cursors vm) then Some (cursors vm ! unat i) else None)"

definition set_cur :: "32 word \<Rightarrow> VmCursor \<Rightarrow> Vdbe \<Rightarrow> Vdbe option" where
  "set_cur i c vm = (if unat i < length (cursors vm) then Some (vm\<lparr>cursors := (cursors vm)[unat i := c]\<rparr>) else None)"

text \<open>The registers \<open>start\<close>, \<open>start + 1\<close>, \<dots>\<close>

definition get_regs :: "Vdbe \<Rightarrow> 32 word \<Rightarrow> nat \<Rightarrow> Register list option" where
  "get_regs vm start n =
     (if n = 0 then Some []
      else if unat start + n \<le> length (regs vm) then Some (take n (drop (unat start) (regs vm))) else None)"

definition jump :: "32 word \<Rightarrow> Vdbe \<Rightarrow> Vdbe" where
  "jump target vm = vm\<lparr>pc := unat target\<rparr>"

definition str_of :: "Value \<Rightarrow> cstr option" where
  "str_of v = (if text_val v = TNull then None else Some (val_text v))"

section \<open>Constants\<close>

definition op_integer :: "Instruction \<Rightarrow> Vdbe \<Rightarrow> Vdbe option" where
  "op_integer i vm = do {
     r \<leftarrow> get_reg vm (p3 i);
     set_reg (p3 i) \<lparr>reg_val = (value_free (reg_val r))\<lparr>int_val := p1 i\<rparr>, reg_type = COL_INT, reg_null = False\<rparr> vm }"

definition op_load :: "ColumnType \<Rightarrow> Instruction \<Rightarrow> Vdbe \<Rightarrow> Vdbe option" where
  "op_load ty i vm = do {
     r \<leftarrow> get_reg vm (p3 i);
     set_reg (p3 i) \<lparr>reg_val = value_copy (reg_val r) (p4 i), reg_type = ty, reg_null = False\<rparr> vm }"

definition op_null :: "Instruction \<Rightarrow> Vdbe \<Rightarrow> Vdbe option" where
  "op_null i vm = do {
     r \<leftarrow> get_reg vm (p1 i);
     set_reg (p1 i) (r\<lparr>reg_val := (value_free (reg_val r))\<lparr>is_null := True\<rparr>, reg_null := True\<rparr>) vm }"

definition op_dec :: "Instruction \<Rightarrow> Vdbe \<Rightarrow> Vdbe option" where
  "op_dec i vm = do {
     r \<leftarrow> get_reg vm (p1 i);
     set_reg (p1 i) (r\<lparr>reg_val := (reg_val r)\<lparr>int_val := int_val (reg_val r) - 1\<rparr>\<rparr>) vm }"

section \<open>Opening a table or an index\<close>

definition idx_prefix :: cstr where "idx_prefix = [95, 105, 100, 120, 95]"

definition is_index_name :: "cstr \<Rightarrow> bool" where
  "is_index_name name \<longleftrightarrow> strncmp name idx_prefix 5 = 0"

definition index_name :: "TableDef \<Rightarrow> nat \<Rightarrow> cstr" where
  "index_name mdef c = take 127 (idx_prefix @ tbl_name mdef @ [95] @ col_name (columns mdef ! c))"

definition vm_index_def :: "cstr \<Rightarrow> nat \<Rightarrow> TableDef \<Rightarrow> nat \<Rightarrow> TableDef" where
  "vm_index_def name root mdef c =
     tabledef_compute ((plain_table [])\<lparr>tbl_name := take 127 name, root_page_num := root,
       columns := [columns mdef ! c, (plain_column COL_INT)\<lparr>col_name := [105, 100], col_size := 4\<rparr>]\<rparr>)"

definition resolve_table :: "Catalog \<Rightarrow> cstr \<Rightarrow> nat \<Rightarrow> TableDef option" where
  "resolve_table cat name root =
     (if is_index_name name
      then map_option (\<lambda>(mdef, c). vm_index_def name root mdef c)
        (find (\<lambda>(mdef, c). strcmp name (index_name mdef c) = 0)
          (concat (map (\<lambda>mdef. map (Pair mdef) [1..<num_cols mdef]) (tables cat))))
      else catalog_find cat name)"

definition op_open :: "Instruction \<Rightarrow> Vdbe \<Rightarrow> Vdbe option" where
  "op_open i vm = do {
     vc \<leftarrow> get_cur vm (p1 i);
     if is_open vc then Some vm
     else do {
       name \<leftarrow> str_of (p4 i);
       def \<leftarrow> resolve_table (vm_catalog vm) name (unat (p2 i));
       set_cur (p1 i) \<lparr>btree_cursor = None, vc_def = def, is_open = True\<rparr> vm } }"

section \<open>Moving a cursor\<close>

text \<open>On to the next row that is visible; an index has no stamps and every entry counts.\<close>

definition visible_body :: "TableDef \<Rightarrow> 64 word \<Rightarrow> 64 word \<Rightarrow> Cursor \<Rightarrow> unit \<Rightarrow> Pager \<Rightarrow> (bool \<times> unit \<times> Pager) option" where
  "visible_body def snap now c u pg =
     (if is_index_name (tbl_name def) then Some (False, u, pg)
      else do {
        (b, pg) \<leftarrow> cursor_value c pg;
        Some (row_is_visible_and_active def b snap now = None, u, pg) })"

definition above_body :: "TableDef \<Rightarrow> Value \<Rightarrow> 64 word \<Rightarrow> 64 word \<Rightarrow> Cursor \<Rightarrow> unit \<Rightarrow> Pager \<Rightarrow> (bool \<times> unit \<times> Pager) option" where
  "above_body def key snap now c u pg = do {
     (k, pg) \<leftarrow> btree_key_value def c pg;
     if compare_values (col_type (columns def ! 0)) k key > 0 then visible_body def snap now c u pg
     else Some (True, u, pg) }"

text \<open>The cursor is left where the loop ends; at the end of the table the machine jumps.\<close>

definition place_cursor :: "Instruction \<Rightarrow> VmCursor \<Rightarrow> Cursor \<Rightarrow> Vdbe \<Rightarrow> Vdbe option" where
  "place_cursor i vc c vm = do {
     vm \<leftarrow> set_cur (p1 i) (vc\<lparr>btree_cursor := Some c\<rparr>) vm;
     Some (if end_of_table c then jump (p2 i) vm else vm) }"

definition op_rewind :: "Instruction \<Rightarrow> Vdbe \<Rightarrow> Pager \<Rightarrow> (Vdbe \<times> Pager) option" where
  "op_rewind i vm pg = do {
     vc \<leftarrow> get_cur vm (p1 i);
     if \<not> is_open vc then None
     else do {
       (c, pg) \<leftarrow> btree_start (vc_def vc) pg;
       (c, u, pg) \<leftarrow> scan_loop (visible_body (vc_def vc) (vm_snapshot vm) (time_now pg)) c () pg;
       vm \<leftarrow> place_cursor i vc c vm;
       Some (vm, pg) } }"

definition op_next :: "Instruction \<Rightarrow> Vdbe \<Rightarrow> Pager \<Rightarrow> (Vdbe \<times> Pager) option" where
  "op_next i vm pg = do {
     vc \<leftarrow> get_cur vm (p1 i);
     c \<leftarrow> btree_cursor vc;
     let now = time_now pg;
     (c, pg) \<leftarrow> cursor_advance c pg;
     (c, u, pg) \<leftarrow> scan_loop (visible_body (vc_def vc) (vm_snapshot vm) now) c () pg;
     vm \<leftarrow> set_cur (p1 i) (vc\<lparr>btree_cursor := Some c\<rparr>) vm;
     Some (if end_of_table c then vm else jump (p2 i) vm, pg) }"

definition op_seek_ge :: "Instruction \<Rightarrow> Vdbe \<Rightarrow> Pager \<Rightarrow> (Vdbe \<times> Pager) option" where
  "op_seek_ge i vm pg = do {
     vc \<leftarrow> get_cur vm (p1 i);
     r \<leftarrow> get_reg vm (p3 i);
     if \<not> is_open vc then None
     else do {
       (c, pg) \<leftarrow> btree_find (vc_def vc) (reg_val r) pg;
       c \<leftarrow> c;
       (c, u, pg) \<leftarrow> scan_loop (visible_body (vc_def vc) (vm_snapshot vm) (time_now pg)) c () pg;
       vm \<leftarrow> place_cursor i vc c vm;
       Some (vm, pg) } }"

definition op_seek_gt :: "Instruction \<Rightarrow> Vdbe \<Rightarrow> Pager \<Rightarrow> (Vdbe \<times> Pager) option" where
  "op_seek_gt i vm pg = do {
     vc \<leftarrow> get_cur vm (p1 i);
     r \<leftarrow> get_reg vm (p3 i);
     if \<not> is_open vc then None
     else do {
       (c, pg) \<leftarrow> btree_find (vc_def vc) (reg_val r) pg;
       c \<leftarrow> c;
       (c, u, pg) \<leftarrow> scan_loop (above_body (vc_def vc) (reg_val r) (vm_snapshot vm) (time_now pg)) c () pg;
       vm \<leftarrow> place_cursor i vc c vm;
       Some (vm, pg) } }"

definition op_column :: "Instruction \<Rightarrow> Vdbe \<Rightarrow> Pager \<Rightarrow> (Vdbe \<times> Pager) option" where
  "op_column i vm pg = do {
     vc \<leftarrow> get_cur vm (p1 i);
     c \<leftarrow> btree_cursor vc;
     r \<leftarrow> get_reg vm (p3 i);
     (b, pg) \<leftarrow> cursor_value c pg;
     let row_vals = fst (deserialize_row (vc_def vc) b);
     if unat (p2 i) < num_cols (vc_def vc)
     then do {
       vm \<leftarrow> set_reg (p3 i) \<lparr>reg_val = value_copy (reg_val r) (row_vals ! unat (p2 i)),
               reg_type = col_type (columns (vc_def vc) ! unat (p2 i)), reg_null = is_null (row_vals ! unat (p2 i))\<rparr> vm;
       Some (vm, pg) }
     else None }"

section \<open>Comparison\<close>

definition comp_ops :: "CompOp list" where
  "comp_ops = [OP_EQ, OP_GT, OP_LT, OP_GTE, OP_LTE, OP_IN, OP_IS_NULL, OP_IS_NOT_NULL, OP_MATCH, OP_LIKE,
     OP_BETWEEN, OP_GLOB, OP_NOT_LIKE, OP_NOT_GLOB]"

definition comp_op_of :: "32 word \<Rightarrow> CompOp option" where
  "comp_op_of w = (if unat w < length comp_ops then Some (comp_ops ! unat w) else None)"

definition coll_of :: "32 word \<Rightarrow> CollationType" where
  "coll_of w = (if unat w < 4 then [COLL_NOT_SET, COLL_BINARY, COLL_NOCASE, COLL_RTRIM] ! unat w else COLL_BINARY)"

definition no_value :: "Register \<Rightarrow> bool" where
  "no_value r \<longleftrightarrow> reg_null r \<or> is_null (reg_val r)"

definition reg_int :: "Register \<Rightarrow> 32 word" where
  "reg_int r = (if reg_type r = COL_INT then int_val (reg_val r) else i32_of_f64 (double_val (reg_val r)))"

definition reg_double :: "Register \<Rightarrow> f64" where
  "reg_double r = (if reg_type r = COL_INT then f64_of_int (sint (int_val (reg_val r)))
     else if reg_type r = COL_FLOAT then f64_of_f32 (float_val (reg_val r)) else double_val (reg_val r))"

definition reg_compare :: "CollationType \<Rightarrow> Register \<Rightarrow> Register \<Rightarrow> int option" where
  "reg_compare coll ra rb =
     (let some_of = (\<lambda>tys. reg_type ra \<in> tys \<or> reg_type rb \<in> tys)
      in if some_of {COL_INT} then Some (i32_cmp (reg_int ra) (reg_int rb))
         else if some_of {COL_DOUBLE, COL_FLOAT, COL_NUMERIC, COL_DECIMAL} then Some (f64_cmp (reg_double ra) (reg_double rb))
         else if some_of {COL_BOOL} then Some (bool_cmp (bool_val (reg_val ra)) (bool_val (reg_val rb)))
         else do {
           sa \<leftarrow> str_of (reg_val ra);
           sb \<leftarrow> str_of (reg_val rb);
           Some (compare_strings_collated sa sb coll) })"

definition compare_regs :: "CompOp option \<Rightarrow> CollationType \<Rightarrow> Register \<Rightarrow> Register \<Rightarrow> bool option" where
  "compare_regs cop coll ra rb =
     (if cop = Some OP_IS_NULL then Some (no_value ra)
      else if cop = Some OP_IS_NOT_NULL then Some (\<not> no_value ra)
      else if no_value ra \<or> no_value rb then Some False
      else do {
        cmp \<leftarrow> reg_compare coll ra rb;
        case cop of
          None \<Rightarrow> Some False
        | Some OP_MATCH \<Rightarrow> do {
            sa \<leftarrow> str_of (reg_val ra);
            sb \<leftarrow> str_of (reg_val rb);
            Some (strstr sa sb) }
        | Some c \<Rightarrow> Some (op_holds c cmp) })"

definition op_compare :: "Instruction \<Rightarrow> Vdbe \<Rightarrow> Vdbe option" where
  "op_compare i vm = do {
     ra \<leftarrow> get_reg vm (p1 i);
     rb \<leftarrow> get_reg vm (p2 i);
     res \<leftarrow> compare_regs (comp_op_of (p3 i)) (coll_of (int_val (p4 i))) ra rb;
     Some (vm\<lparr>cmp_result := res\<rparr>) }"

definition op_if_false :: "Instruction \<Rightarrow> Vdbe \<Rightarrow> Vdbe" where
  "op_if_false i vm = (if \<not> cmp_result vm then jump (p1 i) vm else vm)"

section \<open>Printing a row\<close>

definition cell_text :: "Register \<Rightarrow> cstr option" where
  "cell_text r =
     (let v = reg_val r
      in if no_value r then Some [78, 85, 76, 76]
         else case reg_type r of
           COL_INT \<Rightarrow> Some (fmt_int (sint (int_val v)))
         | COL_FLOAT \<Rightarrow> Some (fmt_g4 (if \<not> f64_is_zero (double_val v) then double_val v else f64_of_f32 (float_val v)))
         | COL_DOUBLE \<Rightarrow> Some (fmt_g8 (double_val v))
         | COL_NUMERIC \<Rightarrow> Some (fmt_g8 (double_val v))
         | COL_DECIMAL \<Rightarrow> Some (fmt_g8 (double_val v))
         | COL_BOOL \<Rightarrow> Some (if bool_val v then [116, 114, 117, 101] else [102, 97, 108, 115, 101])
         | COL_BLOB \<Rightarrow> do {
             s \<leftarrow> str_of v;
             Some (if starts_nocase [120, 39] s \<or> starts_nocase [48, 120] s then s else [120, 39] @ s @ [39]) }
         | _ \<Rightarrow> str_of v)"

fun cells_text :: "Register list \<Rightarrow> cstr list option" where
  "cells_text [] = Some []"
| "cells_text (r # rs) = do { s \<leftarrow> cell_text r; ss \<leftarrow> cells_text rs; Some (s # ss) }"

fun commas :: "cstr list \<Rightarrow> cstr" where
  "commas [] = []"
| "commas [s] = s"
| "commas (s # ss) = s @ [44, 32] @ commas ss"

definition op_result_row :: "Instruction \<Rightarrow> Vdbe \<Rightarrow> Vdbe option" where
  "op_result_row i vm = do {
     rs \<leftarrow> get_regs vm (p1 i) (unat (p2 i));
     ss \<leftarrow> cells_text rs;
     Some (vm\<lparr>out := out vm @ [40] @ commas ss @ [41, 10]\<rparr>) }"

section \<open>Insertion and deletion\<close>

definition u64_of_f64 :: "f64 \<Rightarrow> 64 word" where
  "u64_of_f64 x =
     (if f64_mag x \<ge> f64_inf_bits then 0x8000000000000000
      else case f64_unpack (f64_mag x) of (m, q) \<Rightarrow>
        (let t = (if 0 \<le> q then m * 2 ^ nat q else m div 2 ^ nat (- q))
         in if t < 2 ^ 64 then of_nat t else 0x8000000000000000))"

definition expiry_of :: "Value \<Rightarrow> 64 word" where
  "expiry_of v = (if f64_lt 0 (double_val v) then u64_of_f64 (double_val v)
     else if 0 < sint (int_val v) then ucast (int_val v) else 0)"

definition insert_value :: "Register \<Rightarrow> Value" where
  "insert_value r = (value_copy zero_value (reg_val r))\<lparr>is_null := reg_null r\<rparr>"

definition op_insert :: "Instruction \<Rightarrow> Vdbe \<Rightarrow> Pager \<Rightarrow> (Vdbe \<times> Pager) option" where
  "op_insert i vm pg = do {
     vc \<leftarrow> get_cur vm (p1 i);
     if \<not> is_open vc then None
     else do {
       rs \<leftarrow> get_regs vm (p2 i) (num_cols (vc_def vc));
       let values = map insert_value rs;
       (c, pg) \<leftarrow> btree_find_out (vc_def vc) (hd (values @ [zero_value])) pg;
       let txn_xid = (if current_commit_lsn pg \<noteq> 0 then current_commit_lsn pg else wal_lsn pg + 1);
       pg \<leftarrow> btree_insert_with_mvcc (vc_def vc) c values (expiry_of (p4 i)) txn_xid 0 pg;
       Some (vm, pg) } }"

definition op_delete :: "Instruction \<Rightarrow> Vdbe \<Rightarrow> Pager \<Rightarrow> (Vdbe \<times> Pager) option" where
  "op_delete i vm pg = do {
     vc \<leftarrow> get_cur vm (p1 i);
     c \<leftarrow> btree_cursor vc;
     (c, pg) \<leftarrow> btree_delete (vc_def vc) c pg;
     vm \<leftarrow> set_cur (p1 i) (vc\<lparr>btree_cursor := Some c\<rparr>) vm;
     Some (vm, pg) }"

section \<open>The sorter\<close>

definition compare_sorter_entries :: "SorterEntry \<Rightarrow> SorterEntry \<Rightarrow> int" where
  "compare_sorter_entries a b =
     (let ty = sorter_type a; ka = sorter_key a; kb = sorter_key b;
          cmp = (if ty = COL_INT then i32_cmp (int_val ka) (int_val kb)
                 else if ty = COL_DOUBLE then f64_cmp (double_val ka) (double_val kb)
                 else if ty = COL_FLOAT then f64_cmp (f64_of_f32 (float_val ka)) (f64_of_f32 (float_val kb))
                 else if ty = COL_BOOL then bool_cmp (bool_val ka) (bool_val kb)
                 else compare_strings_collated (val_text ka) (val_text kb) (sorter_collation a))
      in if sorter_desc a then - cmp else cmp)"

definition op_sorter_insert :: "Instruction \<Rightarrow> Vdbe \<Rightarrow> Vdbe option" where
  "op_sorter_insert i vm = do {
     let n = (if 0 \<le> sint (p3 i) then unat (p3 i) else 0);
     k \<leftarrow> get_reg vm (p1 i);
     rs \<leftarrow> get_regs vm (p2 i) n;
     Some (vm\<lparr>entries := entries vm @
       [\<lparr>row_values = map (\<lambda>r. value_copy zero_value (reg_val r)) rs @ replicate (MAX_COLUMNS - n) zero_value,
         sorter_key = value_copy zero_value (reg_val k), sorter_type = reg_type k,
         sorter_collation = coll_of (int_val (p4 i)), sorter_desc = False\<rparr>]\<rparr>) }"

definition op_sorter_sort :: "Instruction \<Rightarrow> Vdbe \<Rightarrow> Vdbe" where
  "op_sorter_sort i vm =
     vm\<lparr>entries := qsort compare_sorter_entries (map (\<lambda>e. e\<lparr>sorter_desc := (p1 i \<noteq> 0)\<rparr>) (entries vm))\<rparr>"

text \<open>A row of the sorter goes back to the registers: the values only, not \<open>reg_type\<close> and \<open>reg_null\<close>.\<close>

definition load_entry :: "Instruction \<Rightarrow> SorterEntry \<Rightarrow> Vdbe \<Rightarrow> Vdbe option" where
  "load_entry i e vm = do {
     let n = (if 0 \<le> sint (p3 i) then unat (p3 i) else 0);
     rs \<leftarrow> get_regs vm (p2 i) n;
     if n \<le> length (row_values e)
     then Some (vm\<lparr>regs := take (unat (p2 i)) (regs vm) @
       map2 (\<lambda>r v. r\<lparr>reg_val := value_copy (reg_val r) v\<rparr>) rs (take n (row_values e)) @ drop (unat (p2 i) + n) (regs vm)\<rparr>)
     else None }"

definition op_sorter_rewind :: "Instruction \<Rightarrow> Vdbe \<Rightarrow> Vdbe option" where
  "op_sorter_rewind i vm =
     (let vm = vm\<lparr>cursor_idx := 0\<rparr>
      in case entries vm of [] \<Rightarrow> Some (jump (p1 i) vm) | e # es \<Rightarrow> load_entry i e vm)"

definition op_sorter_next :: "Instruction \<Rightarrow> Vdbe \<Rightarrow> Vdbe option" where
  "op_sorter_next i vm =
     (let n = cursor_idx vm + 1; vm = vm\<lparr>cursor_idx := n\<rparr>
      in if n < length (entries vm)
         then do { vm \<leftarrow> load_entry i (entries vm ! n) vm; Some (jump (p1 i) vm) }
         else Some vm)"

section \<open>Arithmetic\<close>

definition arith :: "(32 word \<Rightarrow> 32 word \<Rightarrow> 32 word) \<Rightarrow> (f64 \<Rightarrow> f64 \<Rightarrow> f64) \<Rightarrow> Instruction \<Rightarrow> Vdbe \<Rightarrow> Vdbe option" where
  "arith fi fd i vm = do {
     r1 \<leftarrow> get_reg vm (p1 i);
     r2 \<leftarrow> get_reg vm (p2 i);
     rd \<leftarrow> get_reg vm (p3 i);
     set_reg (p3 i)
       (if reg_type r1 = COL_INT \<and> reg_type r2 = COL_INT
        then \<lparr>reg_val = (reg_val rd)\<lparr>int_val := fi (int_val (reg_val r1)) (int_val (reg_val r2))\<rparr>, reg_type = COL_INT,
              reg_null = (reg_null r1 \<or> reg_null r2)\<rparr>
        else \<lparr>reg_val = (reg_val rd)\<lparr>double_val := fd (reg_double r1) (reg_double r2)\<rparr>, reg_type = COL_DOUBLE,
              reg_null = (reg_null r1 \<or> reg_null r2)\<rparr>) vm }"

definition op_divide :: "Instruction \<Rightarrow> Vdbe \<Rightarrow> Vdbe option" where
  "op_divide i vm = do {
     r1 \<leftarrow> get_reg vm (p1 i);
     r2 \<leftarrow> get_reg vm (p2 i);
     rd \<leftarrow> get_reg vm (p3 i);
     set_reg (p3 i)
       (if f64_is_zero (reg_double r2) then rd\<lparr>reg_null := True\<rparr>
        else \<lparr>reg_val = (reg_val rd)\<lparr>double_val := f64_div (reg_double r1) (reg_double r2)\<rparr>, reg_type = COL_DOUBLE,
              reg_null = (reg_null r1 \<or> reg_null r2)\<rparr>) vm }"

text \<open>\<open>INT_MIN % -1\<close> traps.\<close>

definition op_remainder :: "Instruction \<Rightarrow> Vdbe \<Rightarrow> Vdbe option" where
  "op_remainder i vm = do {
     r1 \<leftarrow> get_reg vm (p1 i);
     r2 \<leftarrow> get_reg vm (p2 i);
     rd \<leftarrow> get_reg vm (p3 i);
     let a = sint (reg_int r1);
     let b = sint (reg_int r2);
     if b = 0 then set_reg (p3 i) (rd\<lparr>reg_null := True\<rparr>) vm
     else if a = - (2 ^ 31) \<and> b = -1 then None
     else set_reg (p3 i)
       \<lparr>reg_val = (reg_val rd)\<lparr>int_val := word_of_int (sgn a * (\<bar>a\<bar> mod \<bar>b\<bar>))\<rparr>, reg_type = COL_INT,
        reg_null = (reg_null r1 \<or> reg_null r2)\<rparr> vm }"

section \<open>Running a program\<close>

definition op_transaction :: "Instruction \<Rightarrow> Pager \<Rightarrow> Pager option" where
  "op_transaction i pg =
     (if p1 i = 1 then Some (snd (pager_begin_transaction pg))
      else if p1 i = 2 then pager_commit pg
      else if p1 i = 3 then pager_rollback pg
      else Some pg)"

definition only_vm :: "Pager \<Rightarrow> Vdbe option \<Rightarrow> (Vdbe \<times> Pager) option" where
  "only_vm pg res = map_option (\<lambda>vm. (vm, pg)) res"

definition execute :: "Instruction \<Rightarrow> Vdbe \<Rightarrow> Pager \<Rightarrow> (Vdbe \<times> Pager) option" where
  "execute i vm pg =
     (case opcode i of
        OP_Transaction \<Rightarrow> map_option (Pair vm) (op_transaction i pg)
      | OP_Integer \<Rightarrow> only_vm pg (op_integer i vm)
      | OP_String \<Rightarrow> only_vm pg (op_load COL_TEXT i vm)
      | OP_Double \<Rightarrow> only_vm pg (op_load COL_DOUBLE i vm)
      | OP_OpenRead \<Rightarrow> only_vm pg (op_open i vm)
      | OP_OpenWrite \<Rightarrow> only_vm pg (op_open i vm)
      | OP_Rewind \<Rightarrow> op_rewind i vm pg
      | OP_Next \<Rightarrow> op_next i vm pg
      | OP_SeekGE \<Rightarrow> op_seek_ge i vm pg
      | OP_SeekGT \<Rightarrow> op_seek_gt i vm pg
      | OP_Column \<Rightarrow> op_column i vm pg
      | OP_Compare \<Rightarrow> only_vm pg (op_compare i vm)
      | OP_IfFalse \<Rightarrow> Some (op_if_false i vm, pg)
      | OP_ResultRow \<Rightarrow> only_vm pg (op_result_row i vm)
      | OP_Insert \<Rightarrow> op_insert i vm pg
      | OP_Delete \<Rightarrow> op_delete i vm pg
      | OP_SorterInsert \<Rightarrow> only_vm pg (op_sorter_insert i vm)
      | OP_SorterSort \<Rightarrow> Some (op_sorter_sort i vm, pg)
      | OP_SorterRewind \<Rightarrow> only_vm pg (op_sorter_rewind i vm)
      | OP_SorterNext \<Rightarrow> only_vm pg (op_sorter_next i vm)
      | OP_Dec \<Rightarrow> only_vm pg (op_dec i vm)
      | OP_Add \<Rightarrow> only_vm pg (arith (+) f64_add i vm)
      | OP_Subtract \<Rightarrow> only_vm pg (arith (-) f64_sub i vm)
      | OP_Multiply \<Rightarrow> only_vm pg (arith (*) f64_mul i vm)
      | OP_Divide \<Rightarrow> only_vm pg (op_divide i vm)
      | OP_Remainder \<Rightarrow> only_vm pg (op_remainder i vm)
      | OP_Null \<Rightarrow> only_vm pg (op_null i vm)
      | OP_Halt \<Rightarrow> Some (vm, pg))"

partial_function (option) vdbe_loop :: "Vdbe \<Rightarrow> Pager \<Rightarrow> (Vdbe \<times> Pager) option" where
  "vdbe_loop vm pg =
     (if pc vm < length (insts vm)
      then (let i = insts vm ! pc vm; vm = vm\<lparr>pc := pc vm + 1\<rparr>
            in if opcode i = OP_Halt then Some (vm, pg)
               else execute i vm pg \<bind> (\<lambda>(vm, pg). vdbe_loop vm pg))
      else Some (vm, pg))"

definition vdbe_run :: "Vdbe \<Rightarrow> Pager \<Rightarrow> (Vdbe \<times> Pager) option" where
  "vdbe_run vm pg = vdbe_loop (vm\<lparr>pc := 0\<rparr>) pg"

end
