(* ===== verification/Insert.thy ===== *)
theory Insert
  imports Vdbe Btree_Update
begin

text \<open>
  The INSERT statement (\<open>src/executor.c\<close>, \<open>run_insert_vm\<close>): constraints, the program for the virtual
  machine, the duplicate checks, the run, and the entries of the secondary indexes.

  Left out are the triggers before and after and the printed RETURNING row.  What a conflict with an action
  REPLACE or UPDATE does is the argument \<open>resolve\<close>; the theory \<open>Modify\<close> gives it.
\<close>

section \<open>The statement\<close>

datatype ExecuteResult =
    EXECUTE_SUCCESS | EXECUTE_DUPLICATE_KEY | EXECUTE_ROW_NOT_FOUND | EXECUTE_TABLE_NOT_FOUND
  | EXECUTE_TABLE_EXISTS | EXECUTE_CATALOG_FULL | EXECUTE_BAD_SCHEMA | EXECUTE_TYPE_MISMATCH
  | EXECUTE_CONSTRAINT_NOT_NULL | EXECUTE_CONSTRAINT_UNIQUE | EXECUTE_CONSTRAINT_CHECK
  | EXECUTE_CONSTRAINT_FOREIGN_KEY | EXECUTE_BUSY | EXECUTE_ERROR

datatype ConflictAction = CONFLICT_ABORT | CONFLICT_IGNORE | CONFLICT_REPLACE | CONFLICT_UPDATE

text \<open>
  The arrays have \<open>MAX_COLUMNS\<close> entries; \<open>raw_values\<close> has the heap string where there is one
  (\<open>dyn_raw_values\<close>, for a literal that the array is too short for), else the array.
\<close>

record InsertStmt =
  raw_values :: "cstr list"
  raw_is_null :: "bool list"
  num_values :: nat
  has_bound_values :: bool
  bound_values :: "Value list"
  conflict_action :: ConflictAction
  expires_sec :: nat

definition raw_at :: "InsertStmt \<Rightarrow> nat \<Rightarrow> cstr option" where
  "raw_at stmt i = (if i < num_values stmt then Some (raw_values stmt ! i) else None)"

definition null_at :: "InsertStmt \<Rightarrow> nat \<Rightarrow> bool" where
  "null_at stmt i = (case raw_at stmt i of None \<Rightarrow> True | Some raw \<Rightarrow> raw = [] \<or> raw_is_null stmt ! i)"

text \<open>The literal of a column and whether it is NULL, with the column's default.\<close>

definition literal :: "InsertStmt \<Rightarrow> Column \<Rightarrow> nat \<Rightarrow> cstr option \<times> bool" where
  "literal stmt col i =
     (if null_at stmt i \<and> has_default col then (Some (default_val col), False) else (raw_at stmt i, null_at stmt i))"

definition given :: "cstr option \<times> bool \<Rightarrow> bool" where
  "given l \<longleftrightarrow> (case l of (None, _) \<Rightarrow> False | (Some raw, null) \<Rightarrow> raw \<noteq> [] \<and> \<not> null)"

section \<open>Constraints of a column\<close>

definition comp_op_at :: "nat \<Rightarrow> CompOp" where
  "comp_op_at n = (if n < length comp_ops then comp_ops ! n else OP_IN)"

definition check_holds :: "Column \<Rightarrow> cstr \<Rightarrow> bool" where
  "check_holds col raw =
     op_holds (comp_op_at (check_op col))
       (sub_compare (col_type col) (sub_filter_value (col_type col) raw) (sub_filter_value (col_type col) (check_val col)))"

definition literal_equals :: "ColumnType \<Rightarrow> cstr \<Rightarrow> Value \<Rightarrow> bool" where
  "literal_equals ty raw v =
     (case ty of
        COL_INT \<Rightarrow> atoi raw = int_val v
      | COL_FLOAT \<Rightarrow> f32_eq (f32_of_f64 (atof raw)) (float_val v)
      | COL_DOUBLE \<Rightarrow> f64_eq (atof raw) (double_val v)
      | COL_BOOL \<Rightarrow> parse_bool raw = bool_val v
      | _ \<Rightarrow> strcmp raw (val_text v) = 0)"

definition fk_found :: "Catalog \<Rightarrow> Column \<Rightarrow> cstr \<Rightarrow> Pager \<Rightarrow> (bool \<times> Pager) option" where
  "fk_found cat col raw pg =
     (case catalog_find cat (fk_target_table col) of
        None \<Rightarrow> Some (False, pg)
      | Some target_def \<Rightarrow>
          (let t = (case find_column strcmp (fk_target_col col) (columns target_def) of None \<Rightarrow> 0 | Some i \<Rightarrow> i)
           in sub_search target_def (\<lambda>row. literal_equals (col_type col) raw (row ! t)) pg))"

section \<open>The program\<close>

text \<open>The instruction that loads a value into register \<open>i + 1\<close>; none for a string that is too long.\<close>

definition load_inst :: "nat \<Rightarrow> Opcode \<Rightarrow> 32 word \<Rightarrow> Value \<Rightarrow> Opcode \<times> 32 word \<times> 32 word \<times> 32 word \<times> Value" where
  "load_inst i opc a v = (opc, a, 0, of_nat (i + 1), v)"

definition bound_inst :: "Column \<Rightarrow> nat \<Rightarrow> Value \<Rightarrow> Opcode \<times> 32 word \<times> 32 word \<times> 32 word \<times> Value" where
  "bound_inst col i b =
     (if is_null b then (OP_Null, of_nat (i + 1), 0, 0, zero_value)
      else case col_type col of
        COL_INT \<Rightarrow> load_inst i OP_Integer (int_val b) zero_value
      | COL_FLOAT \<Rightarrow> load_inst i OP_Double 0 b
      | COL_DOUBLE \<Rightarrow> load_inst i OP_Double 0 b
      | COL_NUMERIC \<Rightarrow> load_inst i OP_Double 0 b
      | COL_DECIMAL \<Rightarrow> load_inst i OP_Double 0 b
      | COL_BOOL \<Rightarrow> load_inst i OP_Integer (if bool_val b then 1 else 0) zero_value
      | _ \<Rightarrow> load_inst i OP_String 0 b)"

definition literal_inst :: "Column \<Rightarrow> nat \<Rightarrow> cstr \<Rightarrow> (Opcode \<times> 32 word \<times> 32 word \<times> 32 word \<times> Value) option" where
  "literal_inst col i raw =
     (let num = value_init\<lparr>double_val := atof raw, float_val := f32_of_f64 (atof raw)\<rparr>
      in case col_type col of
        COL_INT \<Rightarrow> Some (load_inst i OP_Integer (atoi raw) zero_value)
      | COL_FLOAT \<Rightarrow> Some (load_inst i OP_Double 0 num)
      | COL_DOUBLE \<Rightarrow> Some (load_inst i OP_Double 0 num)
      | COL_NUMERIC \<Rightarrow> Some (load_inst i OP_Double 0 num)
      | COL_DECIMAL \<Rightarrow> Some (load_inst i OP_Double 0 num)
      | COL_BOOL \<Rightarrow> Some (load_inst i OP_Integer (if parse_bool raw then 1 else 0) zero_value)
      | ty \<Rightarrow>
          (if ty \<noteq> COL_BLOB \<and> ty \<noteq> COL_TEXT \<and> ty \<noteq> COL_VECTOR \<and> length raw > col_size col then None
           else Some (load_inst i OP_String 0 (value_set_text value_init (Some raw)))))"

definition value_inst :: "InsertStmt \<Rightarrow> Column \<Rightarrow> nat \<Rightarrow> cstr option \<times> bool \<Rightarrow> (Opcode \<times> 32 word \<times> 32 word \<times> 32 word \<times> Value) option" where
  "value_inst stmt col i l =
     (if has_bound_values stmt then Some (bound_inst col i (bound_values stmt ! i))
      else case l of
        (Some raw, False) \<Rightarrow> literal_inst col i raw
      | _ \<Rightarrow> Some (OP_Null, of_nat (i + 1), 0, 0, zero_value))"

definition add_tuple :: "Vdbe \<Rightarrow> Opcode \<times> 32 word \<times> 32 word \<times> 32 word \<times> Value \<Rightarrow> Vdbe" where
  "add_tuple vm t = (case t of (opc, a, b, c, v) \<Rightarrow> vdbe_add_inst vm opc a b c v)"

text \<open>The loop over the columns; \<open>Inl\<close> is an error that ends it.\<close>

definition add_value :: "InsertStmt \<Rightarrow> Catalog \<Rightarrow> Column \<Rightarrow> nat \<Rightarrow> Vdbe \<Rightarrow> Pager \<Rightarrow> ((ExecuteResult + Vdbe) \<times> Pager) option" where
  "add_value stmt cat col i vm pg =
     (let l = literal stmt col i
      in if snd l \<and> is_not_null col then Some (Inl EXECUTE_CONSTRAINT_NOT_NULL, pg)
         else if has_check col \<and> given l \<and> \<not> check_holds col (the (fst l)) then Some (Inl EXECUTE_CONSTRAINT_CHECK, pg)
         else do {
           (fk, pg) \<leftarrow> (if has_fk col \<and> given l then fk_found cat col (the (fst l)) pg else Some (True, pg));
           if \<not> fk then Some (Inl EXECUTE_CONSTRAINT_FOREIGN_KEY, pg)
           else case value_inst stmt col i l of
             None \<Rightarrow> Some (Inl EXECUTE_BAD_SCHEMA, pg)
           | Some t \<Rightarrow> Some (Inr (add_tuple vm t), pg) })"

fun add_values :: "InsertStmt \<Rightarrow> Catalog \<Rightarrow> Column list \<Rightarrow> nat \<Rightarrow> Vdbe \<Rightarrow> Pager \<Rightarrow> ((ExecuteResult + Vdbe) \<times> Pager) option" where
  "add_values stmt cat [] i vm pg = Some (Inr vm, pg)"
| "add_values stmt cat (col # cols) i vm pg = do {
     (r, pg) \<leftarrow> add_value stmt cat col i vm pg;
     case r of Inl e \<Rightarrow> Some (Inl e, pg) | Inr vm \<Rightarrow> add_values stmt cat cols (i + 1) vm pg }"

section \<open>Duplicates\<close>

text \<open>A row that was deleted by a transaction up to this one is dead.\<close>

definition dead_row :: "64 word \<Rightarrow> 64 word \<Rightarrow> bool" where
  "dead_row txn xmax \<longleftrightarrow> xmax \<noteq> 0 \<and> xmax \<le> txn"

definition live_body :: "TableDef \<Rightarrow> 64 word \<Rightarrow> (Value list \<Rightarrow> bool) \<Rightarrow> Cursor \<Rightarrow> bool \<Rightarrow> Pager \<Rightarrow> (bool \<times> bool \<times> Pager) option" where
  "live_body def txn hit c found pg = do {
     (b, pg) \<leftarrow> cursor_value c pg;
     case deserialize_row_with_mvcc def b of (vals, (e, xmin, xmax), n) \<Rightarrow>
       if dead_row txn xmax then Some (True, found, pg)
       else Some (\<not> hit vals, hit vals, pg) }"

definition live_search :: "TableDef \<Rightarrow> 64 word \<Rightarrow> (Value list \<Rightarrow> bool) \<Rightarrow> Pager \<Rightarrow> (bool \<times> Pager) option" where
  "live_search def txn hit pg = do {
     (c, pg) \<leftarrow> btree_start def pg;
     (c, found, pg) \<leftarrow> scan_loop (live_body def txn hit) c False pg;
     Some (found, pg) }"

fun unique_taken :: "InsertStmt \<Rightarrow> TableDef \<Rightarrow> 64 word \<Rightarrow> nat list \<Rightarrow> Pager \<Rightarrow> (bool \<times> Pager) option" where
  "unique_taken stmt def txn [] pg = Some (False, pg)"
| "unique_taken stmt def txn (c # cs) pg =
     (let raw = raw_values stmt ! c; ty = col_type (columns def ! c)
      in if is_unique (columns def ! c) \<and> raw \<noteq> []
         then do {
           (dup, pg) \<leftarrow> live_search def txn (\<lambda>row. literal_equals ty raw (row ! c)) pg;
           if dup then Some (True, pg) else unique_taken stmt def txn cs pg }
         else unique_taken stmt def txn cs pg)"

definition key_literal :: "ColumnType \<Rightarrow> cstr \<Rightarrow> Value" where
  "key_literal ty raw =
     (case ty of
        COL_INT \<Rightarrow> value_init\<lparr>int_val := atoi raw\<rparr>
      | COL_FLOAT \<Rightarrow> value_init\<lparr>float_val := f32_of_f64 (atof raw)\<rparr>
      | COL_DOUBLE \<Rightarrow> value_init\<lparr>double_val := atof raw\<rparr>
      | _ \<Rightarrow> value_set_text value_init (Some raw))"

definition same_pk :: "InsertStmt \<Rightarrow> TableDef \<Rightarrow> Value list \<Rightarrow> bool" where
  "same_pk stmt def row =
     list_all (\<lambda>name. case find_column strcmp name (columns def) of
         None \<Rightarrow> True
       | Some i \<Rightarrow> i < num_values stmt \<longrightarrow>
           compare_values (col_type (columns def ! i)) (row ! i) (key_literal (col_type (columns def ! i)) (raw_values stmt ! i)) = 0)
       (pk_cols def)"

definition target_key :: "InsertStmt \<Rightarrow> TableDef \<Rightarrow> Value" where
  "target_key stmt def =
     (if has_bound_values stmt then value_copy value_init (bound_values stmt ! 0)
      else if num_values stmt > 0 \<and> raw_values stmt ! 0 \<noteq> [] then key_literal (col_type (columns def ! 0)) (raw_values stmt ! 0)
      else value_init)"

definition key_body :: "TableDef \<Rightarrow> 64 word \<Rightarrow> Value \<Rightarrow> Cursor \<Rightarrow> bool \<Rightarrow> Pager \<Rightarrow> (bool \<times> bool \<times> Pager) option" where
  "key_body def txn target c found pg = do {
     (k, pg) \<leftarrow> btree_key_value def c pg;
     if compare_values (col_type (columns def ! 0)) k target \<noteq> 0 then Some (False, found, pg)
     else do {
       (b, pg) \<leftarrow> cursor_value c pg;
       case deserialize_row_with_mvcc def b of (vals, (e, xmin, xmax), n) \<Rightarrow>
         Some (dead_row txn xmax, \<not> dead_row txn xmax, pg) } }"

definition key_taken :: "InsertStmt \<Rightarrow> TableDef \<Rightarrow> 64 word \<Rightarrow> Pager \<Rightarrow> (bool \<times> Pager) option" where
  "key_taken stmt def txn pg =
     (if length (pk_cols def) > 1 then live_search def txn (same_pk stmt def) pg
      else do {
        (c, pg) \<leftarrow> btree_find_out def (target_key stmt def) pg;
        (c, found, pg) \<leftarrow> scan_loop (key_body def txn (target_key stmt def)) c False pg;
        Some (found, pg) })"

section \<open>Secondary indexes\<close>

definition stored_value :: "InsertStmt \<Rightarrow> Column \<Rightarrow> nat \<Rightarrow> Value" where
  "stored_value stmt col i =
     (if has_bound_values stmt then value_copy value_init (bound_values stmt ! i)
      else value_from_raw (col_type col) (raw_values stmt ! i)
        (raw_values stmt ! i = [] \<or> (i < num_values stmt \<and> raw_is_null stmt ! i)))"

definition to_upper :: "byte \<Rightarrow> byte" where "to_upper c = (if 97 \<le> c \<and> c \<le> 122 then c - 32 else c)"

definition map_text :: "(byte \<Rightarrow> byte) \<Rightarrow> Value \<Rightarrow> Value" where
  "map_text f v = (case text_val v of
     THeap bs \<Rightarrow> v\<lparr>text_val := THeap (map f (c_str bs) @ drop (length (c_str bs)) bs)\<rparr> | _ \<Rightarrow> v)"

definition index_key :: "Column \<Rightarrow> Value \<Rightarrow> Value" where
  "index_key col v =
     (let k = (value_copy value_init v)\<lparr>is_null := is_null v\<rparr>
      in if idx_is_expr col \<and> (col_type col = COL_TEXT \<or> col_type col = COL_VARCHAR)
         then (if strcasecmp (idx_expr_func col) [108, 111, 119, 101, 114] = 0 then map_text to_lower k
               else if strcasecmp (idx_expr_func col) [117, 112, 112, 101, 114] = 0 then map_text to_upper k else k)
         else k)"

text \<open>A clause of one comparison, the rest of the struct zero.\<close>

definition one_cond :: "cstr \<Rightarrow> CompOp \<Rightarrow> cstr \<Rightarrow> WhereClause" where
  "one_cond col c raw = \<lparr>has_where = True,
     conds = [\<lparr>cond_col = col, cond_op = c, raw_val = raw, raw_val2 = [],
       is_subquery = False, sub_table = [], sub_col = [], sub_where_col = [], sub_where_op = OP_EQ, sub_where_val = [],
       has_sub_where = False, is_exists = False, is_not_exists = False, sub_where_is_correlated = False,
       sub_correlated_outer_col = [], cond_collation = COLL_NOT_SET\<rparr>], logic_ops = []\<rparr>"

definition index_where :: "Column \<Rightarrow> WhereClause" where
  "index_where col = one_cond (idx_where_col col) (comp_op_at (idx_where_op col)) (idx_where_val col)"

fun insert_indexes :: "TableDef \<Rightarrow> Catalog \<Rightarrow> Value list \<Rightarrow> nat list \<Rightarrow> Pager \<Rightarrow> Pager option" where
  "insert_indexes def cat vals [] pg = Some pg"
| "insert_indexes def cat vals (c # cs) pg =
     (let col = columns def ! c
      in if \<not> has_index col then insert_indexes def cat vals cs pg
         else do {
           (ok, pg) \<leftarrow> (if idx_is_partial col then eval_where_clause def vals (index_where col) cat pg else Some (True, pg));
           if \<not> ok then insert_indexes def cat vals cs pg
           else do {
             let key = index_key col (vals ! c);
             (cur, pg) \<leftarrow> btree_find (index_def def c) key pg;
             cur \<leftarrow> cur;
             pg \<leftarrow> btree_insert (index_def def c) cur [key, value_init\<lparr>int_val := int_val (vals ! 0)\<rparr>] pg;
             insert_indexes def cat vals cs pg } })"

section \<open>The whole statement\<close>

definition max_body :: "TableDef \<Rightarrow> Cursor \<Rightarrow> int \<Rightarrow> Pager \<Rightarrow> (bool \<times> int \<times> Pager) option" where
  "max_body def c m pg = do {
     (b, pg) \<leftarrow> cursor_value c pg;
     Some (True, max m (sint (int_val (fst (deserialize_row def b) ! 0))), pg) }"

text \<open>A literal of more than 4095 bytes has its first 4095 in the array, and the array only is read and written here.\<close>

definition assign_id :: "InsertStmt \<Rightarrow> TableDef \<Rightarrow> Pager \<Rightarrow> (InsertStmt \<times> Pager) option" where
  "assign_id stmt def pg =
     (if columns def \<noteq> [] \<and> is_autoincrement (hd (columns def))
      then (let stmt = (if num_values stmt < num_cols def then stmt\<lparr>num_values := num_cols def\<rparr> else stmt);
                raw = take 4095 (raw_values stmt ! 0)
            in if raw = [] \<or> atoi raw = 0 \<or> strcasecmp raw [110, 117, 108, 108] = 0
               then do {
                 (c, pg) \<leftarrow> btree_start def pg;
                 (c, m, pg) \<leftarrow> scan_loop (max_body def) c 0 pg;
                 Some (if length (raw_values stmt ! 0) > 4095 then stmt
                       else stmt\<lparr>raw_values := (raw_values stmt)[0 := fmt_int (sint (word_of_int (m + 1) :: 32 word))]\<rparr>, pg) }
               else Some (stmt, pg))
      else Some (stmt, pg))"

definition expiry :: "InsertStmt \<Rightarrow> TableDef \<Rightarrow> Pager \<Rightarrow> Value" where
  "expiry stmt def pg =
     (let ttl = (if expires_sec stmt > 0 then expires_sec stmt else default_ttl def);
          expire_at = (if ttl > 0 then time_now pg + of_nat ttl else 0)
      in value_init\<lparr>double_val := f64_of_int (uint expire_at)\<rparr>)"

definition abort_with :: "bool \<Rightarrow> ExecuteResult \<Rightarrow> Vdbe \<Rightarrow> Pager \<Rightarrow> (ExecuteResult \<times> Pager) option" where
  "abort_with auto_tx e vm pg =
     (let pg = vdbe_free vm pg
      in if auto_tx \<and> in_transaction pg then map_option (Pair e) (pager_rollback pg) else Some (e, pg))"

definition commit_auto :: "bool \<Rightarrow> Catalog \<Rightarrow> Pager \<Rightarrow> Pager option" where
  "commit_auto auto_tx cat pg =
     (if auto_tx \<and> in_transaction pg then catalog_save cat pg \<bind> pager_commit else Some pg)"

text \<open>The row goes into the table, its keys into the indexes.\<close>

definition finish_insert :: "bool \<Rightarrow> InsertStmt \<Rightarrow> TableDef \<Rightarrow> Catalog \<Rightarrow> Vdbe \<Rightarrow> Pager \<Rightarrow> (ExecuteResult \<times> Pager) option" where
  "finish_insert auto_tx stmt def cat vm pg = do {
     let vm = vdbe_add_inst (vdbe_add_inst vm OP_Insert 0 1 0 (expiry stmt def pg)) OP_Halt 0 0 0 zero_value;
     (vm, pg) \<leftarrow> vdbe_run vm pg;
     let pg = vdbe_free vm pg;
     let vals = map2 (stored_value stmt) (columns def) [0..<num_cols def];
     pg \<leftarrow> insert_indexes def cat vals [1..<num_cols def] pg;
     pg \<leftarrow> commit_auto auto_tx cat pg;
     Some (EXECUTE_SUCCESS, pg) }"

definition insert_row_vm ::
    "(ConflictAction \<Rightarrow> bool \<Rightarrow> Value \<Rightarrow> Pager \<Rightarrow> (ExecuteResult \<times> Pager) option) \<Rightarrow> bool \<Rightarrow> InsertStmt \<Rightarrow> TableDef \<Rightarrow> Catalog
     \<Rightarrow> Pager \<Rightarrow> (ExecuteResult \<times> Pager) option" where
  "insert_row_vm resolve auto_tx stmt def cat pg =
     (case vdbe_create cat pg of (vm, pg) \<Rightarrow> do {
        let vm = vdbe_add_inst vm OP_OpenWrite 0 (of_nat (root_page_num def)) 0 (value_set_text value_init (Some (tbl_name def)));
        (r, pg) \<leftarrow> add_values stmt cat (columns def) 0 vm pg;
        case r of
          Inl e \<Rightarrow> abort_with auto_tx e vm pg
        | Inr vm \<Rightarrow> do {
            let txn = (if current_commit_lsn pg \<noteq> 0 then current_commit_lsn pg else wal_lsn pg + 1);
            (dup, pg) \<leftarrow> unique_taken stmt def txn [1..<num_cols def] pg;
            if dup then abort_with auto_tx EXECUTE_CONSTRAINT_UNIQUE vm pg
            else do {
              (dup, pg) \<leftarrow> key_taken stmt def txn pg;
              if \<not> dup then finish_insert auto_tx stmt def cat vm pg
              else if length (pk_cols def) > 1 \<or> conflict_action stmt = CONFLICT_ABORT
              then abort_with auto_tx EXECUTE_DUPLICATE_KEY vm pg
              else if conflict_action stmt = CONFLICT_IGNORE
              then map_option (Pair EXECUTE_SUCCESS) (commit_auto auto_tx cat (vdbe_free vm pg))
              else resolve (conflict_action stmt) auto_tx (target_key stmt def) (vdbe_free vm pg) } } })"

text \<open>Every statement that writes begins its own transaction if there is none, and takes the write lock.\<close>

definition start_write :: "Pager \<Rightarrow> ((ExecuteResult + bool) \<times> Pager) option" where
  "start_write pg =
     (let auto_tx = (\<not> in_transaction pg);
          (begun, pg) = (if auto_tx then pager_begin_transaction pg else (True, pg))
      in if \<not> begun then Some (Inl EXECUTE_BUSY, pg)
         else (case pager_ensure_write_lock pg of (ok, pg) \<Rightarrow>
           if ok then Some (Inr auto_tx, pg)
           else if auto_tx then map_option (Pair (Inl EXECUTE_BUSY)) (pager_rollback pg)
           else Some (Inl EXECUTE_BUSY, pg)))"

text \<open>
  Triggers of the statement and the history of the table are left out: with one, the model has no result.
\<close>

definition fires :: "Catalog \<Rightarrow> TableDef \<Rightarrow> TriggerEvent \<Rightarrow> bool" where
  "fires cat def ev \<longleftrightarrow> with_history def \<or>
     list_ex (\<lambda>t. strcmp (target_table t) (tbl_name def) = 0 \<and> event t = ev) (take (num_triggers cat) (triggers cat))"

definition run_insert_vm where
  "run_insert_vm resolve stmt def cat pg =
     (if fires cat def TRIGGER_INSERT then None
      else do {
        (r, pg) \<leftarrow> start_write pg;
        case r of
          Inl e \<Rightarrow> Some (e, pg)
        | Inr auto_tx \<Rightarrow> do {
            (stmt, pg) \<leftarrow> assign_id stmt def pg;
            insert_row_vm resolve auto_tx stmt def cat pg } })"

end
