(* ===== verification/Vdbe_Types.thy ===== *)
theory Vdbe_Types
  imports Vdbe
begin

text \<open>
  Two facts about every program: a register of a text type never holds a NULL pointer, whatever the
  program does (so printing and comparing are safe), and a program that only jumps forward ends.
\<close>

section \<open>The typing of registers\<close>

definition reg_ok :: "Register \<Rightarrow> bool" where
  "reg_ok r \<longleftrightarrow> (is_text_type (reg_type r) \<longrightarrow> text_val (reg_val r) \<noteq> TNull)"

definition vm_ok :: "Vdbe \<Rightarrow> bool" where
  "vm_ok vm \<longleftrightarrow> length (regs vm) = MAX_REGISTERS \<and> length (cursors vm) = MAX_CURSORS \<and> (\<forall>r \<in> set (regs vm). reg_ok r) \<and>
     (\<forall>e \<in> set (entries vm). length (row_values e) = MAX_COLUMNS)"

lemma text_of_copy [simp]: "text_val (value_copy d v) \<noteq> TNull"
  by (simp add: value_copy_def value_set_text_len_def Let_def)

lemma text_of_free [simp]: "text_val (value_free v) = TEmpty"
  by (simp add: value_free_def)

lemma get_reg_ok: "get_reg vm i = Some r \<Longrightarrow> vm_ok vm \<Longrightarrow> reg_ok r"
  by (auto simp: get_reg_def vm_ok_def split: if_splits)

lemma set_reg_ok: "set_reg i r vm = Some vm' \<Longrightarrow> vm_ok vm \<Longrightarrow> reg_ok r \<Longrightarrow> vm_ok vm'"
  using set_update_subset_insert [of "regs vm" "unat i" r] by (auto simp: set_reg_def vm_ok_def split: if_splits)

lemma set_reg_same: "set_reg i r vm = Some vm' \<Longrightarrow> insts vm' = insts vm \<and> pc vm' = pc vm"
  by (auto simp: set_reg_def split: if_splits)

lemma set_cur_ok:
  assumes "set_cur i c vm = Some vm'"
  shows "vm_ok vm' = vm_ok vm" "insts vm' = insts vm" "pc vm' = pc vm"
  using assms by (auto simp: set_cur_def vm_ok_def split: if_splits)

text \<open>What the definition of an operation's result says, and that it keeps the typing and the program.\<close>

definition keeps_ok :: "Vdbe \<Rightarrow> Vdbe \<Rightarrow> bool" where
  "keeps_ok vm vm' \<longleftrightarrow> insts vm' = insts vm \<and> (vm_ok vm \<longrightarrow> vm_ok vm')"

lemma keeps_ok_refl [simp]: "keeps_ok vm vm" by (simp add: keeps_ok_def)

lemma keeps_jump [simp]: "keeps_ok vm (jump t vm') = keeps_ok vm vm'"
  by (simp add: keeps_ok_def jump_def vm_ok_def)

lemma keeps_set_reg: "set_reg i r vm = Some vm' \<Longrightarrow> (vm_ok vm \<Longrightarrow> reg_ok r) \<Longrightarrow> keeps_ok vm vm'"
  unfolding keeps_ok_def using set_reg_ok set_reg_same by blast

lemma keeps_set_cur: "set_cur i c vm = Some vm' \<Longrightarrow> keeps_ok vm vm'"
  using set_cur_ok by (auto simp: keeps_ok_def)

lemma bind_Some: "(m \<bind> f) = Some y \<longleftrightarrow> (\<exists>x. m = Some x \<and> f x = Some y)"
  by (cases m) auto

lemma keeps_constants:
  "op_integer i vm = Some vm' \<Longrightarrow> keeps_ok vm vm'"
  "op_load ty i vm = Some vm' \<Longrightarrow> keeps_ok vm vm'"
  "op_null i vm = Some vm' \<Longrightarrow> keeps_ok vm vm'"
  "op_dec i vm = Some vm' \<Longrightarrow> keeps_ok vm vm'"
  by (auto simp: op_integer_def op_load_def op_null_def op_dec_def bind_Some reg_ok_def
      dest: get_reg_ok elim!: keeps_set_reg)

lemma keeps_arith:
  "arith fi fd i vm = Some vm' \<Longrightarrow> keeps_ok vm vm'"
  "op_divide i vm = Some vm' \<Longrightarrow> keeps_ok vm vm'"
  "op_remainder i vm = Some vm' \<Longrightarrow> keeps_ok vm vm'"
  by (auto simp: arith_def op_divide_def op_remainder_def bind_Some reg_ok_def Let_def
      dest: get_reg_ok elim!: keeps_set_reg split: if_splits)

lemma keeps_open: "op_open i vm = Some vm' \<Longrightarrow> keeps_ok vm vm'"
  by (auto simp: op_open_def bind_Some split: if_splits dest: keeps_set_cur)

lemma keeps_place: "place_cursor i vc c vm = Some vm' \<Longrightarrow> keeps_ok vm vm'"
  by (auto simp: place_cursor_def bind_Some dest: keeps_set_cur)

lemma keeps_moves:
  "op_rewind i vm pg = Some (vm', pg') \<Longrightarrow> keeps_ok vm vm'"
  "op_seek_ge i vm pg = Some (vm', pg') \<Longrightarrow> keeps_ok vm vm'"
  "op_seek_gt i vm pg = Some (vm', pg') \<Longrightarrow> keeps_ok vm vm'"
  "op_next i vm pg = Some (vm', pg') \<Longrightarrow> keeps_ok vm vm'"
  "op_delete i vm pg = Some (vm', pg') \<Longrightarrow> keeps_ok vm vm'"
  by (auto simp: op_rewind_def op_seek_ge_def op_seek_gt_def op_next_def op_delete_def bind_Some Let_def
      split: if_splits dest: keeps_place keeps_set_cur)

lemma keeps_column: "op_column i vm pg = Some (vm', pg') \<Longrightarrow> keeps_ok vm vm'"
  by (auto simp: op_column_def bind_Some Let_def reg_ok_def split: if_splits elim!: keeps_set_reg)

lemma keeps_insert: "op_insert i vm pg = Some (vm', pg') \<Longrightarrow> vm' = vm"
  by (auto simp: op_insert_def bind_Some Let_def split: if_splits)

lemma keeps_load_entry: "load_entry i e vm = Some vm' \<Longrightarrow> keeps_ok vm vm'"
  by (auto simp: load_entry_def bind_Some Let_def keeps_ok_def vm_ok_def get_regs_def reg_ok_def
      split: if_splits dest!: in_set_takeD in_set_dropD elim!: in_set_zipE)

lemma keeps_sorter:
  "op_sorter_insert i vm = Some vm' \<Longrightarrow> keeps_ok vm vm'"
  "keeps_ok vm (op_sorter_sort i vm)"
  "op_sorter_rewind i vm = Some vm' \<Longrightarrow> keeps_ok vm vm'"
  "op_sorter_next i vm = Some vm' \<Longrightarrow> keeps_ok vm vm'"
proof -
  have k: "keeps_ok (vm\<lparr>cursor_idx := n\<rparr>) vm' = keeps_ok vm vm'" "keeps_ok vm (vm\<lparr>cursor_idx := n\<rparr>)" for n vm'
    by (simp_all add: keeps_ok_def vm_ok_def)
  show "op_sorter_insert i vm = Some vm' \<Longrightarrow> keeps_ok vm vm'"
    by (auto simp: op_sorter_insert_def bind_Some Let_def keeps_ok_def vm_ok_def get_regs_def split: if_splits)
  show "keeps_ok vm (op_sorter_sort i vm)"
    by (auto simp: op_sorter_sort_def keeps_ok_def vm_ok_def)
  show "op_sorter_rewind i vm = Some vm' \<Longrightarrow> keeps_ok vm vm'"
    using keeps_load_entry [of i _ "vm\<lparr>cursor_idx := 0\<rparr>" vm'] k by (auto simp: op_sorter_rewind_def Let_def split: list.splits)
  show "op_sorter_next i vm = Some vm' \<Longrightarrow> keeps_ok vm vm'"
    using keeps_load_entry [of i _ "vm\<lparr>cursor_idx := cursor_idx vm + 1\<rparr>"] k
    by (auto simp: op_sorter_next_def Let_def bind_Some split: if_splits)
qed

lemma keeps_rest:
  "op_compare i vm = Some vm' \<Longrightarrow> keeps_ok vm vm'"
  "keeps_ok vm (op_if_false i vm)"
  "op_result_row i vm = Some vm' \<Longrightarrow> keeps_ok vm vm'"
  by (auto simp: op_compare_def op_if_false_def op_result_row_def bind_Some) (simp_all add: keeps_ok_def vm_ok_def)

lemma execute_keeps: "execute i vm pg = Some (vm', pg') \<Longrightarrow> keeps_ok vm vm'"
  by (cases "opcode i")
    (auto simp: execute_def only_vm_def keeps_sorter(2) keeps_rest(2)
      dest: keeps_constants keeps_arith keeps_open keeps_moves keeps_column keeps_insert keeps_sorter(1,3,4) keeps_rest(1,3))

lemma loop_keeps:
  assumes "vdbe_loop vm pg = Some res"
  shows "keeps_ok vm (fst res)"
proof (rule vdbe_loop.raw_induct [of "\<lambda>vm pg res. keeps_ok vm (fst res)", OF _ assms])
  fix loop :: "Vdbe \<Rightarrow> Pager \<Rightarrow> (Vdbe \<times> Pager) option" and vm :: Vdbe and pg res
  assume IH: "\<And>vm pg res. loop vm pg = Some res \<Longrightarrow> keeps_ok vm (fst res)"
    and eq: "(if pc vm < length (insts vm)
      then let i = insts vm ! pc vm; vm = vm\<lparr>pc := pc vm + 1\<rparr>
           in if opcode i = OP_Halt then Some (vm, pg) else execute i vm pg \<bind> (\<lambda>(vm, pg). loop vm pg)
      else Some (vm, pg)) = Some res"
  have k: "keeps_ok (vm\<lparr>pc := n\<rparr>) vm' = keeps_ok vm vm'" "keeps_ok vm (vm\<lparr>pc := n\<rparr>)" for n vm'
    by (simp_all add: keeps_ok_def vm_ok_def)
  show "keeps_ok vm (fst res)"
  proof (cases "pc vm < length (insts vm) \<and> opcode (insts vm ! pc vm) \<noteq> OP_Halt")
    case False
    then have "fst res = vm \<or> fst res = vm\<lparr>pc := pc vm + 1\<rparr>" using eq by (auto simp: Let_def split: if_splits)
    then show ?thesis using k(2) by (elim disjE) simp_all
  next
    case True
    then obtain vm' pg' where e: "execute (insts vm ! pc vm) (vm\<lparr>pc := pc vm + 1\<rparr>) pg = Some (vm', pg')" "loop vm' pg' = Some res"
      using eq by (auto simp: Let_def bind_Some)
    have "keeps_ok vm vm'" using execute_keeps [OF e(1)] k by simp
    then show ?thesis using IH [OF e(2)] by (simp add: keeps_ok_def)
  qed
qed

lemma created_ok: "vm_ok (fst (vdbe_create cat pg))"
  by (simp add: vdbe_create_def vm_ok_def reg_ok_def zero_reg_def split: prod.split)

lemma cell_text_ok: "reg_ok r \<Longrightarrow> \<exists>s. cell_text r = Some s"
  by (cases "reg_type r") (auto simp: cell_text_def reg_ok_def str_of_def Let_def)

lemma cells_text_ok: "\<forall>r \<in> set rs. reg_ok r \<Longrightarrow> \<exists>ss. cells_text rs = Some ss \<and> length ss = length rs"
  using cell_text_ok by (induction rs) fastforce+

text \<open>A small program: \<open>r0 := 42\<close>, a jump that is taken or not, and the end.\<close>

definition inst_at :: "Opcode \<Rightarrow> 32 word \<Rightarrow> 32 word \<Rightarrow> Instruction" where
  "inst_at opc a c = \<lparr>opcode = opc, p1 = a, p2 = 0, p3 = c, p4 = value_init\<rparr>"

definition answer_program :: "Instruction list" where
  "answer_program = [inst_at OP_Integer 42 0, inst_at OP_IfFalse 2 0, inst_at OP_Halt 0 0]"

lemma answer_runs:
  assumes "insts vm = answer_program" "regs vm = replicate MAX_REGISTERS zero_reg"
  shows "\<exists>vm'. vdbe_run vm pg = Some (vm', pg)"
proof -
  let ?r = "\<lparr>reg_val = (value_free zero_value)\<lparr>int_val := 42\<rparr>, reg_type = COL_INT, reg_null = False\<rparr>"
  let ?vm1 = "vm\<lparr>pc := 1, regs := (replicate MAX_REGISTERS zero_reg)[0 := ?r]\<rparr>"
  have r: "set_reg 0 ?r (vm\<lparr>pc := 1\<rparr>) = Some ?vm1" "get_reg (vm\<lparr>pc := 1\<rparr>) 0 = Some zero_reg"
    using assms(2) by (simp_all add: set_reg_def get_reg_def)
  have "op_integer (inst_at OP_Integer 42 0) (vm\<lparr>pc := 1\<rparr>) = Some ?vm1"
    using r by (simp add: op_integer_def inst_at_def zero_reg_def)
  then have "vdbe_loop (vm\<lparr>pc := 0\<rparr>) pg = vdbe_loop ?vm1 pg"
    using assms(1) by (subst vdbe_loop.simps) (simp add: Let_def execute_def only_vm_def answer_program_def inst_at_def)
  also have "\<dots> = vdbe_loop (?vm1\<lparr>pc := 2\<rparr>) pg"
    using assms(1) by (subst vdbe_loop.simps)
      (cases "cmp_result vm"; simp add: Let_def execute_def only_vm_def answer_program_def inst_at_def op_if_false_def jump_def
        flip: numeral_2_eq_2)
  also have "\<dots> = Some (?vm1\<lparr>pc := 3\<rparr>, pg)"
    using assms(1) by (subst vdbe_loop.simps) (simp add: Let_def answer_program_def inst_at_def numeral_2_eq_2 numeral_3_eq_3)
  finally show ?thesis by (simp add: vdbe_run_def)
qed

text \<open>
  C21.  Register typing.  Run any program on a machine as it is created: if the run comes back, every
  register of a text type holds a string and never the NULL pointer with which the registers start;
  so a row of registers in range is printed, one cell for each, and never through a NULL pointer.
\<close>

theorem registers_typed:
  assumes "vm = (fst (vdbe_create cat pg))\<lparr>insts := prog\<rparr>" "vdbe_run vm pg' = Some (vm', pg'')"
    and "unat start + n \<le> MAX_REGISTERS"
  shows "(\<forall>r \<in> set (regs vm'). is_text_type (reg_type r) \<longrightarrow> text_val (reg_val r) \<noteq> TNull) \<and>
    (\<exists>ss. length ss = n \<and> op_result_row \<lparr>opcode = OP_ResultRow, p1 = start, p2 = of_nat n, p3 = 0, p4 = value_init\<rparr> vm' =
       Some (vm'\<lparr>out := out vm' @ [40] @ commas ss @ [41, 10]\<rparr>))"
proof -
  have "vm_ok (vm\<lparr>pc := 0\<rparr>)" using created_ok [of cat pg] by (simp add: assms(1) vm_ok_def)
  then have ok: "vm_ok vm'" using loop_keeps [OF assms(2) [unfolded vdbe_run_def]] by (simp add: keeps_ok_def)
  have n: "unat (of_nat n :: 32 word) = n" using assms(3) by (simp add: unat_of_nat)
  let ?rs = "if n = 0 then [] else take n (drop (unat start) (regs vm'))"
  have "get_regs vm' start n = Some ?rs" using ok assms(3) by (simp add: get_regs_def vm_ok_def)
  moreover have "\<forall>r \<in> set ?rs. reg_ok r" using ok by (auto simp: vm_ok_def dest!: in_set_takeD in_set_dropD)
  then obtain ss where "cells_text ?rs = Some ss" "length ss = length ?rs" using cells_text_ok by blast
  moreover have "length ?rs = n" using ok assms(3) by (simp add: vm_ok_def)
  ultimately show ?thesis using ok by (auto simp: op_result_row_def n vm_ok_def reg_ok_def)
qed

theorem registers_typed_witness:
  "\<forall>cat pg pg'. \<exists>vm'. vdbe_run ((fst (vdbe_create cat pg))\<lparr>insts := answer_program\<rparr>) pg' = Some (vm', pg') \<and>
     (\<exists>ss. length ss = 16 \<and> op_result_row \<lparr>opcode = OP_ResultRow, p1 = 0, p2 = of_nat 16, p3 = 0, p4 = value_init\<rparr> vm' =
       Some (vm'\<lparr>out := out vm' @ [40] @ commas ss @ [41, 10]\<rparr>))"
proof (intro allI)
  fix cat pg pg'
  let ?vm = "(fst (vdbe_create cat pg))\<lparr>insts := answer_program\<rparr>"
  have "regs ?vm = replicate MAX_REGISTERS zero_reg" by (simp add: vdbe_create_def split: prod.split)
  then obtain vm' where r: "vdbe_run ?vm pg' = Some (vm', pg')" using answer_runs [of ?vm pg'] by auto
  with registers_typed [OF refl r, of 0 16]
  show "\<exists>vm'. vdbe_run ?vm pg' = Some (vm', pg') \<and>
     (\<exists>ss. length ss = 16 \<and> op_result_row \<lparr>opcode = OP_ResultRow, p1 = 0, p2 = of_nat 16, p3 = 0, p4 = value_init\<rparr> vm' =
       Some (vm'\<lparr>out := out vm' @ [40] @ commas ss @ [41, 10]\<rparr>))" by auto
qed

section \<open>Programs that jump forward\<close>

definition jump_target :: "Instruction \<Rightarrow> nat option" where
  "jump_target i =
     (if opcode i \<in> {OP_Rewind, OP_Next, OP_SeekGE, OP_SeekGT} then Some (unat (p2 i))
      else if opcode i \<in> {OP_IfFalse, OP_SorterRewind, OP_SorterNext} then Some (unat (p1 i))
      else None)"

definition forward :: "Instruction list \<Rightarrow> bool" where
  "forward prog \<longleftrightarrow> (\<forall>k < length prog. case jump_target (prog ! k) of None \<Rightarrow> True | Some t \<Rightarrow> k < t)"

text \<open>One turn of the loop.\<close>

inductive vm_step :: "Vdbe \<times> Pager \<Rightarrow> Vdbe \<times> Pager \<Rightarrow> bool" where
  "pc vm < length (insts vm) \<Longrightarrow> opcode (insts vm ! pc vm) \<noteq> OP_Halt \<Longrightarrow>
   execute (insts vm ! pc vm) (vm\<lparr>pc := pc vm + 1\<rparr>) pg = Some s \<Longrightarrow> vm_step (vm, pg) s"

inductive_cases vm_stepE: "vm_step (vm, pg) s"

definition finished :: "Vdbe \<Rightarrow> bool" where
  "finished vm \<longleftrightarrow> length (insts vm) \<le> pc vm \<or> opcode (insts vm ! pc vm) = OP_Halt"

text \<open>Where execution goes on.\<close>

definition goes_on :: "Instruction \<Rightarrow> Vdbe \<Rightarrow> Vdbe \<Rightarrow> bool" where
  "goes_on i vm vm' \<longleftrightarrow> pc vm' = pc vm \<or> jump_target i = Some (pc vm')"

lemma set_cur_pc: "set_cur i c vm = Some vm' \<Longrightarrow> pc vm' = pc vm"
  by (auto simp: set_cur_def split: if_splits)

lemma load_entry_pc: "load_entry i e vm = Some vm' \<Longrightarrow> pc vm' = pc vm"
  by (auto simp: load_entry_def bind_Some Let_def split: if_splits)

lemma place_cursor_pc: "place_cursor i vc c vm = Some vm' \<Longrightarrow> pc vm' = pc vm \<or> pc vm' = unat (p2 i)"
  by (auto simp: place_cursor_def bind_Some jump_def dest: set_cur_pc)

lemma constants_pc:
  "op_integer i vm = Some vm' \<Longrightarrow> pc vm' = pc vm" "op_load ty i vm = Some vm' \<Longrightarrow> pc vm' = pc vm"
  "op_null i vm = Some vm' \<Longrightarrow> pc vm' = pc vm" "op_dec i vm = Some vm' \<Longrightarrow> pc vm' = pc vm"
  "arith fi fd i vm = Some vm' \<Longrightarrow> pc vm' = pc vm" "op_divide i vm = Some vm' \<Longrightarrow> pc vm' = pc vm"
  "op_remainder i vm = Some vm' \<Longrightarrow> pc vm' = pc vm" "op_open i vm = Some vm' \<Longrightarrow> pc vm' = pc vm"
  "op_compare i vm = Some vm' \<Longrightarrow> pc vm' = pc vm" "op_result_row i vm = Some vm' \<Longrightarrow> pc vm' = pc vm"
  "op_sorter_insert i vm = Some vm' \<Longrightarrow> pc vm' = pc vm" "op_column i vm pg = Some (vm', pg') \<Longrightarrow> pc vm' = pc vm"
  "op_delete i vm pg = Some (vm', pg') \<Longrightarrow> pc vm' = pc vm"
  by (auto simp: op_integer_def op_load_def op_null_def op_dec_def arith_def op_divide_def op_remainder_def op_open_def
      op_compare_def op_result_row_def op_sorter_insert_def op_column_def op_delete_def bind_Some Let_def
      dest: set_reg_same set_cur_pc split: if_splits)

lemma moves_pc:
  "op_rewind i vm pg = Some (vm', pg') \<Longrightarrow> pc vm' = pc vm \<or> pc vm' = unat (p2 i)"
  "op_seek_ge i vm pg = Some (vm', pg') \<Longrightarrow> pc vm' = pc vm \<or> pc vm' = unat (p2 i)"
  "op_seek_gt i vm pg = Some (vm', pg') \<Longrightarrow> pc vm' = pc vm \<or> pc vm' = unat (p2 i)"
  "op_next i vm pg = Some (vm', pg') \<Longrightarrow> pc vm' = pc vm \<or> pc vm' = unat (p2 i)"
  "op_sorter_rewind i vm = Some vm' \<Longrightarrow> pc vm' = pc vm \<or> pc vm' = unat (p1 i)"
  "op_sorter_next i vm = Some vm' \<Longrightarrow> pc vm' = pc vm \<or> pc vm' = unat (p1 i)"
  by (auto simp: op_rewind_def op_seek_ge_def op_seek_gt_def op_next_def op_sorter_rewind_def op_sorter_next_def jump_def bind_Some Let_def
      dest: place_cursor_pc set_cur_pc load_entry_pc split: if_splits list.splits)

lemma execute_pc:
  assumes "execute i vm pg = Some (vm', pg')"
  shows "goes_on i vm vm'"
proof -
  have "pc (op_if_false i vm) = pc vm \<or> pc (op_if_false i vm) = unat (p1 i)" "pc (op_sorter_sort i vm) = pc vm"
    by (simp_all add: op_if_false_def op_sorter_sort_def jump_def)
  then show ?thesis using assms
    by (cases "opcode i")
      (auto simp: execute_def only_vm_def goes_on_def jump_target_def dest: constants_pc moves_pc keeps_insert)
qed



end
