(* ===== verification/Insert_Run.thy ===== *)
theory Insert_Run
  imports Insert Vdbe_Types Btree_Sample
begin

text \<open>
  What the program of an INSERT does: it puts the row of the literals' values into the table, as one
  call of the B+ tree would.  Two flaws show: a BOOL literal arrives as false, and a table of sixteen
  columns writes past the sixteen registers.
\<close>

section \<open>Values on their way\<close>

text \<open>The value of a literal in the row that is inserted.\<close>

definition vm_value :: "Column \<Rightarrow> cstr option \<times> bool \<Rightarrow> Value" where
  "vm_value col l =
     (case l of
        (Some raw, False) \<Rightarrow>
          (case col_type col of
             COL_INT \<Rightarrow> value_init\<lparr>int_val := atoi raw\<rparr>
           | COL_BOOL \<Rightarrow> value_init\<lparr>int_val := (if parse_bool raw then 1 else 0)\<rparr>
           | ty \<Rightarrow> if is_text_type ty then value_set_text value_init (Some raw)
                   else value_init\<lparr>double_val := atof raw, float_val := f32_of_f64 (atof raw)\<rparr>)
      | _ \<Rightarrow> value_init\<lparr>is_null := True\<rparr>)"

text \<open>The register that a loading instruction leaves, when it held nothing before.\<close>

definition load_result :: "Opcode \<times> 32 word \<times> 32 word \<times> 32 word \<times> Value \<Rightarrow> Register" where
  "load_result t = (case t of (opc, a, b, c, v) \<Rightarrow>
     if opc = OP_Null then zero_reg\<lparr>reg_val := value_init\<lparr>is_null := True\<rparr>, reg_null := True\<rparr>
     else if opc = OP_Integer then \<lparr>reg_val = value_init\<lparr>int_val := a\<rparr>, reg_type = COL_INT, reg_null = False\<rparr>
     else \<lparr>reg_val = value_copy zero_value v, reg_type = (if opc = OP_Double then COL_DOUBLE else COL_TEXT), reg_null = False\<rparr>)"

definition inst_of :: "Opcode \<times> 32 word \<times> 32 word \<times> 32 word \<times> Value \<Rightarrow> Instruction" where
  "inst_of t = (case t of (opc, a, b, c, v) \<Rightarrow> \<lparr>opcode = opc, p1 = a, p2 = b, p3 = c, p4 = value_copy zero_value v\<rparr>)"

text \<open>It loads register \<open>i + 1\<close>.\<close>

definition loads :: "nat \<Rightarrow> Opcode \<times> 32 word \<times> 32 word \<times> 32 word \<times> Value \<Rightarrow> bool" where
  "loads i t \<longleftrightarrow> (case t of (opc, a, b, c, v) \<Rightarrow>
     (opc \<in> {OP_Integer, OP_Double, OP_String} \<and> c = of_nat (i + 1)) \<or> (opc = OP_Null \<and> a = of_nat (i + 1)))"

lemma add_tuple_insts: "add_tuple vm t = vm\<lparr>insts := insts vm @ [inst_of t]\<rparr>"
  by (simp add: add_tuple_def vdbe_add_inst_def inst_of_def split: prod.split)

lemma copy_copy [simp]: "value_copy d (value_copy e v) = value_copy e v"
  by (cases "text_val v") (auto simp: value_copy_def value_set_text_len_def Let_def)

lemma copy_init [simp]:
  "value_copy d (value_init\<lparr>int_val := a\<rparr>) = value_init\<lparr>int_val := a\<rparr>"
  "value_copy d (value_init\<lparr>is_null := True\<rparr>) = value_init\<lparr>is_null := True\<rparr>"
  "value_copy d (value_init\<lparr>double_val := x, float_val := y\<rparr>) = value_init\<lparr>double_val := x, float_val := y\<rparr>"
  by (simp_all add: value_copy_def value_init_def)

lemma copy_text: "value_copy d (value_set_text value_init (Some raw)) = value_set_text value_init (Some raw)"
  by (simp add: value_copy_def value_set_text_def value_set_text_len_def value_init_def Let_def)

lemma not_null_again [simp]:
  "(value_init\<lparr>int_val := a\<rparr>)\<lparr>is_null := False\<rparr> = value_init\<lparr>int_val := a\<rparr>"
  "(value_init\<lparr>double_val := x, float_val := y\<rparr>)\<lparr>is_null := False\<rparr> = value_init\<lparr>double_val := x, float_val := y\<rparr>"
  "(value_set_text value_init (Some raw))\<lparr>is_null := False\<rparr> = value_set_text value_init (Some raw)"
  by (simp_all add: value_init_def value_set_text_def value_set_text_len_def Let_def)

lemma value_inst_loads: "value_inst stmt col i l = Some t \<Longrightarrow> loads i t"
  by (cases "col_type col")
    (auto simp: value_inst_def bound_inst_def literal_inst_def load_inst_def loads_def split: if_splits option.splits prod.splits bool.splits)

lemma value_inst_value:
  assumes "value_inst stmt col i l = Some t" "\<not> has_bound_values stmt"
  shows "insert_value (load_result t) = vm_value col l"
proof (cases "\<exists>raw. l = (Some raw, False)")
  case True
  then obtain raw where l: "l = (Some raw, False)" by blast
  then have "literal_inst col i raw = Some t" using assms by (simp add: value_inst_def)
  then show ?thesis unfolding l
    by (cases "col_type col")
      (auto simp: literal_inst_def load_inst_def vm_value_def load_result_def insert_value_def copy_text Let_def split: if_splits)
next
  case False
  then have "t = (OP_Null, of_nat (i + 1), 0, 0, zero_value)" "vm_value col l = value_init\<lparr>is_null := True\<rparr>"
    using assms by (auto simp: value_inst_def vm_value_def split: option.splits prod.splits bool.splits)
  then show ?thesis by (simp add: load_result_def insert_value_def)
qed

section \<open>Compiling\<close>

lemma add_values_insts:
  assumes "add_values stmt cat cols i vm pg = Some (Inr vm', pg')"
  shows "\<exists>ts. vm' = vm\<lparr>insts := insts vm @ map inst_of ts\<rparr> \<and> length ts = length cols \<and>
    (\<forall>k < length cols. value_inst stmt (cols ! k) (i + k) (literal stmt (cols ! k) (i + k)) = Some (ts ! k))"
  using assms
proof (induction cols arbitrary: i vm pg)
  case (Cons col cols)
  then obtain r q where r: "add_value stmt cat col i vm pg = Some (r, q)"
    "(case r of Inl e \<Rightarrow> Some (Inl e, q) | Inr w \<Rightarrow> add_values stmt cat cols (i + 1) w q) = Some (Inr vm', pg')"
    by (auto simp: bind_Some)
  then obtain t where t: "r = Inr (add_tuple vm t)" "value_inst stmt col i (literal stmt col i) = Some t"
    by (auto simp: add_value_def bind_Some Let_def split: if_splits option.splits sum.splits)
  with r(2) Cons.IH [of "i + 1" "add_tuple vm t" q] obtain ts where ts:
    "vm' = (add_tuple vm t)\<lparr>insts := insts (add_tuple vm t) @ map inst_of ts\<rparr>" "length ts = length cols"
    "\<forall>k < length cols. value_inst stmt (cols ! k) (i + 1 + k) (literal stmt (cols ! k) (i + 1 + k)) = Some (ts ! k)"
    by auto
  show ?case
    using ts t by (intro exI [of _ "t # ts"]) (auto simp: add_tuple_insts less_Suc_eq_0_disj)
qed simp

section \<open>Running\<close>

lemma loop_step:
  assumes "pc vm < length (insts vm)" "opcode (insts vm ! pc vm) \<noteq> OP_Halt"
    and "execute (insts vm ! pc vm) (vm\<lparr>pc := pc vm + 1\<rparr>) pg = Some (vm', pg')"
  shows "vdbe_loop vm pg = vdbe_loop vm' pg'"
  using assms by (subst vdbe_loop.simps) (simp add: Let_def)

lemma execute_load:
  assumes "loads i t" "i + 1 < length (regs vm)" "length (regs vm) \<le> MAX_REGISTERS" "regs vm ! (i + 1) = zero_reg"
  shows "execute (inst_of t) vm pg = Some (vm\<lparr>regs := (regs vm)[i + 1 := load_result t]\<rparr>, pg)"
proof -
  have u: "unat (of_nat (i + 1) :: 32 word) = i + 1" using assms(2,3) by (simp add: unat_of_nat del: of_nat_add of_nat_Suc)
  have z: "value_free zero_value = value_init" by (simp add: value_free_def zero_value_def value_init_def)
  obtain opc a b c v where t: "t = (opc, a, b, c, v)" by (cases t)
  show ?thesis
    using assms u z
    by (auto simp: t loads_def inst_of_def execute_def only_vm_def op_integer_def op_load_def op_null_def get_reg_def set_reg_def
        load_result_def zero_reg_def simp del: of_nat_add of_nat_Suc)
qed

lemma run_loads:
  assumes "\<forall>k < length ts. loads (i + k) (ts ! k)" "insts vm = pre @ map inst_of ts @ post" "pc vm = length pre"
    and "regs vm = before @ replicate (length ts) zero_reg @ after" "length before = i + 1" "length (regs vm) \<le> MAX_REGISTERS"
  shows "vdbe_loop vm pg = vdbe_loop (vm\<lparr>regs := before @ map load_result ts @ after, pc := length pre + length ts\<rparr>) pg"
  using assms
proof (induction ts arbitrary: i vm pre before)
  case Nil
  then have "vm\<lparr>regs := before @ after, pc := length pre\<rparr> = vm" by simp
  then show ?case by simp
next
  case (Cons t ts)
  let ?vm = "vm\<lparr>pc := pc vm + 1\<rparr>" and ?regs = "(before @ [load_result t]) @ replicate (length ts) zero_reg @ after"
  have i: "insts vm ! pc vm = inst_of t" "pc vm < length (insts vm)" using Cons.prems(2,3) by (simp_all add: nth_append)
  have t: "loads i t" using Cons.prems(1) by fastforce
  then have h: "opcode (inst_of t) \<noteq> OP_Halt" by (cases t) (auto simp: loads_def inst_of_def)
  have r: "regs vm ! (i + 1) = zero_reg" "i + 1 < length (regs vm)" "(regs vm)[i + 1 := load_result t] = ?regs"
    using Cons.prems(4,5) by (simp_all add: nth_append list_update_append)
  have e: "execute (inst_of t) ?vm pg = Some (?vm\<lparr>regs := ?regs\<rparr>, pg)"
    using execute_load [of i t ?vm pg] t r Cons.prems(6) by simp
  have "vdbe_loop vm pg = vdbe_loop (?vm\<lparr>regs := ?regs\<rparr>) pg"
    using loop_step [of vm pg] i h e by simp
  also have "\<dots> = vdbe_loop ((?vm\<lparr>regs := ?regs\<rparr>)\<lparr>regs := (before @ [load_result t]) @ map load_result ts @ after,
      pc := length (pre @ [inst_of t]) + length ts\<rparr>) pg"
  proof (rule Cons.IH [of "Suc i" _ "pre @ [inst_of t]"])
    show "\<forall>k < length ts. loads (Suc i + k) (ts ! k)" using Cons.prems(1) by fastforce
  qed (use Cons.prems in \<open>simp_all\<close>)
  finally show ?case by (simp add: Cons.prems(3))
qed

section \<open>The program of an INSERT\<close>

text \<open>The machine as \<open>insert_row_vm\<close> has it before the first value, and before the run.\<close>

definition opened_vm :: "TableDef \<Rightarrow> Catalog \<Rightarrow> Pager \<Rightarrow> Vdbe" where
  "opened_vm def cat pg =
     vdbe_add_inst (fst (vdbe_create cat pg)) OP_OpenWrite 0 (of_nat (root_page_num def)) 0 (value_set_text value_init (Some (tbl_name def)))"

definition ready_vm :: "Vdbe \<Rightarrow> Value \<Rightarrow> Vdbe" where
  "ready_vm vm ttl = vdbe_add_inst (vdbe_add_inst vm OP_Insert 0 1 0 ttl) OP_Halt 0 0 0 zero_value"

lemma opened_vm:
  "insts (opened_vm def cat pg) = [inst_of (OP_OpenWrite, 0, of_nat (root_page_num def), 0, value_set_text value_init (Some (tbl_name def)))]"
  "regs (opened_vm def cat pg) = replicate MAX_REGISTERS zero_reg" "cursors (opened_vm def cat pg) = replicate MAX_CURSORS closed_cursor"
  "vm_catalog (opened_vm def cat pg) = cat"
  by (simp_all add: opened_vm_def vdbe_create_def vdbe_add_inst_def inst_of_def split: prod.split)

lemma str_of_text:
  assumes "c_str name = name" "length name < 2 ^ 32"
  shows "str_of (value_copy d (value_set_text value_init (Some name))) = Some name"
proof -
  have "unat (of_nat (length name) :: 32 word) = length name" using assms(2) by (simp add: unat_of_nat)
  then show ?thesis unfolding copy_text using assms
    by (simp add: str_of_def val_text_def value_set_text_def value_set_text_len_def Let_def)
qed

text \<open>Opening the table, then the values.\<close>

lemma run_opened:
  assumes "vm = (opened_vm def cat pg0)\<lparr>insts := insts (opened_vm def cat pg0) @ map inst_of ts\<rparr>"
    and "catalog_find cat (tbl_name def) = Some def" "\<not> is_index_name (tbl_name def)" "c_str (tbl_name def) = tbl_name def"
    "length (tbl_name def) < 2 ^ 32"
  shows "vdbe_run (ready_vm vm ttl) pg =
    vdbe_loop ((ready_vm vm ttl)\<lparr>cursors := (replicate MAX_CURSORS closed_cursor)[0 := \<lparr>btree_cursor = None, vc_def = def, is_open = True\<rparr>],
      pc := 1\<rparr>) pg"
proof -
  let ?vm = "(ready_vm vm ttl)\<lparr>pc := 0\<rparr>"
  let ?t = "(OP_OpenWrite, 0, of_nat (root_page_num def), 0, value_set_text value_init (Some (tbl_name def)))"
  have i: "insts ?vm ! 0 = inst_of ?t" "insts ?vm \<noteq> []"
    by (simp_all add: ready_vm_def vdbe_add_inst_def assms(1) opened_vm)
  have c: "cursors ?vm = replicate MAX_CURSORS closed_cursor" "vm_catalog ?vm = cat"
    by (simp_all add: ready_vm_def vdbe_add_inst_def assms(1) opened_vm)
  have s: "str_of (p4 (inst_of ?t)) = Some (tbl_name def)" using str_of_text [OF assms(4,5)] by (simp add: inst_of_def)
  have "execute (inst_of ?t) (?vm\<lparr>pc := 1\<rparr>) pg =
      Some (?vm\<lparr>pc := 1, cursors := (replicate MAX_CURSORS closed_cursor)[0 := \<lparr>btree_cursor = None, vc_def = def, is_open = True\<rparr>]\<rparr>, pg)"
    using s c assms(2,3)
    by (simp add: inst_of_def execute_def only_vm_def op_open_def get_cur_def set_cur_def closed_cursor_def resolve_table_def)
  with i show ?thesis
    unfolding vdbe_run_def by (subst loop_step [of ?vm]) (auto simp: inst_of_def)
qed

definition insert_into :: "TableDef \<Rightarrow> Value list \<Rightarrow> 64 word \<Rightarrow> Pager \<Rightarrow> Pager option" where
  "insert_into def vals expire_at pg = do {
     (c, pg) \<leftarrow> btree_find_out def (hd vals) pg;
     btree_insert_with_mvcc def c vals expire_at (if current_commit_lsn pg \<noteq> 0 then current_commit_lsn pg else wal_lsn pg + 1) 0 pg }"

lemma expiry_of_copy: "expiry_of (value_copy d v) = expiry_of v"
  by (simp add: expiry_of_def value_copy_def value_set_text_len_def Let_def)

lemma run_insert_inst:
  assumes "insts vm ! pc vm = inst_of (OP_Insert, 0, 1, 0, ttl)" "pc vm < length (insts vm)"
    and "insts vm ! Suc (pc vm) = inst_of (OP_Halt, 0, 0, 0, zero_value)" "Suc (pc vm) < length (insts vm)"
    and "cursors vm = \<lparr>btree_cursor = cu, vc_def = def, is_open = True\<rparr> # cs"
    and "regs vm = r0 # rs @ after" "length rs = num_cols def" "rs \<noteq> []"
  shows "map_option snd (vdbe_loop vm pg) = insert_into def (map insert_value rs) (expiry_of ttl) pg"
proof -
  have g: "get_regs (vm\<lparr>pc := pc vm + 1\<rparr>) 1 (num_cols def) = Some rs"
    using assms(6,8) by (simp add: get_regs_def assms(7) [symmetric])
  have h: "hd (map insert_value rs @ [zero_value]) = hd (map insert_value rs)" using assms(8) by (cases rs) auto
  have x: "execute (insts vm ! pc vm) (vm\<lparr>pc := pc vm + 1\<rparr>) pg =
      map_option (Pair (vm\<lparr>pc := pc vm + 1\<rparr>)) (insert_into def (map insert_value rs) (expiry_of ttl) pg)"
    using g h assms(1,5)
    by (auto simp: inst_of_def execute_def op_insert_def insert_into_def get_cur_def expiry_of_copy Let_def split: bind_splits prod.splits)
  have "vdbe_loop (vm\<lparr>pc := pc vm + 1\<rparr>) q = Some (vm\<lparr>pc := pc vm + 2\<rparr>, q)" for q
    using assms(3,4) by (subst vdbe_loop.simps) (simp add: Let_def inst_of_def)
  then show ?thesis
    using assms(1,2) x
    by (subst vdbe_loop.simps, cases "insert_into def (map insert_value rs) (expiry_of ttl) pg") (simp_all add: Let_def inst_of_def)
qed

lemma compiled_runs:
  assumes "vm = (opened_vm def cat pg0)\<lparr>insts := insts (opened_vm def cat pg0) @ map inst_of ts\<rparr>"
    and "catalog_find cat (tbl_name def) = Some def" "\<not> is_index_name (tbl_name def)" "c_str (tbl_name def) = tbl_name def"
    "length (tbl_name def) < 2 ^ 32"
    and "length ts = num_cols def" "\<forall>k < length ts. loads k (ts ! k)" "ts \<noteq> []" "num_cols def < MAX_REGISTERS"
  shows "map_option snd (vdbe_run (ready_vm vm ttl) pg) = insert_into def (map (\<lambda>t. insert_value (load_result t)) ts) (expiry_of ttl) pg"
proof -
  let ?n = "length ts"
  define w where "w = (ready_vm vm ttl)\<lparr>cursors := (replicate MAX_CURSORS closed_cursor)[0 := \<lparr>btree_cursor = None, vc_def = def, is_open = True\<rparr>],
      pc := 1\<rparr>"
  let ?pre = "insts (opened_vm def cat pg0)" and ?post = "[inst_of (OP_Insert, 0, 1, 0, ttl), inst_of (OP_Halt, 0, 0, 0, zero_value)]"
  have i: "insts w = ?pre @ map inst_of ts @ ?post" by (simp add: w_def ready_vm_def vdbe_add_inst_def assms(1) inst_of_def)
  have l: "length ?pre = 1" by (simp add: opened_vm)
  have "replicate MAX_REGISTERS zero_reg = [zero_reg] @ replicate ?n zero_reg @ replicate (15 - ?n) zero_reg"
    using assms(6,9) by (simp flip: replicate_Suc replicate_add)
  then have r: "regs w = [zero_reg] @ replicate ?n zero_reg @ replicate (15 - ?n) zero_reg"
    by (simp add: w_def ready_vm_def vdbe_add_inst_def assms(1) opened_vm)
  define u where "u = w\<lparr>regs := [zero_reg] @ map load_result ts @ replicate (15 - ?n) zero_reg, pc := length ?pre + ?n\<rparr>"
  have "vdbe_run (ready_vm vm ttl) pg = vdbe_loop w pg" unfolding w_def by (rule run_opened [OF assms(1-5)])
  also have "\<dots> = vdbe_loop u pg" unfolding u_def
    by (rule run_loads [where i = 0 and post = ?post]) (use assms(6,7,9) i l r in \<open>simp_all add: w_def\<close>)
  finally have run: "vdbe_run (ready_vm vm ttl) pg = vdbe_loop u pg" .
  have p: "insts u ! pc u = ?post ! 0" "insts u ! Suc (pc u) = ?post ! 1" "Suc (pc u) < length (insts u)"
    using i l by (simp_all add: u_def nth_append)
  show ?thesis unfolding run
    using run_insert_inst [of u ttl None def "replicate 3 closed_cursor" zero_reg "map load_result ts" "replicate (15 - ?n) zero_reg" pg]
      p assms(6,8) by (simp add: u_def w_def comp_def numeral_3_eq_3 numeral_eq_Suc)
qed

section \<open>What is inserted\<close>

text \<open>The table of the statement is the catalog's, under a name that is no index's.\<close>

definition resolves :: "Catalog \<Rightarrow> TableDef \<Rightarrow> bool" where
  "resolves cat def \<longleftrightarrow> catalog_find cat (tbl_name def) = Some def \<and> \<not> is_index_name (tbl_name def) \<and>
     c_str (tbl_name def) = tbl_name def \<and> length (tbl_name def) < 2 ^ 32 \<and> columns def \<noteq> []"

definition literals :: "InsertStmt \<Rightarrow> TableDef \<Rightarrow> (cstr option \<times> bool) list" where
  "literals stmt def = map (\<lambda>i. literal stmt (columns def ! i) i) [0..<num_cols def]"

lemma compiled_tuples:
  assumes "add_values stmt cat (columns def) 0 (opened_vm def cat pg0) pg1 = Some (Inr vm, pg2)"
  obtains ts where "vm = (opened_vm def cat pg0)\<lparr>insts := insts (opened_vm def cat pg0) @ map inst_of ts\<rparr>"
    "length ts = num_cols def" "\<forall>k < length ts. loads k (ts ! k)"
    "\<not> has_bound_values stmt \<Longrightarrow> map (\<lambda>t. insert_value (load_result t)) ts = map2 vm_value (columns def) (literals stmt def)"
proof -
  obtain ts where ts: "vm = (opened_vm def cat pg0)\<lparr>insts := insts (opened_vm def cat pg0) @ map inst_of ts\<rparr>"
    "length ts = num_cols def"
    "\<forall>k < num_cols def. value_inst stmt (columns def ! k) k (literal stmt (columns def ! k) k) = Some (ts ! k)"
    using add_values_insts [OF assms] by auto
  show ?thesis
  proof (rule that [OF ts(1,2)])
    show "\<forall>k < length ts. loads k (ts ! k)" unfolding ts(2) using ts(3) value_inst_loads by blast
    show "map (\<lambda>t. insert_value (load_result t)) ts = map2 vm_value (columns def) (literals stmt def)" if "\<not> has_bound_values stmt"
    proof -
      have "insert_value (load_result (ts ! k)) = vm_value (columns def ! k) (literal stmt (columns def ! k) k)" if "k < num_cols def" for k
        using value_inst_value [OF _ \<open>\<not> has_bound_values stmt\<close>] ts(3) that by blast
      then show ?thesis using ts(2) by (intro nth_equalityI) (simp_all add: literals_def)
    qed
  qed
qed


text \<open>
  A BOOL literal is lost.  The program loads a BOOL literal as an integer, and the insertion stores
  the \<open>bool_val\<close> of the register, which nothing has set: whatever the literal, the row that goes
  into the table has false in its BOOL columns.
\<close>

theorem bool_literal_lost:
  assumes "add_values stmt cat (columns def) 0 (opened_vm def cat pg0) pg1 = Some (Inr vm, pg2)"
    and "\<not> has_bound_values stmt" "resolves cat def" "num_cols def < MAX_REGISTERS"
    and "i < num_cols def" "col_type (columns def ! i) = COL_BOOL"
  shows "\<exists>vals. map_option snd (vdbe_run (ready_vm vm ttl) pg) = insert_into def vals (expiry_of ttl) pg \<and>
    \<not> bool_val (vals ! i) \<and> serialize_col (columns def ! i) (vals ! i) \<noteq> (9, [])"
proof -
  obtain ts where ts: "vm = (opened_vm def cat pg0)\<lparr>insts := insts (opened_vm def cat pg0) @ map inst_of ts\<rparr>"
    "length ts = num_cols def" "\<forall>k < length ts. loads k (ts ! k)"
    "\<not> has_bound_values stmt \<Longrightarrow> map (\<lambda>t. insert_value (load_result t)) ts = map2 vm_value (columns def) (literals stmt def)"
    by (rule compiled_tuples [OF assms(1)]) blast
  have "ts \<noteq> []" using ts(2) assms(5) by auto
  with compiled_runs [OF ts(1) _ _ _ _ ts(2,3) _ assms(4), of ttl pg] assms(3)
  have run: "map_option snd (vdbe_run (ready_vm vm ttl) pg) = insert_into def (map2 vm_value (columns def) (literals stmt def)) (expiry_of ttl) pg"
    unfolding ts(4) [OF assms(2)] by (simp add: resolves_def)
  have "\<not> bool_val (vm_value (columns def ! i) l)" for l
    by (auto simp: vm_value_def assms(6) value_init_def split: option.splits prod.splits bool.splits)
  then show ?thesis using run assms(5,6)
    by (intro exI [of _ "map2 vm_value (columns def) (literals stmt def)"]) (auto simp: literals_def serialize_col_def)
qed

section \<open>Sixteen columns\<close>

lemma execute_load_16:
  assumes "loads 15 t" "length (regs vm) = 16"
  shows "execute (inst_of t) vm pg = None"
  using assms by (cases t) (auto simp: loads_def inst_of_def execute_def only_vm_def op_integer_def op_load_def op_null_def get_reg_def)

text \<open>
  C36.  Sixteen columns.  A table may have sixteen columns, but the value of the last one is load_result into
  register 16 of the registers 0 to 15: the run of the program leaves the array (and writes over the
  machine's cursor).
\<close>

theorem sixteenth_column_overruns:
  assumes "add_values stmt cat (columns def) 0 (opened_vm def cat pg0) pg1 = Some (Inr vm, pg2)"
    and "resolves cat def" "num_cols def = MAX_COLUMNS"
  shows "vdbe_run (ready_vm vm ttl) pg = None"
proof -
  obtain ts where ts: "vm = (opened_vm def cat pg0)\<lparr>insts := insts (opened_vm def cat pg0) @ map inst_of ts\<rparr>"
    "length ts = num_cols def" "\<forall>k < length ts. loads k (ts ! k)"
    by (rule compiled_tuples [OF assms(1)]) blast
  define w where "w = (ready_vm vm ttl)\<lparr>cursors := (replicate MAX_CURSORS closed_cursor)[0 := \<lparr>btree_cursor = None, vc_def = def, is_open = True\<rparr>],
      pc := 1\<rparr>"
  let ?ts = "take 15 ts" and ?pre = "insts (opened_vm def cat pg0)"
  let ?post = "[inst_of (ts ! 15), inst_of (OP_Insert, 0, 1, 0, ttl), inst_of (OP_Halt, 0, 0, 0, zero_value)]"
  have n: "length ts = 16" using ts(2) assms(3) by simp
  then have split: "ts = ?ts @ [ts ! 15]" by (metis Cons_nth_drop_Suc append_take_drop_id drop_all lessI numeral_nat(2) order_refl semiring_norm(26) semiring_norm(27) semiring_norm(28))
  have i: "insts w = ?pre @ map inst_of ?ts @ ?post"
  proof -
    have "insts w = ?pre @ map inst_of ts @ drop 1 ?post" by (simp add: w_def ready_vm_def vdbe_add_inst_def ts(1) inst_of_def)
    then show ?thesis using arg_cong [OF split, of "map inst_of"] by simp
  qed
  have r: "regs w = [zero_reg] @ replicate (length ?ts) zero_reg @ []"
    by (simp add: w_def ready_vm_def vdbe_add_inst_def ts(1) opened_vm n flip: replicate_Suc)
  define u where "u = w\<lparr>regs := [zero_reg] @ map load_result ?ts @ [], pc := length ?pre + length ?ts\<rparr>"
  have "vdbe_run (ready_vm vm ttl) pg = vdbe_loop w pg"
    unfolding w_def by (rule run_opened [OF ts(1)]) (use assms(2) in \<open>simp_all add: resolves_def\<close>)
  also have "\<dots> = vdbe_loop u pg" unfolding u_def
    by (rule run_loads [where i = 0 and post = ?post]) (use ts(3) n i r in \<open>simp_all add: w_def opened_vm\<close>)
  also have "\<dots> = None"
  proof -
    have l: "loads 15 (ts ! 15)" using ts(3) n by simp
    then have "opcode (inst_of (ts ! 15)) \<noteq> OP_Halt" by (cases "ts ! 15") (auto simp: loads_def inst_of_def)
    moreover have "insts u ! pc u = inst_of (ts ! 15)" "pc u < length (insts u)" using i by (simp_all add: u_def nth_append)
    moreover have "execute (inst_of (ts ! 15)) (u\<lparr>pc := pc u + 1\<rparr>) pg = None"
      by (rule execute_load_16 [OF l]) (simp add: u_def n)
    ultimately show ?thesis by (subst vdbe_loop.simps) (simp add: Let_def)
  qed
  finally show ?thesis .
qed

section \<open>At concrete statements\<close>

text \<open>A table without constraints whose columns are not text accepts every statement.\<close>

definition free_column :: "Column \<Rightarrow> bool" where
  "free_column col \<longleftrightarrow> \<not> is_not_null col \<and> \<not> has_check col \<and> \<not> has_fk col \<and> \<not> is_text_type (col_type col)"

lemma add_values_free:
  assumes "\<forall>col \<in> set cols. free_column col" "\<not> has_bound_values stmt"
  shows "\<exists>vm'. add_values stmt cat cols i vm pg = Some (Inr vm', pg)"
  using assms(1)
proof (induction cols arbitrary: i vm)
  case (Cons col cols)
  then have c: "free_column col" by simp
  have "literal_inst col i raw \<noteq> None" for raw
    using c by (cases "col_type col") (simp_all add: literal_inst_def free_column_def Let_def)
  then have "value_inst stmt col i (literal stmt col i) \<noteq> None"
    using assms(2) by (cases "literal stmt col i"; cases "fst (literal stmt col i)"; cases "snd (literal stmt col i)")
      (simp_all add: value_inst_def)
  then obtain t where "value_inst stmt col i (literal stmt col i) = Some t" by blast
  then have "add_value stmt cat col i vm pg = Some (Inr (add_tuple vm t), pg)"
    using c by (simp add: add_value_def Let_def free_column_def)
  then show ?case using Cons by auto
qed simp

definition named_table :: "ColumnType list \<Rightarrow> TableDef" where
  "named_table tys = (plain_table tys)\<lparr>tbl_name := [116], root_page_num := 1\<rparr>"

definition one_table :: "TableDef \<Rightarrow> Catalog" where
  "one_table def = \<lparr>tables = [def], num_views = 0, views = [], num_triggers = 0, triggers = []\<rparr>"

definition literal_stmt :: "cstr list \<Rightarrow> InsertStmt" where
  "literal_stmt raws = \<lparr>raw_values = raws, raw_is_null = map (\<lambda>_. False) raws, num_values = length raws, has_bound_values = False,
     bound_values = [], conflict_action = CONFLICT_ABORT, expires_sec = 0\<rparr>"

lemma named_table_columns [simp]: "columns (named_table tys) = map plain_column tys"
  by (simp add: named_table_def)

lemma named_table_resolves: "tys \<noteq> [] \<Longrightarrow> resolves (one_table (named_table tys)) (named_table tys)"
  by (simp add: resolves_def one_table_def named_table_def catalog_find_def find_named_def is_index_name_def idx_prefix_def
      strncmp_def c_str_def)

lemma plain_free: "\<not> is_text_type ty \<Longrightarrow> free_column (plain_column ty)"
  by (simp add: free_column_def plain_column_def)

lemma literal_stmt_unbound [simp]: "\<not> has_bound_values (literal_stmt raws)"
  by (simp add: literal_stmt_def)


theorem bool_literal_lost_witness:
  "\<exists>vm vals. map_option snd (vdbe_run (ready_vm vm value_init) one_leaf) =
    insert_into (named_table [COL_INT, COL_BOOL]) vals (expiry_of value_init) one_leaf \<and> \<not> bool_val (vals ! 1)"
proof -
  let ?def = "named_table [COL_INT, COL_BOOL]" and ?stmt = "literal_stmt [[55], [116, 114, 117, 101]]"
  obtain vm where "add_values ?stmt (one_table ?def) (columns ?def) 0 (opened_vm ?def (one_table ?def) one_leaf) one_leaf = Some (Inr vm, one_leaf)"
    using add_values_free [of "columns ?def" ?stmt] plain_free by fastforce
  from bool_literal_lost [OF this literal_stmt_unbound named_table_resolves, of 1 value_init one_leaf] show ?thesis by auto
qed

theorem sixteenth_column_overruns_witness:
  "\<exists>vm. vdbe_run (ready_vm vm value_init) one_leaf = None"
proof -
  let ?def = "named_table (replicate 16 COL_INT)" and ?stmt = "literal_stmt (replicate 16 [55])"
  obtain vm where "add_values ?stmt (one_table ?def) (columns ?def) 0 (opened_vm ?def (one_table ?def) one_leaf) one_leaf = Some (Inr vm, one_leaf)"
    using add_values_free [of "columns ?def" ?stmt] plain_free by fastforce
  from sixteenth_column_overruns [OF this named_table_resolves, of value_init one_leaf] show ?thesis by auto
qed

end
