(* ===== verification/Modify.thy ===== *)
theory Modify
  imports Insert
begin

text \<open>
  DELETE and UPDATE (\<open>src/executor.c\<close>, \<open>run_delete_vm\<close>, \<open>run_update_vm\<close>) and what an INSERT that meets its
  key does (\<open>ON CONFLICT\<close>).  Both collect the integers of column 0 of the rows that satisfy the clause, then
  look each of them up again, take the cell out and write the row back with \<open>xmax\<close> set; UPDATE adds the new
  version.  Foreign keys that cascade run the statement on the referring tables: that recursion may not end
  (two tables that refer to each other), so the statements are partial functions.

  Left out are triggers and history (\<open>fires\<close>: no result), the printed RETURNING row, and the vacuum that
  follows a DELETE in a database with \<open>auto_vacuum\<close> (no result).  \<open>eval_expr_string\<close> is the parameter \<open>expr\<close>.
\<close>

section \<open>A loop with a return\<close>

fun fold_until :: "('a \<Rightarrow> 's \<Rightarrow> ('e option \<times> 's) option) \<Rightarrow> 'a list \<Rightarrow> 's \<Rightarrow> ('e option \<times> 's) option" where
  "fold_until f [] s = Some (None, s)"
| "fold_until f (x # xs) s = do {
     (e, s) \<leftarrow> f x s;
     case e of None \<Rightarrow> fold_until f xs s | Some e \<Rightarrow> Some (Some e, s) }"

lemma case_option_mono [partial_function_mono]:
  assumes "mono_option (\<lambda>g. F g)" "\<And>x. mono_option (\<lambda>g. G g x)"
  shows "mono_option (\<lambda>g. case a of None \<Rightarrow> F g | Some x \<Rightarrow> G g x)"
  using assms by (cases a) simp_all

lemma fold_until_mono [partial_function_mono]:
  assumes "\<And>x s. mono_option (\<lambda>g. F g x s)"
  shows "mono_option (\<lambda>g. fold_until (F g) xs s)"
proof (induction xs arbitrary: s)
  case (Cons x xs)
  then show ?case unfolding fold_until.simps case_prod_beta by (intro partial_function_mono assms)
qed (simp add: partial_function_mono)

section \<open>The rows of the statement\<close>

definition match_body ::
    "TableDef \<Rightarrow> Catalog \<Rightarrow> WhereClause \<Rightarrow> 64 word \<Rightarrow> 64 word \<Rightarrow> Cursor \<Rightarrow> 32 word list \<Rightarrow> Pager
     \<Rightarrow> (bool \<times> 32 word list \<times> Pager) option" where
  "match_body def cat wc txn now c ids pg = do {
     (b, pg) \<leftarrow> cursor_value c pg;
     case row_is_visible_and_active def b txn now of
       None \<Rightarrow> Some (True, ids, pg)
     | Some row_vals \<Rightarrow> do {
         (ok, pg) \<leftarrow> eval_where_clause def row_vals wc cat pg;
         Some (True, if ok then ids @ [int_val (row_vals ! 0)] else ids, pg) } }"

definition matching_ids :: "TableDef \<Rightarrow> Catalog \<Rightarrow> WhereClause \<Rightarrow> 64 word \<Rightarrow> 64 word \<Rightarrow> Cursor \<Rightarrow> Pager \<Rightarrow> (32 word list \<times> Pager) option" where
  "matching_ids def cat wc txn now c pg = do {
     (c, ids, pg) \<leftarrow> scan_loop (match_body def cat wc txn now) c [] pg;
     Some (ids, pg) }"

text \<open>The struct is zero but for \<open>int_val\<close>.\<close>

definition id_value :: "32 word \<Rightarrow> Value" where
  "id_value target = zero_value\<lparr>int_val := target\<rparr>"

type_synonym version = "Value list \<times> 64 word \<times> 64 word"

definition version_body ::
    "TableDef \<Rightarrow> 32 word \<Rightarrow> 64 word \<Rightarrow> 64 word \<Rightarrow> Cursor \<Rightarrow> version option \<Rightarrow> Pager \<Rightarrow> (bool \<times> version option \<times> Pager) option" where
  "version_body def target txn now c found pg = do {
     (k, pg) \<leftarrow> btree_key_value def c pg;
     if int_val k \<noteq> target then Some (False, found, pg)
     else do {
       (b, pg) \<leftarrow> cursor_value c pg;
       case row_is_visible_and_active def b txn now of
         None \<Rightarrow> Some (True, found, pg)
       | Some vals \<Rightarrow> do {
           (b, pg) \<leftarrow> cursor_value c pg;
           case deserialize_row_with_mvcc def b of (_, (expire_at, xmin, xmax), _) \<Rightarrow>
             Some (False, Some (vals, expire_at, xmin), pg) } } }"

definition find_version ::
    "TableDef \<Rightarrow> 32 word \<Rightarrow> 64 word \<Rightarrow> 64 word \<Rightarrow> Pager \<Rightarrow> ((Cursor \<times> version) option \<times> Pager) option" where
  "find_version def target txn now pg = do {
     (c, pg) \<leftarrow> btree_find def (id_value target) pg;
     c \<leftarrow> c;
     (c, found, pg) \<leftarrow> scan_loop (version_body def target txn now) c None pg;
     Some (map_option (Pair c) found, pg) }"

text \<open>The row under the cursor is taken out and written again with its deletion stamped.\<close>

definition restamp :: "TableDef \<Rightarrow> Cursor \<Rightarrow> 32 word \<Rightarrow> version \<Rightarrow> 64 word \<Rightarrow> Pager \<Rightarrow> Pager option" where
  "restamp def c target ver txn pg =
     (case ver of (vals, expire_at, xmin) \<Rightarrow> do {
        (c, pg) \<leftarrow> btree_delete def c pg;
        (ins, pg) \<leftarrow> btree_find def (id_value target) pg;
        ins \<leftarrow> ins;
        btree_insert_with_mvcc def ins vals expire_at xmin txn pg })"

section \<open>Foreign keys\<close>

definition parent_col :: "TableDef \<Rightarrow> Column \<Rightarrow> nat" where
  "parent_col def col =
     (if fk_target_col col = [] then 0
      else case find_column strcmp (fk_target_col col) (columns def) of None \<Rightarrow> 0 | Some i \<Rightarrow> i)"

definition same_key :: "ColumnType \<Rightarrow> Value \<Rightarrow> Value \<Rightarrow> bool" where
  "same_key ty a b =
     (case ty of
        COL_INT \<Rightarrow> int_val a = int_val b
      | COL_FLOAT \<Rightarrow> f32_eq (float_val a) (float_val b)
      | COL_DOUBLE \<Rightarrow> f64_eq (double_val a) (double_val b)
      | COL_BOOL \<Rightarrow> bool_val a = bool_val b
      | _ \<Rightarrow> strcmp (val_text a) (val_text b) = 0)"

text \<open>The columns of all tables that refer to this one.\<close>

definition references :: "(Column \<Rightarrow> bool) \<Rightarrow> Catalog \<Rightarrow> TableDef \<Rightarrow> (TableDef \<times> nat) list" where
  "references P cat def = concat (map (\<lambda>child. map (Pair child)
     (filter (\<lambda>c. let col = columns child ! c in has_fk col \<and> P col \<and> strcmp (fk_target_table col) (tbl_name def) = 0)
       [0..<num_cols child])) (tables cat))"

definition parent_body where
  "parent_body def cat wc txn now hit c found pg = do {
     (b, pg) \<leftarrow> cursor_value c pg;
     case row_is_visible_and_active def b txn now of
       None \<Rightarrow> Some (True, found, pg)
     | Some p_row \<Rightarrow> do {
         (ok, pg) \<leftarrow> eval_where_clause def p_row wc cat pg;
         Some (\<not> (ok \<and> hit p_row), ok \<and> hit p_row, pg) } }"

definition child_body where
  "child_body def cat wc txn now child cc c found pg = do {
     (b, pg) \<leftarrow> cursor_value c pg;
     case row_is_visible_and_active child b txn now of
       None \<Rightarrow> Some (True, found, pg)
     | Some c_row \<Rightarrow> do {
         let t = (case find_column strcmp (fk_target_col (columns child ! cc)) (columns def) of None \<Rightarrow> 0 | Some i \<Rightarrow> i);
         (p, pg) \<leftarrow> btree_start def pg;
         (p, found, pg) \<leftarrow> scan_loop
           (parent_body def cat wc txn now (\<lambda>p_row. same_key (col_type (columns def ! t)) (c_row ! cc) (p_row ! t))) p False pg;
         Some (\<not> found, found, pg) } }"

text \<open>Is a row that is to be deleted referred to by a column that does not cascade?\<close>

fun referenced :: "TableDef \<Rightarrow> Catalog \<Rightarrow> WhereClause \<Rightarrow> 64 word \<Rightarrow> 64 word \<Rightarrow> (TableDef \<times> nat) list \<Rightarrow> Pager \<Rightarrow> (bool \<times> Pager) option" where
  "referenced def cat wc txn now [] pg = Some (False, pg)"
| "referenced def cat wc txn now ((child, cc) # refs) pg = do {
     (c, pg) \<leftarrow> btree_start child pg;
     (c, found, pg) \<leftarrow> scan_loop (child_body def cat wc txn now child cc) c False pg;
     if found then Some (True, pg) else referenced def cat wc txn now refs pg }"

definition cascades :: "(Column \<Rightarrow> bool) \<Rightarrow> Catalog \<Rightarrow> TableDef \<Rightarrow> (TableDef \<times> nat) list" where
  "cascades P cat def = filter (\<lambda>(child, c). strcmp (tbl_name child) (tbl_name def) \<noteq> 0) (references P cat def)"

text \<open>How a key is written into the statement for the referring table.\<close>

definition fk_key_text :: "ColumnType \<Rightarrow> Value \<Rightarrow> cstr option" where
  "fk_key_text ty v =
     (if ty = COL_INT then Some (fmt_int (sint (int_val v)))
      else if ty = COL_DOUBLE \<or> ty = COL_FLOAT then Some (fmt_g8 (double_val v))
      else map_option (take 4095) (str_of v))"

section \<open>DELETE\<close>

type_synonym run = "(ExecuteResult \<times> Pager) option"

text \<open>\<open>del\<close> is the statement on a referring table, its result is ignored.\<close>

definition cascade_delete :: "(TableDef \<Rightarrow> WhereClause \<Rightarrow> Pager \<Rightarrow> run) \<Rightarrow> Catalog \<Rightarrow> TableDef \<Rightarrow> Value list \<Rightarrow> Pager \<Rightarrow> Pager option" where
  "cascade_delete del cat def vals =
     fold_opt (\<lambda>(child, c) pg. do {
       let t = parent_col def (columns child ! c);
       key \<leftarrow> fk_key_text (col_type (columns def ! t)) (vals ! t);
       (res, pg) \<leftarrow> del child (one_cond (col_name (columns child ! c)) OP_EQ key) pg;
       Some pg }) (cascades fk_on_delete_cascade cat def)"

definition delete_id where
  "delete_id del cat def txn now target pg = do {
     (found, pg) \<leftarrow> find_version def target txn now pg;
     case found of
       None \<Rightarrow> Some pg
     | Some (c, ver) \<Rightarrow> do {
         pg \<leftarrow> cascade_delete del cat def (fst ver) pg;
         restamp def c target ver txn pg } }"

lemma cascade_delete_mono [partial_function_mono]:
  assumes "\<And>d w p. mono_option (\<lambda>g. D g d w p)"
  shows "mono_option (\<lambda>g. cascade_delete (D g) cat def vals pg)"
  unfolding cascade_delete_def Let_def case_prod_beta by (intro partial_function_mono assms)

lemma delete_id_mono [partial_function_mono]:
  assumes "\<And>d w p. mono_option (\<lambda>g. D g d w p)"
  shows "mono_option (\<lambda>g. delete_id (D g) cat def txn now target pg)"
  unfolding delete_id_def case_prod_beta
  by (intro partial_function_mono assms)

definition txn_stamp :: "Pager \<Rightarrow> 64 word" where
  "txn_stamp pg = (if current_commit_lsn pg \<noteq> 0 then current_commit_lsn pg else wal_lsn pg + 1)"

text \<open>The return for a foreign key leaves the transaction open, as the code does.\<close>

partial_function (option) run_delete_vm :: "Catalog \<Rightarrow> TableDef \<Rightarrow> WhereClause \<Rightarrow> Pager \<Rightarrow> run" where
  "run_delete_vm cat def wc pg =
     (if fires cat def TRIGGER_DELETE \<or> auto_vacuum pg then None
      else do {
        (r, pg) \<leftarrow> start_write pg;
        case r of
          Inl e \<Rightarrow> Some (e, pg)
        | Inr auto_tx \<Rightarrow> do {
            let txn = txn_stamp pg;
            let now = time_now pg;
            (c, pg) \<leftarrow> btree_start def pg;
            (found, pg) \<leftarrow> referenced def cat wc txn now (references (\<lambda>col. \<not> fk_on_delete_cascade col) cat def) pg;
            if found then Some (EXECUTE_CONSTRAINT_FOREIGN_KEY, pg)
            else do {
              (ids, pg) \<leftarrow> matching_ids def cat wc txn now c pg;
              pg \<leftarrow> fold_opt (delete_id (run_delete_vm cat) cat def txn now) ids pg;
              pg \<leftarrow> commit_auto auto_tx cat pg;
              Some (EXECUTE_SUCCESS, pg) } } })"

section \<open>UPDATE\<close>

text \<open>\<open>set_val\<close> is the heap string where there is one, else the array.\<close>

record SetPair =
  set_col :: cstr
  set_null :: bool
  set_val :: cstr

definition set_value :: "ColumnType \<Rightarrow> cstr \<Rightarrow> Value \<Rightarrow> Value" where
  "set_value ty raw v =
     (let v = v\<lparr>is_null := False\<rparr>
      in case ty of
        COL_INT \<Rightarrow> v\<lparr>int_val := atoi raw\<rparr>
      | COL_FLOAT \<Rightarrow> v\<lparr>float_val := f32_of_f64 (atof raw)\<rparr>
      | COL_DOUBLE \<Rightarrow> v\<lparr>double_val := atof raw\<rparr>
      | COL_NUMERIC \<Rightarrow> v\<lparr>double_val := atof raw\<rparr>
      | COL_DECIMAL \<Rightarrow> v\<lparr>double_val := atof raw\<rparr>
      | COL_BOOL \<Rightarrow> v\<lparr>bool_val := parse_bool raw\<rparr>
      | _ \<Rightarrow> value_set_text v (Some raw))"

definition set_pair :: "expr_fun \<Rightarrow> TableDef \<Rightarrow> Value list \<Rightarrow> SetPair \<Rightarrow> Value list \<Rightarrow> Value list option" where
  "set_pair expr def olds pair vals =
     (case find_column strcmp (set_col pair) (columns def) of
        None \<Rightarrow> None
      | Some i \<Rightarrow> Some
          (if set_null pair then vals[i := (vals ! i)\<lparr>is_null := True\<rparr>]
           else (let res = expr (set_val pair) def olds; raw = (if res \<noteq> [] then res else set_val pair)
                 in vals[i := set_value (col_type (columns def ! i)) raw (vals ! i)])))"

text \<open>The row after the assignments; \<open>None\<close> when one names no column.\<close>

definition new_row :: "expr_fun \<Rightarrow> TableDef \<Rightarrow> SetPair list \<Rightarrow> Value list \<Rightarrow> Value list option" where
  "new_row expr def pairs olds = fold_opt (set_pair expr def olds) pairs (map (value_copy value_init) olds)"

definition col_changed :: "TableDef \<Rightarrow> Value list \<Rightarrow> Value list \<Rightarrow> nat \<Rightarrow> bool" where
  "col_changed def olds vals c \<longleftrightarrow> is_null (olds ! c) \<noteq> is_null (vals ! c) \<or>
     compare_values (col_type (columns def ! c)) (olds ! c) (vals ! c) \<noteq> 0"

definition cascade_update ::
    "(TableDef \<Rightarrow> SetPair list \<Rightarrow> WhereClause \<Rightarrow> Pager \<Rightarrow> run) \<Rightarrow> Catalog \<Rightarrow> TableDef \<Rightarrow> 32 word \<Rightarrow> Value list \<Rightarrow> Pager \<Rightarrow> Pager option" where
  "cascade_update upd cat def target vals =
     fold_opt (\<lambda>(child, c) pg. do {
       let t = parent_col def (columns child ! c);
       let ty = col_type (columns def ! t);
       let col = col_name (columns child ! c);
       key \<leftarrow> fk_key_text ty (vals ! t);
       old_key \<leftarrow> fk_key_text ty (id_value target);
       (res, pg) \<leftarrow> upd child [\<lparr>set_col = col, set_null = False, set_val = key\<rparr>] (one_cond col OP_EQ old_key) pg;
       Some pg }) (cascades fk_on_update_cascade cat def)"

definition update_id where
  "update_id upd expr cat def pairs txn now target pg = do {
     (found, pg) \<leftarrow> find_version def target txn now pg;
     case found of
       None \<Rightarrow> Some (None, pg)
     | Some (c, olds, expire_at, xmin) \<Rightarrow>
         (case new_row expr def pairs olds of
            None \<Rightarrow> Some (Some EXECUTE_BAD_SCHEMA, pg)
          | Some vals \<Rightarrow> do {
              pg \<leftarrow> restamp def c target (olds, expire_at, xmin) txn pg;
              (ins, pg) \<leftarrow> btree_find def (vals ! 0) pg;
              ins \<leftarrow> ins;
              pg \<leftarrow> btree_insert_with_mvcc def ins vals expire_at txn 0 pg;
              pg \<leftarrow> insert_indexes def cat vals (filter (col_changed def olds vals) [1..<num_cols def]) pg;
              pg \<leftarrow> cascade_update upd cat def target vals pg;
              Some (None, pg) }) }"

lemma cascade_update_mono [partial_function_mono]:
  assumes "\<And>d s w p. mono_option (\<lambda>g. D g d s w p)"
  shows "mono_option (\<lambda>g. cascade_update (D g) cat def target vals pg)"
  unfolding cascade_update_def Let_def case_prod_beta by (intro partial_function_mono assms)

lemma update_id_mono [partial_function_mono]:
  assumes "\<And>d s w p. mono_option (\<lambda>g. D g d s w p)"
  shows "mono_option (\<lambda>g. update_id (D g) expr cat def pairs txn now target pg)"
  unfolding update_id_def case_prod_beta
  by (intro partial_function_mono assms)

text \<open>The return for a column that does not exist leaves the transaction open too.\<close>

partial_function (option) run_update_vm ::
    "expr_fun \<Rightarrow> Catalog \<Rightarrow> TableDef \<Rightarrow> SetPair list \<Rightarrow> WhereClause \<Rightarrow> Pager \<Rightarrow> run" where
  "run_update_vm expr cat def pairs wc pg =
     (if fires cat def TRIGGER_UPDATE then None
      else do {
        (r, pg) \<leftarrow> start_write pg;
        case r of
          Inl e \<Rightarrow> Some (e, pg)
        | Inr auto_tx \<Rightarrow> do {
            let txn = txn_stamp pg;
            let now = time_now pg;
            (c, pg) \<leftarrow> btree_start def pg;
            (ids, pg) \<leftarrow> matching_ids def cat wc txn now c pg;
            (err, pg) \<leftarrow> fold_until (update_id (run_update_vm expr cat) expr cat def pairs txn now) ids pg;
            case err of
              Some e \<Rightarrow> Some (e, pg)
            | None \<Rightarrow> do {
                pg \<leftarrow> commit_auto auto_tx cat pg;
                Some (EXECUTE_SUCCESS, pg) } } })"

section \<open>ON CONFLICT\<close>

text \<open>\<open>REPLACE\<close> deletes the row of the key and inserts again; \<open>UPDATE\<close> updates it with the pairs of the statement.\<close>

definition conflict_text :: "TableDef \<Rightarrow> Value \<Rightarrow> cstr" where
  "conflict_text def key =
     (if col_type (columns def ! 0) = COL_INT then fmt_int (sint (int_val key)) else take 4095 (val_text key))"

definition resolve_conflict where
  "resolve_conflict expr pairs stmt def cat act auto_tx key pg =
     (let wc = one_cond (col_name (columns def ! 0)) OP_EQ (conflict_text def key)
      in if act = CONFLICT_REPLACE
         then do {
           (res, pg) \<leftarrow> run_delete_vm cat def wc pg;
           (res, pg) \<leftarrow> run_insert_vm (\<lambda>_ _ _ _. None) (stmt\<lparr>conflict_action := CONFLICT_ABORT\<rparr>) def cat pg;
           map_option (Pair res) (commit_auto auto_tx cat pg) }
         else do {
           (res, pg) \<leftarrow> run_update_vm expr cat def pairs wc pg;
           map_option (Pair res) (commit_auto auto_tx cat pg) })"

definition insert_statement :: "expr_fun \<Rightarrow> SetPair list \<Rightarrow> InsertStmt \<Rightarrow> TableDef \<Rightarrow> Catalog \<Rightarrow> Pager \<Rightarrow> run" where
  "insert_statement expr pairs stmt def cat pg =
     run_insert_vm (resolve_conflict expr pairs stmt def cat) stmt def cat pg"

end
