(* ===== verification/Btree_Versions.thy ===== *)
theory Btree_Versions
  imports Btree_Shrink Select_Rows
begin

text \<open>
  A table of one leaf as a list of row versions: the values of a row, its expiry and its two stamps, in the
  order of their keys.  Every UPDATE and DELETE goes through the same two steps, a search for the version of a key
  and the rewriting of that version with another deletion stamp; both are stated here on the list.
\<close>

section \<open>What is read is stored as it was\<close>

text \<open>The normal form that a value has after a round trip has the same record, so writing a row again that
  was read changes no byte.\<close>

lemma zero_float_roundtrip:
  assumes "f64_is_zero x"
  shows "f64_of_f32 (f32_of_f64 x) = x"
proof -
  have m: "f64_mag x = 0" using assms by (simp add: f64_is_zero_def)
  then have "2 ^ 63 dvd unat x" by (auto simp: f64_mag_def)
  moreover have "unat x < 2 ^ 64" using unsigned_less [of x, where 'a = nat] by simp
  ultimately have u: "unat x = (if f64_neg x then 2 ^ 63 else 0)" by (auto simp: f64_neg_def dvd_def)
  have f: "f32_of_f64 x = f32_make (f64_neg x) 0"
    using m by (simp add: f32_of_f64_def f64_unpack_def fp_round_def)
  have n: "f32_neg (f32_make s 0) = s" "f32_mag (f32_make s 0) = 0" for s
    by (simp_all add: f32_neg_def f32_mag_def f32_make_def)
  have "f64_of_f32 (f32_of_f64 x) = f64_make (f64_neg x) 0"
    unfolding f by (simp add: f64_of_f32_def n f32_unpack_def fp_round_def)
  also have "\<dots> = of_nat (unat x)" by (simp add: f64_make_def u)
  finally show ?thesis by simp
qed

lemma serialize_col_canon:
  assumes "value_wf v"
  shows "serialize_col col (canon col v) = serialize_col col v"
proof (cases "is_null v \<or> \<not> is_text_type (col_type col)")
  case True
  then show ?thesis using zero_float_roundtrip [of "double_key v"]
    by (cases "col_type col") (auto simp: serialize_col_def canon_def Let_def double_key_def value_init_def)
next
  case False
  have t: "take (unat (text_len v)) (text_bytes (text_val v)) = text_bytes (text_val v)"
    using assms by (auto simp: value_wf_def split: text_ptr.splits)
  have l: "serial_text_len (value_set_text_len value_init (Some (text_bytes (text_val v))) (text_len v)) = serial_text_len v"
    using t by (simp add: serial_text_len_def value_set_text_len_def Let_def)
  show ?thesis using False t l
    by (cases "col_type col") (auto simp: serialize_col_def canon_def Let_def value_set_text_len_def)
qed
lemma serialize_cols_canon:
  assumes "length cs = length vs" "\<forall>v \<in> set vs. value_wf v"
  shows "serialize_cols cs (map2 canon cs vs) hb = serialize_cols cs vs hb"
  using assms
proof (induction cs vs arbitrary: hb rule: list_induct2)
  case (Cons c cs v vs)
  then show ?case by (cases hb) (simp add: serialize_col_canon split: prod.split)
qed simp

lemma serialize_row_canon:
  assumes "num_cols def = length vs" "\<forall>v \<in> set vs. value_wf v"
  shows "serialize_row_with_mvcc def (map2 canon (columns def) vs) e xmin xmax = serialize_row_with_mvcc def vs e xmin xmax"
  using serialize_cols_canon [of "columns def" vs "([], [])"] assms by (simp add: serialize_row_with_mvcc_def)

lemma canon_wf: "value_wf v \<Longrightarrow> value_wf (canon col v)"
  by (cases "text_val v"; cases "col_type col") (auto simp: value_wf_def canon_def value_set_text_len_def Let_def value_init_def)

lemma canon_canon: "value_wf v \<Longrightarrow> canon col (canon col v) = canon col v"
  using zero_float_roundtrip [of "double_key v"]
  by (cases "text_val v"; cases "col_type col") (auto simp: canon_def value_wf_def value_set_text_len_def Let_def value_init_def double_key_def)
section \<open>The table\<close>

text \<open>The values are those that reading the record gives back.\<close>

definition version_cell :: "TableDef \<Rightarrow> byte list \<Rightarrow> stored \<Rightarrow> bool" where
  "version_cell def cell r \<longleftrightarrow> (case r of (vs, (e, xmin, xmax), n) \<Rightarrow>
     row_ok def vs \<and> map2 canon (columns def) vs = vs \<and> n = length cell \<and> length cell < BTREE_MAX_LOCAL_PAYLOAD \<and>
     serialize_row_with_mvcc def vs e xmin xmax = Some cell)"

definition version_leaf :: "TableDef \<Rightarrow> Pager \<Rightarrow> stored list \<Rightarrow> bool" where
  "version_leaf def pg rs \<longleftrightarrow> single_leaf def pg (map fst rs) \<and> is_node_root (view pg (root_page_num def)) \<and>
     list_all2 (version_cell def) (cells (view pg (root_page_num def))) rs"

lemma version_leafD:
  assumes "version_leaf def pg rs"
  shows "writing pg" "single_leaf def pg (map fst rs)" "is_node_root (view pg (root_page_num def))"
    "list_all2 (version_cell def) (cells (view pg (root_page_num def))) rs" "leaf_ok (view pg (root_page_num def))"
    "root_page_num def < MAX_PAGES" "length rs = leaf_node_num_cells (view pg (root_page_num def))"
proof -
  show s: "single_leaf def pg (map fst rs)" "is_node_root (view pg (root_page_num def))"
    "list_all2 (version_cell def) (cells (view pg (root_page_num def))) rs"
    using assms by (simp_all add: version_leaf_def)
  then show "writing pg" "leaf_ok (view pg (root_page_num def))" "root_page_num def < MAX_PAGES"
    by (simp_all add: single_leaf_def Let_def)
  show "length rs = leaf_node_num_cells (view pg (root_page_num def))" using list_all2_lengthD [OF s(3)] by simp
qed

lemma version_leaf_unseen: "version_leaf def pg rs \<Longrightarrow> unseen pg q \<Longrightarrow> version_leaf def q rs"
  using single_leaf_unseen by (auto simp: version_leaf_def unseen_def)

lemma version_row_ok: "version_leaf def pg rs \<Longrightarrow> r \<in> set rs \<Longrightarrow> row_ok def (fst r)"
  using version_leafD(4) [of def pg rs] by (auto simp: list_all2_conv_all_nth in_set_conv_nth version_cell_def)

text \<open>It is a tree in the sense of the scans.\<close>

lemma version_leaf_table_ok:
  assumes "version_leaf def pg rs"
  shows "table_ok def (view pg) 0"
proof -
  note s = version_leafD(2) [OF assms]
  show ?thesis using s table_keys(2) [OF s] by (simp add: table_ok_def single_leaf_def Let_def)
qed

lemma version_cell_stores:
  assumes "version_cell def cell r"
  shows "cell_stores def V reserved cell r"
proof -
  obtain vs e xmin xmax n where r: "r = (vs, (e, xmin, xmax), n)" by (metis prod.exhaust)
  have "\<forall>p. get_bytes p 0 (length cell) = cell \<longrightarrow>
      deserialize_row_with_mvcc def p = (map2 canon (columns def) vs, (e, xmin, xmax), length cell)"
    using deserialize_serialized [of def vs e xmin xmax] assms by (auto simp: version_cell_def r row_ok_def)
  then show ?thesis using assms by (auto simp: cell_stores_def cell_holds_def version_cell_def r)
qed

lemma version_leaf_stores:
  assumes "version_leaf def pg rs"
  shows "stores def (view pg) reserved 0 rs"
proof -
  have "list_all2 (cell_stores def (view pg) reserved) (cells (view pg (root_page_num def))) rs"
    using version_leafD(4) [OF assms] version_cell_stores by (rule list_all2_mono)
  then show ?thesis using version_leaf_table_ok [OF assms] by (simp add: stores_def all_cells_def)
qed

lemma version_leaf_keyed:
  assumes "version_leaf def pg rs"
  shows "keyed def (view pg) 0 rs"
proof -
  have "hd (fst r) = fst r ! 0 \<and> \<not> is_null (fst r ! 0)" if "r \<in> set rs" for r
    using version_row_ok [OF assms that] by (cases "fst r") (auto simp: row_ok_def key_consistent_def)
  then show ?thesis
    using table_keys(1) [OF version_leafD(2) [OF assms]] by (simp add: keyed_def leaf_keys_def)
qed

section \<open>Searching the version of a key\<close>

definition on_cell :: "TableDef \<Rightarrow> Cursor \<Rightarrow> nat \<Rightarrow> bool" where
  "on_cell def c k \<longleftrightarrow> c_page c = root_page_num def \<and> c_cell c = k \<and> \<not> end_of_table c"

lemma on_row_cell:
  assumes "on_row def (view pg) reserved 0 rs c k" "k < length rs" "version_leaf def pg rs"
  shows "on_cell def c k"
  using assms version_leafD(7) [OF assms(3)]
  by (auto simp: on_row_def at_position_def num_entries_def on_cell_def Cons_eq_append_conv split: if_splits)

section \<open>Writing a version again\<close>

definition stamp_deleted :: "64 word \<Rightarrow> stored \<Rightarrow> stored" where
  "stamp_deleted txn r = (case r of (vs, (e, xmin, xmax), n) \<Rightarrow> (vs, (e, xmin, txn), n))"

lemma serialize_restamped:
  assumes "serialize_row_with_mvcc def vs e xmin xmax = Some rec" "0 < xmin"
  shows "\<exists>rec'. serialize_row_with_mvcc def vs e xmin txn = Some rec' \<and> length rec' = length rec"
proof -
  obtain hdr body where hb: "serialize_cols (columns def) vs ([], []) = (hdr, body)" by (rule prod.exhaust)
  show ?thesis using assms
    by (cases "e > 0") (auto simp: serialize_row_with_mvcc_def serialize_stamps_def hb Let_def word_gt_0 split: bind_splits)
qed

text \<open>The version that a record gives.\<close>

lemma version_cellI:
  assumes "row_ok def vs" "key_type def = COL_INT" "serialize_row_with_mvcc def vs e xmin xmax = Some rec"
    "length rec < BTREE_MAX_LOCAL_PAYLOAD"
  shows "version_cell def rec (map2 canon (columns def) vs, (e, xmin, xmax), length rec)" "row_ok def (map2 canon (columns def) vs)"
    "row_key def (map2 canon (columns def) vs) = row_key def vs"
proof -
  have n: "num_cols def = length vs" "\<forall>v \<in> set vs. value_wf v" "vs \<noteq> []" using assms(1) by (simp_all add: row_ok_def)
  obtain col cols where c: "columns def = col # cols" using n(1,3) by (cases "columns def") auto
  obtain v vs' where v: "vs = v # vs'" using n(3) by (cases vs) auto
  have ty: "col_type col = COL_INT" using assms(2) c by simp
  have "\<forall>v \<in> set (map2 canon (columns def) vs). value_wf v" using n(2) canon_wf by (auto dest: set_zip_rightD)
  moreover have "key_consistent COL_INT (canon col v)"
    using assms(1) by (simp add: row_ok_def assms(2) v key_consistent_def canon_def ty value_init_def value_ordered_def)
  ultimately show r: "row_ok def (map2 canon (columns def) vs)"
    using assms(1) n(1) by (simp add: row_ok_def c v ty)
  have "map2 canon cs (map2 canon cs ws) = map2 canon cs ws" if "length cs = length ws" "\<forall>w \<in> set ws. value_wf w" for cs ws
    using that by (induction cs ws rule: list_induct2) (simp_all add: canon_canon)
  then show "version_cell def rec (map2 canon (columns def) vs, (e, xmin, xmax), length rec)"
    using r assms(3,4) n serialize_row_canon [of def vs e xmin xmax] by (simp add: version_cell_def)
  show "row_key def (map2 canon (columns def) vs) = row_key def vs"
    using key_of_canon [OF assms(1)] by (simp add: c v)
qed

end
