(* ===== verification/Modify_Rows.thy ===== *)
theory Modify_Rows
  imports Modify Btree_Versions
begin

text \<open>
  DELETE and UPDATE on a table of one leaf with an integer key: what the statements do to the list of row
  versions.
\<close>

section \<open>Rewriting a version\<close>

lemma mset_drop_nth: "k < length xs \<Longrightarrow> mset (drop_nth k xs) = mset xs - {#xs ! k#}"
proof -
  assume "k < length xs"
  then have "mset xs = mset (take k xs @ xs ! k # drop (Suc k) xs)" by (simp only: id_take_nth_drop [symmetric])
  then show "mset (drop_nth k xs) = mset xs - {#xs ! k#}" by (simp add: drop_nth_def)
qed

lemma mset_insert_nth: "mset (take i xs @ x # drop i xs) = add_mset x (mset xs)"
  by (metis append_take_drop_id mset.simps(2) mset_append union_mset_add_mset_right)

text \<open>The cursor for a key in a table of one leaf, by \<open>btree_find\<close>.\<close>

lemma find_in_leaf:
  assumes "single_leaf def pg vss" "row_ok def vs" "serialize_col0_key def v = row_key def vs"
  obtains c q where "btree_find def v pg = Some (Some c, q)" "unseen pg q" "c_page c = root_page_num def"
    "c_cell c = leaf_node_find (view pg (root_page_num def)) (row_key def vs) def"
proof -
  let ?n = "root_page_num def" and ?k = "row_key def vs"
  let ?b = "view pg ?n"
  have S: "writing pg" "?n < MAX_PAGES" "get_node_type ?b = NODE_LEAF" "leaf_node_next_leaf ?b = 0" "leaf_rows def ?b vss"
    using assms(1) by (simp_all add: single_leaf_def Let_def)
  have key: "key_ok (key_type def) ?k" using assms(2) serialize_col0_key_ok by (simp add: row_ok_def)
  note tk = table_keys [OF assms(1)]
  have t: "table_ok def (view pg) 0" using S(2-4) tk(2) by (simp add: table_ok_def)
  obtain q where f: "btree_find def v pg = Some (Some (cursor_for def (view pg) ?k ?n), q)" "unseen pg q"
    using find_cursor [OF t writing_reading [OF S(1)], of v] key by (auto simp: assms(3))
  have "splits_at def (map (row_key def) vss) ?k (leaf_node_find ?b ?k def)"
    using leaf_node_find_splits [OF tk(2) key] by (simp add: tk(1))
  then have "leaf_node_find ?b ?k def \<le> leaf_node_num_cells ?b" using leaf_rows_keys(2) [OF S(5)] by (simp add: splits_at_def)
  then have "c_page (cursor_for def (view pg) ?k ?n) = ?n" "c_cell (cursor_for def (view pg) ?k ?n) = leaf_node_find ?b ?k def"
    using S(4) by (auto simp: cursor_for_def Let_def)
  then show ?thesis using that [OF f] by blast
qed

lemma version_leaf_drop:
  assumes "version_leaf def pg rs" "on_cell def c k" "k < length rs"
  obtains c' q where "btree_delete def c pg = Some (c', q)" "version_leaf def q (drop_nth k rs)"
    "cells (view q (root_page_num def)) = drop_nth k (cells (view pg (root_page_num def)))"
proof -
  note v = version_leafD [OF assms(1)]
  have c: "c_page c = root_page_num def" "c_cell c = k" "\<not> end_of_table c" using assms(2) by (simp_all add: on_cell_def)
  obtain q where q: "btree_delete def c pg = Some (c\<lparr>end_of_table := (c_cell c = length (map fst rs) - 1)\<rparr>, q)"
    "single_leaf def q (drop_nth (c_cell c) (map fst rs))" "is_node_root (view q (root_page_num def))"
    "cells (view q (root_page_num def)) = drop_nth (c_cell c) (cells (view pg (root_page_num def)))"
    by (rule delete_from_leaf [OF v(2,3) c(1) _ c(3)]) (use assms(3) c(2) in auto)
  have "version_leaf def q (drop_nth k rs)"
    using q(2-4) list_all2_drop_nth [OF v(4), of k] by (simp add: version_leaf_def c(2) map_drop_nth)
  then show ?thesis using that [OF q(1)] q(4) c(2) by simp
qed

lemma version_leaf_insert:
  assumes "version_leaf def pg rs" "key_type def = COL_INT" "row_ok def vs" "serialize_row_with_mvcc def vs e xmin xmax = Some rec"
    and "length rec < BTREE_MAX_LOCAL_PAYLOAD" "leaf_fits (view pg (root_page_num def)) (length rec)"
    and "c_page c = root_page_num def" "c_cell c = leaf_node_find (view pg (root_page_num def)) (row_key def vs) def"
  obtains q rs' where "btree_insert_with_mvcc def c vs e xmin xmax pg = Some q" "version_leaf def q rs'"
    "mset rs' = add_mset (map2 canon (columns def) vs, (e, xmin, xmax), length rec) (mset rs)"
    "sum_list (map length (cells (view q (root_page_num def)))) =
       sum_list (map length (cells (view pg (root_page_num def)))) + length rec"
proof -
  note v = version_leafD [OF assms(1)]
  let ?ws = "map2 canon (columns def) vs" and ?i = "c_cell c"
  let ?r = "(?ws, (e, xmin, xmax), length rec)"
  note ws = version_cellI [OF assms(3,2,4,5)]
  obtain q where q: "btree_insert_with_mvcc def c vs e xmin xmax pg = Some q"
    "single_leaf def q (take ?i (map fst rs) @ vs # drop ?i (map fst rs))"
    "cells (view q (root_page_num def)) = take ?i (cells (view pg (root_page_num def))) @ rec #
       drop ?i (cells (view pg (root_page_num def)))"
    "is_node_root (view q (root_page_num def)) = is_node_root (view pg (root_page_num def))"
    by (rule insert_into_leaf [OF v(2) assms(3-8)])
  let ?rs = "take ?i rs @ ?r # drop ?i rs"
  have vs: "list_all2 (version_cell def) (cells (view q (root_page_num def))) ?rs"
    using q(3) v(4) ws(1) by (simp add: list_all2_appendI list_all2_takeI list_all2_dropI)
  then have "leaf_rows def (view q (root_page_num def)) (map fst ?rs)"
    unfolding leaf_rows_def list_all2_map2 by (rule list_all2_mono) (auto simp: version_cell_def cell_row_def split: prod.splits)
  then have "single_leaf def q (map fst ?rs)"
    using q(2) ws(3) by (simp add: single_leaf_def Let_def take_map drop_map)
  then have "version_leaf def q ?rs" using vs q(4) v(3) by (simp add: version_leaf_def)
  moreover have "mset ?rs = add_mset ?r (mset rs)" by (rule mset_insert_nth)
  moreover have "sum_list (map length (cells (view q (root_page_num def)))) =
       sum_list (map length (cells (view pg (root_page_num def)))) + length rec"
  proof -
    let ?C = "cells (view pg (root_page_num def))"
    have "sum_list (map length ?C) = sum_list (map length (take ?i ?C @ drop ?i ?C))" by simp
    then show ?thesis by (simp only: q(3) map_append sum_list_append list.map sum_list.Cons)
  qed
  ultimately show ?thesis by (rule that [OF q(1)])
qed

text \<open>The leaf has room for the version again, since the new record has the length of the old one.\<close>

lemma restamp_leaf:
  assumes "version_leaf def pg rs" "on_cell def c k" "k < length rs" "key_type def = COL_INT"
    and "rs ! k = (vs, (e, xmin, xmax), n)" "0 < xmin" "int_val (vs ! 0) = target"
  obtains q rs' where "restamp def c target (vs, e, xmin) txn pg = Some q" "version_leaf def q rs'"
    "mset rs' = add_mset (stamp_deleted txn (rs ! k)) (mset rs - {#rs ! k#})"
    "sum_list (map length (cells (view q (root_page_num def)))) = sum_list (map length (cells (view pg (root_page_num def))))"
proof -
  note v = version_leafD [OF assms(1)]
  let ?n = "root_page_num def"
  obtain c' p where p: "btree_delete def c pg = Some (c', p)" "version_leaf def p (drop_nth k rs)"
    "cells (view p ?n) = drop_nth k (cells (view pg ?n))"
    by (rule version_leaf_drop [OF assms(1-3)])
  note vp = version_leafD [OF p(2)]
  have k: "k < length (cells (view pg ?n))" using assms(3) v(7) by simp
  have vc: "version_cell def (cells (view pg ?n) ! k) (vs, (e, xmin, xmax), n)"
    using v(4) assms(3,5) by (auto simp: list_all2_conv_all_nth)
  then have ok: "row_ok def vs" and s: "serialize_row_with_mvcc def vs e xmin xmax = Some (cells (view pg ?n) ! k)"
    and can: "map2 canon (columns def) vs = vs" and n: "n = length (cells (view pg ?n) ! k)" "n < BTREE_MAX_LOCAL_PAYLOAD"
    by (simp_all add: version_cell_def)
  obtain rec where rec: "serialize_row_with_mvcc def vs e xmin txn = Some rec" "length rec = length (cells (view pg ?n) ! k)"
    using serialize_restamped [OF s assms(6)] by blast
  have sum: "sum_list (map length (drop_nth k (cells (view pg ?n)))) + length (cells (view pg ?n) ! k) = sum_list (map length (cells (view pg ?n)))"
    using k by (subst (3) id_take_nth_drop [OF k]) (simp add: drop_nth_def)
  have fits: "leaf_fits (view p ?n) (length rec)"
  proof -
    have "leaf_node_num_cells (view p ?n) = length (drop_nth k (cells (view pg ?n)))" using p(3) length_cells [of "view p ?n"] by simp
    then have "Suc (leaf_node_num_cells (view p ?n)) = leaf_node_num_cells (view pg ?n)" using k by simp
    moreover have "leaf_node_slot (leaf_node_num_cells (view pg ?n)) + sum_list (map length (cells (view pg ?n))) \<le> PAGE_SIZE"
      using v(5) by (simp add: leaf_ok_def cells_def comp_def)
    ultimately show ?thesis using sum rec(2) by (simp add: leaf_fits_def p(3))
  qed
  have key: "serialize_col0_key def (id_value target) = row_key def vs"
    using assms(4,7) ok by (cases vs) (auto simp: serialize_col0_key_def id_value_def row_ok_def)
  obtain ins q0 where f: "btree_find def (id_value target) p = Some (Some ins, q0)" "unseen p q0" "c_page ins = ?n"
    "c_cell ins = leaf_node_find (view p ?n) (row_key def vs) def"
    by (rule find_in_leaf [OF vp(2) ok key])
  have vq0: "view q0 = view p" using f(2) by (simp add: unseen_def)
  obtain q rs' where q: "btree_insert_with_mvcc def ins vs e xmin txn q0 = Some q" "version_leaf def q rs'"
    "mset rs' = add_mset (vs, (e, xmin, txn), n) (mset (drop_nth k rs))"
    "sum_list (map length (cells (view q ?n))) = sum_list (map length (cells (view q0 ?n))) + length rec"
    by (rule version_leaf_insert [OF version_leaf_unseen [OF p(2) f(2)] assms(4) ok rec(1) _ _ f(3)])
      (use rec(2) n can fits in \<open>simp_all add: vq0 f(4)\<close>)
  have "restamp def c target (vs, e, xmin) txn pg = Some q" using p(1) f(1) q(1) by (simp add: restamp_def)
  moreover have "mset rs' = add_mset (stamp_deleted txn (rs ! k)) (mset rs - {#rs ! k#})"
    using q(3) assms(3,5) by (simp add: mset_drop_nth stamp_deleted_def)
  ultimately show ?thesis using that q(2,4) sum rec(2) vq0 p(3) by simp
qed

section \<open>Looking up the version to change\<close>

definition version_of :: "stored \<Rightarrow> version" where
  "version_of r = (case r of (vs, (e, xmin, xmax), n) \<Rightarrow> (vs, e, xmin))"

definition version_step :: "32 word \<Rightarrow> 64 word \<Rightarrow> 64 word \<Rightarrow> stored \<Rightarrow> version option \<Rightarrow> bool \<times> version option" where
  "version_step target txn now r found =
     (if int_val (fst r ! 0) \<noteq> target then (False, found)
      else if visible txn now r then (False, Some (version_of r)) else (True, found))"

lemma version_body_runs:
  assumes "keyed def V d rows"
  shows "tree_rows.runs_as I V reserved def d rows (version_body def target txn now) (version_step target txn now)"
  unfolding tree_rows.runs_as_def
proof (intro allI impI)
  fix p c n s assume p: "presented I V reserved p" "on_row def V reserved d rows c n" "n < length rows"
  obtain q where q: "fetch_stored def c p = Some (rows ! n, q)" "presented I V reserved q"
    using tree_rows.fetch_row [OF p] by blast
  then have k: "btree_key_value def c p = Some (value_copy value_init (fst (rows ! n) ! 0), q)"
    by (auto simp: fetch_stored_def btree_key_value_def deserialize_row_fst split: bind_splits)
  have nn: "\<not> is_null (fst (rows ! n) ! 0)" using assms p(3) by (simp add: keyed_def)
  then have i: "int_val (value_copy value_init (fst (rows ! n) ! 0)) = int_val (fst (rows ! n) ! 0)"
    by (simp add: value_copy_def value_set_text_len_def Let_def)
  obtain q1 where q1: "fetch_stored def c q = Some (rows ! n, q1)" "presented I V reserved q1"
    using tree_rows.fetch_row [OF q(2) p(2,3)] by blast
  obtain q2 where q2: "fetch_stored def c q1 = Some (rows ! n, q2)" "presented I V reserved q2"
    using tree_rows.fetch_row [OF q1(2) p(2,3)] by blast
  obtain b1 b2 where b: "cursor_value c q = Some (b1, q1)" "deserialize_row_with_mvcc def b1 = rows ! n"
    "cursor_value c q1 = Some (b2, q2)" "deserialize_row_with_mvcc def b2 = rows ! n"
    using q1(1) q2(1) by (auto simp: fetch_stored_def bind_eq_Some_conv)
  show "\<exists>q. version_body def target txn now c s p =
      Some (fst (version_step target txn now (rows ! n) s), snd (version_step target txn now (rows ! n) s), q) \<and> presented I V reserved q"
    using k i b q(2) q1(2) q2(2)
    by (cases "rows ! n") (auto simp: version_body_def version_step_def row_visible_stored version_of_def Let_def split: prod.split)
qed

text \<open>The walk over rows whose keys are at least the target stops at the version that is visible, if there is one.\<close>

lemma walk_version:
  assumes "sorted (map key_int rows)" "\<forall>r \<in> set rows. sint target \<le> key_int r"
  shows "let k = walked (version_step target txn now) rows None
    in case walk (version_step target txn now) rows None of
         None \<Rightarrow> \<forall>r \<in> set rows. visible txn now r \<longrightarrow> int_val (fst r ! 0) \<noteq> target
       | Some ver \<Rightarrow> k < length rows \<and> ver = version_of (rows ! k) \<and> visible txn now (rows ! k) \<and> int_val (fst (rows ! k) ! 0) = target"
  using assms
proof (induction rows)
  case (Cons r rows)
  show ?case
  proof (cases "int_val (fst r ! 0) = target")
    case False
    then have "sint (int_val (fst r ! 0)) \<noteq> sint target" using sint_eqI by blast
    with Cons.prems have "\<forall>x \<in> set (r # rows). key_int x \<noteq> sint target" by fastforce
    then show ?thesis using False by (auto simp: version_step_def)
  next
    case True
    then show ?thesis using Cons by (cases "visible txn now r") (auto simp: version_step_def Let_def split: option.splits)
  qed
qed simp

lemma find_version_leaf:
  assumes "version_leaf def pg rs" "key_type def = COL_INT"
  obtains q where "find_version def target txn now pg = Some (None, q)" "unseen pg q"
      "\<forall>r \<in> set rs. visible txn now r \<longrightarrow> int_val (fst r ! 0) \<noteq> target"
  | c q k where "find_version def target txn now pg = Some (Some (c, version_of (rs ! k)), q)" "unseen pg q"
      "on_cell def c k" "k < length rs" "visible txn now (rs ! k)" "int_val (fst (rs ! k) ! 0) = target"
proof -
  let ?V = "view pg" and ?R = "reserved_catalog_pages pg" and ?f = "version_step target txn now"
  let ?P = "presented (unseen pg) ?V ?R"
  note st = version_leaf_stores [OF assms(1), of ?R] and ky = version_leaf_keyed [OF assms(1)]
  have P: "?P pg" using writing_reading [OF version_leafD(1) [OF assms(1)]] stable_unseen by (simp add: presented_def)
  have u: "unseen pg q" if "?P q" for q using that by (simp add: presented_def)
  obtain c q n where n: "btree_find def (id_value target) pg = Some (Some c, q)" "?P q" "on_row def ?V ?R 0 rs c n"
    "n \<le> length rs" "\<forall>r \<in> set (take n rs). key_int r < sint (int_val (id_value target))"
    "\<forall>r \<in> set (drop n rs). sint (int_val (id_value target)) \<le> key_int r" "sorted (map key_int rs)"
    using seek_position [OF P st ky assms(2)] by blast
  have t: "int_val (id_value target) = target" by (simp add: id_value_def)
  have "sorted (map key_int (drop n rs))" using sorted_wrt_drop [OF n(7)] by (simp only: drop_map)
  note w = walk_version [OF this n(6) [unfolded t], of txn now, unfolded Let_def]
  obtain c' q' where s: "scan_loop (version_body def target txn now) c None q = Some (c', walk ?f (drop n rs) None, q')" "?P q'"
    "on_row def ?V ?R 0 rs c' (n + walked ?f (drop n rs) None)"
    using tree_rows.scan_walk [OF version_body_runs [OF ky] n(2-4), of target txn now None] by blast
  have f: "find_version def target txn now pg = Some (map_option (Pair c') (walk ?f (drop n rs) None), q')"
    using n(1) s(1) by (simp add: find_version_def)
  show ?thesis
  proof (cases "walk ?f (drop n rs) None")
    case None
    have "\<forall>r \<in> set (take n rs) \<union> set (drop n rs). visible txn now r \<longrightarrow> int_val (fst r ! 0) \<noteq> target"
      using w n(5) None by (auto simp: t)
    then have "\<forall>r \<in> set rs. visible txn now r \<longrightarrow> int_val (fst r ! 0) \<noteq> target" by (metis append_take_drop_id set_append)
    then show ?thesis using that(1) f None u [OF s(2)] by simp
  next
    case (Some ver)
    define k where "k = n + walked ?f (drop n rs) None"
    have k: "k < length rs" "ver = version_of (rs ! k)" "visible txn now (rs ! k)" "int_val (fst (rs ! k) ! 0) = target"
      using w Some n(4) by (auto simp: k_def)
    have "on_cell def c' k" by (rule on_row_cell [OF s(3) [folded k_def] k(1) assms(1)])
    then show ?thesis using that(2) f Some u [OF s(2)] k by simp
  qed
qed

section \<open>The rows the statement collects\<close>

abbreviation row_id :: "stored \<Rightarrow> 32 word" where
  "row_id r \<equiv> int_val (fst r ! 0)"

text \<open>The rows that the transaction sees and the clause holds of.\<close>

definition affected where
  "affected R def cat wc txn now r \<longleftrightarrow> visible txn now r \<and> where_meaning R def (fst r) wc cat"

definition match_step where
  "match_step R def cat wc txn now r ids = (True, if affected R def cat wc txn now r then ids @ [row_id r] else ids)"

lemma match_body_runs:
  assumes "catalog_stored cat V reserved ds R"
  shows "tree_rows.runs_as I V reserved def d rows (match_body def cat wc txn now) (match_step R def cat wc txn now)"
  unfolding tree_rows.runs_as_def
proof (intro allI impI)
  fix p c n s assume p: "presented I V reserved p" "on_row def V reserved d rows c n" "n < length rows"
  obtain q where q: "fetch_stored def c p = Some (rows ! n, q)" "presented I V reserved q"
    using tree_rows.fetch_row [OF p] by blast
  obtain t where "eval_where_clause def (fst (rows ! n)) wc cat q = Some (where_meaning R def (fst (rows ! n)) wc cat, t)"
    "presented I V reserved t"
    using eval_where_meaning [OF assms q(2)] by blast
  moreover obtain b where "cursor_value c p = Some (b, q)" "deserialize_row_with_mvcc def b = rows ! n"
    using q(1) by (auto simp: fetch_stored_def bind_eq_Some_conv)
  ultimately show "\<exists>q. match_body def cat wc txn now c s p = Some (fst (match_step R def cat wc txn now (rows ! n) s),
      snd (match_step R def cat wc txn now (rows ! n) s), q) \<and> presented I V reserved q"
    using q(2) by (cases "visible txn now (rows ! n)")
      (simp_all add: match_body_def match_step_def affected_def row_visible_stored Let_def)
qed

lemma walk_match: "walk (match_step R def cat wc txn now) rows ids = ids @ map row_id (filter (affected R def cat wc txn now) rows)"
  by (induction rows arbitrary: ids) (simp_all add: match_step_def)

lemma collect_ids:
  assumes "version_leaf def pg rs" "catalog_stored cat (view pg) (reserved_catalog_pages pg) ds R"
  obtains c q q' where "btree_start def pg = Some (c, q)" "unseen pg q'"
    "matching_ids def cat wc txn now c q = Some (map row_id (filter (affected R def cat wc txn now) rs), q')"
proof -
  let ?P = "presented (unseen pg) (view pg) (reserved_catalog_pages pg)"
  have P: "?P pg" using writing_reading [OF version_leafD(1) [OF assms(1)]] stable_unseen by (simp add: presented_def)
  obtain c q where c: "btree_start def pg = Some (c, q)" "?P q" "on_row def (view pg) (reserved_catalog_pages pg) 0 rs c 0"
    using start_row [OF version_leaf_stores [OF assms(1)] P] by blast
  obtain c' q' where s: "scan_loop (match_body def cat wc txn now) c [] q =
      Some (c', walk (match_step R def cat wc txn now) rs [], q')" "?P q'"
    using tree_rows.scan_walk [OF match_body_runs [OF assms(2)] c(2,3), of wc txn now "[]"] by auto
  show ?thesis by (rule that [OF c(1), of q']) (use s in \<open>simp_all add: matching_ids_def walk_match presented_def\<close>)
qed

section \<open>One row for each key\<close>

definition one_each :: "('a \<Rightarrow> bool) \<Rightarrow> ('a \<Rightarrow> 'k) \<Rightarrow> 'a multiset \<Rightarrow> bool" where
  "one_each P f M \<longleftrightarrow> (\<forall>k. count (image_mset f (filter_mset P M)) k \<le> 1)"

lemma one_each_other:
  assumes "one_each P f (add_mset x M)" "P x" "y \<in># M" "P y"
  shows "f y \<noteq> f x"
proof
  assume e: "f y = f x"
  have "count (image_mset f (filter_mset P (add_mset x M))) (f x) \<le> 1" using assms(1) by (simp only: one_each_def)
  then have "count (image_mset f (filter_mset P M)) (f x) = 0" using assms(2) by simp
  then have "f x \<notin># image_mset f (filter_mset P M)" by (simp only: count_eq_zero_iff not_False_eq_True)
  moreover have "f y \<in># image_mset f (filter_mset P M)" using assms(3,4) by auto
  ultimately show False by (metis e)
qed

lemma one_each_replace: "one_each P f (add_mset x M) \<Longrightarrow> \<not> P y \<Longrightarrow> one_each P f (add_mset y M)"
  unfolding one_each_def
proof (intro allI)
  fix k assume a: "\<forall>k. count (image_mset f (filter_mset P (add_mset x M))) k \<le> 1" "\<not> P y"
  have "count (image_mset f (filter_mset P M)) k \<le> count (image_mset f (filter_mset P (add_mset x M))) k" by simp
  then show "count (image_mset f (filter_mset P (add_mset y M))) k \<le> 1" using a order.trans by fastforce
qed

lemma one_each_distinct: "distinct (map f (filter P xs)) \<Longrightarrow> one_each P f (mset xs)"
  by (simp add: one_each_def distinct_count_atmost_1 flip: mset_filter)

section \<open>DELETE\<close>

lemma visible_stamp_deleted: "txn \<noteq> 0 \<Longrightarrow> \<not> visible txn now (stamp_deleted txn r)"
  by (auto simp: visible_def stamp_deleted_def split: prod.split)

abbreviation created :: "stored \<Rightarrow> 64 word" where
  "created r \<equiv> fst (snd (fst (snd r)))"

lemma stamp_deleted_parts [simp]: "fst (stamp_deleted txn r) = fst r" "created (stamp_deleted txn r) = created r"
  by (auto simp: stamp_deleted_def split: prod.split)

text \<open>What happens to a version when the keys \<open>ids\<close> are deleted.\<close>

definition delete_version :: "32 word set \<Rightarrow> 64 word \<Rightarrow> 64 word \<Rightarrow> stored \<Rightarrow> stored" where
  "delete_version ids txn now r = (if visible txn now r \<and> row_id r \<in> ids then stamp_deleted txn r else r)"

lemma delete_ids_leaf:
  assumes "version_leaf def pg rs" "key_type def = COL_INT" "cascades fk_on_delete_cascade cat def = []" "txn \<noteq> 0"
    and "one_each (visible txn now) row_id (mset rs)" "\<forall>r \<in> set rs. 0 < created r" "distinct ids"
  shows "\<exists>q rs'. fold_opt (delete_id del cat def txn now) ids pg = Some q \<and> version_leaf def q rs' \<and>
    mset rs' = image_mset (delete_version (set ids) txn now) (mset rs)"
  using assms
proof (induction ids arbitrary: pg rs)
  case Nil
  then show ?case by (auto simp: delete_version_def)
next
  case (Cons t ids)
  have cas: "cascade_delete del cat def vals p = Some p" for vals p using Cons.prems(3) by (simp add: cascade_delete_def)
  show ?case
  proof (rule find_version_leaf [OF Cons.prems(1,2), of t txn now])
    fix q assume q: "find_version def t txn now pg = Some (None, q)" "unseen pg q" "\<forall>r \<in> set rs. visible txn now r \<longrightarrow> row_id r \<noteq> t"
    have "image_mset (delete_version (set (t # ids)) txn now) (mset rs) = image_mset (delete_version (set ids) txn now) (mset rs)"
      using q(3) by (intro image_mset_cong) (auto simp: delete_version_def)
    moreover have "delete_id del cat def txn now t pg = Some q" using q(1) by (simp add: delete_id_def)
    ultimately show ?thesis
      using Cons.IH [OF version_leaf_unseen [OF Cons.prems(1) q(2)]] Cons.prems(2-7) by simp
  next
    fix c q k assume f: "find_version def t txn now pg = Some (Some (c, version_of (rs ! k)), q)" "unseen pg q"
      "on_cell def c k" "k < length rs" "visible txn now (rs ! k)" "row_id (rs ! k) = t"
    obtain vs e xmin xmax n where r: "rs ! k = (vs, (e, xmin, xmax), n)" by (metis prod.exhaust)
    have x: "0 < xmin" "int_val (vs ! 0) = t" using bspec [OF Cons.prems(6) nth_mem [OF f(4)]] f(6) by (simp_all add: r)
    obtain p rs1 where p: "restamp def c t (vs, e, xmin) txn q = Some p" "version_leaf def p rs1"
      "mset rs1 = add_mset (stamp_deleted txn (rs ! k)) (mset rs - {#rs ! k#})"
      by (rule restamp_leaf [OF version_leaf_unseen [OF Cons.prems(1) f(2)] f(3,4) Cons.prems(2) r x])
    define M where "M = mset rs - {#rs ! k#}"
    have M: "mset rs = add_mset (rs ! k) M" using f(4) by (simp add: M_def)
    have vis: "\<not> visible txn now (stamp_deleted txn (rs ! k))" by (rule visible_stamp_deleted [OF Cons.prems(4)])
    have one: "one_each (visible txn now) row_id (mset rs1)"
      using one_each_replace [OF Cons.prems(5) [unfolded M] vis] p(3) by (simp add: M_def)
    have cr: "\<forall>r \<in> set rs1. 0 < created r"
    proof
      fix r assume "r \<in> set rs1"
      then have "r \<in># mset rs1" by simp
      then have "r = stamp_deleted txn (rs ! k) \<or> r \<in> set rs" unfolding p(3) by (auto dest: in_diffD)
      then show "0 < created r" using Cons.prems(6) f(4) by auto
    qed
    have "delete_id del cat def txn now t pg = Some p"
      using f(1) p(1) cas by (simp add: delete_id_def r version_of_def)
    moreover obtain q' rs' where "fold_opt (delete_id del cat def txn now) ids p = Some q'" "version_leaf def q' rs'"
      "mset rs' = image_mset (delete_version (set ids) txn now) (mset rs1)"
      using Cons.IH [OF p(2) Cons.prems(2-4) one cr] Cons.prems(7) by auto
    moreover have "image_mset (delete_version (set ids) txn now) (mset rs1) = image_mset (delete_version (set (t # ids)) txn now) (mset rs)"
    proof -
      have "\<forall>y \<in># M. visible txn now y \<longrightarrow> row_id y \<noteq> t"
        using one_each_other [OF Cons.prems(5) [unfolded M] f(5)] f(6) by auto
      then have "image_mset (delete_version (set ids) txn now) M = image_mset (delete_version (set (t # ids)) txn now) M"
        by (intro image_mset_cong) (auto simp: delete_version_def)
      then show ?thesis using vis f(5,6) by (simp add: p(3) M_def [symmetric] M delete_version_def)
    qed
    ultimately show ?thesis by auto
  qed
qed

definition no_references :: "Catalog \<Rightarrow> bool" where
  "no_references cat \<longleftrightarrow> (\<forall>child \<in> set (tables cat). \<forall>col \<in> set (columns child). \<not> has_fk col)"

lemma no_references_empty: "no_references cat \<Longrightarrow> references P cat def = []"
  by (auto simp: no_references_def references_def Let_def concat_eq_Nil_conv)

lemma start_write_writing:
  assumes "writing pg"
  shows "start_write pg = Some (Inr False, pg)"
  using writing_lock [OF assms] assms by (simp add: start_write_def writing_def)

text \<open>The collected keys are those of the affected rows, each once.\<close>

lemma collected_ids:
  fixes R def cat wc
  assumes "single_versions txn now rs"
  defines "ids \<equiv> map row_id (filter (affected R def cat wc txn now) rs)"
  shows "one_each (visible txn now) row_id (mset rs)" "distinct ids"
    "\<forall>r \<in> set rs. visible txn now r \<longrightarrow> (row_id r \<in> set ids \<longleftrightarrow> affected R def cat wc txn now r)"
proof -
  have d: "distinct (map row_id (filter (visible txn now) rs))"
    using assms(1) unfolding single_versions_def by (auto simp: distinct_map inj_on_def)
  then show "one_each (visible txn now) row_id (mset rs)" by (rule one_each_distinct)
  have "ids = map row_id (filter (\<lambda>r. where_meaning R def (fst r) wc cat) (filter (visible txn now) rs))"
    by (simp add: ids_def affected_def [abs_def] conj_commute)
  then show "distinct ids" by (simp only: distinct_map_filter [OF d])
  show "\<forall>r \<in> set rs. visible txn now r \<longrightarrow> (row_id r \<in> set ids \<longleftrightarrow> affected R def cat wc txn now r)"
  proof (intro ballI impI iffI)
    fix r assume r: "r \<in> set rs" "visible txn now r" "row_id r \<in> set ids"
    then obtain y where y: "y \<in> set rs" "affected R def cat wc txn now y" "row_id y = row_id r" by (auto simp: ids_def)
    have "inj_on row_id (set (filter (visible txn now) rs))" using d by (simp only: distinct_map)
    from inj_onD [OF this y(3)] have "y = r" using y(1,2) r by (simp add: affected_def)
    with y(2) show "affected R def cat wc txn now r" by simp
  qed (auto simp: ids_def)
qed

lemma delete_version_affected:
  assumes "\<forall>r \<in> set rs. visible txn now r \<longrightarrow> (row_id r \<in> ids \<longleftrightarrow> affected R def cat wc txn now r)"
  shows "image_mset (delete_version ids txn now) (mset rs) =
    image_mset (\<lambda>r. if affected R def cat wc txn now r then stamp_deleted txn r else r) (mset rs)"
  using assms by (intro image_mset_cong) (auto simp: delete_version_def affected_def)


section \<open>UPDATE\<close>

text \<open>The row has a new version with the same key that a record of at most \<open>L\<close> bytes holds.\<close>

definition updatable :: "expr_fun \<Rightarrow> TableDef \<Rightarrow> SetPair list \<Rightarrow> 64 word \<Rightarrow> nat \<Rightarrow> stored \<Rightarrow> bool" where
  "updatable expr def pairs txn L r \<longleftrightarrow> (case r of (vs, (e, xmin, xmax), n) \<Rightarrow>
     \<exists>ws rec. new_row expr def pairs vs = Some ws \<and> row_ok def ws \<and> serialize_row_with_mvcc def ws e txn 0 = Some rec \<and>
       length rec \<le> L \<and> length rec < BTREE_MAX_LOCAL_PAYLOAD \<and> int_val (ws ! 0) = int_val (vs ! 0))"

lemma row_id_canon:
  assumes "row_ok def ws" "key_type def = COL_INT"
  shows "int_val (map2 canon (columns def) ws ! 0) = int_val (ws ! 0)"
proof (cases "columns def")
  case (Cons col cols)
  obtain v vs where v: "ws = v # vs" using assms(1) by (cases ws) (auto simp: row_ok_def)
  then show ?thesis using assms Cons by (simp add: canon_def value_init_def row_ok_def key_consistent_def)
qed (use assms in \<open>simp add: row_ok_def\<close>)

text \<open>The new version, with its values as they are read back.\<close>

definition new_version :: "expr_fun \<Rightarrow> TableDef \<Rightarrow> SetPair list \<Rightarrow> 64 word \<Rightarrow> stored \<Rightarrow> stored" where
  "new_version expr def pairs txn r = (case r of (vs, (e, xmin, xmax), n) \<Rightarrow>
     let ws = the (new_row expr def pairs vs)
     in (map2 canon (columns def) ws, (e, txn, 0), length (the (serialize_row_with_mvcc def ws e txn 0))))"

text \<open>Room for \<open>m\<close> more records of at most \<open>L\<close> bytes.\<close>

definition has_room :: "buf \<Rightarrow> nat \<Rightarrow> nat \<Rightarrow> bool" where
  "has_room b m L \<longleftrightarrow> leaf_node_slot (leaf_node_num_cells b + m) + sum_list (map length (cells b)) + m * L \<le> PAGE_SIZE"

lemma visible_new_version:
  "visible txn now r \<Longrightarrow> visible txn now (new_version expr def pairs txn r)"
  by (auto simp: visible_def new_version_def Let_def split: prod.splits)

lemma new_version_parts:
  assumes "updatable expr def pairs txn L r" "key_type def = COL_INT"
  shows "row_id (new_version expr def pairs txn r) = row_id r" "created (new_version expr def pairs txn r) = txn"
proof -
  obtain vs e xmin xmax n where r: "r = (vs, (e, xmin, xmax), n)" by (metis prod.exhaust)
  obtain ws where ws: "new_row expr def pairs vs = Some ws" "row_ok def ws" "int_val (ws ! 0) = int_val (vs ! 0)"
    using assms(1) by (auto simp: updatable_def r)
  show "row_id (new_version expr def pairs txn r) = row_id r"
    using row_id_canon [OF ws(2) assms(2)] ws(1,3) by (simp add: new_version_def r)
  show "created (new_version expr def pairs txn r) = txn" by (simp add: new_version_def r Let_def)
qed

text \<open>One row: the old version is stamped and the new one is added.\<close>

lemma update_version:
  assumes "version_leaf def pg rs" "on_cell def c k" "k < length rs" "key_type def = COL_INT"
    and "rs ! k = (vs, (e, xmin, xmax), n)" "0 < xmin" "int_val (vs ! 0) = target"
    and "updatable expr def pairs txn L (rs ! k)" "has_room (view pg (root_page_num def)) (Suc m) L"
  obtains p ws ins p1 q rs' where "restamp def c target (vs, e, xmin) txn pg = Some p" "new_row expr def pairs vs = Some ws"
    "btree_find def (ws ! 0) p = Some (Some ins, p1)" "btree_insert_with_mvcc def ins ws e txn 0 p1 = Some q"
    "version_leaf def q rs'" "has_room (view q (root_page_num def)) m L"
    "mset rs' = add_mset (new_version expr def pairs txn (rs ! k)) (add_mset (stamp_deleted txn (rs ! k)) (mset rs - {#rs ! k#}))"
proof -
  let ?n = "root_page_num def"
  obtain ws rec where ws: "new_row expr def pairs vs = Some ws" "length rec \<le> L" "length rec < BTREE_MAX_LOCAL_PAYLOAD"
    and ok: "row_ok def ws" and ser: "serialize_row_with_mvcc def ws e txn 0 = Some rec"
    using assms(8) by (auto simp: updatable_def assms(5))
  obtain p rs1 where p: "restamp def c target (vs, e, xmin) txn pg = Some p" "version_leaf def p rs1"
    "mset rs1 = add_mset (stamp_deleted txn (rs ! k)) (mset rs - {#rs ! k#})"
    "sum_list (map length (cells (view p ?n))) = sum_list (map length (cells (view pg ?n)))"
    by (rule restamp_leaf [OF assms(1-7)])
  have "size (mset rs1) = size (mset rs)" unfolding p(3) using assms(3) by (simp add: size_Diff_singleton)
  then have nc: "leaf_node_num_cells (view p ?n) = leaf_node_num_cells (view pg ?n)"
    using version_leafD(7) [OF p(2)] version_leafD(7) [OF assms(1)] by simp
  have "ws ! 0 = hd ws" using ok by (cases ws) (simp_all add: row_ok_def)
  then obtain ins p1 where f: "btree_find def (ws ! 0) p = Some (Some ins, p1)" "unseen p p1" "c_page ins = ?n"
    "c_cell ins = leaf_node_find (view p ?n) (row_key def ws) def"
    using find_in_leaf [OF version_leafD(2) [OF p(2)] ok, of "ws ! 0"] by auto
  have v1: "view p1 = view p" using f(2) by (simp add: unseen_def)
  have fits: "leaf_fits (view p ?n) (length rec)"
    using assms(9) ws(2) by (simp add: leaf_fits_def has_room_def nc p(4) slot_pos)
  obtain q rs' where q: "btree_insert_with_mvcc def ins ws e txn 0 p1 = Some q" "version_leaf def q rs'"
    "mset rs' = add_mset (map2 canon (columns def) ws, (e, txn, 0), length rec) (mset rs1)"
    "sum_list (map length (cells (view q ?n))) = sum_list (map length (cells (view p1 ?n))) + length rec"
    by (rule version_leaf_insert [OF version_leaf_unseen [OF p(2) f(2)] assms(4) ok ser ws(3) _ f(3)]) (simp_all add: v1 fits f(4))
  have "size (mset rs') = Suc (size (mset rs1))" unfolding q(3) by simp
  then have "leaf_node_num_cells (view q ?n) = Suc (leaf_node_num_cells (view p ?n))"
    using version_leafD(7) [OF q(2)] version_leafD(7) [OF p(2)] by simp
  then have "has_room (view q ?n) m L" using assms(9) ws(2) by (simp add: has_room_def nc q(4) v1 p(4))
  moreover have "new_version expr def pairs txn (rs ! k) = (map2 canon (columns def) ws, (e, txn, 0), length rec)"
    by (simp add: new_version_def assms(5) ws(1) ser)
  ultimately show ?thesis using that [OF p(1) ws(1) f(1) q(1,2)] q(3) p(3) by simp
qed

lemma insert_indexes_none: "\<forall>c \<in> set cs. \<not> has_index (columns def ! c) \<Longrightarrow> insert_indexes def cat vals cs pg = Some pg"
  by (induction cs) (simp_all add: Let_def)

definition hit :: "32 word set \<Rightarrow> 64 word \<Rightarrow> 64 word \<Rightarrow> stored \<Rightarrow> bool" where
  "hit ids txn now r \<longleftrightarrow> visible txn now r \<and> row_id r \<in> ids"

lemma update_ids_leaf:
  assumes "version_leaf def pg rs" "key_type def = COL_INT" "cascades fk_on_update_cascade cat def = []" "txn \<noteq> 0"
    and "one_each (visible txn now) row_id (mset rs)" "\<forall>r \<in> set rs. 0 < created r" "distinct ids"
    and "\<forall>col \<in> set (columns def). \<not> has_index col"
    and "\<forall>r \<in> set rs. hit (set ids) txn now r \<longrightarrow> updatable expr def pairs txn L r"
    and "has_room (view pg (root_page_num def)) (length ids) L"
  shows "\<exists>q rs'. fold_until (update_id upd expr cat def pairs txn now) ids pg = Some (None, q) \<and> version_leaf def q rs' \<and>
    mset rs' = image_mset (delete_version (set ids) txn now) (mset rs) +
      image_mset (new_version expr def pairs txn) (filter_mset (hit (set ids) txn now) (mset rs))"
  using assms
proof (induction ids arbitrary: pg rs)
  case Nil
  then show ?case by (auto simp: delete_version_def hit_def)
next
  case (Cons t ids)
  have cas: "cascade_update upd cat def target vals p = Some p" for target vals p
    using Cons.prems(3) by (simp add: cascade_update_def)
  have idx: "insert_indexes def cat vals (filter P [1..<num_cols def]) p = Some p" for vals P p
    using Cons.prems(8) by (intro insert_indexes_none) auto
  have ids: "distinct ids" "t \<notin> set ids" using Cons.prems(7) by simp_all
  show ?case
  proof (rule find_version_leaf [OF Cons.prems(1,2), of t txn now])
    fix q assume q: "find_version def t txn now pg = Some (None, q)" "unseen pg q" "\<forall>r \<in> set rs. visible txn now r \<longrightarrow> row_id r \<noteq> t"
    have d: "image_mset (delete_version (set (t # ids)) txn now) (mset rs) = image_mset (delete_version (set ids) txn now) (mset rs)"
      using q(3) by (intro image_mset_cong) (auto simp: delete_version_def)
    have h: "filter_mset (hit (set (t # ids)) txn now) (mset rs) = filter_mset (hit (set ids) txn now) (mset rs)"
      using q(3) by (intro filter_mset_cong) (auto simp: hit_def)
    have "update_id upd expr cat def pairs txn now t pg = Some (None, q)" using q(1) by (simp add: update_id_def)
    moreover have "\<forall>r \<in> set rs. hit (set ids) txn now r \<longrightarrow> updatable expr def pairs txn L r" using Cons.prems(9) by (auto simp: hit_def)
    moreover have "has_room (view q (root_page_num def)) (length ids) L"
      using Cons.prems(10) q(2) by (simp add: has_room_def unseen_def slot_pos)
    ultimately show ?thesis
      using Cons.IH [OF version_leaf_unseen [OF Cons.prems(1) q(2)] Cons.prems(2-6) ids(1) Cons.prems(8)] unfolding d h by simp
  next
    fix c q k assume f: "find_version def t txn now pg = Some (Some (c, version_of (rs ! k)), q)" "unseen pg q"
      "on_cell def c k" "k < length rs" "visible txn now (rs ! k)" "row_id (rs ! k) = t"
    let ?r = "rs ! k" let ?s = "stamp_deleted txn ?r" and ?w = "new_version expr def pairs txn ?r"
    obtain vs e xmin xmax n where r: "?r = (vs, (e, xmin, xmax), n)" by (metis prod.exhaust)
    have x: "0 < xmin" "int_val (vs ! 0) = t" using bspec [OF Cons.prems(6) nth_mem [OF f(4)]] f(6) by (simp_all add: r)
    have u: "updatable expr def pairs txn L ?r" using Cons.prems(9) f(4-6) by (auto simp: hit_def)
    have vq: "view q = view pg" using f(2) by (simp add: unseen_def)
    obtain p ws ins p1 q1 rs1 where s: "restamp def c t (vs, e, xmin) txn q = Some p" "new_row expr def pairs vs = Some ws"
      "btree_find def (ws ! 0) p = Some (Some ins, p1)" "btree_insert_with_mvcc def ins ws e txn 0 p1 = Some q1"
      "version_leaf def q1 rs1" "has_room (view q1 (root_page_num def)) (length ids) L"
      "mset rs1 = add_mset ?w (add_mset ?s (mset rs - {#?r#}))"
      by (rule update_version [OF version_leaf_unseen [OF Cons.prems(1) f(2)] f(3,4) Cons.prems(2) r x u, of "length ids"])
        (use Cons.prems(10) vq in auto)
    define M where "M = mset rs - {#?r#}"
    have M: "mset rs = add_mset ?r M" using f(4) by (simp add: M_def)
    have rs1: "mset rs1 = add_mset ?w (add_mset ?s M)" using s(7) by (simp add: M_def)
    have vis: "\<not> visible txn now ?s" "visible txn now ?w" "row_id ?w = t" "created ?w = txn"
      using visible_stamp_deleted [OF Cons.prems(4)] visible_new_version [OF f(5)] new_version_parts [OF u Cons.prems(2)] f(6) by auto
    have other: "\<forall>y \<in># M. visible txn now y \<longrightarrow> row_id y \<noteq> t"
      using one_each_other [OF Cons.prems(5) [unfolded M] f(5)] f(6) by auto
    have one: "one_each (visible txn now) row_id (mset rs1)"
    proof -
      have "image_mset row_id (filter_mset (visible txn now) (mset rs1)) = image_mset row_id (filter_mset (visible txn now) (mset rs))"
        using vis f(5,6) by (simp add: rs1 M)
      then show ?thesis using Cons.prems(5) unfolding one_each_def by presburger
    qed
    have elem: "y = ?w \<or> y = ?s \<or> y \<in># M" if "y \<in> set rs1" for y
      using that unfolding set_mset_mset [symmetric] rs1 by simp
    have inM: "y \<in> set rs" if "y \<in># M" for y using that by (auto simp: M_def dest: in_diffD)
    have cr: "\<forall>y \<in> set rs1. 0 < created y"
    proof
      fix y assume "y \<in> set rs1"
      from elem [OF this] show "0 < created y"
      proof (elim disjE)
        assume "y = ?w" then show ?thesis using vis(4) Cons.prems(4) by (simp add: word_gt_0)
      next
        assume "y = ?s" then show ?thesis using bspec [OF Cons.prems(6) nth_mem [OF f(4)]] by (simp only: stamp_deleted_parts)
      next
        assume "y \<in># M" then show ?thesis using inM Cons.prems(6) by blast
      qed
    qed
    have up: "\<forall>y \<in> set rs1. hit (set ids) txn now y \<longrightarrow> updatable expr def pairs txn L y"
    proof (intro ballI impI)
      fix y assume y: "y \<in> set rs1" "hit (set ids) txn now y"
      from elem [OF y(1)] show "updatable expr def pairs txn L y"
      proof (elim disjE)
        assume "y = ?w" then show ?thesis using vis(3) ids(2) y(2) by (simp add: hit_def)
      next
        assume "y = ?s" then show ?thesis using vis(1) y(2) by (simp add: hit_def)
      next
        assume "y \<in># M" then show ?thesis using inM Cons.prems(9) y(2) by (auto simp: hit_def)
      qed
    qed
    obtain q' rs' where i: "fold_until (update_id upd expr cat def pairs txn now) ids q1 = Some (None, q')" "version_leaf def q' rs'"
      "mset rs' = image_mset (delete_version (set ids) txn now) (mset rs1) +
        image_mset (new_version expr def pairs txn) (filter_mset (hit (set ids) txn now) (mset rs1))"
      using Cons.IH [OF s(5) Cons.prems(2-4) one cr ids(1) Cons.prems(8) up s(6)] by blast
    have "update_id upd expr cat def pairs txn now t pg = Some (None, q1)"
      using f(1) s(1-4) cas idx by (simp add: update_id_def r version_of_def)
    moreover have "mset rs' = image_mset (delete_version (set (t # ids)) txn now) (mset rs) +
        image_mset (new_version expr def pairs txn) (filter_mset (hit (set (t # ids)) txn now) (mset rs))"
    proof -
      have "image_mset (delete_version (set ids) txn now) M = image_mset (delete_version (set (t # ids)) txn now) M"
        using other by (intro image_mset_cong) (auto simp: delete_version_def)
      moreover have "filter_mset (hit (set ids) txn now) M = filter_mset (hit (set (t # ids)) txn now) M"
        using other by (intro filter_mset_cong) (auto simp: hit_def)
      ultimately show ?thesis
        using vis f(5,6) ids(2) by (simp add: i(3) rs1 M delete_version_def hit_def)
    qed
    ultimately show ?thesis using i(1,2) by auto
  qed
qed


section \<open>Assignments to a FLOAT column\<close>

lemma serialize_cols_cong:
  assumes "length vs = length ws" "\<forall>i < length ws. i < length cs \<longrightarrow> serialize_col (cs ! i) (vs ! i) = serialize_col (cs ! i) (ws ! i)"
  shows "serialize_cols cs vs hb = serialize_cols cs ws hb"
  using assms
proof (induction vs ws arbitrary: cs hb rule: list_induct2)
  case (Cons v vs w ws)
  show ?case
  proof (cases cs)
    case (Cons c cs')
    have "serialize_col c v = serialize_col c w" using Cons.prems Cons by fastforce
    moreover have "\<forall>i < length ws. i < length cs' \<longrightarrow> serialize_col (cs' ! i) (vs ! i) = serialize_col (cs' ! i) (ws ! i)"
      using Cons.prems Cons by fastforce
    ultimately show ?thesis using Cons.IH Cons by (cases hb) (simp split: prod.split)
  qed simp
qed simp

text \<open>The record of a value stays what it was: this is what an assignment to a FLOAT column keeps.\<close>

definition same_record :: "TableDef \<Rightarrow> Value list \<Rightarrow> Value list \<Rightarrow> bool" where
  "same_record def olds vals \<longleftrightarrow> length vals = length olds \<and>
     (\<forall>i < length olds. i < num_cols def \<longrightarrow> serialize_col (columns def ! i) (vals ! i) = serialize_col (columns def ! i) (olds ! i) \<and>
        is_null (vals ! i) = is_null (olds ! i) \<and> double_val (vals ! i) = double_val (olds ! i))"

lemma serialize_col_copy:
  assumes "value_wf v"
  shows "serialize_col c (value_copy value_init v) = serialize_col c v"
  using assms by (cases "text_val v"; cases "col_type c")
    (auto simp: value_wf_def value_copy_def value_set_text_len_def serialize_col_def serial_text_len_def Let_def)

lemma value_copy_parts: "is_null (value_copy d v) = is_null v" "double_val (value_copy d v) = double_val v"
  by (simp_all add: value_copy_def value_set_text_len_def Let_def)

lemma set_pair_float:
  assumes "same_record def olds vals" "set_pair expr def olds pair vals = Some ws" "\<not> set_null pair"
    and "\<And>i. find_column strcmp (set_col pair) (columns def) = Some i \<Longrightarrow>
      col_type (columns def ! i) = COL_FLOAT \<and> \<not> is_null (olds ! i) \<and> \<not> f64_is_zero (double_val (olds ! i))"
  shows "same_record def olds ws"
proof -
  obtain i raw where i: "find_column strcmp (set_col pair) (columns def) = Some i"
    "ws = vals[i := set_value COL_FLOAT raw (vals ! i)]"
    using assms(2,3,4) by (auto simp: set_pair_def Let_def split: option.splits)
  have c: "col_type (columns def ! i) = COL_FLOAT" "\<not> is_null (olds ! i)" "\<not> f64_is_zero (double_val (olds ! i))"
    using assms(4) [OF i(1)] by simp_all
  show ?thesis
  proof (cases "i < length olds \<and> i < num_cols def")
    case True
    then have r: "is_null (vals ! i) = is_null (olds ! i)" "double_val (vals ! i) = double_val (olds ! i)"
      using assms(1) by (simp_all add: same_record_def)
    have "serialize_col (columns def ! i) (set_value COL_FLOAT raw (vals ! i)) = serialize_col (columns def ! i) (olds ! i)"
      using c r by (simp add: serialize_col_def set_value_def Let_def)
    moreover have "is_null (set_value COL_FLOAT raw (vals ! i)) = is_null (olds ! i)"
      "double_val (set_value COL_FLOAT raw (vals ! i)) = double_val (olds ! i)"
      using c(2) r by (simp_all add: set_value_def Let_def)
    ultimately have n: "\<forall>j < length olds. j < num_cols def \<longrightarrow>
        serialize_col (columns def ! j) (ws ! j) = serialize_col (columns def ! j) (olds ! j) \<and>
        is_null (ws ! j) = is_null (olds ! j) \<and> double_val (ws ! j) = double_val (olds ! j)"
      using assms(1) True unfolding i(2) same_record_def by (metis nth_list_update)
    then show ?thesis using assms(1) by (simp add: same_record_def i(2))
  next
    case False
    then show ?thesis using assms(1) unfolding i(2) same_record_def by (auto simp: nth_list_update)
  qed
qed

text \<open>
  An assignment to a FLOAT column is lost.  A FLOAT that was read from a record has its number in \<open>float_val\<close> and in
  \<open>double_val\<close>; UPDATE sets the first, and the record is written from the second where that is not zero.  So the new
  version of a row whose assigned columns are FLOATs other than zero has the bytes of the old values, whatever was
  assigned.
\<close>

theorem float_update_lost:
  assumes "new_row expr def pairs olds = Some vals"
    and "\<And>pair. pair \<in> set pairs \<Longrightarrow> \<not> set_null pair"
    and "\<And>pair i. pair \<in> set pairs \<Longrightarrow> find_column strcmp (set_col pair) (columns def) = Some i \<Longrightarrow>
      col_type (columns def ! i) = COL_FLOAT \<and> \<not> is_null (olds ! i) \<and> \<not> f64_is_zero (double_val (olds ! i))"
    and "\<forall>v \<in> set olds. value_wf v"
  shows "serialize_row_with_mvcc def vals e xmin xmax = serialize_row_with_mvcc def olds e xmin xmax"
proof -
  have "same_record def olds (map (value_copy value_init) olds)"
    using assms(4) by (simp add: same_record_def serialize_col_copy value_copy_parts)
  moreover have "same_record def olds vals" if "fold_opt (set_pair expr def olds) pairs us = Some vals" "same_record def olds us" for us
    using that assms(2,3)
  proof (induction pairs arbitrary: us)
    case (Cons p pairs)
    then obtain ws where ws: "set_pair expr def olds p us = Some ws" "fold_opt (set_pair expr def olds) pairs ws = Some vals"
      by (auto split: bind_splits)
    have "same_record def olds ws" by (rule set_pair_float [OF Cons.prems(2) ws(1)]) (use Cons.prems(3,4) in auto)
    then show ?case by (rule Cons.IH [OF ws(2)]) (use Cons.prems(3,4) in auto)
  qed simp
  ultimately have "same_record def olds vals" using assms(1) by (simp add: new_row_def)
  then have "serialize_cols (columns def) vals ([], []) = serialize_cols (columns def) olds ([], [])"
    by (intro serialize_cols_cong) (simp_all add: same_record_def)
  then show ?thesis by (simp add: serialize_row_with_mvcc_def)
qed

end
