(* ===== verification/Modify_Sample.thy ===== *)
theory Modify_Sample
  imports Modify_Rows
begin

text \<open>
  DELETE and UPDATE at a concrete store: a table with two named integer columns and the rows (2, 7) and (5, 8),
  both written by transaction 1.
\<close>

definition pair_table :: TableDef where
  "pair_table = (plain_table [])\<lparr>tbl_name := [116], root_page_num := 1,
     columns := [(plain_column COL_INT)\<lparr>col_name := [97]\<rparr>, (plain_column COL_INT)\<lparr>col_name := [98]\<rparr>]\<rparr>"

definition pair_row :: "nat \<Rightarrow> nat \<Rightarrow> Value list" where
  "pair_row x y = [value_init\<lparr>int_val := of_nat x\<rparr>, value_init\<lparr>int_val := of_nat y\<rparr>]"

definition pair_cell :: "nat \<Rightarrow> nat \<Rightarrow> byte list" where
  "pair_cell x y = [5, 1, 1, 14, 15, of_nat x, of_nat y] @ le_bytes 8 1 @ le_bytes 8 0"

definition pair_version :: "nat \<Rightarrow> nat \<Rightarrow> stored" where
  "pair_version x y = (pair_row x y, (0, 1, 0), 23)"

definition pair_leaf :: buf where
  "pair_leaf = populate_leaf [pair_cell 2 7, pair_cell 5 8] (set_next_leaf 0 (set_node_root (initialize_leaf_node zero_buf) True))"

definition pairs_pager :: Pager where
  "pairs_pager = sample_pager [1 \<mapsto> pair_leaf]"

lemma pair_table_simps [simp]:
  "num_cols pair_table = 2" "root_page_num pair_table = 1" "tbl_name pair_table = [116]" "\<not> with_history pair_table"
  "columns pair_table = [(plain_column COL_INT)\<lparr>col_name := [97]\<rparr>, (plain_column COL_INT)\<lparr>col_name := [98]\<rparr>]"
  by (simp_all add: pair_table_def plain_table_def)

lemma serialize_pair:
  assumes "1 < x" "x < 128" "1 < y" "y < 128"
  shows "serialize_row_with_mvcc pair_table (pair_row x y) 0 1 0 = Some (pair_cell x y)"
proof -
  have p: "put_varint 5 = [5]" "put_varint 14 = [14]" "put_varint 15 = [15]"
    by (subst put_varint.simps; simp add: word_le_nat_alt)+
  have u: "unat (of_nat z :: 32 word) = z" if "z < 128" for z using that by (simp add: unat_of_nat)
  have h: "header_size_loop (Suc (Suc (Suc (Suc 0)))) (Suc (Suc (Suc (Suc (Suc 0))))) = Some 5"
    by (subst header_size_loop.simps) (simp add: p(1))
  show ?thesis
    using assms sint_small [of x] sint_small [of y] u [of x] u [of y]
    by (simp add: serialize_row_with_mvcc_def serialize_col_def hdr_add_def serialize_stamps_def plain_column_def
        value_init_def put_varint_small pair_row_def pair_cell_def p h Let_def)
qed

lemma pair_row_ok: "row_ok pair_table (pair_row x y)"
  by (simp add: row_ok_def pair_row_def value_wf_def value_init_def key_consistent_def value_ordered_def plain_column_def)

lemma pair_version_cell:
  assumes "1 < x" "x < 128" "1 < y" "y < 128"
  shows "version_cell pair_table (pair_cell x y) (pair_version x y)"
  using serialize_pair [OF assms] pair_row_ok [of x y]
  by (simp add: version_cell_def pair_version_def pair_row_def canon_def value_init_def plain_column_def) (simp add: pair_cell_def)

lemma pairs_leaf:
  "version_leaf pair_table pairs_pager [pair_version 2 7, pair_version 5 8]" "cells (view pairs_pager 1) = [pair_cell 2 7, pair_cell 5 8]"
proof -
  let ?b = "set_next_leaf 0 (set_node_root (initialize_leaf_node zero_buf) True)" and ?cs = "[pair_cell 2 7, pair_cell 5 8]"
  have n: "length (pair_cell x y) = 23" for x y by (simp add: pair_cell_def)
  have f: "leaf_node_slot (length ?cs) + sum_list (map length ?cs) \<le> PAGE_SIZE" by (simp add: slot_pos n)
  note p = populate_leaf_ok [OF f fresh_leaf(1) [of 0 True], folded pair_leaf_def]
  have ok: "\<forall>(n::nat) b. [1 \<mapsto> pair_leaf] n = Some b \<longrightarrow> page_ok b \<and> n < 4" using leaf_okD(1) [OF p(2)] by simp
  have w: "writing pairs_pager" and v: "view pairs_pager 1 = pair_leaf"
    unfolding pairs_pager_def by (rule sample_writing [OF ok]; simp)+
  have l: "get_node_type pair_leaf = NODE_LEAF" "leaf_node_next_leaf pair_leaf = 0" "is_node_root pair_leaf"
    using p(3) fresh_leaf(2-4) [of 0 True] by (simp_all add: same_links_def)
  have c: "list_all2 (version_cell pair_table) ?cs [pair_version 2 7, pair_version 5 8]"
    using pair_version_cell by simp
  then have rows: "leaf_rows pair_table pair_leaf [pair_row 2 7, pair_row 5 8]"
    by (auto simp: leaf_rows_def p(1) version_cell_def pair_version_def cell_row_def)
  have "row_key pair_table (pair_row x y) = key_pad (le_bytes 4 x)" if "x < 128" for x y
    using that by (simp add: pair_row_def serialize_col0_key_def unat_of_nat plain_column_def)
  then have "single_leaf pair_table pairs_pager [pair_row 2 7, pair_row 5 8]"
    using w l p(2) rows compare_int_keys(1) [of 2 5]
    by (simp add: single_leaf_def v v [unfolded One_nat_def] plain_column_def Let_def) (simp add: pairs_pager_def)
  then show "version_leaf pair_table pairs_pager [pair_version 2 7, pair_version 5 8]"
    using c l(3) p(1) by (simp add: version_leaf_def v v [unfolded One_nat_def] pair_version_def)
  show "cells (view pairs_pager 1) = ?cs" by (simp only: v p(1))
qed

lemmas pairs_stored = pairs_leaf(1)

definition pair_catalog :: Catalog where
  "pair_catalog = \<lparr>tables = [pair_table], num_views = 0, views = [], num_triggers = 0, triggers = []\<rparr>"

text \<open>\<open>WHERE b = 7\<close>\<close>

abbreviation where_b7 :: WhereClause where
  "where_b7 \<equiv> \<lparr>has_where = True, conds = [(plain_cond OP_EQ [55])\<lparr>cond_col := [98]\<rparr>], logic_ops = []\<rparr>"

lemma pair_catalog_stored:
  "catalog_stored pair_catalog (view pairs_pager) (reserved_catalog_pages pairs_pager) (\<lambda>_. 0)
     (\<lambda>_. [pair_version 2 7, pair_version 5 8])"
  using version_leaf_stores [OF pairs_stored]
  by (auto simp: catalog_stored_def pair_catalog_def catalog_find_def find_named_def find_Some_iff)

lemma pairs_pager_stamp: "txn_stamp pairs_pager = 1" "\<not> auto_vacuum pairs_pager"
  by (simp_all add: txn_stamp_def pairs_pager_def sample_pager_def begun_pager_def fresh_pager_def)

lemma atoi_digit: "atoi [55] = 7" "atoi [57] = 9"
  by code_simp+

lemma pair_affected:
  assumes "1 < y" "y < 128"
  shows "affected R pair_table cat where_b7 1 now (pair_version x y) \<longleftrightarrow> y = 7"
proof -
  have "sint (of_nat y :: 32 word) = int y" by (rule sint_small [OF assms(2)])
  then show ?thesis
    using atoi_digit(1) by (simp add: affected_def visible_def pair_version_def where_meaning_def cond_meaning_def plain_cond_def
        find_cond_column_def find_column_def plain_column_def strcasecmp_def to_lower_def cond_holds_def where_compare_def filter_value_def
        i32_cmp_sint pair_row_def value_init_def Let_def)
qed

lemma pairs_single: "single_versions 1 now [pair_version 2 7, pair_version 5 8]"
  by (simp add: single_versions_def pair_version_def visible_def pair_row_def value_init_def)

lemma pairs_no_references: "no_references pair_catalog" "\<not> fires pair_catalog pair_table ev"
  by (simp_all add: no_references_def fires_def pair_catalog_def plain_column_def)


text \<open>\<open>UPDATE t SET b = 9 WHERE b = 7\<close>\<close>

abbreviation set_b9 :: "SetPair list" where
  "set_b9 \<equiv> [\<lparr>set_col = [98], set_null = False, set_val = [57]\<rparr>]"

lemma pair_new_row: "new_row (\<lambda>_ _ _. []) pair_table set_b9 (pair_row x y) = Some (pair_row x 9)"
  using atoi_digit(2)
  by (simp add: new_row_def set_pair_def find_column_def plain_column_def pair_row_def set_value_def value_copy_def
      value_init_def value_set_text_len_def Let_def)

lemma pair_new_version:
  assumes "1 < x" "x < 128"
  shows "new_version (\<lambda>_ _ _. []) pair_table set_b9 1 (pair_version x y) = pair_version x 9"
    "updatable (\<lambda>_ _ _. []) pair_table set_b9 1 23 (pair_version x y)"
proof -
  note s = serialize_pair [OF assms, of 9, simplified]
  have n: "length (pair_cell x 9) = 23" by (simp add: pair_cell_def)
  have "map2 canon (columns pair_table) (pair_row x 9) = pair_row x 9"
    by (simp add: pair_row_def canon_def value_init_def plain_column_def)
  then show "new_version (\<lambda>_ _ _. []) pair_table set_b9 1 (pair_version x y) = pair_version x 9"
    using s n by (simp add: new_version_def pair_version_def pair_new_row del: pair_table_simps)
  show "updatable (\<lambda>_ _ _. []) pair_table set_b9 1 23 (pair_version x y)"
    using s n pair_row_ok by (simp add: updatable_def pair_version_def pair_new_row del: pair_table_simps) (simp add: pair_row_def)
qed


text \<open>\<open>UPDATE t SET f = 2\<close> on a row with \<open>f = 1.5\<close>.\<close>

definition float_table :: TableDef where
  "float_table = (plain_table [COL_INT, COL_FLOAT])\<lparr>columns := [(plain_column COL_INT)\<lparr>col_name := [97]\<rparr>, (plain_column COL_FLOAT)\<lparr>col_name := [102]\<rparr>]\<rparr>"

definition float_row :: "f32 \<Rightarrow> Value list" where
  "float_row f = [value_init\<lparr>int_val := 2\<rparr>, value_init\<lparr>float_val := f, double_val := 0x3FF8000000000000\<rparr>]"

theorem float_update_lost_witness:
  "\<exists>vals. new_row (\<lambda>_ _ _. []) float_table [\<lparr>set_col = [102], set_null = False, set_val = [50]\<rparr>] (float_row 0x3FC00000) = Some vals \<and>
    vals = float_row (f32_of_f64 (atof [50])) \<and>
    serialize_row_with_mvcc float_table vals 0 1 0 = serialize_row_with_mvcc float_table (float_row 0x3FC00000) 0 1 0"
proof -
  let ?pairs = "[\<lparr>set_col = [102], set_null = False, set_val = [50]\<rparr>]" and ?vals = "float_row (f32_of_f64 (atof [50]))"
  have f: "find_column strcmp [102] (columns float_table) = Some 1"
    by (simp add: find_column_def float_table_def plain_column_def)
  have n: "new_row (\<lambda>_ _ _. []) float_table ?pairs (float_row 0x3FC00000) = Some ?vals"
    using f by (simp add: new_row_def set_pair_def float_row_def set_value_def value_copy_def value_init_def Let_def)
      (simp add: float_table_def plain_column_def)
  have "serialize_row_with_mvcc float_table ?vals 0 1 0 = serialize_row_with_mvcc float_table (float_row 0x3FC00000) 0 1 0"
  proof (rule float_update_lost [OF n])
    show "\<forall>v \<in> set (float_row 0x3FC00000). value_wf v" by (simp add: float_row_def value_wf_def value_init_def)
  qed (use f in \<open>auto simp: float_table_def float_row_def f64_is_zero_def f64_mag_def plain_column_def value_init_def\<close>)
  with n show ?thesis by blast
qed

end
