(* ===== verification/Parser_Tokens.thy ===== *)
theory Parser_Tokens
  imports Cstdlib Values
begin

text \<open>
  The tokens of the SQL parser (\<open>src/parser.c\<close>): keywords, identifiers, literals and the expressions of
  ORDER BY.  A position in the input is the rest of the string, without the terminator; reading at its end gives the
  terminator.  Every parser returns what it read and the position behind it.
\<close>

section \<open>Characters and keywords\<close>

definition char_at :: "cstr \<Rightarrow> nat \<Rightarrow> byte" where
  "char_at p k = (if k < length p then p ! k else 0)"

definition is_alnum :: "byte \<Rightarrow> bool" where
  "is_alnum c \<longleftrightarrow> is_digit c \<or> (65 \<le> c \<and> c \<le> 90) \<or> (97 \<le> c \<and> c \<le> 122)"

definition is_quote :: "byte \<Rightarrow> bool" where
  "is_quote c \<longleftrightarrow> c = 39 \<or> c = 34"

definition skip_whitespace :: "cstr \<Rightarrow> cstr" where
  "skip_whitespace p = dropWhile is_space p"

text \<open>\<open>strncasecmp(p, s, strlen(s)) == 0\<close> for a literal \<open>s\<close>, and the same with a test of the character behind.\<close>

definition starts :: "string \<Rightarrow> cstr \<Rightarrow> bool" where
  "starts s p \<longleftrightarrow> strcasecmp (take (length s) p) (str_bytes s) = 0"

definition starts_word :: "(byte \<Rightarrow> bool) \<Rightarrow> string \<Rightarrow> cstr \<Rightarrow> bool" where
  "starts_word P s p \<longleftrightarrow> starts s p \<and> P (char_at p (length s))"

text \<open>\<open>if (*p == c) p++;\<close>\<close>

definition skip_char :: "byte \<Rightarrow> cstr \<Rightarrow> cstr" where
  "skip_char c p = (if char_at p 0 = c then tl p else p)"

definition collation_name :: "cstr \<Rightarrow> CollationType option \<times> cstr" where
  "collation_name p =
     (if starts ''nocase'' p then (Some COLL_NOCASE, drop 6 p)
      else if starts ''rtrim'' p then (Some COLL_RTRIM, drop 5 p)
      else if starts ''binary'' p then (Some COLL_BINARY, drop 6 p)
      else (None, p))"

section \<open>Identifiers\<close>

definition ident_char :: "byte \<Rightarrow> bool" where
  "ident_char c \<longleftrightarrow> is_alnum c \<or> c = 95 \<or> c = 46"

definition parse_identifier :: "nat \<Rightarrow> cstr \<Rightarrow> cstr \<times> cstr" where
  "parse_identifier max_len p =
     (let p = skip_whitespace p in (take (max_len - 1) (takeWhile ident_char p), dropWhile ident_char p))"

section \<open>Literals\<close>

text \<open>
  The first phase finds the end of the token: \<open>x'..'\<close>, a quoted string in which the quote is doubled, a vector in
  brackets, or anything up to a delimiter.
\<close>

definition is_hex :: "cstr \<Rightarrow> bool" where
  "is_hex p \<longleftrightarrow> (char_at p 0 = 120 \<or> char_at p 0 = 88) \<and> is_quote (char_at p 1)"

fun scan_quoted :: "byte \<Rightarrow> cstr \<Rightarrow> cstr" where
  "scan_quoted q [] = []"
| "scan_quoted q (c # cs) =
     (if c = q then (if char_at cs 0 = q then scan_quoted q (tl cs) else cs) else scan_quoted q cs)"

fun scan_bracket :: "int \<Rightarrow> cstr \<Rightarrow> cstr" where
  "scan_bracket depth [] = []"
| "scan_bracket depth (c # cs) =
     (if c = 91 then scan_bracket (depth + 1) cs
      else if c = 93 then (if depth - 1 \<le> 0 then cs else scan_bracket (depth - 1) cs)
      else scan_bracket depth cs)"

definition plain_char :: "byte \<Rightarrow> bool" where
  "plain_char c \<longleftrightarrow> \<not> is_space c \<and> c \<noteq> 44 \<and> c \<noteq> 41 \<and> c \<noteq> 61 \<and> c \<noteq> 59"

definition scan_token :: "cstr \<Rightarrow> cstr" where
  "scan_token p =
     (if is_hex p then tl (dropWhile (\<lambda>c. c \<noteq> char_at p 1) (drop 2 p))
      else if is_quote (char_at p 0) then scan_quoted (char_at p 0) (tl p)
      else if char_at p 0 = 91 then scan_bracket 0 p
      else dropWhile plain_char p)"

text \<open>The second phase copies the token; only a quoted string changes.\<close>

fun unescape :: "byte \<Rightarrow> cstr \<Rightarrow> cstr" where
  "unescape q [] = []"
| "unescape q (c # cs) =
     (if c = q then (if cs \<noteq> [] \<and> hd cs = q then q # unescape q (tl cs) else []) else c # unescape q cs)"

definition copy_token :: "cstr \<Rightarrow> cstr" where
  "copy_token span = (if is_quote (char_at span 0) then unescape (char_at span 0) (tl span) else span)"

record Token =
  tok_text :: cstr
  tok_dyn :: "cstr option"
  tok_null :: bool
  tok_quoted :: bool

text \<open>\<open>want_dyn\<close>: the caller takes a heap string for a token that is too long for the array.\<close>

definition parse_value_token_alloc :: "bool \<Rightarrow> nat \<Rightarrow> cstr \<Rightarrow> Token \<times> cstr" where
  "parse_value_token_alloc want_dyn max_len p =
     (let p = skip_whitespace p;
          rest = scan_token p;
          span = take (length p - length rest) p;
          dyn = (want_dyn \<and> length span \<ge> max_len - 1);
          target_cap = (if dyn then length span + 1 else max_len);
          target = take (target_cap - 1) (copy_token span);
          was_quoted = (is_hex p \<or> is_quote (char_at p 0))
      in (\<lparr>tok_text = take (max_len - 1) target, tok_dyn = (if dyn then Some target else None),
           tok_null = (\<not> was_quoted \<and> length target = 4 \<and> strcasecmp target (str_bytes ''null'') = 0),
           tok_quoted = was_quoted\<rparr>, rest))"

definition parse_value_token :: "nat \<Rightarrow> cstr \<Rightarrow> cstr \<times> cstr" where
  "parse_value_token max_len p = (case parse_value_token_alloc False max_len p of (t, p) \<Rightarrow> (tok_text t, p))"

section \<open>ORDER BY expressions\<close>

definition ends_item :: "byte \<Rightarrow> bool" where
  "ends_item c \<longleftrightarrow> is_space c \<or> c = 44 \<or> c = 59 \<or> c = 0"

definition space_or_end :: "byte \<Rightarrow> bool" where
  "space_or_end c \<longleftrightarrow> is_space c \<or> c = 0"

text \<open>The tests at a blank outside quotes and parentheses.\<close>

definition order_keyword :: "cstr \<Rightarrow> bool" where
  "order_keyword la \<longleftrightarrow> starts_word ends_item ''asc'' la \<or> starts_word ends_item ''desc'' la \<or>
     starts_word space_or_end ''collate'' la \<or> starts_word space_or_end ''limit'' la \<or> starts_word space_or_end ''offset'' la"

fun order_scan :: "bool \<Rightarrow> bool \<Rightarrow> nat \<Rightarrow> nat \<Rightarrow> cstr \<Rightarrow> cstr" where
  "order_scan single dbl paren bracket [] = []"
| "order_scan single dbl paren bracket (c # cs) =
     (if single then order_scan (c \<noteq> 39) dbl paren bracket cs
      else if dbl then order_scan single (c \<noteq> 34) paren bracket cs
      else if c = 39 then order_scan True dbl paren bracket cs
      else if c = 34 then order_scan single True paren bracket cs
      else if c = 40 then order_scan single dbl (paren + 1) bracket cs
      else if c = 41 then order_scan single dbl (paren - 1) bracket cs
      else if c = 91 then order_scan single dbl paren (bracket + 1) cs
      else if c = 93 then order_scan single dbl paren (bracket - 1) cs
      else if paren = 0 \<and> bracket = 0 \<and>
        (c = 44 \<or> c = 59 \<or> is_space c \<and> order_keyword (skip_whitespace (c # cs))) then c # cs
      else order_scan single dbl paren bracket cs)"

text \<open>The array, the heap string of an expression that is too long for it, and the rest.\<close>

definition parse_order_by_expr_alloc :: "nat \<Rightarrow> cstr \<Rightarrow> cstr \<times> cstr option \<times> cstr" where
  "parse_order_by_expr_alloc max_len p =
     (let p = skip_whitespace p;
          rest = order_scan False False 0 0 p;
          expr = rev (dropWhile is_space (rev (take (length p - length rest) p)))
      in (take (max_len - 1) expr, if length expr < max_len - 1 then None else Some expr, rest))"

section \<open>Reading back a quoted literal\<close>

definition escape_quotes :: "cstr \<Rightarrow> cstr" where
  "escape_quotes s = concat (map (\<lambda>c. if c = 39 then [39, 39] else [c]) s)"

definition quote_text :: "cstr \<Rightarrow> cstr" where
  "quote_text s = 39 # escape_quotes s @ [39]"

lemma char_at_simps [simp]:
  "char_at [] k = 0" "char_at (c # cs) 0 = c" "char_at (c # cs) (Suc k) = char_at cs k" "char_at (c # cs) (numeral n) = char_at cs (pred_numeral n)"
  by (simp_all add: char_at_def numeral_eq_Suc)

lemma escape_simps [simp]:
  "escape_quotes [] = []" "escape_quotes (c # cs) = (if c = 39 then [39, 39] else [c]) @ escape_quotes cs"
  by (simp_all add: escape_quotes_def)

lemma scan_escaped: "char_at r 0 \<noteq> 39 \<Longrightarrow> scan_quoted 39 (escape_quotes s @ 39 # r) = r"
  by (induction s) simp_all

lemma unescape_escaped: "unescape 39 (escape_quotes s @ [39]) = s"
  by (induction s) simp_all

lemma skip_whitespace_quote [simp]: "skip_whitespace (39 # s) = 39 # s"
  by (simp add: skip_whitespace_def is_space_def)

lemma value_token_read:
  assumes "char_at r 0 \<noteq> 39"
  shows "parse_value_token_alloc want_dyn max_len (quote_text s @ r) =
    (\<lparr>tok_text = take (max_len - 1) s, tok_dyn = (if want_dyn \<and> length (quote_text s) \<ge> max_len - 1 then Some s else None),
      tok_null = False, tok_quoted = True\<rparr>, r)"
proof -
  let ?p = "quote_text s @ r"
  have p: "?p = 39 # escape_quotes s @ 39 # r" by (simp add: quote_text_def)
  have rest: "scan_token ?p = r" using scan_escaped [OF assms] by (simp add: p scan_token_def is_hex_def is_quote_def)
  have span: "take (length ?p - length r) ?p = quote_text s" by simp
  have copy: "copy_token (quote_text s) = s" by (simp add: quote_text_def copy_token_def is_quote_def unescape_escaped)
  have len: "length s \<le> length (quote_text s)"
  proof -
    have "length s \<le> length (escape_quotes s)" by (induction s) simp_all
    then show ?thesis by (simp add: quote_text_def)
  qed
  have q: "is_quote (char_at ?p 0)" "\<not> is_hex ?p" "skip_whitespace ?p = ?p" by (simp_all add: p is_quote_def is_hex_def)
  show ?thesis unfolding parse_value_token_alloc_def Let_def q(3) rest span copy using q(1,2) len by simp
qed

text \<open>
  A string literal round trip: whatever bytes a string has, quoted with its quotes doubled and followed by something that is
  no quote, it is read back, up to the size of the array; a caller that takes a heap string gets all of it.
\<close>

theorem value_token_roundtrip:
  assumes "char_at r 0 \<noteq> 39"
  shows "parse_value_token_alloc want_dyn max_len (quote_text s @ r) =
    (\<lparr>tok_text = take (max_len - 1) s, tok_dyn = (if want_dyn \<and> length (quote_text s) \<ge> max_len - 1 then Some s else None),
      tok_null = False, tok_quoted = True\<rparr>, r)"
  by (rule value_token_read [OF assms])

end
