(* ===== verification/Parser_Where.thy ===== *)
theory Parser_Where
  imports Parser_Tokens Where
begin

text \<open>
  Parsing a WHERE clause (\<open>src/parser.c\<close>, \<open>parse_where_clause\<close>).  The inner \<open>None\<close> is the NULL that the parser
  returns for a clause it rejects; the outer \<open>None\<close> is a string that overruns its array.
\<close>

section \<open>One condition\<close>

text \<open>\<open>COL_NAME_SIZE\<close>, \<open>TBL_NAME_SIZE\<close> and \<open>MAX_RAW_VAL\<close> are 32, 64 and 4096.\<close>

definition zero_cond :: SingleCond where
  "zero_cond = \<lparr>cond_col = [], cond_op = OP_EQ, raw_val = [], raw_val2 = [], is_subquery = False, sub_table = [], sub_col = [],
     sub_where_col = [], sub_where_op = OP_EQ, sub_where_val = [], has_sub_where = False, is_exists = False, is_not_exists = False,
     sub_where_is_correlated = False, sub_correlated_outer_col = [], cond_collation = COLL_NOT_SET\<rparr>"

definition parse_cmp :: "cstr \<Rightarrow> (CompOp \<times> cstr) option" where
  "parse_cmp p =
     (if strncmp p (str_bytes ''>='') 2 = 0 then Some (OP_GTE, drop 2 p)
      else if strncmp p (str_bytes ''<='') 2 = 0 then Some (OP_LTE, drop 2 p)
      else if char_at p 0 = 62 then Some (OP_GT, tl p)
      else if char_at p 0 = 60 then Some (OP_LT, tl p)
      else if char_at p 0 = 61 then Some (OP_EQ, tl p)
      else None)"

text \<open>The operator of a subquery's filter stays \<open>OP_EQ\<close> when there is none.\<close>

definition parse_sub_op :: "cstr \<Rightarrow> CompOp \<times> cstr" where
  "parse_sub_op p = (case parse_cmp p of None \<Rightarrow> (OP_EQ, p) | Some r \<Rightarrow> r)"

definition strip_qualifier :: "cstr \<Rightarrow> cstr" where
  "strip_qualifier s = (case after_dot s of None \<Rightarrow> s | Some t \<Rightarrow> t)"

text \<open>\<open>WHERE col op value\<close> inside \<open>EXISTS (...)\<close>; \<open>sub_where_val\<close> has 64 bytes.\<close>

definition parse_exists_filter :: "SingleCond \<Rightarrow> cstr \<Rightarrow> (SingleCond \<times> cstr) option" where
  "parse_exists_filter cond p =
     (let (left_tok, p) = parse_identifier 32 p;
          (opr, p) = parse_sub_op (skip_whitespace p);
          (right_tok, p) = parse_identifier 4096 (skip_whitespace p);
          cond = cond\<lparr>has_sub_where := True, sub_where_col := strip_qualifier left_tok, sub_where_op := opr\<rparr>
      in case after_dot right_tok of
           Some t \<Rightarrow> Some (cond\<lparr>sub_where_is_correlated := True, sub_correlated_outer_col := take 31 t\<rparr>, p)
         | None \<Rightarrow> if length right_tok < 64 then Some (cond\<lparr>sub_where_val := right_tok\<rparr>, p) else None)"

definition parse_from :: "cstr \<Rightarrow> cstr \<times> cstr" where
  "parse_from p = (if starts ''from'' p then parse_identifier 64 (skip_whitespace (drop 4 p)) else ([], p))"

definition parse_exists :: "SingleCond \<Rightarrow> cstr \<Rightarrow> (SingleCond \<times> cstr) option" where
  "parse_exists cond p =
     (let p = skip_whitespace (skip_char 40 (skip_whitespace p))
      in if \<not> starts ''select'' p then Some (cond, p)
         else (let p = skip_whitespace (drop 6 p);
                   p = (if is_digit (char_at p 0) then dropWhile (\<lambda>c. \<not> is_space c) p else snd (parse_identifier 32 p));
                   (tbl, p) = parse_from (skip_whitespace p);
                   cond = cond\<lparr>sub_table := tbl\<rparr>;
                   p = skip_whitespace p
               in do {
                 (cond, p) \<leftarrow> if starts ''where'' p then parse_exists_filter cond (drop 5 p) else Some (cond, p);
                 Some (cond, skip_char 41 (skip_whitespace p)) }))"

text \<open>What follows IN: a subquery, or the first value (read by the caller).\<close>

definition parse_in :: "SingleCond \<Rightarrow> cstr \<Rightarrow> SingleCond \<times> cstr" where
  "parse_in cond p =
     (let p = skip_whitespace (skip_char 40 (skip_whitespace p))
      in if \<not> starts ''select'' p then (cond, p)
         else (let (scol, p) = parse_identifier 32 (skip_whitespace (drop 6 p));
                   (tbl, p) = parse_from (skip_whitespace p);
                   cond = cond\<lparr>is_subquery := True, sub_col := scol, sub_table := tbl\<rparr>;
                   p = skip_whitespace p;
                   (cond, p) =
                     (if starts ''where'' p
                      then (let (col, p) = parse_identifier 32 (drop 5 p);
                                (opr, p) = parse_sub_op (skip_whitespace p);
                                (val, p) = parse_value_token 64 p
                            in (cond\<lparr>has_sub_where := True, sub_where_col := col, sub_where_op := opr, sub_where_val := val\<rparr>, p))
                      else (cond, p))
               in (cond, skip_char 41 (skip_whitespace p))))"

definition ends_test :: "byte \<Rightarrow> bool" where
  "ends_test c \<longleftrightarrow> is_space c \<or> c = 0 \<or> c = 41 \<or> c = 59"

definition before_text :: "byte \<Rightarrow> bool" where
  "before_text c \<longleftrightarrow> is_space c \<or> is_quote c"

definition parse_between :: "SingleCond \<Rightarrow> cstr \<Rightarrow> (SingleCond \<times> cstr) option" where
  "parse_between cond p =
     (let (low, p) = parse_value_token 4096 p;
          p = skip_whitespace p
      in if \<not> starts ''and'' p then None
         else (let (high, p) = parse_value_token 4096 (drop 3 p) in Some (cond\<lparr>raw_val := low, raw_val2 := high\<rparr>, p)))"

definition parse_operator :: "SingleCond \<Rightarrow> cstr \<Rightarrow> (SingleCond \<times> cstr) option" where
  "parse_operator cond p =
     (case parse_cmp p of
        Some (opr, p) \<Rightarrow> Some (cond\<lparr>cond_op := opr\<rparr>, p)
      | None \<Rightarrow>
          if starts_word ends_test ''is not null'' p then Some (cond\<lparr>cond_op := OP_IS_NOT_NULL\<rparr>, drop 11 p)
          else if starts_word ends_test ''is null'' p then Some (cond\<lparr>cond_op := OP_IS_NULL\<rparr>, drop 7 p)
          else if starts_word (\<lambda>c. is_space c \<or> c = 0 \<or> c = 39) ''match'' p then Some (cond\<lparr>cond_op := OP_MATCH\<rparr>, drop 5 p)
          else if starts_word before_text ''not like'' p then Some (cond\<lparr>cond_op := OP_NOT_LIKE\<rparr>, drop 8 p)
          else if starts_word before_text ''not glob'' p then Some (cond\<lparr>cond_op := OP_NOT_GLOB\<rparr>, drop 8 p)
          else if starts_word before_text ''like'' p then Some (cond\<lparr>cond_op := OP_LIKE\<rparr>, drop 4 p)
          else if starts_word before_text ''glob'' p then Some (cond\<lparr>cond_op := OP_GLOB\<rparr>, drop 4 p)
          else if starts_word is_space ''between'' p then parse_between (cond\<lparr>cond_op := OP_BETWEEN\<rparr>) (drop 7 p)
          else if starts_word (\<lambda>c. is_space c \<or> c = 40) ''in'' p then Some (parse_in (cond\<lparr>cond_op := OP_IN\<rparr>) (drop 2 p))
          else None)"

definition takes_value :: "SingleCond \<Rightarrow> bool" where
  "takes_value cond \<longleftrightarrow> \<not> is_subquery cond \<and> cond_op cond \<notin> {OP_IS_NULL, OP_IS_NOT_NULL, OP_BETWEEN}"

definition parse_column_cond :: "cstr \<Rightarrow> (SingleCond \<times> cstr) option" where
  "parse_column_cond p =
     (let (col, p) = parse_identifier 32 p
      in if col = [] then None
         else do {
           (cond, p) \<leftarrow> parse_operator (zero_cond\<lparr>cond_col := col\<rparr>) (skip_whitespace p);
           if takes_value cond
           then (let (raw, p) = parse_value_token 4096 p in if raw = [] then None else Some (cond\<lparr>raw_val := raw\<rparr>, p))
           else Some (cond, p) })"

definition parse_collate :: "SingleCond \<Rightarrow> cstr \<Rightarrow> SingleCond \<times> cstr" where
  "parse_collate cond p =
     (if starts ''collate'' p
      then (case collation_name (skip_whitespace (drop 7 p)) of
              (None, p) \<Rightarrow> (cond, p)
            | (Some k, p) \<Rightarrow> (cond\<lparr>cond_collation := k\<rparr>, p))
      else (cond, p))"

definition parse_cond :: "cstr \<Rightarrow> (SingleCond \<times> cstr) option option" where
  "parse_cond p = do {
     r \<leftarrow> if starts ''not exists'' p then map_option Some (parse_exists (zero_cond\<lparr>is_not_exists := True\<rparr>) (drop 10 p))
         else if starts ''exists'' p then map_option Some (parse_exists (zero_cond\<lparr>is_exists := True\<rparr>) (drop 6 p))
         else Some (parse_column_cond p);
     Some (map_option (\<lambda>(cond, p). parse_collate cond (skip_whitespace p)) r) }"

section \<open>The clause\<close>

text \<open>The loop runs at most four times, for the conditions there is room for.\<close>

definition add_logic :: "LogicOp \<Rightarrow> WhereClause \<Rightarrow> WhereClause" where
  "add_logic l wc = (if length (conds wc) - 1 < 3 then wc\<lparr>logic_ops := logic_ops wc @ [l]\<rparr> else wc)"

function parse_conds :: "WhereClause \<Rightarrow> cstr \<Rightarrow> (WhereClause \<times> cstr) option option" where
  "parse_conds wc p =
     (let q = skip_whitespace p
      in if q = [] \<or> hd q = 59 \<or> length (conds wc) \<ge> 4 then Some (Some (wc, q))
         else (case parse_cond q of
             None \<Rightarrow> None
           | Some None \<Rightarrow> Some None
           | Some (Some (cond, q)) \<Rightarrow>
               (let wc' = wc\<lparr>conds := conds wc @ [cond]\<rparr>; q = skip_whitespace q
                in if starts_word space_or_end ''and'' q then parse_conds (add_logic LOGIC_AND wc') (drop 3 q)
                   else if starts_word space_or_end ''or'' q then parse_conds (add_logic LOGIC_OR wc') (drop 2 q)
                   else Some (Some (wc', q)))))"
  by pat_completeness auto
termination by (relation "measure (\<lambda>(wc, p). 4 - length (conds wc))") (auto simp: add_logic_def)

declare parse_conds.simps [simp del]

definition parse_where_clause :: "cstr \<Rightarrow> (WhereClause \<times> cstr) option option" where
  "parse_where_clause p =
     (let p = skip_whitespace p
      in if starts ''where'' p then parse_conds \<lparr>has_where = True, conds = [], logic_ops = []\<rparr> (drop 5 p)
         else Some (Some (\<lparr>has_where = False, conds = [], logic_ops = []\<rparr>, p)))"

end
