(* ===== verification/Parser_Create.thy ===== *)
theory Parser_Create
  imports Parser_Where Insert
begin

text \<open>
  The column list of CREATE TABLE (\<open>src/parser.c\<close>, \<open>parse_create_cols\<close>): columns with their types and
  constraints, and primary keys.  \<open>None\<close> is a loop that does not end: the list of a PRIMARY KEY is read up to its
  parenthesis, and a character that is in no identifier is never passed.
\<close>

datatype PrepareResult =
    PREPARE_SUCCESS | PREPARE_NEGATIVE_ID | PREPARE_VALUE_TOO_LONG | PREPARE_SYNTAX_ERROR | PREPARE_UNRECOGNIZED_STATEMENT
  | PREPARE_BAD_SCHEMA

section \<open>Types\<close>

definition name_is :: "string list \<Rightarrow> cstr \<Rightarrow> bool" where
  "name_is names s \<longleftrightarrow> list_ex (\<lambda>n. strcasecmp s (str_bytes n) = 0) names"

definition skip_parens :: "cstr \<Rightarrow> cstr" where
  "skip_parens p = (if char_at p 0 = 40 then skip_char 41 (dropWhile (\<lambda>c. c \<noteq> 41) p) else p)"

text \<open>\<open>VARCHAR(n)\<close> and \<open>VECTOR(n)\<close>: the number, read into an array of 16 bytes.\<close>

definition parse_size :: "cstr \<Rightarrow> nat \<times> cstr" where
  "parse_size p = (let (size_str, p) = parse_value_token 16 (tl p) in (unat (atoi size_str), skip_char 41 (skip_whitespace p)))"

definition parse_text_type :: "cstr \<Rightarrow> (nat \<times> cstr) option" where
  "parse_text_type p =
     (if char_at p 0 = 40
      then (let (n, p) = parse_size p in if n = 0 \<or> n > 4096 then None else Some (n, p))
      else Some (4096, p))"

definition parse_vector_type :: "cstr \<Rightarrow> nat \<times> cstr" where
  "parse_vector_type p =
     (if char_at p 0 = 40
      then (let (n, p) = parse_size p; dim = (if n = 0 \<or> n > 1024 then 128 else n) in (min (dim * 16) 4096, p))
      else (512, p))"

text \<open>The type of a column and the size that goes with it; \<open>None\<close> for a bad schema.\<close>

definition parse_type :: "cstr \<Rightarrow> cstr \<Rightarrow> ((ColumnType \<times> nat) \<times> cstr) option" where
  "parse_type ty p =
     (if name_is [''INT'', ''INTEGER'', ''BIGINT'', ''SMALLINT'', ''TINYINT'', ''INT2'', ''INT4'', ''INT8''] ty then Some ((COL_INT, 4), p)
      else if name_is [''FLOAT'', ''REAL''] ty then Some ((COL_FLOAT, 4), p)
      else if name_is [''DOUBLE''] ty
        then Some ((COL_DOUBLE, 8), let q = skip_whitespace p in if starts ''precision'' q then drop 9 q else q)
      else if name_is [''NUMERIC'', ''DECIMAL''] ty
        then Some ((if name_is [''NUMERIC''] ty then COL_NUMERIC else COL_DECIMAL, 8), skip_parens (skip_whitespace p))
      else if name_is [''BOOL'', ''BOOLEAN''] ty then Some ((COL_BOOL, 1), p)
      else if name_is [''BLOB'', ''VARBINARY'', ''BINARY'', ''BYTEA''] ty then Some ((COL_BLOB, 4096), skip_parens (skip_whitespace p))
      else if name_is [''DATETIME''] ty then Some ((COL_DATETIME, 64), p)
      else if name_is [''TIMESTAMP''] ty then Some ((COL_TIMESTAMP, 64), p)
      else if name_is [''DATE''] ty then Some ((COL_DATE, 64), p)
      else if name_is [''TIME''] ty then Some ((COL_TIME, 64), p)
      else if name_is [''TEXT'', ''VARCHAR'', ''CHAR'', ''CLOB'', ''STRING''] ty
        then map_option (\<lambda>(n, q). ((if name_is [''TEXT'', ''CLOB''] ty then COL_TEXT else COL_VARCHAR, n), q))
          (parse_text_type (skip_whitespace p))
      else if name_is [''VECTOR''] ty
        then (let (n, q) = parse_vector_type (skip_whitespace p) in Some ((COL_VECTOR, n), q))
      else None)"

section \<open>Primary keys\<close>

text \<open>The loop up to the closing parenthesis; at most 16 names are kept.\<close>

partial_function (option) pk_list :: "cstr list \<Rightarrow> cstr \<Rightarrow> (cstr list \<times> cstr) option" where
  "pk_list pks p =
     (if p = [] \<or> hd p = 41 then Some (pks, p)
      else (let p = skip_whitespace p;
                (pks, p) = (if length pks < 16 then (case parse_identifier 32 p of (n, p) \<Rightarrow> (pks @ [n], p)) else (pks, p))
            in pk_list pks (skip_char 44 (skip_whitespace p))))"

definition parse_pk :: "cstr list \<Rightarrow> cstr \<Rightarrow> (cstr list \<times> cstr) option" where
  "parse_pk pks p =
     (if char_at p 0 = 40 then map_option (\<lambda>(pks, p). (pks, skip_char 41 p)) (pk_list pks (tl p)) else Some (pks, p))"

section \<open>Constraints of a column\<close>

definition op_code :: "CompOp \<Rightarrow> nat" where
  "op_code opr = length (takeWhile (\<lambda>o'. o' \<noteq> opr) comp_ops)"

text \<open>\<open>default_val\<close> and \<open>check_val\<close> have 64 bytes.\<close>

definition parse_check :: "Column \<Rightarrow> cstr \<Rightarrow> Column \<times> cstr" where
  "parse_check col p =
     (let p = skip_whitespace (skip_char 40 (skip_whitespace p));
          (check_col, p) = parse_identifier 32 p;
          p = skip_whitespace p;
          (opr, p) = (case parse_cmp p of None \<Rightarrow> (check_op col, p) | Some (opr, p) \<Rightarrow> (op_code opr, p));
          (val, p) = parse_value_token 64 p
      in (col\<lparr>has_check := True, check_op := opr, check_val := val\<rparr>, skip_char 41 (skip_whitespace p)))"

function fk_actions :: "Column \<Rightarrow> cstr \<Rightarrow> Column \<times> cstr" where
  "fk_actions col p =
     (let q = skip_whitespace p
      in if q \<noteq> [] \<and> starts ''on delete cascade'' q then fk_actions (col\<lparr>fk_on_delete_cascade := True\<rparr>) (drop 17 q)
         else if q \<noteq> [] \<and> starts ''on update cascade'' q then fk_actions (col\<lparr>fk_on_update_cascade := True\<rparr>) (drop 17 q)
         else (col, q))"
  by pat_completeness auto
termination
proof (relation "measure (\<lambda>(col, p). length p)")
  have l: "length (drop 17 (skip_whitespace p)) < length p" if "skip_whitespace p \<noteq> []" for p
  proof -
    have "0 < length (skip_whitespace p)" "length (skip_whitespace p) \<le> length p"
      using that by (simp_all add: skip_whitespace_def length_dropWhile_le)
    then show ?thesis unfolding length_drop by linarith
  qed
  show "((col\<lparr>fk_on_delete_cascade := True\<rparr>, drop 17 q), col, p) \<in> measure (\<lambda>(col, p). length p)"
    if "q = skip_whitespace p" "q \<noteq> [] \<and> starts ''on delete cascade'' q" for col p q
    using that l [of p] by simp
  show "((col\<lparr>fk_on_update_cascade := True\<rparr>, drop 17 q), col, p) \<in> measure (\<lambda>(col, p). length p)"
    if "q = skip_whitespace p" "q \<noteq> [] \<and> starts ''on update cascade'' q" for col p q
    using that l [of p] by simp
qed simp

declare fk_actions.simps [simp del]

definition parse_references :: "Column \<Rightarrow> cstr \<Rightarrow> Column \<times> cstr" where
  "parse_references col p =
     (let (tbl, p) = parse_identifier 64 p;
          col = col\<lparr>has_fk := True, fk_target_table := tbl\<rparr>;
          p = skip_whitespace p
      in if char_at p 0 = 40
         then (let (c, p) = parse_identifier 32 (tl p)
               in fk_actions (col\<lparr>fk_target_col := c\<rparr>) (skip_char 41 (skip_whitespace p)))
         else fk_actions col p)"

text \<open>One constraint: \<open>Some None\<close> when there is none.\<close>

definition parse_constraint :: "Column \<Rightarrow> cstr list \<Rightarrow> cstr \<Rightarrow> (Column \<times> cstr list \<times> cstr) option option" where
  "parse_constraint col pks p =
     (if starts ''not null'' p then Some (Some (col\<lparr>is_not_null := True\<rparr>, pks, drop 8 p))
      else if starts ''unique'' p then Some (Some (col\<lparr>is_unique := True\<rparr>, pks, drop 6 p))
      else if starts ''default'' p
        then (let (val, p) = parse_value_token 64 (drop 7 p) in Some (Some (col\<lparr>has_default := True, default_val := val\<rparr>, pks, p)))
      else if starts ''check'' p then (let (col, p) = parse_check col (drop 5 p) in Some (Some (col, pks, p)))
      else if starts ''references'' p then (let (col, p) = parse_references col (drop 10 p) in Some (Some (col, pks, p)))
      else if starts ''autoincrement'' p then Some (Some (col\<lparr>is_autoincrement := True\<rparr>, pks, drop 13 p))
      else if starts ''primary key'' p
        then do { (pks, p) \<leftarrow> parse_pk pks (skip_whitespace (drop 11 p)); Some (Some (col, pks, p)) }
      else if starts ''collate'' p
        then (case collation_name (skip_whitespace (drop 7 p)) of
                (None, p) \<Rightarrow> Some (Some (col, pks, p))
              | (Some k, p) \<Rightarrow> Some (Some (col\<lparr>collation := k\<rparr>, pks, p)))
      else Some None)"

partial_function (option) constraints :: "Column \<Rightarrow> cstr list \<Rightarrow> cstr \<Rightarrow> (Column \<times> cstr list \<times> cstr) option" where
  "constraints col pks p = do {
     r \<leftarrow> parse_constraint col pks (skip_whitespace p);
     case r of
       None \<Rightarrow> Some (col, pks, skip_whitespace p)
     | Some r \<Rightarrow> constraints (fst r) (fst (snd r)) (snd (snd r)) }"

section \<open>The column list\<close>

text \<open>\<open>memset\<close> to zero.\<close>

definition zero_column :: Column where
  "zero_column = \<lparr>col_name = [], col_type = COL_INT, col_size = 0, has_index = False, index_root_page = 0,
     is_not_null = False, is_unique = False, has_default = False, default_val = [], has_check = False, check_op = 0,
     check_val = [], has_fk = False, fk_target_table = [], fk_target_col = [], fk_on_delete_cascade = False,
     fk_on_update_cascade = False, is_autoincrement = False, collation = COLL_NOT_SET, idx_is_partial = False,
     idx_where_col = [], idx_where_op = 0, idx_where_val = [], idx_is_expr = False, idx_expr_func = []\<rparr>"

text \<open>A column: its name, its type and its constraints; \<open>Inl\<close> is the code that the parser returns.\<close>

definition parse_column :: "bool \<Rightarrow> cstr list \<Rightarrow> cstr \<Rightarrow> (PrepareResult + Column \<times> cstr list \<times> cstr) option" where
  "parse_column first pks p =
     (let (name, p) = parse_identifier 32 p
      in if name = [] then Some (Inl PREPARE_BAD_SCHEMA)
         else (let (ty, p) = parse_identifier 32 (skip_whitespace p)
               in case parse_type ty p of
                    None \<Rightarrow> Some (Inl PREPARE_BAD_SCHEMA)
                  | Some ((cty, sz), p) \<Rightarrow>
                      (if first \<and> cty \<noteq> COL_INT then Some (Inl PREPARE_BAD_SCHEMA)
                       else map_option Inr (constraints (zero_column\<lparr>col_name := name, col_type := cty, col_size := sz\<rparr>) pks p))))"

partial_function (option) column_list ::
    "Column list \<Rightarrow> cstr list \<Rightarrow> cstr \<Rightarrow> (PrepareResult + Column list \<times> cstr list) option" where
  "column_list cols pks p =
     (if p = [] \<or> hd p = 41 then Some (Inr (cols, pks))
      else if length cols \<ge> 16 then Some (Inl PREPARE_BAD_SCHEMA)
      else if starts ''primary key'' (skip_whitespace p)
      then do {
        (pks, p) \<leftarrow> parse_pk pks (skip_whitespace (drop 11 (skip_whitespace p)));
        column_list cols pks (skip_char 44 (skip_whitespace p)) }
      else do {
        r \<leftarrow> parse_column (cols = []) pks (skip_whitespace p);
        case r of
          Inl e \<Rightarrow> Some (Inl e)
        | Inr r \<Rightarrow>
            (let cols = cols @ [fst r]; pks = fst (snd r); p = skip_whitespace (snd (snd r))
             in if char_at p 0 = 44 then column_list cols pks (tl p)
                else if char_at p 0 \<noteq> 41 then Some (Inl PREPARE_BAD_SCHEMA)
                else column_list cols pks p) })"

definition parse_create_cols :: "cstr \<Rightarrow> (PrepareResult + Column list \<times> cstr list) option" where
  "parse_create_cols p =
     (let p = skip_whitespace p in if char_at p 0 \<noteq> 40 then Some (Inl PREPARE_BAD_SCHEMA) else column_list [] [] (tl p))"

end
