(* ===== verification/Parser_Select.thy ===== *)
theory Parser_Select
  imports Parser_Create
begin

text \<open>
  The SELECT statement of the parser (\<open>src/parser.c\<close>, the part of \<open>prepare_statement\<close> for \<open>select\<close>):
  columns with aggregates and window functions, joins, clauses, and where a set operation starts.  Every loop of it ends,
  because the arrays it fills have a fixed size.
\<close>

section \<open>The result\<close>

datatype AggFunc = AGG_NONE | AGG_COUNT_STAR | AGG_COUNT | AGG_SUM | AGG_AVG | AGG_MIN | AGG_MAX

datatype WindowFunc = WIN_NONE | WIN_ROW_NUMBER | WIN_RANK | WIN_DENSE_RANK | WIN_SUM | WIN_AVG | WIN_MIN | WIN_MAX | WIN_COUNT

datatype JoinType = JOIN_INNER | JOIN_LEFT | JOIN_RIGHT | JOIN_FULL

datatype SetOp = SET_UNION | SET_UNION_ALL | SET_INTERSECT | SET_EXCEPT

record WindowSpec =
  win_func :: WindowFunc
  partition_col :: cstr
  order_col :: cstr
  order_desc :: bool

record SelectCol =
  agg_func :: AggFunc
  sel_col :: cstr
  is_coalesce :: bool
  coalesce_default :: cstr
  win_spec :: WindowSpec

record JoinItem =
  join_type :: JoinType
  right_table :: cstr
  left_col :: cstr
  right_col :: cstr

record Having =
  having_func :: AggFunc
  having_col :: cstr
  having_op :: CompOp
  having_val :: cstr

text \<open>The clauses that a select over one table uses are a \<open>SelectStmt\<close>; \<open>group_by\<close> and \<open>having\<close> are there or not.\<close>

record SelectParse =
  from_table :: cstr
  is_aggregate :: bool
  sel_cols :: "SelectCol list"
  joins :: "JoinItem list"
  group_by :: "cstr option"
  having :: "Having option"
  select_stmt :: SelectStmt

section \<open>Columns\<close>

definition no_window :: WindowSpec where
  "no_window = \<lparr>win_func = WIN_NONE, partition_col = [], order_col = [], order_desc = False\<rparr>"

definition zero_select_col :: SelectCol where
  "zero_select_col = \<lparr>agg_func = AGG_NONE, sel_col = [], is_coalesce = False, coalesce_default = [], win_spec = no_window\<rparr>"

definition window_order :: "WindowSpec \<Rightarrow> cstr \<Rightarrow> WindowSpec \<times> cstr" where
  "window_order spec p =
     (if starts ''order by'' p
      then (let (c, p) = parse_identifier 32 (skip_whitespace (drop 8 p));
                spec = spec\<lparr>order_col := c\<rparr>;
                p = skip_whitespace p;
                (spec, p) = (if starts ''desc'' p then (spec\<lparr>order_desc := True\<rparr>, drop 4 p)
                             else if starts ''asc'' p then (spec\<lparr>order_desc := False\<rparr>, drop 3 p) else (spec, p))
            in (spec, skip_whitespace p))
      else (spec, p))"

definition parse_window_over :: "WindowSpec \<Rightarrow> cstr \<Rightarrow> WindowSpec \<times> cstr" where
  "parse_window_over spec p =
     (let p = skip_whitespace p
      in if starts_word (\<lambda>c. is_space c \<or> c = 40) ''over'' p
         then (let p = skip_whitespace (skip_char 40 (skip_whitespace (drop 4 p)));
                   (spec, p) = (if starts ''partition by'' p
                      then (case parse_identifier 32 (skip_whitespace (drop 12 p)) of (c, p) \<Rightarrow> (spec\<lparr>partition_col := c\<rparr>, skip_whitespace p))
                      else (spec, p));
                   (spec, p) = window_order spec p
               in (spec, skip_char 41 p))
         else (spec, p))"

text \<open>
  \<open>sum(c)\<close> and the like; with a window it is not an aggregate, and the statement none either, whatever stands before.
\<close>

definition aggregate_call :: "AggFunc \<Rightarrow> WindowFunc \<Rightarrow> cstr \<Rightarrow> SelectCol \<times> bool \<times> cstr" where
  "aggregate_call f w p =
     (let (c, p) = parse_identifier 32 p;
          (spec, p) = parse_window_over no_window (skip_char 41 (skip_whitespace p));
          windowed = (partition_col spec \<noteq> [] \<or> order_col spec \<noteq> []);
          spec = (if windowed then spec\<lparr>win_func := w\<rparr> else spec)
      in (zero_select_col\<lparr>agg_func := f, sel_col := c, win_spec := spec\<rparr>, \<not> windowed, p))"

definition rank_call :: "WindowFunc \<Rightarrow> cstr \<Rightarrow> SelectCol \<times> cstr" where
  "rank_call w p = (case parse_window_over (no_window\<lparr>win_func := w\<rparr>) p of (spec, p) \<Rightarrow> (zero_select_col\<lparr>win_spec := spec\<rparr>, p))"

definition coalesce_call :: "cstr \<Rightarrow> SelectCol \<times> cstr" where
  "coalesce_call p =
     (let (c, p) = parse_identifier 32 (skip_whitespace p);
          (d, p) = parse_value_token 64 (skip_whitespace (skip_char 44 (skip_whitespace p)))
      in (zero_select_col\<lparr>is_coalesce := True, sel_col := c, coalesce_default := d\<rparr>, skip_char 41 (skip_whitespace p)))"

text \<open>The characters of an expression up to a stop outside parentheses; at most \<open>n\<close> are kept.\<close>

fun expr_chars :: "(cstr \<Rightarrow> bool) \<Rightarrow> nat \<Rightarrow> int \<Rightarrow> cstr \<Rightarrow> cstr \<times> cstr" where
  "expr_chars stop 0 depth p = ([], p)"
| "expr_chars stop (Suc n) depth [] = ([], [])"
| "expr_chars stop (Suc n) depth (c # cs) =
     (let depth = (if c = 40 then depth + 1 else if c = 41 then depth - 1 else depth)
      in if depth = 0 \<and> stop (c # cs) then ([], c # cs)
         else (case expr_chars stop n depth cs of (t, p) \<Rightarrow> (c # t, p)))"

definition rtrim_token :: "cstr \<Rightarrow> cstr" where
  "rtrim_token s = rev (dropWhile is_space (rev s))"

definition ends_columns :: "cstr \<Rightarrow> bool" where
  "ends_columns p \<longleftrightarrow> starts ''from'' p \<or> starts ''union'' p \<or> starts ''intersect'' p \<or> starts ''except'' p"

definition plain_select_col :: "cstr \<Rightarrow> SelectCol \<times> cstr" where
  "plain_select_col p =
     (let (t, p) =
        (if (is_quote (char_at p 0) \<or> is_digit (char_at p 0)) \<and> 40 \<notin> set p then parse_value_token 256 p
         else (case expr_chars (\<lambda>p. char_at p 0 = 44 \<or> char_at p 0 = 59 \<or> ends_columns p) 255 0 p of (t, p) \<Rightarrow> (rtrim_token t, p)))
      in (zero_select_col\<lparr>sel_col := t\<rparr>, p))"

text \<open>One column, and whether the statement is an aggregate behind it.\<close>

definition parse_select_col :: "bool \<Rightarrow> cstr \<Rightarrow> SelectCol \<times> bool \<times> cstr" where
  "parse_select_col agg p =
     (if starts ''row_number()'' p then (case rank_call WIN_ROW_NUMBER (drop 12 p) of (c, p) \<Rightarrow> (c, agg, p))
      else if starts ''rank()'' p then (case rank_call WIN_RANK (drop 6 p) of (c, p) \<Rightarrow> (c, agg, p))
      else if starts ''dense_rank()'' p then (case rank_call WIN_DENSE_RANK (drop 12 p) of (c, p) \<Rightarrow> (c, agg, p))
      else if starts ''count(*)'' p then (zero_select_col\<lparr>agg_func := AGG_COUNT_STAR\<rparr>, True, drop 8 p)
      else if starts ''count('' p then aggregate_call AGG_COUNT WIN_COUNT (drop 6 p)
      else if starts ''sum('' p then aggregate_call AGG_SUM WIN_SUM (drop 4 p)
      else if starts ''avg('' p then aggregate_call AGG_AVG WIN_AVG (drop 4 p)
      else if starts ''min('' p then aggregate_call AGG_MIN WIN_MIN (drop 4 p)
      else if starts ''max('' p then aggregate_call AGG_MAX WIN_MAX (drop 4 p)
      else if starts ''coalesce('' p then (case coalesce_call (drop 9 p) of (c, p) \<Rightarrow> (c, agg, p))
      else (case plain_select_col p of (c, p) \<Rightarrow> (c, agg, p)))"

function select_columns :: "SelectCol list \<Rightarrow> bool \<Rightarrow> cstr \<Rightarrow> (SelectCol list \<times> bool \<times> cstr) option" where
  "select_columns cols agg p =
     (if p = [] \<or> hd p = 59 \<or> ends_columns p then Some (cols, agg, p)
      else if length cols \<ge> 8 then None
      else (case parse_select_col agg (skip_whitespace p) of
              (c, agg', q) \<Rightarrow>
                (let q = skip_whitespace q
                 in if char_at q 0 = 44 then select_columns (cols @ [c]) agg' (tl q)
                    else if q \<noteq> [] \<and> hd q \<noteq> 59 \<and> \<not> ends_columns q then None
                    else select_columns (cols @ [c]) agg' q)))"
  by pat_completeness auto
termination by (relation "measure (\<lambda>(cols, agg, p). 8 - length cols)") auto

declare select_columns.simps [simp del]

section \<open>Joins\<close>

text \<open>The kind of a join, if one starts here.\<close>

definition skip_word :: "string \<Rightarrow> cstr \<Rightarrow> cstr" where
  "skip_word s p = (if starts s p then drop (length s) p else p)"

definition outer_join :: "cstr \<Rightarrow> cstr" where
  "outer_join p =
     (let p = skip_whitespace p; p = (if starts ''outer'' p then skip_whitespace (drop 5 p) else p) in skip_word ''join'' p)"

definition parse_join_type :: "cstr \<Rightarrow> (JoinType \<times> cstr) option" where
  "parse_join_type p =
     (if starts ''left'' p then Some (JOIN_LEFT, outer_join (drop 4 p))
      else if starts ''right'' p then Some (JOIN_RIGHT, outer_join (drop 5 p))
      else if starts ''full'' p then Some (JOIN_FULL, outer_join (drop 4 p))
      else if starts ''inner'' p then Some (JOIN_INNER, skip_word ''join'' (skip_whitespace (drop 5 p)))
      else if starts ''join'' p then Some (JOIN_INNER, drop 4 p)
      else None)"

definition parse_join :: "JoinType \<Rightarrow> cstr \<Rightarrow> (JoinItem \<times> cstr) option" where
  "parse_join ty p =
     (let (tbl, p) = parse_identifier 64 p; p = skip_whitespace p
      in if tbl = [] \<or> \<not> starts ''on'' p then None
         else (let (l, p) = parse_identifier 32 (drop 2 p); p = skip_whitespace p
               in if char_at p 0 \<noteq> 61 then None
                  else (let (r, p) = parse_identifier 32 (tl p)
                        in Some (\<lparr>join_type = ty, right_table = tbl, left_col = strip_qualifier l, right_col = strip_qualifier r\<rparr>, p))))"

function parse_joins :: "JoinItem list \<Rightarrow> cstr \<Rightarrow> (JoinItem list \<times> cstr) option" where
  "parse_joins js p =
     (if p = [] then Some (js, p)
      else (case parse_join_type (skip_whitespace p) of
              None \<Rightarrow> Some (js, skip_whitespace p)
            | Some (ty, q) \<Rightarrow>
                (if length js \<ge> 8 then None
                 else (case parse_join ty q of None \<Rightarrow> None | Some (j, q) \<Rightarrow> parse_joins (js @ [j]) q))))"
  by pat_completeness auto
termination by (relation "measure (\<lambda>(js, p). 8 - length js)") auto

declare parse_joins.simps [simp del]

section \<open>GROUP BY and HAVING\<close>

definition parse_group_by :: "cstr \<Rightarrow> (cstr option \<times> cstr) option" where
  "parse_group_by p =
     (if starts ''group by'' p
      then (let (c, p) = parse_identifier 32 (skip_whitespace (drop 8 p)) in if c = [] then None else Some (Some c, p))
      else Some (None, p))"

definition having_call :: "AggFunc \<Rightarrow> cstr \<Rightarrow> (AggFunc \<times> cstr) \<times> cstr" where
  "having_call f p = (let (c, p) = parse_identifier 32 p in ((f, c), skip_char 41 (skip_whitespace p)))"

definition having_function :: "cstr \<Rightarrow> (AggFunc \<times> cstr) \<times> cstr" where
  "having_function p =
     (if starts ''count(*)'' p then ((AGG_COUNT_STAR, []), drop 8 p)
      else if starts ''count('' p then having_call AGG_COUNT (drop 6 p)
      else if starts ''sum('' p then having_call AGG_SUM (drop 4 p)
      else if starts ''avg('' p then having_call AGG_AVG (drop 4 p)
      else if starts ''min('' p then having_call AGG_MIN (drop 4 p)
      else if starts ''max('' p then having_call AGG_MAX (drop 4 p)
      else ((AGG_NONE, []), p))"

definition parse_having :: "cstr \<Rightarrow> (Having option \<times> cstr) option" where
  "parse_having p =
     (if starts ''having'' p
      then (let ((f, c), p) = having_function (skip_whitespace (drop 6 p))
            in do {
              (opr, p) \<leftarrow> parse_cmp (skip_whitespace p);
              let (v, p) = parse_value_token 64 p;
              Some (Some \<lparr>having_func = f, having_col = c, having_op = opr, having_val = v\<rparr>, p) })
      else Some (None, p))"

section \<open>ORDER BY\<close>

definition item_collate :: "cstr \<Rightarrow> CollationType \<times> cstr" where
  "item_collate p =
     (if starts_word space_or_end ''collate'' p
      then (case collation_name (skip_whitespace (drop 7 p)) of (k, p) \<Rightarrow> (case k of None \<Rightarrow> COLL_NOT_SET | Some k \<Rightarrow> k, p))
      else (COLL_BINARY, p))"

definition item_direction :: "cstr \<Rightarrow> bool \<times> cstr" where
  "item_direction p =
     (if starts_word ends_item ''desc'' p then (True, drop 4 p)
      else if starts_word ends_item ''asc'' p then (False, drop 3 p) else (False, p))"

definition parse_order_item :: "cstr \<Rightarrow> (OrderByItem \<times> cstr) option" where
  "parse_order_item p =
     (let (arr, dyn, p) = parse_order_by_expr_alloc 256 p
      in if arr = [] \<and> dyn = None then None
         else (let (k, p) = item_collate (skip_whitespace p);
                   (desc, p) = item_direction (skip_whitespace p)
               in Some (\<lparr>item_col = (case dyn of None \<Rightarrow> arr | Some d \<Rightarrow> d), item_desc = desc, item_collation = k\<rparr>, p)))"

function parse_order_items :: "OrderByItem list \<Rightarrow> cstr \<Rightarrow> (OrderByItem list \<times> cstr) option" where
  "parse_order_items items p =
     (let p = skip_whitespace p
      in if p = [] \<or> hd p = 59 \<or> length items \<ge> 4 then Some (items, p)
         else (case parse_order_item p of
                 None \<Rightarrow> None
               | Some (item, q) \<Rightarrow>
                   (let q = skip_whitespace q
                    in if char_at q 0 = 44 then parse_order_items (items @ [item]) (tl q) else Some (items @ [item], q))))"
  by pat_completeness auto
termination by (relation "measure (\<lambda>(items, p). 4 - length items)") auto

declare parse_order_items.simps [simp del]

definition parse_order_by :: "cstr \<Rightarrow> ((bool \<times> OrderByItem list) \<times> cstr) option" where
  "parse_order_by p =
     (if starts ''order by'' p then map_option (\<lambda>(items, p). ((True, items), p)) (parse_order_items [] (drop 8 p))
      else Some ((False, []), p))"

section \<open>LIMIT and set operations\<close>

text \<open>The limit and the offset, each there or not.\<close>

definition limit_rest :: "int \<Rightarrow> cstr \<Rightarrow> (int option \<times> int option) \<times> cstr" where
  "limit_rest n p =
     (if starts ''offset'' p
      then (case parse_identifier 32 (skip_whitespace (drop 6 p)) of (t, p) \<Rightarrow> ((Some n, Some (sint (atoi t))), p))
      else if char_at p 0 = 44
      then (case parse_identifier 32 (skip_whitespace (tl p)) of (t, p) \<Rightarrow> ((Some (sint (atoi t)), Some n), p))
      else ((Some n, None), p))"

definition parse_limit :: "cstr \<Rightarrow> ((int option \<times> int option) \<times> cstr) option" where
  "parse_limit p =
     (if starts ''limit'' p
      then (let (t, p) = parse_identifier 32 (skip_whitespace (drop 5 p))
            in if t = [] then None else Some (limit_rest (sint (atoi t)) (skip_whitespace p)))
      else Some ((None, None), p))"

definition parse_set_op :: "cstr \<Rightarrow> (SetOp \<times> cstr) option" where
  "parse_set_op p =
     (if starts_word space_or_end ''union'' p
      then (let p = skip_whitespace (drop 5 p)
            in Some (if starts_word space_or_end ''all'' p then (SET_UNION_ALL, drop 3 p) else (SET_UNION, p)))
      else if starts_word space_or_end ''intersect'' p then Some (SET_INTERSECT, drop 9 p)
      else if starts_word space_or_end ''except'' p then Some (SET_EXCEPT, drop 6 p)
      else None)"

section \<open>The statement\<close>

definition no_select :: SelectStmt where
  "no_select = \<lparr>where_clause = \<lparr>has_where = False, conds = [], logic_ops = []\<rparr>, has_order_by = False, order_by_items = [],
     order_by_col = [], order_by_desc = False, order_by_collation = COLL_NOT_SET, select_cols = [], is_distinct = False,
     has_limit = False, limit_val = 0, has_offset = False, offset_val = 0\<rparr>"

definition parse_distinct :: "cstr \<Rightarrow> bool \<times> cstr" where
  "parse_distinct p =
     (if starts_word (\<lambda>c. is_space c \<or> c = 42 \<or> (is_alnum c \<and> \<not> is_digit c)) ''distinct'' p
      then (True, skip_whitespace (drop 8 p)) else (False, p))"

text \<open>The columns and FROM.  A select without a table ends here.\<close>

definition parse_select_head :: "cstr \<Rightarrow> (SelectParse \<times> cstr) option" where
  "parse_select_head p =
     (let (distinct, p) = parse_distinct (skip_whitespace p)
      in do {
        (cols, agg, p) \<leftarrow> if char_at p 0 = 42 then Some ([], False, tl p) else select_columns [] False p;
        let p = skip_whitespace p;
        let sp = \<lparr>from_table = [], is_aggregate = agg, sel_cols = cols, joins = [], group_by = None, having = None,
          select_stmt = no_select\<lparr>is_distinct := distinct, select_cols := map sel_col cols\<rparr>\<rparr>;
        if starts ''from'' p
        then (case parse_identifier 64 (drop 4 p) of (tbl, p) \<Rightarrow> if tbl = [] then None else Some (sp\<lparr>from_table := tbl\<rparr>, p))
        else Some (sp, p) })"

text \<open>\<open>order_by_col\<close> and its companions are those of the first item.\<close>

definition with_order :: "bool \<times> OrderByItem list \<Rightarrow> SelectStmt \<Rightarrow> SelectStmt" where
  "with_order ob st =
     (case snd ob of
        [] \<Rightarrow> st\<lparr>has_order_by := fst ob\<rparr>
      | item # items \<Rightarrow> st\<lparr>has_order_by := fst ob, order_by_items := item # items, order_by_col := item_col item,
          order_by_desc := item_desc item, order_by_collation := item_collation item\<rparr>)"

definition with_limit :: "int option \<times> int option \<Rightarrow> SelectStmt \<Rightarrow> SelectStmt" where
  "with_limit lim st =
     st\<lparr>has_limit := fst lim \<noteq> None, limit_val := (case fst lim of None \<Rightarrow> 0 | Some n \<Rightarrow> n),
        has_offset := snd lim \<noteq> None, offset_val := (case snd lim of None \<Rightarrow> 0 | Some n \<Rightarrow> n)\<rparr>"

text \<open>What follows the table, up to a set operation; the inner \<open>None\<close> is a syntax error, the outer one an overrun.\<close>

definition parse_select_tail :: "SelectParse \<Rightarrow> cstr \<Rightarrow> (SelectParse \<times> cstr) option option" where
  "parse_select_tail sp p =
     (case parse_joins [] p of
        None \<Rightarrow> Some None
      | Some (js, p) \<Rightarrow> do {
          r \<leftarrow> parse_where_clause p;
          Some (do {
            (wc, p) \<leftarrow> r;
            (gb, p) \<leftarrow> parse_group_by (skip_whitespace p);
            (hv, p) \<leftarrow> parse_having (skip_whitespace p);
            (ob, p) \<leftarrow> parse_order_by (skip_whitespace p);
            (lim, p) \<leftarrow> parse_limit (skip_whitespace p);
            Some (sp\<lparr>joins := js, group_by := gb, having := hv,
              select_stmt := with_limit lim (with_order ob ((select_stmt sp)\<lparr>where_clause := wc\<rparr>))\<rparr>, skip_whitespace p) }) })"

end
