(* ===== verification/Parser_Modify.thy ===== *)
theory Parser_Modify
  imports Parser_Select Modify
begin

text \<open>
  INSERT, UPDATE and DELETE in the parser (\<open>src/parser.c\<close>).  The names in the column list of an INSERT are read and
  forgotten: they are in no result.
\<close>

section \<open>RETURNING and assignments\<close>

function returning_cols :: "cstr list \<Rightarrow> cstr \<Rightarrow> cstr list \<times> cstr" where
  "returning_cols cols p =
     (if p = [] \<or> hd p = 59 then (cols, p)
      else if length cols \<ge> 8 then (cols, skip_whitespace p)
      else (case parse_identifier 32 p of
              (c, q) \<Rightarrow>
                (let q = skip_whitespace q
                 in if char_at q 0 = 44 then returning_cols (cols @ [c]) (tl q) else (cols @ [c], q))))"
  by pat_completeness auto
termination by (relation "measure (\<lambda>(cols, p). 8 - length cols)") auto

declare returning_cols.simps [simp del]

text \<open>The columns of RETURNING, if it is there.\<close>

definition parse_returning :: "cstr \<Rightarrow> cstr list option \<times> cstr" where
  "parse_returning p =
     (if starts_word (\<lambda>c. is_space c \<or> c = 42) ''returning'' p
      then (let p = skip_whitespace (drop 9 p)
            in if char_at p 0 = 42 then (Some [[42]], tl p) else (case returning_cols [] p of (cols, p) \<Rightarrow> (Some cols, p)))
      else (None, p))"

definition token_string :: "Token \<Rightarrow> cstr" where
  "token_string t = (case tok_dyn t of Some s \<Rightarrow> s | None \<Rightarrow> tok_text t)"

text \<open>The value of an assignment in UPDATE: a quoted literal or a vector, else an expression up to a comma or WHERE.\<close>

definition parse_set_value :: "cstr \<Rightarrow> (bool \<times> cstr) \<times> cstr" where
  "parse_set_value p =
     (if is_quote (char_at p 0) \<or> char_at p 0 = 91
      then (case parse_value_token_alloc True 4096 p of (t, p) \<Rightarrow> ((False, token_string t), p))
      else (case expr_chars (\<lambda>p. char_at p 0 = 44 \<or> char_at p 0 = 59 \<or> starts ''where'' p) 4095 0 p of
              (t, p) \<Rightarrow> ((strcasecmp (rtrim_token t) (str_bytes ''null'') = 0, rtrim_token t), p)))"

definition parse_set_pair :: "cstr \<Rightarrow> (SetPair \<times> cstr) option" where
  "parse_set_pair p =
     (let (c, p) = parse_identifier 32 p; p = skip_whitespace p
      in if c = [] \<or> char_at p 0 \<noteq> 61 then None
         else (case parse_set_value (skip_whitespace (tl p)) of
                 ((null, v), p) \<Rightarrow> Some (\<lparr>set_col = c, set_null = null, set_val = v\<rparr>, p)))"

function parse_set_pairs :: "SetPair list \<Rightarrow> cstr \<Rightarrow> (SetPair list \<times> cstr) option" where
  "parse_set_pairs pairs p =
     (if p = [] then Some (pairs, p)
      else if starts ''where'' (skip_whitespace p) then Some (pairs, skip_whitespace p)
      else if length pairs \<ge> 16 then None
      else (case parse_set_pair (skip_whitespace p) of
              None \<Rightarrow> None
            | Some (pair, q) \<Rightarrow>
                (let q = skip_whitespace q
                 in if char_at q 0 = 44 then parse_set_pairs (pairs @ [pair]) (tl q)
                    else if \<not> starts ''where'' q \<and> q \<noteq> [] \<and> hd q \<noteq> 59 then None
                    else parse_set_pairs (pairs @ [pair]) q)))"
  by pat_completeness auto
termination by (relation "measure (\<lambda>(pairs, p). 16 - length pairs)") auto

declare parse_set_pairs.simps [simp del]

section \<open>UPDATE and DELETE\<close>

record UpdateParse =
  up_table :: cstr
  up_pairs :: "SetPair list"
  up_where :: WhereClause
  up_returning :: "cstr list option"

record DeleteParse =
  del_table :: cstr
  del_where :: WhereClause
  del_returning :: "cstr list option"

text \<open>The inner \<open>None\<close> is a syntax error, the outer one an overrun.\<close>

definition parse_update :: "cstr \<Rightarrow> UpdateParse option option" where
  "parse_update p =
     (let (tbl, p) = parse_identifier 64 p; p = skip_whitespace p
      in if tbl = [] \<or> \<not> starts ''set'' p then Some None
         else (case parse_set_pairs [] (drop 3 p) of
                 None \<Rightarrow> Some None
               | Some (pairs, p) \<Rightarrow> map_option (map_option (\<lambda>(wc, p).
                   \<lparr>up_table = tbl, up_pairs = pairs, up_where = wc, up_returning = fst (parse_returning (skip_whitespace p))\<rparr>))
                   (parse_where_clause p)))"

definition parse_delete :: "cstr \<Rightarrow> DeleteParse option option" where
  "parse_delete p =
     (let p = skip_whitespace p
      in if \<not> starts ''from'' p then Some None
         else (let (tbl, p) = parse_identifier 64 (drop 4 p)
               in if tbl = [] then Some None
                  else map_option (map_option (\<lambda>(wc, p).
                    \<lparr>del_table = tbl, del_where = wc, del_returning = fst (parse_returning (skip_whitespace p))\<rparr>))
                    (parse_where_clause p)))"

section \<open>INSERT\<close>

text \<open>A row is its values with their NULL flags.  \<open>ins_num_values\<close> is the number of values of the last row.\<close>

record InsertParse =
  ins_table :: cstr
  ins_action :: ConflictAction
  ins_rows :: "(cstr \<times> bool) list list"
  ins_num_values :: nat
  ins_pairs :: "SetPair list"
  ins_expires :: nat
  ins_returning :: "cstr list option"

definition parse_insert_action :: "cstr \<Rightarrow> ConflictAction \<times> cstr" where
  "parse_insert_action p =
     (if starts_word is_space ''or'' p
      then (let p = skip_whitespace (drop 2 p)
            in if starts ''replace'' p then (CONFLICT_REPLACE, drop 7 p)
               else if starts ''ignore'' p then (CONFLICT_IGNORE, drop 6 p)
               else (CONFLICT_ABORT, p))
      else (CONFLICT_ABORT, p))"

text \<open>The column list: at most 16 names are read, and none is kept; a character that is in no name is never passed.\<close>

partial_function (option) column_names :: "nat \<Rightarrow> cstr \<Rightarrow> cstr option" where
  "column_names n p =
     (if p = [] \<or> hd p = 41 then Some p
      else (let p = skip_whitespace p;
                (n, p) = (if n < 16 then (n + 1, snd (parse_identifier 32 p)) else (n, p))
            in column_names n (skip_char 44 (skip_whitespace p))))"

definition skip_column_list :: "cstr \<Rightarrow> cstr option" where
  "skip_column_list p =
     (if char_at p 0 = 40 \<and> \<not> starts ''select'' (skip_whitespace (tl p))
      then map_option (\<lambda>p. skip_whitespace (skip_char 41 p)) (column_names 0 (tl p))
      else Some p)"

function parse_row :: "(cstr \<times> bool) list \<Rightarrow> cstr \<Rightarrow> ((cstr \<times> bool) list \<times> cstr) option" where
  "parse_row vals p =
     (if p = [] \<or> hd p = 41 then Some (vals, p)
      else if length vals \<ge> 16 then None
      else (case parse_value_token_alloc True 4096 p of
              (t, q) \<Rightarrow>
                (let vals' = vals @ [(token_string t, tok_null t)]; q = skip_whitespace q
                 in if char_at q 0 = 44 then parse_row vals' (tl q)
                    else if char_at q 0 \<noteq> 41 then None
                    else parse_row vals' q)))"
  by pat_completeness auto
termination by (relation "measure (\<lambda>(vals, p). 16 - length vals)") auto

declare parse_row.simps [simp del]

function parse_rows :: "(cstr \<times> bool) list list \<Rightarrow> cstr \<Rightarrow> ((cstr \<times> bool) list list \<times> cstr) option" where
  "parse_rows rows p =
     (if p = [] then Some (rows, p)
      else if length rows \<ge> 8 then None
      else (let q = skip_whitespace p
            in if char_at q 0 \<noteq> 40 then Some (rows, q)
               else (case parse_row [] (tl q) of
                       None \<Rightarrow> None
                     | Some (row, q) \<Rightarrow>
                         (let q = skip_whitespace (skip_char 41 q)
                          in if char_at q 0 = 44 then parse_rows (rows @ [row]) (tl q) else Some (rows @ [row], q)))))"
  by pat_completeness auto
termination by (relation "measure (\<lambda>(rows, p). 8 - length rows)") auto

declare parse_rows.simps [simp del]

text \<open>The assignments of \<open>DO UPDATE SET\<close> end at the first thing that is none.\<close>

function conflict_pairs :: "SetPair list \<Rightarrow> cstr \<Rightarrow> SetPair list \<times> cstr" where
  "conflict_pairs pairs p =
     (if p = [] \<or> length pairs \<ge> 16 then (pairs, skip_whitespace p)
      else (case parse_identifier 32 p of
              (c, q) \<Rightarrow>
                (let q = skip_whitespace q
                 in if c = [] \<or> char_at q 0 \<noteq> 61 then (pairs, q)
                    else (case parse_value_token_alloc True 4096 (tl q) of
                            (t, q) \<Rightarrow>
                              (let pairs' = pairs @ [\<lparr>set_col = c, set_null = tok_null t, set_val = token_string t\<rparr>]; q = skip_whitespace q
                               in if char_at q 0 = 44 then conflict_pairs pairs' (tl q) else (pairs', q))))))"
  by pat_completeness auto
termination by (relation "measure (\<lambda>(pairs, p). 16 - length pairs)") auto

declare conflict_pairs.simps [simp del]

text \<open>The conflict action, if one is given, and its assignments.\<close>

definition parse_on_conflict :: "cstr \<Rightarrow> (ConflictAction option \<times> SetPair list) \<times> cstr" where
  "parse_on_conflict p =
     (if starts_word is_space ''on conflict'' p
      then (let p = skip_whitespace (drop 11 p)
            in if starts_word is_space ''do update'' p
               then (let p = skip_whitespace (drop 9 p)
                     in if starts_word is_space ''set'' p
                        then (case conflict_pairs [] (drop 3 p) of (pairs, p) \<Rightarrow> ((Some CONFLICT_UPDATE, pairs), p))
                        else ((None, []), p))
               else if starts ''do nothing'' p then ((Some CONFLICT_IGNORE, []), drop 10 p)
               else ((None, []), p))
      else ((None, []), p))"

definition parse_expires :: "nat \<Rightarrow> cstr \<Rightarrow> nat \<times> cstr" where
  "parse_expires e p =
     (let p = skip_whitespace p
      in if starts_word is_space ''expires'' p
         then (let p = skip_whitespace (drop 7 p) in (unat (atoi p), dropWhile is_digit p))
         else (e, p))"

text \<open>The part behind the column list.\<close>

definition parse_values :: "cstr \<Rightarrow> ConflictAction \<Rightarrow> cstr \<Rightarrow> InsertParse option" where
  "parse_values tbl action p =
     (case parse_rows [] (skip_word ''values'' p) of
        None \<Rightarrow> None
      | Some (rows, p) \<Rightarrow>
          (let n = (if rows = [] then 0 else length (last rows))
           in if n = 0 then None
              else (let ((act, pairs), p) = parse_on_conflict (skip_whitespace p);
                        (e, p) = parse_expires 0 p;
                        (ret, p) = parse_returning (skip_whitespace p);
                        (e, p) = parse_expires e p
                    in Some \<lparr>ins_table = tbl, ins_action = (case act of None \<Rightarrow> action | Some a \<Rightarrow> a), ins_rows = rows,
                         ins_num_values = n, ins_pairs = pairs, ins_expires = e, ins_returning = ret\<rparr>)))"

text \<open>The statement that \<open>run_insert_vm\<close> gets for the first row: its values fill the first entries of the array.\<close>

definition first_row :: "InsertParse \<Rightarrow> InsertStmt" where
  "first_row ins =
     (let row = take (ins_num_values ins) (hd (ins_rows ins));
          rest = replicate (ins_num_values ins - length row) ([], False)
      in \<lparr>raw_values = map fst (row @ rest), raw_is_null = map snd (row @ rest), num_values = ins_num_values ins,
          has_bound_values = False, bound_values = [], conflict_action = ins_action ins, expires_sec = ins_expires ins\<rparr>)"

end
