(* ===== verification/Parser_Schema.thy ===== *)
theory Parser_Schema
  imports Parser_Modify
begin

text \<open>
  The statements of the parser that define the schema, and the administrative ones (\<open>src/parser.c\<close>, the branches of
  \<open>prepare_statement\<close> for \<open>create\<close>, \<open>alter\<close>, \<open>backup\<close>, \<open>restore\<close>, \<open>pragma\<close>, \<open>attach\<close>).
\<close>

section \<open>CREATE TABLE\<close>

record CreateTable =
  if_not_exists :: bool
  new_name :: cstr
  new_columns :: "Column list"
  new_pk :: "cstr list"
  new_ttl :: nat
  new_history :: bool

text \<open>
  The options are found by skipping the parentheses of the column list again, by their depth alone (quotes are not
  looked at).
\<close>

fun skip_nested :: "int \<Rightarrow> cstr \<Rightarrow> cstr" where
  "skip_nested depth [] = []"
| "skip_nested depth (c # cs) =
     (if depth \<le> 0 then c # cs
      else skip_nested (if c = 40 then depth + 1 else if c = 41 then depth - 1 else depth) cs)"

definition option_start :: "cstr \<Rightarrow> cstr" where
  "option_start p =
     (let p = (if char_at p 0 = 44 then skip_whitespace (tl p) else p)
      in if starts_word is_space ''with'' p then skip_whitespace (drop 4 p) else p)"

partial_function (option) table_options :: "nat \<Rightarrow> bool \<Rightarrow> cstr \<Rightarrow> (nat \<times> bool) option" where
  "table_options ttl hist p =
     (let p = skip_whitespace p
      in if p = [] \<or> hd p = 59 then Some (ttl, hist)
         else (let p = option_start p
               in if starts_word (\<lambda>c. is_space c \<or> c = 61) ''ttl'' p
                  then (let p = skip_whitespace (drop 3 p);
                            p = (if char_at p 0 = 61 then skip_whitespace (tl p) else p)
                        in table_options (unat (atoi p)) hist (dropWhile is_digit p))
                  else if starts_word (\<lambda>c. is_space c \<or> c = 59 \<or> c = 44 \<or> c = 0) ''history'' p
                  then table_options ttl True (drop 7 p)
                  else Some (ttl, hist)))"

definition parse_if_not_exists :: "cstr \<Rightarrow> bool \<times> cstr" where
  "parse_if_not_exists p = (if starts ''if not exists'' p then (True, skip_whitespace (drop 13 p)) else (False, p))"

definition parse_create_table :: "cstr \<Rightarrow> (PrepareResult + CreateTable) option" where
  "parse_create_table p =
     (let (ine, p) = parse_if_not_exists (skip_whitespace p);
          (name, p) = parse_identifier 64 p
      in if name = [] then Some (Inl PREPARE_SYNTAX_ERROR)
         else do {
           r \<leftarrow> parse_create_cols p;
           case r of
             Inl e \<Rightarrow> Some (Inl e)
           | Inr (cols, pks) \<Rightarrow> do {
               let post = skip_whitespace p;
               (ttl, hist) \<leftarrow> table_options 0 False (if char_at post 0 = 40 then skip_nested 1 (tl post) else post);
               Some (Inr \<lparr>if_not_exists = ine, new_name = name, new_columns = cols, new_pk = pks, new_ttl = ttl, new_history = hist\<rparr>) } })"

section \<open>CREATE INDEX, VIEW, TRIGGER and VIRTUAL TABLE\<close>

text \<open>\<open>ix_where\<close> is the clause of a partial index; \<open>None\<close> inside is the NULL of a clause that is rejected, which is ignored.\<close>

record CreateIndex =
  ix_name :: cstr
  ix_table :: cstr
  ix_cols :: "cstr list"
  ix_func :: "cstr option"
  ix_where :: "WhereClause option option"

function index_cols :: "cstr list \<Rightarrow> cstr \<Rightarrow> (cstr list \<times> cstr) option" where
  "index_cols cols p =
     (if p = [] \<or> hd p = 41 then Some (cols, p)
      else if length cols \<ge> 16 then None
      else (case parse_identifier 32 p of
              (c, q) \<Rightarrow>
                (let q = skip_whitespace q
                 in if c = [] then None
                    else if char_at q 0 = 44 then index_cols (cols @ [c]) (tl q)
                    else if char_at q 0 \<noteq> 41 then None
                    else index_cols (cols @ [c]) q)))"
  by pat_completeness auto
termination by (relation "measure (\<lambda>(cols, p). 16 - length cols)") auto

declare index_cols.simps [simp del]

definition index_target :: "cstr \<Rightarrow> ((cstr list \<times> cstr option) \<times> cstr) option" where
  "index_target p =
     (if starts ''lower('' p \<or> starts ''upper('' p
      then (case parse_identifier 32 (drop 6 p) of
              (c, q) \<Rightarrow> Some (([c], Some (str_bytes (if starts ''lower('' p then ''lower'' else ''upper''))), skip_char 41 (skip_whitespace q)))
      else map_option (\<lambda>(cols, p). ((cols, None), p)) (index_cols [] p))"

text \<open>The keyword WHERE is passed before the clause is parsed, which starts with the keyword again.\<close>

definition parse_create_index :: "cstr \<Rightarrow> (PrepareResult + CreateIndex) option" where
  "parse_create_index p =
     (let (name, p) = parse_identifier 32 p; p = skip_whitespace p
      in if name = [] \<or> \<not> starts ''on'' p then Some (Inl PREPARE_SYNTAX_ERROR)
         else (let (tbl, p) = parse_identifier 64 (drop 2 p); p = skip_whitespace p
               in if tbl = [] \<or> char_at p 0 \<noteq> 40 then Some (Inl PREPARE_SYNTAX_ERROR)
                  else (case index_target (skip_whitespace (tl p)) of
                          None \<Rightarrow> Some (Inl PREPARE_SYNTAX_ERROR)
                        | Some ((cols, func), p) \<Rightarrow>
                            (let p = skip_whitespace (skip_char 41 p);
                                 ix = \<lparr>ix_name = name, ix_table = tbl, ix_cols = cols, ix_func = func, ix_where = None\<rparr>
                             in if starts ''where'' p
                                then map_option (\<lambda>r. Inr (ix\<lparr>ix_where := Some (map_option fst r)\<rparr>)) (parse_where_clause (drop 5 p))
                                else Some (Inr ix)))))"

text \<open>The name of a view and its text.\<close>

definition parse_create_view :: "cstr \<Rightarrow> (cstr \<times> cstr) option" where
  "parse_create_view p =
     (let (name, p) = parse_identifier 64 p
      in if name = [] then None else Some (name, take 255 (skip_whitespace (skip_word ''as'' (skip_whitespace p)))))"

record CreateTrigger =
  trg_name :: cstr
  trg_timing :: TriggerTiming
  trg_event :: TriggerEvent
  trg_table :: cstr
  trg_action :: cstr

text \<open>The action ends at the first \<open>end\<close>, also inside a word or a literal.\<close>

fun until_end :: "nat \<Rightarrow> cstr \<Rightarrow> cstr" where
  "until_end 0 p = []"
| "until_end (Suc n) [] = []"
| "until_end (Suc n) (c # cs) = (if starts ''end'' (c # cs) then [] else c # until_end n cs)"

definition trigger_timing :: "cstr \<Rightarrow> TriggerTiming \<times> cstr" where
  "trigger_timing p =
     (if starts ''before'' p then (TRIGGER_BEFORE, drop 6 p)
      else if starts ''after'' p then (TRIGGER_AFTER, drop 5 p) else (TRIGGER_AFTER, p))"

definition trigger_event :: "cstr \<Rightarrow> TriggerEvent \<times> cstr" where
  "trigger_event p =
     (if starts ''insert'' p then (TRIGGER_INSERT, drop 6 p)
      else if starts ''update'' p then (TRIGGER_UPDATE, drop 6 p)
      else if starts ''delete'' p then (TRIGGER_DELETE, drop 6 p)
      else (TRIGGER_INSERT, p))"

definition parse_create_trigger :: "cstr \<Rightarrow> CreateTrigger option" where
  "parse_create_trigger p =
     (let (name, p) = parse_identifier 64 p;
          (timing, p) = trigger_timing (skip_whitespace p);
          (event, p) = trigger_event (skip_whitespace p);
          (tbl, p) = parse_identifier 64 (skip_whitespace (skip_word ''on'' (skip_whitespace p)));
          p = skip_whitespace (skip_word ''begin'' (skip_whitespace p))
      in if name = [] then None
         else Some \<lparr>trg_name = name, trg_timing = timing, trg_event = event, trg_table = tbl, trg_action = until_end 255 p\<rparr>)"

record CreateVtable =
  vt_if_not_exists :: bool
  vt_name :: cstr
  vt_module :: cstr
  vt_args :: cstr

definition parse_create_vtable :: "cstr \<Rightarrow> CreateVtable option" where
  "parse_create_vtable p =
     (let (ine, p) = parse_if_not_exists (skip_whitespace p);
          (name, p) = parse_identifier 64 p;
          p = skip_whitespace p
      in if name = [] \<or> \<not> starts ''using'' p then None
         else (let (module, p) = parse_identifier 64 (drop 5 p); p = skip_whitespace p
               in Some \<lparr>vt_if_not_exists = ine, vt_name = name, vt_module = module,
                    vt_args = (if char_at p 0 = 40 then fst (parse_value_token 256 (tl p)) else [])\<rparr>))"

section \<open>ALTER TABLE\<close>

datatype Alter = ALTER_RENAME_TABLE cstr | ALTER_ADD_COLUMN Column | ALTER_DROP_COLUMN cstr

definition alter_type :: "cstr \<Rightarrow> ColumnType \<times> nat" where
  "alter_type ty =
     (if name_is [''int'', ''integer''] ty then (COL_INT, 4)
      else if name_is [''double'', ''real''] ty then (COL_DOUBLE, 8)
      else (COL_TEXT, 4096))"

definition parse_add_column :: "cstr \<Rightarrow> Column" where
  "parse_add_column p =
     (let (name, p) = parse_identifier 32 (skip_whitespace p);
          (ty, p) = parse_identifier 32 (skip_whitespace p)
      in zero_column\<lparr>col_name := name, col_type := fst (alter_type ty), col_size := snd (alter_type ty)\<rparr>)"

definition parse_alter :: "cstr \<Rightarrow> (cstr \<times> Alter) option" where
  "parse_alter p =
     (let p = skip_whitespace p;
          p = (if starts_word is_space ''table'' p then skip_whitespace (drop 5 p) else p);
          (tbl, p) = parse_identifier 64 p;
          p = skip_whitespace p
      in if starts ''rename to'' p then Some (tbl, ALTER_RENAME_TABLE (fst (parse_identifier 64 (skip_whitespace (drop 9 p)))))
         else if starts ''rename'' p
         then (let q = skip_whitespace (drop 6 p); q = (if starts ''to'' q then skip_whitespace (drop 2 q) else q)
               in Some (tbl, ALTER_RENAME_TABLE (fst (parse_identifier 64 q))))
         else if starts ''add column'' p then Some (tbl, ALTER_ADD_COLUMN (parse_add_column (drop 10 p)))
         else if starts ''add'' p then Some (tbl, ALTER_ADD_COLUMN (parse_add_column (drop 3 p)))
         else if starts ''drop column'' p then Some (tbl, ALTER_DROP_COLUMN (fst (parse_identifier 32 (skip_whitespace (drop 11 p)))))
         else if starts ''drop'' p then Some (tbl, ALTER_DROP_COLUMN (fst (parse_identifier 32 (skip_whitespace (drop 4 p)))))
         else None)"

section \<open>BACKUP and RESTORE\<close>

text \<open>\<open>strtoull(s, NULL, 10)\<close>\<close>

definition strtoull :: "cstr \<Rightarrow> 64 word" where
  "strtoull s =
     (case split_sign (skip_spaces s) of (neg, t) \<Rightarrow>
        (let n = digits_val (takeWhile is_digit t)
         in if n \<ge> 2 ^ 64 then - 1 else if neg then - of_nat n else of_nat n))"

definition skip_to :: "string \<Rightarrow> cstr \<Rightarrow> cstr option" where
  "skip_to kw p = (if starts_word space_or_end kw p then Some (skip_whitespace (drop (length kw) p)) else None)"

definition skip_database :: "cstr \<Rightarrow> cstr" where
  "skip_database p = (case skip_to ''database'' p of None \<Rightarrow> p | Some q \<Rightarrow> q)"

definition parse_backup :: "cstr \<Rightarrow> cstr option" where
  "parse_backup p = do {
     p \<leftarrow> skip_to ''to'' (skip_database (skip_whitespace p));
     (dest, p) \<leftarrow> Some (parse_value_token 256 p);
     if dest = [] then None else Some dest }"

record Restore =
  pitr_src :: cstr
  pitr_dest :: cstr
  pitr_until_ts :: "64 word option"
  pitr_until_lsn :: "64 word option"

text \<open>The limit of a restore; \<open>None\<close> for an UNTIL with neither keyword.\<close>

definition parse_until :: "cstr \<Rightarrow> ((64 word option \<times> 64 word option) \<times> cstr) option" where
  "parse_until p =
     (case skip_to ''until'' p of
        None \<Rightarrow> Some ((None, None), p)
      | Some p \<Rightarrow>
          (case skip_to ''timestamp'' p of
             Some p \<Rightarrow> (case parse_value_token 64 p of (t, p) \<Rightarrow> Some ((Some (strtoull t), None), skip_whitespace p))
           | None \<Rightarrow>
               (case skip_to ''lsn'' p of
                  Some p \<Rightarrow> (case parse_value_token 64 p of (t, p) \<Rightarrow> Some ((None, Some (strtoull t)), skip_whitespace p))
                | None \<Rightarrow> None)))"

definition parse_restore :: "cstr \<Rightarrow> Restore option" where
  "parse_restore p = do {
     p \<leftarrow> skip_to ''from'' (skip_database (skip_whitespace p));
     (src, p) \<leftarrow> Some (parse_value_token 256 p);
     if src = [] then None
     else do {
       ((ts, lsn), p) \<leftarrow> parse_until (skip_whitespace p);
       let dest = (case skip_to ''to'' p of None \<Rightarrow> take 240 src @ str_bytes ''_restored.db'' | Some q \<Rightarrow> fst (parse_value_token 256 q));
       if dest = [] then None
       else Some \<lparr>pitr_src = src, pitr_dest = dest, pitr_until_ts = ts, pitr_until_lsn = lsn\<rparr> } }"

section \<open>PRAGMA and ATTACH\<close>

text \<open>The name of a pragma and its value, empty when there is none.\<close>

definition parse_pragma :: "cstr \<Rightarrow> cstr \<times> cstr" where
  "parse_pragma p =
     (let (name, p) = parse_identifier 64 (skip_whitespace p); p = skip_whitespace p
      in (name,
          if char_at p 0 = 61 then fst (parse_identifier 64 (skip_whitespace (tl p)))
          else if char_at p 0 = 40
          then (let q = skip_whitespace (tl p)
                in if is_quote (char_at q 0) then fst (parse_value_token 64 q) else fst (parse_identifier 64 q))
          else []))"

definition skip_keyword :: "string \<Rightarrow> cstr \<Rightarrow> cstr" where
  "skip_keyword kw p = (if starts kw p then skip_whitespace (drop (length kw) p) else p)"

text \<open>The file name (255 bytes) and the alias.\<close>

definition parse_attach :: "cstr \<Rightarrow> cstr \<times> cstr" where
  "parse_attach p =
     (let p = skip_char 39 (skip_keyword ''database'' (skip_whitespace p));
          file = take 255 (takeWhile (\<lambda>c. c \<noteq> 39) p);
          p = skip_whitespace (skip_char 39 (drop (length file) p))
      in (file, fst (parse_identifier 64 (skip_word ''as'' p))))"

end
