(* ===== verification/Parser.thy ===== *)
theory Parser
  imports Parser_Schema
begin

text \<open>
  \<open>prepare_statement\<close> (\<open>src/parser.c\<close>): the prefixes EXPLAIN and WITH, and the choice of the statement by its first
  word.  The struct that the code fills is zero but for the fields of its statement; here those are the
  argument of a constructor.  A nested statement is parsed by the same function, so the parser is a partial function
  (its loops can hang, too); \<open>None\<close> is also an overrun.
\<close>

section \<open>Statements\<close>

datatype Explain = NO_EXPLAIN | EXPLAIN | EXPLAIN_ANALYZE

text \<open>
  The arguments of a common table expression are its name, its column, whether it is recursive, its statement and the
  recursive part of it; \<open>None\<close> is a statement that was rejected (the code keeps what was filled of it).
\<close>

datatype Statement = Statement Explain "Cte list" Body
and Cte = Cte cstr cstr bool "Statement option" "Statement option"
and Body =
    STATEMENT_INSERT InsertParse
  | STATEMENT_INSERT_SELECT cstr ConflictAction Statement
  | STATEMENT_SELECT SelectParse "(SetOp \<times> Statement) option"
  | STATEMENT_UPDATE UpdateParse
  | STATEMENT_DELETE DeleteParse
  | STATEMENT_CREATE_TABLE CreateTable
  | STATEMENT_DROP_TABLE cstr
  | STATEMENT_CREATE_INDEX CreateIndex
  | STATEMENT_CREATE_VIEW cstr cstr
  | STATEMENT_DROP_VIEW cstr
  | STATEMENT_CREATE_TRIGGER CreateTrigger
  | STATEMENT_DROP_TRIGGER cstr
  | STATEMENT_CREATE_VTABLE CreateVtable
  | STATEMENT_ALTER_TABLE cstr Alter
  | STATEMENT_REINDEX cstr
  | STATEMENT_ATTACH cstr cstr
  | STATEMENT_DETACH cstr
  | STATEMENT_BEGIN
  | STATEMENT_COMMIT
  | STATEMENT_ROLLBACK
  | STATEMENT_SAVEPOINT cstr
  | STATEMENT_ROLLBACK_TO cstr
  | STATEMENT_RELEASE_SAVEPOINT cstr
  | STATEMENT_VACUUM cstr
  | STATEMENT_PRAGMA cstr cstr
  | STATEMENT_ANALYZE cstr
  | STATEMENT_BACKUP cstr
  | STATEMENT_RESTORE Restore
  | STATEMENT_HELP

type_synonym 'a prepared = "(PrepareResult + 'a) option"

abbreviation accept :: "'a \<Rightarrow> 'a prepared" where "accept x \<equiv> Some (Inr x)"
abbreviation reject :: "PrepareResult \<Rightarrow> 'a prepared" where "reject e \<equiv> Some (Inl e)"

definition or_syntax_error :: "('a \<Rightarrow> 'b) \<Rightarrow> 'a option \<Rightarrow> 'b prepared" where
  "or_syntax_error f r = (case r of None \<Rightarrow> reject PREPARE_SYNTAX_ERROR | Some x \<Rightarrow> accept (f x))"

definition named :: "(cstr \<Rightarrow> 'a) \<Rightarrow> cstr \<Rightarrow> 'a prepared" where
  "named f name = (if name = [] then reject PREPARE_SYNTAX_ERROR else accept (f name))"

section \<open>Prefixes\<close>

definition parse_explain :: "cstr \<Rightarrow> Explain \<times> cstr" where
  "parse_explain p =
     (if starts_word is_space ''explain'' p
      then (let p = skip_whitespace (drop 7 p)
            in if starts_word space_or_end ''analyze'' p then (EXPLAIN_ANALYZE, skip_whitespace (drop 7 p)) else (EXPLAIN, p))
      else (NO_EXPLAIN, p))"

text \<open>The text between parentheses; 511 bytes are kept.\<close>

fun nested_text :: "int \<Rightarrow> cstr \<Rightarrow> cstr \<times> cstr" where
  "nested_text depth [] = ([], [])"
| "nested_text depth (c # cs) =
     (let depth = (if c = 40 then depth + 1 else if c = 41 then depth - 1 else depth)
      in if depth \<le> 0 then ([], cs) else (case nested_text depth cs of (t, p) \<Rightarrow> (c # t, p)))"

text \<open>The part before \<open>union\<close> and the part behind it.\<close>

fun find_union :: "bool \<Rightarrow> cstr \<Rightarrow> (cstr \<times> cstr) option" where
  "find_union after_space [] = None"
| "find_union after_space (c # cs) =
     (if after_space \<and> starts_word is_space ''union'' (c # cs) then Some ([], drop 5 (c # cs))
      else map_option (\<lambda>(a, r). (c # a, r)) (find_union (is_space c) cs))"

definition recursive_part :: "cstr \<Rightarrow> cstr" where
  "recursive_part p =
     (let p = skip_whitespace p in if starts_word is_space ''all'' p then skip_whitespace (drop 3 p) else p)"

definition accepted :: "PrepareResult + 'a \<Rightarrow> 'a option" where
  "accepted r = (case r of Inl e \<Rightarrow> None | Inr x \<Rightarrow> Some x)"

definition parse_cte_body :: "(cstr \<Rightarrow> Statement prepared) \<Rightarrow> cstr \<Rightarrow> cstr \<Rightarrow> bool \<Rightarrow> cstr \<Rightarrow> Cte option" where
  "parse_cte_body prep name col is_rec sub =
     (case (if is_rec then find_union True sub else None) of
        None \<Rightarrow> do { r \<leftarrow> prep sub; Some (Cte name col is_rec (accepted r) None) }
      | Some (anchor, rest) \<Rightarrow> do {
          r \<leftarrow> prep anchor;
          r' \<leftarrow> prep (recursive_part rest);
          Some (Cte name col is_rec (accepted r) (accepted r')) })"

text \<open>One table expression up to its closing parenthesis.\<close>

definition cte_header :: "cstr \<Rightarrow> (cstr \<times> cstr) \<times> cstr" where
  "cte_header p =
     (let (name, p) = parse_identifier 64 p;
          p = skip_whitespace p;
          (col, p) = (if char_at p 0 = 40
             then (case parse_identifier 32 (tl p) of (c, p) \<Rightarrow> (c, skip_whitespace (skip_char 41 (dropWhile (\<lambda>c. c \<noteq> 41) p))))
             else ([], p));
          p = skip_whitespace (skip_char 40 (skip_keyword ''as'' p))
      in ((name, col), p))"

text \<open>At most four table expressions; \<open>n\<close> of them may still come.\<close>

fun parse_ctes :: "(cstr \<Rightarrow> Statement prepared) \<Rightarrow> bool \<Rightarrow> nat \<Rightarrow> cstr \<Rightarrow> (Cte list \<times> cstr) option" where
  "parse_ctes prep is_rec 0 p = Some ([], p)"
| "parse_ctes prep is_rec (Suc n) p =
     (if p = [] then Some ([], p)
      else (let ((name, col), q) = cte_header p; (sub, q) = nested_text 1 q
            in do {
              cte \<leftarrow> parse_cte_body prep name col is_rec (take 511 sub);
              let q = skip_whitespace q;
              if char_at q 0 = 44
              then do { (ctes, q) \<leftarrow> parse_ctes prep is_rec n (skip_whitespace (tl q)); Some (cte # ctes, q) }
              else Some ([cte], q) }))"

definition parse_with :: "(cstr \<Rightarrow> Statement prepared) \<Rightarrow> cstr \<Rightarrow> (Cte list \<times> cstr) option" where
  "parse_with prep p =
     (if starts_word is_space ''with'' p
      then (let p = skip_whitespace (drop 4 p);
                is_rec = starts_word is_space ''recursive'' p
            in parse_ctes prep is_rec 4 (if is_rec then skip_whitespace (drop 9 p) else p))
      else Some ([], p))"

section \<open>Statements with nested statements\<close>

definition parse_insert :: "(cstr \<Rightarrow> Statement prepared) \<Rightarrow> cstr \<Rightarrow> Body prepared" where
  "parse_insert prep p =
     (let (action, p) = parse_insert_action (skip_whitespace p);
          p = skip_whitespace p;
          (tbl, p) = parse_identifier 64 (if starts_word is_space ''into'' p then drop 4 p else p)
      in if tbl = [] then reject PREPARE_SYNTAX_ERROR
         else do {
           p \<leftarrow> skip_column_list (skip_whitespace p);
           if starts ''select'' p
           then do { r \<leftarrow> prep p; Some (case r of Inl e \<Rightarrow> Inl e | Inr s \<Rightarrow> Inr (STATEMENT_INSERT_SELECT tbl action s)) }
           else or_syntax_error STATEMENT_INSERT (parse_values tbl action p) })"

text \<open>The set operation behind a select and its right-hand side.\<close>

definition with_set_op :: "(cstr \<Rightarrow> Statement prepared) \<Rightarrow> SelectParse \<Rightarrow> cstr \<Rightarrow> Body prepared" where
  "with_set_op prep sp p =
     (case parse_set_op p of
        None \<Rightarrow> accept (STATEMENT_SELECT sp None)
      | Some (op, q) \<Rightarrow> do { r \<leftarrow> prep q; Some (case r of Inl e \<Rightarrow> Inl e | Inr s \<Rightarrow> Inr (STATEMENT_SELECT sp (Some (op, s)))) })"

definition parse_select :: "(cstr \<Rightarrow> Statement prepared) \<Rightarrow> cstr \<Rightarrow> Body prepared" where
  "parse_select prep p =
     (case parse_select_head p of
        None \<Rightarrow> reject PREPARE_SYNTAX_ERROR
      | Some (sp, p) \<Rightarrow>
          (if from_table sp = [] then with_set_op prep sp p
           else do {
             r \<leftarrow> parse_select_tail sp p;
             case r of None \<Rightarrow> reject PREPARE_SYNTAX_ERROR | Some (sp, p) \<Rightarrow> with_set_op prep sp p }))"

section \<open>The other statements\<close>

definition parse_create :: "cstr \<Rightarrow> Body prepared" where
  "parse_create p =
     (let p = skip_whitespace p
      in if starts ''virtual table'' p then or_syntax_error STATEMENT_CREATE_VTABLE (parse_create_vtable (drop 13 p))
         else if starts ''index'' p then map_option (map_sum id STATEMENT_CREATE_INDEX) (parse_create_index (drop 5 p))
         else if starts ''view'' p then or_syntax_error (\<lambda>(n, s). STATEMENT_CREATE_VIEW n s) (parse_create_view (drop 4 p))
         else if starts ''trigger'' p then or_syntax_error STATEMENT_CREATE_TRIGGER (parse_create_trigger (drop 7 p))
         else if starts ''table'' p then map_option (map_sum id STATEMENT_CREATE_TABLE) (parse_create_table (drop 5 p))
         else reject PREPARE_UNRECOGNIZED_STATEMENT)"

definition parse_drop :: "cstr \<Rightarrow> Body prepared" where
  "parse_drop p =
     (let p = skip_whitespace p
      in if starts ''view'' p then accept (STATEMENT_DROP_VIEW (fst (parse_identifier 64 (drop 4 p))))
         else if starts ''trigger'' p then accept (STATEMENT_DROP_TRIGGER (fst (parse_identifier 64 (drop 7 p))))
         else if starts ''table'' p then named STATEMENT_DROP_TABLE (fst (parse_identifier 64 (drop 5 p)))
         else reject PREPARE_UNRECOGNIZED_STATEMENT)"

definition parse_rollback :: "cstr \<Rightarrow> Body prepared" where
  "parse_rollback p =
     (let p = skip_whitespace p
      in if starts ''to'' p
         then named STATEMENT_ROLLBACK_TO (fst (parse_identifier 64 (skip_word ''savepoint'' (skip_whitespace (drop 2 p)))))
         else accept STATEMENT_ROLLBACK)"

definition parse_other :: "cstr \<Rightarrow> Body prepared" where
  "parse_other p =
     (if starts ''begin'' p then accept STATEMENT_BEGIN
      else if starts ''commit'' p then accept STATEMENT_COMMIT
      else if starts ''savepoint'' p then named STATEMENT_SAVEPOINT (fst (parse_identifier 64 (drop 9 p)))
      else if starts ''rollback'' p then parse_rollback (drop 8 p)
      else if starts ''release'' p
      then named STATEMENT_RELEASE_SAVEPOINT (fst (parse_identifier 64 (skip_word ''savepoint'' (skip_whitespace (drop 7 p)))))
      else if starts ''vacuum'' p
      then (let p = skip_whitespace (drop 6 p)
            in accept (STATEMENT_VACUUM (if starts ''into'' p then fst (parse_value_token 256 (skip_whitespace (drop 4 p))) else [])))
      else if starts_word space_or_end ''backup'' p then or_syntax_error STATEMENT_BACKUP (parse_backup (drop 6 p))
      else if starts_word space_or_end ''restore'' p then or_syntax_error STATEMENT_RESTORE (parse_restore (drop 7 p))
      else if starts ''analyze'' p
      then (let p = skip_whitespace (drop 7 p)
            in accept (STATEMENT_ANALYZE (if p \<noteq> [] then fst (parse_identifier 64 p) else [])))
      else if starts ''pragma'' p then (case parse_pragma (drop 6 p) of (n, v) \<Rightarrow> accept (STATEMENT_PRAGMA n v))
      else if starts ''reindex'' p then accept (STATEMENT_REINDEX (fst (parse_identifier 64 (drop 7 p))))
      else if starts ''attach'' p then (case parse_attach (drop 6 p) of (f, a) \<Rightarrow> accept (STATEMENT_ATTACH f a))
      else if starts ''detach'' p
      then accept (STATEMENT_DETACH (fst (parse_identifier 64 (skip_keyword ''database'' (skip_whitespace (drop 6 p))))))
      else if starts ''help'' p \<or> strcmp p (str_bytes ''.help'') = 0 then accept STATEMENT_HELP
      else reject PREPARE_UNRECOGNIZED_STATEMENT)"

definition parse_body :: "(cstr \<Rightarrow> Statement prepared) \<Rightarrow> cstr \<Rightarrow> Body prepared" where
  "parse_body prep p =
     (if starts_word is_space ''alter'' p then or_syntax_error (\<lambda>(t, a). STATEMENT_ALTER_TABLE t a) (parse_alter (drop 5 p))
      else if starts ''insert'' p then parse_insert prep (drop 6 p)
      else if starts ''select'' p then parse_select prep (drop 6 p)
      else if starts ''update'' p then parse_update (drop 6 p) \<bind> or_syntax_error STATEMENT_UPDATE
      else if starts ''delete'' p then parse_delete (drop 6 p) \<bind> or_syntax_error STATEMENT_DELETE
      else if starts ''create'' p then parse_create (drop 6 p)
      else if starts ''drop'' p then parse_drop (drop 4 p)
      else parse_other p)"

lemma parse_cte_body_mono [partial_function_mono]:
  assumes "\<And>p. mono_option (\<lambda>g. F g p)"
  shows "mono_option (\<lambda>g. parse_cte_body (F g) name col is_rec sub)"
  unfolding parse_cte_body_def case_prod_beta by (intro partial_function_mono assms)

lemma parse_ctes_mono [partial_function_mono]:
  assumes "\<And>p. mono_option (\<lambda>g. F g p)"
  shows "mono_option (\<lambda>g. parse_ctes (F g) is_rec n p)"
proof (induction n arbitrary: p)
  case (Suc n)
  then show ?case unfolding parse_ctes.simps case_prod_beta Let_def by (intro partial_function_mono assms)
qed (simp add: partial_function_mono)

lemma parse_with_mono [partial_function_mono]:
  assumes "\<And>p. mono_option (\<lambda>g. F g p)"
  shows "mono_option (\<lambda>g. parse_with (F g) p)"
  unfolding parse_with_def Let_def by (intro partial_function_mono assms)

lemma parse_insert_mono [partial_function_mono]:
  assumes "\<And>p. mono_option (\<lambda>g. F g p)"
  shows "mono_option (\<lambda>g. parse_insert (F g) p)"
  unfolding parse_insert_def Let_def case_prod_beta by (intro partial_function_mono assms)

lemma with_set_op_mono [partial_function_mono]:
  assumes "\<And>p. mono_option (\<lambda>g. F g p)"
  shows "mono_option (\<lambda>g. with_set_op (F g) sp p)"
  unfolding with_set_op_def case_prod_beta by (intro partial_function_mono assms)

lemma parse_select_mono [partial_function_mono]:
  assumes "\<And>p. mono_option (\<lambda>g. F g p)"
  shows "mono_option (\<lambda>g. parse_select (F g) p)"
  unfolding parse_select_def case_prod_beta by (intro partial_function_mono assms)

lemma parse_body_mono [partial_function_mono]:
  assumes "\<And>p. mono_option (\<lambda>g. F g p)"
  shows "mono_option (\<lambda>g. parse_body (F g) p)"
  unfolding parse_body_def by (intro partial_function_mono assms)

partial_function (option) prepare_statement :: "cstr \<Rightarrow> Statement prepared" where
  "prepare_statement input =
     (let (ex, p) = parse_explain (skip_whitespace input)
      in do {
        (ctes, p) \<leftarrow> parse_with prepare_statement p;
        r \<leftarrow> parse_body prepare_statement p;
        Some (map_sum id (Statement ex ctes) r) })"

end
