(* ===== verification/Parser_Where_Print.thy ===== *)
theory Parser_Where_Print
  imports Parser_Where
begin

text \<open>
  Printing a WHERE clause and reading it back: the text of a clause, and the conditions under which the parser
  returns the clause that was printed.
\<close>

section \<open>The text of a clause\<close>

fun op_text :: "CompOp \<Rightarrow> string" where
  "op_text OP_EQ = ''=''" | "op_text OP_GT = ''>''" | "op_text OP_LT = ''<''" | "op_text OP_GTE = ''>=''" | "op_text OP_LTE = ''<=''"
| "op_text OP_IN = ''in''" | "op_text OP_IS_NULL = ''is null''" | "op_text OP_IS_NOT_NULL = ''is not null''"
| "op_text OP_MATCH = ''match''" | "op_text OP_LIKE = ''like''" | "op_text OP_BETWEEN = ''between''" | "op_text OP_GLOB = ''glob''"
| "op_text OP_NOT_LIKE = ''not like''" | "op_text OP_NOT_GLOB = ''not glob''"

fun collate_text :: "CollationType \<Rightarrow> string" where
  "collate_text COLL_NOT_SET = ''''"
| "collate_text COLL_BINARY = '' collate binary''"
| "collate_text COLL_NOCASE = '' collate nocase''"
| "collate_text COLL_RTRIM = '' collate rtrim''"

definition filter_text :: "SingleCond \<Rightarrow> cstr" where
  "filter_text c = (if has_sub_where c
     then str_bytes '' where '' @ sub_where_col c @ str_bytes '' '' @ str_bytes (op_text (sub_where_op c)) @ str_bytes '' '' @
       quote_text (sub_where_val c)
     else [])"

definition operand_text :: "SingleCond \<Rightarrow> cstr" where
  "operand_text c =
     (case cond_op c of
        OP_IS_NULL \<Rightarrow> []
      | OP_IS_NOT_NULL \<Rightarrow> []
      | OP_BETWEEN \<Rightarrow> str_bytes '' '' @ quote_text (raw_val c) @ str_bytes '' and '' @ quote_text (raw_val2 c)
      | OP_IN \<Rightarrow> str_bytes '' (select '' @ sub_col c @ str_bytes '' from '' @ sub_table c @ filter_text c @ str_bytes '')''
      | _ \<Rightarrow> str_bytes '' '' @ quote_text (raw_val c))"

definition cond_text :: "SingleCond \<Rightarrow> cstr" where
  "cond_text c = cond_col c @ str_bytes '' '' @ str_bytes (op_text (cond_op c)) @ operand_text c @ str_bytes (collate_text (cond_collation c))"

fun logic_text :: "LogicOp \<Rightarrow> string" where
  "logic_text LOGIC_AND = '' and ''"
| "logic_text LOGIC_OR = '' or ''"

fun conds_text :: "SingleCond list \<Rightarrow> LogicOp list \<Rightarrow> cstr" where
  "conds_text (c # cs) (l # ls) = cond_text c @ str_bytes (logic_text l) @ conds_text cs ls"
| "conds_text cs _ = concat (map cond_text cs)"

definition where_text :: "WhereClause \<Rightarrow> cstr" where
  "where_text wc = str_bytes ''where '' @ conds_text (conds wc) (logic_ops wc)"

section \<open>What can be printed\<close>

text \<open>Names that fit, literals that fit and are not empty, and no field that the text does not show.\<close>

definition name_ok :: "nat \<Rightarrow> cstr \<Rightarrow> bool" where
  "name_ok n s \<longleftrightarrow> s \<noteq> [] \<and> list_all ident_char s \<and> length s < n"

abbreviation cmp_ops :: "CompOp set" where
  "cmp_ops \<equiv> {OP_EQ, OP_GT, OP_LT, OP_GTE, OP_LTE}"

definition filter_ok :: "SingleCond \<Rightarrow> bool" where
  "filter_ok c \<longleftrightarrow> (if has_sub_where c
     then name_ok 32 (sub_where_col c) \<and> sub_where_op c \<in> cmp_ops \<and> length (sub_where_val c) < 64
     else sub_where_col c = [] \<and> sub_where_op c = OP_EQ \<and> sub_where_val c = [])"

definition operand_ok :: "SingleCond \<Rightarrow> bool" where
  "operand_ok c \<longleftrightarrow>
     (if cond_op c = OP_IN then is_subquery c \<and> name_ok 32 (sub_col c) \<and> name_ok 64 (sub_table c) \<and> filter_ok c \<and> raw_val c = [] \<and> raw_val2 c = []
      else \<not> is_subquery c \<and> sub_table c = [] \<and> sub_col c = [] \<and> \<not> has_sub_where c \<and> filter_ok c \<and>
        (if cond_op c \<in> {OP_IS_NULL, OP_IS_NOT_NULL} then raw_val c = [] \<and> raw_val2 c = []
         else if cond_op c = OP_BETWEEN then length (raw_val c) < 4096 \<and> length (raw_val2 c) < 4096
         else raw_val c \<noteq> [] \<and> length (raw_val c) < 4096 \<and> raw_val2 c = []))"

definition cond_ok :: "SingleCond \<Rightarrow> bool" where
  "cond_ok c \<longleftrightarrow> name_ok 32 (cond_col c) \<and> \<not> starts ''exists'' (cond_col c) \<and> \<not> starts ''not'' (cond_col c) \<and> operand_ok c \<and>
     \<not> is_exists c \<and> \<not> is_not_exists c \<and> \<not> sub_where_is_correlated c \<and> sub_correlated_outer_col c = []"

definition clause_ok :: "WhereClause \<Rightarrow> bool" where
  "clause_ok wc \<longleftrightarrow> has_where wc \<and> conds wc \<noteq> [] \<and> length (conds wc) \<le> 4 \<and> length (logic_ops wc) = length (conds wc) - 1 \<and>
     list_all cond_ok (conds wc)"

section \<open>Reading tokens back\<close>

lemma starts_simps [simp]:
  "starts [] p" "\<not> starts (x # xs) []"
  "starts (x # xs) (c # p) \<longleftrightarrow> to_lower c = to_lower (of_nat (of_char x)) \<and> starts xs p"
  by (auto simp: starts_def strcasecmp_def str_bytes_def)

lemma starts_append: "starts (s @ t) p \<Longrightarrow> starts s p"
  by (induction s arbitrary: p) (simp, case_tac p, simp_all)

lemma starts_word_simps [simp]:
  "starts_word P [] p = P (char_at p 0)" "\<not> starts_word P (x # xs) []"
  "starts_word P (x # xs) (c # p) \<longleftrightarrow> to_lower c = to_lower (of_nat (of_char x)) \<and> starts_word P xs p"
  by (auto simp: starts_word_def)

lemma parse_cmp_simps [simp]:
  "parse_cmp (c # p) =
     (if c = 62 then (if char_at p 0 = 61 then Some (OP_GTE, tl p) else Some (OP_GT, p))
      else if c = 60 then (if char_at p 0 = 61 then Some (OP_LTE, tl p) else Some (OP_LT, p))
      else if c = 61 then Some (OP_EQ, p) else None)"
  by (cases p) (auto simp: parse_cmp_def strncmp_def str_bytes_def)

lemmas lit_simps = to_lower_def str_bytes_def

lemma str_bytes_append [simp]: "str_bytes (s @ t) = str_bytes s @ str_bytes t"
  by (simp add: str_bytes_def)

lemma skip_space [simp]: "skip_whitespace (32 # p) = skip_whitespace p"
  by (simp add: skip_whitespace_def is_space_def)

lemma skip_other [simp]: "\<not> is_space c \<Longrightarrow> skip_whitespace (c # p) = c # p"
  by (simp add: skip_whitespace_def)

lemma skip_idem [simp]: "skip_whitespace (skip_whitespace p) = skip_whitespace p"
  by (simp add: skip_whitespace_def dropWhile_idem)

lemma identifier_space [simp]: "parse_identifier n (32 # p) = parse_identifier n p"
  by (simp add: parse_identifier_def)

lemma token_space [simp]: "parse_value_token n (32 # p) = parse_value_token n p"
  by (simp add: parse_value_token_def parse_value_token_alloc_def)

lemma ident_char_range: "ident_char c \<Longrightarrow> \<not> is_space c \<and> c \<noteq> 59 \<and> c \<noteq> 0"
  by (auto simp: ident_char_def is_alnum_def is_digit_def is_space_def word_le_nat_alt)

lemma skip_name:
  assumes "name_ok n s"
  shows "skip_whitespace (s @ p) = s @ p" "s @ p \<noteq> []" "hd (s @ p) \<noteq> 59"
  using assms ident_char_range by (cases s; auto simp: name_ok_def skip_whitespace_def)+

lemma name_identifier [simp]:
  assumes "name_ok n s" "\<not> ident_char (char_at p 0)"
  shows "parse_identifier n (s @ p) = (s, p)"
proof -
  have a: "list_all ident_char s" "length s < n" using assms(1) by (simp_all add: name_ok_def)
  have "takeWhile ident_char (s @ p) = s" "dropWhile ident_char (s @ p) = p"
    using a(1) assms(2) by (cases p; simp add: takeWhile_append2 dropWhile_append2 list_all_iff)+
  then show ?thesis using a(2) by (simp add: parse_identifier_def skip_name [OF assms(1)])
qed

lemma quoted_token [simp]:
  assumes "char_at r 0 \<noteq> 39" "length s < n"
  shows "parse_value_token n (quote_text s @ r) = (s, r)"
  using assms by (simp add: parse_value_token_def value_token_read)

lemma not_ident [simp]: "\<not> ident_char 32" "\<not> ident_char 41"
  by (simp_all add: ident_char_def is_alnum_def is_digit_def)

text \<open>A name that does not start with a keyword without blanks still does not when a blank follows it.\<close>

lemma starts_name:
  assumes "\<not> starts kw s" "32 \<notin> set (str_bytes kw)"
  shows "\<not> starts kw (s @ 32 # p)"
proof
  assume a: "starts kw (s @ 32 # p)"
  show False
  proof (cases "length kw \<le> length s")
    case True
    then show False using a assms(1) by (simp add: starts_def)
  next
    case False
    then have "map to_lower (str_bytes kw) = map to_lower s @ 32 # map to_lower (take (length kw - length s - 1) p)"
      using a by (simp add: starts_def strcasecmp_def take_Cons' to_lower_def)
    then have "32 \<in> set (map to_lower (str_bytes kw))" by simp
    then obtain c where "c \<in> set (str_bytes kw)" "to_lower c = 32" by auto
    moreover have "to_lower c = 32 \<longleftrightarrow> c = 32" for c
      by (auto simp: to_lower_def word_le_nat_alt)
    ultimately show False using assms(2) by simp
  qed
qed

section \<open>Reading a condition back\<close>

lemma ends_test_other: "ends_test c \<Longrightarrow> c \<noteq> 39 \<and> \<not> ident_char c"
  by (auto simp: ends_test_def is_space_def ident_char_def is_alnum_def is_digit_def word_le_nat_alt)

text \<open>An operator with a value behind it.\<close>

lemma parse_value_operator:
  assumes "op \<notin> {OP_IN, OP_IS_NULL, OP_IS_NOT_NULL, OP_BETWEEN}"
  shows "parse_operator z (str_bytes (op_text op) @ 32 # p) = Some (z\<lparr>cond_op := op\<rparr>, 32 # p)"
  using assms by (cases op) (simp_all add: parse_operator_def lit_simps before_text_def is_space_def)

lemma parse_null_operator:
  assumes "op \<in> {OP_IS_NULL, OP_IS_NOT_NULL}" "ends_test (char_at p 0)"
  shows "parse_operator z (str_bytes (op_text op) @ p) = Some (z\<lparr>cond_op := op\<rparr>, p)"
  using assms(1)
proof (elim insertE)
  assume "op = OP_IS_NULL"
  then show ?thesis using assms(2) by (simp add: parse_operator_def lit_simps)
next
  assume "op = OP_IS_NOT_NULL"
  then show ?thesis using assms(2) by (simp add: parse_operator_def lit_simps)
qed simp

lemma parse_between_operator:
  assumes "length low < 4096" "length high < 4096" "char_at p 0 \<noteq> 39"
  shows "parse_operator z (str_bytes (op_text OP_BETWEEN) @ 32 # quote_text low @ str_bytes '' and '' @ quote_text high @ p) =
    Some (z\<lparr>cond_op := OP_BETWEEN, raw_val := low, raw_val2 := high\<rparr>, p)"
proof -
  have l: "parse_value_token 4096 (32 # quote_text low @ 32 # t) = (low, 32 # t)" for t using assms(1) by simp
  have h: "parse_value_token 4096 (32 # quote_text high @ p) = (high, p)" using assms(2,3) by simp
  show ?thesis
    using l h by (simp add: parse_operator_def parse_between_def lit_simps before_text_def is_space_def)
qed

lemma parse_sub_filter:
  assumes "op \<in> cmp_ops"
  shows "parse_sub_op (str_bytes (op_text op) @ 32 # p) = (op, 32 # p)"
    "skip_whitespace (str_bytes (op_text op) @ p) = str_bytes (op_text op) @ p"
  using assms by (auto simp: parse_sub_op_def lit_simps is_space_def)

lemma parse_in_operator:
  assumes "name_ok 32 (sub_col c)" "name_ok 64 (sub_table c)" "filter_ok c"
  shows "parse_operator z (str_bytes (op_text OP_IN) @ str_bytes '' (select '' @ sub_col c @ str_bytes '' from '' @ sub_table c @
      filter_text c @ str_bytes '')'' @ p) =
    Some (z\<lparr>cond_op := OP_IN, is_subquery := True, sub_col := sub_col c, sub_table := sub_table c, has_sub_where := has_sub_where z \<or> has_sub_where c,
      sub_where_col := if has_sub_where c then sub_where_col c else sub_where_col z,
      sub_where_op := if has_sub_where c then sub_where_op c else sub_where_op z,
      sub_where_val := if has_sub_where c then sub_where_val c else sub_where_val z\<rparr>, p)"
proof -
  let ?tail = "filter_text c @ 41 # p"
  have t: "\<not> ident_char (char_at ?tail 0)" by (simp add: filter_text_def str_bytes_def)
  have from_: "parse_from (102 # 114 # 111 # 109 # 32 # sub_table c @ ?tail) = (sub_table c, ?tail)"
    using name_identifier [OF assms(2) t] by (simp add: parse_from_def lit_simps skip_name [OF assms(2)])
  have scol: "parse_identifier 32 (sub_col c @ 32 # q) = (sub_col c, 32 # q)" for q using assms(1) by simp
  show ?thesis
  proof (cases "has_sub_where c")
    case False
    then have "filter_text c = []" by (simp add: filter_text_def)
    then show ?thesis using False from_ scol
      by (simp add: parse_operator_def parse_in_def lit_simps is_space_def skip_char_def skip_name [OF assms(1)])
  next
    case True
    then have f: "name_ok 32 (sub_where_col c)" "sub_where_op c \<in> cmp_ops" "length (sub_where_val c) < 64"
      using assms(3) by (simp_all add: filter_ok_def)
    have w: "filter_text c = 32 # 119 # 104 # 101 # 114 # 101 # 32 # sub_where_col c @ 32 # str_bytes (op_text (sub_where_op c)) @ 32 # quote_text (sub_where_val c)"
      using True by (simp add: filter_text_def str_bytes_def)
    have v: "parse_value_token 64 (32 # quote_text (sub_where_val c) @ 41 # p) = (sub_where_val c, 41 # p)"
      using f(3) by simp
    have o: "parse_sub_op (str_bytes (op_text (sub_where_op c)) @ 32 # q) = (sub_where_op c, 32 # q)"
      "skip_whitespace (str_bytes (op_text (sub_where_op c)) @ q) = str_bytes (op_text (sub_where_op c)) @ q" for q
      by (rule parse_sub_filter [OF f(2)])+
    show ?thesis using True from_ scol f(1) v o
      by (simp add: parse_operator_def parse_in_def to_lower_def str_bytes_def [of "_ # _"] is_space_def skip_char_def skip_name [OF assms(1)] w)
  qed
qed

text \<open>The condition without its collation.\<close>

definition no_collation :: "SingleCond \<Rightarrow> SingleCond" where
  "no_collation c = c\<lparr>cond_collation := COLL_NOT_SET\<rparr>"

lemma parse_column_cond_step:
  assumes "name_ok 32 name" "skip_whitespace rest = rest" "parse_operator (zero_cond\<lparr>cond_col := name\<rparr>) rest = Some (cond, q)"
  shows "parse_column_cond (name @ 32 # rest) =
    (if takes_value cond
     then (let (raw, p) = parse_value_token 4096 q in if raw = [] then None else Some (cond\<lparr>raw_val := raw\<rparr>, p))
     else Some (cond, q))"
proof -
  have "parse_identifier 32 (name @ 32 # rest) = (name, 32 # rest)" using assms(1) by simp
  moreover have "name \<noteq> []" using assms(1) by (simp add: name_ok_def)
  ultimately show ?thesis using assms(2,3) by (simp add: parse_column_cond_def)
qed

lemma cond_rebuild:
  assumes "cond_ok c"
  shows "cond_op c \<in> {OP_IS_NULL, OP_IS_NOT_NULL} \<Longrightarrow> zero_cond\<lparr>cond_col := cond_col c, cond_op := cond_op c\<rparr> = no_collation c"
    "cond_op c = OP_BETWEEN \<Longrightarrow>
      zero_cond\<lparr>cond_col := cond_col c, cond_op := OP_BETWEEN, raw_val := raw_val c, raw_val2 := raw_val2 c\<rparr> = no_collation c"
    "cond_op c \<notin> {OP_IN, OP_IS_NULL, OP_IS_NOT_NULL, OP_BETWEEN} \<Longrightarrow>
      zero_cond\<lparr>cond_col := cond_col c, cond_op := cond_op c, raw_val := raw_val c\<rparr> = no_collation c"
    "cond_op c = OP_IN \<Longrightarrow> zero_cond\<lparr>cond_col := cond_col c, cond_op := OP_IN, is_subquery := True, sub_col := sub_col c,
      sub_table := sub_table c, has_sub_where := has_sub_where c, sub_where_col := sub_where_col c,
      sub_where_op := sub_where_op c, sub_where_val := sub_where_val c\<rparr> = no_collation c"
  using assms by (cases c; auto simp: zero_cond_def no_collation_def operand_ok_def filter_ok_def cond_ok_def)+

lemma parse_column_cond_text:
  assumes "cond_ok c" "ends_test (char_at p 0)"
  shows "parse_column_cond (cond_col c @ 32 # str_bytes (op_text (cond_op c)) @ operand_text c @ p) = Some (no_collation c, p)"
proof -
  have name: "name_ok 32 (cond_col c)" and opd: "operand_ok c" using assms(1) by (simp_all add: cond_ok_def)
  let ?o = "str_bytes (op_text (cond_op c)) @ operand_text c @ p"
  have skip: "skip_whitespace ?o = ?o" by (cases "cond_op c") (simp_all add: str_bytes_def is_space_def)
  note step = parse_column_cond_step [OF name skip]
  have e: "char_at p 0 \<noteq> 39" using ends_test_other [OF assms(2)] by simp
  note same = cond_rebuild [OF assms(1)]
  consider (null) "cond_op c \<in> {OP_IS_NULL, OP_IS_NOT_NULL}" | (between) "cond_op c = OP_BETWEEN" | (query) "cond_op c = OP_IN"
    | (val) "cond_op c \<notin> {OP_IN, OP_IS_NULL, OP_IS_NOT_NULL, OP_BETWEEN}" by blast
  then show ?thesis
  proof cases
    case null
    then have "operand_text c = []" by (auto simp: operand_text_def)
    then have "parse_operator (zero_cond\<lparr>cond_col := cond_col c\<rparr>) ?o = Some (no_collation c, p)"
      using parse_null_operator [OF null assms(2)] same(1) [OF null] by simp
    moreover have "\<not> takes_value (no_collation c)" using null by (auto simp: takes_value_def no_collation_def)
    ultimately show ?thesis using step by simp
  next
    case between
    then have b: "length (raw_val c) < 4096" "length (raw_val2 c) < 4096" using opd by (simp_all add: operand_ok_def)
    have t: "operand_text c @ p = 32 # quote_text (raw_val c) @ str_bytes '' and '' @ quote_text (raw_val2 c) @ p"
      using between by (simp add: operand_text_def str_bytes_def)
    have "parse_operator (zero_cond\<lparr>cond_col := cond_col c\<rparr>) ?o = Some (no_collation c, p)"
      unfolding t between same(2) [OF between, symmetric] by (rule parse_between_operator [OF b e])
    moreover have "\<not> takes_value (no_collation c)" using between by (simp add: takes_value_def no_collation_def)
    ultimately show ?thesis using step by simp
  next
    case query
    then have q: "name_ok 32 (sub_col c)" "name_ok 64 (sub_table c)" "filter_ok c" "is_subquery c"
      using opd by (simp_all add: operand_ok_def)
    have t: "operand_text c @ p = str_bytes '' (select '' @ sub_col c @ str_bytes '' from '' @ sub_table c @ filter_text c @ str_bytes '')'' @ p"
      using query by (simp add: operand_text_def)
    have f: "\<not> has_sub_where c \<Longrightarrow> sub_where_col c = [] \<and> sub_where_op c = OP_EQ \<and> sub_where_val c = []"
      using q(3) by (simp add: filter_ok_def)
    have "parse_operator (zero_cond\<lparr>cond_col := cond_col c\<rparr>) ?o = Some (no_collation c, p)"
      unfolding t query parse_in_operator [OF q(1-3)] same(4) [OF query, symmetric] using f by (auto simp: zero_cond_def)
    moreover have "\<not> takes_value (no_collation c)" using q(4) by (simp add: takes_value_def no_collation_def)
    ultimately show ?thesis using step by simp
  next
    case val
    then have v: "raw_val c \<noteq> []" "length (raw_val c) < 4096" using opd by (simp_all add: operand_ok_def)
    let ?c = "zero_cond\<lparr>cond_col := cond_col c, cond_op := cond_op c\<rparr>"
    have t: "operand_text c @ p = 32 # quote_text (raw_val c) @ p"
      using val by (cases "cond_op c") (simp_all add: operand_text_def str_bytes_def)
    have "parse_operator (zero_cond\<lparr>cond_col := cond_col c\<rparr>) ?o = Some (?c, 32 # quote_text (raw_val c) @ p)"
      unfolding t using parse_value_operator [OF val] by simp
    moreover have "parse_value_token 4096 (32 # quote_text (raw_val c) @ p) = (raw_val c, p)" using v(2) e by simp
    moreover have "takes_value ?c" using val by (simp add: takes_value_def zero_cond_def)
    ultimately show ?thesis using step same(3) [OF val] v(1) by (simp del: token_space)
  qed
qed

text \<open>The whole condition, with blanks of the rest possibly skipped.\<close>

lemma parse_cond_text:
  assumes "cond_ok c" "ends_test (char_at p 0)" "\<not> starts ''collate'' (skip_whitespace p)"
  obtains q where "parse_cond (cond_text c @ p) = Some (Some (c, q))" "skip_whitespace q = skip_whitespace p"
proof -
  let ?t = "str_bytes (collate_text (cond_collation c)) @ p"
  have eq: "cond_text c @ p = cond_col c @ 32 # str_bytes (op_text (cond_op c)) @ operand_text c @ ?t"
    by (simp add: cond_text_def str_bytes_def)
  have ends: "ends_test (char_at ?t 0)"
    using assms(2) by (cases "cond_collation c") (simp_all add: str_bytes_def ends_test_def is_space_def)
  have kw: "\<not> starts ''exists'' (cond_text c @ p)" "\<not> starts ''not'' (cond_text c @ p)"
    using assms(1) starts_name unfolding eq by (auto simp: cond_ok_def str_bytes_def)
  have not_exists: "\<not> starts ''not exists'' (cond_text c @ p)"
    using kw(2) starts_append [of "''not''" "'' exists''"] by auto
  have "parse_cond (cond_text c @ p) = Some (Some (parse_collate (no_collation c) (skip_whitespace ?t)))"
    using kw(1) not_exists parse_column_cond_text [OF assms(1) ends] by (simp add: parse_cond_def eq)
  then show ?thesis
    using that assms(3)
    by (cases "cond_collation c") (simp_all add: parse_collate_def collation_name_def no_collation_def str_bytes_def to_lower_def is_space_def)
qed

section \<open>Reading a clause back\<close>

text \<open>What may stand behind a clause: nothing, or a semicolon.\<close>

definition at_end :: "cstr \<Rightarrow> bool" where
  "at_end p \<longleftrightarrow> p = [] \<or> hd p = 59"

lemma at_endD:
  assumes "at_end p"
  shows "ends_test (char_at p 0)" "skip_whitespace p = p" "\<not> starts ''collate'' p"
    "\<not> starts_word P ''and'' p" "\<not> starts_word P ''or'' p" "\<not> starts ''where'' p"
  using assms by (cases p; simp add: at_end_def ends_test_def skip_whitespace_def is_space_def to_lower_def)+

lemma cond_text_skip:
  assumes "cond_ok c"
  shows "skip_whitespace (cond_text c @ p) = cond_text c @ p" "cond_text c @ p \<noteq> []" "hd (cond_text c @ p) \<noteq> 59"
proof -
  have "name_ok 32 (cond_col c)" using assms by (simp add: cond_ok_def)
  from skip_name [OF this] show "skip_whitespace (cond_text c @ p) = cond_text c @ p" "cond_text c @ p \<noteq> []" "hd (cond_text c @ p) \<noteq> 59"
    by (simp_all add: cond_text_def)
qed

text \<open>The conditions with an operator behind each.\<close>

definition prefix_text :: "SingleCond list \<Rightarrow> LogicOp list \<Rightarrow> cstr" where
  "prefix_text cs ls = concat (map2 (\<lambda>c l. cond_text c @ str_bytes (logic_text l)) cs ls)"

lemma conds_text_snoc: "length ls = length cs \<Longrightarrow> conds_text (cs @ [c]) ls = prefix_text cs ls @ cond_text c"
  by (induction cs ls rule: list_induct2') (simp_all add: prefix_text_def)

lemma prefix_text_skip:
  assumes "list_all cond_ok cs" "length ls = length cs" "skip_whitespace p = p"
  shows "skip_whitespace (prefix_text cs ls @ p) = prefix_text cs ls @ p"
  using assms cond_text_skip(1) by (cases cs; cases ls) (simp_all add: prefix_text_def)

text \<open>One turn of the loop.\<close>

lemma parse_conds_step:
  assumes "cond_ok c" "length (conds wc) < 4" "skip_whitespace p = cond_text c @ t" "ends_test (char_at t 0)"
    and "\<not> starts ''collate'' (skip_whitespace t)"
  shows "parse_conds wc p =
    (let wc' = wc\<lparr>conds := conds wc @ [c]\<rparr>; q = skip_whitespace t
     in if starts_word space_or_end ''and'' q then parse_conds (add_logic LOGIC_AND wc') (drop 3 q)
        else if starts_word space_or_end ''or'' q then parse_conds (add_logic LOGIC_OR wc') (drop 2 q)
        else Some (Some (wc', q)))"
proof -
  obtain q where q: "parse_cond (cond_text c @ t) = Some (Some (c, q))" "skip_whitespace q = skip_whitespace t"
    by (rule parse_cond_text [OF assms(1,4,5)])
  have n: "\<not> 4 \<le> length (conds wc)" using assms(2) by simp
  show ?thesis
    using n cond_text_skip(2,3) [OF assms(1), of t] q
    by (subst parse_conds.simps) (simp only: assms(3) Let_def option.case prod.case refl if_True if_False simp_thms)
qed

lemma parse_conds_skip: "parse_conds wc (skip_whitespace p) = parse_conds wc p"
  by (subst (1 2) parse_conds.simps) simp

lemma parse_conds_prefix:
  assumes "list_all cond_ok cs" "length ls = length cs" "length (conds wc) + length cs \<le> 4"
    and "skip_whitespace p = prefix_text cs ls @ rest" "skip_whitespace rest = rest"
  shows "parse_conds wc p =
    parse_conds (wc\<lparr>conds := conds wc @ cs, logic_ops := logic_ops wc @ take (3 - length (conds wc)) ls\<rparr>) rest"
  using assms
proof (induction cs arbitrary: ls wc p)
  case Nil
  then show ?case using parse_conds_skip [of wc p] by (simp add: prefix_text_def)
next
  case (Cons c cs)
  then obtain l ls' where ls: "ls = l # ls'" "length ls' = length cs" by (cases ls) auto
  have c: "cond_ok c" "length (conds wc) < 4" using Cons.prems(1,3) by simp_all
  let ?rest = "prefix_text cs ls' @ rest"
  let ?t = "str_bytes (logic_text l) @ ?rest"
  have p: "skip_whitespace p = cond_text c @ ?t" using Cons.prems(4) by (simp add: ls prefix_text_def)
  have t: "ends_test (char_at ?t 0)" "\<not> starts ''collate'' (skip_whitespace ?t)"
    by (cases l; simp add: str_bytes_def ends_test_def is_space_def to_lower_def)+
  have rest: "skip_whitespace (32 # ?rest) = ?rest"
    using prefix_text_skip [OF _ ls(2) Cons.prems(5)] Cons.prems(1) by simp
  let ?wc = "add_logic l (wc\<lparr>conds := conds wc @ [c]\<rparr>)"
  have "parse_conds wc p = parse_conds ?wc (32 # ?rest)"
    using parse_conds_step [OF c p t] by (cases l) (simp_all add: str_bytes_def is_space_def to_lower_def space_or_end_def)
  also have "\<dots> = parse_conds (?wc\<lparr>conds := conds ?wc @ cs, logic_ops := logic_ops ?wc @ take (3 - length (conds ?wc)) ls'\<rparr>) rest"
    by (rule Cons.IH) (use Cons.prems(1,3,5) ls(2) rest in \<open>simp_all add: add_logic_def\<close>)
  finally show ?case using c(2) by (cases "length (conds wc) < 3") (simp_all add: add_logic_def ls(1) take_Cons')
qed

text \<open>The whole text of a clause, and the last condition with what follows it.\<close>

lemma where_prefix:
  assumes "list_all cond_ok cs" "length ls = length cs" "length cs \<le> 4" "cond_ok c"
  shows "parse_where_clause (str_bytes ''where '' @ prefix_text cs ls @ cond_text c @ r) =
    parse_conds \<lparr>has_where = True, conds = cs, logic_ops = take 3 ls\<rparr> (cond_text c @ r)"
proof -
  let ?p = "prefix_text cs ls @ cond_text c @ r"
  have c: "skip_whitespace (cond_text c @ r) = cond_text c @ r" by (rule cond_text_skip(1) [OF assms(4)])
  have "parse_where_clause (str_bytes ''where '' @ ?p) = parse_conds \<lparr>has_where = True, conds = [], logic_ops = []\<rparr> (32 # ?p)"
    by (simp add: parse_where_clause_def str_bytes_def is_space_def to_lower_def)
  then show ?thesis
    using parse_conds_prefix [OF assms(1,2) _ _ c, of "\<lparr>has_where = True, conds = [], logic_ops = []\<rparr>" "32 # ?p"]
      prefix_text_skip [OF assms(1,2) c] assms(3) by simp
qed

lemma parse_where_text:
  assumes "clause_ok wc" "at_end r"
  shows "parse_where_clause (where_text wc @ r) = Some (Some (wc, r))"
proof -
  obtain cs c where cs: "conds wc = cs @ [c]" using assms(1) by (cases "conds wc" rule: rev_cases) (auto simp: clause_ok_def)
  then have w: "has_where wc" "list_all cond_ok cs" "length (logic_ops wc) = length cs" "length cs < 4" "cond_ok c"
    using assms(1) by (simp_all add: clause_ok_def)
  let ?wc = "\<lparr>has_where = True, conds = cs, logic_ops = logic_ops wc\<rparr>"
  note e = at_endD [OF assms(2)]
  have "parse_where_clause (where_text wc @ r) = parse_conds ?wc (cond_text c @ r)"
    using where_prefix [OF w(2,3) _ w(5), of r] w(3,4) by (simp add: where_text_def cs conds_text_snoc)
  also have "\<dots> = Some (Some (?wc\<lparr>conds := cs @ [c]\<rparr>, r))"
    using parse_conds_step [OF w(5) _ _ e(1), of ?wc] cond_text_skip(1) [OF w(5)] w(4) e by simp
  finally show ?thesis using w(1) cs by (cases wc) simp
qed

text \<open>
  C19.  A WHERE clause round trip.  Every clause of one to four conditions, joined by AND and OR, on named columns, each a
  comparison, a pattern, a test for NULL, a range or an IN with a subquery, with any literal that fits and any
  collation, is read back from its text exactly, up to the end of the statement.
\<close>

theorem where_clause_roundtrip:
  assumes "clause_ok wc" "at_end r"
  shows "parse_where_clause (where_text wc @ r) = Some (Some (wc, r))"
  by (rule parse_where_text [OF assms])

section \<open>What the parser drops and rejects\<close>

text \<open>
  A fifth condition is dropped.  The clause has room for four; behind the fourth, the rest of the statement is left
  unread and the clause is returned without an error: so a DELETE with five conditions deletes the rows that satisfy the
  first four.
\<close>

theorem fifth_condition_dropped:
  assumes "list_all cond_ok cs" "length cs = 4" "length ls = 4" "cond_ok c"
  shows "parse_where_clause (str_bytes ''where '' @ conds_text (cs @ [c]) ls) =
    Some (Some (\<lparr>has_where = True, conds = cs, logic_ops = take 3 ls\<rparr>, cond_text c))"
proof -
  have "parse_conds \<lparr>has_where = True, conds = cs, logic_ops = take 3 ls\<rparr> (cond_text c) =
      Some (Some (\<lparr>has_where = True, conds = cs, logic_ops = take 3 ls\<rparr>, cond_text c))"
    using cond_text_skip(1) [OF assms(4), of "[]"] assms(2) by (subst parse_conds.simps) simp
  then show ?thesis using where_prefix [OF assms(1) _ _ assms(4), of ls "[]"] assms(2,3) by (simp add: conds_text_snoc)
qed

end
