(* ===== verification/Parser_Statements.thy ===== *)
theory Parser_Statements
  imports Parser Parser_Where_Print
begin

text \<open>
  The text of INSERT, UPDATE and DELETE statements, and \<open>prepare_statement\<close> (\<open>src/parser.c\<close>) on it: what was printed
  is read back.
\<close>

section \<open>The text of a statement\<close>

text \<open>A literal with its NULL flag; the parser keeps the word that it read for NULL.\<close>

definition literal_text :: "cstr \<times> bool \<Rightarrow> cstr" where
  "literal_text v = (if snd v then fst v else quote_text (fst v))"

definition literal_ok :: "cstr \<times> bool \<Rightarrow> bool" where
  "literal_ok v \<longleftrightarrow> (snd v \<longrightarrow> fst v = str_bytes ''null'')"

fun comma_list :: "cstr list \<Rightarrow> cstr" where
  "comma_list [] = []"
| "comma_list [x] = x"
| "comma_list (x # xs) = x @ 44 # comma_list xs"

definition action_text :: "ConflictAction \<Rightarrow> string" where
  "action_text a = (case a of CONFLICT_IGNORE \<Rightarrow> ''or ignore '' | CONFLICT_REPLACE \<Rightarrow> ''or replace '' | _ \<Rightarrow> '''')"

definition row_text :: "(cstr \<times> bool) list \<Rightarrow> cstr" where
  "row_text row = 40 # comma_list (map literal_text row) @ [41]"

definition pair_text :: "SetPair \<Rightarrow> cstr" where
  "pair_text s = set_col s @ str_bytes '' = '' @ literal_text (set_val s, set_null s)"

definition tail_text :: "WhereClause \<Rightarrow> cstr" where
  "tail_text wc = (if has_where wc then 32 # where_text wc else [])"

fun body_text :: "Body \<Rightarrow> cstr" where
  "body_text (STATEMENT_INSERT i) = str_bytes ''insert '' @ str_bytes (action_text (ins_action i)) @ str_bytes ''into '' @ ins_table i @
     str_bytes '' values '' @ comma_list (map row_text (ins_rows i))"
| "body_text (STATEMENT_UPDATE u) = str_bytes ''update '' @ up_table u @ str_bytes '' set '' @ comma_list (map pair_text (up_pairs u)) @
     tail_text (up_where u)"
| "body_text (STATEMENT_DELETE d) = str_bytes ''delete from '' @ del_table d @ tail_text (del_where d)"
| "body_text _ = []"

definition explain_text :: "Explain \<Rightarrow> string" where
  "explain_text e = (case e of NO_EXPLAIN \<Rightarrow> '''' | EXPLAIN \<Rightarrow> ''explain '' | EXPLAIN_ANALYZE \<Rightarrow> ''explain analyze '')"

section \<open>What can be printed\<close>

definition row_ok :: "(cstr \<times> bool) list \<Rightarrow> bool" where
  "row_ok row \<longleftrightarrow> row \<noteq> [] \<and> length row \<le> 16 \<and> list_all literal_ok row"

definition pair_ok :: "SetPair \<Rightarrow> bool" where
  "pair_ok s \<longleftrightarrow> name_ok 32 (set_col s) \<and> \<not> starts ''where'' (set_col s) \<and> literal_ok (set_val s, set_null s)"

definition tail_ok :: "WhereClause \<Rightarrow> bool" where
  "tail_ok wc \<longleftrightarrow> (if has_where wc then clause_ok wc else conds wc = [] \<and> logic_ops wc = [])"

fun body_ok :: "Body \<Rightarrow> bool" where
  "body_ok (STATEMENT_INSERT i) \<longleftrightarrow> name_ok 64 (ins_table i) \<and> ins_action i \<noteq> CONFLICT_UPDATE \<and> ins_rows i \<noteq> [] \<and> length (ins_rows i) \<le> 8 \<and>
     list_all row_ok (ins_rows i) \<and> ins_num_values i = length (last (ins_rows i)) \<and> ins_pairs i = [] \<and> ins_expires i = 0 \<and>
     ins_returning i = None"
| "body_ok (STATEMENT_UPDATE u) \<longleftrightarrow> name_ok 64 (up_table u) \<and> up_pairs u \<noteq> [] \<and> length (up_pairs u) \<le> 16 \<and> list_all pair_ok (up_pairs u) \<and>
     tail_ok (up_where u) \<and> up_returning u = None"
| "body_ok (STATEMENT_DELETE d) \<longleftrightarrow> name_ok 64 (del_table d) \<and> tail_ok (del_where d) \<and> del_returning d = None"
| "body_ok _ \<longleftrightarrow> False"

section \<open>Rows\<close>

lemma comma_list_Cons: "xs \<noteq> [] \<Longrightarrow> comma_list (x # xs) = x @ 44 # comma_list xs"
  by (cases xs) simp_all

lemma quote_length: "length s + 2 \<le> length (quote_text s)"
proof -
  have "length s \<le> length (escape_quotes s)" by (induction s) simp_all
  then show ?thesis by (simp add: quote_text_def)
qed

lemma parse_literal:
  assumes "literal_ok v" "char_at t 0 = 44 \<or> char_at t 0 = 41"
  obtains tk where "parse_value_token_alloc True 4096 (literal_text v @ t) = (tk, t)" "token_string tk = fst v" "tok_null tk = snd v"
proof (cases "snd v")
  case True
  then have v: "literal_text v = [110, 117, 108, 108]" "fst v = [110, 117, 108, 108]" "snd v"
    using assms(1) by (simp_all add: literal_ok_def literal_text_def str_bytes_def)
  obtain c t' where t: "t = c # t'" "c = 44 \<or> c = 41" using assms(2) by (cases t) (auto simp: char_at_def)
  have "scan_token (110 # 117 # 108 # 108 # t) = t" "\<not> is_hex (110 # 117 # 108 # 108 # t)"
    using t(2) by (auto simp: t(1) scan_token_def is_hex_def is_quote_def plain_char_def is_space_def)
  then have "parse_value_token_alloc True 4096 (literal_text v @ t) =
      (\<lparr>tok_text = [110, 117, 108, 108], tok_dyn = None, tok_null = True, tok_quoted = False\<rparr>, t)"
    by (simp add: v(1) parse_value_token_alloc_def is_space_def is_quote_def copy_token_def strcasecmp_def str_bytes_def to_lower_def)
  then show ?thesis using that v by (simp add: token_string_def)
next
  case False
  then have v: "literal_text v = quote_text (fst v)" by (simp add: literal_text_def)
  have t: "char_at t 0 \<noteq> 39" using assms(2) by auto
  show ?thesis using that value_token_read [OF t, of True 4096 "fst v"] quote_length [of "fst v"] False
    by (auto simp: v token_string_def)
qed

lemma literal_start:
  assumes "literal_ok v"
  shows "literal_text v @ t \<noteq> []" "hd (literal_text v @ t) \<noteq> 41"
  using assms by (cases "snd v"; simp add: literal_ok_def literal_text_def quote_text_def str_bytes_def)+

lemma parse_row_text:
  assumes "row \<noteq> []" "list_all literal_ok row" "length vals + length row \<le> 16"
  shows "parse_row vals (comma_list (map literal_text row) @ 41 # r) = Some (vals @ row, 41 # r)"
  using assms
proof (induction row arbitrary: vals)
  case (Cons v row)
  let ?t = "(if row = [] then [] else 44 # comma_list (map literal_text row)) @ 41 # r"
  have eq: "comma_list (map literal_text (v # row)) @ 41 # r = literal_text v @ ?t" by (simp add: comma_list_Cons)
  obtain tk where tk: "parse_value_token_alloc True 4096 (literal_text v @ ?t) = (tk, ?t)" "token_string tk = fst v" "tok_null tk = snd v"
    by (rule parse_literal [of v ?t]) (use Cons.prems(2) in auto)
  have n: "\<not> 16 \<le> length vals" "literal_ok v" using Cons.prems(2,3) by simp_all
  have skip: "skip_whitespace ?t = ?t" by (simp add: skip_whitespace_def is_space_def)
  have step: "parse_row vals (literal_text v @ ?t) =
      (if char_at ?t 0 = 44 then parse_row (vals @ [v]) (tl ?t)
       else if char_at ?t 0 \<noteq> 41 then None else parse_row (vals @ [v]) ?t)"
    by (subst parse_row.simps) (use literal_start [OF n(2), of ?t] n(1) tk skip in \<open>simp add: Let_def\<close>)
  show ?case
  proof (cases "row = []")
    case True
    then show ?thesis unfolding eq step by simp (subst parse_row.simps, simp)
  next
    case False
    then show ?thesis unfolding eq step using Cons.IH [of "vals @ [v]"] Cons.prems by simp
  qed
qed simp

lemma parse_rows_text:
  assumes "rows \<noteq> []" "list_all row_ok rows" "length done + length rows \<le> 8" "at_end r"
  shows "parse_rows done (comma_list (map row_text rows) @ r) = Some (done @ rows, r)"
  using assms
proof (induction rows arbitrary: "done")
  case (Cons row rows)
  let ?t = "(if rows = [] then [] else 44 # comma_list (map row_text rows)) @ r"
  have eq: "comma_list (map row_text (row # rows)) @ r = 40 # comma_list (map literal_text row) @ 41 # ?t"
    by (simp add: comma_list_Cons row_text_def)
  have row: "parse_row [] (comma_list (map literal_text row) @ 41 # ?t) = Some (row, 41 # ?t)"
    using parse_row_text [of row "[]" ?t] Cons.prems(2) by (simp add: row_ok_def)
  have skip: "skip_whitespace ?t = ?t" using at_endD(2) [OF Cons.prems(4)] by (simp add: skip_whitespace_def is_space_def)
  have step: "parse_rows done (40 # comma_list (map literal_text row) @ 41 # ?t) =
      (if char_at ?t 0 = 44 then parse_rows (done @ [row]) (tl ?t) else Some (done @ [row], ?t))"
    by (subst parse_rows.simps) (use Cons.prems(3) row skip in \<open>simp add: Let_def skip_char_def is_space_def\<close>)
  show ?case
  proof (cases "rows = []")
    case True
    then have "char_at ?t 0 \<noteq> 44" using Cons.prems(4) by (cases r) (auto simp: at_end_def)
    then show ?thesis unfolding eq step using True by simp
  next
    case False
    then show ?thesis unfolding eq step using Cons.IH [of "done @ [row]"] Cons.prems by simp
  qed
qed simp


lemma row_text_start: "rows \<noteq> [] \<Longrightarrow> char_at (comma_list (map row_text rows) @ r) 0 = 40"
  by (cases rows; cases "tl rows") (simp_all add: row_text_def)

lemma parse_values_text:
  assumes "body_ok (STATEMENT_INSERT i)" "at_end r" "act = ins_action i"
  shows "parse_values (ins_table i) act (str_bytes ''values '' @ comma_list (map row_text (ins_rows i)) @ r) = Some i"
proof -
  let ?rows = "ins_rows i"
  have ok: "?rows \<noteq> []" "list_all row_ok ?rows" "length ?rows \<le> 8" "ins_num_values i = length (last ?rows)" "ins_num_values i \<noteq> 0"
    "ins_pairs i = []" "ins_expires i = 0" "ins_returning i = None"
    using assms(1) by (auto simp: list_all_iff row_ok_def)
  have "parse_rows [] (32 # comma_list (map row_text ?rows) @ r) = parse_rows [] (comma_list (map row_text ?rows) @ r)"
    by (subst (1 2) parse_rows.simps) (use row_text_start [OF ok(1), of r] in \<open>auto simp: char_at_def split: if_splits\<close>)
  also have "\<dots> = Some (?rows, r)" using parse_rows_text [OF ok(1,2) _ assms(2), of "[]"] ok(3) by simp
  finally have rows: "parse_rows [] (skip_word ''values'' (str_bytes ''values '' @ comma_list (map row_text ?rows) @ r)) = Some (?rows, r)"
    by (simp add: skip_word_def str_bytes_def to_lower_def)
  have tail: "skip_whitespace r = r" "parse_on_conflict r = ((None, []), r)" "parse_expires e r = (e, r)" "parse_returning r = (None, r)" for e
    using assms(2) by (cases r; simp add: at_end_def skip_whitespace_def is_space_def parse_on_conflict_def parse_expires_def parse_returning_def
      to_lower_def)+
  show ?thesis
    unfolding parse_values_def rows using ok tail assms(3) by (simp add: Let_def)
qed

section \<open>Assignments\<close>

lemma expr_chars_Cons:
  assumes "0 < n"
  shows "expr_chars stop n depth (c # cs) =
    (let depth = (if c = 40 then depth + 1 else if c = 41 then depth - 1 else depth)
     in if depth = 0 \<and> stop (c # cs) then ([], c # cs)
        else (case expr_chars stop (n - 1) depth cs of (t, p) \<Rightarrow> (c # t, p)))"
  using assms by (cases n) (simp_all add: Let_def)

lemma expr_chars_Nil: "expr_chars stop n depth [] = ([], [])"
  by (cases n) simp_all

text \<open>What may stand behind an assignment.\<close>

definition set_end :: "cstr \<Rightarrow> bool" where
  "set_end t \<longleftrightarrow> at_end t \<or> char_at t 0 = 44 \<or> (\<exists>u. t = str_bytes '' where'' @ u)"

lemma parse_pair:
  assumes "pair_ok s" "set_end t"
  obtains q where "parse_set_pair (pair_text s @ t) = Some (s, q)" "skip_whitespace q = skip_whitespace t"
proof -
  let ?v = "literal_text (set_val s, set_null s)"
  have s: "name_ok 32 (set_col s)" "set_col s \<noteq> []" "literal_ok (set_val s, set_null s)"
    using assms(1) by (simp_all add: pair_ok_def name_ok_def)
  have id: "parse_identifier 32 (pair_text s @ t) = (set_col s, 32 # 61 # 32 # ?v @ t)"
    using s(1) by (simp add: pair_text_def str_bytes_def)
  have pair: "parse_set_pair (pair_text s @ t) =
      (case parse_set_value (skip_whitespace (?v @ t)) of ((null, v), p) \<Rightarrow> Some (\<lparr>set_col = set_col s, set_null = null, set_val = v\<rparr>, p))"
    using s(2) by (simp add: parse_set_pair_def id is_space_def)
  show ?thesis
  proof (cases "set_null s")
    case True
    then have v: "?v = [110, 117, 108, 108]" "set_val s = [110, 117, 108, 108]"
      using s(3) by (simp_all add: literal_ok_def literal_text_def str_bytes_def)
    let ?stop = "\<lambda>p. char_at p 0 = 44 \<or> char_at p 0 = 59 \<or> starts ''where'' p"
    obtain x q where x: "expr_chars ?stop 4095 0 (110 # 117 # 108 # 108 # t) = (110 # 117 # 108 # 108 # x, q)" "x = [] \<or> x = [32]"
      "skip_whitespace q = skip_whitespace t"
      using assms(2)
      by (cases t) (auto simp: set_end_def at_end_def expr_chars_Cons expr_chars_Nil to_lower_def str_bytes_def)
    then have "parse_set_value (110 # 117 # 108 # 108 # t) = ((True, set_val s), q)"
      by (auto simp: parse_set_value_def v(2) rtrim_token_def is_quote_def is_space_def strcasecmp_def to_lower_def str_bytes_def)
    moreover have "\<lparr>set_col = set_col s, set_null = True, set_val = set_val s\<rparr> = s" using True by (cases s) simp
    ultimately show ?thesis using that [of q] x(3) by (simp add: pair v(1) is_space_def)
  next
    case False
    then have v: "?v = quote_text (set_val s)" by (simp add: literal_text_def)
    have t: "char_at t 0 \<noteq> 39" using assms(2) by (cases t) (auto simp: set_end_def at_end_def str_bytes_def)
    have start: "skip_whitespace (?v @ t) = ?v @ t" "char_at (?v @ t) 0 = 39" by (simp_all add: v quote_text_def)
    have "parse_set_value (?v @ t) = ((False, set_val s), t)"
      using value_token_read [OF t, of True 4096 "set_val s"] quote_length [of "set_val s"] start(2)
      by (auto simp: parse_set_value_def v is_quote_def token_string_def)
    moreover have "\<lparr>set_col = set_col s, set_null = False, set_val = set_val s\<rparr> = s" using False by (cases s) simp
    ultimately show ?thesis using that [of t] by (simp add: pair start(1))
  qed
qed

lemma pair_text_start:
  assumes "pair_ok s"
  shows "skip_whitespace (pair_text s @ t) = pair_text s @ t" "pair_text s @ t \<noteq> []" "\<not> starts ''where'' (pair_text s @ t)"
proof -
  have s: "name_ok 32 (set_col s)" "\<not> starts ''where'' (set_col s)" using assms by (simp_all add: pair_ok_def)
  have p: "pair_text s @ t = set_col s @ 32 # 61 # 32 # literal_text (set_val s, set_null s) @ t" by (simp add: pair_text_def str_bytes_def)
  show "skip_whitespace (pair_text s @ t) = pair_text s @ t" "pair_text s @ t \<noteq> []"
    using skip_name [OF s(1)] by (simp_all add: pair_text_def)
  show "\<not> starts ''where'' (pair_text s @ t)" unfolding p by (rule starts_name [OF s(2)]) (simp add: str_bytes_def)
qed

lemma parse_set_pairs_skip: "p \<noteq> [] \<Longrightarrow> parse_set_pairs pairs (32 # p) = parse_set_pairs pairs p"
  by (subst (1 2) parse_set_pairs.simps) simp

text \<open>The assignments up to WHERE, or up to the end of the statement.\<close>

lemma parse_set_pairs_run:
  assumes "ss \<noteq> []" "list_all pair_ok ss" "length pairs + length ss \<le> 16" "at_end t \<or> (\<exists>u. t = str_bytes '' where'' @ u)"
  shows "parse_set_pairs pairs (comma_list (map pair_text ss) @ t) = parse_set_pairs (pairs @ ss) (skip_whitespace t)"
  using assms
proof (induction ss arbitrary: pairs)
  case (Cons s ss)
  let ?t = "(if ss = [] then [] else 44 # comma_list (map pair_text ss)) @ t"
  have eq: "comma_list (map pair_text (s # ss)) @ t = pair_text s @ ?t" by (simp add: comma_list_Cons)
  have "set_end ?t" using Cons.prems(4) by (auto simp: set_end_def at_end_def)
  with Cons.prems(2) obtain q where q: "parse_set_pair (pair_text s @ ?t) = Some (s, q)" "skip_whitespace q = skip_whitespace ?t"
    by (auto elim: parse_pair)
  have n: "\<not> 16 \<le> length pairs" "pair_ok s" using Cons.prems(2,3) by simp_all
  let ?q = "skip_whitespace ?t"
  have step: "parse_set_pairs pairs (pair_text s @ ?t) =
      (if char_at ?q 0 = 44 then parse_set_pairs (pairs @ [s]) (tl ?q)
       else if \<not> starts ''where'' ?q \<and> ?q \<noteq> [] \<and> hd ?q \<noteq> 59 then None else parse_set_pairs (pairs @ [s]) ?q)"
    by (subst parse_set_pairs.simps) (simp only: pair_text_start [OF n(2)] n(1) q Let_def if_False option.case prod.case)
  show ?case
  proof (cases "ss = []")
    case True
    have "char_at (skip_whitespace t) 0 \<noteq> 44" "starts ''where'' (skip_whitespace t) \<or> skip_whitespace t = [] \<or> hd (skip_whitespace t) = 59"
      using Cons.prems(4) at_endD(2) [of t] by (auto simp: at_end_def is_space_def str_bytes_def to_lower_def char_at_def hd_conv_nth)
    then show ?thesis unfolding eq step using True by auto
  next
    case False
    then show ?thesis unfolding eq step using Cons.IH [of "pairs @ [s]"] Cons.prems by (simp add: is_space_def)
  qed
qed simp


lemma parse_set_pairs_text:
  assumes "ss \<noteq> []" "list_all pair_ok ss" "length ss \<le> 16" "t = [] \<or> (\<exists>u. t = str_bytes '' where'' @ u)"
  shows "parse_set_pairs [] (comma_list (map pair_text ss) @ t) = Some (ss, skip_whitespace t)"
proof -
  have "parse_set_pairs ss (skip_whitespace t) = Some (ss, skip_whitespace t)"
    by (subst parse_set_pairs.simps) (use assms(4) in \<open>auto simp: skip_whitespace_def is_space_def str_bytes_def to_lower_def\<close>)
  then show ?thesis using parse_set_pairs_run [OF assms(1,2), of "[]" t] assms(3,4) by (auto simp: at_end_def)
qed

text \<open>A semicolon in place of WHERE is taken for a further assignment.\<close>

lemma parse_set_pairs_semicolon:
  assumes "ss \<noteq> []" "list_all pair_ok ss" "length ss \<le> 16"
  shows "parse_set_pairs [] (comma_list (map pair_text ss) @ [59]) = None"
proof -
  have "parse_set_pair [59] = None"
    by (simp add: parse_set_pair_def parse_identifier_def skip_whitespace_def is_space_def ident_char_def is_alnum_def is_digit_def)
  then have "parse_set_pairs ss [59] = None"
    by (subst parse_set_pairs.simps) (simp add: is_space_def to_lower_def str_bytes_def)
  then show ?thesis using parse_set_pairs_run [OF assms(1,2), of "[]" "[59]"] assms(3) by (simp add: at_end_def is_space_def)
qed

section \<open>Reading a statement back\<close>

lemma parse_tail:
  assumes "tail_ok wc" "at_end r"
  shows "parse_where_clause (tail_text wc @ r) = Some (Some (wc, r))"
    "\<not> ident_char (char_at (tail_text wc @ r) 0)"
proof -
  have no: "parse_where_clause r = Some (Some (\<lparr>has_where = False, conds = [], logic_ops = []\<rparr>, r))"
    using at_endD(2,6) [OF assms(2)] by (simp add: parse_where_clause_def)
  have blank: "parse_where_clause (32 # p) = parse_where_clause p" for p by (simp add: parse_where_clause_def)
  show "parse_where_clause (tail_text wc @ r) = Some (Some (wc, r))"
    using assms(1) parse_where_text [OF _ assms(2)] no by (cases wc) (auto simp: tail_text_def tail_ok_def blank)
  show "\<not> ident_char (char_at (tail_text wc @ r) 0)"
    using assms(2) by (cases r) (auto simp: tail_text_def at_end_def ident_char_def is_alnum_def is_digit_def)
qed

text \<open>A semicolon is accepted behind every statement but an UPDATE without WHERE.\<close>

definition end_ok :: "Body \<Rightarrow> cstr \<Rightarrow> bool" where
  "end_ok b r \<longleftrightarrow> at_end r \<and> (case b of STATEMENT_UPDATE u \<Rightarrow> has_where (up_where u) \<or> r = [] | _ \<Rightarrow> True)"

lemma parse_returning_end: "at_end r \<Longrightarrow> parse_returning (skip_whitespace r) = (None, r)"
  by (cases r) (auto simp: at_end_def parse_returning_def skip_whitespace_def is_space_def to_lower_def)

lemma parse_delete_text:
  assumes "body_ok (STATEMENT_DELETE d)" "at_end r"
  shows "parse_delete (drop 6 (body_text (STATEMENT_DELETE d) @ r)) = Some (Some d)"
proof -
  have ok: "name_ok 64 (del_table d)" "del_table d \<noteq> []" "tail_ok (del_where d)" "del_returning d = None"
    using assms(1) by (auto simp: name_ok_def)
  note t = parse_tail [OF ok(3) assms(2)]
  show ?thesis
    using ok t parse_returning_end [OF assms(2)]
    by (cases d) (simp add: parse_delete_def str_bytes_def to_lower_def is_space_def)
qed

lemma parse_update_text:
  assumes "body_ok (STATEMENT_UPDATE u)" "end_ok (STATEMENT_UPDATE u) r"
  shows "parse_update (drop 6 (body_text (STATEMENT_UPDATE u) @ r)) = Some (Some u)"
proof -
  have ok: "name_ok 64 (up_table u)" "up_table u \<noteq> []" "up_pairs u \<noteq> []" "length (up_pairs u) \<le> 16" "list_all pair_ok (up_pairs u)"
    "tail_ok (up_where u)" "up_returning u = None" "at_end r"
    using assms by (auto simp: name_ok_def end_ok_def)
  let ?t = "tail_text (up_where u) @ r"
  let ?s = "comma_list (map pair_text (up_pairs u)) @ ?t"
  have p: "drop 6 (body_text (STATEMENT_UPDATE u) @ r) = 32 # up_table u @ 32 # 115 # 101 # 116 # 32 # ?s"
    by (simp add: str_bytes_def)
  have "?t = [] \<or> (\<exists>w. ?t = str_bytes '' where'' @ w)"
    using assms(2) by (auto simp: end_ok_def tail_text_def where_text_def str_bytes_def)
  then have "parse_set_pairs [] ?s = Some (up_pairs u, skip_whitespace ?t)"
    using parse_set_pairs_text [OF ok(3,5,4)] by simp
  moreover have "?s \<noteq> []"
    using pair_text_start(2) ok(3,5) by (cases "up_pairs u"; cases "tl (up_pairs u)") auto
  ultimately have pairs: "parse_set_pairs [] (32 # ?s) = Some (up_pairs u, skip_whitespace ?t)" by (simp only: parse_set_pairs_skip not_False_eq_True)
  have "parse_where_clause (skip_whitespace ?t) = Some (Some (up_where u, r))"
    using parse_tail(1) [OF ok(6,8)] by (simp add: parse_where_clause_def)
  then show ?thesis
    unfolding p using ok pairs parse_returning_end [OF ok(8)]
    by (cases u) (simp add: parse_update_def str_bytes_def to_lower_def is_space_def)
qed

lemma parse_insert_text:
  assumes "body_ok (STATEMENT_INSERT i)" "at_end r"
  shows "parse_insert prep (drop 6 (body_text (STATEMENT_INSERT i) @ r)) = accept (STATEMENT_INSERT i)"
proof -
  let ?v = "str_bytes ''values '' @ comma_list (map row_text (ins_rows i)) @ r"
  have ok: "name_ok 64 (ins_table i)" "ins_table i \<noteq> []" "ins_action i \<noteq> CONFLICT_UPDATE" using assms(1) by (auto simp: name_ok_def)
  have p: "drop 6 (body_text (STATEMENT_INSERT i) @ r) =
      32 # str_bytes (action_text (ins_action i)) @ 105 # 110 # 116 # 111 # 32 # ins_table i @ 32 # ?v"
    by (simp add: str_bytes_def)
  have act: "parse_insert_action (skip_whitespace (32 # str_bytes (action_text (ins_action i)) @ 105 # 110 # 116 # 111 # 32 # q)) =
      (ins_action i, (if ins_action i = CONFLICT_ABORT then id else Cons 32) (105 # 110 # 116 # 111 # 32 # q))" for q
    using ok(3) by (cases "ins_action i") (simp_all add: action_text_def parse_insert_action_def str_bytes_def to_lower_def is_space_def)
  have id: "parse_identifier 64 (ins_table i @ 32 # q) = (ins_table i, 32 # q)" for q using ok(1) by simp
  have cols: "skip_column_list (skip_whitespace (32 # ?v)) = Some ?v" "\<not> starts ''select'' ?v"
    by (simp_all add: skip_column_list_def str_bytes_def is_space_def to_lower_def)
  have into: "skip_whitespace ((if c then id else Cons 32) (105 # 110 # 116 # 111 # 32 # q)) = 105 # 110 # 116 # 111 # 32 # q"
    "starts_word is_space ''into'' (105 # 110 # 116 # 111 # 32 # q)" for c q
    by (simp_all add: is_space_def to_lower_def)
  show ?thesis
    unfolding p parse_insert_def act Let_def prod.case into if_True
    using ok(2) cols parse_values_text [OF assms refl] by (simp add: id or_syntax_error_def is_space_def)
qed

lemma parse_body_text:
  assumes "body_ok b" "end_ok b r"
  shows "parse_body prep (body_text b @ r) = accept b"
  using assms(1)
proof (cases b)
  case (STATEMENT_INSERT i)
  have "parse_body prep (body_text b @ r) = parse_insert prep (drop 6 (body_text b @ r))"
    by (simp add: STATEMENT_INSERT parse_body_def str_bytes_def to_lower_def)
  then show ?thesis using assms parse_insert_text [of i r] by (simp only: STATEMENT_INSERT end_ok_def)
next
  case (STATEMENT_UPDATE u)
  have "parse_body prep (body_text b @ r) = parse_update (drop 6 (body_text b @ r)) \<bind> or_syntax_error STATEMENT_UPDATE"
    by (simp add: STATEMENT_UPDATE parse_body_def str_bytes_def to_lower_def)
  then show ?thesis using assms parse_update_text [of u r] by (simp only: STATEMENT_UPDATE) (simp add: or_syntax_error_def)
next
  case (STATEMENT_DELETE d)
  have "parse_body prep (body_text b @ r) = parse_delete (drop 6 (body_text b @ r)) \<bind> or_syntax_error STATEMENT_DELETE"
    by (simp add: STATEMENT_DELETE parse_body_def str_bytes_def to_lower_def)
  then show ?thesis using assms parse_delete_text [of d r] by (simp only: STATEMENT_DELETE) (simp add: or_syntax_error_def end_ok_def)
qed simp_all

lemma body_start:
  assumes "body_ok b"
  shows "skip_whitespace (body_text b @ r) = body_text b @ r" "\<not> starts_word P ''explain'' (body_text b @ r)"
    "\<not> starts_word P ''analyze'' (body_text b @ r)" "\<not> starts_word P ''with'' (body_text b @ r)"
  using assms by (cases b; simp add: str_bytes_def is_space_def to_lower_def)+

lemma parse_explain_text:
  assumes "body_ok b"
  shows "parse_explain (skip_whitespace (str_bytes (explain_text e) @ body_text b @ r)) = (e, body_text b @ r)"
  using body_start [OF assms]
  by (cases e) (simp_all add: explain_text_def parse_explain_def str_bytes_def is_space_def to_lower_def space_or_end_def)

lemma statement_read:
  assumes "body_ok b" "end_ok b r"
  shows "prepare_statement (str_bytes (explain_text e) @ body_text b @ r) = accept (Statement e [] b)"
  using body_start(4) [OF assms(1)] parse_body_text [OF assms]
  by (subst prepare_statement.simps) (simp only: parse_explain_text [OF assms(1)], simp add: parse_with_def)

text \<open>
  C18.  A statement round trip through \<open>prepare_statement\<close>.  Every INSERT of up to eight rows of up to sixteen literals or NULLs,
  with any conflict action of its prefix, every UPDATE of up to sixteen columns and every DELETE, with any printable
  WHERE clause or none, and with EXPLAIN or EXPLAIN ANALYZE before it, is read back from its text exactly; literals of any
  length (the heap string) and any bytes, quotes included.  The parser returns: no loop hangs and no array is overrun.
\<close>

theorem statement_roundtrip:
  assumes "body_ok b" "end_ok b r"
  shows "prepare_statement (str_bytes (explain_text e) @ body_text b @ r) = accept (Statement e [] b)"
  by (rule statement_read [OF assms])

end
