(* ===== verification/Parser_Sample.thy ===== *)
theory Parser_Sample
  imports Parser_Statements
begin

text \<open>
  What the parser loses and where it hangs, and the samples: statements on which the theorems of the parser apply.
\<close>

text \<open>A text that does not start with a keyword still does not when a character follows that the keyword does not have.\<close>

lemma starts_other:
  assumes "\<not> starts kw s" "t = [] \<or> to_lower (hd t) \<notin> to_lower ` set (str_bytes kw)"
  shows "\<not> starts kw (s @ t)"
  using assms
proof (induction s arbitrary: kw)
  case Nil
  then obtain x xs where "kw = x # xs" by (cases kw) auto
  then show ?case using Nil by (cases t) (auto simp: str_bytes_def)
next
  case (Cons c s)
  then obtain x xs where "kw = x # xs" by (cases kw) auto
  then show ?case using Cons.prems Cons.IH [of xs] by (auto simp: str_bytes_def)
qed

section \<open>The column list of INSERT\<close>

definition column_list_text :: "cstr list \<Rightarrow> cstr" where
  "column_list_text names = 40 # comma_list names @ str_bytes '') ''"

definition insert_cols_text :: "InsertParse \<Rightarrow> cstr list \<Rightarrow> cstr" where
  "insert_cols_text i names = str_bytes ''insert into '' @ ins_table i @ 32 # column_list_text names @ str_bytes ''values '' @
     comma_list (map row_text (ins_rows i))"

lemma column_names_text:
  assumes "names \<noteq> []" "list_all (name_ok 32) names" "n + length names \<le> 16"
  shows "column_names n (comma_list names @ 41 # r) = Some (41 # r)"
  using assms
proof (induction names arbitrary: n)
  case (Cons s names)
  let ?t = "(if names = [] then [] else 44 # comma_list names) @ 41 # r"
  have eq: "comma_list (s # names) @ 41 # r = s @ ?t" by (simp add: comma_list_Cons)
  have s: "name_ok 32 s" "s \<noteq> []" "hd s \<noteq> 41" using Cons.prems(2) by (auto simp: name_ok_def ident_char_def is_alnum_def is_digit_def neq_Nil_conv)
  have "\<not> ident_char (char_at ?t 0)" by (simp add: ident_char_def is_alnum_def is_digit_def)
  from name_identifier [OF s(1) this] have id: "parse_identifier 32 (s @ ?t) = (s, ?t)" .
  have t: "skip_whitespace ?t = ?t" by (simp add: skip_whitespace_def is_space_def)
  have n: "n < 16" using Cons.prems(3) by simp
  have start: "s @ ?t \<noteq> []" "hd (s @ ?t) \<noteq> 41" using s(2,3) by simp_all
  have step: "column_names n (s @ ?t) = column_names (n + 1) (skip_char 44 ?t)"
    by (subst column_names.simps)
       (simp only: start n skip_name(1) [OF s(1)] id t Let_def prod.case snd_conv if_True if_False simp_thms)
  show ?case
  proof (cases "names = []")
    case True
    have "column_names (n + 1) (41 # r) = Some (41 # r)" by (subst column_names.simps) simp
    then show ?thesis unfolding eq step using True by (simp add: skip_char_def)
  next
    case False
    then show ?thesis unfolding eq step using Cons.IH [of "n + 1"] Cons.prems by (simp add: skip_char_def)
  qed
qed simp

lemma insert_columns_head:
  assumes "name_ok 64 tbl"
  shows "prepare_statement (str_bytes ''insert into '' @ tbl @ 32 # 40 # q) =
    (skip_column_list (40 # q) \<bind> (\<lambda>p.
       if starts ''select'' p
       then prepare_statement p \<bind> (\<lambda>r. Some (case r of Inl e \<Rightarrow> Inl e | Inr s \<Rightarrow> Inr (STATEMENT_INSERT_SELECT tbl CONFLICT_ABORT s)))
       else or_syntax_error STATEMENT_INSERT (parse_values tbl CONFLICT_ABORT p))) \<bind> (\<lambda>r. Some (map_sum id (Statement NO_EXPLAIN []) r))"
proof -
  have t: "tbl \<noteq> []" using assms by (simp add: name_ok_def)
  have "parse_insert prepare_statement (32 # 105 # 110 # 116 # 111 # 32 # tbl @ 32 # 40 # q) =
    (skip_column_list (40 # q) \<bind> (\<lambda>p.
       if starts ''select'' p
       then prepare_statement p \<bind> (\<lambda>r. Some (case r of Inl e \<Rightarrow> Inl e | Inr s \<Rightarrow> Inr (STATEMENT_INSERT_SELECT tbl CONFLICT_ABORT s)))
       else or_syntax_error STATEMENT_INSERT (parse_values tbl CONFLICT_ABORT p)))"
    using assms t by (simp add: parse_insert_def parse_insert_action_def is_space_def to_lower_def)
  then show ?thesis
    by (subst prepare_statement.simps)
       (simp add: parse_explain_def parse_with_def parse_body_def str_bytes_def to_lower_def is_space_def)
qed

lemma column_list_skip:
  assumes "names \<noteq> []" "list_all (name_ok 32) names" "length names \<le> 16" "\<not> starts ''select'' (hd names)"
  shows "skip_column_list (40 # comma_list names @ 41 # 32 # r) = Some (skip_whitespace r)"
proof -
  obtain s ns where n: "names = s # ns" using assms(1) by (cases names) auto
  define t where "t = (if ns = [] then [] else 44 # comma_list ns) @ 41 # 32 # r"
  have t: "comma_list names @ 41 # 32 # r = s @ t" "name_ok 32 s" "s = hd names" "hd t = 44 \<or> hd t = 41"
    using assms(2) by (simp_all add: n t_def comma_list_Cons)
  have "\<not> starts ''select'' (s @ t)"
    by (rule starts_other) (use t(3,4) assms(4) in \<open>auto simp: str_bytes_def to_lower_def\<close>)
  moreover have "skip_whitespace (comma_list names @ 41 # 32 # r) = s @ t" "comma_list names @ 41 # 32 # r = s @ t"
    using skip_name(1) [OF t(2)] t(1) by simp_all
  ultimately show ?thesis
    using column_names_text [OF assms(1,2), of 0 "32 # r"] assms(3) by (simp add: skip_column_list_def skip_char_def t(1))
qed

lemma insert_columns_read:
  assumes "body_ok (STATEMENT_INSERT i)" "ins_action i = CONFLICT_ABORT" "at_end r"
    "names \<noteq> []" "list_all (name_ok 32) names" "length names \<le> 16" "\<not> starts ''select'' (hd names)"
  shows "prepare_statement (insert_cols_text i names @ r) = accept (Statement NO_EXPLAIN [] (STATEMENT_INSERT i))"
proof -
  let ?v = "str_bytes ''values '' @ comma_list (map row_text (ins_rows i)) @ r"
  have eq: "insert_cols_text i names @ r = str_bytes ''insert into '' @ ins_table i @ 32 # 40 # comma_list names @ 41 # 32 # ?v"
    by (simp add: insert_cols_text_def column_list_text_def str_bytes_def)
  have v: "skip_whitespace ?v = ?v" "\<not> starts ''select'' ?v" by (simp_all add: str_bytes_def is_space_def to_lower_def)
  have t: "name_ok 64 (ins_table i)" using assms(1) by simp
  show ?thesis
    unfolding eq insert_columns_head [OF t] column_list_skip [OF assms(4-7)] v(1) bind.bind_lunit if_not_P [OF v(2)]
      parse_values_text [OF assms(1,3) assms(2) [symmetric]] or_syntax_error_def by simp
qed

text \<open>
  C38.  The column list of INSERT is forgotten: whatever columns are named, and in whatever order, the statement is the
  one without the list, so the values go to the first columns of the table.
\<close>

theorem insert_column_list_ignored:
  assumes "body_ok (STATEMENT_INSERT i)" "ins_action i = CONFLICT_ABORT" "at_end r"
    "names \<noteq> []" "list_all (name_ok 32) names" "length names \<le> 16" "\<not> starts ''select'' (hd names)"
  shows "prepare_statement (insert_cols_text i names @ r) = prepare_statement (body_text (STATEMENT_INSERT i) @ r)"
proof -
  have "prepare_statement (body_text (STATEMENT_INSERT i) @ r) = accept (Statement NO_EXPLAIN [] (STATEMENT_INSERT i))"
    using statement_read [OF assms(1), of r NO_EXPLAIN] assms(3) by (simp add: explain_text_def end_ok_def str_bytes_def)
  then show ?thesis using insert_columns_read [OF assms] by simp
qed

section \<open>Loops that hang\<close>

text \<open>A character that no branch of the loops passes.\<close>

definition stuck :: "cstr \<Rightarrow> bool" where
  "stuck p \<longleftrightarrow> p \<noteq> [] \<and> \<not> ident_char (hd p) \<and> \<not> is_space (hd p) \<and> hd p \<noteq> 44 \<and> hd p \<noteq> 41"

lemma stuckD:
  assumes "stuck p"
  shows "p \<noteq> []" "hd p \<noteq> 41" "skip_whitespace p = p" "skip_char 44 p = p" "parse_identifier n p = ([], p)"
  using assms by (cases p; simp add: stuck_def skip_whitespace_def skip_char_def parse_identifier_def)+

lemma column_names_stuck:
  assumes "stuck p"
  shows "column_names n p = None"
proof (rule ccontr)
  assume "column_names n p \<noteq> None"
  then obtain y where y: "column_names n p = Some y" by auto
  have "\<not> stuck p"
  proof (rule column_names.raw_induct [of "\<lambda>n p y. \<not> stuck p", OF _ y])
    fix f n p y
    assume ih: "\<And>n p y. f n p = Some y \<Longrightarrow> \<not> stuck p"
      and body: "(if p = [] \<or> hd p = 41 then Some p else let p = skip_whitespace p; (n, p) = (if n < 16 then (n + 1, snd (parse_identifier 32 p)) else (n, p)) in f n (skip_char 44 (skip_whitespace p))) = Some y"
    show "\<not> stuck p"
    proof
      assume s: "stuck p"
      have "f (if n < 16 then n + 1 else n) p = Some y" using body stuckD [OF s] by (simp split: if_splits)
      then show False using ih s by blast
    qed
  qed
  then show False using assms by simp
qed

lemma pk_list_stuck:
  assumes "stuck p"
  shows "pk_list pks p = None"
proof (rule ccontr)
  assume "pk_list pks p \<noteq> None"
  then obtain y where y: "pk_list pks p = Some y" by auto
  have "\<not> stuck p"
  proof (rule pk_list.raw_induct [of "\<lambda>pks p y. \<not> stuck p", OF _ y])
    fix f pks p y
    assume ih: "\<And>pks p y. f pks p = Some y \<Longrightarrow> \<not> stuck p"
      and body: "(if p = [] \<or> hd p = 41 then Some (pks, p) else let p = skip_whitespace p; (pks, p) = (if length pks < 16 then (case parse_identifier 32 p of (n, p) \<Rightarrow> (pks @ [n], p)) else (pks, p)) in f pks (skip_char 44 (skip_whitespace p))) = Some y"
    show "\<not> stuck p"
    proof
      assume s: "stuck p"
      have "f (if length pks < 16 then pks @ [[]] else pks) p = Some y" using body stuckD [OF s] by (simp split: if_splits)
      then show False using ih s by blast
    qed
  qed
  then show False using assms by simp
qed



section \<open>Partial indexes, and UPDATE with a semicolon\<close>

lemma starts_paren:
  assumes "list_all ident_char s" "40 \<in> set (str_bytes kw)"
  shows "\<not> starts kw s"
proof
  assume "starts kw s"
  then have "map to_lower (take (length kw) s) = map to_lower (str_bytes kw)" by (simp add: starts_def strcasecmp_def split: if_splits)
  then have "to_lower 40 \<in> to_lower ` set s" using assms(2) by (metis image_eqI image_mono set_map set_take_subset subsetD)
  then obtain c where "c \<in> set s" "to_lower c = to_lower 40" by auto
  moreover have "to_lower c = to_lower 40 \<Longrightarrow> c = 40" for c by (auto simp: to_lower_def word_le_nat_alt split: if_splits)
  ultimately have "40 \<in> set s" by blast
  then show False using assms(1) by (auto simp: list_all_iff ident_char_def is_alnum_def is_digit_def)
qed

lemma index_target_name:
  assumes "name_ok 32 c"
  shows "index_target (c @ 41 # p) = Some (([c], None), 41 # p)"
proof -
  have l: "list_all ident_char c" "c \<noteq> []" "hd c \<noteq> 41"
    using assms by (auto simp: name_ok_def ident_char_def is_alnum_def is_digit_def neq_Nil_conv)
  have no: "\<not> starts ''lower('' (c @ 41 # p)" "\<not> starts ''upper('' (c @ 41 # p)"
    by (rule starts_other; use starts_paren [OF l(1)] in \<open>simp add: str_bytes_def to_lower_def\<close>)+
  have "index_cols [] (c @ 41 # p) = index_cols [c] (41 # p)"
    by (subst index_cols.simps) (use l assms in \<open>simp add: is_space_def\<close>)
  also have "\<dots> = Some ([c], 41 # p)" by (subst index_cols.simps) simp
  finally show ?thesis using no by (simp add: index_target_def)
qed

abbreviation no_where :: WhereClause where
  "no_where \<equiv> \<lparr>has_where = False, conds = [], logic_ops = []\<rparr>"

text \<open>
  C40.  The condition of a partial index is lost.  Whatever stands behind WHERE in CREATE INDEX, the statement has the flag of a
  partial index and a clause without conditions: the keyword is passed before the clause is parsed, and the parser of clauses looks for
  it again.
\<close>

theorem partial_index_condition_lost:
  assumes "name_ok 32 name" "name_ok 64 tbl" "name_ok 32 c" "\<not> starts ''where'' (skip_whitespace cond)"
  shows "prepare_statement (str_bytes ''create index '' @ name @ str_bytes '' on '' @ tbl @ str_bytes '' ('' @ c @ str_bytes '') where '' @ cond) =
    accept (Statement NO_EXPLAIN [] (STATEMENT_CREATE_INDEX
      \<lparr>ix_name = name, ix_table = tbl, ix_cols = [c], ix_func = None, ix_where = Some (Some no_where)\<rparr>))"
proof -
  have ne: "name \<noteq> []" "tbl \<noteq> []" using assms(1,2) by (simp_all add: name_ok_def)
  have id: "parse_identifier 32 (name @ 32 # q) = (name, 32 # q)" "parse_identifier 64 (tbl @ 32 # q) = (tbl, 32 # q)" for q
    using assms(1,2) by simp_all
  have skip: "skip_whitespace (c @ q) = c @ q" for q by (rule skip_name(1) [OF assms(3)])
  have wc: "parse_where_clause (32 # cond) = Some (Some (no_where, skip_whitespace cond))"
    using assms(4) by (simp add: parse_where_clause_def)
  let ?q = "32 # name @ 32 # 111 # 110 # 32 # tbl @ 32 # 40 # c @ 41 # 32 # 119 # 104 # 101 # 114 # 101 # 32 # cond"
  have "parse_create_index ?q = Some (Inr
      \<lparr>ix_name = name, ix_table = tbl, ix_cols = [c], ix_func = None, ix_where = Some (Some no_where)\<rparr>)"
    using ne wc by (simp add: parse_create_index_def id skip index_target_name [OF assms(3)] skip_char_def to_lower_def is_space_def)
  then show ?thesis
    by (subst prepare_statement.simps)
       (simp add: parse_explain_def parse_with_def parse_body_def parse_create_def str_bytes_def to_lower_def is_space_def)
qed

text \<open>
  An UPDATE without WHERE cannot end with a semicolon: it is a syntax error, although the code behind the assignments passes
  a semicolon, and although the same statement without it is read.
\<close>

theorem update_semicolon_rejected:
  assumes "body_ok (STATEMENT_UPDATE u)" "\<not> has_where (up_where u)"
  shows "prepare_statement (body_text (STATEMENT_UPDATE u) @ [59]) = reject PREPARE_SYNTAX_ERROR \<and>
    prepare_statement (body_text (STATEMENT_UPDATE u)) = accept (Statement NO_EXPLAIN [] (STATEMENT_UPDATE u))"
proof
  show "prepare_statement (body_text (STATEMENT_UPDATE u)) = accept (Statement NO_EXPLAIN [] (STATEMENT_UPDATE u))"
    using statement_read [OF assms(1), of "[]" NO_EXPLAIN] by (simp add: explain_text_def end_ok_def at_end_def str_bytes_def)
  let ?s = "comma_list (map pair_text (up_pairs u)) @ [59]"
  have ok: "name_ok 64 (up_table u)" "up_table u \<noteq> []" "up_pairs u \<noteq> []" "length (up_pairs u) \<le> 16" "list_all pair_ok (up_pairs u)"
    using assms(1) by (auto simp: name_ok_def)
  have "parse_set_pairs [] (32 # ?s) = None"
    using parse_set_pairs_semicolon [OF ok(3,5,4)] parse_set_pairs_skip [of ?s] by simp
  then have "parse_update (32 # up_table u @ 32 # 115 # 101 # 116 # 32 # ?s) = Some None"
    using ok(1,2) by (simp add: parse_update_def is_space_def to_lower_def)
  then show "prepare_statement (body_text (STATEMENT_UPDATE u) @ [59]) = reject PREPARE_SYNTAX_ERROR"
    using assms(2)
    by (subst prepare_statement.simps)
       (simp add: tail_text_def parse_explain_def parse_with_def parse_body_def or_syntax_error_def str_bytes_def to_lower_def is_space_def)
qed

text \<open>
  C37.  What stands behind the table of a DELETE and is neither WHERE nor RETURNING is ignored: a statement whose WHERE is misspelled
  is read as the DELETE of all rows.
\<close>

theorem misspelled_where_deletes_all:
  assumes "name_ok 64 tbl" "\<not> starts ''where'' (skip_whitespace q)" "\<not> starts ''returning'' (skip_whitespace q)"
  shows "prepare_statement (str_bytes ''delete from '' @ tbl @ 32 # q) =
    accept (Statement NO_EXPLAIN [] (STATEMENT_DELETE \<lparr>del_table = tbl, del_where = no_where, del_returning = None\<rparr>))"
proof -
  have ne: "tbl \<noteq> []" using assms(1) by (simp add: name_ok_def)
  have wc: "parse_where_clause (32 # q) = Some (Some (no_where, skip_whitespace q))"
    using assms(2) by (simp add: parse_where_clause_def)
  have "parse_returning (skip_whitespace q) = (None, skip_whitespace q)"
    using assms(3) by (simp add: parse_returning_def starts_word_def)
  then have "parse_delete (32 # 102 # 114 # 111 # 109 # 32 # tbl @ 32 # q) =
      Some (Some \<lparr>del_table = tbl, del_where = no_where, del_returning = None\<rparr>)"
    using assms(1) ne wc by (simp add: parse_delete_def to_lower_def is_space_def)
  then show ?thesis
    by (subst prepare_statement.simps)
       (simp add: parse_explain_def parse_with_def parse_body_def or_syntax_error_def str_bytes_def to_lower_def is_space_def)
qed

section \<open>Samples\<close>

text \<open>\<open>where name = 'O''Neil' collate nocase and dept in (select dno from depts where city <= 'x')\<close>\<close>

definition sample_value :: SingleCond where
  "sample_value = zero_cond\<lparr>cond_col := str_bytes ''name'', cond_op := OP_EQ, raw_val := [79, 39, 78, 101, 105, 108], cond_collation := COLL_NOCASE\<rparr>"

definition sample_subquery :: SingleCond where
  "sample_subquery = zero_cond\<lparr>cond_col := str_bytes ''dept'', cond_op := OP_IN, is_subquery := True, sub_col := str_bytes ''dno'',
     sub_table := str_bytes ''depts'', has_sub_where := True, sub_where_col := str_bytes ''city'', sub_where_op := OP_LTE, sub_where_val := [120]\<rparr>"

definition sample_clause :: WhereClause where
  "sample_clause = \<lparr>has_where = True, conds = [sample_value, sample_subquery], logic_ops = [LOGIC_AND]\<rparr>"

lemmas sample_simps = name_ok_def ident_char_def is_alnum_def is_digit_def str_bytes_def to_lower_def zero_cond_def

lemma sample_conds: "cond_ok sample_value" "cond_ok sample_subquery"
  by (simp_all add: sample_value_def sample_subquery_def cond_ok_def operand_ok_def filter_ok_def sample_simps)

lemma sample_clause_ok: "clause_ok sample_clause"
  using sample_conds by (simp add: sample_clause_def clause_ok_def)

definition sample_insert :: InsertParse where
  "sample_insert = \<lparr>ins_table = str_bytes ''t'', ins_action = CONFLICT_ABORT, ins_rows = [[([39], False), (str_bytes ''null'', True)], [([52], False)]],
     ins_num_values = 1, ins_pairs = [], ins_expires = 0, ins_returning = None\<rparr>"

definition sample_update :: UpdateParse where
  "sample_update = \<lparr>up_table = str_bytes ''t'', up_pairs = [\<lparr>set_col = str_bytes ''a'', set_null = True, set_val = str_bytes ''null''\<rparr>,
     \<lparr>set_col = str_bytes ''b'', set_null = False, set_val = [44]\<rparr>], up_where = no_where, up_returning = None\<rparr>"

definition sample_delete :: DeleteParse where
  "sample_delete = \<lparr>del_table = str_bytes ''t'', del_where = sample_clause, del_returning = None\<rparr>"

lemma sample_bodies:
  "body_ok (STATEMENT_INSERT sample_insert)" "body_ok (STATEMENT_UPDATE sample_update)" "body_ok (STATEMENT_DELETE sample_delete)"
  using sample_clause_ok
  by (simp_all add: sample_insert_def sample_update_def sample_delete_def row_ok_def literal_ok_def pair_ok_def tail_ok_def sample_clause_def sample_simps)

theorem value_token_roundtrip_witness:
  "parse_value_token_alloc True 4 (quote_text [97, 39, 98] @ [44]) = (\<lparr>tok_text = [97, 39, 98], tok_dyn = Some [97, 39, 98], tok_null = False, tok_quoted = True\<rparr>, [44])"
  using value_token_roundtrip [of "[44]" True 4 "[97, 39, 98]"] by (simp add: quote_text_def)

theorem where_clause_roundtrip_witness: "parse_where_clause (where_text sample_clause @ [59]) = Some (Some (sample_clause, [59]))"
  by (rule where_clause_roundtrip) (simp_all add: sample_clause_ok at_end_def)

theorem fifth_condition_dropped_witness:
  "parse_where_clause (str_bytes ''where '' @ conds_text ([sample_value, sample_value, sample_value, sample_value] @ [sample_subquery]) (replicate 4 LOGIC_OR)) =
    Some (Some (\<lparr>has_where = True, conds = replicate 4 sample_value, logic_ops = replicate 3 LOGIC_OR\<rparr>, cond_text sample_subquery))"
  using fifth_condition_dropped [of "[sample_value, sample_value, sample_value, sample_value]" "replicate 4 LOGIC_OR" sample_subquery] sample_conds
  by (simp add: numeral_eq_Suc)

theorem statement_roundtrip_witness:
  "prepare_statement (str_bytes ''explain '' @ body_text (STATEMENT_DELETE sample_delete) @ [59]) =
    accept (Statement EXPLAIN [] (STATEMENT_DELETE sample_delete))"
  using statement_roundtrip [of "STATEMENT_DELETE sample_delete" "[59]" EXPLAIN] sample_bodies(3)
  by (simp only: end_ok_def at_end_def explain_text_def) simp

theorem insert_column_list_ignored_witness:
  "prepare_statement (insert_cols_text sample_insert [str_bytes ''b'', str_bytes ''a'']) = prepare_statement (body_text (STATEMENT_INSERT sample_insert))"
  using insert_column_list_ignored [of sample_insert "[]" "[str_bytes ''b'', str_bytes ''a'']"] sample_bodies(1)
  by (simp add: at_end_def sample_insert_def sample_simps del: body_text.simps body_ok.simps)


theorem partial_index_condition_lost_witness:
  "prepare_statement (str_bytes ''create index '' @ str_bytes ''i'' @ str_bytes '' on '' @ str_bytes ''t'' @ str_bytes '' ('' @ str_bytes ''a'' @
      str_bytes '') where '' @ str_bytes ''a = 1'') =
    accept (Statement NO_EXPLAIN [] (STATEMENT_CREATE_INDEX
      \<lparr>ix_name = str_bytes ''i'', ix_table = str_bytes ''t'', ix_cols = [str_bytes ''a''], ix_func = None, ix_where = Some (Some no_where)\<rparr>))"
  by (rule partial_index_condition_lost) (simp_all add: skip_whitespace_def is_space_def sample_simps)

theorem update_semicolon_rejected_witness:
  "prepare_statement (body_text (STATEMENT_UPDATE sample_update) @ [59]) = reject PREPARE_SYNTAX_ERROR"
  using update_semicolon_rejected [OF sample_bodies(2)] by (simp add: sample_update_def)


text \<open>\<open>delete from t were id = 1\<close>\<close>

theorem misspelled_where_deletes_all_witness:
  "prepare_statement (str_bytes ''delete from '' @ str_bytes ''t'' @ 32 # str_bytes ''were id = 1'') =
    accept (Statement NO_EXPLAIN [] (STATEMENT_DELETE \<lparr>del_table = str_bytes ''t'', del_where = no_where, del_returning = None\<rparr>))"
  by (rule misspelled_where_deletes_all) (simp_all add: skip_whitespace_def is_space_def sample_simps)

end
