(* ===== verification/Locks_Progress.thy ===== *)
theory Locks_Progress
  imports Locks
begin

text \<open>
  Progress of a writer (\<open>pager_lock\<close> of \<open>src/pager.c\<close>): while a process holds PENDING, no other one gets a new lock, so the
  writer gets EXCLUSIVE as soon as each of the readers has once let go.
\<close>

text \<open>A step of another process.\<close>

definition lock_wait :: "nat \<Rightarrow> lock_proc list \<Rightarrow> lock_proc list \<Rightarrow> bool" where
  "lock_wait i s s' \<longleftrightarrow> lock_step s s' \<and> s' ! i = s ! i"

lemma others_locked:
  assumes "k < length s" "k \<noteq> j" "held (s ! k) b = F_WRLCK"
  shows "others_of s j b = F_WRLCK"
  using assms by (auto simp: others_of_def foldr_stronger_wr image_iff intro!: bexI [of _ k])

lemma lock_step_length: "lock_step s s' \<Longrightarrow> length s \<le> length s'"
  by (erule lock_step.cases) simp_all

text \<open>A process without a lock stays without one while another holds PENDING.\<close>

lemma no_new_lock:
  assumes "lock_inv s" "i < length s" "lock_state (s ! i) = PENDING_LOCK" "lock_wait i s s'" "j \<noteq> i"
    and "j < length s' \<Longrightarrow> j < length s \<Longrightarrow> lock_state (s ! j) = NO_LOCK" "j < length s'"
  shows "lock_state (s' ! j) = NO_LOCK"
proof -
  have "held (s ! i) PENDING_BYTE = F_WRLCK" using assms(1-3) by (simp add: lock_inv_def lock_ok_def)
  then have busy: "others_of s j PENDING_BYTE = F_WRLCK" using others_locked [OF assms(2), of j] assms(5) by simp
  have "lock_step s s'" using assms(4) by (simp add: lock_wait_def)
  then show ?thesis
  proof (cases rule: lock_step.cases)
    case (shared k want p)
    then show ?thesis using assms(6,7) busy
      by (cases "k = j") (auto simp: lock_shared_def is_byte_locked_def split: if_splits)
  next
    case (joins)
    then show ?thesis using assms(6,7) by (auto simp: nth_append fresh_proc_def)
  next
    case (release k)
    then show ?thesis using assms(6,7) by (cases "k = j") auto
  next
    case (dies k)
    then show ?thesis using assms(6,7) by (cases "k = j") (auto simp: fresh_proc_def)
  qed (use assms(6,7) in \<open>auto simp: lock_stage_def nth_list_update split: if_splits\<close>)
qed

lemma lock_waits:
  assumes "(lock_wait i)\<^sup>*\<^sup>* s t" "lock_reachable s" "i < length s" "lock_state (s ! i) = PENDING_LOCK" "j \<noteq> i"
    and "j < length s \<Longrightarrow> lock_state (s ! j) = NO_LOCK"
  shows "lock_reachable t \<and> length s \<le> length t \<and> t ! i = s ! i \<and> (j < length t \<longrightarrow> lock_state (t ! j) = NO_LOCK)"
  using assms(1)
proof (induction rule: rtranclp_induct)
  case base
  then show ?case using assms(2,6) by simp
next
  case (step u v)
  have st: "lock_step u v" using step.hyps(2) by (simp add: lock_wait_def)
  have "lock_reachable u" "i < length u" "lock_state (u ! i) = PENDING_LOCK" using step.IH assms(3,4) by simp_all
  moreover have "j < length v \<Longrightarrow> lock_state (v ! j) = NO_LOCK"
    using no_new_lock [OF lock_inv_reachable [OF calculation(1)] calculation(2,3) step.hyps(2) assms(5)] step.IH by simp
  ultimately show ?case
    using step.IH step.hyps(2) lock_step_length [OF st] lock_reachable.step [OF _ st] by (simp add: lock_wait_def)
qed


text \<open>A writer at PENDING, a reader that lets go, and a newcomer.\<close>

definition waiting_writer :: "lock_proc list" where
  "waiting_writer = [\<lparr>held = state_held PENDING_LOCK, lock_state = PENDING_LOCK\<rparr>, \<lparr>held = state_held SHARED_LOCK, lock_state = SHARED_LOCK\<rparr>]"

lemma waiting_writer_reachable: "lock_reachable waiting_writer"
proof -
  have two: "lock_reachable [fresh_proc, fresh_proc]"
    using lock_reachable.start lock_step.joins lock_reachable.step by (metis append_Cons append_Nil)
  have "lock_reachable [fresh_proc, \<lparr>held = state_held SHARED_LOCK, lock_state = SHARED_LOCK\<rparr>]"
    using lock_attempt_reachable [OF two, of 1 SHARED_LOCK]
    by (simp add: fresh_proc_def lock_defs lock_order others_of_def)
  moreover have "(\<lambda>_. F_UNLCK)(SHARED_BYTE := F_RDLCK, RESERVED_BYTE := F_WRLCK, PENDING_BYTE := F_WRLCK) = (\<lambda>_. F_WRLCK)(SHARED_BYTE := F_RDLCK)"
    by (simp add: held_simps)
  ultimately show ?thesis
    using lock_attempt_reachable [of "[fresh_proc, \<lparr>held = state_held SHARED_LOCK, lock_state = SHARED_LOCK\<rparr>]" 0 PENDING_LOCK]
    by (simp add: waiting_writer_def fresh_proc_def lock_defs lock_order others_of_def)
qed


end
