(* ===== verification/Aggregate.thy ===== *)
theory Aggregate
  imports Vdbe Parser_Select
begin

text \<open>
  Aggregates and GROUP BY (\<open>src/executor.c\<close>, \<open>run_aggregate_select\<close> and \<open>run_group_by_select\<close>): one scan of the
  table, with an accumulator for each selected column, and a bucket of accumulators for each key.  The result is the printed
  text.  The counters are 64-bit in the code and unbounded here; a table cannot have that many rows.
\<close>

section \<open>Accumulators\<close>

text \<open>\<open>%.2f\<close>\<close>

definition fmt_f2 :: "f64 \<Rightarrow> cstr" where
  "fmt_f2 x =
     (let sgn = (if f64_neg x then [45] else [])
      in if f64_nan x then sgn @ [110, 97, 110]
         else if f64_mag x = f64_inf_bits then sgn @ [105, 110, 102]
         else case f64_unpack (f64_mag x) of (m, q) \<Rightarrow>
           (let d = (if 0 \<le> q then 100 * (m * 2 ^ nat q) else div_even (100 * m) (2 ^ nat (- q)))
            in sgn @ dec_digits (d div 100) @ [46] @ dec_digits (d mod 100 div 10) @ dec_digits (d mod 10)))"

record Acc =
  acc_count :: int
  acc_sum :: f64
  acc_min :: f64
  acc_max :: f64
  has_values :: bool

text \<open>The extreme values are \<open>1e308\<close> and \<open>-1e308\<close>; they are not read before a value has replaced them.\<close>

definition zero_acc :: Acc where
  "zero_acc = \<lparr>acc_count = 0, acc_sum = 0, acc_min = f64_of_decimal False 1 308, acc_max = f64_of_decimal True 1 308, has_values = False\<rparr>"

definition agg_number :: "ColumnType \<Rightarrow> Value \<Rightarrow> f64" where
  "agg_number ty v =
     (if ty = COL_INT then f64_of_int (sint (int_val v))
      else if ty = COL_FLOAT then f64_of_f32 (float_val v)
      else if ty = COL_DOUBLE \<or> ty = COL_NUMERIC \<or> ty = COL_DECIMAL then double_val v
      else if ty = COL_BOOL then (if bool_val v then f64_of_int 1 else 0)
      else 0)"

definition acc_value :: "f64 \<Rightarrow> Acc \<Rightarrow> Acc" where
  "acc_value val a =
     \<lparr>acc_count = acc_count a + 1, acc_sum = f64_add (acc_sum a) val,
      acc_min = (if \<not> has_values a \<or> f64_lt val (acc_min a) then val else acc_min a),
      acc_max = (if \<not> has_values a \<or> f64_lt (acc_max a) val then val else acc_max a), has_values = True\<rparr>"

definition add_to_acc :: "TableDef \<Rightarrow> Value list \<Rightarrow> SelectCol \<Rightarrow> Acc \<Rightarrow> Acc" where
  "add_to_acc def row_vals sc a =
     (if agg_func sc = AGG_COUNT_STAR then a\<lparr>acc_count := acc_count a + 1\<rparr>
      else case find_column strcmp (sel_col sc) (columns def) of
        None \<Rightarrow> a
      | Some c \<Rightarrow> if is_null (row_vals ! c) then a else acc_value (agg_number (col_type (columns def ! c)) (row_vals ! c)) a)"

definition add_row :: "TableDef \<Rightarrow> SelectCol list \<Rightarrow> Value list \<Rightarrow> Acc list \<Rightarrow> Acc list" where
  "add_row def cols row_vals accs = map2 (add_to_acc def row_vals) cols accs"

definition acc_avg :: "Acc \<Rightarrow> f64" where
  "acc_avg a = (if acc_count a > 0 then f64_div (acc_sum a) (f64_of_int (acc_count a)) else 0)"

definition acc_text :: "AggFunc \<Rightarrow> Acc \<Rightarrow> cstr option" where
  "acc_text f a =
     (case f of
        AGG_COUNT_STAR \<Rightarrow> Some (fmt_int (acc_count a))
      | AGG_COUNT \<Rightarrow> Some (fmt_int (acc_count a))
      | AGG_SUM \<Rightarrow> Some (fmt_f2 (acc_sum a))
      | AGG_AVG \<Rightarrow> Some (fmt_f2 (acc_avg a))
      | AGG_MIN \<Rightarrow> Some (fmt_f2 (if has_values a then acc_min a else 0))
      | AGG_MAX \<Rightarrow> Some (fmt_f2 (if has_values a then acc_max a else 0))
      | AGG_NONE \<Rightarrow> None)"

section \<open>The scan\<close>

text \<open>The loop of both functions: the visible rows that satisfy the clause change the accumulators.\<close>

definition fold_body :: "(Value list \<Rightarrow> 's \<Rightarrow> 's) \<Rightarrow> WhereClause \<Rightarrow> TableDef \<Rightarrow> Catalog \<Rightarrow> 64 word \<Rightarrow> 64 word
    \<Rightarrow> Cursor \<Rightarrow> 's \<Rightarrow> Pager \<Rightarrow> (bool \<times> 's \<times> Pager) option" where
  "fold_body f wc def cat snap now c s pg = do {
     (b, pg) \<leftarrow> cursor_value c pg;
     case row_is_visible_and_active def b snap now of
       None \<Rightarrow> Some (True, s, pg)
     | Some row_vals \<Rightarrow> do {
         (ok, pg) \<leftarrow> eval_where_clause def row_vals wc cat pg;
         Some (True, if ok then f row_vals s else s, pg) } }"

definition fold_table :: "(Value list \<Rightarrow> 's \<Rightarrow> 's) \<Rightarrow> 's \<Rightarrow> WhereClause \<Rightarrow> TableDef \<Rightarrow> Catalog \<Rightarrow> Pager \<Rightarrow> ('s \<times> Pager) option" where
  "fold_table f s wc def cat pg = do {
     (c, pg) \<leftarrow> btree_start def pg;
     (c, s, pg) \<leftarrow> scan_loop (fold_body f wc def cat (get_current_snapshot_xid pg) (time_now pg)) c s pg;
     Some (s, pg) }"

section \<open>Aggregates\<close>

definition aggregate_line :: "SelectCol list \<Rightarrow> Acc list \<Rightarrow> cstr" where
  "aggregate_line cols accs =
     [40] @ commas (map2 (\<lambda>sc a. case acc_text (agg_func sc) a of None \<Rightarrow> [] | Some s \<Rightarrow> s) cols accs) @ [41]"

definition run_aggregate_select :: "SelectParse \<Rightarrow> TableDef \<Rightarrow> Catalog \<Rightarrow> Pager \<Rightarrow> (cstr \<times> Pager) option" where
  "run_aggregate_select sp def cat pg = do {
     (accs, pg) \<leftarrow> fold_table (add_row def (sel_cols sp)) (replicate (length (sel_cols sp)) zero_acc) (where_clause (select_stmt sp)) def cat pg;
     Some (aggregate_line (sel_cols sp) accs, pg) }"

section \<open>GROUP BY\<close>

record GroupBucket =
  bucket_key :: Value
  bucket_accs :: "Acc list"

text \<open>Equality of keys; of floats that of C, so NaN differs from itself.\<close>

definition same_group :: "ColumnType \<Rightarrow> Value \<Rightarrow> Value \<Rightarrow> bool" where
  "same_group ty a b =
     (if is_null a \<or> is_null b then is_null a \<and> is_null b
      else if ty = COL_INT then int_val a = int_val b
      else if ty = COL_FLOAT then f32_eq (float_val a) (float_val b)
      else if ty = COL_DOUBLE \<or> ty = COL_NUMERIC \<or> ty = COL_DECIMAL then f64_eq (double_val a) (double_val b)
      else if ty = COL_BOOL then bool_val a = bool_val b
      else strcmp (val_text a) (val_text b) = 0)"

text \<open>The first bucket with the key of the row takes it; if there is none, a new one at the end does.\<close>

fun add_to_bucket :: "('b \<Rightarrow> bool) \<Rightarrow> 'b \<Rightarrow> ('b \<Rightarrow> 'b) \<Rightarrow> 'b list \<Rightarrow> 'b list" where
  "add_to_bucket match new upd [] = [upd new]"
| "add_to_bucket match new upd (b # bs) = (if match b then upd b # bs else b # add_to_bucket match new upd bs)"

definition group_row :: "TableDef \<Rightarrow> SelectCol list \<Rightarrow> nat \<Rightarrow> Value list \<Rightarrow> GroupBucket list \<Rightarrow> GroupBucket list" where
  "group_row def cols g row_vals =
     add_to_bucket (\<lambda>b. same_group (col_type (columns def ! g)) (bucket_key b) (row_vals ! g))
       \<lparr>bucket_key = value_copy value_init (row_vals ! g), bucket_accs = replicate (length cols) zero_acc\<rparr>
       (\<lambda>b. b\<lparr>bucket_accs := add_row def cols row_vals (bucket_accs b)\<rparr>)"

text \<open>
  The column that HAVING compares; if it is not selected, the first counter for a count (\<open>None\<close> if nothing is selected, since the
  counter is then not initialised) and zero for everything else.
\<close>

definition acc_number :: "AggFunc \<Rightarrow> Acc \<Rightarrow> f64" where
  "acc_number f a =
     (case f of
        AGG_COUNT_STAR \<Rightarrow> f64_of_int (acc_count a)
      | AGG_COUNT \<Rightarrow> f64_of_int (acc_count a)
      | AGG_SUM \<Rightarrow> acc_sum a
      | AGG_AVG \<Rightarrow> acc_avg a
      | AGG_MIN \<Rightarrow> (if has_values a then acc_min a else 0)
      | AGG_MAX \<Rightarrow> (if has_values a then acc_max a else 0)
      | AGG_NONE \<Rightarrow> 0)"

definition having_value :: "Having \<Rightarrow> SelectCol list \<Rightarrow> Acc list \<Rightarrow> f64 option" where
  "having_value h cols accs =
     (case find (\<lambda>(sc, a). agg_func sc = having_func h \<and>
         (having_func h = AGG_COUNT_STAR \<or> strcasecmp (sel_col sc) (having_col h) = 0)) (zip cols accs) of
        Some (sc, a) \<Rightarrow> Some (acc_number (having_func h) a)
      | None \<Rightarrow>
          if having_func h = AGG_COUNT_STAR \<or> having_func h = AGG_COUNT
          then (case accs of [] \<Rightarrow> None | a # _ \<Rightarrow> Some (f64_of_int (acc_count a)))
          else Some 0)"

definition having_holds :: "CompOp \<Rightarrow> f64 \<Rightarrow> f64 \<Rightarrow> bool" where
  "having_holds opr v t =
     (case opr of
        OP_EQ \<Rightarrow> f64_eq v t
      | OP_LT \<Rightarrow> f64_lt v t
      | OP_GT \<Rightarrow> f64_lt t v
      | OP_LTE \<Rightarrow> f64_lt v t \<or> f64_eq v t
      | OP_GTE \<Rightarrow> f64_lt t v \<or> f64_eq v t
      | _ \<Rightarrow> False)"

definition having_passes :: "Having option \<Rightarrow> SelectCol list \<Rightarrow> Acc list \<Rightarrow> bool option" where
  "having_passes hv cols accs =
     (case hv of
        None \<Rightarrow> Some True
      | Some h \<Rightarrow> do { v \<leftarrow> having_value h cols accs; Some (having_holds (having_op h) v (atof (having_val h))) })"

definition group_key_text :: "ColumnType \<Rightarrow> Value \<Rightarrow> cstr" where
  "group_key_text ty v =
     (if is_null v then [78, 85, 76, 76]
      else if ty = COL_INT then fmt_int (sint (int_val v))
      else if ty = COL_FLOAT then fmt_f2 (f64_of_f32 (float_val v))
      else if ty = COL_DOUBLE \<or> ty = COL_NUMERIC \<or> ty = COL_DECIMAL then fmt_f2 (double_val v)
      else if ty = COL_BOOL then (if bool_val v then [116, 114, 117, 101] else [102, 97, 108, 115, 101])
      else val_text v)"

text \<open>The key comes first, wherever it is selected; another column that is no aggregate is \<open>N/A\<close>.\<close>

definition group_line :: "cstr \<Rightarrow> ColumnType \<Rightarrow> SelectCol list \<Rightarrow> GroupBucket \<Rightarrow> cstr" where
  "group_line gcol ty cols b =
     [40] @ commas (group_key_text ty (bucket_key b) #
       map (\<lambda>(sc, a). case acc_text (agg_func sc) a of None \<Rightarrow> [78, 47, 65] | Some s \<Rightarrow> s)
         (filter (\<lambda>(sc, a). \<not> (agg_func sc = AGG_NONE \<and> strcmp (sel_col sc) gcol = 0)) (zip cols (bucket_accs b)))) @ [41]"

fun group_lines :: "Having option \<Rightarrow> SelectCol list \<Rightarrow> (GroupBucket \<Rightarrow> cstr) \<Rightarrow> GroupBucket list \<Rightarrow> cstr list option" where
  "group_lines hv cols line [] = Some []"
| "group_lines hv cols line (b # bs) = do {
     ok \<leftarrow> having_passes hv cols (bucket_accs b);
     ls \<leftarrow> group_lines hv cols line bs;
     Some (if ok then line b # ls else ls) }"

definition run_group_by_select :: "SelectParse \<Rightarrow> cstr \<Rightarrow> TableDef \<Rightarrow> Catalog \<Rightarrow> Pager \<Rightarrow> (ExecuteResult \<times> cstr list \<times> Pager) option" where
  "run_group_by_select sp gcol def cat pg =
     (case find_column strcmp gcol (columns def) of
        None \<Rightarrow> Some (EXECUTE_BAD_SCHEMA, [], pg)
      | Some g \<Rightarrow> do {
          (bs, pg) \<leftarrow> fold_table (group_row def (sel_cols sp) g) [] (where_clause (select_stmt sp)) def cat pg;
          ls \<leftarrow> group_lines (having sp) (sel_cols sp) (group_line gcol (col_type (columns def ! g)) (sel_cols sp)) bs;
          Some (EXECUTE_SUCCESS, ls, pg) })"

end
