(* ===== verification/Aggregate_Rows.thy ===== *)
theory Aggregate_Rows
  imports Aggregate Select_Rows
begin

text \<open>
  What aggregates and GROUP BY return: the reference is the list of the visible rows that satisfy the clause, from
  which each field is computed directly, and the partition of that list by the key.
\<close>

section \<open>The rows of a scan\<close>

definition picked :: "TableDef \<Rightarrow> Catalog \<Rightarrow> (TableDef \<Rightarrow> stored list) \<Rightarrow> WhereClause \<Rightarrow> 64 word \<Rightarrow> 64 word \<Rightarrow> stored list \<Rightarrow> Value list list" where
  "picked def cat rs wc snap now rows = map fst (filter (\<lambda>r. visible snap now r \<and> where_meaning rs def (fst r) wc cat) rows)"

definition fold_step where
  "fold_step f def cat rs wc snap now r s =
     (True, if visible snap now r \<and> where_meaning rs def (fst r) wc cat then f (fst r) s else s)"

lemma fold_body_runs:
  assumes "catalog_stored cat V reserved ds rs"
  shows "tree_rows.runs_as I V reserved def d rows (fold_body f wc def cat snap now) (fold_step f def cat rs wc snap now)"
  unfolding tree_rows.runs_as_def
proof (intro allI impI)
  fix p c n s assume p: "presented I V reserved p" "on_row def V reserved d rows c n" "n < length rows"
  obtain q where q: "fetch_stored def c p = Some (rows ! n, q)" "presented I V reserved q"
    using tree_rows.fetch_row [OF p] by blast
  then obtain b where b: "cursor_value c p = Some (b, q)" "deserialize_row_with_mvcc def b = rows ! n"
    by (auto simp: fetch_stored_def split: bind_splits)
  obtain t where "eval_where_clause def (fst (rows ! n)) wc cat q = Some (where_meaning rs def (fst (rows ! n)) wc cat, t)" "presented I V reserved t"
    using eval_where_meaning [OF assms(1) q(2)] by blast
  then show "\<exists>q. fold_body f wc def cat snap now c s p = Some (fst (fold_step f def cat rs wc snap now (rows ! n) s),
      snd (fold_step f def cat rs wc snap now (rows ! n) s), q) \<and> presented I V reserved q"
    using b q(2) by (auto simp: fold_body_def fold_step_def row_visible_stored Let_def)
qed

lemma walk_fold:
  "walk (fold_step f def cat rs wc snap now) rows s = foldl (\<lambda>s r. f r s) s (picked def cat rs wc snap now rows)"
  by (induction rows arbitrary: s) (simp_all add: fold_step_def picked_def)

text \<open>The snapshot is taken after the cursor is on the first row.\<close>

lemma fold_table_rows:
  assumes "catalog_stored cat V reserved ds rs" "presented I V reserved pg" "stores def V reserved d rows"
  shows "\<exists>c p q. btree_start def pg = Some (c, p) \<and> fold_table f s wc def cat pg =
      Some (foldl (\<lambda>s r. f r s) s (picked def cat rs wc (get_current_snapshot_xid p) (time_now p) rows), q) \<and> presented I V reserved q"
proof -
  obtain c q where c: "btree_start def pg = Some (c, q)" "presented I V reserved q" "on_row def V reserved d rows c 0"
    using start_row [OF assms(3,2)] by blast
  from tree_rows.scan_walk [OF fold_body_runs [OF assms(1)] c(2,3), of f wc "get_current_snapshot_xid q" "time_now q" s] c(1)
  show ?thesis by (auto simp: fold_table_def walk_fold)
qed

section \<open>The accumulators\<close>

text \<open>The numbers that a column contributes, without the NULLs.\<close>

definition agg_values :: "TableDef \<Rightarrow> SelectCol \<Rightarrow> Value list list \<Rightarrow> f64 list" where
  "agg_values def sc rows =
     (case find_column strcmp (sel_col sc) (columns def) of
        None \<Rightarrow> []
      | Some c \<Rightarrow> map (\<lambda>r. agg_number (col_type (columns def ! c)) (r ! c)) (filter (\<lambda>r. \<not> is_null (r ! c)) rows))"

definition running :: "(f64 \<Rightarrow> f64 \<Rightarrow> bool) \<Rightarrow> f64 list \<Rightarrow> f64" where
  "running lt vs = (case vs of [] \<Rightarrow> 0 | v # vs \<Rightarrow> foldl (\<lambda>m v. if lt v m then v else m) v vs)"

definition avg_of :: "f64 list \<Rightarrow> f64" where
  "avg_of vs = (if vs = [] then 0 else f64_div (foldl f64_add 0 vs) (f64_of_int (int (length vs))))"

text \<open>A field from the rows and the numbers.\<close>

fun field_of :: "AggFunc \<Rightarrow> 'r list \<Rightarrow> f64 list \<Rightarrow> cstr option" where
  "field_of AGG_COUNT_STAR rows vs = Some (fmt_int (int (length rows)))"
| "field_of AGG_COUNT rows vs = Some (fmt_int (int (length vs)))"
| "field_of AGG_SUM rows vs = Some (fmt_f2 (foldl f64_add 0 vs))"
| "field_of AGG_AVG rows vs = Some (fmt_f2 (avg_of vs))"
| "field_of AGG_MIN rows vs = Some (fmt_f2 (running f64_lt vs))"
| "field_of AGG_MAX rows vs = Some (fmt_f2 (running (\<lambda>a b. f64_lt b a) vs))"
| "field_of AGG_NONE rows vs = None"

lemma fold_values:
  "foldl (\<lambda>a v. acc_value v a) \<lparr>acc_count = n, acc_sum = s, acc_min = m, acc_max = x, has_values = True\<rparr> vs =
    \<lparr>acc_count = n + int (length vs), acc_sum = foldl f64_add s vs, acc_min = foldl (\<lambda>m v. if f64_lt v m then v else m) m vs,
     acc_max = foldl (\<lambda>m v. if f64_lt m v then v else m) x vs, has_values = True\<rparr>"
  by (induction vs arbitrary: n s m x) (simp_all add: acc_value_def)

lemma fold_acc_values:
  assumes "agg_func sc \<noteq> AGG_COUNT_STAR"
  shows "foldl (\<lambda>a r. add_to_acc def r sc a) a rows = foldl (\<lambda>a v. acc_value v a) a (agg_values def sc rows)"
  using assms by (induction rows arbitrary: a) (simp_all add: add_to_acc_def agg_values_def split: option.split)

lemma fold_acc_rows:
  assumes "agg_func sc = AGG_COUNT_STAR"
  shows "foldl (\<lambda>a r. add_to_acc def r sc a) a rows = a\<lparr>acc_count := acc_count a + int (length rows)\<rparr>"
  using assms by (induction rows arbitrary: a) (simp_all add: add_to_acc_def)

abbreviation acc_of :: "TableDef \<Rightarrow> Value list list \<Rightarrow> SelectCol \<Rightarrow> Acc" where
  "acc_of def rows sc \<equiv> foldl (\<lambda>a r. add_to_acc def r sc a) zero_acc rows"

lemma acc_text_of: "acc_text (agg_func sc) (acc_of def rows sc) = field_of (agg_func sc) rows (agg_values def sc rows)"
proof (cases "agg_func sc = AGG_COUNT_STAR")
  case True
  then show ?thesis by (simp add: fold_acc_rows acc_text_def zero_acc_def)
next
  case False
  show ?thesis
  proof (cases "agg_values def sc rows")
    case Nil
    then show ?thesis using False
      by (cases "agg_func sc") (simp_all add: fold_acc_values acc_text_def zero_acc_def acc_avg_def avg_of_def running_def)
  next
    case (Cons v vs)
    then have "acc_of def rows sc =
        \<lparr>acc_count = 1 + int (length vs), acc_sum = foldl f64_add (f64_add 0 v) vs, acc_min = foldl (\<lambda>m v. if f64_lt v m then v else m) v vs,
         acc_max = foldl (\<lambda>m v. if f64_lt m v then v else m) v vs, has_values = True\<rparr>"
      using fold_values [of 1 _ v v vs] False by (simp add: fold_acc_values zero_acc_def acc_value_def)
    then show ?thesis using False Cons
      by (cases "agg_func sc") (simp_all add: acc_text_def acc_avg_def avg_of_def running_def add.commute)
  qed
qed

lemma map2_map2: "length ys = length xs \<Longrightarrow> map2 f xs (map2 g xs ys) = map2 (\<lambda>x y. f x (g x y)) xs ys"
  by (induction ys xs rule: list_induct2) simp_all

lemma fold_add_row:
  assumes "length accs = length cols"
  shows "foldl (\<lambda>s r. add_row def cols r s) accs rows = map2 (\<lambda>sc a. foldl (\<lambda>a r. add_to_acc def r sc a) a rows) cols accs"
  using assms
proof (induction rows arbitrary: accs)
  case Nil
  then show ?case by (induction accs cols rule: list_induct2) simp_all
next
  case (Cons r rows)
  have "length (add_row def cols r accs) = length cols" using Cons.prems by (simp add: add_row_def)
  from Cons.IH [OF this] show ?case by (simp only: foldl_Cons add_row_def map2_map2 [OF Cons.prems])
qed

lemma fold_add_row_zero:
  "foldl (\<lambda>s r. add_row def cols r s) (replicate (length cols) zero_acc) rows = map (acc_of def rows) cols"
  by (simp add: fold_add_row) (induction cols, simp_all)

text \<open>MIN and MAX: an element that none is smaller (greater) than, unless there are NaNs.\<close>

lemma running_in: "vs \<noteq> [] \<Longrightarrow> running lt vs \<in> set vs"
proof -
  have "foldl (\<lambda>m v. if lt v m then v else m) v vs \<in> insert v (set vs)" for v vs
    by (induction vs arbitrary: v) auto
  then show "vs \<noteq> [] \<Longrightarrow> ?thesis" by (cases vs) (auto simp: running_def)
qed

lemma running_bound:
  assumes "\<And>a b. a \<in> S \<Longrightarrow> b \<in> S \<Longrightarrow> lt a b \<longleftrightarrow> g a < (g b :: int)" "insert v (set vs) \<subseteq> S"
  shows "foldl (\<lambda>m v. if lt v m then v else m) v vs \<in> S \<and> (\<forall>w \<in> insert v (set vs). g (foldl (\<lambda>m v. if lt v m then v else m) v vs) \<le> g w)"
  using assms(2)
proof (induction vs arbitrary: v)
  case (Cons u vs)
  let ?m = "if lt u v then u else v"
  have "insert ?m (set vs) \<subseteq> S" using Cons.prems by auto
  moreover have "g ?m \<le> g v" "g ?m \<le> g u" using assms(1) [of u v] Cons.prems by auto
  ultimately show ?case using Cons.IH [of ?m] by auto
qed simp

lemma running_least:
  assumes "\<forall>v \<in> set vs. \<not> f64_nan v" "w \<in> set vs"
  shows "\<not> f64_lt w (running f64_lt vs)" "\<not> f64_lt (running (\<lambda>a b. f64_lt b a) vs) w"
proof -
  obtain v us where vs: "vs = v # us" using assms(2) by (cases vs) auto
  let ?S = "{v. \<not> f64_nan v}"
  have "insert v (set us) \<subseteq> ?S" using assms(1) vs by auto
  from running_bound [of ?S f64_lt f64_ord, OF _ this] running_bound [of ?S "\<lambda>a b. f64_lt b a" "\<lambda>v. - f64_ord v", OF _ this]
  show "\<not> f64_lt w (running f64_lt vs)" "\<not> f64_lt (running (\<lambda>a b. f64_lt b a) vs) w"
    using assms(2) by (auto simp: running_def vs f64_lt_def)
qed


section \<open>Aggregates\<close>

lemma map2_map_right_same: "map2 f xs (map g xs) = map (\<lambda>x. f x (g x)) xs"
  by (induction xs) simp_all


section \<open>Groups\<close>

text \<open>The rows with the key of the first row, then the groups of the others.\<close>

function groups :: "('r \<Rightarrow> 'r \<Rightarrow> bool) \<Rightarrow> 'r list \<Rightarrow> 'r list list" where
  "groups same [] = []"
| "groups same (r # rs) = (r # filter (same r) rs) # groups same (filter (\<lambda>x. \<not> same r x) rs)"
  by pat_completeness auto
termination by (relation "measure (\<lambda>(same, rs). length rs)") (auto simp: le_imp_less_Suc)

lemma groups_snoc: "groups same (rs @ [r]) = add_to_bucket (\<lambda>g. same (hd g) r) [] (\<lambda>g. g @ [r]) (groups same rs)"
  by (induction same rs rule: groups.induct) simp_all

lemma groups_nonempty: "g \<in> set (groups same rs) \<Longrightarrow> g \<noteq> []"
  by (induction same rs rule: groups.induct) auto

lemma map_add_to_bucket:
  assumes "\<And>g. g \<in> set gs \<Longrightarrow> match' (h g) = match g \<and> h (upd g) = upd' (h g)" "h (upd new) = upd' new'"
  shows "map h (add_to_bucket match new upd gs) = add_to_bucket match' new' upd' (map h gs)"
  using assms by (induction gs) auto

text \<open>Adding the rows one by one to the first bucket that matches makes the buckets of the groups.\<close>

lemma buckets_of_groups:
  assumes "\<And>g r. g \<noteq> [] \<Longrightarrow> match r (h g) = same (hd g) r" "\<And>g r. g \<noteq> [] \<Longrightarrow> h (g @ [r]) = upd r (h g)" "\<And>r. h [r] = upd r (new r)"
  shows "foldl (\<lambda>bs r. add_to_bucket (match r) (new r) (upd r) bs) [] rows = map h (groups same rows)"
proof (induction rows rule: rev_induct)
  case (snoc r rows)
  have "map h (groups same (rows @ [r])) = add_to_bucket (match r) (new r) (upd r) (map h (groups same rows))"
    unfolding groups_snoc
  proof (rule map_add_to_bucket)
    show "match r (h g) = same (hd g) r \<and> h (g @ [r]) = upd r (h g)" if "g \<in> set (groups same rows)" for g
      using assms(1,2) [OF groups_nonempty [OF that], of r] by simp
  qed (simp add: assms(3))
  then show ?case using snoc by simp
qed simp

text \<open>The groups are a partition of the rows by their keys, if equality of keys is an equivalence.\<close>

lemma mset_groups: "mset (concat (groups same rs)) = mset rs"
proof (induction same rs rule: groups.induct)
  case (2 same r rs)
  then show ?case using multiset_partition [of "mset rs" "same r"] by simp
qed simp

lemma groups_sub: "g \<in> set (groups same rs) \<Longrightarrow> set g \<subseteq> set rs"
  by (induction same rs rule: groups.induct) auto

lemma groups_classes:
  assumes "\<And>x. x \<in> A \<Longrightarrow> same x x" "\<And>x y. x \<in> A \<Longrightarrow> y \<in> A \<Longrightarrow> same x y \<Longrightarrow> same y x"
    "\<And>x y z. x \<in> A \<Longrightarrow> y \<in> A \<Longrightarrow> z \<in> A \<Longrightarrow> same x y \<Longrightarrow> same y z \<Longrightarrow> same x z" "set rs \<subseteq> A" "g \<in> set (groups same rs)"
  shows "g = filter (same (hd g)) rs"
  using assms(4,5)
proof (induction rs rule: measure_induct_rule [of length])
  case (less rs)
  show ?case
  proof (cases rs)
    case (Cons r xs)
    let ?rest = "filter (\<lambda>x. \<not> same r x) xs"
    have A: "r \<in> A" "set xs \<subseteq> A" using less.prems(1) Cons by simp_all
    from less.prems(2) consider (first) "g = r # filter (same r) xs" | (later) "g \<in> set (groups same ?rest)" by (auto simp: Cons)
    then show ?thesis
    proof cases
      case first
      then show ?thesis using assms(1) [OF A(1)] by (simp add: Cons)
    next
      case later
      let ?h = "hd g"
      have h: "?h \<in> A" "\<not> same r ?h"
        using subsetD [OF groups_sub [OF later] hd_in_set [OF groups_nonempty [OF later]]] A(2) by auto
      have "g = filter (same ?h) ?rest"
        by (rule less.IH) (use later A(2) in \<open>auto simp: Cons le_imp_less_Suc\<close>)
      also have "\<dots> = filter (same ?h) xs"
        unfolding filter_filter
      proof (rule filter_cong)
        fix x assume "x \<in> set xs"
        then have x: "x \<in> A" using A(2) by auto
        then show "(\<not> same r x \<and> same ?h x) = same ?h x" using assms(2,3) h A(1) by metis
      qed simp
      also have "\<dots> = filter (same ?h) (r # xs)" using assms(2) h A(1) by auto
      finally show ?thesis by (simp add: Cons)
    qed
  qed (use less.prems(2) in simp)
qed


section \<open>GROUP BY\<close>

abbreviation key_eq :: "TableDef \<Rightarrow> nat \<Rightarrow> Value list \<Rightarrow> Value list \<Rightarrow> bool" where
  "key_eq def g r r' \<equiv> same_group (col_type (columns def ! g)) (r ! g) (r' ! g)"

definition group_bucket :: "TableDef \<Rightarrow> SelectCol list \<Rightarrow> nat \<Rightarrow> Value list list \<Rightarrow> GroupBucket" where
  "group_bucket def cols g grp = \<lparr>bucket_key = value_copy value_init (hd grp ! g), bucket_accs = map (acc_of def grp) cols\<rparr>"

lemma copy_text_bytes:
  assumes "value_wf v" "\<not> is_null v"
  shows "val_text (value_copy value_init v) = val_text v"
  using assms by (cases "text_val v") (simp_all add: val_text_def value_copy_def value_set_text_len_def value_wf_def Let_def)

lemma same_group_copy: "value_wf a \<Longrightarrow> same_group ty (value_copy value_init a) b = same_group ty a b"
  using copy_text_bytes [of a] by (simp add: same_group_def)

lemma group_key_text_copy: "value_wf v \<Longrightarrow> group_key_text ty (value_copy value_init v) = group_key_text ty v"
  using copy_text_bytes [of v] by (simp add: group_key_text_def)

lemma groups_cong:
  assumes "\<And>x y. x \<in> set rs \<Longrightarrow> y \<in> set rs \<Longrightarrow> s x y = s' x y"
  shows "groups s rs = groups s' rs"
  using assms
proof (induction s rs rule: groups.induct)
  case (2 s r rs)
  have "filter (s r) rs = filter (s' r) rs" "filter (\<lambda>x. \<not> s r x) rs = filter (\<lambda>x. \<not> s' r x) rs"
    using 2(2) by (auto intro: filter_cong)
  then show ?case using 2 by simp
qed simp

text \<open>The buckets of the loop are those of the groups.\<close>

lemma group_buckets:
  assumes "\<forall>r \<in> set rows. value_wf (r ! g)"
  shows "foldl (\<lambda>s r. group_row def cols g r s) [] rows = map (group_bucket def cols g) (groups (key_eq def g) rows)"
proof -
  let ?same = "\<lambda>r r'. same_group (col_type (columns def ! g)) (value_copy value_init (r ! g)) (r' ! g)"
  have "foldl (\<lambda>s r. group_row def cols g r s) [] rows = map (group_bucket def cols g) (groups ?same rows)"
    unfolding group_row_def
  proof (rule buckets_of_groups)
    have add: "add_row def cols r (map (acc_of def grp) cols) = map (acc_of def (grp @ [r])) cols" for r grp
      unfolding add_row_def by (induction cols) simp_all
    show "group_bucket def cols g (grp @ [r]) = group_bucket def cols g grp\<lparr>bucket_accs := add_row def cols r (bucket_accs (group_bucket def cols g grp))\<rparr>"
      if "grp \<noteq> []" for grp r
      using that by (simp add: group_bucket_def add)
    have "replicate (length cols) zero_acc = map (acc_of def []) cols" by (induction cols) simp_all
    then show "group_bucket def cols g [r] =
        \<lparr>bucket_key = value_copy value_init (r ! g), bucket_accs = replicate (length cols) zero_acc\<rparr>
        \<lparr>bucket_accs := add_row def cols r (bucket_accs \<lparr>bucket_key = value_copy value_init (r ! g), bucket_accs = replicate (length cols) zero_acc\<rparr>)\<rparr>" for r
      using add [of r "[]"] by (simp add: group_bucket_def)
  qed (simp add: group_bucket_def)
  also have "groups ?same rows = groups (key_eq def g) rows"
    by (rule groups_cong) (use assms in \<open>simp add: same_group_copy\<close>)
  finally show ?thesis .
qed

text \<open>The fields and the condition of HAVING, from the rows of a group.\<close>

fun number_of_field :: "AggFunc \<Rightarrow> 'r list \<Rightarrow> f64 list \<Rightarrow> f64" where
  "number_of_field AGG_COUNT_STAR rows vs = f64_of_int (int (length rows))"
| "number_of_field AGG_COUNT rows vs = f64_of_int (int (length vs))"
| "number_of_field AGG_SUM rows vs = foldl f64_add 0 vs"
| "number_of_field AGG_AVG rows vs = avg_of vs"
| "number_of_field AGG_MIN rows vs = running f64_lt vs"
| "number_of_field AGG_MAX rows vs = running (\<lambda>a b. f64_lt b a) vs"
| "number_of_field AGG_NONE rows vs = 0"

definition group_text :: "TableDef \<Rightarrow> SelectCol list \<Rightarrow> cstr \<Rightarrow> nat \<Rightarrow> Value list list \<Rightarrow> cstr" where
  "group_text def cols gcol g grp =
     [40] @ commas (group_key_text (col_type (columns def ! g)) (hd grp ! g) #
       map (\<lambda>sc. case field_of (agg_func sc) grp (agg_values def sc grp) of None \<Rightarrow> [78, 47, 65] | Some s \<Rightarrow> s)
         (filter (\<lambda>sc. \<not> (agg_func sc = AGG_NONE \<and> strcmp (sel_col sc) gcol = 0)) cols)) @ [41]"

text \<open>HAVING looks for its function among the selected columns; if it is there, it compares its value.\<close>

definition having_column :: "Having \<Rightarrow> SelectCol list \<Rightarrow> SelectCol option" where
  "having_column h cols = find (\<lambda>sc. agg_func sc = having_func h \<and> (having_func h = AGG_COUNT_STAR \<or> strcasecmp (sel_col sc) (having_col h) = 0)) cols"

definition having_true :: "TableDef \<Rightarrow> Having \<Rightarrow> SelectCol \<Rightarrow> Value list list \<Rightarrow> bool" where
  "having_true def h sc grp = having_holds (having_op h) (number_of_field (having_func h) grp (agg_values def sc grp)) (atof (having_val h))"

lemma acc_number_of: "acc_number (agg_func sc) (acc_of def rows sc) = number_of_field (agg_func sc) rows (agg_values def sc rows)"
proof (cases "agg_func sc = AGG_COUNT_STAR")
  case True
  then show ?thesis by (simp add: fold_acc_rows acc_number_def zero_acc_def)
next
  case False
  show ?thesis
  proof (cases "agg_values def sc rows")
    case Nil
    then show ?thesis using False
      by (cases "agg_func sc") (simp_all add: fold_acc_values acc_number_def zero_acc_def acc_avg_def avg_of_def running_def)
  next
    case (Cons v vs)
    then show ?thesis using False fold_values [of 1 _ v v vs]
      by (cases "agg_func sc")
        (simp_all add: fold_acc_values zero_acc_def acc_value_def acc_number_def acc_avg_def avg_of_def running_def add.commute)
  qed
qed

lemma zip_map_same: "zip xs (map f xs) = map (\<lambda>x. (x, f x)) xs"
  by (induction xs) simp_all

lemma find_map: "find P (map f xs) = map_option f (find (\<lambda>x. P (f x)) xs)"
  by (induction xs) simp_all

lemma group_line_text:
  assumes "value_wf (hd grp ! g)"
  shows "group_line gcol (col_type (columns def ! g)) cols (group_bucket def cols g grp) = group_text def cols gcol g grp"
  using group_key_text_copy [OF assms]
  by (simp add: group_line_def group_text_def group_bucket_def zip_map_same filter_map o_def acc_text_of)

lemma having_passes_true:
  assumes "\<And>h. hv = Some h \<Longrightarrow> having_column h cols \<noteq> None"
  shows "having_passes hv cols (bucket_accs (group_bucket def cols g grp)) =
    Some (case hv of None \<Rightarrow> True | Some h \<Rightarrow> having_true def h (the (having_column h cols)) grp)"
proof (cases hv)
  case (Some h)
  then obtain sc where sc: "having_column h cols = Some sc" using assms by auto
  then have f: "agg_func sc = having_func h" by (auto simp: having_column_def find_Some_iff)
  have "having_value h cols (map (acc_of def grp) cols) = Some (acc_number (agg_func sc) (acc_of def grp sc))"
    using sc f by (simp add: having_value_def zip_map_same find_map having_column_def)
  then show ?thesis using Some sc acc_number_of [of sc def grp] f by (simp add: having_passes_def having_true_def group_bucket_def)
qed (simp add: having_passes_def)

lemma group_lines_filter:
  assumes "\<And>b. b \<in> set bs \<Longrightarrow> having_passes hv cols (bucket_accs b) = Some (P b)"
  shows "group_lines hv cols line bs = Some (map line (filter P bs))"
  using assms by (induction bs) simp_all


lemma same_group_equiv:
  assumes "ty \<noteq> COL_FLOAT \<and> ty \<noteq> COL_DOUBLE \<and> ty \<noteq> COL_NUMERIC \<and> ty \<noteq> COL_DECIMAL"
  shows "same_group ty a a" "same_group ty a b \<Longrightarrow> same_group ty b a" "same_group ty a b \<Longrightarrow> same_group ty b c \<Longrightarrow> same_group ty a c"
  using assms by (auto simp: same_group_def split: if_splits)

lemma picked_sub: "set (picked def cat rs wc snap now rows) \<subseteq> fst ` set rows"
  by (auto simp: picked_def)


section \<open>At a concrete store\<close>

text \<open>\<open>SELECT count(*), max(id) FROM t\<close>, and \<open>SELECT id, count(*) FROM t GROUP BY id\<close>, on the table with rows 2, 3, 5, 7.\<close>

definition sample_aggregate :: SelectParse where
  "sample_aggregate = \<lparr>from_table = [], is_aggregate = True, sel_cols = [zero_select_col\<lparr>agg_func := AGG_COUNT_STAR\<rparr>, zero_select_col\<lparr>agg_func := AGG_COUNT\<rparr>],
     joins = [], group_by = None, having = None, select_stmt = no_select\<rparr>"

definition sample_group :: SelectParse where
  "sample_group = \<lparr>from_table = [], is_aggregate = True, sel_cols = [zero_select_col, zero_select_col\<lparr>agg_func := AGG_COUNT_STAR\<rparr>],
     joins = [], group_by = Some [], having = Some \<lparr>having_func = AGG_COUNT_STAR, having_col = [], having_op = OP_GTE, having_val = [49]\<rparr>,
     select_stmt = no_select\<rparr>"

lemma picked_sample:
  "picked sample_table cat rs (where_clause no_select) snap now (sample_stored xs) = map int_row xs"
  by (induction xs) (simp_all add: picked_def sample_stored_def visible_sample where_meaning_def no_select_def)


lemma one_is_enough: "having_holds OP_GTE (f64_of_int 1) (atof [49])"
proof -
  have "f64_of_int 1 = 0x3FF0000000000000"
    by (simp add: f64_of_int_def f64_make_def fp_round_def ilog2.simps)
  moreover have "atof [49] = 0x3FF0000000000000"
    by (simp add: atof_def strtod_def split_sign_def skip_spaces_def is_space_def starts_nocase_def to_lower_def strtod_decimal_def
      split_point_def is_digit_def exponent_of_def f64_of_decimal_def f64_make_def fp_round_def ilog2.simps digits_val_def)
  ultimately show ?thesis by (simp add: having_holds_def f64_eq_def f64_nan_def f64_mag_def)
qed


end
