(* ===== verification/Spec2Isabelle.thy ===== *)
theory Spec2Isabelle
  imports Record_Roundtrip Wal_Readers Btree_Split Catalog_Store Select_Rows Insert_Run Modify_Sample Parser_Sample Locks_Progress Aggregate_Rows
begin

text \<open>
  customDB is a small SQL engine in C.  This development models its storage engine, the parser and the execution
  of single-table statements, from bytes on the disk to the rows a SELECT prints, and proves them correct.

  \<^bold>\<open>How the program is put together.\<close>  A statement is parsed (\<open>src/parser.c\<close>) into a struct and executed
  (\<open>src/executor.c\<close>), partly by compiling a program for a virtual machine (\<open>src/vdbe.c\<close>).  Tables and their
  indexes are B+ trees (\<open>src/btree.c\<close>) whose cells hold packed records (\<open>src/catalog.c\<close>); the definitions of the
  tables are the catalog, on reserved pages.  Pages come from the pager (\<open>src/pager.c\<close>), which has a cache,
  byte-range locks against other processes, a rollback journal, a write-ahead log, and copies of pages for
  readers while a transaction writes.

  \<^bold>\<open>The theories, from the bottom up.\<close>
    \<^item> Prelude: bytes, buffers (a buffer is a byte list, \<open>overlay\<close> writes into it), little-endian words,
      C strings, the collections of simplification rules.
    \<^item> Floats: binary64 and binary32 as bit patterns: comparison, conversion, arithmetic.
    \<^item> Values: \<open>Value\<close>, \<open>Column\<close>, \<open>TableDef\<close> and the life cycle of a value's text (\<open>include/catalog.h\<close>).
    \<^item> Record_Format, Record_Roundtrip: \<open>serialize_row_with_mvcc\<close>, \<open>deserialize_row_with_mvcc\<close>, varints, the
      shortcut \<open>extract_col0_from_packed_record\<close>; reading back what was written.
    \<^item> Files, Crc: files and the part of the operating system the pager uses; the checksum of a frame.
    \<^item> Locks, Locks_Progress: \<open>pager_lock\<close> and \<open>pager_unlock\<close> as steps over three lock bytes, any number of
      processes interleaving single \<open>fcntl\<close> calls; why a writer at PENDING is not starved.
    \<^item> Pager, Transactions, Rollback: the \<open>Pager\<close> struct as a record; \<open>get_page\<close>, \<open>pager_flush\<close>, the
      journal, commit, rollback, savepoints, recovery at open.
    \<^item> Wal, Wal_Readers: log frames, checkpoint, backup and restore.
    \<^item> Btree_Page, Btree_Leaf, Btree: nodes as accessors into a page's bytes, the slotted leaf, defragmentation.
    \<^item> Btree_Search, Btree_Store: lookup, cursors and scans over trees of any height.
    \<^item> Btree_Overflow, Btree_Update, Btree_Insert, Btree_Table, Btree_Split: overflow chains, insertion, splits.
    \<^item> Btree_Delete, Btree_Shrink: deletion, borrowing and merging.
    \<^item> Btree_Sample: a concrete database with a table of one leaf, for the witnesses.
    \<^item> Catalog, Catalog_Codec, Catalog_Store: loading and saving the catalog, field by field.
    \<^item> Cstdlib, Matching: \<open>atoi\<close>, \<open>atof\<close>, \<open>snprintf\<close> of numbers, \<open>strstr\<close>, \<open>qsort\<close>; LIKE and GLOB.
    \<^item> Mvcc, Scan: visibility of a row version; the loop over a cursor that every statement has.
    \<^item> Where, Where_Rows: the WHERE clause with its subqueries.
    \<^item> Select, Select_Order, Select_Rows: SELECT over one table, its three access paths, ORDER BY, DISTINCT, LIMIT.
    \<^item> Vdbe, Vdbe_Types: the virtual machine, one definition for each opcode; typing of registers, termination.
    \<^item> Insert, Insert_Run: the INSERT statement and what its program does.
    \<^item> Modify, Btree_Versions, Modify_Rows, Modify_Sample: \<open>run_update_vm\<close> and \<open>run_delete_vm\<close> with foreign keys;
      a leaf as a list of row versions; the two statements as operations on that list; a concrete table.
    \<^item> Aggregate, Aggregate_Rows: \<open>run_aggregate_select\<close> and \<open>run_group_by_select\<close>, and what they print.
    \<^item> Parser_Tokens, Parser_Where, Parser_Create, Parser_Select, Parser_Modify, Parser_Schema, Parser:
      \<open>prepare_statement\<close>, from the hand-written scanners of \<open>src/parser.c\<close> up to the choice of a statement.
    \<^item> Parser_Where_Print, Parser_Statements, Parser_Sample: printers of clauses and statements, which the parser
      inverts; concrete texts that it misreads.

  \<^bold>\<open>Conventions.\<close>  A definition bears the name of the C function it models; a part of a long function has a
  name of its own, and the manifest names the lines.  Structs are records, enums datatypes, integers words of
  their width.  State is passed explicitly, the \<open>Pager\<close> with the operating system inside it.  \<open>None\<close> is a
  run in which C promises nothing more (a NULL pointer dereferenced, an array overrun) or the process ends.
  A loop that reads pages may run forever on a damaged file, so it is a \<open>partial_function\<close> in the option
  monad, and the theorems prove that it returns on well-formed trees.  Cursors and pages are references
  (page numbers) as in the code, since \<open>get_page\<close> may return a cached page or a shadow of it.

  \<^bold>\<open>What is proved.\<close>  The properties bear the numbers C1, C2, \dots of the manifest, in the theory of the
  component.  Transactions: isolation, rollback, commit, crash recovery.  Records:
  every row that fits is read back.  Trees: lookup finds the position, scans run in key order, insertion
  (with a split) and deletion refine operations on the sorted list of rows.  Statements: a WHERE clause has
  its meaning over the stored rows, a SELECT prints the visible rows that satisfy it, whatever the access
  path, aggregates are those of the satisfying rows and GROUP BY partitions them, a compiled INSERT stores its
  row, UPDATE and DELETE refine operations on the list of row versions.  The parser reads back every printable
  INSERT, UPDATE, DELETE and WHERE clause.  Locks exclude each other and a pending writer proceeds.  The remaining theorems state defects that the model exposes, each
  with an input on which it shows.

  \<^bold>\<open>Interfaces.\<close>  Where a component rests on the contract of another, the contract is a locale:
  \<open>codec\<close> (what a decoder returns after an encoder), \<open>comparator\<close> (the laws sorting and searching need),
  \<open>matcher\<close> (a pattern matcher and the language of a pattern) and \<open>row_source\<close> (the cursor a statement
  loops over).  Each is interpreted on the definitions of the model in the theory that provides them.

  \<^bold>\<open>Bounds.\<close>  There is no fuel: loops that might not end are partial functions, and that they return is part
  of the theorems (the header-size loop of a record in C5, lookups and scans of trees in C9 to C14, programs
  of the virtual machine in C22).  The loops of the parser that do not end on some texts are partial functions too:
  C18 and C19 prove that they return on printed statements, C39 that one does not on another text.  A row has at
  most 16 columns, a program at most 16 registers and 4 cursors.

  \<^bold>\<open>Not modelled.\<close>  The firing of triggers, joins, set operations, expressions (\<open>eval_expr_string\<close> is a
  parameter), the execution of DDL, PRAGMA, VACUUM and virtual tables, the release of a parsed statement, the
  client API, the server and the shell; output other than rows; failures of \<open>malloc\<close> and of file operations;
  threads inside one process (the pager's mutex is held through an operation).
\<close>

end
